(* ===== verification/Prelude.thy ===== *)
theory Prelude
  imports Complex_Main "HOL-Library.AList" "HOL-Library.Sublist"
begin

text \<open>
  What the components share: Python values and strings, insertion-ordered dictionaries,
  tables of rows with the \<open>SELECT\<close>, \<open>UPDATE\<close> and \<open>INSERT OR REPLACE\<close> shapes the stores
  use, and the generic lemmas about them.

  Conventions of the whole development. A Python \<open>str\<close> is a \<^typ>\<open>string\<close> (code points
  0 to 255); a Python \<open>int\<close> is \<^typ>\<open>int\<close>; a Python \<open>float\<close> (times, money, ratios) is an
  exact \<^typ>\<open>real\<close>, so rounding of sums is not modelled; a \<open>dict\<close> is an association list in
  insertion order, updated with \<^const>\<open>AList.update\<close>; reading a clock, drawing a random
  number or a UUID is an explicit argument; a raised exception is the \<open>Inl\<close> of a sum.
\<close>

named_theorems table_simps \<open>rewriting of the table operations\<close>
named_theorems guard_simps \<open>characterisations of the guards a component checks\<close>

subsection \<open>Python values that reach a store: what \<open>json\<close> can carry\<close>

datatype json =
    JNull
  | JBool bool
  | JInt int
  | JFloat real
  | JStr string
  | JArr "json list"
  | JObj "(string \<times> json) list"

type_synonym jobj = "(string \<times> json) list"

text \<open>\<open>d.get(k, default)\<close> and \<open>d[k] = v\<close> on a dictionary.\<close>

definition dict_get :: "('k \<times> 'v) list \<Rightarrow> 'k \<Rightarrow> 'v \<Rightarrow> 'v" where
  "dict_get d k dflt = (case map_of d k of None \<Rightarrow> dflt | Some v \<Rightarrow> v)"

abbreviation dict_set :: "('k \<times> 'v) list \<Rightarrow> 'k \<Rightarrow> 'v \<Rightarrow> ('k \<times> 'v) list" where
  "dict_set d k v \<equiv> AList.update k v d"

definition dict_setdefault :: "('k \<times> 'v) list \<Rightarrow> 'k \<Rightarrow> 'v \<Rightarrow> ('k \<times> 'v) list" where
  "dict_setdefault d k v = (if map_of d k = None then dict_set d k v else d)"

definition dict_values :: "('k \<times> 'v) list \<Rightarrow> 'v list" where
  "dict_values d = map snd d"

lemma map_of_dict_set [simp]: "map_of (dict_set d k v) = (map_of d)(k \<mapsto> v)"
  by (simp add: update_conv')

lemma dict_get_set: "dict_get (dict_set d k v) k' x = (if k' = k then v else dict_get d k' x)"
  by (simp add: dict_get_def)

lemma keys_dict_set: "set (map fst (dict_set d k v)) = insert k (set (map fst d))"
  by (induction d) auto

lemma distinct_keys_dict_set:
  "distinct (map fst d) \<Longrightarrow> distinct (map fst (dict_set d k v))"
  by (rule distinct_update)

lemma set_dict_set_subset: "set (dict_set d k v) \<subseteq> insert (k, v) (set d)"
  by (induction d) auto

lemma values_dict_set_subset: "set (dict_values (dict_set d k v)) \<subseteq> insert v (set (dict_values d))"
  using set_dict_set_subset [of k v d] by (fastforce simp: dict_values_def)

lemma length_dict_set_new: "map_of d k = None \<Longrightarrow> dict_set d k v = d @ [(k, v)]"
  by (induction d) (auto split: if_splits)

text \<open>\<open>dict.fromkeys(xs)\<close>: the distinct elements in order of first occurrence.\<close>

fun dict_fromkeys :: "'a list \<Rightarrow> 'a list" where
  "dict_fromkeys [] = []"
| "dict_fromkeys (x # xs) = x # removeAll x (dict_fromkeys xs)"

lemma set_dict_fromkeys [simp]: "set (dict_fromkeys xs) = set xs"
  by (induction xs) auto

lemma distinct_dict_fromkeys [simp]: "distinct (dict_fromkeys xs)"
  by (induction xs) (auto simp: distinct_removeAll)

lemma dict_fromkeys_Nil_iff [simp]: "dict_fromkeys xs = [] \<longleftrightarrow> xs = []"
  by (cases xs) auto

subsection \<open>Truthiness\<close>

text \<open>\<open>if s:\<close> on an optional string, and \<open>if x:\<close> on an optional number.\<close>

fun truthy_str :: "string option \<Rightarrow> bool" where
  "truthy_str None = False"
| "truthy_str (Some s) = (s \<noteq> [])"

fun truthy_num :: "real option \<Rightarrow> bool" where
  "truthy_num None = False"
| "truthy_num (Some x) = (x \<noteq> 0)"

text \<open>\<open>bool(x)\<close> of a JSON value.\<close>

fun truthy :: "json \<Rightarrow> bool" where
  "truthy JNull = False"
| "truthy (JBool b) = b"
| "truthy (JInt i) = (i \<noteq> 0)"
| "truthy (JFloat x) = (x \<noteq> 0)"
| "truthy (JStr s) = (s \<noteq> [])"
| "truthy (JArr xs) = (xs \<noteq> [])"
| "truthy (JObj kvs) = (kvs \<noteq> [])"

text \<open>\<open>str(x)\<close>; \<open>strf\<close> is \<open>str\<close> of a value that is not a string.\<close>

fun py_str :: "(json \<Rightarrow> string) \<Rightarrow> json \<Rightarrow> string" where
  "py_str strf (JStr s) = s"
| "py_str strf j = strf j"

subsection \<open>Strings\<close>

definition py_isspace :: "char \<Rightarrow> bool" where
  "py_isspace c = (let n = (of_char c :: nat) in
     9 \<le> n \<and> n \<le> 13 \<or> 28 \<le> n \<and> n \<le> 32 \<or> n = 133 \<or> n = 160)"

definition py_lstrip :: "string \<Rightarrow> string" where
  "py_lstrip s = dropWhile py_isspace s"

definition py_strip :: "string \<Rightarrow> string" where
  "py_strip s = rev (dropWhile py_isspace (rev (dropWhile py_isspace s)))"

definition py_startswith :: "string \<Rightarrow> string \<Rightarrow> bool" where
  "py_startswith s p = prefix p s"

definition py_endswith :: "string \<Rightarrow> string \<Rightarrow> bool" where
  "py_endswith s p = suffix p s"

fun py_contains :: "string \<Rightarrow> string \<Rightarrow> bool" where
  "py_contains [] p = (p = [])"
| "py_contains (c # s) p = (prefix p (c # s) \<or> py_contains s p)"

lemma py_contains_iff: "py_contains s p \<longleftrightarrow> sublist p s"
  by (induction s) (auto simp: sublist_Cons_right)

text \<open>\<open>s.split(c)\<close> for a one-character separator: never empty.\<close>

fun py_split :: "char \<Rightarrow> string \<Rightarrow> string list" where
  "py_split c [] = [[]]"
| "py_split c (x # xs) =
     (if x = c then [] # py_split c xs
      else (case py_split c xs of [] \<Rightarrow> [[x]] | w # ws \<Rightarrow> (x # w) # ws))"

lemma py_split_ne [simp]: "py_split c s \<noteq> []"
  by (induction s) (auto split: list.splits)

definition ascii_lower :: "char \<Rightarrow> char" where
  "ascii_lower c = (let n = (of_char c :: nat) in if 65 \<le> n \<and> n \<le> 90 then char_of (n + 32) else c)"

definition ascii_upper :: "char \<Rightarrow> char" where
  "ascii_upper c = (let n = (of_char c :: nat) in if 97 \<le> n \<and> n \<le> 122 then char_of (n - 32) else c)"

definition py_lower :: "string \<Rightarrow> string" where
  "py_lower s = map ascii_lower s"

definition py_upper :: "string \<Rightarrow> string" where
  "py_upper s = map ascii_upper s"

text \<open>Decimal digits: \<open>str(n)\<close> and \<open>int(s)\<close> for a string of ASCII digits.\<close>

fun digits_of_nat :: "nat \<Rightarrow> string" where
  "digits_of_nat n =
     (if n < 10 then [char_of (48 + n)] else digits_of_nat (n div 10) @ [char_of (48 + n mod 10)])"

declare digits_of_nat.simps [simp del]

definition string_of_int :: "int \<Rightarrow> string" where
  "string_of_int i = (if i < 0 then ''-'' @ digits_of_nat (nat (- i)) else digits_of_nat (nat i))"

definition is_digit :: "char \<Rightarrow> bool" where
  "is_digit c = (let n = (of_char c :: nat) in 48 \<le> n \<and> n \<le> 57)"

definition nat_of_digits :: "string \<Rightarrow> nat" where
  "nat_of_digits s = foldl (\<lambda>a c. 10 * a + (of_char c - 48)) 0 s"

lemma digits_of_nat_digits: "c \<in> set (digits_of_nat n) \<Longrightarrow> is_digit c"
proof (induction n rule: digits_of_nat.induct)
  case (1 n)
  then show ?case
    by (subst (asm) (2) digits_of_nat.simps) (auto simp: is_digit_def split: if_splits)
qed

lemma digits_of_nat_ne [simp]: "digits_of_nat n \<noteq> []"
  by (subst digits_of_nat.simps) simp

lemma nat_of_digits_of_nat [simp]: "nat_of_digits (digits_of_nat n) = n"
proof (induction n rule: digits_of_nat.induct)
  case (1 n)
  show ?case
  proof (cases "n < 10")
    case True
    then show ?thesis by (simp add: nat_of_digits_def digits_of_nat.simps)
  next
    case False
    with 1 have "nat_of_digits (digits_of_nat (n div 10)) = n div 10" by simp
    with False show ?thesis
      by (subst digits_of_nat.simps) (simp add: nat_of_digits_def)
  qed
qed

text \<open>
  \<open>int(x)\<close> on a JSON value: \<open>None\<close> is the \<open>TypeError\<close> or \<open>ValueError\<close> it raises. A float is
  truncated towards zero; a string is an optionally signed run of digits inside white space, where a
  single underscore may stand between two digits.
\<close>

fun digit_run :: "string \<Rightarrow> bool" where
  "digit_run [] = False"
| "digit_run [c] = is_digit c"
| "digit_run (c # d # s) = (is_digit c \<and> (if d = CHR ''_'' then digit_run s else digit_run (d # s)))"

definition py_int_str :: "string \<Rightarrow> int option" where
  "py_int_str s = (let t = py_strip s;
       (neg, ds) = (case t of [] \<Rightarrow> (False, [])
          | c # cs \<Rightarrow> if c = CHR ''-'' then (True, cs) else if c = CHR ''+'' then (False, cs) else (False, t))
     in if \<not> digit_run ds then None
        else Some ((if neg then -1 else 1) * int (nat_of_digits (filter is_digit ds))))"

fun py_int :: "json \<Rightarrow> int option" where
  "py_int (JInt i) = Some i"
| "py_int (JBool b) = Some (if b then 1 else 0)"
| "py_int (JFloat x) = Some (if 0 \<le> x then \<lfloor>x\<rfloor> else \<lceil>x\<rceil>)"
| "py_int (JStr s) = py_int_str s"
| "py_int _ = None"

text \<open>\<open>s.split(c, 1)\<close>: the text before the first separator, and what follows it if there is one.\<close>

definition split_once :: "char \<Rightarrow> string \<Rightarrow> string list" where
  "split_once c s = (let a = takeWhile (\<lambda>x. x \<noteq> c) s; b = dropWhile (\<lambda>x. x \<noteq> c) s in
     case b of [] \<Rightarrow> [a] | _ # r \<Rightarrow> [a, r])"

lemma py_split_no_sep: "c \<notin> set s \<Longrightarrow> py_split c s = [s]"
  by (induction s) auto

lemma py_split_append: "c \<notin> set s \<Longrightarrow> py_split c (s @ c # t) = s # py_split c t"
  by (induction s) auto

lemma split_once_sep: "c \<notin> set s \<Longrightarrow> split_once c (s @ c # t) = [s, t]"
proof -
  assume c: "c \<notin> set s"
  have "takeWhile (\<lambda>x. x \<noteq> c) (s @ c # t) = s" and "dropWhile (\<lambda>x. x \<noteq> c) (s @ c # t) = c # t"
    using c by (induction s) auto
  then show ?thesis by (simp add: split_once_def)
qed

lemma digits_no_space: "c \<in> set (digits_of_nat n) \<Longrightarrow> \<not> py_isspace c"
  by (drule digits_of_nat_digits) (auto simp: is_digit_def py_isspace_def Let_def)

lemma py_strip_id:
  "s = [] \<or> (\<not> py_isspace (hd s) \<and> \<not> py_isspace (last s)) \<Longrightarrow> py_strip s = s"
proof (cases s rule: rev_cases)
  case (snoc ys y)
  assume "s = [] \<or> (\<not> py_isspace (hd s) \<and> \<not> py_isspace (last s))"
  with snoc have h: "\<not> py_isspace (hd s)" and l: "\<not> py_isspace y" by auto
  from h have "dropWhile py_isspace s = s" by (cases s) simp_all
  then show ?thesis using l snoc by (simp add: py_strip_def)
qed (simp add: py_strip_def)

text \<open>
  \<open>s.splitlines()\<close>: the line boundaries below 256, a carriage return with the line feed after it being
  one; no empty last line. \<open>s.split()\<close>: the maximal runs without white space.
\<close>

definition is_line_break :: "char \<Rightarrow> bool" where
  "is_line_break c = (let n = (of_char c :: nat) in 10 \<le> n \<and> n \<le> 13 \<or> 28 \<le> n \<and> n \<le> 30 \<or> n = 133)"

fun split_lines_from :: "string \<Rightarrow> string \<Rightarrow> string list" where
  "split_lines_from acc [] = (if acc = [] then [] else [rev acc])"
| "split_lines_from acc [c] = (if is_line_break c then [rev acc] else [rev (c # acc)])"
| "split_lines_from acc (c # d # s) =
     (if of_char c = (13 :: nat) \<and> of_char d = (10 :: nat) then rev acc # split_lines_from [] s
      else if is_line_break c then rev acc # split_lines_from [] (d # s)
      else split_lines_from (c # acc) (d # s))"

definition py_splitlines :: "string \<Rightarrow> string list" where
  "py_splitlines s = split_lines_from [] s"

fun words_from :: "string \<Rightarrow> string \<Rightarrow> string list" where
  "words_from acc [] = (if acc = [] then [] else [rev acc])"
| "words_from acc (c # s) =
     (if py_isspace c then (if acc = [] then words_from [] s else rev acc # words_from [] s)
      else words_from (c # acc) s)"

definition py_words :: "string \<Rightarrow> string list" where
  "py_words s = words_from [] s"

definition py_rstrip_char :: "char \<Rightarrow> string \<Rightarrow> string" where
  "py_rstrip_char c s = rev (dropWhile (\<lambda>x. x = c) (rev s))"

text \<open>\<open>xs[i]\<close> on a list: a negative index counts from the end, anything further out is the \<open>IndexError\<close>.\<close>

definition py_nth :: "'a list \<Rightarrow> int \<Rightarrow> 'a option" where
  "py_nth xs i = (if 0 \<le> i \<and> i < int (length xs) then Some (xs ! nat i)
     else if i < 0 \<and> - int (length xs) \<le> i then Some (xs ! nat (int (length xs) + i)) else None)"

lemma py_nth_nat: "n < length xs \<Longrightarrow> py_nth xs (int n) = Some (xs ! n)"
  by (simp add: py_nth_def)

subsection \<open>Computations that may raise\<close>

text \<open>Sequencing of pure steps: the first exception is the result.\<close>

definition try_then :: "'e + 'a \<Rightarrow> ('a \<Rightarrow> 'e + 'b) \<Rightarrow> 'e + 'b" where
  "try_then m k = (case m of Inl e \<Rightarrow> Inl e | Inr x \<Rightarrow> k x)"

lemma try_then_simps [simp]: "try_then (Inl e) k = Inl e" "try_then (Inr x) k = k x"
  by (simp_all add: try_then_def)

lemma try_then_eq_Inr: "try_then m k = Inr y \<longleftrightarrow> (\<exists>x. m = Inr x \<and> k x = Inr y)"
  by (cases m) simp_all

subsection \<open>Stateful operations that may raise\<close>

text \<open>
  An operation on a store: an exception or a result, with the store it leaves behind. What was written
  before an exception stays written.
\<close>

type_synonym ('s, 'e, 'a) op = "'s \<Rightarrow> ('e + 'a) \<times> 's"

definition and_then :: "('s, 'e, 'a) op \<Rightarrow> ('a \<Rightarrow> ('s, 'e, 'b) op) \<Rightarrow> ('s, 'e, 'b) op" where
  "and_then m k s = (case m s of (Inl e, s') \<Rightarrow> (Inl e, s') | (Inr x, s') \<Rightarrow> k x s')"

definition give :: "'a \<Rightarrow> ('s, 'e, 'a) op" where
  "give x s = (Inr x, s)"

lemma and_then_Inr [simp]: "m s = (Inr x, s') \<Longrightarrow> and_then m k s = k x s'"
  by (simp add: and_then_def)

lemma and_then_Inl [simp]: "m s = (Inl e, s') \<Longrightarrow> and_then m k s = (Inl e, s')"
  by (simp add: and_then_def)

lemma and_then_eq_Inr:
  "and_then m k s = (Inr y, s2) \<longleftrightarrow> (\<exists>x s1. m s = (Inr x, s1) \<and> k x s1 = (Inr y, s2))"
  by (auto simp: and_then_def split: prod.splits sum.splits)

lemma give_eq [simp]: "give x s = (r, s') \<longleftrightarrow> r = Inr x \<and> s' = s"
  by (auto simp: give_def)

subsection \<open>Tables\<close>

text \<open>
  A table is the list of its rows in \<open>rowid\<close> order. \<open>UPDATE t SET f WHERE p\<close> rewrites the
  matching rows in place and reports how many there were; \<open>INSERT OR REPLACE\<close> deletes the rows
  that hold the new key and appends the new row; \<open>ORDER BY k LIMIT 1\<close> takes the first row of the
  stable sort, so ties fall to the older row, which is one of the choices SQL leaves open.
\<close>

datatype db_error = IntegrityError string

definition sql_update :: "('r \<Rightarrow> bool) \<Rightarrow> ('r \<Rightarrow> 'r) \<Rightarrow> 'r list \<Rightarrow> 'r list" where
  "sql_update p f t = map (\<lambda>r. if p r then f r else r) t"

definition sql_count :: "('r \<Rightarrow> bool) \<Rightarrow> 'r list \<Rightarrow> nat" where
  "sql_count p t = length (filter p t)"

definition sql_replace :: "('r \<Rightarrow> 'k) \<Rightarrow> 'r \<Rightarrow> 'r list \<Rightarrow> 'r list" where
  "sql_replace key r t = filter (\<lambda>r'. key r' \<noteq> key r) t @ [r]"

definition sql_first_by :: "('r \<Rightarrow> 'k::linorder) \<Rightarrow> 'r list \<Rightarrow> 'r option" where
  "sql_first_by k t = (case sort_key k t of [] \<Rightarrow> None | r # _ \<Rightarrow> Some r)"

definition sql_get :: "('r \<Rightarrow> 'k) \<Rightarrow> 'k \<Rightarrow> 'r list \<Rightarrow> 'r option" where
  "sql_get key k t = find (\<lambda>r. key r = k) t"

definition unique_key :: "('r \<Rightarrow> 'k) \<Rightarrow> 'r list \<Rightarrow> bool" where
  "unique_key key t = distinct (map key t)"

lemma sql_first_by_None [simp]: "sql_first_by k t = None \<longleftrightarrow> t = []"
proof -
  have "sort_key k t = [] \<longleftrightarrow> t = []"
    by (metis length_0_conv length_sort)
  then show ?thesis by (auto simp: sql_first_by_def split: list.splits)
qed

lemma sql_first_by_Nil [simp]: "sql_first_by k [] = None"
  by simp

lemma sql_first_by_SomeD:
  assumes "sql_first_by k t = Some r"
  shows "r \<in> set t" and "\<And>r'. r' \<in> set t \<Longrightarrow> k r \<le> k r'"
proof -
  from assms obtain rs where s: "sort_key k t = r # rs"
    by (auto simp: sql_first_by_def split: list.splits)
  have st: "set t = set (r # rs)" using s [symmetric] by simp
  show "r \<in> set t" by (simp add: st)
  fix r' assume r': "r' \<in> set t"
  have "sorted (map k (r # rs))" using sorted_sort_key [of k t] s by simp
  with r' st show "k r \<le> k r'" by auto
qed

lemma sql_update_ids:
  assumes "\<And>r. key (f r) = key r"
  shows "map key (sql_update p f t) = map key t"
  using assms by (induction t) (auto simp: sql_update_def)

lemma unique_key_sql_update:
  assumes "\<And>r. key (f r) = key r" and "unique_key key t"
  shows "unique_key key (sql_update p f t)"
  using assms by (simp add: unique_key_def sql_update_ids)

lemma unique_key_sql_replace: "unique_key key t \<Longrightarrow> unique_key key (sql_replace key r t)"
  by (auto simp: unique_key_def sql_replace_def distinct_map intro: inj_on_subset)

lemma unique_keyD: "unique_key key t \<Longrightarrow> r \<in> set t \<Longrightarrow> r' \<in> set t \<Longrightarrow> key r = key r' \<Longrightarrow> r = r'"
  by (auto simp: unique_key_def distinct_map dest: inj_onD)

lemma sql_get_None [table_simps]: "sql_get key k t = None \<longleftrightarrow> k \<notin> key ` set t"
  by (auto simp: sql_get_def find_None_iff)

lemma sql_get_SomeD: "sql_get key k t = Some r \<Longrightarrow> r \<in> set t \<and> key r = k"
  by (auto simp: sql_get_def find_Some_iff)

lemma sql_get_SomeI:
  assumes "unique_key key t" and "r \<in> set t"
  shows "sql_get key (key r) t = Some r"
proof (cases "sql_get key (key r) t")
  case None
  with assms(2) show ?thesis by (simp add: table_simps)
next
  case (Some r')
  with assms show ?thesis by (auto dest!: sql_get_SomeD intro: unique_keyD)
qed

lemma sql_get_append:
  "sql_get key k (t @ u) = (case sql_get key k t of None \<Rightarrow> sql_get key k u | Some r \<Rightarrow> Some r)"
  by (induction t) (auto simp: sql_get_def)

lemma sql_get_filter_other:
  "sql_get key k (filter (\<lambda>r. key r \<noteq> k') t) = (if k = k' then None else sql_get key k t)"
  by (induction t) (auto simp: sql_get_def)

lemma sql_get_replace [table_simps]:
  "sql_get key k (sql_replace key r t) = (if k = key r then Some r else sql_get key k t)"
  by (auto simp: sql_replace_def sql_get_append sql_get_filter_other split: option.splits)
     (simp_all add: sql_get_def)

lemma sql_get_update [table_simps]:
  assumes "\<And>r. key (f r) = key r"
  shows "sql_get key k (sql_update p f t) =
    map_option (\<lambda>r. if p r then f r else r) (sql_get key k t)"
  using assms by (induction t) (auto simp: sql_get_def sql_update_def)

lemma sql_update_none: "\<forall>r \<in> set t. \<not> p r \<Longrightarrow> sql_update p f t = t"
  by (induction t) (auto simp: sql_update_def)

lemma sql_count_pos_iff [table_simps]: "0 < sql_count p t \<longleftrightarrow> (\<exists>r \<in> set t. p r)"
  by (auto simp: sql_count_def filter_empty_conv)

lemma set_sql_update: "set (sql_update p f t) = (\<lambda>r. if p r then f r else r) ` set t"
  by (simp add: sql_update_def)

lemma length_sql_update [simp]: "length (sql_update p f t) = length t"
  by (simp add: sql_update_def)

lemma sql_count_key:
  assumes "unique_key key t" and "r \<in> set t" and "P r" and "\<And>r'. P r' \<Longrightarrow> key r' = key r"
  shows "sql_count P t = 1"
proof -
  from assms(2) obtain xs ys where t: "t = xs @ r # ys" by (auto simp: in_set_conv_decomp)
  have "\<not> P r'" if "r' \<in> set xs \<union> set ys" for r'
    using that assms(1,4) unfolding t unique_key_def by auto (metis imageI)+
  then have "filter P xs = []" and "filter P ys = []" by (auto simp: filter_empty_conv)
  then show ?thesis using assms(3) by (simp add: sql_count_def t)
qed

subsection \<open>Rounding\<close>

text \<open>Python's \<open>round(x)\<close>: to the nearest integer, halves to the even one.\<close>

definition py_round :: "real \<Rightarrow> int" where
  "py_round x = (let f = \<lfloor>x\<rfloor>; d = x - of_int f in
     if d < 1/2 then f else if d > 1/2 then f + 1 else if even f then f else f + 1)"

lemma py_round_le: "\<bar>of_int (py_round x) - x\<bar> \<le> 1/2"
proof -
  have "of_int \<lfloor>x\<rfloor> \<le> x" and "x < of_int \<lfloor>x\<rfloor> + 1" by linarith+
  then show ?thesis by (auto simp: py_round_def Let_def)
qed

end
