(* ===== verification/Resilience.thy ===== *)
theory Resilience
  imports Prelude
begin

text \<open>
  \<open>src/zcoder/core/exceptions.py\<close> and \<open>src/zcoder/core/resilience.py\<close>: the error taxonomy,
  the translation of transport failures into it, the three-state circuit breaker and the
  \<open>retry\<close> decorator. The wrapped call, the monotonic clock, the random source and \<open>sleep\<close> are
  the fields of a record over an arbitrary world \<open>'s\<close> that they read and change.
\<close>

subsection \<open>The error taxonomy\<close>

datatype zclass =
    ZCoderError | ConfigError | AuthenticationError | RateLimitError | TransientAPIError
  | APIError | RefusalError | ValidationError | SecurityError | CircuitOpenError

fun error_code :: "zclass \<Rightarrow> string" where
  "error_code ZCoderError = ''ZCODER_ERROR''"
| "error_code ConfigError = ''CONFIG_ERROR''"
| "error_code AuthenticationError = ''AUTH_ERROR''"
| "error_code RateLimitError = ''RATE_LIMIT''"
| "error_code TransientAPIError = ''TRANSIENT_API_ERROR''"
| "error_code APIError = ''API_ERROR''"
| "error_code RefusalError = ''MODEL_REFUSAL''"
| "error_code ValidationError = ''VALIDATION_ERROR''"
| "error_code SecurityError = ''SECURITY_ERROR''"
| "error_code CircuitOpenError = ''CIRCUIT_OPEN''"

fun RETRYABLE :: "zclass \<Rightarrow> bool" where
  "RETRYABLE RateLimitError = True"
| "RETRYABLE TransientAPIError = True"
| "RETRYABLE _ = False"

record zexc =
  zx_class :: zclass
  zx_message :: string
  zx_details :: jobj
  zx_retry_after :: "real option"
  zx_status_code :: "int option"

definition zexc_new :: "zclass \<Rightarrow> string \<Rightarrow> jobj \<Rightarrow> zexc" where
  "zexc_new c m d = \<lparr>zx_class = c, zx_message = m, zx_details = d,
     zx_retry_after = None, zx_status_code = None\<rparr>"

definition zexc_to_dict :: "zexc \<Rightarrow> jobj" where
  "zexc_to_dict e = [(''error_code'', JStr (error_code (zx_class e))),
     (''message'', JStr (zx_message e)), (''details'', JObj (zx_details e))]"

text \<open>Any exception: one of ours, or a foreign class with its message.\<close>

datatype exc = Zc zexc | Foreign string string

fun is_retryable :: "exc \<Rightarrow> bool" where
  "is_retryable (Zc e) = RETRYABLE (zx_class e)"
| "is_retryable (Foreign _ _) = False"

subsection \<open>Transport failures\<close>

text \<open>
  What \<open>urllib\<close> raises: an \<open>HTTPError\<close> with its code, its body (\<open>None\<close> when reading it
  fails) and the \<open>Retry-After\<close> header as a number (\<open>None\<close> when absent or malformed); a
  network-level \<open>OSError\<close>; anything else.
\<close>

datatype transport_exc =
    HTTPError int "string option" "real option"
  | NetworkError string
  | OtherError string string

definition body_details :: "string option \<Rightarrow> jobj" where
  "body_details b = [(''body'', JStr (take 300 (case b of None \<Rightarrow> [] | Some t \<Rightarrow> t)))]"

fun raise_for_http_error :: "transport_exc \<Rightarrow> exc" where
  "raise_for_http_error (HTTPError code body retry_after) =
     (if code = 401 then Zc (zexc_new AuthenticationError ''API key rejected (401)'' (body_details body))
      else if code = 429 then
        Zc (zexc_new RateLimitError ''Rate limited (429)'' (body_details body)
             \<lparr>zx_retry_after := retry_after\<rparr>)
      else if code \<ge> 500 then Zc (zexc_new TransientAPIError (''Server error ('' @ string_of_int code @ '')'') (body_details body))
      else Zc (zexc_new APIError (''Request rejected ('' @ string_of_int code @ '')'') (body_details body)
             \<lparr>zx_status_code := Some code\<rparr>))"
| "raise_for_http_error (NetworkError m) = Zc (zexc_new TransientAPIError (''Network error: '' @ m) [])"
| "raise_for_http_error (OtherError c m) = Foreign c m"

subsection \<open>The circuit breaker\<close>

datatype breaker_state = Closed | Open | HalfOpen

record breaker =
  failure_threshold :: int
  reset_timeout :: real
  cb_failures :: int
  cb_state :: breaker_state
  cb_opened_at :: real

definition breaker_new :: "int \<Rightarrow> real \<Rightarrow> breaker" where
  "breaker_new n t = \<lparr>failure_threshold = n, reset_timeout = t, cb_failures = 0,
     cb_state = Closed, cb_opened_at = 0\<rparr>"

text \<open>\<open>round(x, 1)\<close>.\<close>

definition round1 :: "real \<Rightarrow> real" where
  "round1 x = of_int (py_round (x * 10)) / 10"

text \<open>\<open>now\<close> is the reading of the guard, \<open>now'\<close> the one of the error's details.\<close>

definition before_call :: "real \<Rightarrow> real \<Rightarrow> breaker \<Rightarrow> exc + breaker" where
  "before_call now now' b =
     (if cb_state b = Open then
        if now - cb_opened_at b \<ge> reset_timeout b then Inr (b\<lparr>cb_state := HalfOpen\<rparr>)
        else Inl (Zc (zexc_new CircuitOpenError
               ''Circuit breaker is open - too many recent failures''
               [(''reset_in_s'', JFloat (round1 (reset_timeout b - (now' - cb_opened_at b))))]))
      else Inr b)"

definition on_success :: "breaker \<Rightarrow> breaker" where
  "on_success b = b\<lparr>cb_failures := 0, cb_state := Closed\<rparr>"

definition on_failure :: "real \<Rightarrow> breaker \<Rightarrow> breaker" where
  "on_failure now b =
     (let b1 = b\<lparr>cb_failures := cb_failures b + 1\<rparr> in
      if cb_state b1 = HalfOpen \<or> cb_failures b1 \<ge> failure_threshold b1
      then b1\<lparr>cb_state := Open, cb_opened_at := now\<rparr> else b1)"

inductive breaker_step :: "breaker \<Rightarrow> breaker \<Rightarrow> bool" where
  call: "before_call now now' b = Inr b' \<Longrightarrow> breaker_step b b'"
| success: "breaker_step b (on_success b)"
| failure: "breaker_step b (on_failure now b)"

inductive breaker_reach :: "breaker \<Rightarrow> breaker \<Rightarrow> bool" for b0 where
  start: "breaker_reach b0 b0"
| step: "breaker_reach b0 b \<Longrightarrow> breaker_step b b' \<Longrightarrow> breaker_reach b0 b'"

inductive_cases breaker_stepE: "breaker_step b b'"

definition breaker_inv :: "breaker \<Rightarrow> bool" where
  "breaker_inv b \<longleftrightarrow> 1 \<le> failure_threshold b \<and> 0 \<le> cb_failures b \<and>
     (cb_state b = Closed \<longrightarrow> cb_failures b < failure_threshold b) \<and>
     (cb_state b \<noteq> Closed \<longrightarrow> 1 \<le> cb_failures b)"

lemma breaker_step_inv: "breaker_step b b' \<Longrightarrow> breaker_inv b \<Longrightarrow> breaker_inv b'"
  by (erule breaker_stepE)
     (auto simp: breaker_inv_def before_call_def on_success_def on_failure_def Let_def
       split: if_splits breaker_state.splits)

lemma breaker_step_config:
  "breaker_step b b' \<Longrightarrow>
     failure_threshold b' = failure_threshold b \<and> reset_timeout b' = reset_timeout b"
  by (erule breaker_stepE)
     (auto simp: before_call_def on_success_def on_failure_def Let_def split: if_splits)

lemma breaker_reach_inv:
  "breaker_reach b0 b \<Longrightarrow> breaker_inv b0 \<Longrightarrow>
     breaker_inv b \<and> failure_threshold b = failure_threshold b0 \<and> reset_timeout b = reset_timeout b0"
  by (induction rule: breaker_reach.induct) (auto dest: breaker_step_inv breaker_step_config)

text \<open>A run of consecutive failures, at the given clock readings.\<close>

fun fail_many :: "real list \<Rightarrow> breaker \<Rightarrow> breaker" where
  "fail_many [] b = b"
| "fail_many (t # ts) b = fail_many ts (on_failure t b)"

lemma fail_many_closed:
  "cb_state b = Closed \<Longrightarrow> cb_failures b + int (length ts) < failure_threshold b \<Longrightarrow>
     fail_many ts b = b\<lparr>cb_failures := cb_failures b + int (length ts)\<rparr>"
  by (induction ts arbitrary: b) (auto simp: on_failure_def Let_def)

lemma fail_many_append: "fail_many (ts @ us) b = fail_many us (fail_many ts b)"
  by (induction ts arbitrary: b) auto

subsection \<open>Backoff and retry\<close>

definition backoff_cap :: "nat \<Rightarrow> real \<Rightarrow> real \<Rightarrow> real" where
  "backoff_cap attempt base_delay max_delay = min max_delay (base_delay * 2 ^ attempt)"

record ('s, 'a) retry_env =
  re_fn :: "'s \<Rightarrow> (exc + 'a) \<times> 's"
  re_mono :: "'s \<Rightarrow> real \<times> 's"
  re_uniform :: "real \<Rightarrow> real \<Rightarrow> 's \<Rightarrow> real \<times> 's"
  re_sleep :: "real \<Rightarrow> 's \<Rightarrow> 's"

definition backoff_delay :: "('s, 'a) retry_env \<Rightarrow> nat \<Rightarrow> real \<Rightarrow> real \<Rightarrow> 's \<Rightarrow> real \<times> 's" where
  "backoff_delay E attempt base_delay max_delay s =
     re_uniform E 0 (backoff_cap attempt base_delay max_delay) s"

text \<open>The breaker's hooks on an optional breaker, reading the clock only where the code does.\<close>

definition guard_call ::
  "('s, 'a) retry_env \<Rightarrow> breaker option \<Rightarrow> 's \<Rightarrow> (exc + breaker option) \<times> 's" where
  "guard_call E br s = (case br of None \<Rightarrow> (Inr None, s)
    | Some b \<Rightarrow>
       if cb_state b = Open then
         (let (now, s1) = re_mono E s in
          if now - cb_opened_at b \<ge> reset_timeout b then (map_sum id Some (before_call now now b), s1)
          else let (now', s2) = re_mono E s1 in (map_sum id Some (before_call now now' b), s2))
       else (Inr (Some b), s))"

definition note_failure ::
  "('s, 'a) retry_env \<Rightarrow> breaker option \<Rightarrow> 's \<Rightarrow> breaker option \<times> 's" where
  "note_failure E br s = (case br of None \<Rightarrow> (None, s)
    | Some b \<Rightarrow>
       if cb_state b = HalfOpen \<or> cb_failures b + 1 \<ge> failure_threshold b
       then (let (now, s1) = re_mono E s in (Some (on_failure now b), s1))
       else (Some (on_failure 0 b), s))"

definition retry_delay ::
  "('s, 'a) retry_env \<Rightarrow> zexc \<Rightarrow> nat \<Rightarrow> real \<Rightarrow> real \<Rightarrow> 's \<Rightarrow> real \<times> 's" where
  "retry_delay E e attempt base_delay max_delay s =
     (case zx_retry_after e of Some d \<Rightarrow> (d, s)
      | None \<Rightarrow> backoff_delay E attempt base_delay max_delay s)"

text \<open>
  \<open>for attempt in range(max_attempts)\<close> over the attempts that are left. Running off the end
  (only possible with no attempt at all) is the failing \<open>assert last_exc is not None\<close>.
\<close>

fun retry_from ::
  "('s, 'a) retry_env \<Rightarrow> nat \<Rightarrow> real \<Rightarrow> real \<Rightarrow> nat list \<Rightarrow> breaker option \<Rightarrow> 's
     \<Rightarrow> (exc + 'a) \<times> breaker option \<times> 's" where
  "retry_from E m bd md [] br s = (Inl (Foreign ''AssertionError'' ''''), br, s)"
| "retry_from E m bd md (attempt # rest) br s =
     (case guard_call E br s of
        (Inl e, s1) \<Rightarrow> (Inl e, br, s1)
      | (Inr br1, s1) \<Rightarrow>
         (case re_fn E s1 of
            (Inr v, s2) \<Rightarrow> (Inr v, map_option on_success br1, s2)
          | (Inl (Foreign c msg), s2) \<Rightarrow> (Inl (Foreign c msg), br1, s2)
          | (Inl (Zc e), s2) \<Rightarrow>
             (case note_failure E br1 s2 of (br2, s3) \<Rightarrow>
                if \<not> is_retryable (Zc e) \<or> attempt + 1 = m then (Inl (Zc e), br2, s3)
                else (case retry_delay E e attempt bd md s3 of
                        (d, s4) \<Rightarrow> retry_from E m bd md rest br2 (re_sleep E d s4)))))"

definition retry ::
  "('s, 'a) retry_env \<Rightarrow> nat \<Rightarrow> real \<Rightarrow> real \<Rightarrow> breaker option \<Rightarrow> 's
     \<Rightarrow> (exc + 'a) \<times> breaker option \<times> 's" where
  "retry E max_attempts base_delay max_delay br s =
     retry_from E max_attempts base_delay max_delay [0..<max_attempts] br s"

lemma guard_call_None [simp]: "guard_call E None s = (Inr None, s)"
  by (simp add: guard_call_def)

lemma note_failure_None [simp]: "note_failure E None s = (None, s)"
  by (simp add: note_failure_def)

text \<open>The hooks are the breaker's methods at the clock readings they take.\<close>

lemma guard_call_before_call:
  "\<exists>now now' s1. guard_call E (Some b) s = (map_sum id Some (before_call now now' b), s1)"
  by (auto simp: guard_call_def before_call_def Let_def split: prod.splits)

lemma on_failure_clock_irrelevant:
  "\<not> (cb_state b = HalfOpen \<or> cb_failures b + 1 \<ge> failure_threshold b) \<Longrightarrow>
     on_failure now b = on_failure now' b"
  by (simp add: on_failure_def Let_def)

lemma note_failure_on_failure:
  "\<exists>now s1. note_failure E (Some b) s = (Some (on_failure now b), s1)"
  by (auto simp: note_failure_def split: prod.splits)

subsection \<open>How often the wrapped call runs\<close>

text \<open>\<open>cnt\<close> reads a call counter out of the world: only the wrapped call moves it.\<close>

definition counts_calls :: "('s, 'a) retry_env \<Rightarrow> ('s \<Rightarrow> nat) \<Rightarrow> bool" where
  "counts_calls E cnt \<longleftrightarrow>
     (\<forall>s. cnt (snd (re_fn E s)) = Suc (cnt s)) \<and> (\<forall>s. cnt (snd (re_mono E s)) = cnt s) \<and>
     (\<forall>lo hi s. cnt (snd (re_uniform E lo hi s)) = cnt s) \<and> (\<forall>d s. cnt (re_sleep E d s) = cnt s)"

lemma counts_callsD:
  assumes "counts_calls E cnt"
  shows "re_fn E s = (r, s1) \<Longrightarrow> cnt s1 = Suc (cnt s)"
    and "guard_call E br s = (g, s1) \<Longrightarrow> cnt s1 = cnt s"
    and "note_failure E br s = (br', s1) \<Longrightarrow> cnt s1 = cnt s"
    and "retry_delay E e n bd md s = (d, s1) \<Longrightarrow> cnt s1 = cnt s"
    and "cnt (re_sleep E d s) = cnt s"
proof -
  have mono: "re_mono E s = (x, s1) \<Longrightarrow> cnt s1 = cnt s" for s x s1
    using assms by (metis counts_calls_def snd_conv)
  show "re_fn E s = (r, s1) \<Longrightarrow> cnt s1 = Suc (cnt s)"
    using assms by (metis counts_calls_def snd_conv)
  show "guard_call E br s = (g, s1) \<Longrightarrow> cnt s1 = cnt s"
    by (auto simp: guard_call_def Let_def dest!: mono split: option.splits if_splits prod.splits)
  show "note_failure E br s = (br', s1) \<Longrightarrow> cnt s1 = cnt s"
    by (auto simp: note_failure_def Let_def dest!: mono split: option.splits if_splits prod.splits)
  show "retry_delay E e n bd md s = (d, s1) \<Longrightarrow> cnt s1 = cnt s"
    using assms by (auto simp: retry_delay_def backoff_delay_def counts_calls_def split: option.splits)
      (metis snd_conv)
  show "cnt (re_sleep E d s) = cnt s"
    using assms by (simp add: counts_calls_def)
qed

lemma retry_from_calls:
  assumes "counts_calls E cnt"
  shows "cnt (snd (snd (retry_from E m bd md as br s))) \<le> cnt s + length as"
proof (induction as arbitrary: br s)
  case Nil
  show ?case by simp
next
  case (Cons a as)
  have step: "cnt (snd (snd (retry_from E m bd md as b (re_sleep E d s4)))) \<le> Suc (cnt s + length as)"
    if "cnt s4 = Suc (cnt s)" for b d s4
    using Cons.IH [of b "re_sleep E d s4"] that counts_callsD(5) [OF assms, of d s4] by simp
  show ?case
    by (auto split: prod.splits sum.splits exc.splits if_splits
        dest!: counts_callsD(1) [OF assms] counts_callsD(2) [OF assms]
          counts_callsD(3) [OF assms] counts_callsD(4) [OF assms]
        intro!: step)
qed

subsection \<open>Which outcome \<open>retry\<close> reports\<close>

text \<open>
  Without a breaker the result is decided by the outcomes of the calls alone: the first one that
  is not a retryable error, or the last one.
\<close>

fun decisive :: "exc + 'a \<Rightarrow> bool" where
  "decisive (Inr v) = True"
| "decisive (Inl e) = (\<not> is_retryable e)"

fun first_decisive :: "(exc + 'a) list \<Rightarrow> exc + 'a" where
  "first_decisive [] = Inl (Foreign ''AssertionError'' '''')"
| "first_decisive [x] = x"
| "first_decisive (x # y # ys) = (if decisive x then x else first_decisive (y # ys))"

text \<open>A world that plays back a script of outcomes and records the delays slept.\<close>

definition script_env ::
  "(real \<Rightarrow> real) \<Rightarrow> ((exc + 'a) list \<times> real list, 'a) retry_env" where
  "script_env jitter = \<lparr>
     re_fn = (\<lambda>(os, ds). case os of [] \<Rightarrow> (Inl (Foreign ''StopIteration'' ''''), (os, ds))
                                  | x # xs \<Rightarrow> (x, (xs, ds))),
     re_mono = (\<lambda>s. (0, s)),
     re_uniform = (\<lambda>lo hi s. (jitter hi, s)),
     re_sleep = (\<lambda>d (os, ds). (os, ds @ [d]))\<rparr>"

lemma retry_from_script:
  "length os = length as \<Longrightarrow> as = [k..<m] \<Longrightarrow>
     fst (retry_from (script_env jitter) m bd md as None (os, ds)) = first_decisive os"
proof (induction os arbitrary: as k ds rule: first_decisive.induct)
  case 1
  then show ?case by simp
next
  case (2 x)
  then have as: "as = [k]" and km: "Suc k = m"
    by (auto simp: upt_eq_Cons_conv length_Suc_conv)
  show ?case
    by (cases x) (auto simp: as km script_env_def split: exc.splits)
next
  case (3 x y ys)
  from "3.prems" have k: "k < m" and as: "as = k # [Suc k..<m]"
    by (auto simp: upt_rec split: if_splits)
  with "3.prems" have len: "length (y # ys) = length [Suc k..<m]" by simp
  then have nl: "Suc k \<noteq> m" by auto
  have IH: "\<not> decisive x \<Longrightarrow>
      fst (retry_from (script_env jitter) m bd md [Suc k..<m] None (y # ys, ds')) = first_decisive (y # ys)"
    for ds' by (rule "3.IH" [OF _ len refl])
  show ?case
  proof (cases x)
    case (Inr v)
    then show ?thesis by (simp add: as script_env_def)
  next
    case (Inl e)
    show ?thesis
    proof (cases e)
      case (Foreign c m')
      with Inl show ?thesis by (simp add: as script_env_def)
    next
      case (Zc z)
      show ?thesis
      proof (cases "is_retryable e")
        case False
        with Inl Zc show ?thesis by (simp add: as script_env_def)
      next
        case True
        with Inl have "\<not> decisive x" by simp
        from IH [OF this] True Inl Zc nl show ?thesis
          by (auto simp: as retry_delay_def backoff_delay_def script_env_def split: option.splits)
      qed
    qed
  qed
qed

subsection \<open>Properties\<close>

text \<open>
  a decorated call runs the wrapped function at most \<open>max_attempts\<close> times, whatever it
  raises, whatever the breaker does and however long the delays are.
\<close>

theorem retry_bounded_calls:
  assumes "counts_calls E cnt"
  shows "cnt (snd (snd (retry E max_attempts base_delay max_delay br s))) \<le> cnt s + max_attempts"
  using retry_from_calls [OF assms, of max_attempts base_delay max_delay "[0..<max_attempts]" br s]
  by (simp add: retry_def)

definition counting_env :: "(nat, nat) retry_env" where
  "counting_env = \<lparr>re_fn = (\<lambda>n. (Inl (Zc (zexc_new TransientAPIError ''down'' [])), Suc n)),
     re_mono = (\<lambda>n. (0, n)), re_uniform = (\<lambda>lo hi n. (hi, n)), re_sleep = (\<lambda>d n. n)\<rparr>"

theorem retry_bounded_calls_witness:
  "snd (snd (retry counting_env 3 1 20 (Some (breaker_new 5 30)) 0)) \<le> 0 + 3"
  using retry_bounded_calls [of counting_env "\<lambda>n. n" 3 1 20 "Some (breaker_new 5 30)" 0]
  by (simp add: counts_calls_def counting_env_def)

text \<open>
  without a breaker, \<open>retry\<close> reports exactly the first outcome that is a success or a
  non-retryable error among the first \<open>max_attempts\<close> calls, and the last retryable error if
  there is none; the jitter and the delays never change the result.
\<close>

theorem retry_reports_first_decisive:
  assumes "length outcomes = max_attempts"
  shows "fst (retry (script_env jitter) max_attempts base_delay max_delay None (outcomes, slept))
    = first_decisive outcomes"
  using assms by (simp add: retry_def retry_from_script)

theorem retry_reports_first_decisive_witness:
  "fst (retry (script_env (\<lambda>x. x)) 3 1 20 None
      ([Inl (Zc (zexc_new RateLimitError ''slow'' [])), Inr (7::int),
        Inl (Zc (zexc_new APIError ''bad'' []))], [])) = Inr 7"
  using retry_reports_first_decisive [of "[Inl (Zc (zexc_new RateLimitError ''slow'' [])),
      Inr (7::int), Inl (Zc (zexc_new APIError ''bad'' []))]" 3 "\<lambda>x. x" 1 20 "[]"]
  by (simp add: zexc_new_def)

lemma fail_many_open:
  "cb_state b \<noteq> HalfOpen \<Longrightarrow> failure_threshold b \<le> cb_failures b + int (length ts) \<Longrightarrow> ts \<noteq> [] \<Longrightarrow>
     (cb_state b = Open \<longrightarrow> failure_threshold b \<le> cb_failures b) \<Longrightarrow>
     cb_state (fail_many ts b) = Open \<and> cb_opened_at (fail_many ts b) = last ts \<and>
     reset_timeout (fail_many ts b) = reset_timeout b"
proof (induction ts arbitrary: b)
  case Nil
  then show ?case by simp
next
  case (Cons t ts)
  have keep: "reset_timeout (on_failure t b) = reset_timeout b"
    by (simp add: on_failure_def Let_def)
  show ?case
  proof (cases "ts = []")
    case True
    with Cons.prems show ?thesis by (auto simp: on_failure_def Let_def)
  next
    case False
    have "cb_state (fail_many ts (on_failure t b)) = Open \<and>
        cb_opened_at (fail_many ts (on_failure t b)) = last ts \<and>
        reset_timeout (fail_many ts (on_failure t b)) = reset_timeout (on_failure t b)"
      by (rule Cons.IH [OF _ _ False]) (use Cons.prems in \<open>auto simp: on_failure_def Let_def\<close>)
    with False keep show ?thesis by simp
  qed
qed

text \<open>
  C31: from a fresh breaker with threshold \<open>n\<close>, fewer than \<open>n\<close> consecutive failures leave it
  closed; from the \<open>n\<close>-th on it is open, every call within \<open>reset_timeout\<close> of the last failure
  is refused with \<open>CircuitOpenError\<close>, and the first call after that is let through half-open.
\<close>

theorem breaker_trips_and_fails_fast:
  fixes ts :: "real list" and tmo :: real
  assumes "1 \<le> n"
  defines "b \<equiv> fail_many ts (breaker_new n tmo)"
  shows "before_call now now' b =
    (if int (length ts) < n then Inr b
     else if tmo \<le> now - last ts then Inr (b\<lparr>cb_state := HalfOpen\<rparr>)
     else Inl (Zc (zexc_new CircuitOpenError ''Circuit breaker is open - too many recent failures''
            [(''reset_in_s'', JFloat (round1 (tmo - (now' - last ts))))])))"
proof (cases "int (length ts) < n")
  case True
  then show ?thesis by (simp add: b_def fail_many_closed breaker_new_def before_call_def)
next
  case False
  with assms(1) have "ts \<noteq> []" by auto
  then have "cb_state b = Open" "cb_opened_at b = last ts" "reset_timeout b = tmo"
    using fail_many_open [of "breaker_new n tmo" ts] False by (auto simp: b_def breaker_new_def)
  with False show ?thesis by (simp add: before_call_def)
qed

theorem breaker_trips_and_fails_fast_witness:
  "before_call 9 9 (fail_many [1, 2] (breaker_new 3 30)) = Inr (fail_many [1, 2] (breaker_new 3 30)) \<and>
   before_call 40 40 (fail_many [1, 2, 3] (breaker_new 3 30))
     = Inr (fail_many [1, 2, 3] (breaker_new 3 30)\<lparr>cb_state := HalfOpen\<rparr>)"
  using breaker_trips_and_fails_fast [of 3 9 9 "[1, 2]" 30]
    breaker_trips_and_fails_fast [of 3 40 40 "[1, 2, 3]" 30]
  by simp

end
