(* ===== verification/Tenancy.thy ===== *)
theory Tenancy
  imports Prelude
begin

text \<open>
  \<open>src/zcoder/domain/models/tenant.py\<close>: organisations, roles and their permissions, the request
  context with its permission and tenant checks, API keys, and the rows of the metering, quota and
  audit tables. The hash of an API key is a parameter \<open>H\<close>; the random parts of a key and the
  clock are arguments.
\<close>

subsection \<open>Lifecycle states and roles\<close>

datatype org_status = OrgActive | OrgSuspended | OrgDeleting | OrgDeleted
datatype project_status = ProjectActive | ProjectArchived | ProjectDeleted
datatype membership_status = MemberInvited | MemberActive | MemberSuspended | MemberRemoved

datatype enterprise_role =
    ORG_OWNER | ORG_ADMIN | PROJECT_ADMIN | OPERATOR | DEVELOPER | VIEWER | BILLING_ADMIN | SECURITY_AUDITOR

fun role_value :: "enterprise_role \<Rightarrow> string" where
  "role_value ORG_OWNER = ''OrganizationOwner''"
| "role_value ORG_ADMIN = ''OrganizationAdmin''"
| "role_value PROJECT_ADMIN = ''ProjectAdmin''"
| "role_value OPERATOR = ''Operator''"
| "role_value DEVELOPER = ''Developer''"
| "role_value VIEWER = ''Viewer''"
| "role_value BILLING_ADMIN = ''BillingAdmin''"
| "role_value SECURITY_AUDITOR = ''SecurityAuditor''"

fun role_permission_list :: "enterprise_role \<Rightarrow> string list" where
  "role_permission_list ORG_OWNER =
     [''org.read'', ''org.manage'', ''org.delete'', ''member.read'', ''member.manage'',
      ''project.read'', ''project.manage'', ''job.read'', ''job.create'', ''job.cancel'',
      ''job.approve'', ''repo.read'', ''repo.manage'', ''policy.read'', ''policy.manage'',
      ''billing.read'', ''billing.manage'', ''audit.read'', ''audit.export'', ''sso.manage'',
      ''scim.manage'', ''sa.manage'', ''apikey.manage'']"
| "role_permission_list ORG_ADMIN =
     [''org.read'', ''org.manage'', ''member.read'', ''member.manage'', ''project.read'',
      ''project.manage'', ''job.read'', ''job.create'', ''job.cancel'', ''job.approve'',
      ''repo.read'', ''repo.manage'', ''policy.read'', ''policy.manage'', ''billing.read'',
      ''audit.read'', ''audit.export'', ''sso.manage'', ''scim.manage'', ''sa.manage'',
      ''apikey.manage'']"
| "role_permission_list PROJECT_ADMIN =
     [''org.read'', ''member.read'', ''project.read'', ''project.manage'', ''job.read'',
      ''job.create'', ''job.cancel'', ''job.approve'', ''repo.read'', ''repo.manage'',
      ''policy.read'', ''audit.read'']"
| "role_permission_list OPERATOR =
     [''org.read'', ''project.read'', ''job.read'', ''job.create'', ''job.cancel'', ''job.approve'',
      ''repo.read'']"
| "role_permission_list DEVELOPER =
     [''org.read'', ''project.read'', ''job.read'', ''job.create'', ''repo.read'']"
| "role_permission_list VIEWER = [''org.read'', ''project.read'', ''job.read'', ''repo.read'']"
| "role_permission_list BILLING_ADMIN =
     [''org.read'', ''billing.read'', ''billing.manage'', ''usage.read'']"
| "role_permission_list SECURITY_AUDITOR =
     [''org.read'', ''audit.read'', ''audit.export'', ''policy.read'', ''member.read'']"

definition all_roles :: "enterprise_role list" where
  "all_roles = [ORG_OWNER, ORG_ADMIN, PROJECT_ADMIN, OPERATOR, DEVELOPER, VIEWER, BILLING_ADMIN,
     SECURITY_AUDITOR]"

text \<open>The dictionary is keyed by the role's string; a context's role is a plain string.\<close>

definition ROLE_PERMISSIONS :: "(string \<times> string list) list" where
  "ROLE_PERMISSIONS = map (\<lambda>r. (role_value r, role_permission_list r)) all_roles"

lemma role_value_inject: "role_value r = role_value r' \<longleftrightarrow> r = r'"
  by (cases r; cases r') simp_all

lemma ROLE_PERMISSIONS_role [simp]:
  "map_of ROLE_PERMISSIONS (role_value r) = Some (role_permission_list r)"
  by (cases r) (simp_all add: ROLE_PERMISSIONS_def all_roles_def)

subsection \<open>The request context\<close>

record request_context =
  rc_principal_id :: string
  rc_organization_id :: string
  rc_project_id :: "string option"
  rc_role :: string
  rc_permissions :: "string set"
  rc_authentication_method :: string
  rc_is_global_admin :: bool

definition rc_post_init :: "request_context \<Rightarrow> request_context" where
  "rc_post_init c =
     (if rc_permissions c = {} \<and> rc_role c \<noteq> []
      then c\<lparr>rc_permissions := set (dict_get ROLE_PERMISSIONS (rc_role c) [])\<rparr> else c)"

text \<open>The constructor with the fields the code passes; the others have their defaults.\<close>

definition request_context_new ::
  "string \<Rightarrow> string \<Rightarrow> string option \<Rightarrow> string \<Rightarrow> string set \<Rightarrow> string \<Rightarrow> bool \<Rightarrow> request_context" where
  "request_context_new who org proj role perms meth admin = rc_post_init
     \<lparr>rc_principal_id = who, rc_organization_id = org, rc_project_id = proj, rc_role = role,
      rc_permissions = perms, rc_authentication_method = meth, rc_is_global_admin = admin\<rparr>"

datatype tenant_error =
    CrossTenantViolationError string string
  | CrossProjectViolationError string string
  | PermissionDeniedError string string string
  | IdempotencyConflictError string

definition has_permission :: "request_context \<Rightarrow> string \<Rightarrow> bool" where
  "has_permission c p = (if rc_is_global_admin c then True else p \<in> rc_permissions c)"

definition require_permission :: "request_context \<Rightarrow> string \<Rightarrow> tenant_error + unit" where
  "require_permission c p =
     (if \<not> has_permission c p
      then Inl (PermissionDeniedError (rc_principal_id c) p (rc_organization_id c)) else Inr ())"

definition validate_tenant_access ::
  "request_context \<Rightarrow> string \<Rightarrow> string option \<Rightarrow> tenant_error + unit" where
  "validate_tenant_access c org proj =
     (if rc_is_global_admin c then Inr ()
      else if rc_organization_id c \<noteq> org
      then Inl (CrossTenantViolationError (rc_organization_id c) org)
      else if truthy_str proj \<and> truthy_str (rc_project_id c) \<and> rc_project_id c \<noteq> proj
      then Inl (CrossProjectViolationError (the (rc_project_id c)) (the proj))
      else Inr ())"

lemma validate_tenant_access_ok [guard_simps]:
  "validate_tenant_access c org proj = Inr () \<longleftrightarrow>
     rc_is_global_admin c \<or>
     (rc_organization_id c = org \<and>
      (truthy_str proj \<and> truthy_str (rc_project_id c) \<longrightarrow> rc_project_id c = proj))"
  by (auto simp: validate_tenant_access_def)

lemma require_permission_ok [guard_simps]:
  "require_permission c p = Inr () \<longleftrightarrow> has_permission c p"
  by (simp add: require_permission_def)

lemma role_value_ne [simp]: "role_value r \<noteq> []"
  by (cases r) simp_all

lemma role_permissions_get [simp]:
  "dict_get ROLE_PERMISSIONS (role_value r) [] = role_permission_list r"
  by (simp add: dict_get_def)

lemma request_context_new_role [simp]:
  "rc_permissions (request_context_new pr org proj (role_value r) {} m a) = set (role_permission_list r)"
  by (simp add: request_context_new_def rc_post_init_def)

lemma request_context_new_explicit [simp]:
  "rc_permissions (request_context_new pr org proj role (insert x A) m a) = insert x A"
  by (simp add: request_context_new_def rc_post_init_def)

lemma request_context_new_sel [simp]:
  "rc_organization_id (request_context_new pr org proj role perms m a) = org"
  "rc_is_global_admin (request_context_new pr org proj role perms m a) = a"
  "rc_principal_id (request_context_new pr org proj role perms m a) = pr"
  "rc_project_id (request_context_new pr org proj role perms m a) = proj"
  by (simp_all add: request_context_new_def rc_post_init_def)

subsection \<open>Entities\<close>

record organization =
  og_id :: string
  og_name :: string
  og_slug :: string
  og_status :: org_status
  og_created_at :: real
  og_metadata :: jobj

record project =
  pj_id :: string
  pj_organization_id :: string
  pj_name :: string
  pj_slug :: string
  pj_status :: project_status
  pj_created_at :: real

record membership =
  mb_id :: string
  mb_principal_id :: string
  mb_organization_id :: string
  mb_role :: string
  mb_status :: membership_status
  mb_created_at :: real

record service_account =
  sa_id :: string
  sa_organization_id :: string
  sa_project_id :: "string option"
  sa_name :: string
  sa_role :: string
  sa_status :: string
  sa_created_at :: real

record usage_event =
  ue_id :: string
  ue_organization_id :: string
  ue_project_id :: "string option"
  ue_job_id :: string
  ue_metric :: string
  ue_quantity :: real
  ue_unit :: string
  ue_cost_usd :: real
  ue_source :: string
  ue_occurred_at :: real
  ue_dedup_key :: "string option"

record quota =
  qt_organization_id :: string
  qt_metric :: string
  qt_limit_value :: real
  qt_period :: string
  qt_current_value :: real
  qt_soft_limit_ratio :: real

record audit_event =
  ev_event_id :: string
  ev_organization_id :: string
  ev_actor :: string
  ev_actor_type :: string
  ev_action :: string
  ev_resource :: string
  ev_result :: string
  ev_timestamp :: real
  ev_source_ip :: "string option"
  ev_request_id :: "string option"
  ev_metadata :: jobj
  ev_schema_version :: string

subsection \<open>API keys\<close>

record api_key =
  ak_id :: string
  ak_prefix :: string
  ak_secret_hash :: string
  ak_organization_id :: string
  ak_project_id :: "string option"
  ak_principal_id :: string
  ak_scopes :: "string list"
  ak_status :: string
  ak_created_at :: real
  ak_expires_at :: "real option"
  ak_last_used_at :: "real option"

definition api_key_prefix :: "string \<Rightarrow> string \<Rightarrow> string" where
  "api_key_prefix org hex4 = ''zck_'' @ take 6 org @ ''_'' @ hex4"

definition api_key_generate ::
  "(string \<Rightarrow> string) \<Rightarrow> string \<Rightarrow> string \<Rightarrow> string option \<Rightarrow> string list \<Rightarrow> real option
     \<Rightarrow> string \<Rightarrow> string \<Rightarrow> string \<Rightarrow> real \<Rightarrow> api_key \<times> string" where
  "api_key_generate H org who proj scopes ttl hex4 secret hex8 now =
     (let prefix = api_key_prefix org hex4; raw = prefix @ ''_'' @ secret in
      (\<lparr>ak_id = ''key_'' @ hex8, ak_prefix = prefix, ak_secret_hash = H raw,
        ak_organization_id = org, ak_project_id = proj, ak_principal_id = who,
        ak_scopes = (if scopes = [] then [''job:read'', ''job:create''] else scopes),
        ak_status = ''ACTIVE'', ak_created_at = now,
        ak_expires_at = (if truthy_num ttl then Some (now + the ttl) else None),
        ak_last_used_at = None\<rparr>, raw))"

definition api_key_verify :: "(string \<Rightarrow> string) \<Rightarrow> api_key \<Rightarrow> real \<Rightarrow> string \<Rightarrow> bool" where
  "api_key_verify H k now raw =
     (if ak_status k \<noteq> ''ACTIVE'' then False
      else if truthy_num (ak_expires_at k) \<and> now > the (ak_expires_at k) then False
      else H raw = ak_secret_hash k)"

lemma psubset_of_lists:
  "list_all (\<lambda>x. x \<in> set ys) xs \<Longrightarrow> y \<in> set ys \<Longrightarrow> y \<notin> set xs \<Longrightarrow> set xs \<subset> set ys"
  by (auto simp: list_all_iff)

subsection \<open>Properties\<close>

text \<open>
  a generated key accepts a raw secret exactly when the secret hashes like the one handed out
  and the lifetime, if there is a non-zero one, has not passed; so a lifetime of zero seconds makes a key
  that never expires.
\<close>

theorem api_key_generate_verify:
  "api_key_verify H (fst (api_key_generate H org pr proj sc ttl hex4 secret hex8 now)) now' raw \<longleftrightarrow>
     H raw = H (snd (api_key_generate H org pr proj sc ttl hex4 secret hex8 now)) \<and>
     (case ttl of None \<Rightarrow> True | Some t \<Rightarrow> t = 0 \<or> now + t = 0 \<or> now' \<le> now + t)"
  by (cases ttl) (auto simp: api_key_verify_def api_key_generate_def Let_def)

text \<open>
  the operational roles form a chain of privileges from viewer to owner, so raising a member's
  role along it never removes a permission; the billing role stands outside the chain, since it alone can
  read usage.
\<close>

theorem role_chain_monotone:
  "set (role_permission_list VIEWER) \<subset> set (role_permission_list DEVELOPER) \<and>
   set (role_permission_list DEVELOPER) \<subset> set (role_permission_list OPERATOR) \<and>
   set (role_permission_list OPERATOR) \<subset> set (role_permission_list PROJECT_ADMIN) \<and>
   set (role_permission_list PROJECT_ADMIN) \<subset> set (role_permission_list ORG_ADMIN) \<and>
   set (role_permission_list ORG_ADMIN) \<subset> set (role_permission_list ORG_OWNER) \<and>
   (\<forall>r. ''usage.read'' \<in> set (role_permission_list r) \<longleftrightarrow> r = BILLING_ADMIN)"
proof -
  have "''usage.read'' \<in> set (role_permission_list r) \<longleftrightarrow> r = BILLING_ADMIN" for r
    by (cases r) simp_all
  moreover have
    "set (role_permission_list VIEWER) \<subset> set (role_permission_list DEVELOPER)"
    by (rule psubset_of_lists [of _ _ "''job.create''"]; simp)
  moreover have "set (role_permission_list DEVELOPER) \<subset> set (role_permission_list OPERATOR)"
    by (rule psubset_of_lists [of _ _ "''job.cancel''"]; simp)
  moreover have "set (role_permission_list OPERATOR) \<subset> set (role_permission_list PROJECT_ADMIN)"
    by (rule psubset_of_lists [of _ _ "''audit.read''"]; simp)
  moreover have "set (role_permission_list PROJECT_ADMIN) \<subset> set (role_permission_list ORG_ADMIN)"
    by (rule psubset_of_lists [of _ _ "''org.manage''"]; simp)
  moreover have "set (role_permission_list ORG_ADMIN) \<subset> set (role_permission_list ORG_OWNER)"
    by (rule psubset_of_lists [of _ _ "''org.delete''"]; simp)
  ultimately show ?thesis by blast
qed

end
