(* ===== verification/PolicyEngine.thy ===== *)
theory PolicyEngine
  imports Tenancy
begin

text \<open>
  \<open>src/zcoder/domain/services/policy_engine.py\<close>: the policy-as-code engine. \<open>H\<close> is the SHA-256
  hex digest; the resource is the dictionary the caller passes. The engine allows by default: its docstring and
  \<open>docs/compliance/POLICY.md\<close> say that it denies when no policy matches, and \<open>unmatched_action_is_allowed\<close> shows that it does
  not; the \<open>condition\<close> of a rule is stored and never looked at (\<open>conditions_are_ignored\<close>).
\<close>

record policy_obligation =
  po_type :: string
  po_parameters :: jobj

record policy_decision =
  pd_allow :: bool
  pd_reason :: string
  pd_obligations :: "policy_obligation list"
  pd_policy_version :: string
  pd_policy_hash :: string

record policy_rule =
  pr_id :: string
  pr_action_pattern :: string
  pr_condition :: string
  pr_effect :: string
  pr_obligations :: "policy_obligation list"

record policy_engine =
  pe_organization_id :: string
  pe_version :: string
  pe_rules :: "policy_rule list"
  pe_policy_hash :: string

fun join_ids :: "string list \<Rightarrow> string" where
  "join_ids [] = []"
| "join_ids [x] = x"
| "join_ids (x # y # ys) = x @ '':'' @ join_ids (y # ys)"

definition compute_hash :: "(string \<Rightarrow> string) \<Rightarrow> policy_engine \<Rightarrow> policy_engine" where
  "compute_hash H e = e\<lparr>pe_policy_hash :=
     take 16 (H (pe_organization_id e @ '':'' @ pe_version e @ '':'' @ join_ids (map pr_id (pe_rules e))))\<rparr>"

definition policy_engine_new :: "(string \<Rightarrow> string) \<Rightarrow> string \<Rightarrow> string \<Rightarrow> policy_engine" where
  "policy_engine_new H org ver = compute_hash H
     \<lparr>pe_organization_id = org, pe_version = ver, pe_rules = [], pe_policy_hash = []\<rparr>"

definition add_rule :: "(string \<Rightarrow> string) \<Rightarrow> policy_rule \<Rightarrow> policy_engine \<Rightarrow> policy_engine" where
  "add_rule H r e = compute_hash H (e\<lparr>pe_rules := pe_rules e @ [r]\<rparr>)"

definition matches_action :: "string \<Rightarrow> string \<Rightarrow> bool" where
  "matches_action pattern action =
     (if pattern = ''*'' \<or> pattern = action then True
      else if py_endswith pattern ''.*'' then py_startswith action (butlast (butlast pattern) @ ''.'')
      else False)"

text \<open>The loop over the rules: \<open>Inl\<close> the denying rule, or \<open>Inr\<close> the obligations collected.\<close>

fun check_rules ::
  "string \<Rightarrow> policy_rule list \<Rightarrow> policy_obligation list \<Rightarrow> policy_rule + policy_obligation list" where
  "check_rules action [] obs = Inr obs"
| "check_rules action (r # rs) obs =
     (if matches_action (pr_action_pattern r) action then
        if pr_effect r = ''DENY'' then Inl r
        else if pr_effect r = ''ALLOW'' then check_rules action rs (obs @ pr_obligations r)
        else check_rules action rs obs
      else check_rules action rs obs)"

definition risk_obligations :: "jobj \<Rightarrow> policy_obligation list" where
  "risk_obligations resource =
     (if map_of resource ''trust_level'' = Some (JStr ''UNTRUSTED'')
      then [\<lparr>po_type = ''require_sandbox'', po_parameters = []\<rparr>] else []) @
     (if map_of resource ''risk_level'' = Some (JStr ''high'')
      then [\<lparr>po_type = ''require_approval'', po_parameters = [(''min_approvers'', JInt 1)]\<rparr>] else [])"

definition decide :: "policy_engine \<Rightarrow> bool \<Rightarrow> string \<Rightarrow> policy_obligation list \<Rightarrow> policy_decision" where
  "decide e allow reason obs = \<lparr>pd_allow = allow, pd_reason = reason, pd_obligations = obs,
     pd_policy_version = pe_version e, pd_policy_hash = pe_policy_hash e\<rparr>"

definition single_quoted :: "string \<Rightarrow> string" where
  "single_quoted s = [CHR 0x27] @ s @ [CHR 0x27]"

definition evaluate ::
  "policy_engine \<Rightarrow> request_context \<Rightarrow> string \<Rightarrow> jobj \<Rightarrow> tenant_error + policy_decision" where
  "evaluate e ctx action resource =
     (case validate_tenant_access ctx (pe_organization_id e) None of
        Inl err \<Rightarrow> Inl err
      | Inr _ \<Rightarrow>
         if \<not> has_permission ctx action
         then Inr (decide e False (''Principal lacks role permission for '' @ single_quoted action) [])
         else (case check_rules action (pe_rules e) [] of
             Inl r \<Rightarrow> Inr (decide e False (''Explicitly denied by policy rule '' @ single_quoted (pr_id r)) [])
           | Inr obs \<Rightarrow> Inr (decide e True ''Authorized by organization enterprise policy''
                (obs @ risk_obligations resource))))"

definition obligation_json :: "policy_obligation \<Rightarrow> json" where
  "obligation_json o' = JObj [(''type'', JStr (po_type o')), (''params'', JObj (po_parameters o'))]"

definition explain ::
  "policy_engine \<Rightarrow> request_context \<Rightarrow> string \<Rightarrow> jobj \<Rightarrow> tenant_error + jobj" where
  "explain e ctx action resource =
     (case evaluate e ctx action resource of
        Inl err \<Rightarrow> Inl err
      | Inr d \<Rightarrow> Inr
         [(''organization_id'', JStr (pe_organization_id e)),
          (''principal_id'', JStr (rc_principal_id ctx)),
          (''action'', JStr action),
          (''allow'', JBool (pd_allow d)),
          (''reason'', JStr (pd_reason d)),
          (''obligations'', JArr (map obligation_json (pd_obligations d))),
          (''policy_version'', JStr (pd_policy_version d)),
          (''policy_hash'', JStr (pd_policy_hash d))])"

lemma decide_allow: "pd_allow (decide e b reason obs) = b"
  by (simp add: decide_def)

subsection \<open>The loop over the rules, without the order\<close>

definition denies :: "string \<Rightarrow> policy_rule \<Rightarrow> bool" where
  "denies action r \<longleftrightarrow> matches_action (pr_action_pattern r) action \<and> pr_effect r = ''DENY''"

definition allows :: "string \<Rightarrow> policy_rule \<Rightarrow> bool" where
  "allows action r \<longleftrightarrow> matches_action (pr_action_pattern r) action \<and> pr_effect r = ''ALLOW''"

lemma check_rules_Inr:
  "check_rules action rs obs = Inr obs' \<longleftrightarrow>
     (\<forall>r \<in> set rs. \<not> denies action r) \<and>
     obs' = obs @ concat (map pr_obligations (filter (allows action) rs))"
  by (induction action rs obs rule: check_rules.induct) (auto simp: denies_def allows_def)

lemma check_rules_Inl: "check_rules action rs obs = Inl r \<Longrightarrow> r \<in> set rs \<and> denies action r"
  by (induction action rs obs rule: check_rules.induct) (auto simp: denies_def split: if_splits)

text \<open>What the pattern language means.\<close>

lemma suffix_butlast2: "suffix ''.*'' p \<longleftrightarrow> (\<exists>q. p = q @ ''.*'')"
  by (auto simp: suffix_def)

lemma matches_action_iff:
  "matches_action p a \<longleftrightarrow> p = ''*'' \<or> p = a \<or> (\<exists>q rest. p = q @ ''.*'' \<and> a = q @ ''.'' @ rest)"
proof -
  have "butlast (butlast (q @ ''.*'')) = q" for q :: string
    by (simp add: butlast_append)
  then show ?thesis
    by (auto simp: matches_action_def py_endswith_def py_startswith_def suffix_butlast2 prefix_def)
qed

subsection \<open>Properties\<close>

lemma decide_obligations: "pd_obligations (decide e b reason obs) = obs"
  by (simp add: decide_def)

lemma subseq_insert_middle: "subseq (xs @ zs) (xs @ ys @ zs)"
  by (induction xs) auto

lemma allows_form:
  "evaluate e ctx action resource = Inr d \<and> pd_allow d \<longleftrightarrow>
     (rc_is_global_admin ctx \<or>
        rc_organization_id ctx = pe_organization_id e \<and> action \<in> rc_permissions ctx) \<and>
     (\<forall>r \<in> set (pe_rules e). \<not> denies action r) \<and>
     d = decide e True ''Authorized by organization enterprise policy''
       (concat (map pr_obligations (filter (allows action) (pe_rules e))) @ risk_obligations resource)"
proof (cases "validate_tenant_access ctx (pe_organization_id e) None")
  case (Inl err)
  then have "\<not> (rc_is_global_admin ctx \<or> rc_organization_id ctx = pe_organization_id e)"
    by (auto simp: validate_tenant_access_def split: if_splits)
  with Inl show ?thesis by (auto simp: evaluate_def)
next
  case (Inr u)
  then have t: "rc_is_global_admin ctx \<or> rc_organization_id ctx = pe_organization_id e"
    using validate_tenant_access_ok [of ctx "pe_organization_id e" None] by simp
  show ?thesis
  proof (cases "has_permission ctx action")
    case False
    with t show ?thesis by (auto simp: evaluate_def Inr has_permission_def decide_allow split: if_splits)
  next
    case True
    then have p: "rc_is_global_admin ctx \<or> action \<in> rc_permissions ctx"
      by (auto simp: has_permission_def split: if_splits)
    show ?thesis
    proof (cases "check_rules action (pe_rules e) []")
      case (Inl r)
      then have "r \<in> set (pe_rules e)" "denies action r" by (auto dest: check_rules_Inl)
      with Inl Inr True show ?thesis by (auto simp: evaluate_def decide_allow)
    next
      case (Inr obs)
      then have "(\<forall>r \<in> set (pe_rules e). \<not> denies action r)"
        "obs = concat (map pr_obligations (filter (allows action) (pe_rules e)))"
        by (simp_all add: check_rules_Inr)
      with Inr \<open>validate_tenant_access ctx (pe_organization_id e) None = Inr u\<close> True t p
      show ?thesis by (auto simp: evaluate_def decide_allow)
    qed
  qed
qed

text \<open>Without a rule for the action the permission of the role decides.\<close>

lemma unmatched_action_is_allowed:
  assumes "rc_is_global_admin ctx \<or> rc_organization_id ctx = pe_organization_id e \<and> action \<in> rc_permissions ctx"
    and "\<forall>r \<in> set (pe_rules e). \<not> matches_action (pr_action_pattern r) action"
  shows "evaluate e ctx action resource =
    Inr (decide e True ''Authorized by organization enterprise policy'' (risk_obligations resource))"
proof -
  have "filter (allows action) (pe_rules e) = []" using assms(2) by (simp add: filter_empty_conv allows_def)
  moreover have "\<forall>r \<in> set (pe_rules e). \<not> denies action r" using assms(2) by (simp add: denies_def)
  ultimately show ?thesis using assms(1) allows_form [of e ctx action resource
    "decide e True ''Authorized by organization enterprise policy'' (risk_obligations resource)"] by simp
qed

lemma check_rules_conditions:
  "check_rules action (map (\<lambda>r. r\<lparr>pr_condition := f r\<rparr>) rs) obs = map_sum (\<lambda>r. r\<lparr>pr_condition := f r\<rparr>) id (check_rules action rs obs)"
  by (induction action rs obs rule: check_rules.induct) simp_all

lemma conditions_are_ignored:
  "evaluate (e\<lparr>pe_rules := map (\<lambda>r. r\<lparr>pr_condition := f r\<rparr>) (pe_rules e)\<rparr>) ctx action resource = evaluate e ctx action resource"
  by (auto simp: evaluate_def check_rules_conditions decide_def split: sum.split)

text \<open>
  C30: the exact condition under which the engine allows. It allows an action exactly when the caller is inside the tenant (or
  a global administrator), holds the permission, and no rule that matches the action denies it, in whatever
  order the rules were added; and then its obligations are those of the matching ALLOW rules, in order,
  followed by the sandbox and approval obligations of a risky resource. So an action that no rule mentions is allowed to whoever
  holds the permission: this is not the default DENY that the docstring of \<open>evaluate\<close> and \<open>POLICY.md\<close> announce.
\<close>

theorem evaluate_allows_iff:
  "evaluate e ctx action resource = Inr d \<and> pd_allow d \<longleftrightarrow>
     (rc_is_global_admin ctx \<or>
        rc_organization_id ctx = pe_organization_id e \<and> action \<in> rc_permissions ctx) \<and>
     (\<forall>r \<in> set (pe_rules e). \<not> denies action r) \<and>
     d = decide e True ''Authorized by organization enterprise policy''
       (concat (map pr_obligations (filter (allows action) (pe_rules e))) @ risk_obligations resource)"
  by (rule allows_form)

theorem evaluate_allows_iff_witness:
  "evaluate (policy_engine_new (\<lambda>s. s) ''acme'' ''1.0.0'')
     (request_context_new ''u1'' ''acme'' None ''Operator'' {''job.create''} ''token'' False) ''job.create''
     [(''risk_level'', JStr ''high'')]
   = Inr (decide (policy_engine_new (\<lambda>s. s) ''acme'' ''1.0.0'') True
      ''Authorized by organization enterprise policy''
      [\<lparr>po_type = ''require_approval'', po_parameters = [(''min_approvers'', JInt 1)]\<rparr>])"
  using evaluate_allows_iff [of "policy_engine_new (\<lambda>s. s) ''acme'' ''1.0.0''"
      "request_context_new ''u1'' ''acme'' None ''Operator'' {''job.create''} ''token'' False" "''job.create''"
      "[(''risk_level'', JStr ''high'')]"
      "decide (policy_engine_new (\<lambda>s. s) ''acme'' ''1.0.0'') True
        ''Authorized by organization enterprise policy''
        [\<lparr>po_type = ''require_approval'', po_parameters = [(''min_approvers'', JInt 1)]\<rparr>]"]
  by (simp add: policy_engine_new_def compute_hash_def risk_obligations_def decide_def)

text \<open>
  adding a rule can only restrict: whatever the engine with one more rule allows, the engine
  allowed before, with a sublist of the obligations.
\<close>

theorem add_rule_restricts:
  assumes "evaluate (add_rule H r e) ctx action resource = Inr d" and "pd_allow d"
  shows "\<exists>d'. evaluate e ctx action resource = Inr d' \<and> pd_allow d' \<and>
    subseq (pd_obligations d') (pd_obligations d)"
proof -
  let ?obs = "\<lambda>rs. concat (map pr_obligations (filter (allows action) rs))"
  let ?d' = "decide e True ''Authorized by organization enterprise policy''
    (?obs (pe_rules e) @ risk_obligations resource)"
  have rules: "pe_rules (add_rule H r e) = pe_rules e @ [r]"
    and org: "pe_organization_id (add_rule H r e) = pe_organization_id e"
    by (simp_all add: add_rule_def compute_hash_def)
  from assms have new: "(rc_is_global_admin ctx \<or>
        rc_organization_id ctx = pe_organization_id e \<and> action \<in> rc_permissions ctx) \<and>
      (\<forall>r' \<in> set (pe_rules e @ [r]). \<not> denies action r') \<and>
      pd_obligations d = ?obs (pe_rules e @ [r]) @ risk_obligations resource"
    using allows_form [THEN iffD1, OF conjI, of "add_rule H r e" ctx action resource d]
    unfolding rules org by (metis decide_obligations)
  then have "evaluate e ctx action resource = Inr ?d' \<and> pd_allow ?d'"
    by (subst allows_form) simp
  moreover have "subseq (pd_obligations ?d') (pd_obligations d)"
    using new by (simp add: decide_obligations subseq_insert_middle)
  ultimately show ?thesis by blast
qed

theorem add_rule_restricts_witness:
  "\<exists>d'. evaluate (policy_engine_new (\<lambda>s. s) ''acme'' ''1.0.0'')
      (request_context_new ''u1'' ''acme'' None ''Viewer'' {''job.read''} ''token'' False) ''job.read'' [] = Inr d' \<and>
     pd_allow d' \<and> subseq (pd_obligations d') []"
  using add_rule_restricts [of "\<lambda>s. s" "\<lparr>pr_id = ''r1'', pr_action_pattern = ''repo.*'',
        pr_condition = '''', pr_effect = ''DENY'', pr_obligations = []\<rparr>"
      "policy_engine_new (\<lambda>s. s) ''acme'' ''1.0.0''"
      "request_context_new ''u1'' ''acme'' None ''Viewer'' {''job.read''} ''token'' False" "''job.read''" "[]"
      "decide (add_rule (\<lambda>s. s) \<lparr>pr_id = ''r1'', pr_action_pattern = ''repo.*'',
        pr_condition = '''', pr_effect = ''DENY'', pr_obligations = []\<rparr>
        (policy_engine_new (\<lambda>s. s) ''acme'' ''1.0.0'')) True
        ''Authorized by organization enterprise policy'' []"]
  by (simp add: evaluate_def policy_engine_new_def compute_hash_def add_rule_def risk_obligations_def
      validate_tenant_access_def has_permission_def decide_def matches_action_def py_endswith_def
      py_startswith_def)

end
