(* ===== verification/Product.thy ===== *)
theory Product
  imports Resilience
begin

text \<open>
  \<open>src/zcoder/domain/models/product.py\<close>: plans and their entitlement bundles, the entitlement
  service, the in-memory billing provider, the Stripe adapter and the outbound webhook signature.
  Stripe itself is a parameter: a request function from method, path, parameters and idempotency
  key to the JSON object it answers or the exception it raises. \<open>hmac\<close> is HMAC-SHA256 as a
  function of secret and message, \<open>H\<close> is SHA-256, both giving hexadecimal text.
\<close>

subsection \<open>Plans and entitlements\<close>

datatype plan_tier = COMMUNITY_FREE | DEVELOPER_PLAN | TEAM | BUSINESS | ENTERPRISE

fun plan_value :: "plan_tier \<Rightarrow> string" where
  "plan_value COMMUNITY_FREE = ''community_free''"
| "plan_value DEVELOPER_PLAN = ''developer''"
| "plan_value TEAM = ''team''"
| "plan_value BUSINESS = ''business''"
| "plan_value ENTERPRISE = ''enterprise''"

datatype subscription_status = Trialing | SubActive | PastDue | SubPaused | SubCancelled | Incomplete

datatype account_status = AccPending | AccActive | AccPastDue | AccSuspended | AccCancelled

record entitlement_bundle =
  eb_version :: string
  eb_max_projects :: int
  eb_max_repositories :: int
  eb_monthly_budget_usd :: real
  eb_concurrent_jobs :: int
  eb_managed_agents :: bool
  eb_multiagent_orchestration :: bool
  eb_scim_enabled :: bool
  eb_sso_oidc_enabled :: bool
  eb_audit_export_enabled :: bool
  eb_retention_days :: int
  eb_regional_controls :: bool
  eb_priority_support :: bool

fun PLAN_ENTITLEMENTS :: "plan_tier \<Rightarrow> entitlement_bundle" where
  "PLAN_ENTITLEMENTS COMMUNITY_FREE = \<lparr>eb_version = ''2026.1'', eb_max_projects = 1,
     eb_max_repositories = 2, eb_monthly_budget_usd = 10, eb_concurrent_jobs = 1,
     eb_managed_agents = True, eb_multiagent_orchestration = False, eb_scim_enabled = False,
     eb_sso_oidc_enabled = False, eb_audit_export_enabled = False, eb_retention_days = 7,
     eb_regional_controls = False, eb_priority_support = False\<rparr>"
| "PLAN_ENTITLEMENTS DEVELOPER_PLAN = \<lparr>eb_version = ''2026.1'', eb_max_projects = 5,
     eb_max_repositories = 10, eb_monthly_budget_usd = 100, eb_concurrent_jobs = 3,
     eb_managed_agents = True, eb_multiagent_orchestration = True, eb_scim_enabled = False,
     eb_sso_oidc_enabled = True, eb_audit_export_enabled = True, eb_retention_days = 30,
     eb_regional_controls = False, eb_priority_support = False\<rparr>"
| "PLAN_ENTITLEMENTS TEAM = \<lparr>eb_version = ''2026.1'', eb_max_projects = 20,
     eb_max_repositories = 50, eb_monthly_budget_usd = 500, eb_concurrent_jobs = 10,
     eb_managed_agents = True, eb_multiagent_orchestration = True, eb_scim_enabled = True,
     eb_sso_oidc_enabled = True, eb_audit_export_enabled = True, eb_retention_days = 90,
     eb_regional_controls = True, eb_priority_support = False\<rparr>"
| "PLAN_ENTITLEMENTS BUSINESS = \<lparr>eb_version = ''2026.1'', eb_max_projects = 100,
     eb_max_repositories = 250, eb_monthly_budget_usd = 2500, eb_concurrent_jobs = 25,
     eb_managed_agents = True, eb_multiagent_orchestration = True, eb_scim_enabled = True,
     eb_sso_oidc_enabled = True, eb_audit_export_enabled = True, eb_retention_days = 180,
     eb_regional_controls = True, eb_priority_support = False\<rparr>"
| "PLAN_ENTITLEMENTS ENTERPRISE = \<lparr>eb_version = ''2026.1'', eb_max_projects = 999999,
     eb_max_repositories = 999999, eb_monthly_budget_usd = 50000, eb_concurrent_jobs = 100,
     eb_managed_agents = True, eb_multiagent_orchestration = True, eb_scim_enabled = True,
     eb_sso_oidc_enabled = True, eb_audit_export_enabled = True, eb_retention_days = 365,
     eb_regional_controls = True, eb_priority_support = True\<rparr>"

text \<open>\<open>getattr(bundle, name)\<close> for the data fields.\<close>

definition bundle_attrs :: "entitlement_bundle \<Rightarrow> (string \<times> json) list" where
  "bundle_attrs b =
     [(''version'', JStr (eb_version b)), (''max_projects'', JInt (eb_max_projects b)),
      (''max_repositories'', JInt (eb_max_repositories b)),
      (''monthly_budget_usd'', JFloat (eb_monthly_budget_usd b)),
      (''concurrent_jobs'', JInt (eb_concurrent_jobs b)),
      (''managed_agents'', JBool (eb_managed_agents b)),
      (''multiagent_orchestration'', JBool (eb_multiagent_orchestration b)),
      (''scim_enabled'', JBool (eb_scim_enabled b)),
      (''sso_oidc_enabled'', JBool (eb_sso_oidc_enabled b)),
      (''audit_export_enabled'', JBool (eb_audit_export_enabled b)),
      (''retention_days'', JInt (eb_retention_days b)),
      (''regional_controls'', JBool (eb_regional_controls b)),
      (''priority_support'', JBool (eb_priority_support b))]"

record customer_account =
  ca_id :: string
  ca_organization_id :: string
  ca_name :: string
  ca_email :: string
  ca_status :: account_status
  ca_created_at :: real
  ca_metadata :: jobj

text \<open>
  \<open>plan_tier\<close> is a plain string in the source, so it need not name a plan: it is one here too.
\<close>

record subscription =
  sb_id :: string
  sb_account_id :: string
  sb_organization_id :: string
  sb_plan_tier :: string
  sb_status :: subscription_status
  sb_current_period_start :: real
  sb_current_period_end :: real
  sb_provider_subscription_ref :: "string option"
  sb_cancel_at_period_end :: bool
  sb_trial_ends_at :: "real option"
  sb_entitlement_version :: string

definition plan_of_value :: "string \<Rightarrow> plan_tier option" where
  "plan_of_value s = find (\<lambda>p. plan_value p = s)
     [COMMUNITY_FREE, DEVELOPER_PLAN, TEAM, BUSINESS, ENTERPRISE]"

type_synonym entitlement_service = "(string \<times> subscription) list"

definition set_subscription :: "entitlement_service \<Rightarrow> subscription \<Rightarrow> entitlement_service" where
  "set_subscription es s = dict_set es (sb_organization_id s) s"

definition get_entitlements :: "entitlement_service \<Rightarrow> string \<Rightarrow> entitlement_bundle" where
  "get_entitlements es org =
     (case map_of es org of
        None \<Rightarrow> PLAN_ENTITLEMENTS COMMUNITY_FREE
      | Some s \<Rightarrow>
         if sb_status s = SubCancelled \<or> sb_status s = Incomplete then PLAN_ENTITLEMENTS COMMUNITY_FREE
         else (case plan_of_value (sb_plan_tier s) of None \<Rightarrow> PLAN_ENTITLEMENTS DEVELOPER_PLAN
               | Some p \<Rightarrow> PLAN_ENTITLEMENTS p))"

definition check_feature :: "entitlement_service \<Rightarrow> string \<Rightarrow> string \<Rightarrow> bool" where
  "check_feature es org name =
     truthy (dict_get (bundle_attrs (get_entitlements es org)) name (JBool False))"

definition check_quota_limit :: "entitlement_service \<Rightarrow> string \<Rightarrow> string \<Rightarrow> real \<Rightarrow> bool" where
  "check_quota_limit es org metric current =
     (let b = get_entitlements es org in
      if metric = ''concurrent_jobs'' then current < of_int (eb_concurrent_jobs b)
      else if metric = ''monthly_budget_usd'' then current < eb_monthly_budget_usd b
      else if metric = ''projects'' then current < of_int (eb_max_projects b)
      else if metric = ''repositories'' then current < of_int (eb_max_repositories b)
      else True)"

lemma plan_of_value_value [simp]: "plan_of_value (plan_value p) = Some p"
  by (cases p) (simp_all add: plan_of_value_def)

subsection \<open>The in-memory billing provider\<close>

record fake_billing =
  fb_customers :: "(string \<times> jobj) list"
  fb_subscriptions :: "(string \<times> jobj) list"
  fb_usage_records :: "(string \<times> jobj) list"

definition fake_billing_new :: fake_billing where
  "fake_billing_new = \<lparr>fb_customers = [], fb_subscriptions = [], fb_usage_records = []\<rparr>"

definition fake_create_customer ::
  "fake_billing \<Rightarrow> string \<Rightarrow> string \<Rightarrow> string \<Rightarrow> string \<Rightarrow> real \<Rightarrow> string \<times> fake_billing" where
  "fake_create_customer b org email name hex now =
     (let r = ''cus_fake_'' @ take 12 hex in
      (r, b\<lparr>fb_customers := dict_set (fb_customers b) r
         [(''ref'', JStr r), (''organization_id'', JStr org), (''email'', JStr email),
          (''name'', JStr name), (''created_at'', JFloat now)]\<rparr>))"

definition fake_create_subscription ::
  "fake_billing \<Rightarrow> string \<Rightarrow> plan_tier \<Rightarrow> string \<Rightarrow> real \<Rightarrow> string \<times> fake_billing" where
  "fake_create_subscription b cus plan hex now =
     (let r = ''sub_fake_'' @ take 12 hex in
      (r, b\<lparr>fb_subscriptions := dict_set (fb_subscriptions b) r
         [(''sub_ref'', JStr r), (''customer_ref'', JStr cus), (''plan_tier'', JStr (plan_value plan)),
          (''status'', JStr ''active''), (''created_at'', JFloat now)]\<rparr>))"

definition fake_report_usage ::
  "fake_billing \<Rightarrow> string \<Rightarrow> string \<Rightarrow> string \<Rightarrow> real \<Rightarrow> int option \<Rightarrow> real \<Rightarrow> bool \<times> fake_billing" where
  "fake_report_usage b cus event metric quantity occurred now =
     (if map_of (fb_usage_records b) event \<noteq> None then (True, b)
      else (True, b\<lparr>fb_usage_records := dict_set (fb_usage_records b) event
         [(''customer_ref'', JStr cus), (''metric'', JStr metric), (''quantity'', JFloat quantity),
          (''timestamp'', case occurred of Some t \<Rightarrow> JInt t | None \<Rightarrow> JFloat now)]\<rparr>))"

definition fake_reconcile_subscription :: "fake_billing \<Rightarrow> string \<Rightarrow> jobj" where
  "fake_reconcile_subscription b cus =
     (case find (\<lambda>s. map_of s ''customer_ref'' = Some (JStr cus)) (dict_values (fb_subscriptions b)) of
        Some s \<Rightarrow> s
      | None \<Rightarrow> [(''status'', JStr ''none''), (''customer_ref'', JStr cus)])"

definition fake_verify_webhook_signature ::
  "(string \<Rightarrow> string \<Rightarrow> string) \<Rightarrow> string \<Rightarrow> string \<Rightarrow> string \<Rightarrow> bool" where
  "fake_verify_webhook_signature hmac payload signature secret = (hmac secret payload = signature)"

subsection \<open>Stripe: requests\<close>

datatype billing_error =
    BillingConfigurationError string
  | BillingProviderError string
  | BillingValueError string
  | BillingTransport exc

record stripe =
  st_api_key :: string
  st_webhook_secret :: string
  st_price_ids :: "(plan_tier \<times> string) list"
  st_meter_event_names :: "(string \<times> string) list"
  st_webhook_tolerance_seconds :: int

definition stripe_new ::
  "string \<Rightarrow> string \<Rightarrow> (plan_tier \<times> string) list \<Rightarrow> (string \<times> string) list \<Rightarrow> int \<Rightarrow> billing_error + stripe" where
  "stripe_new key secret prices meters tol =
     (if tol \<le> 0 then Inl (BillingValueError ''webhook_tolerance_seconds must be positive'')
      else Inr \<lparr>st_api_key = py_strip key, st_webhook_secret = secret, st_price_ids = prices,
        st_meter_event_names = meters, st_webhook_tolerance_seconds = tol\<rparr>)"

definition idempotency_char :: "char \<Rightarrow> bool" where
  "idempotency_char c = (let n = (of_char c :: nat) in
     48 \<le> n \<and> n \<le> 57 \<or> 65 \<le> n \<and> n \<le> 90 \<or> 97 \<le> n \<and> n \<le> 122 \<or> c \<in> set ''_.:-'')"

type_synonym stripe_send =
  "string \<Rightarrow> string \<Rightarrow> (string \<times> string) list \<Rightarrow> string option \<Rightarrow> exc + json"

text \<open>An empty idempotency key sends no header; a response that is not an object is an error.\<close>

definition stripe_request ::
  "stripe_send \<Rightarrow> stripe \<Rightarrow> string \<Rightarrow> string \<Rightarrow> (string \<times> string) list \<Rightarrow> string option
     \<Rightarrow> billing_error + jobj" where
  "stripe_request send st meth path params idem =
     (if st_api_key st = [] then
        Inl (BillingConfigurationError ''STRIPE_SECRET_KEY is required for Stripe billing operations'')
      else if \<not> py_startswith path ''/'' \<or> ''..'' \<in> set (py_split CHR ''/'' path) then
        Inl (BillingValueError ''Stripe API path must be an absolute API path'')
      else if meth \<noteq> ''GET'' \<and> meth \<noteq> ''POST'' then
        Inl (BillingValueError ''Unsupported Stripe HTTP method'')
      else if truthy_str idem \<and> \<not> (list_all idempotency_char (the idem) \<and> length (the idem) \<le> 255) then
        Inl (BillingValueError ''idempotency_key must be 1 to 255 safe ASCII characters'')
      else (case send meth path params (if truthy_str idem then idem else None) of
          Inl e \<Rightarrow> Inl (BillingTransport e)
        | Inr (JObj d) \<Rightarrow> Inr d
        | Inr _ \<Rightarrow> Inl (BillingProviderError ''Stripe returned an invalid response'')))"

definition stripe_idempotency_key :: "(string \<Rightarrow> string) \<Rightarrow> string \<Rightarrow> string \<Rightarrow> string" where
  "stripe_idempotency_key H operation value' = ''zcoder-'' @ operation @ ''-'' @ take 48 (H value')"

text \<open>\<open>id\<close> is a string with the prefix, and \<open>object\<close> names the kind.\<close>

definition created_id :: "jobj \<Rightarrow> string \<Rightarrow> string \<Rightarrow> string option" where
  "created_id resp kind pre =
     (if map_of resp ''object'' \<noteq> Some (JStr kind) then None
      else (case map_of resp ''id'' of
          Some (JStr i) \<Rightarrow> if py_startswith i pre then Some i else None
        | _ \<Rightarrow> None))"

definition stripe_create_customer ::
  "(string \<Rightarrow> string) \<Rightarrow> stripe_send \<Rightarrow> stripe \<Rightarrow> string \<Rightarrow> string \<Rightarrow> string \<Rightarrow> billing_error + string" where
  "stripe_create_customer H send st org email name =
     (if py_strip org = [] \<or> py_strip email = [] \<or> py_strip name = []
      then Inl (BillingValueError ''organization_id, email, and name are required'')
      else (case stripe_request send st ''POST'' ''/customers''
              [(''email'', py_strip email), (''name'', py_strip name),
               (''metadata[organization_id]'', py_strip org)]
              (Some (stripe_idempotency_key H ''customer'' (py_strip org))) of
          Inl e \<Rightarrow> Inl e
        | Inr resp \<Rightarrow> (case created_id resp ''customer'' ''cus_'' of
              Some i \<Rightarrow> Inr i
            | None \<Rightarrow> Inl (BillingProviderError
                ''Stripe customer creation returned no valid customer ID''))))"

definition stripe_create_subscription ::
  "(string \<Rightarrow> string) \<Rightarrow> stripe_send \<Rightarrow> stripe \<Rightarrow> string \<Rightarrow> plan_tier \<Rightarrow> string option
     \<Rightarrow> billing_error + string" where
  "stripe_create_subscription H send st cus plan idem =
     (if \<not> py_startswith cus ''cus_''
      then Inl (BillingValueError ''customer_ref must be a Stripe customer ID'')
      else if \<not> truthy_str (map_of (st_price_ids st) plan)
      then Inl (BillingConfigurationError (''No Stripe Price ID configured for plan '' @ plan_value plan))
      else (case stripe_request send st ''POST'' ''/subscriptions''
              [(''customer'', cus), (''items[0][price]'', the (map_of (st_price_ids st) plan)),
               (''metadata[plan_tier]'', plan_value plan)]
              (if truthy_str idem then idem
               else Some (stripe_idempotency_key H ''subscription'' (cus @ '':'' @ plan_value plan))) of
          Inl e \<Rightarrow> Inl e
        | Inr resp \<Rightarrow> (case created_id resp ''subscription'' ''sub_'' of
              Some i \<Rightarrow> Inr i
            | None \<Rightarrow> Inl (BillingProviderError
                ''Stripe subscription creation returned no valid subscription ID''))))"

text \<open>
  Usage is reported once per meter event: the identifier is the deduplication key and the idempotency
  key is derived from it. \<open>now\<close> is \<open>int(time.time())\<close> and \<open>show\<close> is \<open>format(quantity, ".15g")\<close>.
\<close>

definition event_name_char :: "char \<Rightarrow> bool" where
  "event_name_char c = (let n = (of_char c :: nat) in
     48 \<le> n \<and> n \<le> 57 \<or> 65 \<le> n \<and> n \<le> 90 \<or> 97 \<le> n \<and> n \<le> 122 \<or> c = CHR ''_'')"

definition stripe_report_usage ::
  "(string \<Rightarrow> string) \<Rightarrow> (real \<Rightarrow> string) \<Rightarrow> stripe_send \<Rightarrow> stripe \<Rightarrow> int \<Rightarrow> string \<Rightarrow> string \<Rightarrow> string
     \<Rightarrow> real \<Rightarrow> int option \<Rightarrow> billing_error + bool" where
  "stripe_report_usage H show send st now cus event metric quantity occurred =
     (if \<not> py_startswith cus ''cus_'' then Inl (BillingValueError ''customer_ref must be a Stripe customer ID'')
      else if py_strip event = [] \<or> length event > 100
        then Inl (BillingValueError ''meter_event_id must contain 1 to 100 characters'')
      else if quantity \<le> 0 then Inl (BillingValueError ''quantity must be a finite positive number'')
      else if (case occurred of None \<Rightarrow> False | Some t \<Rightarrow> t < now - 35 * 24 * 60 * 60 \<or> t > now + 300)
        then Inl (BillingValueError (''occurred_at must be within Stripe'' @ CHR 0x27 # ''s supported 35-day window''))
      else (case dict_get (st_meter_event_names st) metric [] of name \<Rightarrow>
        if name = [] \<or> \<not> (list_all event_name_char name \<and> length name \<le> 100)
        then Inl (BillingConfigurationError ''No valid Stripe meter event is configured for metric'')
        else (case stripe_request send st ''POST'' ''/billing/meter_events''
               ([(''event_name'', name), (''identifier'', event)] @
                (case occurred of None \<Rightarrow> [] | Some t \<Rightarrow> [(''timestamp'', string_of_int t)]) @
                [(''payload[stripe_customer_id]'', cus), (''payload[value]'', show quantity)])
               (Some (stripe_idempotency_key H ''meter'' event)) of
            Inl e \<Rightarrow> Inl e
          | Inr resp \<Rightarrow> Inr (map_of resp ''object'' = Some (JStr ''billing.meter_event'') \<and>
               truthy (dict_get resp ''id'' JNull)))))"

subsection \<open>Stripe: listing every page of subscriptions\<close>

fun json_dicts :: "json list \<Rightarrow> jobj list option" where
  "json_dicts [] = Some []"
| "json_dicts (JObj d # xs) = map_option ((#) d) (json_dicts xs)"
| "json_dicts (_ # xs) = None"

definition page_of :: "jobj \<Rightarrow> jobj list option" where
  "page_of resp = (case map_of resp ''data'' of Some (JArr xs) \<Rightarrow> json_dicts xs | _ \<Rightarrow> None)"

definition page_cursor :: "jobj list \<Rightarrow> string option" where
  "page_cursor page = (if page = [] then None
     else (case map_of (last page) ''id'' of Some (JStr i) \<Rightarrow> Some i | _ \<Rightarrow> None))"

text \<open>
  The \<open>while True\<close> loop: \<open>None\<close> is a run that never ends, which a server that always reports
  another page gives. \<open>fetch\<close> is the request with the cursor, the empty one for the first page.
\<close>

partial_function (option) list_pages ::
  "(string \<Rightarrow> billing_error + jobj) \<Rightarrow> string \<Rightarrow> jobj list \<Rightarrow> (billing_error + jobj list) option" where
  "list_pages fetch cursor subs =
     (case fetch cursor of
        Inl e \<Rightarrow> Some (Inl e)
      | Inr resp \<Rightarrow>
         (case page_of resp of
            None \<Rightarrow> Some (Inl (BillingProviderError ''Stripe subscription listing returned invalid data''))
          | Some page \<Rightarrow>
             if map_of resp ''has_more'' \<noteq> Some (JBool True) then Some (Inr (subs @ page))
             else (case page_cursor page of
                 None \<Rightarrow> Some (Inl (BillingProviderError
                    ''Stripe subscription pagination returned no cursor''))
               | Some next \<Rightarrow> list_pages fetch next (subs @ page))))"

definition fetch_subscriptions :: "stripe_send \<Rightarrow> stripe \<Rightarrow> string \<Rightarrow> string \<Rightarrow> billing_error + jobj" where
  "fetch_subscriptions send st cus cursor = stripe_request send st ''GET'' ''/subscriptions''
     ([(''customer'', cus), (''status'', ''all''), (''limit'', ''100'')] @
      (if cursor = [] then [] else [(''starting_after'', cursor)])) None"

text \<open>\<open>max(subscriptions, key=created)\<close>: the first with the greatest creation time.\<close>

definition created_at_of :: "jobj \<Rightarrow> int option" where
  "created_at_of s = py_int (dict_get s ''created'' (JInt 0))"

fun latest_of :: "(int \<times> jobj) \<Rightarrow> (int \<times> jobj) list \<Rightarrow> jobj" where
  "latest_of best [] = snd best"
| "latest_of best (x # xs) = latest_of (if fst best < fst x then x else best) xs"

definition reconcile_result :: "string \<Rightarrow> jobj list \<Rightarrow> billing_error + jobj" where
  "reconcile_result cus subs =
     (if subs = [] then Inr [(''status'', JStr ''none''), (''customer_ref'', JStr cus)]
      else if list_ex (\<lambda>s. created_at_of s = None) subs then Inl (BillingValueError ''int()'')
      else let keyed = map (\<lambda>s. (the (created_at_of s), s)) subs;
               latest = latest_of (hd keyed) (tl keyed)
           in Inr [(''id'', dict_get latest ''id'' JNull), (''customer_ref'', JStr cus),
               (''status'', dict_get latest ''status'' (JStr ''unknown'')),
               (''plan_tier'', case map_of latest ''metadata'' of
                   Some (JObj m) \<Rightarrow> dict_get m ''plan_tier'' JNull | _ \<Rightarrow> JNull),
               (''created'', dict_get latest ''created'' JNull)])"

definition stripe_reconcile_subscription ::
  "stripe_send \<Rightarrow> stripe \<Rightarrow> string \<Rightarrow> (billing_error + jobj) option" where
  "stripe_reconcile_subscription send st cus =
     (if \<not> py_startswith cus ''cus_''
      then Some (Inl (BillingValueError ''customer_ref must be a Stripe customer ID''))
      else (case list_pages (fetch_subscriptions send st cus) [] [] of
          None \<Rightarrow> None
        | Some (Inl e) \<Rightarrow> Some (Inl e)
        | Some (Inr subs) \<Rightarrow> Some (reconcile_result cus subs)))"

subsection \<open>Stripe: webhook signatures\<close>

definition is_hex :: "char \<Rightarrow> bool" where
  "is_hex c = (let n = (of_char c :: nat) in
     48 \<le> n \<and> n \<le> 57 \<or> 65 \<le> n \<and> n \<le> 70 \<or> 97 \<le> n \<and> n \<le> 102)"

definition header_fields :: "string \<Rightarrow> (string \<times> string) list" where
  "header_fields h = concat (map (\<lambda>part.
     (case split_once CHR ''='' (py_strip part) of [k, v] \<Rightarrow> [(k, v)] | _ \<Rightarrow> [])) (py_split CHR '','' h))"

definition field_values :: "string \<Rightarrow> (string \<times> string) list \<Rightarrow> string list" where
  "field_values k kvs = map snd (filter (\<lambda>(k', _). k' = k) kvs)"

text \<open>
  The digits \<open>int\<close> accepts (more is a \<open>ValueError\<close>, which is caught) and the least number that \<open>float\<close> cannot represent: subtracting
  it from the clock is an \<open>OverflowError\<close>, which is not caught. \<open>Inl\<close> is the exception that escapes.
\<close>

definition INT_DIGITS :: nat where "INT_DIGITS = 4300"
definition FLOAT_LIMIT :: nat where "FLOAT_LIMIT = 2 ^ 1024 - 2 ^ 970"

definition stripe_verify_webhook_signature ::
  "(string \<Rightarrow> string \<Rightarrow> string) \<Rightarrow> stripe \<Rightarrow> real \<Rightarrow> string \<Rightarrow> string \<Rightarrow> string \<Rightarrow> string + bool" where
  "stripe_verify_webhook_signature hmac st now payload header secret =
     (let signing = (if secret \<noteq> [] then secret else st_webhook_secret st);
          kvs = header_fields header;
          timestamps = field_values ''t'' kvs;
          signatures = field_values ''v1'' kvs
      in if signing = [] then Inr False
         else (case timestamps of
            [ts] \<Rightarrow>
              if ts = [] \<or> \<not> list_all is_digit ts \<or> signatures = [] \<or>
                 \<not> list_all (\<lambda>s. length s = 64 \<and> list_all is_hex s) signatures then Inr False
              else if length ts > INT_DIGITS then Inr False
              else let t = nat_of_digits ts in
                if t \<ge> FLOAT_LIMIT then Inl ''OverflowError''
                else if \<bar>now - of_nat t\<bar> > of_int (st_webhook_tolerance_seconds st) then Inr False
                else Inr (list_ex (\<lambda>s. hmac signing (digits_of_nat t @ ''.'' @ payload) = py_lower s) signatures)
          | _ \<Rightarrow> Inr False))"

subsection \<open>Outbound webhooks\<close>

datatype webhook_delivery_status = DeliveryPending | DeliverySuccess | DeliveryRetry | DeliveryFailed

record webhook_endpoint =
  we_id :: string
  we_organization_id :: string
  we_url :: string
  we_event_types :: "string set"
  we_secret :: string
  we_active :: bool
  we_created_at :: real

record webhook_delivery =
  wd_id :: string
  wd_endpoint_id :: string
  wd_organization_id :: string
  wd_event_id :: string
  wd_event_type :: string
  wd_status :: webhook_delivery_status
  wd_http_status :: "int option"
  wd_attempts :: int
  wd_created_at :: real
  wd_last_attempt_at :: "real option"

text \<open>\<open>show\<close> prints the time stamp as Python formats a float.\<close>

definition sign_payload ::
  "(string \<Rightarrow> string \<Rightarrow> string) \<Rightarrow> (real \<Rightarrow> string) \<Rightarrow> webhook_endpoint \<Rightarrow> string \<Rightarrow> real \<Rightarrow> string \<Rightarrow> string" where
  "sign_payload hmac show_float ep event_id timestamp payload =
     hmac (we_secret ep) (''t='' @ show_float timestamp @ '',id='' @ event_id @ '',v='' @ payload)"

subsection \<open>Entitlements: what a bundle lookup can return\<close>



lemma get_entitlements_set_subscription:
  "get_entitlements (set_subscription es s) org =
     (if org = sb_organization_id s then get_entitlements [(org, s)] org else get_entitlements es org)"
  by (simp add: get_entitlements_def set_subscription_def)

text \<open>
  A tenant without a paying subscription gets nothing but the free plan: when an
  organization has no subscription on record, or the one on record is cancelled or incomplete,
  a second concurrent job, a second project and any spend of ten dollars or more are refused by
  \<open>check_quota_limit\<close>, and the paid features are off in \<open>check_feature\<close>.
\<close>
theorem unpaid_org_is_held_to_free_plan:
  assumes "\<And>s. map_of es org = Some s \<Longrightarrow> sb_status s = SubCancelled \<or> sb_status s = Incomplete"
  shows "(check_quota_limit es org ''concurrent_jobs'' x \<longleftrightarrow> x < 1) \<and>
         (check_quota_limit es org ''projects'' x \<longleftrightarrow> x < 1) \<and>
         (check_quota_limit es org ''monthly_budget_usd'' x \<longleftrightarrow> x < 10) \<and>
         \<not> check_feature es org ''sso_oidc_enabled'' \<and> \<not> check_feature es org ''audit_export_enabled'' \<and>
         \<not> check_feature es org ''multiagent_orchestration''"
proof -
  have "get_entitlements es org = PLAN_ENTITLEMENTS COMMUNITY_FREE"
    using assms by (auto simp: get_entitlements_def split: option.splits)
  then show ?thesis by (simp add: check_quota_limit_def check_feature_def bundle_attrs_def dict_get_def)
qed

theorem unpaid_org_is_held_to_free_plan_witness:
  "\<not> check_quota_limit [] ''org'' ''concurrent_jobs'' 1 \<and> check_quota_limit [] ''org'' ''monthly_budget_usd'' 9"
  using unpaid_org_is_held_to_free_plan [of "[]" "''org''" 1]
    unpaid_org_is_held_to_free_plan [of "[]" "''org''" 9] by simp

subsection \<open>Webhook signatures\<close>

lemma header_fields_pair:
  assumes "CHR '','' \<notin> set a" and "CHR '','' \<notin> set b" and "CHR ''='' \<notin> set k" and "CHR ''='' \<notin> set k'"
    and "py_strip (k @ CHR ''='' # a) = k @ CHR ''='' # a" and "py_strip (k' @ CHR ''='' # b) = k' @ CHR ''='' # b"
    and "CHR '','' \<notin> set k" and "CHR '','' \<notin> set k'"
  shows "header_fields ((k @ CHR ''='' # a) @ CHR '','' # (k' @ CHR ''='' # b)) = [(k, a), (k', b)]"
proof -
  have "py_split CHR '','' ((k @ CHR ''='' # a) @ CHR '','' # (k' @ CHR ''='' # b)) =
      [k @ CHR ''='' # a, k' @ CHR ''='' # b]"
    using assms by (subst py_split_append) (auto simp: py_split_no_sep)
  then show ?thesis using assms by (simp add: header_fields_def split_once_sep)
qed

lemma hex_char_plain: "is_hex c \<Longrightarrow> c \<noteq> CHR '','' \<and> \<not> py_isspace c"
  by (auto simp: is_hex_def py_isspace_def Let_def)

lemma digit_char_plain: "is_digit c \<Longrightarrow> c \<noteq> CHR '','' \<and> \<not> py_isspace c"
  by (auto simp: is_digit_def py_isspace_def Let_def)

lemma py_strip_field:
  assumes "k \<noteq> []" and "\<not> py_isspace (hd k)" and "a \<noteq> []" and "\<And>c. c \<in> set a \<Longrightarrow> \<not> py_isspace c"
  shows "py_strip (k @ CHR ''='' # a) = k @ CHR ''='' # a"
proof (rule py_strip_id, rule disjI2)
  have "last (k @ CHR ''='' # a) \<in> set a" using assms(3) by simp
  then show "\<not> py_isspace (hd (k @ CHR ''='' # a)) \<and> \<not> py_isspace (last (k @ CHR ''='' # a))"
    using assms by auto
qed

definition stripe_header :: "nat \<Rightarrow> string \<Rightarrow> string" where
  "stripe_header t sig = (''t'' @ CHR ''='' # digits_of_nat t) @ CHR '','' # (''v1'' @ CHR ''='' # sig)"

lemma header_fields_stripe_header:
  assumes "sig \<noteq> []" and "list_all is_hex sig"
  shows "header_fields (stripe_header t sig) = [(''t'', digits_of_nat t), (''v1'', sig)]"
proof -
  have d: "c \<noteq> CHR '','' \<and> \<not> py_isspace c" if "c \<in> set (digits_of_nat t)" for c
    using digit_char_plain digits_of_nat_digits that by blast
  have h: "c \<noteq> CHR '','' \<and> \<not> py_isspace c" if "c \<in> set sig" for c
    using hex_char_plain assms(2) that by (auto simp: list_all_iff)
  have t: "\<not> py_isspace CHR ''t''" and v: "\<not> py_isspace CHR ''v''" by (simp_all add: py_isspace_def)
  show ?thesis unfolding stripe_header_def
  proof (rule header_fields_pair)
    show "py_strip (''t'' @ CHR ''='' # digits_of_nat t) = ''t'' @ CHR ''='' # digits_of_nat t"
      by (rule py_strip_field) (use d t in auto)
    show "py_strip (''v1'' @ CHR ''='' # sig) = ''v1'' @ CHR ''='' # sig"
      by (rule py_strip_field) (use h v assms in auto)
  qed (use d h in auto)
qed

lemma digits_all_digit: "list_all is_digit (digits_of_nat t)"
  using digits_of_nat_digits by (auto simp: list_all_iff)

lemma digits_of_nat_length: "t < 10 ^ Suc n \<Longrightarrow> length (digits_of_nat t) \<le> Suc n"
proof (induction n arbitrary: t)
  case (Suc n)
  have "t div 10 < 10 ^ Suc n" using Suc.prems by (intro less_mult_imp_div_less) simp
  then have "length (digits_of_nat (t div 10)) \<le> Suc n" by (rule Suc.IH)
  then show ?case by (subst digits_of_nat.simps) simp
qed (simp add: digits_of_nat.simps)

lemma float_limit_digits:
  assumes "t < FLOAT_LIMIT"
  shows "length (digits_of_nat t) \<le> INT_DIGITS"
proof -
  have "(2 :: nat) ^ 1024 \<le> 10 ^ 1024" by (rule power_mono) simp_all
  also have "\<dots> \<le> 10 ^ Suc 4299" by (rule power_increasing) simp_all
  finally have "t < 10 ^ Suc 4299" using assms unfolding FLOAT_LIMIT_def by linarith
  from digits_of_nat_length [OF this] show ?thesis by (simp add: INT_DIGITS_def)
qed

lemma stripe_verify_header:
  assumes "length sig = 64" and "list_all is_hex sig" and "secret \<noteq> [] \<or> st_webhook_secret st \<noteq> []"
  shows "stripe_verify_webhook_signature hmac st now payload (stripe_header t sig) secret =
    (if length (digits_of_nat t) > INT_DIGITS then Inr False
     else if t \<ge> FLOAT_LIMIT then Inl ''OverflowError''
     else Inr (\<bar>now - of_nat t\<bar> \<le> of_int (st_webhook_tolerance_seconds st) \<and>
       hmac (if secret \<noteq> [] then secret else st_webhook_secret st) (digits_of_nat t @ ''.'' @ payload) = py_lower sig))"
proof -
  have "sig \<noteq> []" using assms(1) by auto
  then have "header_fields (stripe_header t sig) = [(''t'', digits_of_nat t), (''v1'', sig)]"
    using header_fields_stripe_header assms(2) by blast
  then show ?thesis using assms digits_all_digit [of t]
    by (auto simp: stripe_verify_webhook_signature_def field_values_def Let_def not_le)
qed

text \<open>A time stamp beyond the floats ends the check with an exception, whatever is signed.\<close>

lemma stripe_signature_overflows:
  assumes "length sig = 64" and "list_all is_hex sig" and "secret \<noteq> [] \<or> st_webhook_secret st \<noteq> []"
    and "t \<ge> FLOAT_LIMIT" and "length (digits_of_nat t) \<le> INT_DIGITS"
  shows "stripe_verify_webhook_signature hmac st now payload (stripe_header t sig) secret = Inl ''OverflowError''"
  using assms(4,5) by (simp add: stripe_verify_header [OF assms(1-3)])

text \<open>
  C36: The Stripe webhook check decides exactly the documented scheme. On a header
  \<open>t=<seconds>,v1=<64 hex digits>\<close> it accepts if and only if the time stamp is one that \<open>float\<close> can represent, the clock is
  within the tolerance of it (on either side) and the signature, in any letter case, is the HMAC of
  \<open>seconds.payload\<close> under the signing secret; the secret passed in has precedence over the
  configured one.
\<close>
theorem stripe_signature_decides:
  assumes "length sig = 64" and "list_all is_hex sig" and "secret \<noteq> [] \<or> st_webhook_secret st \<noteq> []"
  shows "stripe_verify_webhook_signature hmac st now payload (stripe_header t sig) secret = Inr True \<longleftrightarrow>
    t < FLOAT_LIMIT \<and> \<bar>now - of_nat t\<bar> \<le> of_int (st_webhook_tolerance_seconds st) \<and>
    hmac (if secret \<noteq> [] then secret else st_webhook_secret st) (digits_of_nat t @ ''.'' @ payload)
      = py_lower sig"
proof (cases "t < FLOAT_LIMIT")
  case True
  then show ?thesis using float_limit_digits [OF True] by (simp add: stripe_verify_header [OF assms])
next
  case False
  then show ?thesis by (simp add: stripe_verify_header [OF assms])
qed

theorem stripe_signature_decides_witness:
  "stripe_verify_webhook_signature (\<lambda>k m. k) \<lparr>st_api_key = [], st_webhook_secret = replicate 64 CHR ''a'',
      st_price_ids = [], st_meter_event_names = [], st_webhook_tolerance_seconds = 300\<rparr> 100 ''{}''
      (stripe_header 90 (replicate 64 CHR ''a'')) [] = Inr True"
proof -
  have a: "ascii_lower CHR ''a'' = CHR ''a''" by (simp add: ascii_lower_def)
  have l: "90 < FLOAT_LIMIT" by (simp add: FLOAT_LIMIT_def)
  show ?thesis
    by (subst stripe_signature_decides) (simp_all add: l list_all_iff is_hex_def py_lower_def a)
qed

text \<open>
  The check never accepts a stale or forged request whatever the header looks like: an
  accepted call has exactly one time stamp field, it lies within the tolerance of the clock, and one of
  the \<open>v1\<close> fields is the HMAC of that time stamp and the payload under the non-empty signing secret.
\<close>
theorem stripe_signature_sound:
  assumes "stripe_verify_webhook_signature hmac st now payload header secret = Inr True"
  shows "\<exists>ts sig. field_values ''t'' (header_fields header) = [ts] \<and>
     sig \<in> set (field_values ''v1'' (header_fields header)) \<and>
     \<bar>now - of_nat (nat_of_digits ts)\<bar> \<le> of_int (st_webhook_tolerance_seconds st) \<and>
     (\<exists>k. k \<noteq> [] \<and> k \<in> {secret, st_webhook_secret st} \<and>
        hmac k (digits_of_nat (nat_of_digits ts) @ ''.'' @ payload) = py_lower sig)"
  using assms
  by (fastforce simp: stripe_verify_webhook_signature_def Let_def list_ex_iff not_less
      split: list.splits if_splits)

theorem stripe_signature_sound_witness:
  "\<exists>ts sig. field_values ''t'' (header_fields (stripe_header 90 (replicate 64 CHR ''a''))) = [ts] \<and>
     sig \<in> set (field_values ''v1'' (header_fields (stripe_header 90 (replicate 64 CHR ''a'')))) \<and>
     \<bar>100 - of_nat (nat_of_digits ts)\<bar> \<le> (300::real) \<and>
     (\<exists>k. k \<noteq> [] \<and> k \<in> {replicate 64 CHR ''a'', []} \<and> k = py_lower sig)"
proof -
  let ?st = "\<lparr>st_api_key = [], st_webhook_secret = [], st_price_ids = [], st_meter_event_names = [],
      st_webhook_tolerance_seconds = 300\<rparr>"
  have a: "ascii_lower CHR ''a'' = CHR ''a''" by (simp add: ascii_lower_def)
  have l: "90 < FLOAT_LIMIT" "length (digits_of_nat 90) \<le> INT_DIGITS"
    by (simp_all add: FLOAT_LIMIT_def INT_DIGITS_def digits_of_nat.simps)
  have "stripe_verify_webhook_signature (\<lambda>k m. k) ?st 100 ''{}''
      (stripe_header 90 (replicate 64 CHR ''a'')) (replicate 64 CHR ''a'') = Inr True"
    using l by (subst stripe_verify_header) (simp_all add: list_all_iff is_hex_def py_lower_def a)
  from stripe_signature_sound [OF this] show ?thesis by simp
qed

subsection \<open>Subscription listing\<close>

text \<open>
  A server that answers a finite chain of pages: page after page at the cursor the previous page ends
  with, all but the last flagged \<open>has_more\<close>.
\<close>

fun serves :: "(string \<Rightarrow> billing_error + jobj) \<Rightarrow> string \<Rightarrow> jobj list list \<Rightarrow> bool" where
  "serves fetch cursor [] = False"
| "serves fetch cursor [p] = (\<exists>resp. fetch cursor = Inr resp \<and> page_of resp = Some p \<and>
     map_of resp ''has_more'' \<noteq> Some (JBool True))"
| "serves fetch cursor (p # q # ps) = (\<exists>resp next. fetch cursor = Inr resp \<and> page_of resp = Some p \<and>
     map_of resp ''has_more'' = Some (JBool True) \<and> page_cursor p = Some next \<and> serves fetch next (q # ps))"

lemma list_pages_complete:
  "serves fetch cursor ps \<Longrightarrow> list_pages fetch cursor subs = Some (Inr (subs @ concat ps))"
proof (induction fetch cursor ps arbitrary: subs rule: serves.induct)
  case (2 fetch cursor p)
  then show ?case by (auto simp: list_pages.simps)
next
  case (3 fetch cursor p q ps)
  then obtain resp nxt where r: "fetch cursor = Inr resp" "page_of resp = Some p"
      "map_of resp ''has_more'' = Some (JBool True)" "page_cursor p = Some nxt" "serves fetch nxt (q # ps)"
    by auto
  then have "list_pages fetch cursor subs = list_pages fetch nxt (subs @ p)"
    by (simp add: list_pages.simps [of fetch cursor])
  with 3 r(5) show ?case by simp
qed simp

lemma latest_of_max:
  "(\<exists>k. (k, latest_of b xs) \<in> set (b # xs) \<and> (\<forall>x \<in> set (b # xs). fst x \<le> k))"
proof (induction xs arbitrary: b)
  case Nil
  show ?case by (cases b) auto
next
  case (Cons x xs)
  show ?case
  proof (cases "fst b < fst x")
    case True
    with Cons [of x] show ?thesis by fastforce
  next
    case False
    with Cons [of b] show ?thesis by fastforce
  qed
qed

definition dated :: "jobj list \<Rightarrow> (int \<times> jobj) list" where
  "dated subs = map (\<lambda>s. (the (created_at_of s), s)) subs"

lemma latest_dated:
  assumes "subs \<noteq> []"
  shows "latest_of (hd (dated subs)) (tl (dated subs)) \<in> set subs \<and>
    (\<forall>s \<in> set subs. the (created_at_of s) \<le>
       the (created_at_of (latest_of (hd (dated subs)) (tl (dated subs)))))"
proof -
  have k: "hd (dated subs) # tl (dated subs) = dated subs"
    using assms by (simp add: dated_def)
  obtain n where n: "(n, latest_of (hd (dated subs)) (tl (dated subs))) \<in> set (dated subs)"
      "\<forall>x \<in> set (dated subs). fst x \<le> n"
    using latest_of_max [of "hd (dated subs)" "tl (dated subs)"] unfolding k by blast
  have "latest_of (hd (dated subs)) (tl (dated subs)) = l \<Longrightarrow> l \<in> set subs \<and> n = the (created_at_of l)" for l
    using n(1) by (auto simp: dated_def)
  then show ?thesis using n(2) by (auto simp: dated_def)
qed

lemma reconcile_result_newest:
  assumes "subs \<noteq> []" and "\<forall>s \<in> set subs. created_at_of s \<noteq> None"
  shows "\<exists>s \<in> set subs. (\<forall>s' \<in> set subs. the (created_at_of s') \<le> the (created_at_of s)) \<and>
    (\<exists>r. reconcile_result cus subs = Inr r \<and> map_of r ''id'' = Some (dict_get s ''id'' JNull) \<and>
       map_of r ''status'' = Some (dict_get s ''status'' (JStr ''unknown'')))"
proof -
  define l where "l = latest_of (hd (dated subs)) (tl (dated subs))"
  have "\<not> list_ex (\<lambda>s. created_at_of s = None) subs" using assms(2) by (auto simp: list_ex_iff)
  then have "\<exists>r. reconcile_result cus subs = Inr r \<and> map_of r ''id'' = Some (dict_get l ''id'' JNull) \<and>
       map_of r ''status'' = Some (dict_get l ''status'' (JStr ''unknown''))"
    using assms(1) by (simp add: reconcile_result_def Let_def l_def flip: dated_def)
  with latest_dated [OF assms(1)] show ?thesis unfolding l_def by blast
qed

text \<open>
  Reconciliation of a subscription sees every page and ends: if Stripe serves the
  customer's subscriptions in a finite chain of pages whose creation times parse, the call returns, and
  it reports the identifier and the status of a subscription that no other one, on any page, is newer than.
\<close>
theorem reconcile_reports_newest:
  assumes "py_startswith cus ''cus_''" and "serves (fetch_subscriptions send st cus) [] ps"
    and "concat ps \<noteq> []" and "\<forall>s \<in> set (concat ps). created_at_of s \<noteq> None"
  shows "\<exists>s \<in> set (concat ps). (\<forall>s' \<in> set (concat ps). the (created_at_of s') \<le> the (created_at_of s)) \<and>
    (\<exists>r. stripe_reconcile_subscription send st cus = Some (Inr r) \<and>
       map_of r ''id'' = Some (dict_get s ''id'' JNull) \<and>
       map_of r ''status'' = Some (dict_get s ''status'' (JStr ''unknown'')))"
proof -
  have "stripe_reconcile_subscription send st cus = Some (reconcile_result cus (concat ps))"
    using assms(1) list_pages_complete [OF assms(2), of "[]"]
    by (simp add: stripe_reconcile_subscription_def)
  with reconcile_result_newest [OF assms(3) assms(4), of cus] show ?thesis by auto
qed

definition demo_stripe :: stripe where
  "demo_stripe = \<lparr>st_api_key = ''sk'', st_webhook_secret = [], st_price_ids = [],
     st_meter_event_names = [], st_webhook_tolerance_seconds = 300\<rparr>"

definition demo_send :: stripe_send where
  "demo_send m path params idem =
     (if map_of params ''starting_after'' = None
      then Inr (JObj [(''data'', JArr [JObj [(''id'', JStr ''sub_1''), (''created'', JInt 5)]]),
        (''has_more'', JBool True)])
      else Inr (JObj [(''data'', JArr [JObj [(''id'', JStr ''sub_2''), (''created'', JInt 9)]]),
        (''has_more'', JBool False)]))"

theorem reconcile_reports_newest_witness:
  "\<exists>r. stripe_reconcile_subscription demo_send demo_stripe ''cus_1'' = Some (Inr r)"
proof -
  let ?a = "[(''id'', JStr ''sub_1''), (''created'', JInt 5)]"
  let ?b = "[(''id'', JStr ''sub_2''), (''created'', JInt 9)]"
  have f: "fetch_subscriptions demo_send demo_stripe ''cus_1'' c =
      (if c = [] then Inr [(''data'', JArr [JObj ?a]), (''has_more'', JBool True)]
       else Inr [(''data'', JArr [JObj ?b]), (''has_more'', JBool False)])" for c
    by (simp add: fetch_subscriptions_def stripe_request_def demo_stripe_def demo_send_def py_startswith_def)
  have "serves (fetch_subscriptions demo_send demo_stripe ''cus_1'') [] [[?a], [?b]]"
    by (simp add: f page_of_def page_cursor_def)
  moreover have "created_at_of ?a \<noteq> None" and "created_at_of ?b \<noteq> None"
    by (simp_all add: created_at_of_def dict_get_def)
  ultimately have "\<exists>s \<in> set (concat [[?a], [?b]]).
      (\<forall>s' \<in> set (concat [[?a], [?b]]). the (created_at_of s') \<le> the (created_at_of s)) \<and>
      (\<exists>r. stripe_reconcile_subscription demo_send demo_stripe ''cus_1'' = Some (Inr r) \<and>
       map_of r ''id'' = Some (dict_get s ''id'' JNull) \<and>
       map_of r ''status'' = Some (dict_get s ''status'' (JStr ''unknown'')))"
    by (intro reconcile_reports_newest) (simp_all add: py_startswith_def)
  then show ?thesis by blast
qed

end
