(* ===== verification/Admission.thy ===== *)
theory Admission
  imports Product
begin

text \<open>
  \<open>src/zcoder/domain/services/admission.py\<close> and \<open>src/zcoder/services/admission_gates.py\<close>: the decision vocabulary, the plan
  gate over the entitlement service and the durable gate over injected callables, with the fail-closed contract
  both gates promise as the locale \<open>admission_gate\<close>. The callables act on a world and may raise (\<open>None\<close>).
\<close>

datatype admission_reason = Admitted | QuotaExceeded | Backpressure | BackendError

record quota_reservation =
  qr_reservation_id :: string
  qr_tenant_id :: string
  qr_metric :: string
  qr_units :: real

record admission_decision =
  ad_admitted :: bool
  ad_reason :: admission_reason
  ad_reservation :: "quota_reservation option"

definition reject :: "admission_reason \<Rightarrow> admission_decision" where
  "reject reason = \<lparr>ad_admitted = False, ad_reason = reason, ad_reservation = None\<rparr>"

subsection \<open>The contract\<close>

text \<open>
  A rejection holds no capacity and gives its reason; an admission is reasoned as such; a reservation is for the
  tenant and the units that were asked for. The client below tries a list of requests in turn.
\<close>

locale admission_gate =
  fixes check_and_reserve :: "string \<Rightarrow> string \<Rightarrow> real \<Rightarrow> 'w \<Rightarrow> admission_decision \<times> 'w"
  assumes rejected_holds_nothing: "check_and_reserve t p u w = (d, w') \<Longrightarrow> \<not> ad_admitted d \<Longrightarrow>
         ad_reservation d = None \<and> ad_reason d \<noteq> Admitted"
    and admitted_reason: "check_and_reserve t p u w = (d, w') \<Longrightarrow> ad_admitted d \<Longrightarrow> ad_reason d = Admitted"
    and reservation_matches: "check_and_reserve t p u w = (d, w') \<Longrightarrow> ad_reservation d = Some r \<Longrightarrow>
         qr_tenant_id r = t \<and> qr_units r = u"
begin

fun admit_all :: "(string \<times> string \<times> real) list \<Rightarrow> 'w \<Rightarrow> admission_decision list \<times> 'w" where
  "admit_all [] w = ([], w)"
| "admit_all ((t, p, u) # rs) w = (case check_and_reserve t p u w of (d, w1) \<Rightarrow>
     (case admit_all rs w1 of (ds, w2) \<Rightarrow> (d # ds, w2)))"

definition held :: "string \<Rightarrow> admission_decision list \<Rightarrow> real" where
  "held t ds = sum_list (map (\<lambda>d. case ad_reservation d of None \<Rightarrow> 0
     | Some r \<Rightarrow> if qr_tenant_id r = t then qr_units r else 0) ds)"

text \<open>The capacity a tenant holds is never more than what its admitted requests asked for.\<close>

lemma held_bounded:
  assumes "\<forall>(t', p, u) \<in> set rs. 0 \<le> u"
  shows "held t (fst (admit_all rs w)) \<le>
    sum_list (map (\<lambda>((t', p, u), d). if ad_admitted d \<and> t' = t then u else 0) (zip rs (fst (admit_all rs w))))"
  using assms
proof (induction rs arbitrary: w)
  case Nil
  then show ?case by (simp add: held_def)
next
  case (Cons x rs)
  obtain t' p u where x: "x = (t', p, u)" by (cases x)
  obtain d w1 where d: "check_and_reserve t' p u w = (d, w1)" by (metis surj_pair)
  obtain ds w2 where ds: "admit_all rs w1 = (ds, w2)" by (metis surj_pair)
  have "(case ad_reservation d of None \<Rightarrow> 0 | Some r \<Rightarrow> if qr_tenant_id r = t then qr_units r else 0) \<le>
      (if ad_admitted d \<and> t' = t then u else 0)"
    using rejected_holds_nothing [OF d] reservation_matches [OF d] Cons.prems x
    by (cases "ad_admitted d") (auto split: option.split)
  moreover have "held t ds \<le> sum_list (map (\<lambda>((t', p, u), d). if ad_admitted d \<and> t' = t then u else 0) (zip rs ds))"
    using Cons.IH [of w1] Cons.prems ds by simp
  ultimately show ?case by (simp add: x d ds held_def)
qed

end

subsection \<open>The plan gate\<close>

fun metric_attr :: "string \<Rightarrow> string option" where
  "metric_attr m =
     (if m = ''concurrent_jobs'' then Some ''concurrent_jobs''
      else if m = ''monthly_budget_usd'' then Some ''monthly_budget_usd''
      else if m = ''projects'' then Some ''max_projects''
      else if m = ''repositories'' then Some ''max_repositories'' else None)"

declare metric_attr.simps [simp del]

record 'w plan_quota_gate =
  pg_entitlements :: entitlement_service
  pg_usage_fn :: "string \<Rightarrow> string \<Rightarrow> 'w \<Rightarrow> real option \<times> 'w"
  pg_metric_attr :: string

definition plan_quota_gate_new ::
  "entitlement_service \<Rightarrow> (string \<Rightarrow> string \<Rightarrow> 'w \<Rightarrow> real option \<times> 'w) \<Rightarrow> string \<Rightarrow> string + 'w plan_quota_gate" where
  "plan_quota_gate_new es usage metric =
     (case metric_attr metric of
        None \<Rightarrow> Inl (''unsupported quota metric: '' @ metric)
      | Some a \<Rightarrow> Inr \<lparr>pg_entitlements = es, pg_usage_fn = usage, pg_metric_attr = a\<rparr>)"

text \<open>\<open>float(getattr(bundle, attr, 0.0))\<close>.\<close>

definition bundle_limit :: "entitlement_bundle \<Rightarrow> string \<Rightarrow> real" where
  "bundle_limit b attr = (case dict_get (bundle_attrs b) attr (JFloat 0) of
     JInt i \<Rightarrow> of_int i | JFloat x \<Rightarrow> x | JBool v \<Rightarrow> (if v then 1 else 0) | _ \<Rightarrow> 0)"

definition plan_check_and_reserve ::
  "'w plan_quota_gate \<Rightarrow> string \<Rightarrow> string \<Rightarrow> real \<Rightarrow> 'w \<Rightarrow> admission_decision \<times> 'w" where
  "plan_check_and_reserve g tenant plan units w =
     (case pg_usage_fn g tenant (pg_metric_attr g) w of
        (None, w1) \<Rightarrow> (reject BackendError, w1)
      | (Some current, w1) \<Rightarrow>
         if current + units > bundle_limit (get_entitlements (pg_entitlements g) tenant) (pg_metric_attr g)
         then (reject QuotaExceeded, w1)
         else (\<lparr>ad_admitted = True, ad_reason = Admitted, ad_reservation = None\<rparr>, w1))"

definition plan_release :: "quota_reservation \<Rightarrow> bool" where
  "plan_release r = False"

subsection \<open>The durable gate\<close>

record 'w durable_quota_gate =
  dg_reserve_fn :: "string \<Rightarrow> string \<Rightarrow> real \<Rightarrow> 'w \<Rightarrow> bool option \<times> 'w"
  dg_queue_stats_fn :: "'w \<Rightarrow> (string \<times> int) list option \<times> 'w"
  dg_metric :: string
  dg_max_queue_depth :: int
  dg_tracked_statuses :: "string list"
  dg_release_fn :: "(string \<Rightarrow> string \<Rightarrow> real \<Rightarrow> 'w \<Rightarrow> bool option \<times> 'w) option"

text \<open>\<open>tracked_statuses\<close> becomes a frozenset: a repeated status counts once.\<close>

definition queue_depth :: "'w durable_quota_gate \<Rightarrow> 'w \<Rightarrow> int option \<times> 'w" where
  "queue_depth g w =
     (case dg_queue_stats_fn g w of
        (None, w1) \<Rightarrow> (None, w1)
      | (Some stats, w1) \<Rightarrow>
          (Some (sum_list (map (\<lambda>s. dict_get stats s 0) (dict_fromkeys (dg_tracked_statuses g)))), w1))"

text \<open>\<open>hex\<close> is the identifier drawn for the reservation.\<close>

definition durable_check_and_reserve ::
  "string \<Rightarrow> 'w durable_quota_gate \<Rightarrow> string \<Rightarrow> string \<Rightarrow> real \<Rightarrow> 'w \<Rightarrow> admission_decision \<times> 'w" where
  "durable_check_and_reserve hex g tenant plan units w =
     (case queue_depth g w of
        (None, w1) \<Rightarrow> (reject BackendError, w1)
      | (Some depth, w1) \<Rightarrow>
         if depth \<ge> dg_max_queue_depth g then (reject Backpressure, w1)
         else (case dg_reserve_fn g tenant (dg_metric g) units w1 of
             (None, w2) \<Rightarrow> (reject BackendError, w2)
           | (Some False, w2) \<Rightarrow> (reject QuotaExceeded, w2)
           | (Some True, w2) \<Rightarrow> (\<lparr>ad_admitted = True, ad_reason = Admitted, ad_reservation =
               Some \<lparr>qr_reservation_id = hex, qr_tenant_id = tenant, qr_metric = dg_metric g, qr_units = units\<rparr>\<rparr>, w2)))"

definition durable_release :: "'w durable_quota_gate \<Rightarrow> quota_reservation \<Rightarrow> 'w \<Rightarrow> bool \<times> 'w" where
  "durable_release g r w =
     (case dg_release_fn g of
        None \<Rightarrow> (False, w)
      | Some f \<Rightarrow> (case f (qr_tenant_id r) (qr_metric r) (qr_units r) w of
            (None, w1) \<Rightarrow> (False, w1) | (Some b, w1) \<Rightarrow> (b, w1)))"

subsection \<open>Both gates keep the contract\<close>

interpretation plan_gate: admission_gate "plan_check_and_reserve g" for g :: "'w plan_quota_gate"
  by unfold_locales (auto simp: plan_check_and_reserve_def reject_def split: prod.splits option.splits if_splits)

interpretation durable_gate: admission_gate "durable_check_and_reserve hex g" for hex and g :: "'w durable_quota_gate"
  by unfold_locales (auto simp: durable_check_and_reserve_def reject_def split: prod.splits option.splits if_splits bool.splits)

subsection \<open>The durable gate and the capacity of its backend\<close>

text \<open>
  What a backend promises, with \<open>used\<close> the capacity it has taken for a tenant: a reservation that answers true has taken exactly the
  units asked for, one that answers false or raises has taken nothing, and reading the statistics takes nothing. A transaction that is
  rolled back by an error, as that of \<open>check_and_reserve_quota\<close>, is such a backend.
\<close>

definition honest_backend :: "'w durable_quota_gate \<Rightarrow> ('w \<Rightarrow> string \<Rightarrow> real) \<Rightarrow> bool" where
  "honest_backend g used \<longleftrightarrow>
     (\<forall>t m u w r w'. dg_reserve_fn g t m u w = (r, w') \<longrightarrow>
        used w' = (if r = Some True then (used w)(t := used w t + u) else used w)) \<and>
     (\<forall>w r w'. dg_queue_stats_fn g w = (r, w') \<longrightarrow> used w' = used w)"

definition admitted_units :: "string \<Rightarrow> (string \<times> string \<times> real) list \<Rightarrow> admission_decision list \<Rightarrow> real" where
  "admitted_units t rs ds = sum_list (map (\<lambda>((t', p, u), d). if ad_admitted d \<and> t' = t then u else 0) (zip rs ds))"

lemma queue_depth_used:
  assumes "honest_backend g used" "queue_depth g w = (r, w')"
  shows "used w' = used w"
  using assms by (auto simp: queue_depth_def honest_backend_def split: prod.splits option.splits)

text \<open>One request: admitted, with the units taken, or rejected with nothing taken.\<close>

lemma durable_check_cases:
  assumes "honest_backend g used" "durable_check_and_reserve hex g t p u w = (d, w')"
  obtains (admitted) depth w1 where "ad_admitted d" "queue_depth g w = (Some depth, w1)" "depth < dg_max_queue_depth g"
      "dg_reserve_fn g t (dg_metric g) u w1 = (Some True, w')" "used w' = (used w)(t := used w t + u)"
      "ad_reservation d = Some \<lparr>qr_reservation_id = hex, qr_tenant_id = t, qr_metric = dg_metric g, qr_units = u\<rparr>"
  | (rejected) "\<not> ad_admitted d" "ad_reservation d = None" "used w' = used w"
proof -
  obtain q w1 where q: "queue_depth g w = (q, w1)" by fastforce
  have w1: "used w1 = used w" by (rule queue_depth_used [OF assms(1) q])
  show thesis
  proof (cases q)
    case None
    then show thesis by (intro rejected) (use assms(2) q w1 in \<open>auto simp: durable_check_and_reserve_def reject_def\<close>)
  next
    case (Some depth)
    show thesis
    proof (cases "depth \<ge> dg_max_queue_depth g")
      case True
      then show thesis by (intro rejected) (use assms(2) q Some w1 in \<open>auto simp: durable_check_and_reserve_def reject_def\<close>)
    next
      case False
      obtain r w2 where r: "dg_reserve_fn g t (dg_metric g) u w1 = (r, w2)" by fastforce
      have u: "used w2 = (if r = Some True then (used w1)(t := used w1 t + u) else used w1)"
        using assms(1) r unfolding honest_backend_def by blast
      show thesis
      proof (cases "r = Some True")
        case True
        have "d = \<lparr>ad_admitted = True, ad_reason = Admitted, ad_reservation =
            Some \<lparr>qr_reservation_id = hex, qr_tenant_id = t, qr_metric = dg_metric g, qr_units = u\<rparr>\<rparr>" "w' = w2"
          using assms(2) q Some False r True by (simp_all add: durable_check_and_reserve_def)
        then show thesis by (intro admitted [of depth w1]) (use q Some False r True u w1 in simp_all)
      next
        case no: False
        then have "\<not> ad_admitted d \<and> ad_reservation d = None \<and> w' = w2"
          using assms(2) q Some False r
          by (cases r) (auto simp: durable_check_and_reserve_def reject_def split: bool.splits)
        then show thesis by (intro rejected) (use no u w1 in simp_all)
      qed
    qed
  qed
qed

text \<open>
  C39: The durable gate fails closed and loses no capacity, over any list of requests of any tenants: whatever a backend that
  keeps its promise answers or raises, what it has taken for a tenant grows by exactly the units of that tenant's admitted requests, which are the units of the
  reservations the gate hands out, so that nothing is admitted without being reserved and nothing stays reserved for a request that
  was rejected; and each admitted request found the tracked queues below the limit, in statistics that could be read.
\<close>
theorem durable_gate_reserves_only_admitted:
  assumes "honest_backend g used" and "durable_gate.admit_all hex g rs w = (ds, w')"
  shows "used w' t = used w t + admitted_units t rs ds \<and> durable_gate.held t ds = admitted_units t rs ds \<and>
    (\<forall>i < length rs. ad_admitted (ds ! i) \<longrightarrow> (\<exists>wi depth w1. durable_gate.admit_all hex g (take i rs) w = (take i ds, wi) \<and>
       queue_depth g wi = (Some depth, w1) \<and> depth < dg_max_queue_depth g))"
  using assms(2)
proof (induction rs arbitrary: w ds)
  case Nil
  then show ?case by (simp add: admitted_units_def durable_gate.held_def)
next
  case (Cons x rs)
  obtain t' p u where x: "x = (t', p, u)" by (cases x)
  obtain d w1 where d: "durable_check_and_reserve hex g t' p u w = (d, w1)" by fastforce
  obtain ds1 where ds: "ds = d # ds1" "durable_gate.admit_all hex g rs w1 = (ds1, w')"
    using Cons.prems d by (auto simp: x split: prod.splits)
  note ih = Cons.IH [OF ds(2)]
  have units: "admitted_units t (x # rs) ds = (if ad_admitted d \<and> t' = t then u else 0) + admitted_units t rs ds1"
    and held: "durable_gate.held t ds = (case ad_reservation d of None \<Rightarrow> 0 | Some r \<Rightarrow> if qr_tenant_id r = t then qr_units r else 0)
      + durable_gate.held t ds1"
    by (simp_all add: admitted_units_def durable_gate.held_def ds(1) x)
  have later: "\<exists>wi depth w1'. durable_gate.admit_all hex g (take i (x # rs)) w = (take i ds, wi) \<and>
       queue_depth g wi = (Some depth, w1') \<and> depth < dg_max_queue_depth g"
    if i: "i < length (x # rs)" "ad_admitted (ds ! i)" "i \<noteq> 0" for i
  proof -
    obtain k where k: "i = Suc k" using i(3) by (cases i) simp_all
    obtain wi depth w1' where *: "durable_gate.admit_all hex g (take k rs) w1 = (take k ds1, wi)" "queue_depth g wi = (Some depth, w1')"
      "depth < dg_max_queue_depth g" using ih i(1,2) by (auto simp: k ds(1))
    have "durable_gate.admit_all hex g (take i (x # rs)) w = (take i ds, wi)" using d *(1) by (simp add: k x ds(1))
    then show ?thesis using *(2,3) by blast
  qed
  from assms(1) d show ?case
  proof (cases rule: durable_check_cases)
    case (admitted depth w2)
    have first: "durable_gate.admit_all hex g (take 0 (x # rs)) w = (take 0 ds, w)" by simp
    have all: "\<forall>i < length (x # rs). ad_admitted (ds ! i) \<longrightarrow> (\<exists>wi depth w1'. durable_gate.admit_all hex g (take i (x # rs)) w = (take i ds, wi) \<and>
       queue_depth g wi = (Some depth, w1') \<and> depth < dg_max_queue_depth g)"
    proof (intro allI impI)
      fix i
      assume i: "i < length (x # rs)" "ad_admitted (ds ! i)"
      show "\<exists>wi depth w1'. durable_gate.admit_all hex g (take i (x # rs)) w = (take i ds, wi) \<and>
          queue_depth g wi = (Some depth, w1') \<and> depth < dg_max_queue_depth g"
      proof (cases "i = 0")
        case True
        show ?thesis unfolding True using first admitted(2,3) by blast
      qed (use later [OF i] in blast)
    qed
    show ?thesis by (intro conjI all) (use ih admitted(1,5,6) units held in simp_all)
  next
    case rejected
    have all: "\<forall>i < length (x # rs). ad_admitted (ds ! i) \<longrightarrow> (\<exists>wi depth w1'. durable_gate.admit_all hex g (take i (x # rs)) w = (take i ds, wi) \<and>
       queue_depth g wi = (Some depth, w1') \<and> depth < dg_max_queue_depth g)"
      using later rejected(1) by (metis ds(1) nth_Cons_0)
    show ?thesis by (intro conjI all) (use ih rejected units held in simp_all)
  qed
qed

definition demo_gate :: "real durable_quota_gate" where
  "demo_gate = \<lparr>dg_reserve_fn = (\<lambda>t m u w. if t = ''a'' \<and> w + u \<le> 2 then (Some True, w + u) else (if t = ''a'' then Some False else None, w)),
     dg_queue_stats_fn = (\<lambda>w. (Some [(''pending'', 3)], w)), dg_metric = ''concurrent_jobs'', dg_max_queue_depth = 100,
     dg_tracked_statuses = [''pending'', ''queued''], dg_release_fn = None\<rparr>"

theorem durable_gate_reserves_only_admitted_witness:
  "\<exists>ds w'. durable_gate.admit_all ''h'' demo_gate [(''a'', ''p'', 2), (''b'', ''p'', 1), (''a'', ''p'', 1)] 0 = (ds, w') \<and>
     map ad_admitted ds = [True, False, False] \<and> w' = 2 \<and> durable_gate.held ''a'' ds = 2"
proof -
  have h: "honest_backend demo_gate (\<lambda>w t. if t = ''a'' then w else 0)"
    by (auto simp: honest_backend_def demo_gate_def fun_eq_iff split: if_splits)
  obtain ds w' where r: "durable_gate.admit_all ''h'' demo_gate [(''a'', ''p'', 2), (''b'', ''p'', 1), (''a'', ''p'', 1)] 0 = (ds, w')" by fastforce
  then have a: "map ad_admitted ds = [True, False, False]"
    by (auto simp: durable_check_and_reserve_def queue_depth_def demo_gate_def reject_def dict_get_def)
  from durable_gate_reserves_only_admitted [OF h r, of "''a''"] a have "w' = 2 \<and> durable_gate.held ''a'' ds = 2"
    by (auto simp: admitted_units_def)
  then show ?thesis by (intro exI [of _ ds] exI [of _ w'] conjI r a) simp_all
qed

text \<open>
  The plan gate bounds usage by the plan: it admits a request exactly when the usage can be read and
  usage plus request stay within the ceiling the stored subscription gives, up to and including the ceiling itself, whatever
  plan the caller names.
\<close>
theorem plan_gate_admits_iff:
  assumes "plan_quota_gate_new es usage ''concurrent_jobs'' = Inr g"
  shows "ad_admitted (fst (plan_check_and_reserve g tenant plan units w)) \<longleftrightarrow>
    (\<exists>x w1. usage tenant ''concurrent_jobs'' w = (Some x, w1) \<and>
       x + units \<le> of_int (eb_concurrent_jobs (get_entitlements es tenant)))"
proof -
  have g: "g = \<lparr>pg_entitlements = es, pg_usage_fn = usage, pg_metric_attr = ''concurrent_jobs''\<rparr>"
    using assms by (simp add: plan_quota_gate_new_def metric_attr.simps)
  have "bundle_limit b ''concurrent_jobs'' = of_int (eb_concurrent_jobs b)" for b
    by (simp add: bundle_limit_def bundle_attrs_def dict_get_def)
  then show ?thesis
    by (auto simp: plan_check_and_reserve_def g reject_def split: prod.splits option.splits)
qed

theorem plan_gate_admits_iff_witness:
  "\<exists>g. plan_quota_gate_new [] (\<lambda>t m w. (Some 0, w)) ''concurrent_jobs'' = Inr g \<and>
     ad_admitted (fst (plan_check_and_reserve g ''org'' ''enterprise'' 1 ())) \<and>
     \<not> ad_admitted (fst (plan_check_and_reserve g ''org'' ''enterprise'' 2 ()))"
proof -
  obtain g where g: "plan_quota_gate_new [] (\<lambda>t m (w::unit). (Some 0, w)) ''concurrent_jobs'' = Inr g"
    by (simp add: plan_quota_gate_new_def metric_attr.simps)
  have "eb_concurrent_jobs (get_entitlements [] ''org'') = 1" by (simp add: get_entitlements_def)
  with plan_gate_admits_iff [OF g] g show ?thesis by (intro exI [of _ g]) simp
qed

end
