(* ===== verification/UpgradeLoop.thy ===== *)
theory UpgradeLoop
  imports Prelude "HOL-Library.List_Lexorder" "HOL-Library.Char_ord" "HOL-Library.Product_Lexorder"
begin

text \<open>
  \<open>src/zcoder/services/upgrade_loop.py\<close>: the bounded meta-loop over work items. The injected
  callbacks are functions over a world \<open>'w\<close> that they read and change; a callback that raises
  answers the type name and the text of its exception. Discovery answers the items it
  yielded and the exception it ended with, if any. The callbacks do not write to the item they are
  handed; but they may keep it, and then see what the loop writes to it later, so the checkpoint callback is also given
  the loop's items as they are at that moment. \<open>digest\<close> stands for SHA-256 of the key-sorted \<open>json.dumps\<close>.
\<close>

subsection \<open>Work items\<close>

datatype work_kind = UPGRADE | UPDATE | IMPLEMENT_FEATURE | REPAIR

fun kind_value :: "work_kind \<Rightarrow> string" where
  "kind_value UPGRADE = ''UPGRADE''"
| "kind_value UPDATE = ''UPDATE''"
| "kind_value IMPLEMENT_FEATURE = ''IMPLEMENT_FEATURE''"
| "kind_value REPAIR = ''REPAIR''"

datatype work_state = PENDING | RUNNING | VALIDATING | SUCCEEDED | BLOCKED

datatype loop_state = LoopRunning | LoopCompleted | LoopHalted | LoopBudgetExhausted

type_synonym py_exc = "string \<times> string"

record validation_result =
  vr_passed :: bool
  vr_summary :: string
  vr_regressions :: "string list"

record work_item =
  wi_title :: string
  wi_kind :: string
  wi_payload :: jobj
  wi_priority :: int
  wi_risk :: string
  wi_max_attempts :: int
  wi_item_id :: string
  wi_state :: work_state
  wi_attempts :: int
  wi_last_error :: string

definition work_item_new :: "work_item \<Rightarrow> string + work_item" where
  "work_item_new it =
     (if py_strip (wi_title it) = [] then Inl ''title must not be empty''
      else if wi_max_attempts it < 1 then Inl ''max_attempts must be >= 1''
      else Inr it)"

definition fingerprint :: "(json \<Rightarrow> string) \<Rightarrow> work_item \<Rightarrow> string" where
  "fingerprint digest it = digest (JObj [(''kind'', JStr (wi_kind it)), (''payload'', JObj (wi_payload it)),
     (''title'', JStr (py_strip (wi_title it)))])"

record loop_policy =
  lp_max_iterations :: int
  lp_max_no_progress_iterations :: int
  lp_stop_on_regression :: bool

definition loop_policy_new :: "int \<Rightarrow> int \<Rightarrow> bool \<Rightarrow> string + loop_policy" where
  "loop_policy_new it np stop =
     (if it < 1 then Inl ''max_iterations must be >= 1''
      else if np < 1 then Inl ''max_no_progress_iterations must be >= 1''
      else Inr \<lparr>lp_max_iterations = it, lp_max_no_progress_iterations = np, lp_stop_on_regression = stop\<rparr>)"

record loop_checkpoint =
  lc_iteration :: nat
  lc_state :: loop_state
  lc_active_item_id :: "string option"
  lc_completed_item_ids :: "string list"
  lc_blocked_item_ids :: "string list"
  lc_pending_item_ids :: "string list"

datatype outcome = OBlocked | ORetry | ORollbackFailed | ORegressionBlocked | OValidationRetry | OSucceeded

record iteration_record =
  ir_iteration :: nat
  ir_item_id :: string
  ir_title :: string
  ir_kind :: string
  ir_attempt :: int
  ir_outcome :: outcome
  ir_validation_summary :: string
  ir_regressions :: "string list"

record loop_report =
  lr_state :: loop_state
  lr_iterations :: nat
  lr_completed_item_ids :: "string list"
  lr_blocked_item_ids :: "string list"
  lr_pending_item_ids :: "string list"
  lr_records :: "iteration_record list"
  lr_halt_reason :: string

record ('w, 'c) callbacks =
  cb_discover :: "'w \<Rightarrow> (work_item list \<times> py_exc option) \<times> 'w"
  cb_implement :: "work_item \<Rightarrow> 'w \<Rightarrow> (py_exc + 'c) \<times> 'w"
  cb_validate :: "work_item \<Rightarrow> 'c \<Rightarrow> 'w \<Rightarrow> (py_exc + validation_result) \<times> 'w"
  cb_rollback :: "(work_item \<Rightarrow> 'c \<Rightarrow> 'w \<Rightarrow> py_exc option \<times> 'w) option"
  cb_checkpoint :: "(loop_checkpoint \<Rightarrow> (string \<times> work_item) list \<Rightarrow> 'w \<Rightarrow> py_exc option \<times> 'w) option"

subsection \<open>The loop\<close>

text \<open>\<open>_items\<close>, \<open>_fingerprints\<close> and the local variables of \<open>run\<close>, with the world.\<close>

record 'w run_state =
  rs_items :: "(string \<times> work_item) list"
  rs_fingerprints :: "string list"
  rs_records :: "iteration_record list"
  rs_completed :: "string list"
  rs_blocked :: "string list"
  rs_no_progress :: int
  rs_iterations :: nat
  rs_world :: 'w

definition put_item :: "work_item \<Rightarrow> 'w run_state \<Rightarrow> 'w run_state" where
  "put_item it rs = rs\<lparr>rs_items := dict_set (rs_items rs) (wi_item_id it) it\<rparr>"

definition add_work :: "(json \<Rightarrow> string) \<Rightarrow> work_item \<Rightarrow> 'w run_state \<Rightarrow> bool \<times> 'w run_state" where
  "add_work digest it rs =
     (if fingerprint digest it \<in> set (rs_fingerprints rs) then (False, rs)
      else (True, put_item it (rs\<lparr>rs_fingerprints := fingerprint digest it # rs_fingerprints rs\<rparr>)))"

fun add_all :: "(json \<Rightarrow> string) \<Rightarrow> work_item list \<Rightarrow> 'w run_state \<Rightarrow> 'w run_state" where
  "add_all digest [] rs = rs"
| "add_all digest (it # its) rs = add_all digest its (snd (add_work digest it rs))"

definition next_pending :: "(string \<times> work_item) list \<Rightarrow> work_item option" where
  "next_pending items = sql_first_by (\<lambda>it. (- wi_priority it, wi_item_id it))
     (filter (\<lambda>it. wi_state it = PENDING) (dict_values items))"

definition pending_ids :: "(string \<times> work_item) list \<Rightarrow> string list" where
  "pending_ids items = map wi_item_id (filter (\<lambda>it. wi_state it \<in> {PENDING, RUNNING, VALIDATING}) (dict_values items))"

definition emit_checkpoint ::
  "('w, 'c) callbacks \<Rightarrow> nat \<Rightarrow> loop_state \<Rightarrow> string option \<Rightarrow> 'w run_state \<Rightarrow> py_exc option \<times> 'w run_state" where
  "emit_checkpoint cb i st active rs =
     (case cb_checkpoint cb of
        None \<Rightarrow> (None, rs)
      | Some f \<Rightarrow>
         (case f \<lparr>lc_iteration = i, lc_state = st, lc_active_item_id = active,
              lc_completed_item_ids = rs_completed rs, lc_blocked_item_ids = dict_fromkeys (rs_blocked rs),
              lc_pending_item_ids = pending_ids (rs_items rs)\<rparr> (rs_items rs) (rs_world rs) of
            (err, w) \<Rightarrow> (err, rs\<lparr>rs_world := w\<rparr>)))"

text \<open>How an iteration ends: go on, leave the loop with a state and a reason, or raise.\<close>

datatype flow = Continue | Stop loop_state string | Raised py_exc

definition iteration_of :: "nat \<Rightarrow> work_item \<Rightarrow> outcome \<Rightarrow> string \<Rightarrow> string list \<Rightarrow> iteration_record" where
  "iteration_of i it out summary regs = \<lparr>ir_iteration = i, ir_item_id = wi_item_id it, ir_title = wi_title it,
     ir_kind = wi_kind it, ir_attempt = wi_attempts it, ir_outcome = out, ir_validation_summary = summary,
     ir_regressions = regs\<rparr>"

definition note_record :: "iteration_record \<Rightarrow> 'w run_state \<Rightarrow> 'w run_state" where
  "note_record r rs = rs\<lparr>rs_records := rs_records rs @ [r]\<rparr>"

definition note_blocked :: "work_item \<Rightarrow> 'w run_state \<Rightarrow> 'w run_state" where
  "note_blocked it rs = (if wi_state it = BLOCKED then rs\<lparr>rs_blocked := rs_blocked rs @ [wi_item_id it]\<rparr> else rs)"

definition no_progress_check :: "loop_policy \<Rightarrow> 'w run_state \<Rightarrow> flow" where
  "no_progress_check pol rs = (if rs_no_progress rs \<ge> lp_max_no_progress_iterations pol
     then Stop LoopHalted ''no_progress_budget_exhausted'' else Continue)"

definition exc_text :: "py_exc \<Rightarrow> string" where
  "exc_text e = fst e @ '': '' @ snd e"

definition after_exception ::
  "('w, 'c) callbacks \<Rightarrow> loop_policy \<Rightarrow> nat \<Rightarrow> work_item \<Rightarrow> py_exc \<Rightarrow> 'w run_state \<Rightarrow> flow \<times> 'w run_state" where
  "after_exception cb pol i it e rs =
     (let exhausted = wi_attempts it \<ge> wi_max_attempts it;
          it1 = it\<lparr>wi_last_error := exc_text e, wi_state := (if exhausted then BLOCKED else PENDING)\<rparr>;
          rs1 = note_record (iteration_of i it1 (if exhausted then OBlocked else ORetry) (exc_text e) [])
                  (note_blocked it1 (put_item it1 rs));
          rs2 = rs1\<lparr>rs_no_progress := rs_no_progress rs1 + 1\<rparr>
      in (case emit_checkpoint cb i LoopRunning (Some (wi_item_id it)) rs2 of
            (Some x, rs3) \<Rightarrow> (Raised x, rs3)
          | (None, rs3) \<Rightarrow> (no_progress_check pol rs3, rs3)))"

definition after_rejection ::
  "('w, 'c) callbacks \<Rightarrow> loop_policy \<Rightarrow> nat \<Rightarrow> work_item \<Rightarrow> 'c \<Rightarrow> validation_result \<Rightarrow> bool \<Rightarrow> 'w run_state
     \<Rightarrow> flow \<times> 'w run_state" where
  "after_rejection cb pol i it changed v regression_halt rs =
     (case (case cb_rollback cb of None \<Rightarrow> (None, rs_world rs) | Some f \<Rightarrow> f it changed (rs_world rs)) of
        (Some e, w) \<Rightarrow>
          (let it1 = it\<lparr>wi_state := BLOCKED, wi_last_error := ''rollback failed: '' @ exc_text e\<rparr> in
           (Stop LoopHalted ''rollback_failed'',
            note_record (iteration_of i it1 ORollbackFailed (wi_last_error it1) (vr_regressions v))
              (note_blocked it1 (put_item it1 (rs\<lparr>rs_world := w\<rparr>)))))
      | (None, w) \<Rightarrow>
          (let exhausted = wi_attempts it \<ge> wi_max_attempts it;
               it1 = it\<lparr>wi_state := (if exhausted \<or> regression_halt then BLOCKED else PENDING)\<rparr>;
               rs1 = note_record (iteration_of i it1 (if regression_halt then ORegressionBlocked else OValidationRetry)
                         (vr_summary v) (vr_regressions v))
                       (note_blocked it1 (put_item it1 (rs\<lparr>rs_world := w\<rparr>)));
               rs2 = rs1\<lparr>rs_no_progress := rs_no_progress rs1 + 1\<rparr>
           in (case emit_checkpoint cb i LoopRunning (Some (wi_item_id it)) rs2 of
                 (Some x, rs3) \<Rightarrow> (Raised x, rs3)
               | (None, rs3) \<Rightarrow>
                   (if regression_halt then Stop LoopHalted ''regression_guard'' else no_progress_check pol rs3, rs3))))"

definition after_success ::
  "('w, 'c) callbacks \<Rightarrow> nat \<Rightarrow> work_item \<Rightarrow> validation_result \<Rightarrow> 'w run_state \<Rightarrow> flow \<times> 'w run_state" where
  "after_success cb i it v rs =
     (let it1 = it\<lparr>wi_state := SUCCEEDED\<rparr>;
          rs1 = put_item it1 rs;
          rs2 = note_record (iteration_of i it1 OSucceeded (vr_summary v) [])
                  (rs1\<lparr>rs_completed := rs_completed rs1 @ [wi_item_id it], rs_no_progress := 0\<rparr>)
      in (case emit_checkpoint cb i LoopRunning (Some (wi_item_id it)) rs2 of
            (Some x, rs3) \<Rightarrow> (Raised x, rs3)
          | (None, rs3) \<Rightarrow> (Continue, rs3)))"

text \<open>\<open>implement\<close> and \<open>validate\<close> under one \<open>try\<close>: the item is handed on as VALIDATING.\<close>

definition attempt_item ::
  "('w, 'c) callbacks \<Rightarrow> work_item \<Rightarrow> 'w \<Rightarrow> (py_exc + 'c \<times> validation_result) \<times> 'w" where
  "attempt_item cb it w =
     (case cb_implement cb it w of
        (Inl e, w1) \<Rightarrow> (Inl e, w1)
      | (Inr c, w1) \<Rightarrow>
         (case cb_validate cb (it\<lparr>wi_state := VALIDATING\<rparr>) c w1 of
            (Inl e, w2) \<Rightarrow> (Inl e, w2)
          | (Inr v, w2) \<Rightarrow> (Inr (c, v), w2)))"

definition rejects :: "loop_policy \<Rightarrow> validation_result \<Rightarrow> bool" where
  "rejects pol v = (\<not> vr_passed v \<or> (vr_regressions v \<noteq> [] \<and> lp_stop_on_regression pol))"

definition work_on ::
  "('w, 'c) callbacks \<Rightarrow> loop_policy \<Rightarrow> nat \<Rightarrow> work_item \<Rightarrow> 'w run_state \<Rightarrow> flow \<times> 'w run_state" where
  "work_on cb pol i candidate rs =
     (let it = candidate\<lparr>wi_state := RUNNING, wi_attempts := wi_attempts candidate + 1\<rparr>;
          rs1 = put_item it rs
      in (case attempt_item cb it (rs_world rs1) of
            (Inl e, w) \<Rightarrow> after_exception cb pol i it e (rs1\<lparr>rs_world := w\<rparr>)
          | (Inr (c, v), w) \<Rightarrow>
              if rejects pol v
              then after_rejection cb pol i (it\<lparr>wi_state := VALIDATING\<rparr>) c v
                     (vr_regressions v \<noteq> [] \<and> lp_stop_on_regression pol) (rs1\<lparr>rs_world := w\<rparr>)
              else after_success cb i (it\<lparr>wi_state := VALIDATING\<rparr>) v (rs1\<lparr>rs_world := w\<rparr>)))"

definition iterate ::
  "(json \<Rightarrow> string) \<Rightarrow> ('w, 'c) callbacks \<Rightarrow> loop_policy \<Rightarrow> nat \<Rightarrow> 'w run_state \<Rightarrow> flow \<times> 'w run_state" where
  "iterate digest cb pol i rs =
     (case cb_discover cb (rs_world rs) of
        ((found, err), w) \<Rightarrow>
          (let rs1 = add_all digest found (rs\<lparr>rs_iterations := i, rs_world := w\<rparr>) in
           case err of
             Some e \<Rightarrow> (Stop LoopHalted (''discovery_error:'' @ fst e), rs1)
           | None \<Rightarrow>
              (case next_pending (rs_items rs1) of
                 None \<Rightarrow> (if rs_blocked rs1 \<noteq> [] then Stop LoopHalted ''blocked_work_remaining''
                          else Stop LoopCompleted '''', rs1)
               | Some candidate \<Rightarrow> work_on cb pol i candidate rs1)))"

fun loop_from ::
  "(json \<Rightarrow> string) \<Rightarrow> ('w, 'c) callbacks \<Rightarrow> loop_policy \<Rightarrow> nat list \<Rightarrow> 'w run_state \<Rightarrow> flow \<times> 'w run_state" where
  "loop_from digest cb pol [] rs = (Continue, rs)"
| "loop_from digest cb pol (i # is) rs =
     (case iterate digest cb pol i rs of
        (Continue, rs') \<Rightarrow> loop_from digest cb pol is rs'
      | (fl, rs') \<Rightarrow> (fl, rs'))"

definition conclude :: "flow \<Rightarrow> 'w run_state \<Rightarrow> loop_state \<times> string" where
  "conclude fl rs =
     (case fl of Stop st reason \<Rightarrow> (st, reason)
      | _ \<Rightarrow> if pending_ids (rs_items rs) \<noteq> [] then (LoopBudgetExhausted, ''iteration_budget_exhausted'')
             else if rs_blocked rs \<noteq> [] then (LoopHalted, ''blocked_work_remaining'')
             else (LoopCompleted, ''''))"

definition run_start :: "(string \<times> work_item) list \<Rightarrow> string list \<Rightarrow> 'w \<Rightarrow> 'w run_state" where
  "run_start items fps w = \<lparr>rs_items = items, rs_fingerprints = fps, rs_records = [], rs_completed = [],
     rs_blocked = [], rs_no_progress = 0, rs_iterations = 0, rs_world = w\<rparr>"

definition run_loop ::
  "(json \<Rightarrow> string) \<Rightarrow> ('w, 'c) callbacks \<Rightarrow> loop_policy \<Rightarrow> work_item list \<Rightarrow> (string \<times> work_item) list
     \<Rightarrow> string list \<Rightarrow> 'w \<Rightarrow> (py_exc + loop_report) \<times> 'w run_state" where
  "run_loop digest cb pol seed items fps w =
     (case loop_from digest cb pol [1..<Suc (nat (lp_max_iterations pol))]
             (add_all digest seed (run_start items fps w)) of
        (Raised e, rs1) \<Rightarrow> (Inl e, rs1)
      | (fl, rs1) \<Rightarrow>
         (case emit_checkpoint cb (rs_iterations rs1) (fst (conclude fl rs1)) None rs1 of
            (Some e, rs2) \<Rightarrow> (Inl e, rs2)
          | (None, rs2) \<Rightarrow> (Inr \<lparr>lr_state = fst (conclude fl rs1), lr_iterations = rs_iterations rs1,
              lr_completed_item_ids = rs_completed rs1, lr_blocked_item_ids = dict_fromkeys (rs_blocked rs1),
              lr_pending_item_ids = pending_ids (rs_items rs1), lr_records = rs_records rs1,
              lr_halt_reason = snd (conclude fl rs1)\<rparr>, rs2)))"

definition feature_work :: "string \<Rightarrow> string \<Rightarrow> int \<Rightarrow> string \<Rightarrow> string \<Rightarrow> string + work_item" where
  "feature_work title description priority risk hex = work_item_new
     \<lparr>wi_title = py_strip title, wi_kind = kind_value IMPLEMENT_FEATURE,
      wi_payload = [(''description'', JStr (py_strip description))], wi_priority = priority, wi_risk = risk,
      wi_max_attempts = 2, wi_item_id = ''work_'' @ hex, wi_state = PENDING, wi_attempts = 0, wi_last_error = []\<rparr>"

text \<open>A maintenance recommendation, read through \<open>getattr\<close>: type, reason, id, repository, priority, risk.\<close>

definition work_from_maintenance_recommendation ::
  "string \<Rightarrow> string \<Rightarrow> string \<Rightarrow> string \<Rightarrow> int \<Rightarrow> string \<Rightarrow> string \<Rightarrow> string + work_item" where
  "work_from_maintenance_recommendation type' reason rec_id repository priority risk hex =
     (let t = py_upper type';
          kind = (if t = ''PATCH_DEPENDENCY'' then UPDATE else if t = ''REPAIR_CI'' then REPAIR else UPGRADE)
      in work_item_new \<lparr>wi_title = reason, wi_kind = kind_value kind,
           wi_payload = [(''recommendation_id'', JStr rec_id), (''repository'', JStr repository),
             (''recommendation_type'', JStr t)],
           wi_priority = priority, wi_risk = risk, wi_max_attempts = 2, wi_item_id = ''work_'' @ hex,
           wi_state = PENDING, wi_attempts = 0, wi_last_error = []\<rparr>)"

subsection \<open>What one iteration does\<close>

lemma emit_checkpoint_frame: "emit_checkpoint cb i st a rs = (x, rs') \<Longrightarrow> \<exists>w. rs' = rs\<lparr>rs_world := w\<rparr>"
  by (auto simp: emit_checkpoint_def split: option.splits prod.splits intro: exI [of _ "rs_world rs"])

lemma next_pendingD:
  assumes "next_pending items = Some it"
  shows "it \<in> set (dict_values items) \<and> wi_state it = PENDING"
  using assms by (auto simp: next_pending_def dest!: sql_first_by_SomeD(1))

lemma next_pending_None: "next_pending items = None \<longleftrightarrow> (\<forall>it \<in> set (dict_values items). wi_state it \<noteq> PENDING)"
  by (auto simp: next_pending_def filter_empty_conv)

text \<open>
  The bookkeeping of one attempt: the candidate comes back succeeded, blocked or pending with one more
  attempt and with budget left, the lists and the records follow, and a failed rollback or a regression leaves the loop.
\<close>

definition same_work :: "work_item \<Rightarrow> work_item \<Rightarrow> bool" where
  "same_work a b \<longleftrightarrow> wi_item_id a = wi_item_id b \<and> wi_title a = wi_title b \<and> wi_kind a = wi_kind b \<and>
     wi_payload a = wi_payload b \<and> wi_max_attempts a = wi_max_attempts b"

definition settles :: "work_item \<Rightarrow> outcome \<Rightarrow> 'w run_state \<Rightarrow> 'w run_state \<Rightarrow> bool" where
  "settles it out rs rs' \<longleftrightarrow>
     (wi_state it = SUCCEEDED \<and> out = OSucceeded \<and> rs_completed rs' = rs_completed rs @ [wi_item_id it] \<and>
        rs_blocked rs' = rs_blocked rs)
   \<or> (wi_state it = BLOCKED \<and> out \<noteq> OSucceeded \<and> rs_completed rs' = rs_completed rs \<and>
        rs_blocked rs' = rs_blocked rs @ [wi_item_id it])
   \<or> (wi_state it = PENDING \<and> out \<in> {ORetry, OValidationRetry} \<and> wi_attempts it < wi_max_attempts it \<and>
        rs_completed rs' = rs_completed rs \<and> rs_blocked rs' = rs_blocked rs)"

definition leaves :: "flow \<Rightarrow> bool" where
  "leaves fl \<longleftrightarrow> (\<exists>reason. fl = Stop LoopHalted reason) \<or> (\<exists>e. fl = Raised e)"

definition attempted :: "nat \<Rightarrow> work_item \<Rightarrow> 'w run_state \<Rightarrow> flow \<Rightarrow> 'w run_state \<Rightarrow> bool" where
  "attempted i cand rs fl rs' \<longleftrightarrow> (\<exists>it r. same_work cand it \<and> wi_attempts it = wi_attempts cand + 1 \<and>
     rs_items rs' = dict_set (rs_items rs) (wi_item_id cand) it \<and>
     rs_fingerprints rs' = rs_fingerprints rs \<and> rs_records rs' = rs_records rs @ [r] \<and>
     rs_iterations rs' = rs_iterations rs \<and>
     ir_item_id r = wi_item_id cand \<and> ir_attempt r = wi_attempts it \<and> ir_iteration r = i \<and>
     settles it (ir_outcome r) rs rs' \<and>
     (ir_outcome r \<in> {ORollbackFailed, ORegressionBlocked} \<longrightarrow> leaves fl) \<and> (\<forall>s. fl \<noteq> Stop LoopCompleted s))"

lemma no_progress_flow: "no_progress_check pol rs \<noteq> Stop LoopCompleted s"
  by (simp add: no_progress_check_def)

lemma attemptedI:
  assumes "same_work cand it" and "wi_attempts it = wi_attempts cand + 1"
    and "rs_items rs' = dict_set (rs_items rs) (wi_item_id cand) it"
    and "rs_fingerprints rs' = rs_fingerprints rs" and "rs_iterations rs' = rs_iterations rs"
    and "rs_records rs' = rs_records rs @ [iteration_of i it out summary regs]"
    and "settles it out rs rs'" and "out \<in> {ORollbackFailed, ORegressionBlocked} \<longrightarrow> leaves fl"
    and "\<And>s. fl \<noteq> Stop LoopCompleted s"
  shows "attempted i cand rs fl rs'"
  using assms unfolding attempted_def
  by (intro exI [of _ it] exI [of _ "iteration_of i it out summary regs"])
     (simp add: iteration_of_def same_work_def)

lemmas bookkeeping = put_item_def note_record_def note_blocked_def Let_def same_work_def settles_def leaves_def

text \<open>\<open>it\<close> is the candidate under way, filed as running in \<open>rs1\<close>.\<close>

definition under_way :: "work_item \<Rightarrow> work_item \<Rightarrow> 'w run_state \<Rightarrow> 'w run_state \<Rightarrow> bool" where
  "under_way cand it rs rs1 \<longleftrightarrow> same_work cand it \<and> wi_attempts it = wi_attempts cand + 1 \<and>
     (\<exists>x w. rs1 = rs\<lparr>rs_items := dict_set (rs_items rs) (wi_item_id cand) x, rs_world := w\<rparr>)"

lemma after_exception_attempted:
  assumes "after_exception cb pol i it e rs1 = (fl, rs')" and "under_way cand it rs rs1"
  shows "attempted i cand rs fl rs'"
proof -
  let ?ex = "wi_attempts it \<ge> wi_max_attempts it"
  let ?it = "it\<lparr>wi_last_error := exc_text e, wi_state := (if ?ex then BLOCKED else PENDING)\<rparr>"
  show ?thesis
    by (rule attemptedI [where it = ?it and out = "if ?ex then OBlocked else ORetry" and summary = "exc_text e" and regs = "[]"])
       (use assms no_progress_flow in \<open>auto simp: after_exception_def under_way_def bookkeeping update_last iteration_of_def
          dest!: emit_checkpoint_frame split: prod.splits option.splits if_splits\<close>)
qed

lemma after_rejection_attempted:
  assumes "after_rejection cb pol i it c v rh rs1 = (fl, rs')" and "under_way cand it rs rs1"
  shows "attempted i cand rs fl rs'"
proof (cases "case cb_rollback cb of None \<Rightarrow> (None, rs_world rs1) | Some f \<Rightarrow> f it c (rs_world rs1)")
  case (Pair err w')
  show ?thesis
  proof (cases err)
    case (Some e)
    let ?it = "it\<lparr>wi_state := BLOCKED, wi_last_error := ''rollback failed: '' @ exc_text e\<rparr>"
    show ?thesis
      by (rule attemptedI [where it = ?it and out = ORollbackFailed
            and summary = "''rollback failed: '' @ exc_text e" and regs = "vr_regressions v"])
         (use assms Pair Some in \<open>auto simp: after_rejection_def under_way_def bookkeeping update_last iteration_of_def\<close>)
  next
    case None
    let ?ex = "wi_attempts it \<ge> wi_max_attempts it"
    define it1 where "it1 = it\<lparr>wi_state := (if ?ex \<or> rh then BLOCKED else PENDING)\<rparr>"
    define out where "out = (if rh then ORegressionBlocked else OValidationRetry)"
    define rs2 where "rs2 = note_record (iteration_of i it1 out (vr_summary v) (vr_regressions v))
      (note_blocked it1 (put_item it1 (rs1\<lparr>rs_world := w'\<rparr>)))"
    obtain x rs3 where e: "emit_checkpoint cb i LoopRunning (Some (wi_item_id it)) (rs2\<lparr>rs_no_progress := rs_no_progress rs2 + 1\<rparr>) = (x, rs3)"
      by fastforce
    obtain w3 where rs3: "rs3 = rs2\<lparr>rs_no_progress := rs_no_progress rs2 + 1, rs_world := w3\<rparr>"
      using emit_checkpoint_frame [OF e] by auto
    have r: "fl = (case x of Some ex \<Rightarrow> Raised ex | None \<Rightarrow>
        if rh then Stop LoopHalted ''regression_guard'' else no_progress_check pol rs3)" "rs' = rs3"
      using assms(1) Pair None e by (auto simp: after_rejection_def Let_def it1_def out_def rs2_def split: option.splits)
    have fl: "out \<in> {ORollbackFailed, ORegressionBlocked} \<longrightarrow> leaves fl" "fl \<noteq> Stop LoopCompleted q" for q
      using no_progress_flow by (auto simp: r(1) out_def leaves_def split: option.splits)
    have it1: "same_work cand it1" "wi_attempts it1 = wi_attempts cand + 1" "wi_item_id it1 = wi_item_id cand"
      using assms(2) by (simp_all add: it1_def under_way_def same_work_def)
    show ?thesis
      by (rule attemptedI [where it = it1 and out = out and summary = "vr_summary v" and regs = "vr_regressions v", OF it1(1,2) _ _ _ _ _ fl])
         (use assms(2) it1(3) in \<open>auto simp: r(2) rs3 rs2_def under_way_def bookkeeping update_last iteration_of_def it1_def out_def\<close>)
  qed
qed

lemma after_success_attempted:
  assumes "after_success cb i it v rs1 = (fl, rs')" and "under_way cand it rs rs1"
  shows "attempted i cand rs fl rs'"
  by (rule attemptedI [where it = "it\<lparr>wi_state := SUCCEEDED\<rparr>" and out = OSucceeded and summary = "vr_summary v" and regs = "[]"])
     (use assms in \<open>auto simp: after_success_def under_way_def bookkeeping update_last iteration_of_def
        dest!: emit_checkpoint_frame split: prod.splits option.splits if_splits\<close>)

lemma work_on_attempted:
  assumes "work_on cb pol i cand rs = (fl, rs')"
  shows "attempted i cand rs fl rs'"
proof -
  let ?it = "cand\<lparr>wi_state := RUNNING, wi_attempts := wi_attempts cand + 1\<rparr>"
  have u: "under_way cand ?it rs ((put_item ?it rs)\<lparr>rs_world := w\<rparr>)"
    and v: "under_way cand (?it\<lparr>wi_state := VALIDATING\<rparr>) rs ((put_item ?it rs)\<lparr>rs_world := w\<rparr>)" for w
    by (auto simp: under_way_def same_work_def put_item_def)
  show ?thesis
    using assms unfolding work_on_def Let_def
    by (auto split: prod.splits sum.splits if_splits simp del: select_convs update_convs
        intro: after_exception_attempted [OF _ u] after_rejection_attempted [OF _ v] after_success_attempted [OF _ v])
qed

text \<open>An iteration either only discovers, or discovers and attempts the next pending item.\<close>

lemma iterate_cases:
  assumes "iterate digest cb pol i rs = (fl, rs')"
  obtains (found) found w where
      "rs' = add_all digest found (rs\<lparr>rs_iterations := i, rs_world := w\<rparr>)"
      "(\<exists>reason. fl = Stop LoopHalted reason) \<or>
       (fl = Stop LoopCompleted '''' \<and> rs_blocked rs' = [] \<and>
        (\<forall>it \<in> set (dict_values (rs_items rs')). wi_state it \<noteq> PENDING))"
  | (attempt) found w cand where
      "next_pending (rs_items (add_all digest found (rs\<lparr>rs_iterations := i, rs_world := w\<rparr>))) = Some cand"
      "attempted i cand (add_all digest found (rs\<lparr>rs_iterations := i, rs_world := w\<rparr>)) fl rs'"
proof (cases "cb_discover cb (rs_world rs)")
  case (Pair p w)
  obtain its err where p: "p = (its, err)" by (cases p)
  let ?rs1 = "add_all digest its (rs\<lparr>rs_iterations := i, rs_world := w\<rparr>)"
  show thesis
  proof (cases err)
    case (Some e)
    with assms Pair p show thesis by (intro found [of its w]) (auto simp: iterate_def Let_def)
  next
    case None
    show thesis
    proof (cases "next_pending (rs_items ?rs1)")
      case None': None
      then have "rs' = ?rs1" and "fl = (if rs_blocked ?rs1 \<noteq> [] then Stop LoopHalted ''blocked_work_remaining''
          else Stop LoopCompleted '''')"
        using assms Pair p None by (auto simp: iterate_def Let_def)
      with None' show thesis by (intro found [of its w]) (auto simp: next_pending_None)
    next
      case (Some cand)
      then have "work_on cb pol i cand ?rs1 = (fl, rs')"
        using assms Pair p None by (simp add: iterate_def Let_def)
      with Some show thesis by (intro attempt [of its w cand] work_on_attempted)
    qed
  qed
qed

subsection \<open>The invariant of the loop\<close>

text \<open>
  Every known item is filed under its own identifier and is pending with budget left, succeeded and
  listed as completed, or blocked and listed as blocked; no two items have the same content.
\<close>

definition item_ok :: "string list \<Rightarrow> string list \<Rightarrow> work_item \<Rightarrow> bool" where
  "item_ok completed blocked it \<longleftrightarrow> 0 \<le> wi_attempts it \<and> wi_attempts it \<le> wi_max_attempts it \<and>
     (wi_state it = PENDING \<and> wi_attempts it < wi_max_attempts it \<or>
      wi_state it = SUCCEEDED \<and> wi_item_id it \<in> set completed \<or>
      wi_state it = BLOCKED \<and> wi_item_id it \<in> set blocked)"

definition fresh_item :: "work_item \<Rightarrow> bool" where
  "fresh_item it \<longleftrightarrow> wi_state it = PENDING \<and> 0 \<le> wi_attempts it \<and> wi_attempts it < wi_max_attempts it"

definition loop_inv :: "'w run_state \<Rightarrow> bool" where
  "loop_inv rs \<longleftrightarrow> (\<forall>(k, it) \<in> set (rs_items rs). k = wi_item_id it \<and> item_ok (rs_completed rs) (rs_blocked rs) it)"

definition honest_discovery :: "('w, 'c) callbacks \<Rightarrow> bool" where
  "honest_discovery cb \<longleftrightarrow> (\<forall>w. \<forall>it \<in> set (fst (fst (cb_discover cb w))). fresh_item it)"

lemma loop_inv_put:
  assumes "loop_inv rs" and "rs_items rs' = dict_set (rs_items rs) (wi_item_id it) it"
    and "item_ok (rs_completed rs') (rs_blocked rs') it"
    and "set (rs_completed rs) \<subseteq> set (rs_completed rs')" and "set (rs_blocked rs) \<subseteq> set (rs_blocked rs')"
  shows "loop_inv rs'"
proof -
  have "item_ok (rs_completed rs') (rs_blocked rs') x" if "item_ok (rs_completed rs) (rs_blocked rs) x" for x
    using that assms(4,5) by (auto simp: item_ok_def)
  with assms(1,3) show ?thesis
    unfolding loop_inv_def assms(2) using set_dict_set_subset [of "wi_item_id it" it "rs_items rs"] by fastforce
qed

lemma add_work_inv:
  "loop_inv rs \<Longrightarrow> fresh_item it \<Longrightarrow> loop_inv (snd (add_work digest it rs))"
  by (auto simp: add_work_def put_item_def fresh_item_def item_ok_def
      intro!: loop_inv_put [of rs _ it])

lemma add_all_inv:
  "loop_inv rs \<Longrightarrow> \<forall>it \<in> set its. fresh_item it \<Longrightarrow> loop_inv (add_all digest its rs)"
  by (induction its arbitrary: rs) (auto intro: add_work_inv)

lemma add_all_frame [simp]:
  "rs_completed (add_all digest its rs) = rs_completed rs"
  "rs_blocked (add_all digest its rs) = rs_blocked rs"
  "rs_records (add_all digest its rs) = rs_records rs"
  "rs_iterations (add_all digest its rs) = rs_iterations rs"
  by (induction its arbitrary: rs) (simp_all add: add_work_def put_item_def)

lemma attempted_inv:
  assumes inv: "loop_inv rs" and c: "next_pending (rs_items rs) = Some cand" and a: "attempted i cand rs fl rs'"
  shows "loop_inv rs'"
proof -
  obtain it and r :: iteration_record where it: "same_work cand it" "wi_attempts it = wi_attempts cand + 1"
      "rs_items rs' = dict_set (rs_items rs) (wi_item_id cand) it" "settles it (ir_outcome r) rs rs'"
    using a unfolding attempted_def by blast
  have "item_ok (rs_completed rs) (rs_blocked rs) cand" and "wi_state cand = PENDING"
    using next_pendingD [OF c] inv by (auto simp: loop_inv_def dict_values_def)
  then have "item_ok (rs_completed rs') (rs_blocked rs') it"
    using it(1,2,4) by (auto simp: item_ok_def same_work_def settles_def)
  then show ?thesis using it
    by (intro loop_inv_put [OF inv, of _ it]) (auto simp: same_work_def settles_def)
qed

lemma iterate_inv:
  assumes inv: "loop_inv rs" and h: "honest_discovery cb" and it: "iterate digest cb pol i rs = (fl, rs')"
  shows "loop_inv rs'"
proof -
  obtain found err w where d: "cb_discover cb (rs_world rs) = ((found, err), w)" by (metis surj_pair)
  let ?rs1 = "add_all digest found (rs\<lparr>rs_iterations := i, rs_world := w\<rparr>)"
  have "\<forall>it \<in> set found. fresh_item it" using h d unfolding honest_discovery_def by (metis fst_conv)
  moreover have "loop_inv (rs\<lparr>rs_iterations := i, rs_world := w\<rparr>)" using inv by (simp add: loop_inv_def)
  ultimately have "loop_inv ?rs1" by (rule add_all_inv [rotated])
  then show ?thesis using it d
    by (auto simp: iterate_def Let_def split: option.splits intro: attempted_inv work_on_attempted)
qed

lemma loop_from_induct [consumes 1, case_names exhausted step]:
  assumes "loop_from digest cb pol is rs = (fl, rs')"
    and "\<And>rs. P [] rs Continue rs"
    and "\<And>i is rs fl1 rs1 fl rs'. iterate digest cb pol i rs = (fl1, rs1) \<Longrightarrow>
       (fl1 = Continue \<and> P is rs1 fl rs') \<or> (fl1 \<noteq> Continue \<and> fl = fl1 \<and> rs' = rs1) \<Longrightarrow> P (i # is) rs fl rs'"
  shows "P is rs fl rs'"
  using assms(1)
proof (induction "is" arbitrary: rs)
  case Nil
  then show ?case using assms(2) by simp
next
  case (Cons i "is")
  obtain fl1 rs1 where it: "iterate digest cb pol i rs = (fl1, rs1)" by (cases "iterate digest cb pol i rs")
  with Cons show ?case by (intro assms(3) [OF it]) (cases fl1; auto)
qed

lemma loop_from_inv:
  assumes "loop_from digest cb pol is rs = (fl, rs')" and "loop_inv rs" and "honest_discovery cb"
  shows "loop_inv rs'"
  using assms by (induction rule: loop_from_induct) (auto intro: iterate_inv)

lemma loop_from_completed:
  assumes "loop_from digest cb pol is rs = (fl, rs')" and "fl = Stop LoopCompleted s"
  shows "rs_blocked rs' = [] \<and> (\<forall>it \<in> set (dict_values (rs_items rs')). wi_state it \<noteq> PENDING)"
  using assms
proof (induction rule: loop_from_induct)
  case (step i "is" rs fl1 rs1 fl rs')
  from step(1) show ?case
  proof (cases rule: iterate_cases)
    case (found its w)
    with step(2,3) show ?thesis by auto
  next
    case (attempt its w cand)
    then show ?thesis using step(2,3) by (auto simp: attempted_def)
  qed
qed simp

lemma run_loop_report:
  assumes "run_loop digest cb pol seed items fps w = (Inr rep, rs')"
  obtains fl rs1 where
    "loop_from digest cb pol [1..<Suc (nat (lp_max_iterations pol))] (add_all digest seed (run_start items fps w)) = (fl, rs1)"
    "\<And>e. fl \<noteq> Raised e" "rs_items rs' = rs_items rs1"
    "rep = \<lparr>lr_state = fst (conclude fl rs1), lr_iterations = rs_iterations rs1,
       lr_completed_item_ids = rs_completed rs1, lr_blocked_item_ids = dict_fromkeys (rs_blocked rs1),
       lr_pending_item_ids = pending_ids (rs_items rs1), lr_records = rs_records rs1,
       lr_halt_reason = snd (conclude fl rs1)\<rparr>"
    "\<exists>w'. rs' = rs1\<lparr>rs_world := w'\<rparr>"
proof -
  obtain fl rs1 where l: "loop_from digest cb pol [1..<Suc (nat (lp_max_iterations pol))]
      (add_all digest seed (run_start items fps w)) = (fl, rs1)" by (metis surj_pair)
  then obtain x rs2 where e: "emit_checkpoint cb (rs_iterations rs1) (fst (conclude fl rs1)) None rs1 = (x, rs2)"
    by (metis surj_pair)
  have nr: "fl \<noteq> Raised e" for e using assms l by (auto simp: run_loop_def)
  have "x = None" and "rs' = rs2" and "rep = \<lparr>lr_state = fst (conclude fl rs1), lr_iterations = rs_iterations rs1,
       lr_completed_item_ids = rs_completed rs1, lr_blocked_item_ids = dict_fromkeys (rs_blocked rs1),
       lr_pending_item_ids = pending_ids (rs_items rs1), lr_records = rs_records rs1,
       lr_halt_reason = snd (conclude fl rs1)\<rparr>"
    using assms l e nr by (cases fl; cases x; auto simp: run_loop_def split: option.splits)+
  with l nr emit_checkpoint_frame [OF e] show thesis by (intro that) auto
qed

lemma run_loop_inv:
  assumes "run_loop digest cb pol seed [] fps w = (Inr rep, rs')"
    and "honest_discovery cb" and "\<forall>it \<in> set seed. fresh_item it"
  shows "loop_inv rs'"
  using assms(1)
proof (cases rule: run_loop_report)
  case (1 fl rs1)
  have "loop_inv (run_start [] fps w)" by (simp add: loop_inv_def run_start_def)
  then have "loop_inv rs1"
    using loop_from_inv [OF 1(1) add_all_inv assms(2)] assms(3) by blast
  with 1(5) show ?thesis by (auto simp: loop_inv_def)
qed

text \<open>
  The loop never reports success while work is left. When the callbacks only hand in
  fresh items, a report of COMPLETED means that nothing is blocked and nothing is pending, and that every
  item that was seeded or discovered is in state SUCCEEDED and listed as completed.
\<close>
theorem completed_means_all_succeeded:
  assumes "run_loop digest cb pol seed [] fps w = (Inr rep, rs')"
    and "honest_discovery cb" and "\<forall>it \<in> set seed. fresh_item it" and "lr_state rep = LoopCompleted"
  shows "lr_blocked_item_ids rep = [] \<and> lr_pending_item_ids rep = [] \<and>
    (\<forall>it \<in> set (dict_values (rs_items rs')). wi_state it = SUCCEEDED \<and> wi_item_id it \<in> set (lr_completed_item_ids rep))"
proof -
  obtain fl rs1 where r: "loop_from digest cb pol [1..<Suc (nat (lp_max_iterations pol))]
        (add_all digest seed (run_start [] fps w)) = (fl, rs1)"
      "rs_items rs' = rs_items rs1" "lr_state rep = fst (conclude fl rs1)"
      "lr_completed_item_ids rep = rs_completed rs1" "lr_blocked_item_ids rep = dict_fromkeys (rs_blocked rs1)"
      "lr_pending_item_ids rep = pending_ids (rs_items rs1)" "\<exists>w'. rs' = rs1\<lparr>rs_world := w'\<rparr>"
    using assms(1) by (cases rule: run_loop_report) auto
  have "rs_blocked rs1 = [] \<and> (\<forall>it \<in> set (dict_values (rs_items rs1)). wi_state it \<noteq> PENDING)"
  proof (cases fl)
    case (Stop st s)
    with r(3) assms(4) have "fl = Stop LoopCompleted s" by (simp add: conclude_def)
    with loop_from_completed [OF r(1)] show ?thesis by blast
  qed (use r(3) assms(4) in \<open>auto simp: conclude_def pending_ids_def filter_empty_conv split: if_splits\<close>)
  moreover have "item_ok (rs_completed rs1) (rs_blocked rs1) it" if "it \<in> set (dict_values (rs_items rs1))" for it
    using run_loop_inv [OF assms(1-3)] that r(2,7) by (auto simp: loop_inv_def dict_values_def)
  ultimately show ?thesis using r
    by (auto simp: item_ok_def pending_ids_def filter_empty_conv)
qed

subsection \<open>The records of a run\<close>

definition harmless :: "iteration_record \<Rightarrow> bool" where
  "harmless r \<longleftrightarrow> ir_outcome r \<noteq> ORollbackFailed \<and> ir_outcome r \<noteq> ORegressionBlocked"

lemma loop_from_records:
  assumes "loop_from digest cb pol is rs = (fl, rs')"
  shows "\<exists>new. rs_records rs' = rs_records rs @ new \<and> length new \<le> length is \<and>
    (\<forall>r \<in> set (butlast new). harmless r) \<and>
    (\<not> leaves fl \<longrightarrow> (\<forall>r \<in> set new. harmless r))"
  using assms
proof (induction rule: loop_from_induct)
  case (exhausted rs)
  show ?case by (intro exI [of _ "[]"]) simp
next
  case (step i "is" rs fl1 rs1 fl rs')
  have head: "(\<exists>new. rs_records rs1 = rs_records rs @ new \<and> length new \<le> 1 \<and>
      (\<not> leaves fl1 \<longrightarrow> (\<forall>r \<in> set new. harmless r)))"
    using step(1)
  proof (cases rule: iterate_cases)
    case (found its w)
    then show ?thesis by (intro exI [of _ "[]"]) auto
  next
    case (attempt its w cand)
    then obtain r where "rs_records rs1 = rs_records rs @ [r]"
        "ir_outcome r \<in> {ORollbackFailed, ORegressionBlocked} \<longrightarrow> leaves fl1"
      unfolding attempted_def by auto
    then show ?thesis by (intro exI [of _ "[r]"]) (auto simp: harmless_def)
  qed
  then obtain new where new: "rs_records rs1 = rs_records rs @ new" "length new \<le> 1"
      "\<not> leaves fl1 \<longrightarrow> (\<forall>r \<in> set new. harmless r)" by blast
  show ?case
  proof (cases "fl1 = Continue")
    case True
    then have "\<forall>r \<in> set new. harmless r" using new(3) by (simp add: leaves_def)
    moreover from True step(2) obtain more where "rs_records rs' = rs_records rs1 @ more" "length more \<le> length is"
        "\<forall>r \<in> set (butlast more). harmless r" "\<not> leaves fl \<longrightarrow> (\<forall>r \<in> set more. harmless r)" by blast
    ultimately show ?thesis using new
      by (intro exI [of _ "new @ more"]) (auto simp: butlast_append split: if_splits dest: in_set_butlastD)
  next
    case False
    with step(2) have "fl = fl1" "rs' = rs1" by auto
    moreover have "butlast new = []" using new(2) by (cases new) auto
    ultimately show ?thesis using new by (intro exI [of _ new]) auto
  qed
qed

text \<open>
  A regression or a failed rollback stops the loop at once: a run makes at most
  \<open>max_iterations\<close> attempts, no attempt is made after one that ended in ROLLBACK_FAILED or
  REGRESSION_BLOCKED, and such an attempt is only ever reported with the state HALTED.
\<close>
theorem regression_stops_the_loop:
  assumes "run_loop digest cb pol seed items fps w = (Inr rep, rs')"
  shows "length (lr_records rep) \<le> nat (lp_max_iterations pol) \<and>
    (\<forall>r \<in> set (butlast (lr_records rep)). ir_outcome r \<notin> {ORollbackFailed, ORegressionBlocked}) \<and>
    (lr_state rep \<noteq> LoopHalted \<longrightarrow>
       (\<forall>r \<in> set (lr_records rep). ir_outcome r \<notin> {ORollbackFailed, ORegressionBlocked}))"
  using assms
proof (cases rule: run_loop_report)
  case (1 fl rs1)
  have "leaves fl \<Longrightarrow> lr_state rep = LoopHalted"
    using 1(2,4) by (auto simp: leaves_def conclude_def)
  then show ?thesis
    using loop_from_records [OF 1(1)] 1(4)
    by (auto simp: harmless_def run_start_def simp del: upt.simps upt_Suc)
qed

subsection \<open>Evidence for completed work\<close>

text \<open>
  \<open>Q i\<close> is any fact about the world that a validation accepting item \<open>i\<close> establishes and that no callback destroys.
\<close>

definition keeps :: "('w, 'c) callbacks \<Rightarrow> ('w \<Rightarrow> bool) \<Rightarrow> bool" where
  "keeps cb Q \<longleftrightarrow> (\<forall>w. Q w \<longrightarrow> Q (snd (cb_discover cb w)) \<and> (\<forall>it. Q (snd (cb_implement cb it w))) \<and>
     (\<forall>it c. Q (snd (cb_validate cb it c w))) \<and>
     (\<forall>f. cb_rollback cb = Some f \<longrightarrow> (\<forall>it c. Q (snd (f it c w)))) \<and>
     (\<forall>f. cb_checkpoint cb = Some f \<longrightarrow> (\<forall>lc its. Q (snd (f lc its w)))))"

definition evidence :: "('w, 'c) callbacks \<Rightarrow> loop_policy \<Rightarrow> (string \<Rightarrow> 'w \<Rightarrow> bool) \<Rightarrow> bool" where
  "evidence cb pol Q \<longleftrightarrow> (\<forall>i. keeps cb (Q i)) \<and>
     (\<forall>it c w v w'. cb_validate cb it c w = (Inr v, w') \<longrightarrow> \<not> rejects pol v \<longrightarrow> Q (wi_item_id it) w')"

definition validated :: "(string \<Rightarrow> 'w \<Rightarrow> bool) \<Rightarrow> 'w run_state \<Rightarrow> bool" where
  "validated Q rs \<longleftrightarrow> (\<forall>i \<in> set (rs_completed rs). Q i (rs_world rs))"

lemma emit_checkpoint_keeps:
  assumes "emit_checkpoint cb i st a rs = (x, rs')" and "keeps cb Q" and "Q (rs_world rs)"
  shows "Q (rs_world rs')"
  using assms by (auto simp: emit_checkpoint_def keeps_def split: option.splits prod.splits) (metis snd_conv)

lemma emit_checkpoint_validated:
  assumes "emit_checkpoint cb i st a rs = (x, rs')" and "evidence cb pol Q" and "validated Q rs"
  shows "validated Q rs'"
proof -
  have "Q j (rs_world rs')" if "Q j (rs_world rs)" for j
    using emit_checkpoint_keeps [OF assms(1), of "Q j"] assms(2) that by (simp add: evidence_def)
  then show ?thesis using emit_checkpoint_frame [OF assms(1)] assms(3) by (auto simp: validated_def)
qed

lemma after_exception_validated:
  assumes "after_exception cb pol i it e rs = (fl, rs')" and "evidence cb pol Q" and "validated Q rs"
  shows "validated Q rs'"
  using assms by (auto simp: after_exception_def bookkeeping validated_def split: prod.splits option.splits if_splits
      dest!: emit_checkpoint_validated [unfolded validated_def, where Q = Q])

lemma after_rejection_validated:
  assumes "after_rejection cb pol i it c v rh rs = (fl, rs')" and "evidence cb pol Q" and "validated Q rs"
  shows "validated Q rs'"
proof -
  obtain err w where p: "(case cb_rollback cb of None \<Rightarrow> (None, rs_world rs) | Some f \<Rightarrow> f it c (rs_world rs)) = (err, w)"
    by (metis surj_pair)
  have w: "Q j w" if "Q j (rs_world rs)" for j
    using p that assms(2) by (auto simp: evidence_def keeps_def split: option.splits) (metis snd_conv)
  then have v: "validated Q (rs\<lparr>rs_world := w\<rparr>)" using assms(3) by (simp add: validated_def)
  show ?thesis using assms(1,2) v p
    by (auto simp: after_rejection_def bookkeeping validated_def split: prod.splits option.splits if_splits
      dest!: emit_checkpoint_validated [unfolded validated_def, where Q = Q])
qed

lemma after_success_validated:
  assumes "after_success cb i it v rs = (fl, rs')" and "evidence cb pol Q" and "validated Q rs"
    and "Q (wi_item_id it) (rs_world rs)"
  shows "validated Q rs'"
  using assms by (auto simp: after_success_def bookkeeping validated_def split: prod.splits option.splits if_splits
      dest!: emit_checkpoint_validated [unfolded validated_def, where Q = Q])

lemma work_on_validated:
  assumes "work_on cb pol i cand rs = (fl, rs')" and e: "evidence cb pol Q" and v: "validated Q rs"
  shows "validated Q rs'"
proof -
  let ?it = "cand\<lparr>wi_state := RUNNING, wi_attempts := wi_attempts cand + 1\<rparr>"
  let ?iv = "?it\<lparr>wi_state := VALIDATING\<rparr>"
  let ?rs = "\<lambda>w. (put_item ?it rs)\<lparr>rs_world := w\<rparr>"
  obtain res w where a: "attempt_item cb ?it (rs_world rs) = (res, w)" by (metis surj_pair)
  have keep: "Q j w" if "Q j (rs_world rs)" for j
  proof -
    have k: "keeps cb (Q j)" using e by (simp add: evidence_def)
    have "Q j (snd (cb_implement cb x w0))" and "Q j (snd (cb_validate cb x c w0))" if "Q j w0" for x c w0
      using k that by (auto simp: keeps_def)
    then show ?thesis using a that
      by (auto simp: attempt_item_def split: prod.splits sum.splits) (metis snd_conv)+
  qed
  have v': "validated Q (?rs w)" using v keep by (simp add: validated_def put_item_def)
  have ok: "Q (wi_item_id cand) w" if "res = Inr (c, vr)" "\<not> rejects pol vr" for c vr
  proof -
    from a that(1) obtain w1 where "cb_validate cb ?iv c w1 = (Inr vr, w)"
      by (auto simp: attempt_item_def split: prod.splits sum.splits)
    with e that(2) have "Q (wi_item_id ?iv) w" unfolding evidence_def by blast
    then show ?thesis by simp
  qed
  have s: "rs_world (put_item ?it rs) = rs_world rs" by (simp add: put_item_def)
  show ?thesis
  proof (cases res)
    case (Inl x)
    with assms(1) a s have "after_exception cb pol i ?it x (?rs w) = (fl, rs')"
      by (simp add: work_on_def Let_def)
    from after_exception_validated [OF this e v'] show ?thesis .
  next
    case (Inr p)
    obtain c vr where p: "p = (c, vr)" by (cases p)
    show ?thesis
    proof (cases "rejects pol vr")
      case True
      with assms(1) a s Inr p have "after_rejection cb pol i ?iv c vr
          (vr_regressions vr \<noteq> [] \<and> lp_stop_on_regression pol) (?rs w) = (fl, rs')"
        unfolding work_on_def Let_def by simp
      from after_rejection_validated [OF this e v'] show ?thesis .
    next
      case False
      with assms(1) a s Inr p have f: "after_success cb i ?iv vr (?rs w) = (fl, rs')"
        unfolding work_on_def Let_def by simp
      have "Q (wi_item_id ?iv) (rs_world (?rs w))" using ok [of c vr] Inr p False by simp
      from after_success_validated [OF f e v' this] show ?thesis .
    qed
  qed
qed

lemma loop_from_validated:
  assumes "loop_from digest cb pol is rs = (fl, rs')" and "evidence cb pol Q" and "validated Q rs"
  shows "validated Q rs'"
  using assms
proof (induction rule: loop_from_induct)
  case (step i "is" rs fl1 rs1 fl rs')
  obtain its err w where d: "cb_discover cb (rs_world rs) = ((its, err), w)" by (metis surj_pair)
  have "Q j w" if "Q j (rs_world rs)" for j
    using that step(3) d by (auto simp: evidence_def keeps_def) (metis snd_conv)
  moreover have "rs_world (add_all digest its r) = rs_world r" for r :: "'a run_state"
    by (induction its arbitrary: r) (auto simp: add_work_def put_item_def)
  ultimately have "validated Q (add_all digest its (rs\<lparr>rs_iterations := i, rs_world := w\<rparr>))"
    using step(4) by (simp add: validated_def)
  then have "validated Q rs1" using step(1,3) d
    by (auto simp: iterate_def Let_def split: option.splits intro: work_on_validated)
  then show ?case using step(2,3) by auto
qed

text \<open>
  C16: Nothing is reported as completed without an accepting validation: for any fact \<open>Q i\<close>
  about the outside world that a passing, regression-free validation of item \<open>i\<close> establishes and that the callbacks never
  destroy, every identifier the report lists as completed has that fact when the run returns.
\<close>
theorem completed_work_was_validated:
  assumes "run_loop digest cb pol seed items fps w = (Inr rep, rs')" and "evidence cb pol Q"
    and "i \<in> set (lr_completed_item_ids rep)"
  shows "Q i (rs_world rs')"
proof -
  obtain fl rs1 where l: "loop_from digest cb pol [1..<Suc (nat (lp_max_iterations pol))]
      (add_all digest seed (run_start items fps w)) = (fl, rs1)" by (metis surj_pair)
  have "validated Q (add_all digest seed (run_start items fps w))"
    by (simp add: validated_def run_start_def)
  with loop_from_validated [OF l assms(2)] have v: "validated Q rs1" .
  obtain x rs2 where e: "emit_checkpoint cb (rs_iterations rs1) (fst (conclude fl rs1)) None rs1 = (x, rs2)"
    by (metis surj_pair)
  have "rs' = rs2 \<and> lr_completed_item_ids rep = rs_completed rs1"
    using assms(1) l e by (cases fl; cases x; auto simp: run_loop_def split: option.splits)
  moreover have "validated Q rs2" using emit_checkpoint_validated [OF e assms(2) v] .
  moreover have "rs_completed rs2 = rs_completed rs1" using emit_checkpoint_frame [OF e] by auto
  ultimately show ?thesis using assms(3) by (auto simp: validated_def)
qed

text \<open>
  The record of the last permitted attempt of an item that keeps failing validation says
  VALIDATION_RETRY although the item is blocked and is not retried.
\<close>

lemma exhausted_item_recorded_as_retry:
  assumes "cb_rollback cb = None" and "cb_checkpoint cb = None" and "wi_attempts it = wi_max_attempts it"
  shows "rs_blocked (snd (after_rejection cb pol i it c v False rs)) = rs_blocked rs @ [wi_item_id it] \<and>
    ir_outcome (last (rs_records (snd (after_rejection cb pol i it c v False rs)))) = OValidationRetry"
  using assms by (simp add: after_rejection_def emit_checkpoint_def bookkeeping iteration_of_def)

subsection \<open>A run on concrete callbacks\<close>

text \<open>The world is the list of the items validated so far; work on \<open>''b''\<close> fails validation.\<close>

definition demo_item :: "string \<Rightarrow> work_item" where
  "demo_item i = \<lparr>wi_title = i, wi_kind = ''REPAIR'', wi_payload = [], wi_priority = 1, wi_risk = ''low'',
     wi_max_attempts = 2, wi_item_id = i, wi_state = PENDING, wi_attempts = 0, wi_last_error = []\<rparr>"

definition demo_callbacks :: "(string list, unit) callbacks" where
  "demo_callbacks = \<lparr>cb_discover = (\<lambda>w. (([], None), w)), cb_implement = (\<lambda>it w. (Inr (), w)),
     cb_validate = (\<lambda>it c w. if wi_item_id it = ''b''
        then (Inr \<lparr>vr_passed = True, vr_summary = [], vr_regressions = [''r'']\<rparr>, w)
        else (Inr \<lparr>vr_passed = True, vr_summary = [], vr_regressions = []\<rparr>, wi_item_id it # w)),
     cb_rollback = None, cb_checkpoint = None\<rparr>"

definition demo_policy :: loop_policy where
  "demo_policy = \<lparr>lp_max_iterations = 3, lp_max_no_progress_iterations = 2, lp_stop_on_regression = True\<rparr>"

definition demo_digest :: "json \<Rightarrow> string" where
  "demo_digest j = (case j of JObj [_, _, (_, JStr t)] \<Rightarrow> t | _ \<Rightarrow> [])"

definition demo_report :: "string list \<Rightarrow> (py_exc + loop_report) \<times> string list run_state" where
  "demo_report ids = run_loop demo_digest demo_callbacks demo_policy (map demo_item ids) [] [] []"

lemma demo_evidence: "evidence demo_callbacks demo_policy (\<lambda>i w. i \<in> set w)"
  by (auto simp: evidence_def keeps_def demo_callbacks_def rejects_def demo_policy_def split: if_splits)

lemma demo_honest: "honest_discovery demo_callbacks"
  by (simp add: honest_discovery_def demo_callbacks_def)

lemma demo_run_a:
  "case fst (demo_report [''a'']) of Inl e \<Rightarrow> False
   | Inr rep \<Rightarrow> lr_state rep = LoopCompleted \<and> lr_completed_item_ids rep = [''a'']"
  unfolding demo_report_def by code_simp

lemma demo_run_b:
  "case fst (demo_report [''a'', ''b'']) of Inl e \<Rightarrow> False
   | Inr rep \<Rightarrow> lr_state rep = LoopHalted \<and> lr_completed_item_ids rep = [''a''] \<and>
       map ir_outcome (lr_records rep) = [OSucceeded, ORegressionBlocked]"
  unfolding demo_report_def by code_simp

lemma demo_result:
  assumes "case fst (demo_report ids) of Inl e \<Rightarrow> False | Inr rep \<Rightarrow> P rep"
  obtains rep rs where "run_loop demo_digest demo_callbacks demo_policy (map demo_item ids) [] [] [] = (Inr rep, rs)" "P rep"
  using assms by (cases "demo_report ids") (auto simp: demo_report_def split: sum.splits)

theorem completed_means_all_succeeded_witness:
  "\<exists>rep rs. demo_report [''a''] = (Inr rep, rs) \<and> lr_pending_item_ids rep = []"
proof -
  obtain rep rs where r: "run_loop demo_digest demo_callbacks demo_policy (map demo_item [''a'']) [] [] [] = (Inr rep, rs)"
      "lr_state rep = LoopCompleted"
    using demo_result [OF demo_run_a] by blast
  have "\<forall>it \<in> set (map demo_item [''a'']). fresh_item it" by (simp add: fresh_item_def demo_item_def)
  from completed_means_all_succeeded [OF r(1) demo_honest this r(2)] r(1) show ?thesis
    by (auto simp: demo_report_def)
qed

theorem regression_stops_the_loop_witness:
  "\<exists>rep rs. demo_report [''a'', ''b''] = (Inr rep, rs) \<and> length (lr_records rep) \<le> 3 \<and>
     ir_outcome (last (lr_records rep)) = ORegressionBlocked"
proof -
  obtain rep rs where r: "run_loop demo_digest demo_callbacks demo_policy (map demo_item [''a'', ''b'']) [] [] [] = (Inr rep, rs)"
    "lr_state rep = LoopHalted \<and> lr_completed_item_ids rep = [''a''] \<and>
      map ir_outcome (lr_records rep) = [OSucceeded, ORegressionBlocked]"
    by (rule demo_result [OF demo_run_b])
  have o': "map ir_outcome (lr_records rep) = [OSucceeded, ORegressionBlocked]" using r(2) by blast
  then have "lr_records rep \<noteq> []" by auto
  then have "ir_outcome (last (lr_records rep)) = last (map ir_outcome (lr_records rep))" by (simp add: last_map)
  then have "ir_outcome (last (lr_records rep)) = ORegressionBlocked" using o' by simp
  moreover have "length (lr_records rep) \<le> 3"
    using conjunct1 [OF regression_stops_the_loop [OF r(1)]] by (simp add: demo_policy_def)
  moreover have "demo_report [''a'', ''b''] = (Inr rep, rs)" using r(1) by (simp add: demo_report_def)
  ultimately show ?thesis by blast
qed

theorem completed_work_was_validated_witness:
  "\<exists>rep rs. demo_report [''a'', ''b''] = (Inr rep, rs) \<and> ''a'' \<in> set (rs_world rs)"
proof -
  obtain rep rs where r: "run_loop demo_digest demo_callbacks demo_policy (map demo_item [''a'', ''b'']) [] [] [] = (Inr rep, rs)"
    "lr_state rep = LoopHalted \<and> lr_completed_item_ids rep = [''a''] \<and>
      map ir_outcome (lr_records rep) = [OSucceeded, ORegressionBlocked]"
    by (rule demo_result [OF demo_run_b])
  then have "''a'' \<in> set (rs_world rs)" using completed_work_was_validated [OF r(1) demo_evidence, of "''a''"] by simp
  moreover have "demo_report [''a'', ''b''] = (Inr rep, rs)" using r(1) by (simp add: demo_report_def)
  ultimately show ?thesis by blast
qed

end
