(* ===== verification/UpgradeLedger.thy ===== *)
theory UpgradeLedger
  imports UpgradeLoop
begin

text \<open>
  \<open>src/zcoder/services/upgrade_state.py\<close>, class \<open>JsonUpgradeLedger\<close>, and the protocol \<open>UpgradeLedger\<close> of
  \<open>upgrade_store_ledger.py\<close> as the locale \<open>upgrade_ledger\<close>: durable state of the upgrade loop, so that a restart
  resumes unfinished work and never repeats finished work. Records are JSON objects and are read with Python's
  conversions: \<open>strf\<close> is \<open>str()\<close> on a value that is not a string. \<open>json.dumps\<close> followed by \<open>json.loads\<close> is the
  identity up to the key order that \<open>sort_keys\<close> imposes on the table of records. The write is the atomic
  \<open>os.replace\<close>; failing disks and locks are not modelled.
\<close>

subsection \<open>Records\<close>

fun state_value :: "work_state \<Rightarrow> string" where
  "state_value PENDING = ''PENDING''"
| "state_value RUNNING = ''RUNNING''"
| "state_value VALIDATING = ''VALIDATING''"
| "state_value SUCCEEDED = ''SUCCEEDED''"
| "state_value BLOCKED = ''BLOCKED''"

fun loop_state_value :: "loop_state \<Rightarrow> string" where
  "loop_state_value LoopRunning = ''RUNNING''"
| "loop_state_value LoopCompleted = ''COMPLETED''"
| "loop_state_value LoopHalted = ''HALTED''"
| "loop_state_value LoopBudgetExhausted = ''BUDGET_EXHAUSTED''"

datatype ledger_error = UpgradeLedgerError string | LedgerValueError | LedgerAttributeError

text \<open>\<open>dict(x)\<close>: an object. A list of pairs, which \<open>dict\<close> would also take, is no payload a ledger writes.\<close>

fun py_dict :: "json \<Rightarrow> jobj option" where
  "py_dict (JObj d) = Some d"
| "py_dict _ = None"

definition serialize_item :: "work_item \<Rightarrow> work_state \<Rightarrow> real \<Rightarrow> jobj" where
  "serialize_item it st now =
     [(''item_id'', JStr (wi_item_id it)), (''title'', JStr (wi_title it)), (''kind'', JStr (wi_kind it)),
      (''payload'', JObj (wi_payload it)), (''priority'', JInt (wi_priority it)), (''risk'', JStr (wi_risk it)),
      (''max_attempts'', JInt (wi_max_attempts it)), (''state'', JStr (state_value st)),
      (''attempts'', JInt (wi_attempts it)), (''last_error'', JStr (wi_last_error it)), (''updated_at'', JFloat now)]"

definition valid_kind :: "string \<Rightarrow> bool" where
  "valid_kind k \<longleftrightarrow> k \<in> kind_value ` {UPGRADE, UPDATE, IMPLEMENT_FEATURE, REPAIR}"

text \<open>
  The constructor call of a restored item: the fields of the record, those of \<open>dflt\<close> where a key is missing.
  A kind that is no \<open>WorkKind\<close>, a value \<open>int()\<close> or \<open>dict()\<close> refuses and \<open>__post_init__\<close> raise a \<open>ValueError\<close>
  (a \<open>TypeError\<close> counts as one).
\<close>

definition restore_item ::
  "(json \<Rightarrow> string) \<Rightarrow> work_item \<Rightarrow> jobj \<Rightarrow> int option \<Rightarrow> ledger_error + work_item" where
  "restore_item strf dflt r attempts =
     (let kind = py_str strf (dict_get r ''kind'' (JStr (wi_kind dflt))) in
      if \<not> valid_kind kind then Inl LedgerValueError
      else (case (py_dict (dict_get r ''payload'' (JObj (wi_payload dflt))),
                  py_int (dict_get r ''priority'' (JInt (wi_priority dflt))),
                  py_int (dict_get r ''max_attempts'' (JInt (wi_max_attempts dflt))),
                  (case attempts of Some n \<Rightarrow> Some n | None \<Rightarrow> py_int (dict_get r ''attempts'' (JInt 0)))) of
          (Some payload, Some priority, Some max_attempts, Some n) \<Rightarrow>
            (case work_item_new \<lparr>wi_title = py_str strf (dict_get r ''title'' (JStr (wi_title dflt))),
                wi_kind = kind, wi_payload = payload, wi_priority = priority,
                wi_risk = py_str strf (dict_get r ''risk'' (JStr (wi_risk dflt))), wi_max_attempts = max_attempts,
                wi_item_id = py_str strf (dict_get r ''item_id'' (JStr (wi_item_id dflt))), wi_state = PENDING,
                wi_attempts = n, wi_last_error = py_str strf (dict_get r ''last_error'' (JStr []))\<rparr> of
               Inl _ \<Rightarrow> Inl LedgerValueError
             | Inr it \<Rightarrow> Inr it)
        | _ \<Rightarrow> Inl LedgerValueError))"

definition record_state :: "(json \<Rightarrow> string) \<Rightarrow> jobj \<Rightarrow> string" where
  "record_state strf r = py_str strf (dict_get r ''state'' (JStr ''PENDING''))"

text \<open>The state a checkpoint gives an item.\<close>

definition persisted_state :: "loop_checkpoint \<Rightarrow> string \<Rightarrow> work_item \<Rightarrow> work_state" where
  "persisted_state cp item_id it =
     (if item_id \<in> set (lc_completed_item_ids cp) then SUCCEEDED
      else if item_id \<in> set (lc_blocked_item_ids cp) then BLOCKED
      else if item_id \<in> set (lc_pending_item_ids cp) then PENDING
      else if lc_active_item_id cp = Some item_id then RUNNING
      else wi_state it)"

definition checkpoint_json :: "loop_checkpoint \<Rightarrow> real \<Rightarrow> json" where
  "checkpoint_json cp created_at = JObj
     [(''iteration'', JInt (int (lc_iteration cp))), (''state'', JStr (loop_state_value (lc_state cp))),
      (''active_item_id'', case lc_active_item_id cp of None \<Rightarrow> JNull | Some i \<Rightarrow> JStr i),
      (''completed_item_ids'', JArr (map JStr (lc_completed_item_ids cp))),
      (''blocked_item_ids'', JArr (map JStr (lc_blocked_item_ids cp))),
      (''pending_item_ids'', JArr (map JStr (lc_pending_item_ids cp))), (''created_at'', JFloat created_at)]"

text \<open>\<open>xs[-n:]\<close> for a positive \<open>n\<close>.\<close>

definition last_n :: "nat \<Rightarrow> 'a list \<Rightarrow> 'a list" where
  "last_n n xs = drop (length xs - n) xs"

text \<open>An item the ledger can give back.\<close>

definition valid_item :: "work_item \<Rightarrow> bool" where
  "valid_item it \<longleftrightarrow> valid_kind (wi_kind it) \<and> work_item_new it = Inr it"

subsection \<open>The contract of a ledger\<close>

text \<open>
  \<open>wf\<close> is the ledger's own invariant and \<open>fp\<close> the content fingerprint. Registering new work stores it, finished work is
  refused, unfinished work comes back as pending with the same content, and other entries are untouched.
\<close>

locale upgrade_ledger =
  fixes register :: "work_item \<Rightarrow> bool \<Rightarrow> real \<Rightarrow> 's \<Rightarrow> (ledger_error + work_item option) \<times> 's"
    and state_for :: "string \<Rightarrow> 's \<Rightarrow> ledger_error + string option"
    and fp :: "work_item \<Rightarrow> string"
    and wf :: "'s \<Rightarrow> bool"
  assumes wf_register: "wf s \<Longrightarrow> valid_item it \<Longrightarrow> wf (snd (register it retry now s))"
    and state_known: "wf s \<Longrightarrow> \<exists>st. state_for (fp it) s = Inr st \<and> (\<forall>v. st = Some v \<longrightarrow> v \<in> range state_value)"
    and register_new: "wf s \<Longrightarrow> valid_item it \<Longrightarrow> state_for (fp it) s = Inr None \<Longrightarrow>
         fst (register it retry now s) = Inr (Some it) \<and>
         state_for (fp it) (snd (register it retry now s)) = Inr (Some (state_value (wi_state it)))"
    and register_terminal: "wf s \<Longrightarrow> state_for (fp it) s = Inr (Some v) \<Longrightarrow>
         v = state_value SUCCEEDED \<or> v = state_value BLOCKED \<and> \<not> retry \<Longrightarrow>
         register it retry now s = (Inr None, s)"
    and register_resume: "wf s \<Longrightarrow> valid_item it \<Longrightarrow> state_for (fp it) s = Inr (Some v) \<Longrightarrow>
         v \<noteq> state_value SUCCEEDED \<Longrightarrow> v \<noteq> state_value BLOCKED \<or> retry \<Longrightarrow>
         \<exists>it'. fst (register it retry now s) = Inr (Some it') \<and> fp it' = fp it \<and> wi_state it' = PENDING \<and>
           state_for (fp it) (snd (register it retry now s)) = Inr (Some (state_value PENDING))"
    and register_other: "wf s \<Longrightarrow> valid_item it \<Longrightarrow> f \<noteq> fp it \<Longrightarrow>
         state_for f (snd (register it retry now s)) = state_for f s"
begin

text \<open>A restart registers all its work items again.\<close>

fun register_all :: "bool \<Rightarrow> real \<Rightarrow> work_item list \<Rightarrow> 's \<Rightarrow> (ledger_error + work_item option) list \<times> 's" where
  "register_all retry now [] s = ([], s)"
| "register_all retry now (it # its) s = (case register it retry now s of (r, s1) \<Rightarrow>
     (case register_all retry now its s1 of (rs, s2) \<Rightarrow> (r # rs, s2)))"

lemma register_keeps_succeeded:
  assumes "wf s" and "valid_item it" and "state_for f s = Inr (Some (state_value SUCCEEDED))"
  shows "state_for f (snd (register it retry now s)) = Inr (Some (state_value SUCCEEDED))"
proof (cases "f = fp it")
  case True
  with register_terminal [OF assms(1), of it "state_value SUCCEEDED" retry now] assms(3) show ?thesis by simp
next
  case False
  with register_other [OF assms(1,2)] assms(3) show ?thesis by simp
qed

lemma register_answer:
  assumes "wf s" and "valid_item it"
  shows "\<exists>r. fst (register it retry now s) = Inr r \<and> (\<forall>it'. r = Some it' \<longrightarrow> fp it' = fp it)"
proof -
  obtain st where "state_for (fp it) s = Inr st" using state_known [OF assms(1)] by blast
  then show ?thesis
    using register_new [OF assms, of retry now] register_terminal [OF assms(1), of it _ retry now]
      register_resume [OF assms, of _ retry now]
    by (cases st) (fastforce, metis fst_conv option.distinct(1) option.inject)
qed

lemma register_known:
  assumes "wf s" and "valid_item it"
  shows "\<exists>v. state_for (fp it) (snd (register it retry now s)) = Inr (Some v)"
proof -
  obtain st where st: "state_for (fp it) s = Inr st" using state_known [OF assms(1)] by blast
  show ?thesis
  proof (cases st)
    case None
    with register_new [OF assms, of retry now] st show ?thesis by blast
  next
    case (Some v)
    show ?thesis
    proof (cases "v = state_value SUCCEEDED \<or> v = state_value BLOCKED \<and> \<not> retry")
      case True
      with register_terminal [OF assms(1), of it v retry now] st Some show ?thesis by simp
    next
      case False
      with register_resume [OF assms, of v retry now] st Some show ?thesis by blast
    qed
  qed
qed

text \<open>Finished work stays finished and is never handed out again, however often the loop restarts.\<close>

lemma finished_never_rerun:
  assumes "wf s" and "\<forall>it \<in> set its. valid_item it" and "state_for f s = Inr (Some (state_value SUCCEEDED))"
  shows "state_for f (snd (register_all retry now its s)) = Inr (Some (state_value SUCCEEDED)) \<and>
    (\<forall>it. Inr (Some it) \<in> set (fst (register_all retry now its s)) \<longrightarrow> fp it \<noteq> f)"
  using assms
proof (induction its arbitrary: s)
  case (Cons it its)
  obtain r s1 where r: "register it retry now s = (r, s1)" by (metis surj_pair)
  have v: "valid_item it" using Cons.prems(2) by simp
  have "wf s1" using wf_register [OF Cons.prems(1) v, of retry now] r by simp
  moreover have "state_for f s1 = Inr (Some (state_value SUCCEEDED))"
    using register_keeps_succeeded [OF Cons.prems(1) v Cons.prems(3), of retry now] r by simp
  moreover have "fp it' \<noteq> f" if "r = Inr (Some it')" for it'
  proof
    assume f: "fp it' = f"
    have "fp it' = fp it" using register_answer [OF Cons.prems(1) v, of retry now] r that by auto
    with f have "register it retry now s = (Inr None, s)"
      using register_terminal [OF Cons.prems(1), of it "state_value SUCCEEDED" retry now] Cons.prems(3) by simp
    with r that show False by simp
  qed
  ultimately show ?case using Cons.IH [of s1] Cons.prems(2) r by (auto split: prod.splits)
qed simp

end

subsection \<open>The JSON file\<close>

datatype ledger_file = NoFile | NotJson string | Content json

record ledger_data =
  ld_records :: "(string \<times> json) list"
  ld_checkpoints :: "json list"

definition ledger_read :: "ledger_file \<Rightarrow> ledger_error + ledger_data" where
  "ledger_read f =
     (case f of
        NoFile \<Rightarrow> Inr \<lparr>ld_records = [], ld_checkpoints = []\<rparr>
      | NotJson e \<Rightarrow> Inl (UpgradeLedgerError (''unable to read upgrade ledger: '' @ e))
      | Content (JObj d) \<Rightarrow>
          (if map_of d ''schema_version'' \<notin> {Some (JInt 1), Some (JFloat 1), Some (JBool True)}
           then Inl (UpgradeLedgerError ''unsupported upgrade ledger schema'')
           else (case (map_of d ''records'', map_of d ''checkpoints'') of
               (Some (JObj rs), Some (JArr cs)) \<Rightarrow> Inr \<lparr>ld_records = rs, ld_checkpoints = cs\<rparr>
             | _ \<Rightarrow> Inl (UpgradeLedgerError ''invalid upgrade ledger structure'')))
      | Content _ \<Rightarrow> Inl LedgerAttributeError)"

definition ledger_write :: "ledger_data \<Rightarrow> ledger_file" where
  "ledger_write d = Content (JObj [(''checkpoints'', JArr (ld_checkpoints d)),
     (''records'', JObj (sort_key fst (ld_records d))), (''schema_version'', JInt 1)])"

definition restore_or_register ::
  "(json \<Rightarrow> string) \<Rightarrow> (json \<Rightarrow> string) \<Rightarrow> work_item \<Rightarrow> bool \<Rightarrow> real \<Rightarrow> ledger_file
     \<Rightarrow> (ledger_error + work_item option) \<times> ledger_file" where
  "restore_or_register digest strf it retry now f =
     (case ledger_read f of
        Inl e \<Rightarrow> (Inl e, f)
      | Inr d \<Rightarrow>
         (case map_of (ld_records d) (fingerprint digest it) of
            None \<Rightarrow> (Inr (Some it), ledger_write (d\<lparr>ld_records := dict_set (ld_records d) (fingerprint digest it)
                       (JObj (serialize_item it (wi_state it) now))\<rparr>))
          | Some (JObj r) \<Rightarrow>
             (let st = record_state strf r in
              if st = ''SUCCEEDED'' then (Inr None, f)
              else if st = ''BLOCKED'' \<and> \<not> retry then (Inr None, f)
              else (case py_int (dict_get r ''attempts'' (JInt 0)) of
                  None \<Rightarrow> (Inl LedgerValueError, f)
                | Some n \<Rightarrow>
                   (case restore_item strf it r (Some (if st = ''BLOCKED'' \<and> retry then 0 else n)) of
                      Inl e \<Rightarrow> (Inl e, f)
                    | Inr it' \<Rightarrow> (Inr (Some it'), ledger_write (d\<lparr>ld_records := dict_set (ld_records d)
                          (fingerprint digest it') (JObj (serialize_item it' PENDING now))\<rparr>)))))
          | Some _ \<Rightarrow> (Inl LedgerAttributeError, f)))"

text \<open>
  The loop of \<open>load_resumable\<close> over the records: the items, and the records with those of retried blocked work reset.
  The keys \<open>title\<close>, \<open>kind\<close> and \<open>item_id\<close> are indexed, so a record without one of them is a \<open>KeyError\<close>, which counts as a
  \<open>ValueError\<close> here; the other defaults are 50, medium, 2 and the empty payload.
\<close>

definition empty_item :: work_item where
  "empty_item = \<lparr>wi_title = [], wi_kind = [], wi_payload = [], wi_priority = 50, wi_risk = ''medium'',
     wi_max_attempts = 2, wi_item_id = [], wi_state = PENDING, wi_attempts = 0, wi_last_error = []\<rparr>"

fun load_records ::
  "(json \<Rightarrow> string) \<Rightarrow> (json \<Rightarrow> string) \<Rightarrow> bool \<Rightarrow> (string \<times> json) list
     \<Rightarrow> ledger_error + work_item list \<times> (string \<times> json) list" where
  "load_records digest strf retry [] = Inr ([], [])"
| "load_records digest strf retry ((k, JObj r) # rs) =
     (let st = record_state strf r in
      if st = ''SUCCEEDED'' \<or> (st = ''BLOCKED'' \<and> \<not> retry)
      then map_sum (\<lambda>e. e) (\<lambda>(its, rs'). (its, (k, JObj r) # rs')) (load_records digest strf retry rs)
      else if map_of r ''title'' = None \<or> map_of r ''kind'' = None \<or> map_of r ''item_id'' = None then Inl LedgerValueError
      else (case py_int (dict_get r ''attempts'' (JInt 0)) of
          None \<Rightarrow> Inl LedgerValueError
        | Some n \<Rightarrow>
           (case restore_item strf empty_item r (Some (if st = ''BLOCKED'' then 0 else n)) of
              Inl e \<Rightarrow> Inl e
            | Inr it \<Rightarrow>
               if fingerprint digest it \<noteq> k then Inl (UpgradeLedgerError ''ledger fingerprint mismatch'')
               else map_sum (\<lambda>e. e) (\<lambda>(its, rs'). (it # its,
                   (k, JObj (if st = ''BLOCKED'' then dict_set (dict_set r ''state'' (JStr ''PENDING'')) ''attempts'' (JInt 0) else r)) # rs'))
                 (load_records digest strf retry rs))))"
| "load_records digest strf retry (_ # rs) = Inl LedgerAttributeError"

definition load_resumable ::
  "(json \<Rightarrow> string) \<Rightarrow> (json \<Rightarrow> string) \<Rightarrow> bool \<Rightarrow> ledger_file \<Rightarrow> (ledger_error + work_item list) \<times> ledger_file" where
  "load_resumable digest strf retry f =
     (case ledger_read f of
        Inl e \<Rightarrow> (Inl e, f)
      | Inr d \<Rightarrow>
         (case load_records digest strf retry (ld_records d) of
            Inl e \<Rightarrow> (Inl e, f)
          | Inr (its, rs) \<Rightarrow> (Inr its, if rs \<noteq> ld_records d then ledger_write (d\<lparr>ld_records := rs\<rparr>) else f)))"

fun checkpoint_records ::
  "(json \<Rightarrow> string) \<Rightarrow> loop_checkpoint \<Rightarrow> real \<Rightarrow> (string \<times> work_item) list \<Rightarrow> (string \<times> json) list \<Rightarrow> (string \<times> json) list" where
  "checkpoint_records digest cp now [] rs = rs"
| "checkpoint_records digest cp now ((i, it) # its) rs = checkpoint_records digest cp now its
     (dict_set rs (fingerprint digest it) (JObj (serialize_item it (persisted_state cp i it) now)))"

definition record_checkpoint ::
  "(json \<Rightarrow> string) \<Rightarrow> nat \<Rightarrow> loop_checkpoint \<Rightarrow> real \<Rightarrow> (string \<times> work_item) list \<Rightarrow> real \<Rightarrow> ledger_file
     \<Rightarrow> (ledger_error + unit) \<times> ledger_file" where
  "record_checkpoint digest max_checkpoints cp created_at items now f =
     (case ledger_read f of
        Inl e \<Rightarrow> (Inl e, f)
      | Inr d \<Rightarrow> (Inr (), ledger_write \<lparr>ld_records = checkpoint_records digest cp now items (ld_records d),
          ld_checkpoints = last_n max_checkpoints (ld_checkpoints d @ [checkpoint_json cp created_at])\<rparr>))"

text \<open>\<open>state_for\<close> reads \<open>str(record.get("state"))\<close>, which is \<open>None\<close> as a text when the key is missing.\<close>

definition ledger_state_for :: "(json \<Rightarrow> string) \<Rightarrow> string \<Rightarrow> ledger_file \<Rightarrow> ledger_error + string option" where
  "ledger_state_for strf k f =
     (case ledger_read f of
        Inl e \<Rightarrow> Inl e
      | Inr d \<Rightarrow> (case map_of (ld_records d) k of
            None \<Rightarrow> Inr None
          | Some (JObj r) \<Rightarrow> Inr (Some (py_str strf (dict_get r ''state'' JNull)))
          | Some _ \<Rightarrow> Inl LedgerAttributeError))"

fun record_object :: "json \<Rightarrow> jobj option" where
  "record_object (JObj r) = Some r"
| "record_object _ = None"

definition ledger_objects :: "ledger_file \<Rightarrow> ledger_error + jobj list" where
  "ledger_objects f =
     (case ledger_read f of
        Inl e \<Rightarrow> Inl e
      | Inr d \<Rightarrow> if list_all (\<lambda>j. record_object j \<noteq> None) (dict_values (ld_records d))
                 then Inr (map (the \<circ> record_object) (dict_values (ld_records d))) else Inl LedgerAttributeError)"

definition ledger_blocked_item_ids :: "(json \<Rightarrow> string) \<Rightarrow> ledger_file \<Rightarrow> ledger_error + string list" where
  "ledger_blocked_item_ids strf f = map_sum (\<lambda>e. e) (\<lambda>rs. map (\<lambda>r. py_str strf (dict_get r ''item_id'' (JStr [])))
     (filter (\<lambda>r. map_of r ''state'' = Some (JStr ''BLOCKED'') \<and> truthy (dict_get r ''item_id'' JNull)) rs))
     (ledger_objects f)"

definition ledger_terminal_counts :: "(json \<Rightarrow> string) \<Rightarrow> ledger_file \<Rightarrow> ledger_error + nat \<times> nat" where
  "ledger_terminal_counts strf f = map_sum (\<lambda>e. e) (\<lambda>rs.
     (length (filter (\<lambda>r. py_str strf (dict_get r ''state'' (JStr [])) = ''SUCCEEDED'') rs),
      length (filter (\<lambda>r. py_str strf (dict_get r ''state'' (JStr [])) = ''BLOCKED'') rs))) (ledger_objects f)"

subsection \<open>The JSON ledger keeps the contract\<close>

lemma valid_kind_values [simp]: "valid_kind (kind_value k)"
  by (cases k) (simp_all add: valid_kind_def)

lemma serialized_fields [simp]:
  "dict_get (serialize_item it st now) ''item_id'' x = JStr (wi_item_id it)"
  "dict_get (serialize_item it st now) ''title'' x = JStr (wi_title it)"
  "dict_get (serialize_item it st now) ''kind'' x = JStr (wi_kind it)"
  "dict_get (serialize_item it st now) ''payload'' x = JObj (wi_payload it)"
  "dict_get (serialize_item it st now) ''priority'' x = JInt (wi_priority it)"
  "dict_get (serialize_item it st now) ''risk'' x = JStr (wi_risk it)"
  "dict_get (serialize_item it st now) ''max_attempts'' x = JInt (wi_max_attempts it)"
  "dict_get (serialize_item it st now) ''state'' x = JStr (state_value st)"
  "dict_get (serialize_item it st now) ''attempts'' x = JInt (wi_attempts it)"
  "dict_get (serialize_item it st now) ''last_error'' x = JStr (wi_last_error it)"
  by (simp_all add: serialize_item_def dict_get_def)

lemma record_state_serialized [simp]: "record_state strf (serialize_item it st now) = state_value st"
  by (simp add: record_state_def)

lemma restore_serialized:
  assumes "valid_item it"
  shows "restore_item strf dflt (serialize_item it st now) n =
    Inr (it\<lparr>wi_state := PENDING, wi_attempts := (case n of None \<Rightarrow> wi_attempts it | Some k \<Rightarrow> k)\<rparr>)"
proof -
  have "valid_kind (wi_kind it)" and "py_strip (wi_title it) \<noteq> []" and "\<not> wi_max_attempts it < 1"
    using assms by (auto simp: valid_item_def work_item_new_def split: if_splits)
  then show ?thesis by (cases n) (simp_all add: restore_item_def work_item_new_def)
qed

text \<open>
  A ledger record restores the item it was made of: reading back a serialized valid
  item gives the same title, kind, payload, priority, risk, budget, identifier and last error, in state
  PENDING, with the attempts of the record or those the caller sets.
\<close>
theorem restore_serialized_item:
  assumes "valid_item it"
  shows "restore_item strf dflt (serialize_item it st now) n =
    Inr (it\<lparr>wi_state := PENDING, wi_attempts := (case n of None \<Rightarrow> wi_attempts it | Some k \<Rightarrow> k)\<rparr>)"
  by (rule restore_serialized [OF assms])

theorem restore_serialized_item_witness:
  "restore_item (\<lambda>j. []) empty_item (serialize_item (demo_item ''a'') BLOCKED 7) (Some 0) = Inr (demo_item ''a'')"
proof -
  have "valid_item (demo_item ''a'')"
    by (simp add: valid_item_def work_item_new_def demo_item_def valid_kind_def py_strip_def py_isspace_def)
  from restore_serialized_item [OF this] show ?thesis by (simp add: demo_item_def)
qed

lemma valid_item_reset [simp]: "valid_item (it\<lparr>wi_state := st, wi_attempts := n\<rparr>) \<longleftrightarrow> valid_item it"
  by (auto simp: valid_item_def work_item_new_def split: if_splits)

lemma fingerprint_reset [simp]: "fingerprint digest (it\<lparr>wi_state := st, wi_attempts := n\<rparr>) = fingerprint digest it"
  by (simp add: fingerprint_def)

definition good_record :: "(json \<Rightarrow> string) \<Rightarrow> string \<Rightarrow> json \<Rightarrow> bool" where
  "good_record digest k j \<longleftrightarrow> (\<exists>it st now. valid_item it \<and> fingerprint digest it = k \<and>
     j = JObj (serialize_item it st now))"

definition good_records :: "(json \<Rightarrow> string) \<Rightarrow> (string \<times> json) list \<Rightarrow> bool" where
  "good_records digest rs \<longleftrightarrow> distinct (map fst rs) \<and> (\<forall>(k, j) \<in> set rs. good_record digest k j)"

definition json_wf :: "(json \<Rightarrow> string) \<Rightarrow> ledger_file \<Rightarrow> bool" where
  "json_wf digest f \<longleftrightarrow> (\<exists>d. ledger_read f = Inr d \<and> good_records digest (ld_records d))"

lemma map_of_sort_fst: "distinct (map fst xs) \<Longrightarrow> map_of (sort_key fst xs) = map_of xs"
  by (subst map_of_inject_set) (simp_all add: distinct_map inj_on_def)

lemma ledger_read_write:
  "ledger_read (ledger_write d) = Inr (d\<lparr>ld_records := sort_key fst (ld_records d)\<rparr>)"
  by (simp add: ledger_read_def ledger_write_def)

lemma good_records_sort: "good_records digest rs \<Longrightarrow> good_records digest (sort_key fst rs)"
  by (auto simp: good_records_def distinct_map inj_on_def)

lemma good_records_set:
  assumes "good_records digest rs" and "valid_item it"
  shows "good_records digest (dict_set rs (fingerprint digest it) (JObj (serialize_item it st now)))"
  using assms set_dict_set_subset [of "fingerprint digest it" "JObj (serialize_item it st now)" rs]
  unfolding good_records_def good_record_def by (fastforce intro: distinct_keys_dict_set)

lemma json_wf_write:
  "good_records digest (ld_records d) \<Longrightarrow> json_wf digest (ledger_write d)"
  by (simp add: json_wf_def ledger_read_write good_records_sort)

lemma good_record_of:
  assumes "good_records digest rs" and "map_of rs k = Some j"
  obtains it st now where "valid_item it" "fingerprint digest it = k" "j = JObj (serialize_item it st now)"
  using assms by (auto simp: good_records_def good_record_def dest!: map_of_SomeD)

text \<open>Registering, on a well-formed file, by the record of the fingerprint.\<close>

lemma register_cases:
  assumes "ledger_read f = Inr d" and "good_records digest (ld_records d)"
  obtains (new) "map_of (ld_records d) (fingerprint digest it) = None"
      "restore_or_register digest strf it retry now f = (Inr (Some it), ledger_write (d\<lparr>ld_records :=
         dict_set (ld_records d) (fingerprint digest it) (JObj (serialize_item it (wi_state it) now))\<rparr>))"
  | (known) it0 st now0 where "valid_item it0" "fingerprint digest it0 = fingerprint digest it"
      "map_of (ld_records d) (fingerprint digest it) = Some (JObj (serialize_item it0 st now0))"
      "restore_or_register digest strf it retry now f =
         (if st = SUCCEEDED \<or> st = BLOCKED \<and> \<not> retry then (Inr None, f)
          else (let it' = it0\<lparr>wi_state := PENDING, wi_attempts := (if st = BLOCKED then 0 else wi_attempts it0)\<rparr>
            in (Inr (Some it'), ledger_write (d\<lparr>ld_records := dict_set (ld_records d)
               (fingerprint digest it) (JObj (serialize_item it' PENDING now))\<rparr>))))"
proof (cases "map_of (ld_records d) (fingerprint digest it)")
  case None
  with assms(1) show thesis by (intro new) (simp_all add: restore_or_register_def)
next
  case (Some j)
  obtain it0 st now0 where r: "valid_item it0" "fingerprint digest it0 = fingerprint digest it"
      "j = JObj (serialize_item it0 st now0)"
    using good_record_of [OF assms(2) Some] by blast
  have "state_value st = ''SUCCEEDED'' \<longleftrightarrow> st = SUCCEEDED" and "state_value st = ''BLOCKED'' \<longleftrightarrow> st = BLOCKED"
    by (cases st; simp)+
  with assms(1) Some r show thesis
    by (intro known [of it0 st now0])
       (simp_all add: restore_or_register_def restore_serialized Let_def)
qed

lemma ledger_state_for_write:
  assumes "good_records digest (ld_records d)"
  shows "ledger_state_for strf k (ledger_write (d\<lparr>ld_records := dict_set (ld_records d) k' (JObj (serialize_item it st now))\<rparr>)) =
    (if k = k' then Inr (Some (state_value st)) else
      (case map_of (ld_records d) k of None \<Rightarrow> Inr None | Some (JObj r) \<Rightarrow> Inr (Some (py_str strf (dict_get r ''state'' JNull)))
       | Some _ \<Rightarrow> Inl LedgerAttributeError))"
proof -
  have "distinct (map fst (dict_set (ld_records d) k' (JObj (serialize_item it st now))))"
    using assms by (simp add: good_records_def distinct_keys_dict_set)
  from map_of_sort_fst [OF this] show ?thesis by (simp add: ledger_state_for_def ledger_read_write)
qed

lemma ledger_state_for_read:
  "ledger_read f = Inr d \<Longrightarrow> ledger_state_for strf k f =
     (case map_of (ld_records d) k of None \<Rightarrow> Inr None | Some (JObj r) \<Rightarrow> Inr (Some (py_str strf (dict_get r ''state'' JNull)))
       | Some _ \<Rightarrow> Inl LedgerAttributeError)"
  by (simp add: ledger_state_for_def)

lemma json_state_cases:
  assumes "ledger_read f = Inr d" and "good_records digest (ld_records d)"
  shows "(map_of (ld_records d) k = None \<and> ledger_state_for strf k f = Inr None) \<or>
    (\<exists>it st now. map_of (ld_records d) k = Some (JObj (serialize_item it st now)) \<and>
       ledger_state_for strf k f = Inr (Some (state_value st)))"
proof (cases "map_of (ld_records d) k")
  case None
  then show ?thesis by (simp add: ledger_state_for_read [OF assms(1)])
next
  case (Some j)
  obtain it st now where j: "j = JObj (serialize_item it st now)" by (rule good_record_of [OF assms(2) Some])
  then have "ledger_state_for strf k f = Inr (Some (state_value st))"
    by (simp only: ledger_state_for_read [OF assms(1)] Some option.case json.case serialized_fields py_str.simps)
  then show ?thesis using Some j by (intro disjI2 exI conjI) (rule trans, assumption, rule arg_cong, assumption)
qed

lemma json_wf_register:
  assumes "json_wf digest f" and "valid_item it"
  shows "json_wf digest (snd (restore_or_register digest strf it retry now f))"
proof -
  obtain d where d: "ledger_read f = Inr d" "good_records digest (ld_records d)"
    using assms(1) by (auto simp: json_wf_def)
  show ?thesis
  proof (rule register_cases [OF d, where it = it and strf = strf and retry = retry and now = now])
    assume "restore_or_register digest strf it retry now f = (Inr (Some it), ledger_write (d\<lparr>ld_records :=
         dict_set (ld_records d) (fingerprint digest it) (JObj (serialize_item it (wi_state it) now))\<rparr>))"
    then show ?thesis using d(2) assms(2) by (simp add: json_wf_write good_records_set)
  next
    fix it0 st now0
    assume it0: "valid_item it0" "fingerprint digest it0 = fingerprint digest it"
      and r: "restore_or_register digest strf it retry now f =
         (if st = SUCCEEDED \<or> st = BLOCKED \<and> \<not> retry then (Inr None, f)
          else (let it' = it0\<lparr>wi_state := PENDING, wi_attempts := (if st = BLOCKED then 0 else wi_attempts it0)\<rparr>
            in (Inr (Some it'), ledger_write (d\<lparr>ld_records := dict_set (ld_records d)
               (fingerprint digest it) (JObj (serialize_item it' PENDING now))\<rparr>))))"
    let ?it = "it0\<lparr>wi_state := PENDING, wi_attempts := (if st = BLOCKED then 0 else wi_attempts it0)\<rparr>"
    have "good_records digest (dict_set (ld_records d) (fingerprint digest ?it) (JObj (serialize_item ?it PENDING now)))"
      by (rule good_records_set [OF d(2)]) (simp add: it0(1))
    then show ?thesis using assms(1) it0(2) unfolding r by (simp add: Let_def json_wf_write)
  qed
qed

lemma state_value_inject [simp]: "state_value a = state_value b \<longleftrightarrow> a = b"
  by (cases a; cases b) simp_all

lemma json_register_known:
  assumes "ledger_read f = Inr d" and "good_records digest (ld_records d)"
    and "ledger_state_for strf (fingerprint digest it) f = Inr (Some v)"
  obtains it0 st where "valid_item it0" "fingerprint digest it0 = fingerprint digest it" "v = state_value st"
      "restore_or_register digest strf it retry now f =
         (if st = SUCCEEDED \<or> st = BLOCKED \<and> \<not> retry then (Inr None, f)
          else (let it' = it0\<lparr>wi_state := PENDING, wi_attempts := (if st = BLOCKED then 0 else wi_attempts it0)\<rparr>
            in (Inr (Some it'), ledger_write (d\<lparr>ld_records := dict_set (ld_records d)
               (fingerprint digest it) (JObj (serialize_item it' PENDING now))\<rparr>))))"
proof (rule register_cases [OF assms(1,2), where it = it and strf = strf and retry = retry and now = now])
  assume "map_of (ld_records d) (fingerprint digest it) = None"
  with assms(3) show thesis by (simp add: ledger_state_for_read [OF assms(1)])
next
  fix it0 st now0
  assume a: "valid_item it0" "fingerprint digest it0 = fingerprint digest it"
    and m: "map_of (ld_records d) (fingerprint digest it) = Some (JObj (serialize_item it0 st now0))"
    and r: "restore_or_register digest strf it retry now f =
         (if st = SUCCEEDED \<or> st = BLOCKED \<and> \<not> retry then (Inr None, f)
          else (let it' = it0\<lparr>wi_state := PENDING, wi_attempts := (if st = BLOCKED then 0 else wi_attempts it0)\<rparr>
            in (Inr (Some it'), ledger_write (d\<lparr>ld_records := dict_set (ld_records d)
               (fingerprint digest it) (JObj (serialize_item it' PENDING now))\<rparr>))))"
  have "v = state_value st" using assms(3) m by (simp add: ledger_state_for_read [OF assms(1)])
  from that [OF a this r] show thesis .
qed

lemma json_register_state:
  assumes "ledger_read f = Inr d" and "good_records digest (ld_records d)"
  shows "ledger_state_for strf k (ledger_write (d\<lparr>ld_records := dict_set (ld_records d) k' (JObj (serialize_item it st now))\<rparr>)) =
    (if k = k' then Inr (Some (state_value st)) else ledger_state_for strf k f)"
  using ledger_state_for_write [OF assms(2), of strf k k' it st now] ledger_state_for_read [OF assms(1), of strf k] by simp

interpretation json_ledger: upgrade_ledger "restore_or_register digest strf" "ledger_state_for strf"
  "fingerprint digest" "json_wf digest" for digest strf
proof unfold_locales
  fix s it retry now
  assume "json_wf digest s" and "valid_item it"
  then show "json_wf digest (snd (restore_or_register digest strf it retry now s))" by (rule json_wf_register)
next
  fix s it assume "json_wf digest s"
  then obtain d where d: "ledger_read s = Inr d" "good_records digest (ld_records d)" by (auto simp: json_wf_def)
  from json_state_cases [OF d, of "fingerprint digest it" strf]
  show "\<exists>st. ledger_state_for strf (fingerprint digest it) s = Inr st \<and> (\<forall>v. st = Some v \<longrightarrow> v \<in> range state_value)"
    by auto
next
  fix s it retry now
  assume "json_wf digest s" and n: "ledger_state_for strf (fingerprint digest it) s = Inr None"
  then obtain d where d: "ledger_read s = Inr d" "good_records digest (ld_records d)" by (auto simp: json_wf_def)
  have "map_of (ld_records d) (fingerprint digest it) = None"
    using json_state_cases [OF d, of "fingerprint digest it" strf] n by auto
  then have "restore_or_register digest strf it retry now s = (Inr (Some it), ledger_write (d\<lparr>ld_records :=
         dict_set (ld_records d) (fingerprint digest it) (JObj (serialize_item it (wi_state it) now))\<rparr>))"
    using d(1) by (simp add: restore_or_register_def)
  then show "fst (restore_or_register digest strf it retry now s) = Inr (Some it) \<and>
      ledger_state_for strf (fingerprint digest it) (snd (restore_or_register digest strf it retry now s)) =
        Inr (Some (state_value (wi_state it)))"
    by (simp add: json_register_state [OF d])
next
  fix s it v retry now
  assume "json_wf digest s" and k: "ledger_state_for strf (fingerprint digest it) s = Inr (Some v)"
    and v: "v = state_value SUCCEEDED \<or> v = state_value BLOCKED \<and> \<not> retry"
  then obtain d where d: "ledger_read s = Inr d" "good_records digest (ld_records d)" by (auto simp: json_wf_def)
  show "restore_or_register digest strf it retry now s = (Inr None, s)"
    by (rule json_register_known [OF d k, where retry = retry and now = now])
       (use v in \<open>auto simp del: state_value.simps\<close>)
next
  fix s it v retry now
  assume "json_wf digest s" and k: "ledger_state_for strf (fingerprint digest it) s = Inr (Some v)"
    and v: "v \<noteq> state_value SUCCEEDED" "v \<noteq> state_value BLOCKED \<or> retry"
  then obtain d where d: "ledger_read s = Inr d" "good_records digest (ld_records d)" by (auto simp: json_wf_def)
  show "\<exists>it'. fst (restore_or_register digest strf it retry now s) = Inr (Some it') \<and>
      fingerprint digest it' = fingerprint digest it \<and> wi_state it' = PENDING \<and>
      ledger_state_for strf (fingerprint digest it) (snd (restore_or_register digest strf it retry now s)) =
        Inr (Some (state_value PENDING))"
    by (rule json_register_known [OF d k, where retry = retry and now = now])
       (use v in \<open>auto simp: Let_def json_register_state [OF d] simp del: state_value.simps\<close>)
next
  fix s it f retry now
  assume "json_wf digest s" and f: "f \<noteq> fingerprint digest it"
  then obtain d where d: "ledger_read s = Inr d" "good_records digest (ld_records d)" by (auto simp: json_wf_def)
  show "ledger_state_for strf f (snd (restore_or_register digest strf it retry now s)) = ledger_state_for strf f s"
    by (rule register_cases [OF d, where it = it and strf = strf and retry = retry and now = now])
       (use f in \<open>simp_all add: Let_def json_register_state [OF d]\<close>)
qed

subsection \<open>Checkpoint and restart\<close>

lemma checkpoint_records_good:
  "good_records digest rs \<Longrightarrow> \<forall>(i, it) \<in> set items. valid_item it \<Longrightarrow>
     good_records digest (checkpoint_records digest cp now items rs)"
  by (induction digest cp now items rs rule: checkpoint_records.induct) (auto intro: good_records_set)

lemma checkpoint_records_other:
  "k \<notin> (\<lambda>(i, it). fingerprint digest it) ` set items \<Longrightarrow>
     map_of (checkpoint_records digest cp now items rs) k = map_of rs k"
  by (induction digest cp now items rs rule: checkpoint_records.induct) auto

lemma checkpoint_records_get:
  assumes "distinct (map (\<lambda>(i, it). fingerprint digest it) items)" and "(i, it) \<in> set items"
  shows "map_of (checkpoint_records digest cp now items rs) (fingerprint digest it) =
    Some (JObj (serialize_item it (persisted_state cp i it) now))"
  using assms
proof (induction digest cp now items rs rule: checkpoint_records.induct)
  case (2 digest cp now j it' its rs)
  show ?case
  proof (cases "(i, it) = (j, it')")
    case True
    with 2 have "fingerprint digest it \<notin> (\<lambda>(i, it). fingerprint digest it) ` set its" by auto
    with True show ?thesis by (simp add: checkpoint_records_other)
  next
    case False
    with 2 show ?thesis by auto
  qed
qed simp

lemma record_checkpoint_state:
  assumes "json_wf digest f" and "\<forall>(i, it) \<in> set items. valid_item it"
    and "distinct (map (\<lambda>(i, it). fingerprint digest it) items)"
  shows "\<exists>f'. record_checkpoint digest n cp created items now f = (Inr (), f') \<and> json_wf digest f' \<and>
    (\<forall>(i, it) \<in> set items. ledger_state_for strf (fingerprint digest it) f' =
       Inr (Some (state_value (persisted_state cp i it))))"
proof -
  obtain d where d: "ledger_read f = Inr d" "good_records digest (ld_records d)"
    using assms(1) by (auto simp: json_wf_def)
  let ?rs = "checkpoint_records digest cp now items (ld_records d)"
  let ?d = "\<lparr>ld_records = ?rs, ld_checkpoints = last_n n (ld_checkpoints d @ [checkpoint_json cp created])\<rparr>"
  have g: "good_records digest ?rs" using checkpoint_records_good [OF d(2) assms(2)] .
  have "record_checkpoint digest n cp created items now f = (Inr (), ledger_write ?d)"
    by (simp add: record_checkpoint_def d(1))
  moreover have "json_wf digest (ledger_write ?d)" using g by (simp add: json_wf_write)
  moreover have "ledger_state_for strf (fingerprint digest it) (ledger_write ?d) =
      Inr (Some (state_value (persisted_state cp i it)))" if "(i, it) \<in> set items" for i it
  proof -
    have "map_of (sort_key fst ?rs) (fingerprint digest it) = Some (JObj (serialize_item it (persisted_state cp i it) now))"
      using g checkpoint_records_get [OF assms(3) that] by (subst map_of_sort_fst) (auto simp: good_records_def)
    then show ?thesis by (simp add: ledger_state_for_def ledger_read_write)
  qed
  ultimately show ?thesis by blast
qed

text \<open>
  C14: A restart never repeats checkpointed work: after a checkpoint was recorded in a well-formed
  ledger file, registering any list of valid items again, with or without retrying blocked work, hands out no item with
  the content of one the checkpoint lists as completed, and that work stays SUCCEEDED in the file.
\<close>
theorem restart_never_repeats_completed_work:
  assumes "json_wf digest f" and "\<forall>(i, it) \<in> set items. valid_item it"
    and "distinct (map (\<lambda>(i, it). fingerprint digest it) items)"
    and "(i, it) \<in> set items" and "i \<in> set (lc_completed_item_ids cp)" and "\<forall>it \<in> set its. valid_item it"
  shows "\<exists>f'. record_checkpoint digest n cp created items now f = (Inr (), f') \<and>
    ledger_state_for strf (fingerprint digest it) (snd (json_ledger.register_all digest strf retry now' its f')) =
      Inr (Some (state_value SUCCEEDED)) \<and>
    (\<forall>it'. Inr (Some it') \<in> set (fst (json_ledger.register_all digest strf retry now' its f')) \<longrightarrow>
       fingerprint digest it' \<noteq> fingerprint digest it)"
proof -
  obtain f' where f': "record_checkpoint digest n cp created items now f = (Inr (), f')" "json_wf digest f'"
      "\<forall>(i, it) \<in> set items. ledger_state_for strf (fingerprint digest it) f' = Inr (Some (state_value (persisted_state cp i it)))"
    using record_checkpoint_state [OF assms(1-3)] by blast
  have "persisted_state cp i it = SUCCEEDED" using assms(5) by (simp add: persisted_state_def)
  then have "ledger_state_for strf (fingerprint digest it) f' = Inr (Some (state_value SUCCEEDED))"
    using f'(3) assms(4) by auto
  from json_ledger.finished_never_rerun [OF f'(2) assms(6) this] f'(1) show ?thesis by blast
qed

lemma demo_item_valid: "valid_item (demo_item ''a'')"
  by (simp add: valid_item_def work_item_new_def demo_item_def valid_kind_def py_strip_def py_isspace_def)

theorem restart_never_repeats_completed_work_witness:
  "\<exists>f'. record_checkpoint demo_digest 5 \<lparr>lc_iteration = 1, lc_state = LoopRunning, lc_active_item_id = None,
       lc_completed_item_ids = [''a''], lc_blocked_item_ids = [], lc_pending_item_ids = []\<rparr> 0 [(''a'', demo_item ''a'')] 1 NoFile
     = (Inr (), f') \<and>
    (\<forall>it'. Inr (Some it') \<in> set (fst (json_ledger.register_all demo_digest (\<lambda>j. []) True 2 [demo_item ''a''] f')) \<longrightarrow>
       fingerprint demo_digest it' \<noteq> fingerprint demo_digest (demo_item ''a''))"
proof -
  have "json_wf demo_digest NoFile" by (simp add: json_wf_def ledger_read_def good_records_def)
  moreover have "\<forall>(i, it) \<in> set [(''a'', demo_item ''a'')]. valid_item it" using demo_item_valid by simp
  moreover have "distinct (map (\<lambda>(i, it). fingerprint demo_digest it) [(''a'', demo_item ''a'')])" by simp
  moreover have "(''a'', demo_item ''a'') \<in> set [(''a'', demo_item ''a'')]" by simp
  moreover have "''a'' \<in> set (lc_completed_item_ids \<lparr>lc_iteration = 1, lc_state = LoopRunning, lc_active_item_id = None,
       lc_completed_item_ids = [''a''], lc_blocked_item_ids = [], lc_pending_item_ids = []\<rparr>)" by simp
  moreover have "\<forall>it \<in> set [demo_item ''a'']. valid_item it" using demo_item_valid by simp
  ultimately show ?thesis using restart_never_repeats_completed_work by blast
qed

text \<open>
  Interrupted work resumes: whatever is registered in a well-formed ledger as anything but
  finished or blocked is handed out again with the same content and in state PENDING, and the file says so.
\<close>
theorem interrupted_work_resumes:
  assumes "json_wf digest f" and "valid_item it" and "ledger_state_for strf (fingerprint digest it) f = Inr (Some v)"
    and "v \<noteq> ''SUCCEEDED''" and "v \<noteq> ''BLOCKED''"
  shows "\<exists>it'. fst (restore_or_register digest strf it retry now f) = Inr (Some it') \<and>
    fingerprint digest it' = fingerprint digest it \<and> wi_state it' = PENDING \<and>
    ledger_state_for strf (fingerprint digest it) (snd (restore_or_register digest strf it retry now f)) = Inr (Some ''PENDING'')"
  using json_ledger.register_resume [OF assms(1-3), of retry now] assms(4,5) by simp

theorem interrupted_work_resumes_witness:
  "\<exists>it'. fst (restore_or_register demo_digest (\<lambda>j. []) (demo_item ''a'') False 2
      (snd (restore_or_register demo_digest (\<lambda>j. []) (demo_item ''a'') False 1 NoFile))) = Inr (Some it') \<and> wi_state it' = PENDING"
proof -
  have wf: "json_wf demo_digest NoFile" by (simp add: json_wf_def ledger_read_def good_records_def)
  have s: "ledger_state_for (\<lambda>j. []) (fingerprint demo_digest (demo_item ''a'')) NoFile = Inr None"
    by (simp add: ledger_state_for_def ledger_read_def)
  have "ledger_state_for (\<lambda>j. []) (fingerprint demo_digest (demo_item ''a''))
      (snd (restore_or_register demo_digest (\<lambda>j. []) (demo_item ''a'') False 1 NoFile)) = Inr (Some ''PENDING'')"
    using json_ledger.register_new [OF wf demo_item_valid s, of False 1] by (simp add: demo_item_def)
  from interrupted_work_resumes [OF json_ledger.wf_register [OF wf demo_item_valid, of "\<lambda>j. []" False 1] demo_item_valid this, of False 2]
  show ?thesis by auto
qed

end
