(* ===== verification/EngineeringStore.thy ===== *)
theory EngineeringStore
  imports Prelude
begin

text \<open>
  Durable storage of engineering tasks: the entities of \<open>src/zcoder/domain/models/engineering.py\<close>, the
  interface of \<open>src/zcoder/domain/interfaces/engineering_store.py\<close> as the locale \<open>engineering_store\<close>, and its two
  implementations, \<open>src/zcoder/infrastructure/stores/sqlite_engineering.py\<close> and
  \<open>postgres_engineering.py\<close>, which interpret it. A task's status is a \<open>TaskStatus\<close>; metadata and snapshots are
  JSON objects, so the \<open>json.dumps\<close> and \<open>json.loads\<close> around the columns are the identity. Each operation is one transaction.
\<close>

subsection \<open>Entities\<close>

datatype task_status =
    TaskCreated | TaskRunning | TaskWaitingApproval | TaskSucceeded | TaskFailed | TaskCancelled | TaskPaused

record engineering_task =
  et_id :: string
  et_task_description :: string
  et_status :: task_status
  et_created_at :: real
  et_updated_at :: real
  et_metadata :: jobj

record attempt =
  at_id :: string
  at_task_id :: string
  at_generation :: int
  at_status :: string
  at_started_at :: real
  at_completed_at :: "real option"

record checkpoint =
  ck_id :: string
  ck_task_id :: string
  ck_attempt_id :: string
  ck_sequence :: int
  ck_phase :: string
  ck_state_snapshot :: jobj
  ck_timestamp :: real

subsection \<open>The interface\<close>

text \<open>
  What a client may rely on: a saved task is read back (the store may keep the creation time of a record it already
  has), other tasks are untouched, a claim hands out a task that was created or running and marks it running, no
  claim fails while a created task waits, and a listing is the set of the stored tasks.
\<close>

locale engineering_store =
  fixes get_task :: "'s \<Rightarrow> string \<Rightarrow> engineering_task option"
    and save_task :: "real \<Rightarrow> engineering_task \<Rightarrow> 's \<Rightarrow> 's"
    and claim_task :: "real \<Rightarrow> 's \<Rightarrow> engineering_task option \<times> 's"
    and list_tasks :: "'s \<Rightarrow> task_status option \<Rightarrow> engineering_task list"
    and invar :: "'s \<Rightarrow> bool"
  assumes invar_save: "invar s \<Longrightarrow> invar (save_task now t s)"
    and invar_claim: "invar s \<Longrightarrow> invar (snd (claim_task now s))"
    and get_id: "invar s \<Longrightarrow> get_task s i = Some t \<Longrightarrow> et_id t = i"
    and get_save: "invar s \<Longrightarrow> \<exists>c. get_task (save_task now t s) (et_id t) =
         Some (t\<lparr>et_updated_at := now, et_created_at := c\<rparr>)"
    and get_save_other: "invar s \<Longrightarrow> i \<noteq> et_id t \<Longrightarrow> get_task (save_task now t s) i = get_task s i"
    and claim_None: "invar s \<Longrightarrow> claim_task now s = (None, s') \<Longrightarrow>
         s' = s \<and> (\<forall>i t. get_task s i = Some t \<longrightarrow> et_status t \<noteq> TaskCreated)"
    and claim_Some: "invar s \<Longrightarrow> claim_task now s = (Some t, s') \<Longrightarrow>
         et_status t = TaskRunning \<and> (\<exists>t0. get_task s (et_id t) = Some t0 \<and>
           et_status t0 \<in> {TaskCreated, TaskRunning} \<and> et_metadata t = et_metadata t0 \<and>
           get_task s' (et_id t) = Some (t0\<lparr>et_status := TaskRunning, et_updated_at := now\<rparr>))"
    and claim_other: "invar s \<Longrightarrow> claim_task now s = (Some t, s') \<Longrightarrow> i \<noteq> et_id t \<Longrightarrow>
         get_task s' i = get_task s i"
    and set_list: "invar s \<Longrightarrow> set (list_tasks s None) = {t. \<exists>i. get_task s i = Some t}"
    and distinct_list: "invar s \<Longrightarrow> distinct (map et_id (list_tasks s None))"
    and list_status: "invar s \<Longrightarrow> list_tasks s (Some st) = filter (\<lambda>t. et_status t = st) (list_tasks s None)"
begin

text \<open>A run of claims at given clock readings.\<close>

fun claims :: "real list \<Rightarrow> 's \<Rightarrow> engineering_task option list \<times> 's" where
  "claims [] s = ([], s)"
| "claims (now # nows) s = (case claim_task now s of (r, s1) \<Rightarrow>
     (case claims nows s1 of (rs, s2) \<Rightarrow> (r # rs, s2)))"

lemma invar_claims: "invar s \<Longrightarrow> invar (snd (claims nows s))"
proof (induction nows arbitrary: s)
  case (Cons now nows)
  then show ?case using invar_claim [of s now] by (auto split: prod.splits) (metis snd_conv)
qed simp

text \<open>A task that is neither created nor running is out of reach of any number of claims.\<close>

lemma parked_task_survives_claims:
  assumes "invar s" and "get_task s i = Some t" and "et_status t \<notin> {TaskCreated, TaskRunning}"
  shows "get_task (snd (claims nows s)) i = Some t \<and> (\<forall>t'. Some t' \<in> set (fst (claims nows s)) \<longrightarrow> et_id t' \<noteq> i)"
  using assms
proof (induction nows arbitrary: s)
  case (Cons now nows)
  obtain r s1 where c: "claim_task now s = (r, s1)" by (cases "claim_task now s")
  have i: "invar s1" using invar_claim [OF Cons.prems(1), of now] c by simp
  have other: "et_id t' \<noteq> i" if "r = Some t'" for t'
    using claim_Some [OF Cons.prems(1), of now t' s1] c that Cons.prems(2,3) by auto
  have "get_task s1 i = Some t"
  proof (cases r)
    case None
    with claim_None [OF Cons.prems(1), of now s1] c Cons.prems(2) show ?thesis by simp
  next
    case (Some t')
    with claim_other [OF Cons.prems(1), of now t' s1 i] c other Cons.prems(2) show ?thesis by metis
  qed
  from Cons.IH [OF i this Cons.prems(3)] other c show ?case by (auto split: prod.splits)
qed simp

lemma claims_create_nothing:
  assumes "invar s" and "get_task s i = None"
  shows "get_task (snd (claims nows s)) i = None"
  using assms
proof (induction nows arbitrary: s)
  case (Cons now nows)
  obtain r s1 where c: "claim_task now s = (r, s1)" by (cases "claim_task now s")
  have i: "invar s1" using invar_claim [OF Cons.prems(1), of now] c by simp
  have "get_task s1 i = None"
  proof (cases r)
    case None
    with claim_None [OF Cons.prems(1), of now s1] c Cons.prems(2) show ?thesis by simp
  next
    case (Some t')
    with claim_Some [OF Cons.prems(1), of now t' s1] c Cons.prems(2) have "i \<noteq> et_id t'" by auto
    with Some claim_other [OF Cons.prems(1), of now t' s1 i] c Cons.prems(2) show ?thesis by simp
  qed
  from Cons.IH [OF i this] c show ?case by (auto split: prod.splits)
qed simp

text \<open>A task saved as created is listed as created, and some claim of the store then succeeds.\<close>

lemma saved_task_listed:
  assumes "invar s"
  shows "\<exists>t' \<in> set (list_tasks (save_task now t s) (Some (et_status t))). et_id t' = et_id t \<and> et_metadata t' = et_metadata t"
proof -
  obtain c where "get_task (save_task now t s) (et_id t) = Some (t\<lparr>et_updated_at := now, et_created_at := c\<rparr>)"
    using get_save [OF assms] by blast
  then show ?thesis using list_status [OF invar_save [OF assms]] set_list [OF invar_save [OF assms]]
    by (intro bexI [of _ "t\<lparr>et_updated_at := now, et_created_at := c\<rparr>"]) auto
qed

lemma claim_succeeds_after_save:
  assumes "invar s" and "et_status t = TaskCreated"
  shows "fst (claim_task now' (save_task now t s)) \<noteq> None"
proof
  assume "fst (claim_task now' (save_task now t s)) = None"
  then have "claim_task now' (save_task now t s) = (None, snd (claim_task now' (save_task now t s)))"
    by (metis prod.collapse)
  from claim_None [OF invar_save [OF assms(1)] this] get_save [OF assms(1), of now t] assms(2) show False
    by fastforce
qed

end

subsection \<open>SQLite\<close>

record task_row =
  tr_id :: string
  tr_task_description :: string
  tr_status :: task_status
  tr_created_at :: real
  tr_updated_at :: real
  tr_metadata :: jobj
  tr_claimed_by :: "string option"
  tr_claim_generation :: int
  tr_lease_expires_at :: real

record sqlite_db =
  sq_tasks :: "task_row list"
  sq_attempts :: "attempt list"
  sq_checkpoints :: "checkpoint list"

definition sq_empty :: sqlite_db where
  "sq_empty = \<lparr>sq_tasks = [], sq_attempts = [], sq_checkpoints = []\<rparr>"

definition row_task :: "task_row \<Rightarrow> engineering_task" where
  "row_task r = \<lparr>et_id = tr_id r, et_task_description = tr_task_description r, et_status = tr_status r,
     et_created_at = tr_created_at r, et_updated_at = tr_updated_at r, et_metadata = tr_metadata r\<rparr>"

text \<open>
  The \<open>WHERE\<close> clause as it is concatenated: \<open>AND id = ?\<close> is appended to an unparenthesised
  \<open>status = 'CREATED' OR (...)\<close>, and \<open>AND\<close> binds tighter than \<open>OR\<close>.
\<close>

definition sq_claimable :: "real \<Rightarrow> string option \<Rightarrow> task_row \<Rightarrow> bool" where
  "sq_claimable now task_id r \<longleftrightarrow> tr_status r = TaskCreated \<or>
     (tr_status r = TaskRunning \<and> tr_lease_expires_at r < now) \<and>
     (case task_id of None \<Rightarrow> True | Some i \<Rightarrow> tr_id r = i)"

text \<open>The \<open>SET\<close> and the \<open>WHERE\<close> clause of the claiming \<open>UPDATE\<close>: a compare-and-set on the generation that was read.\<close>

definition sq_mark_claimed :: "string \<Rightarrow> real \<Rightarrow> real \<Rightarrow> int \<Rightarrow> task_row \<Rightarrow> task_row" where
  "sq_mark_claimed claimed_by lease_seconds now generation r = r\<lparr>tr_status := TaskRunning,
     tr_updated_at := now, tr_claimed_by := Some claimed_by, tr_claim_generation := generation + 1,
     tr_lease_expires_at := now + lease_seconds\<rparr>"

definition sq_same_claim :: "task_row \<Rightarrow> task_row \<Rightarrow> bool" where
  "sq_same_claim r r' \<longleftrightarrow> tr_id r' = tr_id r \<and> tr_claim_generation r' = tr_claim_generation r"

definition sq_claim_task ::
  "string option \<Rightarrow> string \<Rightarrow> real \<Rightarrow> real \<Rightarrow> sqlite_db \<Rightarrow> engineering_task option \<times> sqlite_db" where
  "sq_claim_task task_id claimed_by lease_seconds now db =
     (case sql_first_by tr_created_at (filter (sq_claimable now task_id) (sq_tasks db)) of
        None \<Rightarrow> (None, db)
      | Some r \<Rightarrow>
         (let db' = db\<lparr>sq_tasks := sql_update (sq_same_claim r)
                (sq_mark_claimed claimed_by lease_seconds now (tr_claim_generation r)) (sq_tasks db)\<rparr>
          in if sql_count (sq_same_claim r) (sq_tasks db) \<noteq> 1 then (None, db')
             else (Some (row_task (r\<lparr>tr_status := TaskRunning, tr_updated_at := now\<rparr>)), db')))"

definition sq_save_task :: "real \<Rightarrow> engineering_task \<Rightarrow> sqlite_db \<Rightarrow> sqlite_db" where
  "sq_save_task now t db = db\<lparr>sq_tasks := sql_replace tr_id
     \<lparr>tr_id = et_id t, tr_task_description = et_task_description t, tr_status = et_status t,
      tr_created_at = et_created_at t, tr_updated_at = now, tr_metadata = et_metadata t,
      tr_claimed_by = None, tr_claim_generation = 0, tr_lease_expires_at = 0\<rparr> (sq_tasks db)\<rparr>"

definition sq_get_task :: "sqlite_db \<Rightarrow> string \<Rightarrow> engineering_task option" where
  "sq_get_task db i = map_option row_task (sql_get tr_id i (sq_tasks db))"

definition sq_list_tasks :: "sqlite_db \<Rightarrow> task_status option \<Rightarrow> engineering_task list" where
  "sq_list_tasks db status = map row_task (sort_key (\<lambda>r. - tr_created_at r)
     (case status of None \<Rightarrow> sq_tasks db | Some st \<Rightarrow> filter (\<lambda>r. tr_status r = st) (sq_tasks db)))"

definition sq_create_attempt :: "attempt \<Rightarrow> sqlite_db \<Rightarrow> db_error + sqlite_db" where
  "sq_create_attempt a db = (if sql_get at_id (at_id a) (sq_attempts db) \<noteq> None
     then Inl (IntegrityError ''attempts.id'') else Inr (db\<lparr>sq_attempts := sq_attempts db @ [a]\<rparr>))"

definition sq_save_checkpoint :: "checkpoint \<Rightarrow> sqlite_db \<Rightarrow> db_error + sqlite_db" where
  "sq_save_checkpoint c db = (if sql_get ck_id (ck_id c) (sq_checkpoints db) \<noteq> None
     then Inl (IntegrityError ''checkpoints.id'') else Inr (db\<lparr>sq_checkpoints := sq_checkpoints db @ [c]\<rparr>))"

definition sq_get_latest_checkpoint :: "sqlite_db \<Rightarrow> string \<Rightarrow> checkpoint option" where
  "sq_get_latest_checkpoint db att =
     sql_first_by (\<lambda>c. - ck_sequence c) (filter (\<lambda>c. ck_attempt_id c = att) (sq_checkpoints db))"

subsection \<open>PostgreSQL\<close>

text \<open>
  Without leases: the claim takes the oldest created row. \<open>FOR UPDATE SKIP LOCKED\<close> in one transaction is
  the atomicity of the step. The \<open>INSERT\<close>s answer a conflict with \<open>DO UPDATE\<close> or \<open>DO NOTHING\<close>, and the foreign
  keys of attempts and checkpoints are checked on a row that is really inserted.
\<close>

record pg_db =
  pg_tasks :: "engineering_task list"
  pg_attempts :: "attempt list"
  pg_checkpoints :: "checkpoint list"

definition pg_empty :: pg_db where
  "pg_empty = \<lparr>pg_tasks = [], pg_attempts = [], pg_checkpoints = []\<rparr>"

definition pg_claim_task :: "real \<Rightarrow> pg_db \<Rightarrow> engineering_task option \<times> pg_db" where
  "pg_claim_task now db =
     (case sql_first_by et_created_at (filter (\<lambda>t. et_status t = TaskCreated) (pg_tasks db)) of
        None \<Rightarrow> (None, db)
      | Some t \<Rightarrow> (Some (t\<lparr>et_status := TaskRunning\<rparr>),
          db\<lparr>pg_tasks := sql_update (\<lambda>t'. et_id t' = et_id t)
            (\<lambda>t'. t'\<lparr>et_status := TaskRunning, et_updated_at := now\<rparr>) (pg_tasks db)\<rparr>))"

definition pg_save_task :: "real \<Rightarrow> engineering_task \<Rightarrow> pg_db \<Rightarrow> pg_db" where
  "pg_save_task now t db =
     (if sql_get et_id (et_id t) (pg_tasks db) = None
      then db\<lparr>pg_tasks := pg_tasks db @ [t\<lparr>et_updated_at := now\<rparr>]\<rparr>
      else db\<lparr>pg_tasks := sql_update (\<lambda>t'. et_id t' = et_id t)
        (\<lambda>t'. t'\<lparr>et_task_description := et_task_description t, et_status := et_status t,
           et_updated_at := now, et_metadata := et_metadata t\<rparr>) (pg_tasks db)\<rparr>)"

definition pg_get_task :: "pg_db \<Rightarrow> string \<Rightarrow> engineering_task option" where
  "pg_get_task db i = sql_get et_id i (pg_tasks db)"

definition pg_list_tasks :: "pg_db \<Rightarrow> task_status option \<Rightarrow> engineering_task list" where
  "pg_list_tasks db status = sort_key (\<lambda>t. - et_created_at t)
     (case status of None \<Rightarrow> pg_tasks db | Some st \<Rightarrow> filter (\<lambda>t. et_status t = st) (pg_tasks db))"

definition pg_create_attempt :: "attempt \<Rightarrow> pg_db \<Rightarrow> db_error + pg_db" where
  "pg_create_attempt a db =
     (if sql_get at_id (at_id a) (pg_attempts db) \<noteq> None then Inr db
      else if sql_get et_id (at_task_id a) (pg_tasks db) = None then Inl (IntegrityError ''task_id'')
      else Inr (db\<lparr>pg_attempts := pg_attempts db @ [a]\<rparr>))"

definition pg_save_checkpoint :: "checkpoint \<Rightarrow> pg_db \<Rightarrow> db_error + pg_db" where
  "pg_save_checkpoint c db =
     (if sql_get ck_id (ck_id c) (pg_checkpoints db) \<noteq> None then Inr db
      else if sql_get et_id (ck_task_id c) (pg_tasks db) = None then Inl (IntegrityError ''task_id'')
      else if sql_get at_id (ck_attempt_id c) (pg_attempts db) = None then Inl (IntegrityError ''attempt_id'')
      else Inr (db\<lparr>pg_checkpoints := pg_checkpoints db @ [c]\<rparr>))"

definition pg_get_latest_checkpoint :: "pg_db \<Rightarrow> string \<Rightarrow> checkpoint option" where
  "pg_get_latest_checkpoint db att =
     sql_first_by (\<lambda>c. - ck_sequence c) (filter (\<lambda>c. ck_attempt_id c = att) (pg_checkpoints db))"

subsection \<open>The stores meet the interface\<close>

definition sq_invar :: "sqlite_db \<Rightarrow> bool" where
  "sq_invar db \<longleftrightarrow> unique_key tr_id (sq_tasks db)"

definition pg_invar :: "pg_db \<Rightarrow> bool" where
  "pg_invar db \<longleftrightarrow> unique_key et_id (pg_tasks db)"

lemma row_task_simps [simp]:
  "et_id (row_task r) = tr_id r" "et_status (row_task r) = tr_status r" "et_metadata (row_task r) = tr_metadata r"
  by (simp_all add: row_task_def)

lemma sq_mark_claimed_id [simp]: "tr_id (sq_mark_claimed who lease now g r) = tr_id r"
  by (simp add: sq_mark_claimed_def)

lemma sq_claim_selected:
  assumes "sq_invar db" and "sql_first_by tr_created_at (filter (sq_claimable now tid) (sq_tasks db)) = Some r"
  shows "r \<in> set (sq_tasks db)" and "sq_claimable now tid r"
    and "sq_claim_task tid who lease now db = (Some (row_task (r\<lparr>tr_status := TaskRunning, tr_updated_at := now\<rparr>)),
      db\<lparr>sq_tasks := sql_update (sq_same_claim r) (sq_mark_claimed who lease now (tr_claim_generation r)) (sq_tasks db)\<rparr>)"
proof -
  show r: "r \<in> set (sq_tasks db)" and "sq_claimable now tid r" using sql_first_by_SomeD(1) [OF assms(2)] by auto
  have "sql_count (sq_same_claim r) (sq_tasks db) = 1"
    using assms(1) r by (intro sql_count_key [of tr_id _ r]) (auto simp: sq_invar_def sq_same_claim_def)
  then show "sq_claim_task tid who lease now db = (Some (row_task (r\<lparr>tr_status := TaskRunning, tr_updated_at := now\<rparr>)),
      db\<lparr>sq_tasks := sql_update (sq_same_claim r) (sq_mark_claimed who lease now (tr_claim_generation r)) (sq_tasks db)\<rparr>)"
    using assms(2) by (simp add: sq_claim_task_def)
qed

lemma sq_claim_None_iff:
  assumes "sq_invar db"
  shows "fst (sq_claim_task tid who lease now db) = None \<longleftrightarrow> (\<forall>r \<in> set (sq_tasks db). \<not> sq_claimable now tid r)"
proof (cases "sql_first_by tr_created_at (filter (sq_claimable now tid) (sq_tasks db))")
  case None
  then show ?thesis by (auto simp: sq_claim_task_def filter_empty_conv)
next
  case (Some r)
  from sq_claim_selected [OF assms this] show ?thesis by auto
qed

lemma sq_claim_None_unchanged:
  assumes "sq_invar db" and "sq_claim_task tid who lease now db = (None, db')"
  shows "db' = db"
proof -
  have "filter (sq_claimable now tid) (sq_tasks db) = []"
    using sq_claim_None_iff [OF assms(1), of tid who lease now] assms(2) by (auto simp: filter_empty_conv)
  then show ?thesis using assms(2) by (simp add: sq_claim_task_def)
qed

text \<open>What a successful claim did to the table.\<close>

lemma sq_claim_get:
  assumes "sq_invar db" and "sq_claim_task tid who lease now db = (Some t, db')"
  obtains r where "sql_get tr_id (et_id t) (sq_tasks db) = Some r" "sq_claimable now tid r" "tr_id r = et_id t"
    "t = row_task (r\<lparr>tr_status := TaskRunning, tr_updated_at := now\<rparr>)"
    "\<And>i. sql_get tr_id i (sq_tasks db') = (if i = et_id t
        then Some (sq_mark_claimed who lease now (tr_claim_generation r) r) else sql_get tr_id i (sq_tasks db))"
proof (cases "sql_first_by tr_created_at (filter (sq_claimable now tid) (sq_tasks db))")
  case None
  with assms(2) show thesis by (simp add: sq_claim_task_def)
next
  case (Some r)
  note s = sq_claim_selected [OF assms(1) Some]
  have t: "t = row_task (r\<lparr>tr_status := TaskRunning, tr_updated_at := now\<rparr>)"
    and db': "db' = db\<lparr>sq_tasks := sql_update (sq_same_claim r)
      (sq_mark_claimed who lease now (tr_claim_generation r)) (sq_tasks db)\<rparr>"
    using s(3) [of who lease] assms(2) by auto
  have i: "tr_id r = et_id t" by (simp add: t)
  have g: "sql_get tr_id (et_id t) (sq_tasks db) = Some r"
    using assms(1) s(1) i sql_get_SomeI [of tr_id "sq_tasks db" r] by (simp add: sq_invar_def)
  have "sql_get tr_id k (sq_tasks db') = (if k = et_id t
        then Some (sq_mark_claimed who lease now (tr_claim_generation r) r) else sql_get tr_id k (sq_tasks db))" for k
  proof (cases "k = et_id t")
    case True
    then show ?thesis by (simp add: db' sql_get_update g sq_same_claim_def)
  next
    case False
    then show ?thesis using i
      by (cases "sql_get tr_id k (sq_tasks db)") (auto simp: db' sql_get_update sq_same_claim_def dest: sql_get_SomeD)
  qed
  with g s(2) i t show thesis by (intro that)
qed

lemma sq_invar_save: "sq_invar db \<Longrightarrow> sq_invar (sq_save_task now t db)"
  by (simp add: sq_invar_def sq_save_task_def unique_key_sql_replace)

lemma sq_invar_claim: "sq_invar db \<Longrightarrow> sq_invar (snd (sq_claim_task tid who lease now db))"
  by (simp add: sq_invar_def sq_claim_task_def Let_def unique_key_sql_update split: option.split)

lemma sq_engineering_store:
  "engineering_store sq_get_task sq_save_task (sq_claim_task None who lease) sq_list_tasks sq_invar"
proof unfold_locales
  fix s s' :: sqlite_db and now :: real and t :: engineering_task and i st
  assume inv: "sq_invar s"
  show "sq_invar (sq_save_task now t s)" by (rule sq_invar_save [OF inv])
  show "sq_invar (snd (sq_claim_task None who lease now s))" by (rule sq_invar_claim [OF inv])
  show "sq_get_task s i = Some t \<Longrightarrow> et_id t = i" by (auto simp: sq_get_task_def dest: sql_get_SomeD)
  show "\<exists>c. sq_get_task (sq_save_task now t s) (et_id t) = Some (t\<lparr>et_updated_at := now, et_created_at := c\<rparr>)"
    by (intro exI [of _ "et_created_at t"]) (simp add: sq_get_task_def sq_save_task_def sql_get_replace row_task_def)
  show "i \<noteq> et_id t \<Longrightarrow> sq_get_task (sq_save_task now t s) i = sq_get_task s i"
    by (simp add: sq_get_task_def sq_save_task_def sql_get_replace)
  show "set (sq_list_tasks s None) = {t. \<exists>i. sq_get_task s i = Some t}"
    using inv sql_get_SomeI [of tr_id "sq_tasks s"]
    by (fastforce simp: sq_list_tasks_def sq_get_task_def sq_invar_def dest: sql_get_SomeD)
  show "distinct (map et_id (sq_list_tasks s None))"
    using inv by (simp add: sq_list_tasks_def sq_invar_def unique_key_def comp_def distinct_map inj_on_def)
  show "sq_list_tasks s (Some st) = filter (\<lambda>t. et_status t = st) (sq_list_tasks s None)"
    by (simp add: sq_list_tasks_def filter_sort filter_map comp_def)
next
  fix s s' :: sqlite_db and now :: real
  assume inv: "sq_invar s" and c: "sq_claim_task None who lease now s = (None, s')"
  have "\<forall>r \<in> set (sq_tasks s). \<not> sq_claimable now None r"
    using sq_claim_None_iff [OF inv] c by (metis fst_conv)
  then show "s' = s \<and> (\<forall>i t. sq_get_task s i = Some t \<longrightarrow> et_status t \<noteq> TaskCreated)"
    using sq_claim_None_unchanged [OF inv c]
    by (auto simp: sq_get_task_def sq_claimable_def dest!: sql_get_SomeD)
next
  fix s s' :: sqlite_db and now :: real and t :: engineering_task and i
  assume inv: "sq_invar s" and c: "sq_claim_task None who lease now s = (Some t, s')"
  obtain r where r: "sql_get tr_id (et_id t) (sq_tasks s) = Some r" "sq_claimable now None r"
    "t = row_task (r\<lparr>tr_status := TaskRunning, tr_updated_at := now\<rparr>)"
    "\<And>i. sql_get tr_id i (sq_tasks s') = (if i = et_id t
        then Some (sq_mark_claimed who lease now (tr_claim_generation r) r) else sql_get tr_id i (sq_tasks s))"
    using sq_claim_get [OF inv c] by metis
  have "sq_get_task s' (et_id t) = Some ((row_task r)\<lparr>et_status := TaskRunning, et_updated_at := now\<rparr>)"
    by (simp add: sq_get_task_def r(4) row_task_def sq_mark_claimed_def)
  moreover have "sq_get_task s (et_id t) = Some (row_task r)" by (simp add: sq_get_task_def r(1))
  moreover have "et_status (row_task r) \<in> {TaskCreated, TaskRunning}" using r(2) by (auto simp: sq_claimable_def)
  moreover have "et_status t = TaskRunning \<and> et_metadata t = et_metadata (row_task r)" unfolding r(3) by simp
  ultimately show "et_status t = TaskRunning \<and> (\<exists>t0. sq_get_task s (et_id t) = Some t0 \<and>
      et_status t0 \<in> {TaskCreated, TaskRunning} \<and> et_metadata t = et_metadata t0 \<and>
      sq_get_task s' (et_id t) = Some (t0\<lparr>et_status := TaskRunning, et_updated_at := now\<rparr>))"
    by blast
  show "i \<noteq> et_id t \<Longrightarrow> sq_get_task s' i = sq_get_task s i"
    by (simp add: sq_get_task_def r(4))
qed

interpretation sqlite: engineering_store sq_get_task sq_save_task "sq_claim_task None ''default-worker'' 60"
  sq_list_tasks sq_invar
  by (rule sq_engineering_store)

lemma pg_claim_cases:
  assumes "pg_invar db" and "pg_claim_task now db = (res, db')"
  obtains (none) "res = None" "db' = db" "\<forall>t \<in> set (pg_tasks db). et_status t \<noteq> TaskCreated"
  | (claimed) t where "t \<in> set (pg_tasks db)" "et_status t = TaskCreated" "res = Some (t\<lparr>et_status := TaskRunning\<rparr>)"
      "\<And>i. sql_get et_id i (pg_tasks db') = (if i = et_id t
         then Some (t\<lparr>et_status := TaskRunning, et_updated_at := now\<rparr>) else sql_get et_id i (pg_tasks db))"
proof (cases "sql_first_by et_created_at (filter (\<lambda>t. et_status t = TaskCreated) (pg_tasks db))")
  case None
  then have "filter (\<lambda>t. et_status t = TaskCreated) (pg_tasks db) = []" by simp
  then have "\<forall>t \<in> set (pg_tasks db). et_status t \<noteq> TaskCreated" unfolding filter_empty_conv by blast
  with None assms(2) show thesis by (intro none) (auto simp: pg_claim_task_def)
next
  case (Some t)
  have t: "t \<in> set (pg_tasks db)" "et_status t = TaskCreated" using sql_first_by_SomeD(1) [OF Some] by auto
  have g: "sql_get et_id (et_id t) (pg_tasks db) = Some t"
    using assms(1) t(1) by (intro sql_get_SomeI) (simp_all add: pg_invar_def)
  have r: "res = Some (t\<lparr>et_status := TaskRunning\<rparr>)"
    and db': "db' = db\<lparr>pg_tasks := sql_update (\<lambda>t'. et_id t' = et_id t)
        (\<lambda>t'. t'\<lparr>et_status := TaskRunning, et_updated_at := now\<rparr>) (pg_tasks db)\<rparr>"
    using Some assms(2) by (auto simp: pg_claim_task_def)
  have "sql_get et_id i (pg_tasks db') = (if i = et_id t
         then Some (t\<lparr>et_status := TaskRunning, et_updated_at := now\<rparr>) else sql_get et_id i (pg_tasks db))" for i
  proof (cases "i = et_id t")
    case True
    then show ?thesis by (simp add: db' sql_get_update g)
  next
    case False
    then show ?thesis by (cases "sql_get et_id i (pg_tasks db)") (auto simp: db' sql_get_update dest: sql_get_SomeD)
  qed
  with t r show thesis by (intro claimed)
qed

lemma pg_invar_claim: "pg_invar db \<Longrightarrow> pg_invar (snd (pg_claim_task now db))"
  by (simp add: pg_invar_def pg_claim_task_def unique_key_sql_update split: option.split)

lemma pg_invar_save: "pg_invar db \<Longrightarrow> pg_invar (pg_save_task now t db)"
  by (auto simp: pg_invar_def pg_save_task_def unique_key_sql_update table_simps)
     (simp add: unique_key_def)

lemma pg_get_save:
  "sql_get et_id i (pg_tasks (pg_save_task now t db)) = (if i = et_id t
     then Some (t\<lparr>et_updated_at := now, et_created_at :=
        (case sql_get et_id i (pg_tasks db) of None \<Rightarrow> et_created_at t | Some t0 \<Rightarrow> et_created_at t0)\<rparr>)
     else sql_get et_id i (pg_tasks db))"
proof (cases "sql_get et_id (et_id t) (pg_tasks db)")
  case None
  have "sql_get et_id i [t\<lparr>et_updated_at := now\<rparr>] = (if i = et_id t then Some (t\<lparr>et_updated_at := now\<rparr>) else None)"
    by (simp add: sql_get_def)
  with None show ?thesis by (auto simp: pg_save_task_def sql_get_append split: option.splits)
next
  case (Some t0)
  then have "et_id t0 = et_id t" by (auto dest: sql_get_SomeD)
  with Some show ?thesis
    by (cases "sql_get et_id i (pg_tasks db)")
       (auto simp: pg_save_task_def sql_get_update dest: sql_get_SomeD)
qed

interpretation pg: engineering_store pg_get_task pg_save_task pg_claim_task pg_list_tasks pg_invar
proof unfold_locales
  fix s s' :: pg_db and now :: real and t :: engineering_task and i st
  assume inv: "pg_invar s"
  show "pg_invar (pg_save_task now t s)" by (rule pg_invar_save [OF inv])
  show "pg_invar (snd (pg_claim_task now s))" by (rule pg_invar_claim [OF inv])
  show "pg_get_task s i = Some t \<Longrightarrow> et_id t = i" by (auto simp: pg_get_task_def dest: sql_get_SomeD)
  show "\<exists>c. pg_get_task (pg_save_task now t s) (et_id t) = Some (t\<lparr>et_updated_at := now, et_created_at := c\<rparr>)"
    by (simp add: pg_get_task_def pg_get_save) (rule exI, rule refl)
  show "i \<noteq> et_id t \<Longrightarrow> pg_get_task (pg_save_task now t s) i = pg_get_task s i"
    by (simp add: pg_get_task_def pg_get_save)
  show "set (pg_list_tasks s None) = {t. \<exists>i. pg_get_task s i = Some t}"
    using inv sql_get_SomeI [of et_id "pg_tasks s"]
    by (fastforce simp: pg_list_tasks_def pg_get_task_def pg_invar_def dest: sql_get_SomeD)
  show "distinct (map et_id (pg_list_tasks s None))"
    using inv by (simp add: pg_list_tasks_def pg_invar_def unique_key_def comp_def distinct_map inj_on_def)
  show "pg_list_tasks s (Some st) = filter (\<lambda>t. et_status t = st) (pg_list_tasks s None)"
    by (simp add: pg_list_tasks_def filter_sort)
next
  fix s s' :: pg_db and now :: real
  assume inv: "pg_invar s" and c: "pg_claim_task now s = (None, s')"
  from inv c show "s' = s \<and> (\<forall>i t. pg_get_task s i = Some t \<longrightarrow> et_status t \<noteq> TaskCreated)"
    by (cases rule: pg_claim_cases) (auto simp: pg_get_task_def dest!: sql_get_SomeD)
next
  fix s s' :: pg_db and now :: real and t :: engineering_task and i
  assume inv: "pg_invar s" and c: "pg_claim_task now s = (Some t, s')"
  obtain t0 where t0: "t0 \<in> set (pg_tasks s)" "et_status t0 = TaskCreated" "t = t0\<lparr>et_status := TaskRunning\<rparr>"
      "\<And>i. sql_get et_id i (pg_tasks s') = (if i = et_id t0
         then Some (t0\<lparr>et_status := TaskRunning, et_updated_at := now\<rparr>) else sql_get et_id i (pg_tasks s))"
    using inv c by (cases rule: pg_claim_cases) auto
  have "sql_get et_id (et_id t0) (pg_tasks s) = Some t0"
    using inv t0(1) by (intro sql_get_SomeI) (simp_all add: pg_invar_def)
  with t0 show "et_status t = TaskRunning \<and> (\<exists>t0. pg_get_task s (et_id t) = Some t0 \<and>
      et_status t0 \<in> {TaskCreated, TaskRunning} \<and> et_metadata t = et_metadata t0 \<and>
      pg_get_task s' (et_id t) = Some (t0\<lparr>et_status := TaskRunning, et_updated_at := now\<rparr>))"
    by (auto simp: pg_get_task_def)
  show "i \<noteq> et_id t \<Longrightarrow> pg_get_task s' i = pg_get_task s i"
    using t0(3,4) by (simp add: pg_get_task_def)
qed

subsection \<open>Leases\<close>

text \<open>A history of claims on the SQLite store: requested task, worker, lease and clock reading of each.\<close>

fun sq_claims :: "(string option \<times> string \<times> real \<times> real) list \<Rightarrow> sqlite_db \<Rightarrow> engineering_task option list \<times> sqlite_db" where
  "sq_claims [] db = ([], db)"
| "sq_claims ((tid, who, lease, now) # cs) db = (case sq_claim_task tid who lease now db of (r, db1) \<Rightarrow>
     (case sq_claims cs db1 of (rs, db2) \<Rightarrow> (r # rs, db2)))"

lemma sq_claims_respect_lease:
  assumes "sq_invar db" and "sql_get tr_id i (sq_tasks db) = Some r"
    and "tr_status r = TaskRunning" and "\<forall>(tid, who, lease, now) \<in> set cs. now \<le> tr_lease_expires_at r"
  shows "sql_get tr_id i (sq_tasks (snd (sq_claims cs db))) = Some r \<and>
    (\<forall>t. Some t \<in> set (fst (sq_claims cs db)) \<longrightarrow> et_id t \<noteq> i)"
  using assms
proof (induction cs arbitrary: db)
  case (Cons c cs)
  obtain tid who lease now where c: "c = (tid, who, lease, now)" by (cases c)
  obtain res db1 where cl: "sq_claim_task tid who lease now db = (res, db1)" by (metis surj_pair)
  have inv: "sq_invar db1" using sq_invar_claim [OF Cons.prems(1), of tid who lease now] cl by simp
  have step: "sql_get tr_id i (sq_tasks db1) = Some r \<and> (\<forall>t. res = Some t \<longrightarrow> et_id t \<noteq> i)"
  proof (cases res)
    case None
    with sq_claim_None_unchanged [OF Cons.prems(1) cl [unfolded None]] Cons.prems(2) show ?thesis by simp
  next
    case (Some t)
    obtain r' where r': "sql_get tr_id (et_id t) (sq_tasks db) = Some r'" "sq_claimable now tid r'"
      "\<And>i. sql_get tr_id i (sq_tasks db1) = (if i = et_id t
        then Some (sq_mark_claimed who lease now (tr_claim_generation r') r') else sql_get tr_id i (sq_tasks db))"
      using sq_claim_get [OF Cons.prems(1) cl [unfolded Some]] by metis
    have "\<not> sq_claimable now tid r" using Cons.prems(3,4) c by (auto simp: sq_claimable_def)
    then have "et_id t \<noteq> i" using r'(1,2) Cons.prems(2) by auto
    with r'(3) Cons.prems(2) Some show ?thesis by simp
  qed
  with Cons.IH [OF inv _ Cons.prems(3)] Cons.prems(4) show ?case
    by (auto simp: c cl split: prod.splits)
qed simp

text \<open>
  C17: A claimed task is leased exclusively: after a worker claimed a task of the SQLite store at
  time \<open>now\<close> for \<open>lease\<close> seconds, no sequence of further claims, by anyone and for any task, with clock readings up to
  the expiry hands the task out again, and the row keeps the worker's name, generation and expiry.
\<close>
theorem sqlite_lease_is_exclusive:
  assumes "sq_invar db" and "sq_claim_task tid who lease now db = (Some t, db1)"
    and "\<forall>(tid', who', lease', now') \<in> set cs. now' \<le> now + lease"
  shows "(\<forall>t'. Some t' \<in> set (fst (sq_claims cs db1)) \<longrightarrow> et_id t' \<noteq> et_id t) \<and>
    (\<exists>r. sql_get tr_id (et_id t) (sq_tasks (snd (sq_claims cs db1))) = Some r \<and>
       tr_claimed_by r = Some who \<and> tr_lease_expires_at r = now + lease \<and> tr_status r = TaskRunning)"
proof -
  obtain r where r: "\<And>i. sql_get tr_id i (sq_tasks db1) = (if i = et_id t
        then Some (sq_mark_claimed who lease now (tr_claim_generation r) r) else sql_get tr_id i (sq_tasks db))"
    using sq_claim_get [OF assms(1,2)] by metis
  let ?r = "sq_mark_claimed who lease now (tr_claim_generation r) r"
  have "sq_invar db1" using sq_invar_claim [OF assms(1), of tid who lease now] assms(2) by simp
  moreover have "sql_get tr_id (et_id t) (sq_tasks db1) = Some ?r" by (simp add: r)
  ultimately have "sql_get tr_id (et_id t) (sq_tasks (snd (sq_claims cs db1))) = Some ?r \<and>
      (\<forall>t'. Some t' \<in> set (fst (sq_claims cs db1)) \<longrightarrow> et_id t' \<noteq> et_id t)"
    using assms(3) by (intro sq_claims_respect_lease) (auto simp: sq_mark_claimed_def)
  then show ?thesis by (auto simp: sq_mark_claimed_def)
qed

definition demo_task :: "string \<Rightarrow> real \<Rightarrow> engineering_task" where
  "demo_task i t = \<lparr>et_id = i, et_task_description = i, et_status = TaskCreated, et_created_at = t,
     et_updated_at = t, et_metadata = []\<rparr>"

definition demo_db :: sqlite_db where
  "demo_db = sq_save_task 0 (demo_task ''b'' 2) (sq_save_task 0 (demo_task ''a'' 1) sq_empty)"

lemma sort_key_two: "sort_key f [x, y] = (if f x \<le> f y then [x, y] else [y, x])"
  by (simp add: sort_key_def)

lemma demo_db_rows: "sq_invar demo_db"
  "sq_tasks demo_db = [\<lparr>tr_id = ''a'', tr_task_description = ''a'', tr_status = TaskCreated, tr_created_at = 1,
      tr_updated_at = 0, tr_metadata = [], tr_claimed_by = None, tr_claim_generation = 0, tr_lease_expires_at = 0\<rparr>,
     \<lparr>tr_id = ''b'', tr_task_description = ''b'', tr_status = TaskCreated, tr_created_at = 2,
      tr_updated_at = 0, tr_metadata = [], tr_claimed_by = None, tr_claim_generation = 0, tr_lease_expires_at = 0\<rparr>]"
  by (simp_all add: demo_db_def sq_save_task_def sql_replace_def sq_empty_def demo_task_def sq_invar_def unique_key_def)

lemma demo_claim: "\<exists>t db1. sq_claim_task None ''w1'' 60 100 demo_db = (Some t, db1) \<and> et_id t = ''a''"
  by (simp add: sq_claim_task_def demo_db_rows sq_claimable_def sql_first_by_def sort_key_two Let_def
      sql_count_def sq_same_claim_def)

theorem sqlite_lease_is_exclusive_witness:
  "\<exists>t db1. sq_claim_task None ''w1'' 60 100 demo_db = (Some t, db1) \<and> et_id t = ''a'' \<and>
     (\<forall>t'. Some t' \<in> set (fst (sq_claims [(None, ''w2'', 60, 110), (Some ''a'', ''w3'', 60, 160)] db1)) \<longrightarrow> et_id t' \<noteq> ''a'')"
proof -
  obtain t db1 where c: "sq_claim_task None ''w1'' 60 100 demo_db = (Some t, db1)" "et_id t = ''a''"
    using demo_claim by blast
  have "\<forall>(tid', who', lease', now') \<in> set [(None, ''w2'', 60, 110), (Some ''a'', ''w3'', 60, 160)]. now' \<le> 100 + (60::real)"
    by simp
  from sqlite_lease_is_exclusive [OF demo_db_rows(1) c(1) this] c show ?thesis by auto
qed

subsection \<open>PostgreSQL hands a task out once\<close>

lemma pg_claims_taken:
  assumes "pg_invar db" and "pg_get_task db i = Some t" and "et_status t \<noteq> TaskCreated"
  shows "\<forall>t'. Some t' \<in> set (fst (pg.claims nows db)) \<longrightarrow> et_id t' \<noteq> i"
  using assms
proof (induction nows arbitrary: db t)
  case (Cons now nows)
  obtain res db1 where c: "pg_claim_task now db = (res, db1)" by (cases "pg_claim_task now db")
  have inv: "pg_invar db1" using pg_invar_claim [OF Cons.prems(1), of now] c by simp
  from Cons.prems(1) c show ?case
  proof (cases rule: pg_claim_cases)
    case none
    with Cons.IH [OF inv, of t] Cons.prems c show ?thesis by (auto split: prod.splits)
  next
    case (claimed t')
    have "sql_get et_id (et_id t') (pg_tasks db) = Some t'"
      using Cons.prems(1) claimed(1) by (intro sql_get_SomeI) (simp_all add: pg_invar_def)
    then have "et_id t' \<noteq> i" using claimed(2) Cons.prems(2,3) by (auto simp: pg_get_task_def)
    then have "pg_get_task db1 i = Some t" using claimed(4) Cons.prems(2) by (simp add: pg_get_task_def)
    from Cons.IH [OF inv this Cons.prems(3)] \<open>et_id t' \<noteq> i\<close> claimed(3) c show ?thesis by (auto split: prod.splits)
  qed
qed simp

lemma pg_claims_distinct:
  "pg_invar db \<Longrightarrow> distinct (map (\<lambda>r. et_id (the r)) (filter (\<lambda>r. r \<noteq> None) (fst (pg.claims nows db))))"
proof (induction nows arbitrary: db)
  case (Cons now nows)
  obtain res db1 where c: "pg_claim_task now db = (res, db1)" by (cases "pg_claim_task now db")
  have inv: "pg_invar db1" using pg_invar_claim [OF Cons.prems(1), of now] c by simp
  from Cons.prems(1) c show ?case
  proof (cases rule: pg_claim_cases)
    case none
    then show ?thesis using Cons.IH [OF inv] c by (auto split: prod.splits)
  next
    case (claimed t')
    have "pg_get_task db1 (et_id t') = Some (t'\<lparr>et_status := TaskRunning, et_updated_at := now\<rparr>)"
      using claimed(4) by (simp add: pg_get_task_def)
    from pg_claims_taken [OF inv this, of nows] Cons.IH [OF inv] claimed(3) c
    show ?thesis by (fastforce split: prod.splits)
  qed
qed simp

text \<open>
  The PostgreSQL store hands a task out at most once: in any run of claims without an intervening
  save, the tasks handed out are pairwise different, whatever the clock says.
\<close>
theorem pg_claims_hand_out_once:
  assumes "pg_invar db"
  shows "distinct (map (\<lambda>r. et_id (the r)) (filter (\<lambda>r. r \<noteq> None) (fst (pg.claims nows db))))"
  by (rule pg_claims_distinct [OF assms])

theorem pg_claims_hand_out_once_witness:
  "distinct (map (\<lambda>r. et_id (the r)) (filter (\<lambda>r. r \<noteq> None)
     (fst (pg.claims [1, 2, 3] (pg_save_task 0 (demo_task ''b'' 2) (pg_save_task 0 (demo_task ''a'' 1) pg_empty))))))"
  by (rule pg_claims_hand_out_once)
     (simp add: pg_save_task_def pg_empty_def demo_task_def pg_invar_def unique_key_def sql_get_def)

text \<open>
  The SQLite store does not have this: the generation is meant as a fencing token, but saving the task resets it,
  so the workers of two claims can hold the same token for the same task.
\<close>

lemma sq_claim_token_reused:
  assumes "sq_invar db" and "et_status t = TaskCreated"
    and "sq_claim_task (Some (et_id t)) who lease now (sq_save_task now' t db) = (Some t1, db1)" and "et_id t1 = et_id t"
  shows "map_option tr_claim_generation (sql_get tr_id (et_id t) (sq_tasks db1)) = Some 1"
proof -
  obtain r where r: "sql_get tr_id (et_id t1) (sq_tasks (sq_save_task now' t db)) = Some r"
    "\<And>i. sql_get tr_id i (sq_tasks db1) = (if i = et_id t1
        then Some (sq_mark_claimed who lease now (tr_claim_generation r) r) else sql_get tr_id i (sq_tasks (sq_save_task now' t db)))"
    using sq_claim_get [OF sq_invar_save [OF assms(1)] assms(3)] by metis
  have "tr_claim_generation r = 0" using r(1) assms(4) by (auto simp: sq_save_task_def sql_get_replace)
  then show ?thesis using r(2) assms(4) by (simp add: sq_mark_claimed_def)
qed

text \<open>
  Asking the SQLite store for one task can hand out another one: because the identifier only
  constrains the second half of the \<open>OR\<close>, claiming \<open>''b''\<close> takes the older created task \<open>''a''\<close>.
\<close>
theorem sqlite_claim_ignores_requested_id:
  "\<exists>t db1. sq_claim_task (Some ''b'') ''w'' 60 100 demo_db = (Some t, db1) \<and> et_id t = ''a'' \<and>
     map_option et_status (sq_get_task db1 ''a'') = Some TaskRunning \<and>
     map_option et_status (sq_get_task db1 ''b'') = Some TaskCreated"
  by (simp add: sq_claim_task_def demo_db_rows sq_claimable_def sql_first_by_def sort_key_two Let_def
      sql_count_def sq_same_claim_def sq_get_task_def sql_get_def sql_update_def sq_mark_claimed_def)

subsection \<open>Checkpoints\<close>

text \<open>
  Recovery resumes from the furthest checkpoint: after a checkpoint was stored, the latest
  checkpoint of its attempt exists, belongs to the attempt, is one of the stored ones, and has a sequence number that
  no stored checkpoint of the attempt exceeds.
\<close>
theorem latest_checkpoint_is_furthest:
  assumes "sq_save_checkpoint c db = Inr db'"
  shows "\<exists>k. sq_get_latest_checkpoint db' (ck_attempt_id c) = Some k \<and> k \<in> set (sq_checkpoints db @ [c]) \<and>
    ck_attempt_id k = ck_attempt_id c \<and>
    (\<forall>k' \<in> set (sq_checkpoints db @ [c]). ck_attempt_id k' = ck_attempt_id c \<longrightarrow> ck_sequence k' \<le> ck_sequence k)"
proof -
  have db': "sq_checkpoints db' = sq_checkpoints db @ [c]"
    using assms by (auto simp: sq_save_checkpoint_def split: if_splits)
  let ?F = "filter (\<lambda>k. ck_attempt_id k = ck_attempt_id c) (sq_checkpoints db @ [c])"
  obtain k where k: "sql_first_by (\<lambda>c. - ck_sequence c) ?F = Some k"
    by (cases "sql_first_by (\<lambda>c. - ck_sequence c) ?F") auto
  show ?thesis using sql_first_by_SomeD [OF k] k
    by (intro exI [of _ k]) (auto simp: sq_get_latest_checkpoint_def db')
qed

theorem latest_checkpoint_is_furthest_witness:
  "\<exists>k db'. sq_save_checkpoint \<lparr>ck_id = ''c'', ck_task_id = ''t'', ck_attempt_id = ''a'', ck_sequence = 3, ck_phase = [],
       ck_state_snapshot = [], ck_timestamp = 0\<rparr> sq_empty = Inr db' \<and>
     sq_get_latest_checkpoint db' ''a'' = Some k \<and> ck_sequence k = 3"
  using latest_checkpoint_is_furthest [of "\<lparr>ck_id = ''c'', ck_task_id = ''t'', ck_attempt_id = ''a'', ck_sequence = 3,
      ck_phase = [], ck_state_snapshot = [], ck_timestamp = 0\<rparr>" sq_empty]
  by (auto simp: sq_save_checkpoint_def sq_empty_def sql_get_def)

end
