(* ===== verification/StoreLedger.thy ===== *)
theory StoreLedger
  imports UpgradeLedger EngineeringStore
begin

text \<open>
  \<open>src/zcoder/services/upgrade_store_ledger.py\<close>, class \<open>EngineeringStoreUpgradeLedger\<close>: the upgrade ledger kept in
  the metadata of tasks of an engineering store that other workers use too. The operations take the store's
  \<open>get_task\<close>, \<open>save_task\<close> and \<open>list_tasks\<close> as arguments; what holds of them for every store is proved in the
  locale of the interface and taken over for both implementations. \<open>strf\<close> is \<open>str()\<close> on a value that is no string, \<open>H\<close> is SHA-256.
\<close>

subsection \<open>Configuration and markers\<close>

record store_ledger =
  sl_namespace :: string
  sl_max_checkpoints :: nat
  sl_task_prefix :: string

definition store_ledger_new :: "(string \<Rightarrow> string) \<Rightarrow> string \<Rightarrow> nat \<Rightarrow> string + store_ledger" where
  "store_ledger_new H namespace max_checkpoints =
     (let ns = py_strip namespace in
      if ns = [] then Inl ''namespace must not be empty''
      else if max_checkpoints < 1 then Inl ''max_checkpoints must be >= 1''
      else Inr \<lparr>sl_namespace = ns, sl_max_checkpoints = max_checkpoints,
        sl_task_prefix = ''upgrade-ledger-'' @ take 16 (H ns) @ ''-''\<rparr>)"

definition control_task_id :: "store_ledger \<Rightarrow> string" where
  "control_task_id L = sl_task_prefix L @ ''control''"

definition ledger_task_id :: "store_ledger \<Rightarrow> string \<Rightarrow> string" where
  "ledger_task_id L k = sl_task_prefix L @ k"

definition is_one :: "json option \<Rightarrow> bool" where
  "is_one j \<longleftrightarrow> j \<in> {Some (JInt 1), Some (JFloat 1), Some (JBool True)}"

definition marker_from_task :: "store_ledger \<Rightarrow> string \<Rightarrow> engineering_task \<Rightarrow> ledger_error + jobj" where
  "marker_from_task L kind t =
     (case map_of (et_metadata t) ''zcoder_upgrade_ledger'' of
        Some (JObj m) \<Rightarrow>
          (if \<not> is_one (map_of m ''schema_version'')
           then Inl (UpgradeLedgerError ''unsupported EngineeringStore upgrade ledger schema'')
           else if map_of m ''namespace'' \<noteq> Some (JStr (sl_namespace L))
           then Inl (UpgradeLedgerError ''EngineeringStore upgrade namespace mismatch'')
           else if map_of m ''record_type'' \<noteq> Some (JStr kind)
           then Inl (UpgradeLedgerError ''EngineeringStore upgrade record type mismatch'')
           else Inr m)
      | _ \<Rightarrow> Inl (UpgradeLedgerError ''invalid EngineeringStore upgrade metadata''))"

text \<open>Every error of the constructor is turned into an \<open>UpgradeLedgerError\<close>. Without a fallback the defaults are those of an empty item.\<close>

definition deserialize_item ::
  "(json \<Rightarrow> string) \<Rightarrow> work_item option \<Rightarrow> jobj \<Rightarrow> int option \<Rightarrow> ledger_error + work_item" where
  "deserialize_item strf fallback r attempts =
     (case restore_item strf (case fallback of None \<Rightarrow> empty_item | Some it \<Rightarrow> it) r attempts of
        Inl _ \<Rightarrow> Inl (UpgradeLedgerError ''invalid EngineeringStore upgrade work record'')
      | Inr it \<Rightarrow> Inr it)"

definition record_from_task ::
  "(json \<Rightarrow> string) \<Rightarrow> (json \<Rightarrow> string) \<Rightarrow> store_ledger \<Rightarrow> string option \<Rightarrow> engineering_task \<Rightarrow> ledger_error + jobj" where
  "record_from_task digest strf L expected t =
     (case marker_from_task L ''work'' t of
        Inl e \<Rightarrow> Inl e
      | Inr m \<Rightarrow>
         (case map_of m ''fingerprint'' of
            Some (JStr k) \<Rightarrow>
              (if k = [] then Inl (UpgradeLedgerError ''missing EngineeringStore upgrade fingerprint'')
               else if expected \<noteq> None \<and> expected \<noteq> Some k
               then Inl (UpgradeLedgerError ''EngineeringStore upgrade fingerprint mismatch'')
               else if et_id t \<noteq> ledger_task_id L k
               then Inl (UpgradeLedgerError ''EngineeringStore upgrade task identity mismatch'')
               else (case map_of m ''record'' of
                   Some (JObj r) \<Rightarrow>
                     (case deserialize_item strf None r None of
                        Inl e \<Rightarrow> Inl e
                      | Inr it \<Rightarrow> if fingerprint digest it \<noteq> k
                          then Inl (UpgradeLedgerError ''EngineeringStore upgrade content fingerprint mismatch'')
                          else Inr r)
                 | _ \<Rightarrow> Inl (UpgradeLedgerError ''invalid EngineeringStore upgrade work record'')))
          | _ \<Rightarrow> Inl (UpgradeLedgerError ''missing EngineeringStore upgrade fingerprint'')))"

subsection \<open>Operations\<close>

definition work_marker :: "(json \<Rightarrow> string) \<Rightarrow> store_ledger \<Rightarrow> work_item \<Rightarrow> work_state \<Rightarrow> real \<Rightarrow> jobj" where
  "work_marker digest L it st now = [(''schema_version'', JInt 1), (''record_type'', JStr ''work''),
     (''namespace'', JStr (sl_namespace L)), (''fingerprint'', JStr (fingerprint digest it)),
     (''record'', JObj (serialize_item it st now))]"

definition carrier_task ::
  "(json \<Rightarrow> string) \<Rightarrow> store_ledger \<Rightarrow> work_item \<Rightarrow> work_state \<Rightarrow> real \<Rightarrow> real \<Rightarrow> engineering_task" where
  "carrier_task digest L it st created_at now = \<lparr>et_id = ledger_task_id L (fingerprint digest it),
     et_task_description = wi_title it, et_status = (if st = SUCCEEDED then TaskSucceeded else TaskPaused),
     et_created_at = created_at, et_updated_at = now,
     et_metadata = [(''zcoder_upgrade_ledger'', JObj (work_marker digest L it st now))]\<rparr>"

definition save_item ::
  "('s \<Rightarrow> string \<Rightarrow> engineering_task option) \<Rightarrow> (real \<Rightarrow> engineering_task \<Rightarrow> 's \<Rightarrow> 's) \<Rightarrow> (json \<Rightarrow> string)
     \<Rightarrow> store_ledger \<Rightarrow> work_item \<Rightarrow> work_state \<Rightarrow> real \<Rightarrow> 's \<Rightarrow> 's" where
  "save_item get save digest L it st now s =
     save now (carrier_task digest L it st
       (case get s (ledger_task_id L (fingerprint digest it)) of None \<Rightarrow> now | Some t \<Rightarrow> et_created_at t) now) s"

definition store_restore_or_register ::
  "('s \<Rightarrow> string \<Rightarrow> engineering_task option) \<Rightarrow> (real \<Rightarrow> engineering_task \<Rightarrow> 's \<Rightarrow> 's) \<Rightarrow> (json \<Rightarrow> string)
     \<Rightarrow> (json \<Rightarrow> string) \<Rightarrow> store_ledger \<Rightarrow> work_item \<Rightarrow> bool \<Rightarrow> real \<Rightarrow> 's \<Rightarrow> (ledger_error + work_item option) \<times> 's" where
  "store_restore_or_register get save digest strf L it retry now s =
     (case get s (ledger_task_id L (fingerprint digest it)) of
        None \<Rightarrow> (Inr (Some it), save_item get save digest L it (wi_state it) now s)
      | Some t \<Rightarrow>
         (case record_from_task digest strf L (Some (fingerprint digest it)) t of
            Inl e \<Rightarrow> (Inl e, s)
          | Inr r \<Rightarrow>
             (let st = record_state strf r in
              if st = ''SUCCEEDED'' then (Inr None, s)
              else if st = ''BLOCKED'' \<and> \<not> retry then (Inr None, s)
              else (case py_int (dict_get r ''attempts'' (JInt 0)) of
                  None \<Rightarrow> (Inl LedgerValueError, s)
                | Some n \<Rightarrow>
                   (case deserialize_item strf (Some it) r (Some (if st = ''BLOCKED'' then 0 else n)) of
                      Inl e \<Rightarrow> (Inl e, s)
                    | Inr it' \<Rightarrow> (Inr (Some it'), save_item get save digest L it' PENDING now s))))))"

definition store_state_for ::
  "('s \<Rightarrow> string \<Rightarrow> engineering_task option) \<Rightarrow> (json \<Rightarrow> string) \<Rightarrow> (json \<Rightarrow> string) \<Rightarrow> store_ledger
     \<Rightarrow> string \<Rightarrow> 's \<Rightarrow> ledger_error + string option" where
  "store_state_for get digest strf L k s =
     (case get s (ledger_task_id L k) of
        None \<Rightarrow> Inr None
      | Some t \<Rightarrow> (case record_from_task digest strf L (Some k) t of
            Inl e \<Rightarrow> Inl e
          | Inr r \<Rightarrow> Inr (Some (py_str strf (dict_get r ''state'' JNull)))))"

text \<open>\<open>_record_tasks\<close>: the work carriers of this namespace, the markers checked on the way.\<close>

fun record_tasks :: "store_ledger \<Rightarrow> engineering_task list \<Rightarrow> ledger_error + engineering_task list" where
  "record_tasks L [] = Inr []"
| "record_tasks L (t # ts) =
     (if et_id t = control_task_id L
      then (case marker_from_task L ''control'' t of Inl e \<Rightarrow> Inl e | Inr _ \<Rightarrow> record_tasks L ts)
      else if \<not> py_startswith (et_id t) (sl_task_prefix L) then record_tasks L ts
      else (case marker_from_task L ''work'' t of Inl e \<Rightarrow> Inl e
          | Inr _ \<Rightarrow> map_sum (\<lambda>e. e) ((#) t) (record_tasks L ts)))"

text \<open>Each resumable item is written back as it is loaded, so an error leaves the earlier ones saved.\<close>

fun load_tasks ::
  "('s \<Rightarrow> string \<Rightarrow> engineering_task option) \<Rightarrow> (real \<Rightarrow> engineering_task \<Rightarrow> 's \<Rightarrow> 's) \<Rightarrow> (json \<Rightarrow> string)
     \<Rightarrow> (json \<Rightarrow> string) \<Rightarrow> store_ledger \<Rightarrow> bool \<Rightarrow> real \<Rightarrow> engineering_task list \<Rightarrow> 's
     \<Rightarrow> (ledger_error + work_item list) \<times> 's" where
  "load_tasks get save digest strf L retry now [] s = (Inr [], s)"
| "load_tasks get save digest strf L retry now (t # ts) s =
     (case record_from_task digest strf L None t of
        Inl e \<Rightarrow> (Inl e, s)
      | Inr r \<Rightarrow>
         (let st = record_state strf r in
          if st = ''SUCCEEDED'' \<or> (st = ''BLOCKED'' \<and> \<not> retry) then load_tasks get save digest strf L retry now ts s
          else (case py_int (dict_get r ''attempts'' (JInt 0)) of
              None \<Rightarrow> (Inl LedgerValueError, s)
            | Some n \<Rightarrow>
               (case deserialize_item strf None r (Some (if st = ''BLOCKED'' then 0 else n)) of
                  Inl e \<Rightarrow> (Inl e, s)
                | Inr it \<Rightarrow>
                   (case load_tasks get save digest strf L retry now ts (save_item get save digest L it PENDING now s) of
                      (res, s') \<Rightarrow> (map_sum (\<lambda>e. e) ((#) it) res, s'))))))"

definition store_load_resumable ::
  "('s \<Rightarrow> string \<Rightarrow> engineering_task option) \<Rightarrow> (real \<Rightarrow> engineering_task \<Rightarrow> 's \<Rightarrow> 's)
     \<Rightarrow> ('s \<Rightarrow> task_status option \<Rightarrow> engineering_task list) \<Rightarrow> (json \<Rightarrow> string) \<Rightarrow> (json \<Rightarrow> string) \<Rightarrow> store_ledger
     \<Rightarrow> bool \<Rightarrow> real \<Rightarrow> 's \<Rightarrow> (ledger_error + work_item list) \<times> 's" where
  "store_load_resumable get save list digest strf L retry now s =
     (case record_tasks L (list s None) of
        Inl e \<Rightarrow> (Inl e, s)
      | Inr ts \<Rightarrow> load_tasks get save digest strf L retry now ts s)"

fun save_items ::
  "('s \<Rightarrow> string \<Rightarrow> engineering_task option) \<Rightarrow> (real \<Rightarrow> engineering_task \<Rightarrow> 's \<Rightarrow> 's) \<Rightarrow> (json \<Rightarrow> string)
     \<Rightarrow> store_ledger \<Rightarrow> loop_checkpoint \<Rightarrow> real \<Rightarrow> (string \<times> work_item) list \<Rightarrow> 's \<Rightarrow> 's" where
  "save_items get save digest L cp now [] s = s"
| "save_items get save digest L cp now ((i, it) # its) s =
     save_items get save digest L cp now its (save_item get save digest L it (persisted_state cp i it) now s)"

definition control_task :: "store_ledger \<Rightarrow> json list \<Rightarrow> real \<Rightarrow> real \<Rightarrow> engineering_task" where
  "control_task L checkpoints created_at now = \<lparr>et_id = control_task_id L,
     et_task_description = ''Continuous upgrade ledger control: '' @ sl_namespace L, et_status = TaskPaused,
     et_created_at = created_at, et_updated_at = now,
     et_metadata = [(''zcoder_upgrade_ledger'', JObj [(''schema_version'', JInt 1), (''record_type'', JStr ''control''),
        (''namespace'', JStr (sl_namespace L)),
        (''checkpoints'', JArr (last_n (sl_max_checkpoints L) checkpoints))])]\<rparr>"

definition store_record_checkpoint ::
  "('s \<Rightarrow> string \<Rightarrow> engineering_task option) \<Rightarrow> (real \<Rightarrow> engineering_task \<Rightarrow> 's \<Rightarrow> 's) \<Rightarrow> (json \<Rightarrow> string)
     \<Rightarrow> store_ledger \<Rightarrow> loop_checkpoint \<Rightarrow> real \<Rightarrow> (string \<times> work_item) list \<Rightarrow> real \<Rightarrow> 's \<Rightarrow> (ledger_error + unit) \<times> 's" where
  "store_record_checkpoint get save digest L cp created_at items now s =
     (let s1 = save_items get save digest L cp now items s in
      case get s1 (control_task_id L) of
        None \<Rightarrow> (Inr (), save now (control_task L [checkpoint_json cp created_at] now now) s1)
      | Some t \<Rightarrow>
         (case marker_from_task L ''control'' t of
            Inl e \<Rightarrow> (Inl e, s1)
          | Inr m \<Rightarrow>
             (case dict_get m ''checkpoints'' (JArr []) of
                JArr cs \<Rightarrow> (Inr (), save now (control_task L (cs @ [checkpoint_json cp created_at]) (et_created_at t) now) s1)
              | _ \<Rightarrow> (Inl (UpgradeLedgerError ''invalid EngineeringStore upgrade checkpoint history''), s1))))"

fun records_of ::
  "(json \<Rightarrow> string) \<Rightarrow> (json \<Rightarrow> string) \<Rightarrow> store_ledger \<Rightarrow> engineering_task list \<Rightarrow> ledger_error + jobj list" where
  "records_of digest strf L [] = Inr []"
| "records_of digest strf L (t # ts) =
     (case record_from_task digest strf L None t of Inl e \<Rightarrow> Inl e
      | Inr r \<Rightarrow> map_sum (\<lambda>e. e) ((#) r) (records_of digest strf L ts))"

definition store_records ::
  "('s \<Rightarrow> task_status option \<Rightarrow> engineering_task list) \<Rightarrow> (json \<Rightarrow> string) \<Rightarrow> (json \<Rightarrow> string) \<Rightarrow> store_ledger \<Rightarrow> 's
     \<Rightarrow> ledger_error + jobj list" where
  "store_records list digest strf L s =
     (case record_tasks L (list s None) of Inl e \<Rightarrow> Inl e | Inr ts \<Rightarrow> records_of digest strf L ts)"

definition store_blocked_item_ids ::
  "('s \<Rightarrow> task_status option \<Rightarrow> engineering_task list) \<Rightarrow> (json \<Rightarrow> string) \<Rightarrow> (json \<Rightarrow> string) \<Rightarrow> store_ledger \<Rightarrow> 's
     \<Rightarrow> ledger_error + string list" where
  "store_blocked_item_ids list digest strf L s = map_sum (\<lambda>e. e) (\<lambda>rs.
     map (\<lambda>r. py_str strf (dict_get r ''item_id'' JNull))
       (filter (\<lambda>r. map_of r ''state'' = Some (JStr ''BLOCKED'') \<and> truthy (dict_get r ''item_id'' JNull)) rs))
     (store_records list digest strf L s)"

definition store_terminal_counts ::
  "('s \<Rightarrow> task_status option \<Rightarrow> engineering_task list) \<Rightarrow> (json \<Rightarrow> string) \<Rightarrow> (json \<Rightarrow> string) \<Rightarrow> store_ledger \<Rightarrow> 's
     \<Rightarrow> ledger_error + nat \<times> nat" where
  "store_terminal_counts list digest strf L s = map_sum (\<lambda>e. e) (\<lambda>rs.
     (length (filter (\<lambda>r. py_str strf (dict_get r ''state'' (JStr [])) = ''SUCCEEDED'') rs),
      length (filter (\<lambda>r. py_str strf (dict_get r ''state'' (JStr [])) = ''BLOCKED'') rs))) (store_records list digest strf L s)"

subsection \<open>The contract on any engineering store\<close>

definition hex_digest :: "(json \<Rightarrow> string) \<Rightarrow> bool" where
  "hex_digest digest \<longleftrightarrow> (\<forall>j. length (digest j) = 64)"

definition good_carrier :: "(json \<Rightarrow> string) \<Rightarrow> store_ledger \<Rightarrow> string \<Rightarrow> engineering_task \<Rightarrow> bool" where
  "good_carrier digest L k t \<longleftrightarrow> et_id t = ledger_task_id L k \<and> et_status t \<in> {TaskSucceeded, TaskPaused} \<and>
     (\<exists>it st now. valid_item it \<and> fingerprint digest it = k \<and>
        et_metadata t = [(''zcoder_upgrade_ledger'', JObj (work_marker digest L it st now))])"

text \<open>Every task filed under a fingerprint in the namespace is a carrier this ledger wrote.\<close>

definition store_wf ::
  "('s \<Rightarrow> string \<Rightarrow> engineering_task option) \<Rightarrow> ('s \<Rightarrow> bool) \<Rightarrow> (json \<Rightarrow> string) \<Rightarrow> store_ledger \<Rightarrow> 's \<Rightarrow> bool" where
  "store_wf get invar digest L s \<longleftrightarrow> hex_digest digest \<and> invar s \<and>
     (\<forall>k t. k \<noteq> ''control'' \<longrightarrow> get s (ledger_task_id L k) = Some t \<longrightarrow> good_carrier digest L k t)"

lemma ledger_task_id_inject [simp]: "ledger_task_id L k = ledger_task_id L k' \<longleftrightarrow> k = k'"
  by (simp add: ledger_task_id_def)

lemma fingerprint_hex:
  assumes "hex_digest digest"
  shows "fingerprint digest it \<noteq> []" and "fingerprint digest it \<noteq> ''control''"
proof -
  have "length (fingerprint digest it) = 64" using assms by (simp add: hex_digest_def fingerprint_def)
  then show "fingerprint digest it \<noteq> []" and "fingerprint digest it \<noteq> ''control''" by auto
qed

lemma record_from_carrier:
  assumes "hex_digest digest" and "valid_item it" and "et_id t = ledger_task_id L (fingerprint digest it)"
    and "et_metadata t = [(''zcoder_upgrade_ledger'', JObj (work_marker digest L it st now))]"
    and "expected = None \<or> expected = Some (fingerprint digest it)"
  shows "record_from_task digest strf L expected t = Inr (serialize_item it st now)"
proof -
  have m: "marker_from_task L ''work'' t = Inr (work_marker digest L it st now)"
    by (simp add: marker_from_task_def assms(4) work_marker_def is_one_def)
  have f: "map_of (work_marker digest L it st now) ''fingerprint'' = Some (JStr (fingerprint digest it))"
    and r: "map_of (work_marker digest L it st now) ''record'' = Some (JObj (serialize_item it st now))"
    by (simp_all add: work_marker_def)
  have "deserialize_item strf None (serialize_item it st now) None = Inr (it\<lparr>wi_state := PENDING, wi_attempts := wi_attempts it\<rparr>)"
    by (simp add: deserialize_item_def restore_serialized [OF assms(2)])
  moreover have "fingerprint digest (it\<lparr>wi_state := PENDING, wi_attempts := wi_attempts it\<rparr>) = fingerprint digest it"
    by (rule fingerprint_reset)
  ultimately show ?thesis
    using assms(3,5) fingerprint_hex(1) [OF assms(1), of it] by (auto simp: record_from_task_def m f r)
qed

lemma good_carrier_task:
  "valid_item it \<Longrightarrow> good_carrier digest L (fingerprint digest it) ((carrier_task digest L it st c now)\<lparr>et_updated_at := u, et_created_at := v\<rparr>)"
  by (auto simp: good_carrier_def carrier_task_def)

context engineering_store
begin

lemma save_item_get:
  assumes "invar s"
  shows "\<exists>c u v. get_task (save_item get_task save_task digest L it st now s) (ledger_task_id L (fingerprint digest it)) =
       Some ((carrier_task digest L it st c now)\<lparr>et_updated_at := u, et_created_at := v\<rparr>)"
proof -
  let ?c = "case get_task s (ledger_task_id L (fingerprint digest it)) of None \<Rightarrow> now | Some t \<Rightarrow> et_created_at t"
  have "et_id (carrier_task digest L it st ?c now) = ledger_task_id L (fingerprint digest it)"
    by (simp add: carrier_task_def)
  with get_save [OF assms, of now "carrier_task digest L it st ?c now"] show ?thesis
    unfolding save_item_def by metis
qed

lemma save_item_get_other:
  assumes "invar s" and "i \<noteq> ledger_task_id L (fingerprint digest it)"
  shows "get_task (save_item get_task save_task digest L it st now s) i = get_task s i"
  unfolding save_item_def by (rule get_save_other [OF assms(1)]) (use assms(2) in \<open>simp add: carrier_task_def\<close>)

lemma store_wf_save_item:
  assumes "store_wf get_task invar digest L s" and "valid_item it"
  shows "store_wf get_task invar digest L (save_item get_task save_task digest L it st now s)"
proof -
  have s: "invar s" "hex_digest digest" using assms(1) by (auto simp: store_wf_def)
  let ?s = "save_item get_task save_task digest L it st now s"
  obtain c u v where g: "get_task ?s (ledger_task_id L (fingerprint digest it)) =
       Some ((carrier_task digest L it st c now)\<lparr>et_updated_at := u, et_created_at := v\<rparr>)"
    using save_item_get [OF s(1)] by blast
  note g' = save_item_get_other [OF s(1), of _ L digest it st now]
  have "good_carrier digest L k t" if "k \<noteq> ''control''" "get_task ?s (ledger_task_id L k) = Some t" for k t
  proof (cases "k = fingerprint digest it")
    case True
    with g that(2) good_carrier_task [OF assms(2)] show ?thesis by auto
  next
    case False
    then have "get_task s (ledger_task_id L k) = Some t" using g' that(2) by simp
    with assms(1) that(1) show ?thesis by (simp add: store_wf_def)
  qed
  moreover have "invar ?s" by (simp add: save_item_def invar_save s(1))
  ultimately show ?thesis using s(2) by (simp add: store_wf_def)
qed

lemma save_item_state:
  assumes "store_wf get_task invar digest L s" and "valid_item it"
  shows "store_state_for get_task digest strf L k (save_item get_task save_task digest L it st now s) =
    (if k = fingerprint digest it then Inr (Some (state_value st)) else store_state_for get_task digest strf L k s)"
proof -
  have s: "invar s" "hex_digest digest" using assms(1) by (auto simp: store_wf_def)
  let ?s = "save_item get_task save_task digest L it st now s"
  obtain c u v where g: "get_task ?s (ledger_task_id L (fingerprint digest it)) =
       Some ((carrier_task digest L it st c now)\<lparr>et_updated_at := u, et_created_at := v\<rparr>)"
    using save_item_get [OF s(1)] by blast
  note g' = save_item_get_other [OF s(1), of _ L digest it st now]
  have "record_from_task digest strf L (Some (fingerprint digest it))
      ((carrier_task digest L it st c now)\<lparr>et_updated_at := u, et_created_at := v\<rparr>) = Inr (serialize_item it st now)"
    by (rule record_from_carrier) (simp_all add: s(2) assms(2) carrier_task_def)
  then show ?thesis using g g' by (simp add: store_state_for_def)
qed

text \<open>Registering and the state of a fingerprint, on a well-formed store.\<close>

lemma store_state_cases:
  assumes "store_wf get_task invar digest L s" and "k \<noteq> ''control''"
  obtains (unknown) "get_task s (ledger_task_id L k) = None" "store_state_for get_task digest strf L k s = Inr None"
  | (known) t it st now where "get_task s (ledger_task_id L k) = Some t" "valid_item it" "fingerprint digest it = k"
      "record_from_task digest strf L (Some k) t = Inr (serialize_item it st now)"
      "store_state_for get_task digest strf L k s = Inr (Some (state_value st))"
proof (cases "get_task s (ledger_task_id L k)")
  case None
  then show thesis by (intro unknown) (simp_all add: store_state_for_def)
next
  case (Some t)
  then have g: "good_carrier digest L k t" using assms by (simp add: store_wf_def)
  then obtain it st now where it: "valid_item it" "fingerprint digest it = k"
      "et_metadata t = [(''zcoder_upgrade_ledger'', JObj (work_marker digest L it st now))]"
    unfolding good_carrier_def by blast
  have i: "et_id t = ledger_task_id L (fingerprint digest it)" using g it(2) by (simp add: good_carrier_def)
  have h: "hex_digest digest" using assms(1) by (simp add: store_wf_def)
  have r: "record_from_task digest strf L (Some k) t = Inr (serialize_item it st now)"
    by (rule record_from_carrier [OF h it(1) i it(3)]) (simp add: it(2))
  have "store_state_for get_task digest strf L k s = Inr (Some (state_value st))"
    by (simp add: store_state_for_def Some r)
  from known [OF Some it(1,2) r this] show thesis .
qed

lemma store_register_known:
  assumes "store_wf get_task invar digest L s"
    and "store_state_for get_task digest strf L (fingerprint digest it) s = Inr (Some v)"
  obtains it0 st where "valid_item it0" "fingerprint digest it0 = fingerprint digest it" "v = state_value st"
      "store_restore_or_register get_task save_task digest strf L it retry now s =
         (if st = SUCCEEDED \<or> st = BLOCKED \<and> \<not> retry then (Inr None, s)
          else (let it' = it0\<lparr>wi_state := PENDING, wi_attempts := (if st = BLOCKED then 0 else wi_attempts it0)\<rparr>
            in (Inr (Some it'), save_item get_task save_task digest L it' PENDING now s)))"
proof -
  have "hex_digest digest" using assms(1) by (simp add: store_wf_def)
  then have "fingerprint digest it \<noteq> ''control''" by (rule fingerprint_hex)
  from assms(1) this show thesis
  proof (cases rule: store_state_cases [where strf = strf])
    case unknown
    with assms(2) show thesis by simp
  next
    case (known t it0 st now0)
    have v: "v = state_value st" using known(5) assms(2) by simp
    have "state_value st = ''SUCCEEDED'' \<longleftrightarrow> st = SUCCEEDED" and "state_value st = ''BLOCKED'' \<longleftrightarrow> st = BLOCKED"
      by (cases st; simp)+
    then have "store_restore_or_register get_task save_task digest strf L it retry now s =
         (if st = SUCCEEDED \<or> st = BLOCKED \<and> \<not> retry then (Inr None, s)
          else (let it' = it0\<lparr>wi_state := PENDING, wi_attempts := (if st = BLOCKED then 0 else wi_attempts it0)\<rparr>
            in (Inr (Some it'), save_item get_task save_task digest L it' PENDING now s)))"
      using known(1,4)
      by (simp add: store_restore_or_register_def Let_def deserialize_item_def restore_serialized [OF known(2)])
    from that [OF known(2,3) v this] show thesis .
  qed
qed

lemma store_contract:
  "upgrade_ledger (store_restore_or_register get_task save_task digest strf L) (store_state_for get_task digest strf L)
     (fingerprint digest) (store_wf get_task invar digest L)"
proof
  fix s it retry now
  assume wf: "store_wf get_task invar digest L s" and v: "valid_item it"
  have h: "fingerprint digest it \<noteq> ''control''" using wf fingerprint_hex(2) by (simp add: store_wf_def)
  show "store_wf get_task invar digest L (snd (store_restore_or_register get_task save_task digest strf L it retry now s))"
  proof (rule store_state_cases [OF wf h, where strf = strf])
    assume "get_task s (ledger_task_id L (fingerprint digest it)) = None"
    then show ?thesis by (simp add: store_restore_or_register_def store_wf_save_item [OF wf v])
  next
    fix t it1 st1 now1
    assume "store_state_for get_task digest strf L (fingerprint digest it) s = Inr (Some (state_value st1))"
    from wf this show ?thesis
    proof (cases rule: store_register_known [where retry = retry and now = now])
      case (1 it0 st)
      then show ?thesis using wf by (auto simp: Let_def store_wf_save_item)
    qed
  qed
next
  fix s it assume wf: "store_wf get_task invar digest L s"
  then have h: "fingerprint digest it \<noteq> ''control''" using fingerprint_hex(2) by (simp add: store_wf_def)
  show "\<exists>st. store_state_for get_task digest strf L (fingerprint digest it) s = Inr st \<and>
      (\<forall>v. st = Some v \<longrightarrow> v \<in> range state_value)"
    by (rule store_state_cases [OF wf h, where strf = strf]) auto
next
  fix s it retry now
  assume wf: "store_wf get_task invar digest L s" and v: "valid_item it"
    and n: "store_state_for get_task digest strf L (fingerprint digest it) s = Inr None"
  then have h: "fingerprint digest it \<noteq> ''control''" using fingerprint_hex(2) by (simp add: store_wf_def)
  have "get_task s (ledger_task_id L (fingerprint digest it)) = None"
    by (rule store_state_cases [OF wf h, where strf = strf]) (use n in auto)
  then show "fst (store_restore_or_register get_task save_task digest strf L it retry now s) = Inr (Some it) \<and>
      store_state_for get_task digest strf L (fingerprint digest it)
        (snd (store_restore_or_register get_task save_task digest strf L it retry now s)) = Inr (Some (state_value (wi_state it)))"
    by (simp add: store_restore_or_register_def save_item_state [OF wf v])
next
  fix s it v retry now
  assume wf: "store_wf get_task invar digest L s"
    and k: "store_state_for get_task digest strf L (fingerprint digest it) s = Inr (Some v)"
    and v: "v = state_value SUCCEEDED \<or> v = state_value BLOCKED \<and> \<not> retry"
  from wf k show "store_restore_or_register get_task save_task digest strf L it retry now s = (Inr None, s)"
    by (cases rule: store_register_known [where retry = retry and now = now])
       (use v in \<open>auto simp del: state_value.simps\<close>)
next
  fix s it v retry now
  assume wf: "store_wf get_task invar digest L s" and it: "valid_item it"
    and k: "store_state_for get_task digest strf L (fingerprint digest it) s = Inr (Some v)"
    and v: "v \<noteq> state_value SUCCEEDED" "v \<noteq> state_value BLOCKED \<or> retry"
  from wf k show "\<exists>it'. fst (store_restore_or_register get_task save_task digest strf L it retry now s) = Inr (Some it') \<and>
      fingerprint digest it' = fingerprint digest it \<and> wi_state it' = PENDING \<and>
      store_state_for get_task digest strf L (fingerprint digest it)
        (snd (store_restore_or_register get_task save_task digest strf L it retry now s)) = Inr (Some (state_value PENDING))"
    by (cases rule: store_register_known [where retry = retry and now = now])
       (use v in \<open>auto simp: Let_def save_item_state [OF wf] simp del: state_value.simps\<close>)
next
  fix s it f retry now
  assume wf: "store_wf get_task invar digest L s" and v: "valid_item it" and f: "f \<noteq> fingerprint digest it"
  then have h: "fingerprint digest it \<noteq> ''control''" using fingerprint_hex(2) by (simp add: store_wf_def)
  show "store_state_for get_task digest strf L f (snd (store_restore_or_register get_task save_task digest strf L it retry now s)) =
      store_state_for get_task digest strf L f s"
  proof (rule store_state_cases [OF wf h, where strf = strf])
    assume "get_task s (ledger_task_id L (fingerprint digest it)) = None"
    then show ?thesis using f by (simp add: store_restore_or_register_def save_item_state [OF wf v])
  next
    fix t it1 st1 now1
    assume "store_state_for get_task digest strf L (fingerprint digest it) s = Inr (Some (state_value st1))"
    from wf this show ?thesis
      by (cases rule: store_register_known [where retry = retry and now = now])
         (use f in \<open>auto simp: Let_def save_item_state [OF wf]\<close>)
  qed
qed

text \<open>The engineering workers of the same store never get hold of a ledger record.\<close>

lemma claims_skip_ledger:
  assumes "store_wf get_task invar digest L s" and "k \<noteq> ''control''"
    and "get_task s (ledger_task_id L k) = Some t"
  shows "get_task (snd (claims nows s)) (ledger_task_id L k) = Some t \<and>
    (\<forall>t'. Some t' \<in> set (fst (claims nows s)) \<longrightarrow> et_id t' \<noteq> ledger_task_id L k)"
proof (rule parked_task_survives_claims)
  show "invar s" using assms(1) by (simp add: store_wf_def)
  show "et_status t \<notin> {TaskCreated, TaskRunning}" using assms by (auto simp: store_wf_def good_carrier_def)
qed (rule assms(3))

lemma store_wf_claims:
  assumes wf: "store_wf get_task invar digest L s"
  shows "store_wf get_task invar digest L (snd (claims nows s))"
proof -
  have i: "invar s" using wf by (simp add: store_wf_def)
  have "good_carrier digest L k t"
    if k: "k \<noteq> ''control''" and t: "get_task (snd (claims nows s)) (ledger_task_id L k) = Some t" for k t
  proof (cases "get_task s (ledger_task_id L k)")
    case None
    with claims_create_nothing [OF i None, of nows] t show ?thesis by simp
  next
    case (Some t0)
    with claims_skip_ledger [OF wf k Some, of nows] t have "t = t0" by simp
    with wf k Some show ?thesis by (simp add: store_wf_def)
  qed
  with wf invar_claims [OF i] show ?thesis by (simp add: store_wf_def)
qed

lemma claims_keep_state:
  assumes wf: "store_wf get_task invar digest L s" and k: "k \<noteq> ''control''"
    and s: "store_state_for get_task digest strf L k s = Inr (Some v)"
  shows "store_state_for get_task digest strf L k (snd (claims nows s)) = Inr (Some v)"
proof (cases "get_task s (ledger_task_id L k)")
  case None
  with s show ?thesis by (simp add: store_state_for_def)
next
  case (Some t)
  with claims_skip_ledger [OF wf k Some, of nows] s show ?thesis by (simp add: store_state_for_def)
qed

end

interpretation sqlite_ledger: upgrade_ledger "store_restore_or_register sq_get_task sq_save_task digest strf L"
  "store_state_for sq_get_task digest strf L" "fingerprint digest" "store_wf sq_get_task sq_invar digest L"
  for digest strf L
  by (rule sqlite.store_contract)

interpretation pg_ledger: upgrade_ledger "store_restore_or_register pg_get_task pg_save_task digest strf L"
  "store_state_for pg_get_task digest strf L" "fingerprint digest" "store_wf pg_get_task pg_invar digest L"
  for digest strf L
  by (rule pg.store_contract)

subsection \<open>Workers and restarts\<close>

text \<open>
  Engineering workers cannot run a ledger record: once an upgrade item is registered in an
  SQLite engineering store, no sequence of worker claims hands out its carrier task, and the state the ledger
  reports for it is unchanged by them.
\<close>
theorem workers_never_claim_ledger_records:
  assumes "store_wf sq_get_task sq_invar digest L s" and "valid_item it"
  shows "let s1 = snd (store_restore_or_register sq_get_task sq_save_task digest strf L it retry now s) in
    (\<forall>t. Some t \<in> set (fst (sqlite.claims nows s1)) \<longrightarrow> et_id t \<noteq> ledger_task_id L (fingerprint digest it)) \<and>
    store_state_for sq_get_task digest strf L (fingerprint digest it) (snd (sqlite.claims nows s1)) =
    store_state_for sq_get_task digest strf L (fingerprint digest it) s1"
proof -
  let ?s1 = "snd (store_restore_or_register sq_get_task sq_save_task digest strf L it retry now s)"
  let ?k = "fingerprint digest it"
  have wf: "store_wf sq_get_task sq_invar digest L ?s1" by (rule sqlite_ledger.wf_register [OF assms])
  then have k: "?k \<noteq> ''control''" using fingerprint_hex(2) by (simp add: store_wf_def)
  show ?thesis
  proof (rule sqlite.store_state_cases [OF wf k, where strf = strf])
    assume n: "sq_get_task ?s1 (ledger_task_id L ?k) = None"
      and st: "store_state_for sq_get_task digest strf L ?k ?s1 = Inr None"
    then have False using sqlite_ledger.register_known [OF assms, of strf retry now] by simp
    then show ?thesis by blast
  next
    fix t it1 st1 now1
    assume g: "sq_get_task ?s1 (ledger_task_id L ?k) = Some t"
      and st: "store_state_for sq_get_task digest strf L ?k ?s1 = Inr (Some (state_value st1))"
    show ?thesis using sqlite.claims_skip_ledger [OF wf k g, of nows] sqlite.claims_keep_state [OF wf k st, of nows] st
      by (simp add: Let_def)
  qed
qed

text \<open>
  C18: On PostgreSQL a finished upgrade is finished for good: once the ledger reports SUCCEEDED for
  a piece of work, then after any number of worker claims on the store and a restart that registers any valid items,
  retrying blocked work or not, that work is not handed out and still reported SUCCEEDED.
\<close>
theorem pg_finished_work_is_final:
  assumes "store_wf pg_get_task pg_invar digest L s" and "k \<noteq> ''control''"
    and "store_state_for pg_get_task digest strf L k s = Inr (Some ''SUCCEEDED'')" and "\<forall>it \<in> set its. valid_item it"
  shows "store_state_for pg_get_task digest strf L k
      (snd (pg_ledger.register_all digest strf L retry now its (snd (pg.claims nows s)))) = Inr (Some ''SUCCEEDED'') \<and>
    (\<forall>it. Inr (Some it) \<in> set (fst (pg_ledger.register_all digest strf L retry now its (snd (pg.claims nows s)))) \<longrightarrow>
       fingerprint digest it \<noteq> k)"
proof -
  have "store_state_for pg_get_task digest strf L k (snd (pg.claims nows s)) = Inr (Some (state_value SUCCEEDED))"
    using pg.claims_keep_state [OF assms(1,2,3)] by simp
  from pg_ledger.finished_never_rerun [OF pg.store_wf_claims [OF assms(1)] assms(4) this] show ?thesis by simp
qed

definition hex_demo_digest :: "json \<Rightarrow> string" where
  "hex_demo_digest j = replicate 64 CHR ''a''"

definition demo_ledger :: store_ledger where
  "demo_ledger = \<lparr>sl_namespace = ''n'', sl_max_checkpoints = 5, sl_task_prefix = ''p-''\<rparr>"

lemma demo_store_wf: "store_wf sq_get_task sq_invar hex_demo_digest demo_ledger sq_empty"
  "store_wf pg_get_task pg_invar hex_demo_digest demo_ledger pg_empty"
  by (simp_all add: store_wf_def hex_digest_def hex_demo_digest_def sq_invar_def pg_invar_def unique_key_def
      sq_empty_def pg_empty_def sq_get_task_def pg_get_task_def sql_get_def)

theorem workers_never_claim_ledger_records_witness:
  "{t. Some t \<in> set (fst (sqlite.claims [10, 20] (snd (store_restore_or_register sq_get_task sq_save_task
      hex_demo_digest (\<lambda>j. []) demo_ledger (demo_item ''a'') False 1 sq_empty)))) \<and>
     et_id t = ledger_task_id demo_ledger (replicate 64 CHR ''a'')} = {}"
  using workers_never_claim_ledger_records [OF demo_store_wf(1) demo_item_valid, of "\<lambda>j. []" False 1 "[10, 20]"]
  by (simp add: Let_def fingerprint_def hex_demo_digest_def)

theorem pg_finished_work_is_final_witness:
  "store_state_for pg_get_task hex_demo_digest (\<lambda>j. []) demo_ledger (replicate 64 CHR ''a'')
      (snd (pg_ledger.register_all hex_demo_digest (\<lambda>j. []) demo_ledger True 2 [demo_item ''a'']
      (snd (pg.claims [10, 20] (save_item pg_get_task pg_save_task hex_demo_digest demo_ledger (demo_item ''a'') SUCCEEDED 1 pg_empty)))))
    = Inr (Some ''SUCCEEDED'')"
proof -
  let ?s = "save_item pg_get_task pg_save_task hex_demo_digest demo_ledger (demo_item ''a'') SUCCEEDED 1 pg_empty"
  have k: "fingerprint hex_demo_digest (demo_item ''a'') = replicate 64 CHR ''a''"
    by (simp add: fingerprint_def hex_demo_digest_def)
  have "store_state_for pg_get_task hex_demo_digest (\<lambda>j. []) demo_ledger (replicate 64 CHR ''a'') ?s = Inr (Some ''SUCCEEDED'')"
    using pg.save_item_state [OF demo_store_wf(2) demo_item_valid, of "\<lambda>j. []" "replicate 64 CHR ''a''" SUCCEEDED 1]
    by (simp add: k)
  moreover have "replicate 64 CHR ''a'' \<noteq> ''control''" by (simp add: numeral_eq_Suc)
  moreover have "\<forall>it \<in> set [demo_item ''a'']. valid_item it" by (simp add: demo_item_valid)
  ultimately show ?thesis
    using pg_finished_work_is_final [OF pg.store_wf_save_item [OF demo_store_wf(2) demo_item_valid]] by blast
qed

end
