(* ===== verification/UpgradeFence.thy ===== *)
theory UpgradeFence
  imports StoreLedger
begin

text \<open>
  Who may run the continuous upgrade loop over a shared database: the session advisory lease of
  \<open>src/zcoder/services/upgrade_postgres_lease.py\<close>, the monotonic fence of \<open>upgrade_postgres_fence.py\<close>, and their
  composition in \<open>upgrade_postgres_runtime.py\<close>. A transaction is one step on the tables of \<open>EngineeringStore\<close>; the
  connection a scope hands out is a session number, an argument of the operation, and a failing checkout is its error
  text. Statements that fail for other reasons are not modelled.
\<close>

subsection \<open>The advisory lease\<close>

text \<open>The server's session locks: per key the session that holds it and how often.\<close>

type_synonym advisory_locks = "(int \<times> nat \<times> nat) list"

definition pg_try_advisory_lock :: "int \<Rightarrow> nat \<Rightarrow> advisory_locks \<Rightarrow> bool \<times> advisory_locks" where
  "pg_try_advisory_lock k c locks =
     (case map_of locks k of
        None \<Rightarrow> (True, dict_set locks k (c, 1))
      | Some (c', n) \<Rightarrow> if c' = c then (True, dict_set locks k (c, n + 1)) else (False, locks))"

definition pg_advisory_unlock :: "int \<Rightarrow> nat \<Rightarrow> advisory_locks \<Rightarrow> bool \<times> advisory_locks" where
  "pg_advisory_unlock k c locks =
     (case map_of locks k of
        None \<Rightarrow> (False, locks)
      | Some (c', n) \<Rightarrow>
          if c' \<noteq> c then (False, locks)
          else (True, if n \<le> 1 then AList.delete k locks else dict_set locks k (c, n - 1)))"

text \<open>The end of a session releases all it holds.\<close>

definition end_session :: "nat \<Rightarrow> advisory_locks \<Rightarrow> advisory_locks" where
  "end_session c locks = filter (\<lambda>(k, c', n). c' \<noteq> c) locks"

definition advisory_lock_key :: "(string \<Rightarrow> nat) \<Rightarrow> string \<Rightarrow> string + int" where
  "advisory_lock_key sha64 namespace =
     (let normalized = py_strip namespace in
      if normalized = [] then Inl ''namespace must not be empty''
      else (let unsigned = int (sha64 normalized) in Inr (if unsigned < 2 ^ 63 then unsigned else unsigned - 2 ^ 64)))"

record pg_lease =
  pl_namespace :: string
  pl_lock_key :: int
  pl_connection :: "nat option"

definition pg_lease_new :: "(string \<Rightarrow> nat) \<Rightarrow> string \<Rightarrow> string + pg_lease" where
  "pg_lease_new sha64 namespace =
     (case advisory_lock_key sha64 (py_strip namespace) of
        Inl e \<Rightarrow> Inl e
      | Inr k \<Rightarrow> Inr \<lparr>pl_namespace = py_strip namespace, pl_lock_key = k, pl_connection = None\<rparr>)"

definition pg_acquire :: "string + nat \<Rightarrow> pg_lease \<Rightarrow> advisory_locks \<Rightarrow> (string + unit) \<times> pg_lease \<times> advisory_locks" where
  "pg_acquire checkout L locks =
     (if pl_connection L \<noteq> None then (Inl ''PostgreSQL upgrade run lease is already acquired'', L, locks)
      else (case checkout of
          Inl e \<Rightarrow> (Inl (''unable to acquire PostgreSQL upgrade run lease: '' @ e), L, locks)
        | Inr c \<Rightarrow>
            (case pg_try_advisory_lock (pl_lock_key L) c locks of
               (True, locks') \<Rightarrow> (Inr (), L\<lparr>pl_connection := Some c\<rparr>, locks')
             | (False, locks') \<Rightarrow> (Inl (''PostgreSQL upgrade run lease already held: '' @ pl_namespace L), L, locks'))))"

definition pg_release :: "pg_lease \<Rightarrow> advisory_locks \<Rightarrow> (string + unit) \<times> pg_lease \<times> advisory_locks" where
  "pg_release L locks =
     (case pl_connection L of
        None \<Rightarrow> (Inr (), L, locks)
      | Some c \<Rightarrow>
          (case pg_advisory_unlock (pl_lock_key L) c locks of
             (True, locks') \<Rightarrow> (Inr (), L\<lparr>pl_connection := None\<rparr>, locks')
           | (False, locks') \<Rightarrow> (Inl (''PostgreSQL upgrade run lease ownership lost before release: '' @ pl_namespace L),
               L\<lparr>pl_connection := None\<rparr>, locks')))"

subsection \<open>The fence\<close>

datatype fence_error = FenceError string | StaleFence string

record fence_token =
  ft_namespace :: string
  ft_control_task_id :: string
  ft_generation :: int

record fence =
  fn_namespace :: string
  fn_control_task_id :: string

definition fence_new :: "string \<Rightarrow> string \<Rightarrow> string + fence" where
  "fence_new namespace task_id =
     (if py_strip namespace = [] then Inl ''namespace must not be empty''
      else if py_strip task_id = [] then Inl ''control_task_id must not be empty''
      else Inr \<lparr>fn_namespace = py_strip namespace, fn_control_task_id = py_strip task_id\<rparr>)"

abbreviation FENCE_KEY :: string where "FENCE_KEY \<equiv> ''zcoder_upgrade_ledger''"

definition validated_marker :: "fence \<Rightarrow> jobj \<Rightarrow> fence_error + jobj" where
  "validated_marker F metadata =
     (case map_of metadata FENCE_KEY of
        Some (JObj marker) \<Rightarrow>
          (if \<not> is_one (map_of marker ''schema_version'') then Inl (FenceError ''unsupported PostgreSQL upgrade fence schema'')
           else if map_of marker ''record_type'' \<noteq> Some (JStr ''control'')
           then Inl (FenceError ''PostgreSQL upgrade fence requires a control record'')
           else if map_of marker ''namespace'' \<noteq> Some (JStr (fn_namespace F))
           then Inl (FenceError ''PostgreSQL upgrade fence namespace mismatch'')
           else Inr marker)
      | _ \<Rightarrow> Inl (FenceError ''invalid PostgreSQL upgrade fence metadata''))"

definition fence_generation :: "jobj \<Rightarrow> fence_error + int" where
  "fence_generation marker =
     (case dict_get marker ''fence_generation'' (JInt 0) of
        JInt g \<Rightarrow> if g < 0 then Inl (FenceError ''invalid PostgreSQL upgrade fence generation'') else Inr g
      | _ \<Rightarrow> Inl (FenceError ''invalid PostgreSQL upgrade fence generation''))"

definition new_control_metadata :: "fence \<Rightarrow> int \<Rightarrow> jobj" where
  "new_control_metadata F generation =
     [(FENCE_KEY, JObj [(''schema_version'', JInt 1), (''record_type'', JStr ''control''),
        (''namespace'', JStr (fn_namespace F)), (''checkpoints'', JArr []), (''fence_generation'', JInt generation)])]"

definition with_generation :: "jobj \<Rightarrow> jobj \<Rightarrow> int \<Rightarrow> jobj" where
  "with_generation metadata marker generation =
     dict_set metadata FENCE_KEY (JObj (dict_set marker ''fence_generation'' (JInt generation)))"

definition acquire_token :: "fence \<Rightarrow> real \<Rightarrow> pg_db \<Rightarrow> (fence_error + fence_token) \<times> pg_db" where
  "acquire_token F now db =
     (let token = (\<lambda>g. \<lparr>ft_namespace = fn_namespace F, ft_control_task_id = fn_control_task_id F, ft_generation = g\<rparr>) in
      case pg_get_task db (fn_control_task_id F) of
        None \<Rightarrow> (Inr (token 1), db\<lparr>pg_tasks := pg_tasks db @ [\<lparr>et_id = fn_control_task_id F,
            et_task_description = ''Continuous upgrade ledger control: '' @ fn_namespace F, et_status = TaskPaused,
            et_created_at = now, et_updated_at = now, et_metadata = new_control_metadata F 1\<rparr>]\<rparr>)
      | Some row \<Rightarrow>
          (case validated_marker F (et_metadata row) of
             Inl e \<Rightarrow> (Inl e, db)
           | Inr marker \<Rightarrow>
               (case fence_generation marker of
                  Inl e \<Rightarrow> (Inl e, db)
                | Inr g \<Rightarrow> (Inr (token (g + 1)),
                    db\<lparr>pg_tasks := sql_update (\<lambda>t. et_id t = fn_control_task_id F)
                      (\<lambda>t. t\<lparr>et_status := TaskPaused, et_updated_at := now,
                          et_metadata := with_generation (et_metadata row) marker (g + 1)\<rparr>) (pg_tasks db)\<rparr>))))"

definition validate_token_identity :: "fence \<Rightarrow> fence_token \<Rightarrow> fence_error + unit" where
  "validate_token_identity F token =
     (if ft_namespace token \<noteq> fn_namespace F \<or> ft_control_task_id token \<noteq> fn_control_task_id F
      then Inl (StaleFence ''PostgreSQL upgrade fence token identity mismatch'')
      else if ft_generation token < 1 then Inl (StaleFence ''PostgreSQL upgrade fence generation must be >= 1'')
      else Inr ())"

definition assert_generation :: "fence \<Rightarrow> engineering_task option \<Rightarrow> fence_token \<Rightarrow> fence_error + unit" where
  "assert_generation F row token =
     (case row of
        None \<Rightarrow> Inl (StaleFence ''PostgreSQL upgrade fence control row is missing'')
      | Some r \<Rightarrow>
          (case validated_marker F (et_metadata r) of
             Inl e \<Rightarrow> Inl e
           | Inr marker \<Rightarrow>
               (case fence_generation marker of
                  Inl e \<Rightarrow> Inl e
                | Inr current \<Rightarrow>
                    if current \<noteq> ft_generation token
                    then Inl (StaleFence (''stale PostgreSQL upgrade fence: expected generation '' @
                      string_of_int (ft_generation token) @ '', current '' @ string_of_int current))
                    else Inr ())))"

definition assert_current :: "fence \<Rightarrow> fence_token \<Rightarrow> pg_db \<Rightarrow> fence_error + unit" where
  "assert_current F token db =
     (case validate_token_identity F token of
        Inl e \<Rightarrow> Inl e
      | Inr _ \<Rightarrow> assert_generation F (pg_get_task db (fn_control_task_id F)) token)"

text \<open>A saved control record keeps the generation of the token, whatever the caller's copy says.\<close>

definition fenced_save_task :: "fence \<Rightarrow> real \<Rightarrow> engineering_task \<Rightarrow> fence_token \<Rightarrow> pg_db \<Rightarrow> (fence_error + engineering_task) \<times> pg_db" where
  "fenced_save_task F now t token db =
     (case assert_current F token db of
        Inl e \<Rightarrow> (Inl e, db)
      | Inr _ \<Rightarrow>
          (let metadata =
             (if et_id t = fn_control_task_id F
              then (case validated_marker F (et_metadata t) of
                  Inl e \<Rightarrow> Inl e
                | Inr marker \<Rightarrow> Inr (with_generation (et_metadata t) marker (ft_generation token)))
              else Inr (et_metadata t))
           in case metadata of
                Inl e \<Rightarrow> (Inl e, db)
              | Inr m \<Rightarrow> (Inr (t\<lparr>et_updated_at := now\<rparr>), pg_save_task now (t\<lparr>et_metadata := m\<rparr>) db)))"

subsection \<open>The composed lease and the store behind it\<close>

record fenced_lease =
  fl_advisory :: pg_lease
  fl_token :: "fence_token option"

datatype lease_error = LeaseError string | LeaseFence fence_error

definition fenced_acquire ::
  "fence \<Rightarrow> string + nat \<Rightarrow> real \<Rightarrow> fenced_lease \<Rightarrow> advisory_locks \<Rightarrow> pg_db
     \<Rightarrow> (lease_error + unit) \<times> fenced_lease \<times> advisory_locks \<times> pg_db" where
  "fenced_acquire F checkout now L locks db =
     (if fl_token L \<noteq> None then (Inl (LeaseError ''PostgreSQL fenced run lease is already acquired''), L, locks, db)
      else (case pg_acquire checkout (fl_advisory L) locks of
          (Inl e, A, locks') \<Rightarrow> (Inl (LeaseError e), L\<lparr>fl_advisory := A\<rparr>, locks', db)
        | (Inr _, A, locks') \<Rightarrow>
            (case acquire_token F now db of
               (Inr token, db') \<Rightarrow> (Inr (), L\<lparr>fl_advisory := A, fl_token := Some token\<rparr>, locks', db')
             | (Inl e, db') \<Rightarrow>
                 (case pg_release A locks' of
                    (Inl _, A', locks'') \<Rightarrow>
                      (Inl (LeaseError ''unable to roll back PostgreSQL advisory lease after fence acquisition failure''),
                       L\<lparr>fl_advisory := A'\<rparr>, locks'', db')
                  | (Inr _, A', locks'') \<Rightarrow> (Inl (LeaseFence e), L\<lparr>fl_advisory := A'\<rparr>, locks'', db')))))"

definition fenced_release :: "fenced_lease \<Rightarrow> advisory_locks \<Rightarrow> (lease_error + unit) \<times> fenced_lease \<times> advisory_locks" where
  "fenced_release L locks =
     (case fl_token L of
        None \<Rightarrow> (Inr (), L, locks)
      | Some _ \<Rightarrow>
          (case pg_release (fl_advisory L) locks of
             (r, A, locks') \<Rightarrow> (map_sum LeaseError (\<lambda>x. x) r, L\<lparr>fl_advisory := A, fl_token := None\<rparr>, locks')))"

definition require_token :: "fenced_lease \<Rightarrow> lease_error + fence_token" where
  "require_token L = (case fl_token L of None \<Rightarrow> Inl (LeaseError ''PostgreSQL fenced run lease is not acquired'') | Some t \<Rightarrow> Inr t)"

text \<open>\<open>FencedUpgradeEngineeringStore.save_task\<close>: the fence with the token of the active lease.\<close>

definition store_save_fenced :: "fence \<Rightarrow> fenced_lease \<Rightarrow> real \<Rightarrow> engineering_task \<Rightarrow> pg_db \<Rightarrow> (lease_error + engineering_task) \<times> pg_db" where
  "store_save_fenced F L now t db =
     (case require_token L of
        Inl e \<Rightarrow> (Inl e, db)
      | Inr token \<Rightarrow> (case fenced_save_task F now t token db of (r, db') \<Rightarrow> (map_sum LeaseFence (\<lambda>x. x) r, db')))"

subsection \<open>Stale runners\<close>

text \<open>The generation the control row holds, if the row and its marker are sound.\<close>

definition generation_of :: "fence \<Rightarrow> pg_db \<Rightarrow> int option" where
  "generation_of F db =
     (case pg_get_task db (fn_control_task_id F) of
        None \<Rightarrow> None
      | Some row \<Rightarrow> (case validated_marker F (et_metadata row) of
          Inl _ \<Rightarrow> None
        | Inr marker \<Rightarrow> (case fence_generation marker of Inl _ \<Rightarrow> None | Inr g \<Rightarrow> Some g)))"

text \<open>What runners, stale ones included, and workers do with the tables.\<close>

datatype fence_op =
    OpAcquire real
  | OpSave real engineering_task fence_token
  | OpClaim real
  | OpWorkerSave real engineering_task

fun fence_op_step :: "fence \<Rightarrow> fence_op \<Rightarrow> pg_db \<Rightarrow> pg_db" where
  "fence_op_step F (OpAcquire now) db = snd (acquire_token F now db)"
| "fence_op_step F (OpSave now t token) db = snd (fenced_save_task F now t token db)"
| "fence_op_step F (OpClaim now) db = snd (pg_claim_task now db)"
| "fence_op_step F (OpWorkerSave now t) db = pg_save_task now t db"

fun worker_saves_elsewhere :: "fence \<Rightarrow> fence_op \<Rightarrow> bool" where
  "worker_saves_elsewhere F (OpWorkerSave now t) = (et_id t \<noteq> fn_control_task_id F)"
| "worker_saves_elsewhere F _ = True"

abbreviation fence_ops :: "fence \<Rightarrow> fence_op list \<Rightarrow> pg_db \<Rightarrow> pg_db" where
  "fence_ops F ops db \<equiv> fold (fence_op_step F) ops db"

lemma validated_with_generation:
  assumes "validated_marker F metadata = Inr marker" "0 \<le> g"
  shows "validated_marker F (with_generation metadata0 marker g) = Inr (dict_set marker ''fence_generation'' (JInt g))"
    "fence_generation (dict_set marker ''fence_generation'' (JInt g)) = Inr g"
  using assms
  by (auto simp: validated_marker_def with_generation_def fence_generation_def dict_get_set split: option.splits json.splits if_splits)

lemma fence_generation_nonneg: "fence_generation marker = Inr g \<Longrightarrow> 0 \<le> g"
  by (auto simp: fence_generation_def split: json.splits if_splits)

lemma generation_of_SomeE:
  assumes "generation_of F db = Some g"
  obtains row marker where "pg_get_task db (fn_control_task_id F) = Some row" "validated_marker F (et_metadata row) = Inr marker"
    "fence_generation marker = Inr g"
  using assms by (auto simp: generation_of_def split: option.splits sum.splits)

lemma acquire_token_generation:
  assumes "acquire_token F now db = (Inr tok, db')"
  shows "generation_of F db' = Some (ft_generation tok)" "ft_namespace tok = fn_namespace F"
    "ft_control_task_id tok = fn_control_task_id F" "1 \<le> ft_generation tok"
    "generation_of F db = Some g \<Longrightarrow> ft_generation tok = g + 1"
proof -
  have "generation_of F db' = Some (ft_generation tok) \<and> ft_namespace tok = fn_namespace F \<and>
    ft_control_task_id tok = fn_control_task_id F \<and> 1 \<le> ft_generation tok \<and> (generation_of F db = Some g \<longrightarrow> ft_generation tok = g + 1)"
  proof (cases "pg_get_task db (fn_control_task_id F)")
    case None
    have m: "validated_marker F (new_control_metadata F 1) = Inr [(''schema_version'', JInt 1), (''record_type'', JStr ''control''),
        (''namespace'', JStr (fn_namespace F)), (''checkpoints'', JArr []), (''fence_generation'', JInt 1)]"
      by (simp add: validated_marker_def new_control_metadata_def is_one_def)
    define row where "row = \<lparr>et_id = fn_control_task_id F,
            et_task_description = ''Continuous upgrade ledger control: '' @ fn_namespace F, et_status = TaskPaused,
            et_created_at = now, et_updated_at = now, et_metadata = new_control_metadata F 1\<rparr>"
    have tok: "tok = \<lparr>ft_namespace = fn_namespace F, ft_control_task_id = fn_control_task_id F, ft_generation = 1\<rparr>"
      and db': "db' = db\<lparr>pg_tasks := pg_tasks db @ [row]\<rparr>"
      using assms None by (simp_all add: acquire_token_def row_def)
    have "pg_get_task db' (fn_control_task_id F) = Some row"
      using None by (simp add: db' pg_get_task_def sql_get_append) (simp add: sql_get_def row_def)
    then have "generation_of F db' = Some 1"
      by (simp add: generation_of_def row_def m fence_generation_def dict_get_def)
    moreover have "generation_of F db = None" using None by (simp add: generation_of_def)
    ultimately show ?thesis using tok by simp
  next
    case (Some row)
    then have k: "et_id row = fn_control_task_id F" by (auto simp: pg_get_task_def dest: sql_get_SomeD)
    obtain marker g0 where m: "validated_marker F (et_metadata row) = Inr marker" "fence_generation marker = Inr g0"
      using assms Some by (auto simp: acquire_token_def Let_def split: sum.splits)
    note n = fence_generation_nonneg [OF m(2)]
    then have n1: "0 \<le> g0 + 1" by simp
    note v = validated_with_generation(1) [OF m(1) n1, of "et_metadata row"] validated_with_generation(2) [OF m(1) n1] n
    have tok: "tok = \<lparr>ft_namespace = fn_namespace F, ft_control_task_id = fn_control_task_id F, ft_generation = g0 + 1\<rparr>"
      and db': "db' = db\<lparr>pg_tasks := sql_update (\<lambda>t. et_id t = fn_control_task_id F) (\<lambda>t. t\<lparr>et_status := TaskPaused,
        et_updated_at := now, et_metadata := with_generation (et_metadata row) marker (g0 + 1)\<rparr>) (pg_tasks db)\<rparr>"
      using assms Some m by (auto simp: acquire_token_def Let_def)
    have "pg_get_task db' (fn_control_task_id F) = Some (row\<lparr>et_status := TaskPaused, et_updated_at := now,
        et_metadata := with_generation (et_metadata row) marker (g0 + 1)\<rparr>)"
      using Some k by (simp add: db' pg_get_task_def sql_get_update)
    then have "generation_of F db' = Some (g0 + 1)" using v by (simp add: generation_of_def)
    moreover have "generation_of F db = Some g0" using Some m by (simp add: generation_of_def)
    ultimately show ?thesis using tok v(3) by simp
  qed
  then show "generation_of F db' = Some (ft_generation tok)" "ft_namespace tok = fn_namespace F"
    "ft_control_task_id tok = fn_control_task_id F" "1 \<le> ft_generation tok"
    "generation_of F db = Some g \<Longrightarrow> ft_generation tok = g + 1" by simp_all
qed

lemma assert_current_generation:
  assumes "assert_current F tok db = Inr u"
  shows "generation_of F db = Some (ft_generation tok)" "1 \<le> ft_generation tok"
  using assms by (auto simp: assert_current_def validate_token_identity_def assert_generation_def generation_of_def
      split: sum.splits option.splits if_splits)

lemma fenced_save_keeps_generation:
  assumes "fenced_save_task F now t tok db = (Inr t', db')"
  shows "generation_of F db' = generation_of F db"
proof -
  obtain u where a: "assert_current F tok db = Inr u" using assms by (auto simp: fenced_save_task_def split: sum.splits)
  note g = assert_current_generation [OF a]
  obtain row where row: "pg_get_task db (fn_control_task_id F) = Some row" using g(1) by (auto elim: generation_of_SomeE)
  show ?thesis
  proof (cases "et_id t = fn_control_task_id F")
    case True
    obtain marker where m: "validated_marker F (et_metadata t) = Inr marker"
      and db': "db' = pg_save_task now (t\<lparr>et_metadata := with_generation (et_metadata t) marker (ft_generation tok)\<rparr>) db"
      using assms a True by (auto simp: fenced_save_task_def Let_def split: sum.splits)
    have "0 \<le> ft_generation tok" using g(2) by simp
    note v = validated_with_generation(1) [OF m this, of "et_metadata t"] validated_with_generation(2) [OF m this]
    show ?thesis using True v g(1) by (simp add: db' generation_of_def pg_get_task_def pg_get_save)
  next
    case False
    then have "db' = pg_save_task now t db" using assms a by (simp add: fenced_save_task_def Let_def)
    then show ?thesis using False by (simp add: generation_of_def pg_get_task_def pg_get_save)
  qed
qed

lemma claim_keeps_generation: "generation_of F (snd (pg_claim_task now db)) = generation_of F db"
proof (cases "sql_first_by et_created_at (filter (\<lambda>t. et_status t = TaskCreated) (pg_tasks db))")
  case None
  then show ?thesis by (simp add: pg_claim_task_def)
next
  case (Some t)
  then show ?thesis
    by (cases "sql_get et_id (fn_control_task_id F) (pg_tasks db)")
       (simp_all add: pg_claim_task_def generation_of_def pg_get_task_def sql_get_update)
qed

lemma fence_op_generation:
  assumes "generation_of F db = Some g" "worker_saves_elsewhere F op"
  shows "\<exists>g'. generation_of F (fence_op_step F op db) = Some g' \<and> g \<le> g'"
proof (cases op)
  case (OpAcquire now)
  obtain row marker where m: "pg_get_task db (fn_control_task_id F) = Some row" "validated_marker F (et_metadata row) = Inr marker"
    "fence_generation marker = Inr g" using assms(1) by (rule generation_of_SomeE)
  then obtain tok db' where a: "acquire_token F now db = (Inr tok, db')" by (simp add: acquire_token_def Let_def)
  then show ?thesis using acquire_token_generation(1,5) [OF a] assms(1) OpAcquire by simp
next
  case (OpSave now t tok)
  obtain r db' where s: "fenced_save_task F now t tok db = (r, db')" by fastforce
  show ?thesis
  proof (cases r)
    case (Inl e)
    then have "db' = db" using s by (auto simp: fenced_save_task_def Let_def split: sum.splits if_splits)
    then show ?thesis using assms(1) OpSave s by simp
  next
    case (Inr t')
    then show ?thesis using fenced_save_keeps_generation s assms(1) OpSave by simp
  qed
next
  case (OpClaim now)
  then show ?thesis using assms(1) by (simp add: claim_keeps_generation)
next
  case (OpWorkerSave now t)
  then show ?thesis using assms by (simp add: generation_of_def pg_get_task_def pg_get_save)
qed

lemma fence_ops_generation:
  assumes "generation_of F db = Some g" "list_all (worker_saves_elsewhere F) ops"
  shows "\<exists>g'. generation_of F (fence_ops F ops db) = Some g' \<and> g \<le> g'"
  using assms
proof (induction ops arbitrary: db g)
  case (Cons op ops)
  obtain g1 where g1: "generation_of F (fence_op_step F op db) = Some g1" "g \<le> g1"
    using fence_op_generation [OF Cons.prems(1), of op] Cons.prems(2) by auto
  obtain g2 where "generation_of F (fence_ops F ops (fence_op_step F op db)) = Some g2" "g1 \<le> g2"
    using Cons.IH [OF g1(1)] Cons.prems(2) by auto
  then show ?case using g1(2) by auto
qed simp

text \<open>
  C9: A runner that lost its place cannot write: once a later runner acquired a fence token, every save with the earlier
  token is refused as stale and changes nothing, however many runners acquire, save with any tokens, and workers claim and
  save tasks before and after; and tokens are issued with strictly increasing generations.
\<close>
theorem stale_runner_cannot_save:
  assumes "acquire_token F now1 db0 = (Inr tok1, db1)" "list_all (worker_saves_elsewhere F) ops1"
    and "acquire_token F now2 (fence_ops F ops1 db1) = (Inr tok2, db2)" "list_all (worker_saves_elsewhere F) ops2"
  shows "ft_generation tok1 < ft_generation tok2 \<and>
    (\<exists>m. fenced_save_task F now t tok1 (fence_ops F ops2 db2) = (Inl (StaleFence m), fence_ops F ops2 db2))"
proof -
  note a1 = acquire_token_generation [OF assms(1)] and a2 = acquire_token_generation [OF assms(3)]
  obtain g1 where g1: "generation_of F (fence_ops F ops1 db1) = Some g1" "ft_generation tok1 \<le> g1"
    using fence_ops_generation [OF a1(1) assms(2)] by blast
  then have lt: "ft_generation tok1 < ft_generation tok2" using a2(5) by simp
  obtain g2 where g2: "generation_of F (fence_ops F ops2 db2) = Some g2" "ft_generation tok2 \<le> g2"
    using fence_ops_generation [OF a2(1) assms(4)] by blast
  then obtain row marker where "pg_get_task (fence_ops F ops2 db2) (fn_control_task_id F) = Some row"
    "validated_marker F (et_metadata row) = Inr marker" "fence_generation marker = Inr g2" by (auto elim: generation_of_SomeE)
  moreover have "g2 \<noteq> ft_generation tok1" using lt g2(2) by simp
  ultimately have "\<exists>m. assert_current F tok1 (fence_ops F ops2 db2) = Inl (StaleFence m)"
    using a1(2-4) by (simp add: assert_current_def validate_token_identity_def assert_generation_def)
  then show ?thesis using lt by (auto simp: fenced_save_task_def)
qed

theorem stale_runner_cannot_save_witness:
  "\<exists>tok1 db1 tok2 db2. acquire_token \<lparr>fn_namespace = ''n'', fn_control_task_id = ''c''\<rparr> 1 pg_empty = (Inr tok1, db1) \<and>
     acquire_token \<lparr>fn_namespace = ''n'', fn_control_task_id = ''c''\<rparr> 2 db1 = (Inr tok2, db2) \<and>
     (\<exists>m. fenced_save_task \<lparr>fn_namespace = ''n'', fn_control_task_id = ''c''\<rparr> 4
        \<lparr>et_id = ''t'', et_task_description = ''d'', et_status = TaskPaused, et_created_at = 3, et_updated_at = 3, et_metadata = []\<rparr>
        tok1 (snd (pg_claim_task 3 db2)) = (Inl (StaleFence m), snd (pg_claim_task 3 db2)))"
proof -
  let ?F = "\<lparr>fn_namespace = ''n'', fn_control_task_id = ''c''\<rparr>"
  obtain tok1 db1 where a1: "acquire_token ?F 1 pg_empty = (Inr tok1, db1)"
    by (simp add: acquire_token_def pg_empty_def pg_get_task_def sql_get_def)
  from acquire_token_generation(1) [OF a1] obtain row marker g where "pg_get_task db1 ''c'' = Some row"
    "validated_marker ?F (et_metadata row) = Inr marker" "fence_generation marker = Inr g" by (auto elim: generation_of_SomeE)
  then obtain tok2 db2 where a2: "acquire_token ?F 2 db1 = (Inr tok2, db2)" by (simp add: acquire_token_def Let_def)
  show ?thesis
    using stale_runner_cannot_save [OF a1, of "[]" 2 tok2 db2 "[OpClaim 3]"] a1 a2 by auto
qed

end
