(* ===== verification/Pipeline.thy ===== *)
theory Pipeline
  imports UpgradeLedger
begin

text \<open>
  \<open>src/zcoder/services/continuous_engineering.py\<close>: the pipeline that joins the upgrade loop with a durable ledger, an
  exclusive lease and the engineering runtime. The ledger is a record of its operations over a state \<open>'s\<close>; the runtime
  (\<open>AutonomousEngineeringLoop\<close>), the repository snapshot, the CI repair, the lease and the work sources act on a world \<open>'e\<close>,
  from which the clock is read too. The pipeline keeps the items by id and shares them with the loop: what the loop writes
  to an item after it was handed to the executor is seen at the next checkpoint, where \<open>refresh\<close> looks it up.
\<close>

subsection \<open>The executor\<close>

record execution =
  ex_task_id :: string
  ex_status :: string
  ex_ci_repair_passed :: "bool option"

record task_request =
  tq_task_id :: string
  tq_project_id :: string
  tq_description :: string
  tq_title :: string
  tq_source :: "json option"
  tq_risk :: "json option"

record loop_request =
  lq_task_id :: string
  lq_project_id :: string
  lq_issue_prompt :: string
  lq_codebase :: "(string \<times> string) list"
  lq_failing_initially :: bool

record 'e executor =
  xo_project_id :: string
  xo_task_source :: "json option"
  xo_risk_mapper :: "(string \<Rightarrow> py_exc + json) option"
  xo_ci_repair :: "(work_item \<Rightarrow> execution \<Rightarrow> 'e \<Rightarrow> (py_exc + bool) \<times> 'e) option"
  xo_snapshot :: "'e \<Rightarrow> (py_exc + (string \<times> string) list) \<times> 'e"
  xo_create_task :: "task_request \<Rightarrow> 'e \<Rightarrow> py_exc option \<times> 'e"
  xo_run_loop :: "loop_request \<Rightarrow> 'e \<Rightarrow> (py_exc + string) \<times> 'e"
  xo_digest :: "json \<Rightarrow> string"
  xo_str :: "json \<Rightarrow> string"

definition execution_prompt :: "(json \<Rightarrow> string) \<Rightarrow> work_item \<Rightarrow> string" where
  "execution_prompt strf it =
     (let description = py_strip (py_str strf (dict_get (wi_payload it) ''description'' (JStr []))) in
      ''Work kind: '' @ wi_kind it @ [CHR 0x0A] @ ''Title: '' @ wi_title it @ [CHR 0x0A] @ ''Risk: '' @ wi_risk it @ [CHR 0x0A] @
      (if description = [] then [] else ''Description: '' @ description @ [CHR 0x0A]) @
      ''Preserve tests, security gates, backward compatibility, and repository conventions.'')"

text \<open>\<open>item.payload.get("project_id") or self.project_id\<close>.\<close>

definition execution_project :: "'e executor \<Rightarrow> work_item \<Rightarrow> string" where
  "execution_project X it =
     (case map_of (wi_payload it) ''project_id'' of
        Some j \<Rightarrow> if truthy j then py_str (xo_str X) j else xo_project_id X
      | None \<Rightarrow> xo_project_id X)"

definition executor_execute :: "'e executor \<Rightarrow> work_item \<Rightarrow> 'e \<Rightarrow> (py_exc + execution) \<times> 'e" where
  "executor_execute X it e =
     (let task_id = ''upgrade25-'' @ take 20 (fingerprint (xo_digest X) it); prompt = execution_prompt (xo_str X) it;
          project_id = execution_project X it
      in case (case xo_risk_mapper X of None \<Rightarrow> Inr None | Some f \<Rightarrow> map_sum (\<lambda>x. x) Some (f (wi_risk it))) of
           Inl x \<Rightarrow> (Inl x, e)
         | Inr risk \<Rightarrow>
             (case xo_create_task X \<lparr>tq_task_id = task_id, tq_project_id = project_id, tq_description = prompt,
                 tq_title = wi_title it, tq_source = xo_task_source X, tq_risk = risk\<rparr> e of
                (Some x, e1) \<Rightarrow> (Inl x, e1)
              | (None, e1) \<Rightarrow>
                  (case xo_snapshot X e1 of
                     (Inl x, e2) \<Rightarrow> (Inl x, e2)
                   | (Inr codebase, e2) \<Rightarrow>
                       (case xo_run_loop X \<lparr>lq_task_id = task_id, lq_project_id = project_id, lq_issue_prompt = prompt,
                           lq_codebase = codebase, lq_failing_initially =
                             truthy (dict_get (wi_payload it) ''failing_initially'' (JBool (wi_kind it = kind_value REPAIR)))\<rparr> e2 of
                          (Inl x, e3) \<Rightarrow> (Inl x, e3)
                        | (Inr status, e3) \<Rightarrow>
                            (let ex = \<lparr>ex_task_id = task_id, ex_status = py_upper status, ex_ci_repair_passed = None\<rparr> in
                             case xo_ci_repair X of
                               None \<Rightarrow> (Inr ex, e3)
                             | Some repair \<Rightarrow>
                                 if wi_kind it \<noteq> kind_value REPAIR then (Inr ex, e3)
                                 else (case repair it ex e3 of
                                     (Inl x, e4) \<Rightarrow> (Inl x, e4)
                                   | (Inr ok, e4) \<Rightarrow> (Inr (ex\<lparr>ex_ci_repair_passed := Some ok\<rparr>), e4)))))))"

definition executor_validate :: "execution \<Rightarrow> validation_result" where
  "executor_validate ex =
     (if ex_ci_repair_passed ex = Some False
      then \<lparr>vr_passed = False, vr_summary = ''GitHub CI repair exhausted for Upgrade-20 task '' @ ex_task_id ex, vr_regressions = []\<rparr>
      else if ex_status ex = ''SUCCEEDED''
      then \<lparr>vr_passed = True, vr_summary = ''Upgrade-20 task '' @ ex_task_id ex @ '' succeeded'', vr_regressions = []\<rparr>
      else \<lparr>vr_passed = False, vr_summary = ''Upgrade-20 task '' @ ex_task_id ex @ '' ended in '' @ ex_status ex, vr_regressions = []\<rparr>)"

definition github_ci_repair_hook ::
  "(json \<Rightarrow> string) \<Rightarrow> (string \<Rightarrow> string \<Rightarrow> int \<Rightarrow> int \<Rightarrow> 'e \<Rightarrow> (py_exc + bool) \<times> 'e) \<Rightarrow> int
     \<Rightarrow> string + (work_item \<Rightarrow> execution \<Rightarrow> 'e \<Rightarrow> (py_exc + bool) \<times> 'e)" where
  "github_ci_repair_hook strf repair_loop max_repairs =
     (if max_repairs < 1 then Inl ''max_repairs must be >= 1''
      else Inr (\<lambda>it ex e.
        let p = wi_payload it; job_id = py_str strf (dict_get p ''github_job_id'' (JStr []));
            repository = py_str strf (dict_get p ''github_repo'' (dict_get p ''repository'' (JStr [])))
        in case dict_get p ''github_pr'' JNull of
             JNull \<Rightarrow> (Inr False, e)
           | pr \<Rightarrow>
               if job_id = [] \<or> repository = [] then (Inr False, e)
               else (case py_int pr of
                   None \<Rightarrow> (Inl (''ValueError'', []), e)
                 | Some n \<Rightarrow> repair_loop job_id repository n max_repairs e)))"

subsection \<open>The pipeline\<close>

record 's ledger_ops =
  lg_register :: "work_item \<Rightarrow> bool \<Rightarrow> real \<Rightarrow> 's \<Rightarrow> (ledger_error + work_item option) \<times> 's"
  lg_load_resumable :: "bool \<Rightarrow> real \<Rightarrow> 's \<Rightarrow> (ledger_error + work_item list) \<times> 's"
  lg_record_checkpoint :: "loop_checkpoint \<Rightarrow> real \<Rightarrow> (string \<times> work_item) list \<Rightarrow> 's \<Rightarrow> (ledger_error + unit) \<times> 's"
  lg_blocked_item_ids :: "'s \<Rightarrow> ledger_error + string list"

record ('s, 'e) pipeline =
  pi_execute :: "work_item \<Rightarrow> 'e \<Rightarrow> (py_exc + execution) \<times> 'e"
  pi_ledger :: "'s ledger_ops"
  pi_sources :: "('e \<Rightarrow> (work_item list \<times> py_exc option) \<times> 'e) list"
  pi_policy :: loop_policy
  pi_retry_blocked :: bool
  pi_acquire :: "'e \<Rightarrow> py_exc option \<times> 'e"
  pi_release :: "'e \<Rightarrow> py_exc option \<times> 'e"
  pi_clock :: "'e \<Rightarrow> real"
  pi_digest :: "json \<Rightarrow> string"

record ('s, 'e) pipe =
  pw_ledger :: 's
  pw_items :: "(string \<times> work_item) list"
  pw_exec :: 'e
  pw_closed :: bool

fun ledger_exc :: "ledger_error \<Rightarrow> py_exc" where
  "ledger_exc (UpgradeLedgerError m) = (''UpgradeLedgerError'', m)"
| "ledger_exc LedgerValueError = (''ValueError'', [])"
| "ledger_exc LedgerAttributeError = (''AttributeError'', [])"

definition keep_item :: "work_item \<Rightarrow> ('s, 'e) pipe \<Rightarrow> ('s, 'e) pipe" where
  "keep_item it w = w\<lparr>pw_items := dict_set (pw_items w) (wi_item_id it) it\<rparr>"

definition pl_restore :: "('s, 'e) pipeline \<Rightarrow> work_item \<Rightarrow> ('s, 'e) pipe \<Rightarrow> (ledger_error + work_item option) \<times> ('s, 'e) pipe" where
  "pl_restore P it w =
     (case lg_register (pi_ledger P) it (pi_retry_blocked P) (pi_clock P (pw_exec w)) (pw_ledger w) of
        (r, l) \<Rightarrow> (r, w\<lparr>pw_ledger := l\<rparr>))"

text \<open>Candidates in turn; \<open>keep\<close> is what happens to each restored item at once.\<close>

fun restore_each ::
  "('s, 'e) pipeline \<Rightarrow> (work_item \<Rightarrow> ('s, 'e) pipe \<Rightarrow> ('s, 'e) pipe) \<Rightarrow> work_item list \<Rightarrow> ('s, 'e) pipe
     \<Rightarrow> (ledger_error option \<times> work_item list) \<times> ('s, 'e) pipe" where
  "restore_each P keep [] w = ((None, []), w)"
| "restore_each P keep (it # its) w =
     (case pl_restore P it w of
        (Inl e, w1) \<Rightarrow> ((Some e, []), w1)
      | (Inr None, w1) \<Rightarrow> restore_each P keep its w1
      | (Inr (Some it'), w1) \<Rightarrow>
          (case restore_each P keep its (keep it' w1) of ((err, found), w2) \<Rightarrow> ((err, it' # found), w2)))"

fun discover_sources ::
  "('s, 'e) pipeline \<Rightarrow> ('e \<Rightarrow> (work_item list \<times> py_exc option) \<times> 'e) list \<Rightarrow> ('s, 'e) pipe
     \<Rightarrow> (py_exc option \<times> work_item list) \<times> ('s, 'e) pipe" where
  "discover_sources P [] w = ((None, []), w)"
| "discover_sources P (src # srcs) w =
     (case src (pw_exec w) of
        ((candidates, exc), e1) \<Rightarrow>
          (case restore_each P keep_item candidates (w\<lparr>pw_exec := e1\<rparr>) of
             ((Some le, found), w1) \<Rightarrow> ((Some (ledger_exc le), found), w1)
           | ((None, found), w1) \<Rightarrow>
               (case exc of
                  Some x \<Rightarrow> ((Some x, found), w1)
                | None \<Rightarrow> (case discover_sources P srcs w1 of ((err, later), w2) \<Rightarrow> ((err, found @ later), w2)))))"

text \<open>When discovery raises, the list it was building is lost.\<close>

definition pl_discover :: "('s, 'e) pipeline \<Rightarrow> ('s, 'e) pipe \<Rightarrow> (work_item list \<times> py_exc option) \<times> ('s, 'e) pipe" where
  "pl_discover P w =
     (case discover_sources P (pi_sources P) w of
        ((Some x, found), w1) \<Rightarrow> (([], Some x), w1)
      | ((None, found), w1) \<Rightarrow> ((found, None), w1))"

definition pl_implement :: "('s, 'e) pipeline \<Rightarrow> work_item \<Rightarrow> ('s, 'e) pipe \<Rightarrow> (py_exc + execution) \<times> ('s, 'e) pipe" where
  "pl_implement P it w = (case pi_execute P it (pw_exec w) of (r, e) \<Rightarrow> (r, (keep_item it w)\<lparr>pw_exec := e\<rparr>))"

definition pl_validate :: "work_item \<Rightarrow> execution \<Rightarrow> ('s, 'e) pipe \<Rightarrow> (py_exc + validation_result) \<times> ('s, 'e) pipe" where
  "pl_validate it ex w = (Inr (executor_validate ex), w)"

text \<open>The active item is the very object that \<open>pl_implement\<close> kept, so it has the values the loop wrote since.\<close>

definition refresh :: "loop_checkpoint \<Rightarrow> (string \<times> work_item) list \<Rightarrow> (string \<times> work_item) list \<Rightarrow> (string \<times> work_item) list" where
  "refresh cp shared kept =
     (case lc_active_item_id cp of
        None \<Rightarrow> kept
      | Some i \<Rightarrow> (case map_of shared i of None \<Rightarrow> kept | Some it \<Rightarrow> dict_set kept i it))"

definition pl_checkpoint ::
  "('s, 'e) pipeline \<Rightarrow> loop_checkpoint \<Rightarrow> (string \<times> work_item) list \<Rightarrow> ('s, 'e) pipe \<Rightarrow> py_exc option \<times> ('s, 'e) pipe" where
  "pl_checkpoint P cp shared w =
     (let kept = refresh cp shared (pw_items w) in
      case lg_record_checkpoint (pi_ledger P) cp (pi_clock P (pw_exec w)) kept (pw_ledger w) of
        (r, l) \<Rightarrow> (case r of Inl e \<Rightarrow> Some (ledger_exc e) | Inr _ \<Rightarrow> None, w\<lparr>pw_items := kept, pw_ledger := l\<rparr>))"

definition pl_callbacks :: "('s, 'e) pipeline \<Rightarrow> (('s, 'e) pipe, execution) callbacks" where
  "pl_callbacks P = \<lparr>cb_discover = pl_discover P, cb_implement = pl_implement P, cb_validate = pl_validate,
     cb_rollback = None, cb_checkpoint = Some (pl_checkpoint P)\<rparr>"

text \<open>The report of the loop, corrected by what the ledger knows to be blocked.\<close>

definition with_persisted_blocked :: "string list \<Rightarrow> loop_report \<Rightarrow> loop_report" where
  "with_persisted_blocked persisted rep =
     (if persisted = [] then rep
      else (let ids = dict_fromkeys (lr_blocked_item_ids rep @ persisted) in
        if lr_state rep = LoopCompleted
        then rep\<lparr>lr_state := LoopHalted, lr_blocked_item_ids := ids, lr_halt_reason := ''persisted_blocked_work_remaining''\<rparr>
        else rep\<lparr>lr_blocked_item_ids := ids\<rparr>))"

definition pl_run_locked ::
  "('s, 'e) pipeline \<Rightarrow> work_item list \<Rightarrow> ('s, 'e) pipe \<Rightarrow> (py_exc + loop_report) \<times> ('s, 'e) pipe" where
  "pl_run_locked P seed_items w =
     (case lg_load_resumable (pi_ledger P) (pi_retry_blocked P) (pi_clock P (pw_exec w)) (pw_ledger w) of
        (Inl e, l) \<Rightarrow> (Inl (ledger_exc e), w\<lparr>pw_ledger := l\<rparr>)
      | (Inr resumed, l) \<Rightarrow>
          (case restore_each P (\<lambda>it w. w) seed_items (w\<lparr>pw_ledger := l\<rparr>) of
             ((Some e, its), w1) \<Rightarrow> (Inl (ledger_exc e), w1)
           | ((None, restored), w1) \<Rightarrow>
               (let seed = resumed @ restored in
                case run_loop (pi_digest P) (pl_callbacks P) (pi_policy P) seed [] [] (fold keep_item seed w1) of
                  (Inl x, rs) \<Rightarrow> (Inl x, rs_world rs)
                | (Inr rep, rs) \<Rightarrow>
                    (case lg_blocked_item_ids (pi_ledger P) (pw_ledger (rs_world rs)) of
                       Inl e \<Rightarrow> (Inl (ledger_exc e), rs_world rs)
                     | Inr persisted \<Rightarrow> (Inr (with_persisted_blocked persisted rep), rs_world rs)))))"

text \<open>\<open>with self.run_lease\<close>: an error of the release replaces whatever the body did.\<close>

definition pl_run :: "('s, 'e) pipeline \<Rightarrow> work_item list \<Rightarrow> ('s, 'e) pipe \<Rightarrow> (py_exc + loop_report) \<times> ('s, 'e) pipe" where
  "pl_run P seed_items w =
     (if pw_closed w then (Inl (''RuntimeError'', ''continuous engineering pipeline is closed''), w)
      else (case pi_acquire P (pw_exec w) of
          (Some x, e1) \<Rightarrow> (Inl x, w\<lparr>pw_exec := e1\<rparr>)
        | (None, e1) \<Rightarrow>
            (case pl_run_locked P seed_items (w\<lparr>pw_exec := e1\<rparr>) of
               (r, w1) \<Rightarrow>
                 (case pi_release P (pw_exec w1) of
                    (Some x, e2) \<Rightarrow> (Inl x, w1\<lparr>pw_exec := e2\<rparr>)
                  | (None, e2) \<Rightarrow> (r, w1\<lparr>pw_exec := e2\<rparr>)))))"

definition pl_close :: "(('s, 'e) pipe \<Rightarrow> ('s, 'e) pipe) \<Rightarrow> ('s, 'e) pipe \<Rightarrow> ('s, 'e) pipe" where
  "pl_close callback w = (if pw_closed w then w else callback (w\<lparr>pw_closed := True\<rparr>))"

definition json_ledger_ops :: "(json \<Rightarrow> string) \<Rightarrow> (json \<Rightarrow> string) \<Rightarrow> nat \<Rightarrow> ledger_file ledger_ops" where
  "json_ledger_ops digest strf max_checkpoints = \<lparr>lg_register = restore_or_register digest strf,
     lg_load_resumable = (\<lambda>retry now. load_resumable digest strf retry),
     lg_record_checkpoint = (\<lambda>cp now items. record_checkpoint digest max_checkpoints cp now items now),
     lg_blocked_item_ids = ledger_blocked_item_ids strf\<rparr>"

text \<open>Only one callback asks the executor.\<close>

lemma restore_each_execute [simp]: "restore_each (P\<lparr>pi_execute := ex\<rparr>) keep its w = restore_each P keep its w"
  by (induction its arbitrary: w) (simp_all add: pl_restore_def split: prod.splits sum.splits option.splits)

lemma discover_sources_execute [simp]: "discover_sources (P\<lparr>pi_execute := ex\<rparr>) srcs w = discover_sources P srcs w"
  by (induction srcs arbitrary: w) (simp_all split: prod.splits option.splits)

lemma pl_callbacks_execute:
  "cb_discover (pl_callbacks (P\<lparr>pi_execute := ex\<rparr>)) = cb_discover (pl_callbacks P)"
  "cb_validate (pl_callbacks (P\<lparr>pi_execute := ex\<rparr>)) = cb_validate (pl_callbacks P)"
  "cb_rollback (pl_callbacks (P\<lparr>pi_execute := ex\<rparr>)) = cb_rollback (pl_callbacks P)"
  "cb_checkpoint (pl_callbacks (P\<lparr>pi_execute := ex\<rparr>)) = cb_checkpoint (pl_callbacks P)"
  "ex it (pw_exec w) = pi_execute P it (pw_exec w) \<Longrightarrow>
     cb_implement (pl_callbacks (P\<lparr>pi_execute := ex\<rparr>)) it w = cb_implement (pl_callbacks P) it w"
  by (simp_all add: pl_callbacks_def fun_eq_iff pl_discover_def pl_checkpoint_def pl_implement_def)

subsection \<open>What the pipeline needs of a ledger\<close>

definition finished :: "(string \<Rightarrow> 's \<Rightarrow> ledger_error + string option) \<Rightarrow> string \<Rightarrow> 's \<Rightarrow> bool" where
  "finished state_for f s \<longleftrightarrow> state_for f s = Inr (Some (state_value SUCCEEDED))"

text \<open>
  On top of the contract of registration: an entry keeps the item id it got first, loading hands out unfinished entries, a
  checkpoint of entries known by their ids stores their states and no others.
\<close>

locale durable_ledger = upgrade_ledger register state_for "fingerprint digest" wf
  for register :: "work_item \<Rightarrow> bool \<Rightarrow> real \<Rightarrow> 's \<Rightarrow> (ledger_error + work_item option) \<times> 's"
    and state_for :: "string \<Rightarrow> 's \<Rightarrow> ledger_error + string option" and digest and wf :: "'s \<Rightarrow> bool" +
  fixes load :: "bool \<Rightarrow> real \<Rightarrow> 's \<Rightarrow> (ledger_error + work_item list) \<times> 's"
    and checkpoint :: "loop_checkpoint \<Rightarrow> real \<Rightarrow> (string \<times> work_item) list \<Rightarrow> 's \<Rightarrow> (ledger_error + unit) \<times> 's"
    and record_id :: "string \<Rightarrow> 's \<Rightarrow> string option"
  assumes register_id: "wf s \<Longrightarrow> valid_item it \<Longrightarrow> register it retry now s = (Inr (Some it'), s') \<Longrightarrow>
         valid_item it' \<and> record_id (fingerprint digest it) s' = Some (wi_item_id it')"
    and register_keeps_ids: "wf s \<Longrightarrow> valid_item it \<Longrightarrow> record_id f s = Some i \<Longrightarrow>
         record_id f (snd (register it retry now s)) = Some i"
    and load_frame: "wf s \<Longrightarrow> load retry now s = (r, s') \<Longrightarrow>
         wf s' \<and> record_id f s' = record_id f s \<and> (finished state_for f s \<longrightarrow> finished state_for f s')"
    and load_items: "wf s \<Longrightarrow> load retry now s = (Inr its, s') \<Longrightarrow> it \<in> set its \<Longrightarrow>
         valid_item it \<and> \<not> finished state_for (fingerprint digest it) s \<and> record_id (fingerprint digest it) s = Some (wi_item_id it)"
    and checkpoint_stores: "wf s \<Longrightarrow> distinct (map fst items) \<Longrightarrow>
         (\<forall>(i, it) \<in> set items. valid_item it \<and> wi_item_id it = i \<and> record_id (fingerprint digest it) s = Some i) \<Longrightarrow>
         \<exists>s'. checkpoint cp now items s = (Inr (), s') \<and> wf s' \<and> (\<forall>f. record_id f s' = record_id f s) \<and>
           (\<forall>(i, it) \<in> set items. state_for (fingerprint digest it) s' = Inr (Some (state_value (persisted_state cp i it)))) \<and>
           (\<forall>f. f \<notin> (\<lambda>(i, it). fingerprint digest it) ` set items \<longrightarrow> state_for f s' = state_for f s)"
begin

definition served :: "('s, 'e) pipeline \<Rightarrow> bool" where
  "served P \<longleftrightarrow> lg_register (pi_ledger P) = register \<and> lg_load_resumable (pi_ledger P) = load \<and>
     lg_record_checkpoint (pi_ledger P) = checkpoint \<and> pi_digest P = digest"

definition good_item :: "string set \<Rightarrow> 's \<Rightarrow> work_item \<Rightarrow> bool" where
  "good_item F s it \<longleftrightarrow> valid_item it \<and> fingerprint digest it \<notin> F \<and> record_id (fingerprint digest it) s = Some (wi_item_id it)"

text \<open>A later state of the ledger: well-formed, with the entries and their ids, and \<open>F\<close> still finished.\<close>

definition later :: "string set \<Rightarrow> 's \<Rightarrow> 's \<Rightarrow> bool" where
  "later F s s' \<longleftrightarrow> wf s' \<and> (\<forall>f i. record_id f s = Some i \<longrightarrow> record_id f s' = Some i) \<and> (\<forall>f \<in> F. finished state_for f s')"

lemma good_item_later: "good_item F s it \<Longrightarrow> later F s s' \<Longrightarrow> good_item F s' it"
  by (simp add: good_item_def later_def)

lemma later_trans: "later F s s' \<Longrightarrow> later F s' s'' \<Longrightarrow> later F s s''"
  by (simp add: later_def)

lemma same_work_good: "same_work a b \<Longrightarrow> good_item F s b = good_item F s a"
  by (simp add: same_work_def good_item_def valid_item_def work_item_new_def fingerprint_def)

definition items_good :: "string set \<Rightarrow> 's \<Rightarrow> (string \<times> work_item) list \<Rightarrow> bool" where
  "items_good F s its \<longleftrightarrow> distinct (map fst its) \<and> (\<forall>(i, it) \<in> set its. wi_item_id it = i \<and> good_item F s it)"

lemma items_good_later: "items_good F s its \<Longrightarrow> later F s s' \<Longrightarrow> items_good F s' its"
  by (auto simp: items_good_def intro: good_item_later)

lemma items_good_set:
  assumes "items_good F s its" "good_item F s it"
  shows "items_good F s (dict_set its (wi_item_id it) it)"
  using assms set_dict_set_subset [of "wi_item_id it" it its] unfolding items_good_def
  by (intro conjI distinct_keys_dict_set) auto

definition pipe_good :: "string set \<Rightarrow> ('s, 'e) pipe \<Rightarrow> bool" where
  "pipe_good F w \<longleftrightarrow> wf (pw_ledger w) \<and> (\<forall>f \<in> F. finished state_for f (pw_ledger w)) \<and> items_good F (pw_ledger w) (pw_items w)"

lemma pipe_good_later:
  "pipe_good F w \<Longrightarrow> later F (pw_ledger w) s' \<Longrightarrow> pipe_good F (w\<lparr>pw_ledger := s'\<rparr>)"
  by (auto simp: pipe_good_def later_def intro: items_good_later [unfolded later_def])

lemma keep_good:
  "pipe_good F w \<Longrightarrow> good_item F (pw_ledger w) it \<Longrightarrow> pipe_good F (keep_item it w)"
  by (simp add: pipe_good_def keep_item_def items_good_set)

lemma register_later:
  assumes "wf s" "\<forall>f \<in> F. finished state_for f s" "valid_item it" "register it retry now s = (r, s')"
  shows "later F s s'" "r = Inr (Some it') \<Longrightarrow> good_item F s' it'"
proof -
  have fin: "finished state_for f s'" if "f \<in> F" for f
    using register_keeps_succeeded [OF assms(1,3), of f retry now] assms(2,4) that by (simp add: finished_def)
  show "later F s s'"
    using wf_register [OF assms(1,3), of retry now] register_keeps_ids [OF assms(1,3), of _ _ retry now] fin assms(4)
    by (auto simp: later_def)
  assume r: "r = Inr (Some it')"
  have "fingerprint digest it \<notin> F"
  proof
    assume "fingerprint digest it \<in> F"
    then have "register it retry now s = (Inr None, s)"
      using register_terminal [OF assms(1), of it "state_value SUCCEEDED" retry now] assms(2) by (simp add: finished_def)
    with assms(4) r show False by simp
  qed
  moreover have "fingerprint digest it' = fingerprint digest it"
    using register_answer [OF assms(1,3), of retry now] assms(4) r by auto
  ultimately show "good_item F s' it'"
    using register_id [OF assms(1,3)] assms(4) r by (simp add: good_item_def)
qed

text \<open>The world moves on: the ledger only grows and no kept item is forgotten.\<close>

definition onward :: "string set \<Rightarrow> ('s, 'e) pipe \<Rightarrow> ('s, 'e) pipe \<Rightarrow> bool" where
  "onward F w w' \<longleftrightarrow> pipe_good F w' \<and> later F (pw_ledger w) (pw_ledger w') \<and> fst ` set (pw_items w) \<subseteq> fst ` set (pw_items w')"

lemma later_refl: "wf s \<Longrightarrow> \<forall>f \<in> F. finished state_for f s \<Longrightarrow> later F s s"
  by (simp add: later_def)

lemma onward_refl: "pipe_good F w \<Longrightarrow> onward F w w"
  by (simp add: onward_def pipe_good_def later_refl)

lemma onward_trans: "onward F w w' \<Longrightarrow> onward F w' w'' \<Longrightarrow> onward F w w''"
  unfolding onward_def by (blast intro: later_trans)

lemma onward_keep:
  assumes "pipe_good F w" "good_item F (pw_ledger w) it"
  shows "onward F w (keep_item it w)"
proof -
  have "pw_ledger (keep_item it w) = pw_ledger w" by (simp add: keep_item_def)
  moreover have "fst ` set (pw_items w) \<subseteq> fst ` set (pw_items (keep_item it w))"
    using keys_dict_set [of "wi_item_id it" it "pw_items w"] by (auto simp: keep_item_def)
  ultimately show ?thesis using keep_good [OF assms] assms(1) by (simp add: onward_def pipe_good_def later_refl)
qed

lemma onward_ledger:
  assumes "pipe_good F w" "later F (pw_ledger w) s'"
  shows "onward F w (w\<lparr>pw_ledger := s'\<rparr>)"
  using pipe_good_later [OF assms] assms(2) by (simp add: onward_def)

lemma onward_good: "onward F w w' \<Longrightarrow> pipe_good F w'" "onward F w w' \<Longrightarrow> good_item F (pw_ledger w) it \<Longrightarrow> good_item F (pw_ledger w') it"
  by (auto simp: onward_def intro: good_item_later)

lemma restore_each_good:
  assumes "served P" "\<And>it w. keep it w = w \<or> keep it w = keep_item it w"
  shows "restore_each P keep its w = ((err, found), w') \<Longrightarrow> pipe_good F w \<Longrightarrow> \<forall>it \<in> set its. valid_item it \<Longrightarrow>
    onward F w w' \<and> (\<forall>it \<in> set found. good_item F (pw_ledger w') it)"
proof (induction its arbitrary: w err found)
  case Nil
  then show ?case by (simp add: onward_refl)
next
  case (Cons it its)
  obtain r s1 where g: "register it (pi_retry_blocked P) (pi_clock P (pw_exec w)) (pw_ledger w) = (r, s1)" by fastforce
  have p: "pl_restore P it w = (r, w\<lparr>pw_ledger := s1\<rparr>)" using g assms(1) by (simp add: pl_restore_def served_def)
  have wf: "wf (pw_ledger w)" "\<forall>f \<in> F. finished state_for f (pw_ledger w)" "valid_item it" "\<forall>it \<in> set its. valid_item it"
    using Cons.prems(2,3) by (auto simp: pipe_good_def)
  note reg = register_later [OF wf(1-3) g]
  let ?w1 = "w\<lparr>pw_ledger := s1\<rparr>"
  have g1: "onward F w ?w1" by (rule onward_ledger [OF Cons.prems(2) reg(1)])
  consider (err) e where "r = Inl e" | (none) "r = Inr None" | (some) it' where "r = Inr (Some it')"
    by (metis sum.exhaust option.exhaust)
  then show ?case
  proof cases
    case err
    then have "w' = ?w1 \<and> found = []" using Cons.prems(1) p by simp
    then show ?thesis using g1 by simp
  next
    case none
    then have "restore_each P keep its ?w1 = ((err, found), w')" using Cons.prems(1) p by simp
    from Cons.IH [OF this onward_good(1) [OF g1] wf(4)] show ?thesis using onward_trans [OF g1] by blast
  next
    case some
    then have it': "good_item F (pw_ledger ?w1) it'" using reg(2) by simp
    have g2: "onward F ?w1 (keep it' ?w1)"
      using assms(2) [of it' ?w1] onward_keep [OF onward_good(1) [OF g1] it'] onward_refl [OF onward_good(1) [OF g1]] by auto
    obtain found2 where f: "restore_each P keep its (keep it' ?w1) = ((err, found2), w')" "found = it' # found2"
      using Cons.prems(1) p some by (auto split: prod.splits)
    from Cons.IH [OF f(1) onward_good(1) [OF g2] wf(4)]
    have ih: "onward F (keep it' ?w1) w'" "\<forall>it \<in> set found2. good_item F (pw_ledger w') it" by simp_all
    have "good_item F (pw_ledger w') it'" by (rule onward_good(2) [OF ih(1) onward_good(2) [OF g2 it']])
    then show ?thesis using f(2) ih(2) onward_trans [OF g1 onward_trans [OF g2 ih(1)]] by simp
  qed
qed

lemma restore_discovered_good:
  assumes "served P" "restore_each P keep_item its w = ((err, found), w')" "pipe_good F w" "\<forall>it \<in> set its. valid_item it"
  shows "onward F w w'" "it \<in> set found \<Longrightarrow> good_item F (pw_ledger w') it"
proof -
  have "onward F w w' \<and> (\<forall>it \<in> set found. good_item F (pw_ledger w') it)"
    by (rule restore_each_good [OF assms(1) _ assms(2-4)]) simp
  then show "onward F w w'" "it \<in> set found \<Longrightarrow> good_item F (pw_ledger w') it" by simp_all
qed

lemma pipe_good_exec [simp]: "pipe_good F (w\<lparr>pw_exec := e\<rparr>) = pipe_good F w" "onward F (w\<lparr>pw_exec := e\<rparr>) w' = onward F w w'"
  "onward F w (w'\<lparr>pw_exec := e\<rparr>) = onward F w w'"
  by (simp_all add: pipe_good_def onward_def)

definition sources_valid :: "('s, 'e) pipeline \<Rightarrow> bool" where
  "sources_valid P \<longleftrightarrow> (\<forall>src \<in> set (pi_sources P). \<forall>e. \<forall>it \<in> set (fst (fst (src e))). valid_item it)"

lemma discover_sources_good:
  assumes "served P"
  shows "discover_sources P srcs w = ((err, found), w') \<Longrightarrow> pipe_good F w \<Longrightarrow>
    \<forall>src \<in> set srcs. \<forall>e. \<forall>it \<in> set (fst (fst (src e))). valid_item it \<Longrightarrow>
    onward F w w' \<and> (\<forall>it \<in> set found. good_item F (pw_ledger w') it)"
proof (induction srcs arbitrary: w err found)
  case Nil
  then show ?case by (simp add: onward_refl)
next
  case (Cons src srcs)
  obtain cands exc e1 where s: "src (pw_exec w) = ((cands, exc), e1)" by (metis prod.exhaust)
  obtain le f1 w1 where r: "restore_each P keep_item cands (w\<lparr>pw_exec := e1\<rparr>) = ((le, f1), w1)" by (metis prod.exhaust)
  have v: "\<forall>it \<in> set cands. valid_item it" using Cons.prems(3) s by (metis fst_conv list.set_intros(1))
  have g: "pipe_good F (w\<lparr>pw_exec := e1\<rparr>)" using Cons.prems(2) by simp
  note rg = restore_discovered_good [OF assms r g v]
  have on1: "onward F w w1" using rg(1) by simp
  show ?case
  proof (cases "le = None \<and> exc = None")
    case True
    obtain err2 f2 w2 where d: "discover_sources P srcs w1 = ((err2, f2), w2)" by (metis prod.exhaust)
    have eq: "err = err2" "found = f1 @ f2" "w' = w2" using Cons.prems(1) s r d True by simp_all
    have "\<forall>src \<in> set srcs. \<forall>e. \<forall>it \<in> set (fst (fst (src e))). valid_item it" using Cons.prems(3) by simp
    from Cons.IH [OF d [folded eq(3)] onward_good(1) [OF on1] this]
    have ih: "onward F w1 w'" "\<forall>it \<in> set f2. good_item F (pw_ledger w') it" by simp_all
    have "\<forall>it \<in> set f1. good_item F (pw_ledger w') it" using rg(2) onward_good(2) [OF ih(1)] by simp
    then show ?thesis using eq ih onward_trans [OF on1 ih(1)] by auto
  next
    case False
    then have "w' = w1 \<and> found = f1" using Cons.prems(1) s r by (cases le; cases exc) simp_all
    then show ?thesis using on1 rg(2) by simp
  qed
qed

lemma pl_discover_good:
  assumes "served P" "sources_valid P" "pl_discover P w = ((found, err), w')" "pipe_good F w"
  shows "onward F w w'" "it \<in> set found \<Longrightarrow> good_item F (pw_ledger w') it"
proof -
  obtain er f1 w1 where d: "discover_sources P (pi_sources P) w = ((er, f1), w1)" by (metis prod.exhaust)
  have "\<forall>src \<in> set (pi_sources P). \<forall>e. \<forall>it \<in> set (fst (fst (src e))). valid_item it"
    using assms(2) by (simp add: sources_valid_def)
  from discover_sources_good [OF assms(1) d assms(4) this]
  have "onward F w w1 \<and> (\<forall>it \<in> set f1. good_item F (pw_ledger w1) it)" .
  moreover have "w' = w1 \<and> (found = f1 \<or> found = [])" using assms(3) d by (cases er) (simp_all add: pl_discover_def)
  ultimately show "onward F w w'" "it \<in> set found \<Longrightarrow> good_item F (pw_ledger w') it" by auto
qed

subsubsection \<open>Through the loop\<close>

definition run_good :: "string set \<Rightarrow> ('s, 'e) pipe run_state \<Rightarrow> bool" where
  "run_good F rs \<longleftrightarrow> pipe_good F (rs_world rs) \<and>
     (\<forall>(i, it) \<in> set (rs_items rs). wi_item_id it = i \<and> good_item F (pw_ledger (rs_world rs)) it) \<and>
     set (rs_completed rs) \<subseteq> fst ` set (pw_items (rs_world rs))"

lemma run_good_world:
  assumes "run_good F rs" "onward F (rs_world rs) w'"
  shows "run_good F (rs\<lparr>rs_world := w'\<rparr>)"
  using assms onward_good [OF assms(2)] by (auto simp: run_good_def onward_def)

lemma run_good_put:
  assumes "run_good F rs" "good_item F (pw_ledger (rs_world rs)) it"
  shows "run_good F (put_item it rs)"
  using assms set_dict_set_subset [of "wi_item_id it" it "rs_items rs"] unfolding run_good_def put_item_def by fastforce

lemma run_good_frame [simp]:
  "run_good F (note_record r rs) = run_good F rs" "run_good F (note_blocked it rs) = run_good F rs"
  "run_good F (rs\<lparr>rs_no_progress := n\<rparr>) = run_good F rs" "run_good F (rs\<lparr>rs_iterations := k\<rparr>) = run_good F rs"
  "run_good F (rs\<lparr>rs_fingerprints := fps\<rparr>) = run_good F rs"
  by (simp_all add: run_good_def note_record_def note_blocked_def)

lemma add_all_good:
  "run_good F rs \<Longrightarrow> \<forall>it \<in> set its. good_item F (pw_ledger (rs_world rs)) it \<Longrightarrow>
   run_good F (add_all dg its rs) \<and> rs_world (add_all dg its rs) = rs_world rs"
proof (induction its arbitrary: rs)
  case (Cons it its)
  have "run_good F (snd (add_work dg it rs)) \<and> rs_world (snd (add_work dg it rs)) = rs_world rs"
  proof (cases "fingerprint dg it \<in> set (rs_fingerprints rs)")
    case False
    have "run_good F (put_item it (rs\<lparr>rs_fingerprints := fingerprint dg it # rs_fingerprints rs\<rparr>))"
      by (rule run_good_put) (use Cons.prems in simp_all)
    then show ?thesis using False by (simp add: add_work_def put_item_def)
  qed (use Cons.prems in \<open>simp add: add_work_def\<close>)
  with Cons show ?case by simp
qed simp

lemma pl_checkpoint_good:
  assumes "served P" "pipe_good F w" "\<forall>(i, it) \<in> set shared. wi_item_id it = i \<and> good_item F (pw_ledger w) it"
  obtains w' where "pl_checkpoint P cp shared w = (None, w')" "onward F w w'"
    "\<And>i. i \<in> fst ` set (pw_items w') \<Longrightarrow> i \<in> set (lc_completed_item_ids cp) \<Longrightarrow>
       \<exists>f. record_id f (pw_ledger w') = Some i \<and> finished state_for f (pw_ledger w')"
proof -
  let ?kept = "refresh cp shared (pw_items w)" and ?now = "pi_clock P (pw_exec w)" and ?s = "pw_ledger w"
  have ig: "items_good F ?s ?kept \<and> fst ` set (pw_items w) \<subseteq> fst ` set ?kept"
  proof (cases "case lc_active_item_id cp of None \<Rightarrow> None | Some i \<Rightarrow> map_of shared i")
    case None
    then have "?kept = pw_items w" by (auto simp: refresh_def split: option.splits)
    then show ?thesis using assms(2) by (simp add: pipe_good_def)
  next
    case (Some it)
    then obtain i where i: "lc_active_item_id cp = Some i" "map_of shared i = Some it" by (auto split: option.splits)
    then have it: "wi_item_id it = i" "good_item F ?s it" using assms(3) by (auto dest: map_of_SomeD)
    have k: "?kept = dict_set (pw_items w) i it" using i by (simp add: refresh_def)
    show ?thesis using items_good_set [OF _ it(2), of "pw_items w"] assms(2) it(1) keys_dict_set [of i it "pw_items w"]
      by (auto simp: k pipe_good_def)
  qed
  have "distinct (map fst ?kept)" "\<forall>(i, it) \<in> set ?kept. valid_item it \<and> wi_item_id it = i \<and> record_id (fingerprint digest it) ?s = Some i"
    using ig by (auto simp: items_good_def good_item_def)
  moreover have "wf ?s" using assms(2) by (simp add: pipe_good_def)
  ultimately obtain s' where
    c: "checkpoint cp ?now ?kept ?s = (Inr (), s')" and wf': "wf s'" and ids: "\<forall>f. record_id f s' = record_id f ?s"
    and sts: "\<forall>(i, it) \<in> set ?kept. state_for (fingerprint digest it) s' = Inr (Some (state_value (persisted_state cp i it)))"
    and oth: "\<forall>f. f \<notin> (\<lambda>(i, it). fingerprint digest it) ` set ?kept \<longrightarrow> state_for f s' = state_for f ?s"
    using checkpoint_stores [of ?s ?kept cp ?now] by blast
  have st: "state_for (fingerprint digest it) s' = Inr (Some (state_value (persisted_state cp i it)))" if "(i, it) \<in> set ?kept" for i it
    using sts that by blast
  have fin: "finished state_for f s'" if "f \<in> F" for f
  proof -
    have "f \<notin> (\<lambda>(i, it). fingerprint digest it) ` set ?kept" using ig that by (auto simp: items_good_def good_item_def)
    then show ?thesis using oth assms(2) that by (auto simp: finished_def pipe_good_def)
  qed
  have lt: "later F ?s s'" using wf' ids fin by (simp add: later_def)
  define w' where "w' = w\<lparr>pw_items := ?kept, pw_ledger := s'\<rparr>"
  have "pl_checkpoint P cp shared w = (None, w')" using c assms(1) by (simp add: pl_checkpoint_def Let_def served_def w'_def)
  moreover have "onward F w w'"
    using lt ig items_good_later [OF conjunct1 [OF ig] lt] by (simp add: onward_def pipe_good_def w'_def later_def)
  moreover have "\<exists>f. record_id f (pw_ledger w') = Some i \<and> finished state_for f (pw_ledger w')"
    if i: "i \<in> fst ` set (pw_items w')" and cm: "i \<in> set (lc_completed_item_ids cp)" for i
  proof -
    obtain it where it: "(i, it) \<in> set ?kept" using i by (auto simp: w'_def)
    have "state_for (fingerprint digest it) s' = Inr (Some (state_value SUCCEEDED))"
      using st [OF it] cm by (simp add: persisted_state_def)
    moreover have "record_id (fingerprint digest it) s' = Some i" using ig it ids by (auto simp: items_good_def good_item_def)
    ultimately show ?thesis by (auto simp: w'_def finished_def)
  qed
  ultimately show thesis by (rule that)
qed

lemma emit_checkpoint_good:
  assumes "served P" "run_good F rs" "emit_checkpoint (pl_callbacks P) i st a rs = (x, rs')"
  shows "run_good F rs'" "x = None" "rs_items rs' = rs_items rs" "rs_completed rs' = rs_completed rs" "onward F (rs_world rs) (rs_world rs')"
    "j \<in> set (rs_completed rs) \<Longrightarrow> \<exists>f. record_id f (pw_ledger (rs_world rs')) = Some j \<and> finished state_for f (pw_ledger (rs_world rs'))"
proof -
  let ?cp = "\<lparr>lc_iteration = i, lc_state = st, lc_active_item_id = a, lc_completed_item_ids = rs_completed rs,
      lc_blocked_item_ids = dict_fromkeys (rs_blocked rs), lc_pending_item_ids = pending_ids (rs_items rs)\<rparr>"
  obtain w' where w: "pl_checkpoint P ?cp (rs_items rs) (rs_world rs) = (None, w')" "onward F (rs_world rs) w'"
    "\<And>j. j \<in> fst ` set (pw_items w') \<Longrightarrow> j \<in> set (lc_completed_item_ids ?cp) \<Longrightarrow>
       \<exists>f. record_id f (pw_ledger w') = Some j \<and> finished state_for f (pw_ledger w')"
    by (rule pl_checkpoint_good [OF assms(1), of F "rs_world rs" "rs_items rs" ?cp]) (use assms(2) in \<open>auto simp: run_good_def\<close>)
  have eq: "x = None" "rs' = rs\<lparr>rs_world := w'\<rparr>" using assms(3) w(1) by (simp_all add: emit_checkpoint_def pl_callbacks_def)
  show "run_good F rs'" using run_good_world [OF assms(2) w(2)] eq by simp
  show "x = None" "rs_items rs' = rs_items rs" "rs_completed rs' = rs_completed rs" "onward F (rs_world rs) (rs_world rs')"
    using eq w(2) by simp_all
  show "\<exists>f. record_id f (pw_ledger (rs_world rs')) = Some j \<and> finished state_for f (pw_ledger (rs_world rs'))"
    if "j \<in> set (rs_completed rs)"
  proof -
    have "j \<in> fst ` set (pw_items w')" using that assms(2) w(2) unfolding run_good_def onward_def by blast
    then show ?thesis using w(3) [of j] that eq by simp
  qed
qed

lemma attempt_good:
  assumes "pipe_good F w" "good_item F (pw_ledger w) it" "attempt_item (pl_callbacks P) it w = (r, w')"
  shows "onward F w w'" "wi_item_id it \<in> fst ` set (pw_items w')"
proof -
  obtain x e where x: "pi_execute P it (pw_exec w) = (x, e)" by fastforce
  have w': "w' = (keep_item it w)\<lparr>pw_exec := e\<rparr>"
    using assms(3) x by (cases x) (simp_all add: attempt_item_def pl_callbacks_def pl_implement_def pl_validate_def)
  show "onward F w w'" using onward_keep [OF assms(1,2)] by (simp add: w')
  show "wi_item_id it \<in> fst ` set (pw_items w')"
    using keys_dict_set [of "wi_item_id it" it "pw_items w"] by (simp add: w' keep_item_def)
qed

lemma after_exception_good:
  assumes "served P" "run_good F rs" "good_item F (pw_ledger (rs_world rs)) it"
    "after_exception (pl_callbacks P) pol i it e rs = (fl, rs')"
  shows "run_good F rs'"
proof -
  define it1 where "it1 = it\<lparr>wi_last_error := exc_text e, wi_state := (if wi_attempts it \<ge> wi_max_attempts it then BLOCKED else PENDING)\<rparr>"
  define rs1 where "rs1 = note_record (iteration_of i it1 (if wi_attempts it \<ge> wi_max_attempts it then OBlocked else ORetry) (exc_text e) [])
                  (note_blocked it1 (put_item it1 rs))"
  obtain x rs3 where em: "emit_checkpoint (pl_callbacks P) i LoopRunning (Some (wi_item_id it)) (rs1\<lparr>rs_no_progress := rs_no_progress rs1 + 1\<rparr>) = (x, rs3)"
    by fastforce
  have "same_work it it1" by (simp add: same_work_def it1_def)
  then have "good_item F (pw_ledger (rs_world rs)) it1" using same_work_good [of it it1] assms(3) by simp
  then have "run_good F rs1" using run_good_put [OF assms(2)] by (simp add: rs1_def)
  then have "run_good F (rs1\<lparr>rs_no_progress := rs_no_progress rs1 + 1\<rparr>)" by simp
  note em_good = emit_checkpoint_good [OF assms(1) this em]
  have "rs' = rs3" using assms(4) em em_good(2) by (simp add: after_exception_def Let_def it1_def rs1_def)
  then show ?thesis using em_good(1) by simp
qed

lemma after_rejection_good:
  assumes "served P" "run_good F rs" "good_item F (pw_ledger (rs_world rs)) it"
    "after_rejection (pl_callbacks P) pol i it c v rh rs = (fl, rs')"
  shows "run_good F rs'"
proof -
  define it1 where "it1 = it\<lparr>wi_state := (if wi_attempts it \<ge> wi_max_attempts it \<or> rh then BLOCKED else PENDING)\<rparr>"
  define rs1 where "rs1 = note_record (iteration_of i it1 (if rh then ORegressionBlocked else OValidationRetry)
                         (vr_summary v) (vr_regressions v)) (note_blocked it1 (put_item it1 rs))"
  obtain x rs3 where em: "emit_checkpoint (pl_callbacks P) i LoopRunning (Some (wi_item_id it)) (rs1\<lparr>rs_no_progress := rs_no_progress rs1 + 1\<rparr>) = (x, rs3)"
    by fastforce
  have "same_work it it1" by (simp add: same_work_def it1_def)
  then have "good_item F (pw_ledger (rs_world rs)) it1" using same_work_good [of it it1] assms(3) by simp
  then have "run_good F rs1" using run_good_put [OF assms(2)] by (simp add: rs1_def)
  then have "run_good F (rs1\<lparr>rs_no_progress := rs_no_progress rs1 + 1\<rparr>)" by simp
  note em_good = emit_checkpoint_good [OF assms(1) this em]
  have "cb_rollback (pl_callbacks P) = None" by (simp add: pl_callbacks_def)
  then have "rs' = rs3" using assms(4) em em_good(2) by (simp add: after_rejection_def Let_def it1_def rs1_def)
  then show ?thesis using em_good(1) by simp
qed

lemma after_success_good:
  assumes "served P" "run_good F rs" "good_item F (pw_ledger (rs_world rs)) it" "wi_item_id it \<in> fst ` set (pw_items (rs_world rs))"
    "after_success (pl_callbacks P) i it v rs = (fl, rs')"
  shows "run_good F rs'"
proof -
  define it1 where "it1 = it\<lparr>wi_state := SUCCEEDED\<rparr>"
  define rs1 where "rs1 = put_item it1 rs"
  define rs2 where "rs2 = note_record (iteration_of i it1 OSucceeded (vr_summary v) [])
                  (rs1\<lparr>rs_completed := rs_completed rs1 @ [wi_item_id it], rs_no_progress := 0\<rparr>)"
  obtain x rs3 where em: "emit_checkpoint (pl_callbacks P) i LoopRunning (Some (wi_item_id it)) rs2 = (x, rs3)" by fastforce
  have "same_work it it1" by (simp add: same_work_def it1_def)
  then have "good_item F (pw_ledger (rs_world rs)) it1" using same_work_good [of it it1] assms(3) by simp
  then have "run_good F rs1" using run_good_put [OF assms(2)] by (simp add: rs1_def)
  moreover have "rs_world rs1 = rs_world rs" by (simp add: rs1_def put_item_def)
  ultimately have "run_good F rs2" using assms(4) by (simp add: rs2_def) (simp add: run_good_def)
  note em_good = emit_checkpoint_good [OF assms(1) this em]
  have "rs' = rs3" using assms(5) em em_good(2) by (simp add: after_success_def Let_def it1_def rs1_def rs2_def)
  then show ?thesis using em_good(1) by simp
qed

lemma work_on_good:
  assumes "served P" "run_good F rs" "good_item F (pw_ledger (rs_world rs)) cand"
    "work_on (pl_callbacks P) pol i cand rs = (fl, rs')"
  shows "run_good F rs'"
proof -
  define it where "it = cand\<lparr>wi_state := RUNNING, wi_attempts := wi_attempts cand + 1\<rparr>"
  define rs1 where "rs1 = put_item it rs"
  obtain r w where a: "attempt_item (pl_callbacks P) it (rs_world rs1) = (r, w)" by fastforce
  have "same_work cand it" by (simp add: same_work_def it_def)
  then have it: "good_item F (pw_ledger (rs_world rs)) it" using same_work_good [of cand it] assms(3) by simp
  have w1: "rs_world rs1 = rs_world rs" by (simp add: rs1_def put_item_def)
  have g1: "run_good F rs1" using run_good_put [OF assms(2) it] by (simp add: rs1_def)
  then have "pipe_good F (rs_world rs1)" by (simp add: run_good_def)
  note att = attempt_good [OF this _ a, unfolded w1, OF it]
  define rs2 where "rs2 = rs1\<lparr>rs_world := w\<rparr>"
  have g2: "run_good F rs2" using run_good_world [OF g1] att(1) w1 by (simp add: rs2_def)
  have itw: "good_item F (pw_ledger (rs_world rs2)) it" using onward_good(2) [OF att(1) it] by (simp add: rs2_def)
  have "same_work it (it\<lparr>wi_state := VALIDATING\<rparr>)" by (simp add: same_work_def)
  then have itv: "good_item F (pw_ledger (rs_world rs2)) (it\<lparr>wi_state := VALIDATING\<rparr>)" using same_work_good itw by blast
  have key: "wi_item_id (it\<lparr>wi_state := VALIDATING\<rparr>) \<in> fst ` set (pw_items (rs_world rs2))" using att(2) by (simp add: rs2_def)
  show ?thesis
  proof (cases r)
    case (Inl e)
    then have "after_exception (pl_callbacks P) pol i it e rs2 = (fl, rs')"
      using assms(4) a by (simp add: work_on_def it_def rs1_def rs2_def Let_def)
    then show ?thesis by (rule after_exception_good [OF assms(1) g2 itw])
  next
    case (Inr cv)
    obtain c v where cv: "cv = (c, v)" by fastforce
    show ?thesis
    proof (cases "rejects pol v")
      case True
      then have "after_rejection (pl_callbacks P) pol i (it\<lparr>wi_state := VALIDATING\<rparr>) c v
          (vr_regressions v \<noteq> [] \<and> lp_stop_on_regression pol) rs2 = (fl, rs')"
        using assms(4) a Inr cv by (simp add: work_on_def it_def rs1_def rs2_def Let_def)
      then show ?thesis by (rule after_rejection_good [OF assms(1) g2 itv])
    next
      case False
      then have "after_success (pl_callbacks P) i (it\<lparr>wi_state := VALIDATING\<rparr>) v rs2 = (fl, rs')"
        using assms(4) a Inr cv by (simp add: work_on_def it_def rs1_def rs2_def Let_def)
      then show ?thesis by (rule after_success_good [OF assms(1) g2 itv key])
    qed
  qed
qed

text \<open>Up to the choice of the candidate an iteration does not touch the executor.\<close>

lemma iterate_good:
  assumes "served P" "sources_valid P" "run_good F rs"
  obtains found err w rs1 where "cb_discover (pl_callbacks P) (rs_world rs) = ((found, err), w)"
    "rs1 = add_all digest found (rs\<lparr>rs_iterations := i, rs_world := w\<rparr>)" "run_good F rs1"
    "\<And>cand. next_pending (rs_items rs1) = Some cand \<Longrightarrow> good_item F (pw_ledger (rs_world rs1)) cand"
proof -
  obtain found err w where d: "pl_discover P (rs_world rs) = ((found, err), w)" by (metis prod.exhaust)
  have pg: "pipe_good F (rs_world rs)" using assms(3) by (simp add: run_good_def)
  note dg = pl_discover_good [OF assms(1,2) d pg]
  let ?rs0 = "rs\<lparr>rs_iterations := i, rs_world := w\<rparr>"
  have "run_good F ((rs\<lparr>rs_iterations := i\<rparr>)\<lparr>rs_world := w\<rparr>)" by (rule run_good_world) (use assms(3) dg(1) in simp_all)
  then have g1: "run_good F (add_all digest found ?rs0)" using add_all_good [of F ?rs0 found digest] dg(2) by simp
  have "good_item F (pw_ledger (rs_world (add_all digest found ?rs0))) cand"
    if "next_pending (rs_items (add_all digest found ?rs0)) = Some cand" for cand
    using g1 next_pendingD [OF that] by (auto simp: run_good_def dict_values_def)
  then show thesis using d g1 by (intro that [of found err w "add_all digest found ?rs0"]) (simp_all add: pl_callbacks_def)
qed

lemma loop_from_good:
  assumes "served P" "sources_valid P"
  shows "run_good F rs \<Longrightarrow> loop_from digest (pl_callbacks P) pol is rs = (fl, rs') \<Longrightarrow> run_good F rs'"
proof (induction "is" arbitrary: rs)
  case (Cons i "is")
  obtain fl1 rs2 where it: "iterate digest (pl_callbacks P) pol i rs = (fl1, rs2)" by fastforce
  obtain found err w rs1 where d: "cb_discover (pl_callbacks P) (rs_world rs) = ((found, err), w)"
    "rs1 = add_all digest found (rs\<lparr>rs_iterations := i, rs_world := w\<rparr>)" "run_good F rs1"
    "\<And>cand. next_pending (rs_items rs1) = Some cand \<Longrightarrow> good_item F (pw_ledger (rs_world rs1)) cand"
    by (rule iterate_good [OF assms Cons.prems(1), of i]) blast
  have "run_good F rs2"
  proof (cases "err = None \<and> next_pending (rs_items rs1) \<noteq> None")
    case True
    then obtain cand where "next_pending (rs_items rs1) = Some cand" by blast
    then show ?thesis using work_on_good [OF assms(1) d(3) d(4)] it d(1,2) True by (simp add: iterate_def Let_def)
  next
    case False
    then have "rs2 = rs1" using it d(1,2) by (auto simp: iterate_def Let_def split: option.splits)
    then show ?thesis using d(3) by simp
  qed
  then show ?case using Cons.IH [of rs2] Cons.prems(2) it by (cases fl1) auto
qed simp

subsubsection \<open>A run\<close>

lemma fold_keep_good:
  "pipe_good F w \<Longrightarrow> \<forall>it \<in> set its. good_item F (pw_ledger w) it \<Longrightarrow> onward F w (fold keep_item its w)"
proof (induction its arbitrary: w)
  case (Cons it its)
  have o1: "onward F w (keep_item it w)" by (rule onward_keep) (use Cons.prems in simp_all)
  have "\<forall>it' \<in> set its. good_item F (pw_ledger (keep_item it w)) it'" using Cons.prems(2) onward_good(2) [OF o1] by simp
  from Cons.IH [OF onward_good(1) [OF o1] this] show ?case using onward_trans [OF o1] by simp
qed (simp add: onward_refl)

lemma load_good:
  assumes "served P" "pipe_good F w" "lg_load_resumable (pi_ledger P) retry now (pw_ledger w) = (r, l)"
  shows "onward F w (w\<lparr>pw_ledger := l\<rparr>)" "r = Inr its \<Longrightarrow> it \<in> set its \<Longrightarrow> good_item F l it"
proof -
  have ld: "load retry now (pw_ledger w) = (r, l)" using assms(1,3) by (simp add: served_def)
  have wf: "wf (pw_ledger w)" and fin: "\<forall>f \<in> F. finished state_for f (pw_ledger w)" using assms(2) by (auto simp: pipe_good_def)
  have lt: "later F (pw_ledger w) l" using load_frame [OF wf ld] fin by (simp add: later_def)
  then show "onward F w (w\<lparr>pw_ledger := l\<rparr>)" by (rule onward_ledger [OF assms(2)])
  show "good_item F l it" if "r = Inr its" "it \<in> set its"
    using load_items [OF wf ld [unfolded that(1)] that(2)] load_frame [OF wf ld] fin by (auto simp: good_item_def)
qed

text \<open>How a locked run starts: in an error before the loop, or in the loop from a good state.\<close>

lemma run_locked_start:
  assumes "served P" "pipe_good F w" "\<forall>it \<in> set seeds. valid_item it"
  obtains (failed) e w1 where "\<And>ex. pl_run_locked (P\<lparr>pi_execute := ex\<rparr>) seeds w = (Inl e, w1)" "onward F w w1"
  | (started) seed w1 where "onward F w w1" "\<forall>it \<in> set seed. good_item F (pw_ledger w1) it"
      "\<And>ex. pl_run_locked (P\<lparr>pi_execute := ex\<rparr>) seeds w =
        (case run_loop digest (pl_callbacks (P\<lparr>pi_execute := ex\<rparr>)) (pi_policy P) seed [] [] w1 of
           (Inl x, rs) \<Rightarrow> (Inl x, rs_world rs)
         | (Inr rep, rs) \<Rightarrow> (case lg_blocked_item_ids (pi_ledger P) (pw_ledger (rs_world rs)) of
               Inl e \<Rightarrow> (Inl (ledger_exc e), rs_world rs)
             | Inr persisted \<Rightarrow> (Inr (with_persisted_blocked persisted rep), rs_world rs)))"
proof -
  obtain r l where ld: "lg_load_resumable (pi_ledger P) (pi_retry_blocked P) (pi_clock P (pw_exec w)) (pw_ledger w) = (r, l)" by fastforce
  note lg = load_good [OF assms(1,2) ld]
  show thesis
  proof (cases r)
    case (Inl e)
    show thesis by (rule failed [of "ledger_exc e" "w\<lparr>pw_ledger := l\<rparr>"]) (use ld Inl lg(1) in \<open>simp_all add: pl_run_locked_def\<close>)
  next
    case (Inr resumed)
    obtain er restored w1 where rs: "restore_each P (\<lambda>it w. w) seeds (w\<lparr>pw_ledger := l\<rparr>) = ((er, restored), w1)" by (metis prod.exhaust)
    have rg: "onward F (w\<lparr>pw_ledger := l\<rparr>) w1 \<and> (\<forall>it \<in> set restored. good_item F (pw_ledger w1) it)"
      by (rule restore_each_good [OF assms(1) _ rs onward_good(1) [OF lg(1)] assms(3)]) simp
    show thesis
    proof (cases er)
      case (Some e)
      show thesis by (rule failed [of "ledger_exc e" w1])
        (use ld Inr rs Some onward_trans [OF lg(1)] rg in \<open>simp_all add: pl_run_locked_def\<close>)
    next
      case None
      let ?seed = "resumed @ restored"
      have sg: "\<forall>it \<in> set ?seed. good_item F (pw_ledger w1) it"
        using lg(2) [OF Inr] onward_good(2) [OF conjunct1 [OF rg]] rg by auto
      have fk: "onward F w1 (fold keep_item ?seed w1)" using fold_keep_good [OF onward_good(1) [OF conjunct1 [OF rg]] sg] .
      have dg: "pi_digest P = digest" using assms(1) by (simp add: served_def)
      show thesis
      proof (rule started [of "fold keep_item ?seed w1" ?seed])
        show "onward F w (fold keep_item ?seed w1)" using onward_trans [OF lg(1) onward_trans [OF conjunct1 [OF rg] fk]] .
        show "\<forall>it \<in> set ?seed. good_item F (pw_ledger (fold keep_item ?seed w1)) it" using sg onward_good(2) [OF fk] by blast
      qed (use ld Inr rs None dg in \<open>simp add: pl_run_locked_def Let_def cong: sum.case_cong prod.case_cong\<close>)
    qed
  qed
qed

lemma run_start_good:
  assumes "pipe_good F w" "\<forall>it \<in> set seed. good_item F (pw_ledger w) it"
  shows "run_good F (add_all digest seed (run_start [] [] w))"
proof -
  have "run_good F (run_start [] [] w)" using assms(1) by (simp add: run_good_def run_start_def)
  from add_all_good [OF this, of seed digest] assms(2) show ?thesis by (simp add: run_start_def)
qed

lemma run_loop_good:
  assumes "served P" "sources_valid P" "pipe_good F w" "\<forall>it \<in> set seed. good_item F (pw_ledger w) it"
    "run_loop digest (pl_callbacks P) pol seed [] [] w = (r, rs')"
  shows "run_good F rs'"
    "r = Inr rep \<Longrightarrow> j \<in> set (lr_completed_item_ids rep) \<Longrightarrow>
       \<exists>f. record_id f (pw_ledger (rs_world rs')) = Some j \<and> finished state_for f (pw_ledger (rs_world rs'))"
proof -
  let ?rs0 = "add_all digest seed (run_start [] [] w)"
  obtain fl rs1 where l: "loop_from digest (pl_callbacks P) pol [1..<Suc (nat (lp_max_iterations pol))] ?rs0 = (fl, rs1)" by fastforce
  have g1: "run_good F rs1" by (rule loop_from_good [OF assms(1,2) run_start_good [OF assms(3,4)] l])
  obtain x rs2 where em: "emit_checkpoint (pl_callbacks P) (rs_iterations rs1) (fst (conclude fl rs1)) None rs1 = (x, rs2)" by fastforce
  note eg = emit_checkpoint_good [OF assms(1) g1 em]
  have cases: "(\<exists>e. r = Inl e \<and> rs' = rs1) \<or> (\<exists>rep. r = Inr rep \<and> rs' = rs2 \<and> lr_completed_item_ids rep = rs_completed rs1)"
    using assms(5) l em eg(2) by (cases fl) (auto simp: run_loop_def)
  then show "run_good F rs'" using g1 eg(1) by auto
  show "\<exists>f. record_id f (pw_ledger (rs_world rs')) = Some j \<and> finished state_for f (pw_ledger (rs_world rs'))"
    if "r = Inr rep" "j \<in> set (lr_completed_item_ids rep)"
    using cases that eg(6) [of j] by auto
qed

text \<open>What a run reports as completed is finished in the ledger.\<close>

lemma run_locked_completed:
  assumes "served P" "sources_valid P" "pipe_good F w" "\<forall>it \<in> set seeds. valid_item it"
    "pl_run_locked P seeds w = (r, w')"
  shows "pipe_good F w'"
    "r = Inr rep \<Longrightarrow> j \<in> set (lr_completed_item_ids rep) \<Longrightarrow>
       \<exists>f. record_id f (pw_ledger w') = Some j \<and> finished state_for f (pw_ledger w')"
proof -
  have P: "P\<lparr>pi_execute := pi_execute P\<rparr> = P" by simp
  have "pipe_good F w' \<and> (r = Inr rep \<longrightarrow> j \<in> set (lr_completed_item_ids rep) \<longrightarrow>
       (\<exists>f. record_id f (pw_ledger w') = Some j \<and> finished state_for f (pw_ledger w')))"
  proof (rule run_locked_start [OF assms(1,3,4)])
    fix e w1 assume f: "\<And>ex. pl_run_locked (P\<lparr>pi_execute := ex\<rparr>) seeds w = (Inl e, w1)" "onward F w w1"
    show ?thesis using f(1) [of "pi_execute P"] f(2) assms(5) P onward_good(1) by auto
  next
    fix seed w1
    assume on1: "onward F w w1" and sg: "\<forall>it \<in> set seed. good_item F (pw_ledger w1) it"
      and st: "\<And>ex. pl_run_locked (P\<lparr>pi_execute := ex\<rparr>) seeds w =
        (case run_loop digest (pl_callbacks (P\<lparr>pi_execute := ex\<rparr>)) (pi_policy P) seed [] [] w1 of
           (Inl x, rs) \<Rightarrow> (Inl x, rs_world rs)
         | (Inr rep, rs) \<Rightarrow> (case lg_blocked_item_ids (pi_ledger P) (pw_ledger (rs_world rs)) of
               Inl e \<Rightarrow> (Inl (ledger_exc e), rs_world rs)
             | Inr persisted \<Rightarrow> (Inr (with_persisted_blocked persisted rep), rs_world rs)))"
    obtain r1 rs1 where l: "run_loop digest (pl_callbacks P) (pi_policy P) seed [] [] w1 = (r1, rs1)" by fastforce
    note lg = run_loop_good [OF assms(1,2) onward_good(1) [OF on1] sg l]
    have w': "w' = rs_world rs1" and r: "r = Inr rep \<Longrightarrow> \<exists>rep1 ps. r1 = Inr rep1 \<and> rep = with_persisted_blocked ps rep1"
      using st [of "pi_execute P"] assms(5) l P by (auto split: sum.splits)
    have "lr_completed_item_ids (with_persisted_blocked ps rep1) = lr_completed_item_ids rep1" for ps rep1
      by (simp add: with_persisted_blocked_def Let_def)
    then show ?thesis using lg w' r by (auto simp: run_good_def)
  qed
  then show "pipe_good F w'" "r = Inr rep \<Longrightarrow> j \<in> set (lr_completed_item_ids rep) \<Longrightarrow>
       \<exists>f. record_id f (pw_ledger w') = Some j \<and> finished state_for f (pw_ledger w')" by simp_all
qed

subsubsection \<open>Finished work never reaches the executor\<close>

definition agree_off :: "string set \<Rightarrow> ('s, 'e) pipeline \<Rightarrow> (work_item \<Rightarrow> 'e \<Rightarrow> (py_exc + execution) \<times> 'e) \<Rightarrow> bool" where
  "agree_off F P ex \<longleftrightarrow> (\<forall>it e. fingerprint digest it \<notin> F \<longrightarrow> ex it e = pi_execute P it e)"

lemma emit_same: "emit_checkpoint (pl_callbacks (P\<lparr>pi_execute := ex\<rparr>)) = emit_checkpoint (pl_callbacks P)"
  by (simp add: fun_eq_iff emit_checkpoint_def pl_callbacks_execute)

lemma work_on_same:
  assumes "agree_off F P ex" "good_item F (pw_ledger (rs_world rs)) cand"
  shows "work_on (pl_callbacks (P\<lparr>pi_execute := ex\<rparr>)) pol i cand rs = work_on (pl_callbacks P) pol i cand rs"
proof -
  let ?P = "P\<lparr>pi_execute := ex\<rparr>"
  have ae: "after_exception (pl_callbacks ?P) pol i it e rs1 = after_exception (pl_callbacks P) pol i it e rs1"
    and ar: "after_rejection (pl_callbacks ?P) pol i it c v rh rs1 = after_rejection (pl_callbacks P) pol i it c v rh rs1"
    and as: "after_success (pl_callbacks ?P) i it v rs1 = after_success (pl_callbacks P) i it v rs1" for it e rs1 c v rh
    unfolding after_exception_def after_rejection_def after_success_def emit_same pl_callbacks_execute by (rule refl)+
  have at: "attempt_item (pl_callbacks ?P) it w = attempt_item (pl_callbacks P) it w" if "fingerprint digest it \<notin> F" for it w
  proof -
    have "ex it (pw_exec w) = pi_execute P it (pw_exec w)" using assms(1) that by (simp add: agree_off_def)
    from pl_callbacks_execute(5) [of ex it w P, OF this] show ?thesis
      unfolding attempt_item_def pl_callbacks_execute(2) by (rule arg_cong)
  qed
  have f: "fingerprint digest (cand\<lparr>wi_state := RUNNING, wi_attempts := wi_attempts cand + 1\<rparr>) \<notin> F"
    using assms(2) by (simp add: good_item_def)
  show ?thesis unfolding work_on_def Let_def at [OF f] ae ar as by (rule refl)
qed

lemma loop_from_same:
  assumes "served P" "sources_valid P" "agree_off F P ex"
  shows "run_good F rs \<Longrightarrow>
    loop_from digest (pl_callbacks (P\<lparr>pi_execute := ex\<rparr>)) pol is rs = loop_from digest (pl_callbacks P) pol is rs"
proof (induction "is" arbitrary: rs)
  case (Cons i "is")
  let ?P = "P\<lparr>pi_execute := ex\<rparr>"
  obtain found err w rs1 where d: "cb_discover (pl_callbacks P) (rs_world rs) = ((found, err), w)"
    "rs1 = add_all digest found (rs\<lparr>rs_iterations := i, rs_world := w\<rparr>)" "run_good F rs1"
    "\<And>cand. next_pending (rs_items rs1) = Some cand \<Longrightarrow> good_item F (pw_ledger (rs_world rs1)) cand"
    by (rule iterate_good [OF assms(1,2) Cons.prems, of i]) blast
  have it: "iterate digest (pl_callbacks ?P) pol i rs = iterate digest (pl_callbacks P) pol i rs"
    using d(1,2) work_on_same [OF assms(3) d(4)]
    by (simp add: iterate_def pl_callbacks_execute Let_def split: option.splits)
  obtain fl rs2 where r: "iterate digest (pl_callbacks P) pol i rs = (fl, rs2)" by fastforce
  have "run_good F rs2"
    by (rule loop_from_good [OF assms(1,2) Cons.prems, of pol "[i]" fl]) (use r in \<open>cases fl; simp\<close>)
  then show ?case using Cons.IH it r by (cases fl) simp_all
qed simp

lemma run_locked_same:
  assumes "served P" "sources_valid P" "pipe_good F w" "\<forall>it \<in> set seeds. valid_item it" "agree_off F P ex"
  shows "pl_run_locked (P\<lparr>pi_execute := ex\<rparr>) seeds w = pl_run_locked P seeds w"
proof (rule run_locked_start [OF assms(1,3,4)])
  fix e w1 assume f: "\<And>ex. pl_run_locked (P\<lparr>pi_execute := ex\<rparr>) seeds w = (Inl e, w1)"
  show ?thesis using f [of ex] f [of "pi_execute P"] by simp
next
  fix seed w1
  assume on1: "onward F w w1" and sg: "\<forall>it \<in> set seed. good_item F (pw_ledger w1) it"
    and st: "\<And>ex. pl_run_locked (P\<lparr>pi_execute := ex\<rparr>) seeds w =
        (case run_loop digest (pl_callbacks (P\<lparr>pi_execute := ex\<rparr>)) (pi_policy P) seed [] [] w1 of
           (Inl x, rs) \<Rightarrow> (Inl x, rs_world rs)
         | (Inr rep, rs) \<Rightarrow> (case lg_blocked_item_ids (pi_ledger P) (pw_ledger (rs_world rs)) of
               Inl e \<Rightarrow> (Inl (ledger_exc e), rs_world rs)
             | Inr persisted \<Rightarrow> (Inr (with_persisted_blocked persisted rep), rs_world rs)))"
  note rg = run_start_good [OF onward_good(1) [OF on1] sg]
  have "run_loop digest (pl_callbacks (P\<lparr>pi_execute := ex\<rparr>)) (pi_policy P) seed [] [] w1 =
      run_loop digest (pl_callbacks P) (pi_policy P) seed [] [] w1"
    unfolding run_loop_def emit_same loop_from_same [OF assms(1,2,5) rg] by (rule refl)
  then show ?thesis using st [of ex] st [of "pi_execute P"] by simp
qed

lemma run_same:
  assumes "served P" "sources_valid P" "pipe_good F w" "\<forall>it \<in> set seeds. valid_item it" "agree_off F P ex"
  shows "pl_run (P\<lparr>pi_execute := ex\<rparr>) seeds w = pl_run P seeds w"
  using run_locked_same [OF assms(1,2) _ assms(4,5)] assms(3) by (simp add: pl_run_def split: prod.splits option.splits)

lemma run_completed:
  assumes "served P" "sources_valid P" "pipe_good F w" "\<forall>it \<in> set seeds. valid_item it"
    "pl_run P seeds w = (r, w')"
  shows "pipe_good F w'"
    "r = Inr rep \<Longrightarrow> j \<in> set (lr_completed_item_ids rep) \<Longrightarrow>
       \<exists>f. record_id f (pw_ledger w') = Some j \<and> finished state_for f (pw_ledger w')"
proof -
  have "pipe_good F w' \<and> (r = Inr rep \<longrightarrow> j \<in> set (lr_completed_item_ids rep) \<longrightarrow>
       (\<exists>f. record_id f (pw_ledger w') = Some j \<and> finished state_for f (pw_ledger w')))"
  proof (cases "pw_closed w")
    case True
    then show ?thesis using assms(3,5) by (auto simp: pl_run_def)
  next
    case False
    obtain x e1 where a: "pi_acquire P (pw_exec w) = (x, e1)" by fastforce
    obtain r1 w1 where l: "pl_run_locked P seeds (w\<lparr>pw_exec := e1\<rparr>) = (r1, w1)" by fastforce
    have "pipe_good F (w\<lparr>pw_exec := e1\<rparr>)" using assms(3) by simp
    note lg = run_locked_completed [OF assms(1,2) this assms(4) l]
    obtain y e2 where b: "pi_release P (pw_exec w1) = (y, e2)" by fastforce
    show ?thesis using assms(3,5) False a l b lg by (cases x; cases y) (auto simp: pl_run_def)
  qed
  then show "pipe_good F w'" "r = Inr rep \<Longrightarrow> j \<in> set (lr_completed_item_ids rep) \<Longrightarrow>
       \<exists>f. record_id f (pw_ledger w') = Some j \<and> finished state_for f (pw_ledger w')" by simp_all
qed

end

end
