(* ===== verification/PipelineJson.thy ===== *)
theory PipelineJson
  imports Pipeline
begin

text \<open>
  The pipeline on the JSON ledger: \<open>json_record_id\<close> reads the item id of an entry, the laws of \<open>durable_ledger\<close> hold
  for the operations of \<open>JsonUpgradeLedger\<close>, and so work a run reports as completed is never executed by a later one.
\<close>

subsection \<open>The entries of the file\<close>

fun record_item_id :: "json option \<Rightarrow> string option" where
  "record_item_id (Some (JObj r)) = (case map_of r ''item_id'' of Some (JStr i) \<Rightarrow> Some i | _ \<Rightarrow> None)"
| "record_item_id _ = None"

definition json_record_id :: "string \<Rightarrow> ledger_file \<Rightarrow> string option" where
  "json_record_id f led = (case ledger_read led of Inl _ \<Rightarrow> None | Inr d \<Rightarrow> record_item_id (map_of (ld_records d) f))"

lemma record_item_id_serialized [simp]: "record_item_id (Some (JObj (serialize_item it st now))) = Some (wi_item_id it)"
  by (simp add: serialize_item_def)

declare record_item_id.simps(1) [simp del]

lemma json_record_id_read: "ledger_read f = Inr d \<Longrightarrow> json_record_id k f = record_item_id (map_of (ld_records d) k)"
  by (simp add: json_record_id_def)

lemma json_record_id_write:
  assumes "good_records digest (ld_records d)"
  shows "json_record_id f (ledger_write d) = record_item_id (map_of (ld_records d) f)"
  using assms by (simp add: json_record_id_def ledger_read_write map_of_sort_fst good_records_def)

lemma json_finished_iff:
  assumes "ledger_read f = Inr d" "good_records digest (ld_records d)"
  shows "finished (ledger_state_for strf) k f \<longleftrightarrow> (\<exists>it now. map_of (ld_records d) k = Some (JObj (serialize_item it SUCCEEDED now)))"
proof (cases "map_of (ld_records d) k")
  case None
  then show ?thesis by (simp add: finished_def ledger_state_for_read [OF assms(1)])
next
  case (Some j)
  obtain it st now where j: "j = JObj (serialize_item it st now)" by (rule good_record_of [OF assms(2) Some])
  have st: "serialize_item it st now = serialize_item it2 st2 now2 \<Longrightarrow> st = st2" for it2 st2 now2
    by (drule arg_cong [where f = "\<lambda>r. dict_get r ''state'' JNull"]) (simp del: state_value.simps)
  have "ledger_state_for strf k f = Inr (Some (state_value st))"
    by (simp only: ledger_state_for_read [OF assms(1)] Some j option.case json.case serialized_fields py_str.simps)
  then have "finished (ledger_state_for strf) k f \<longleftrightarrow> st = SUCCEEDED" by (simp add: finished_def del: state_value.simps)
  then show ?thesis using Some j st by auto
qed

text \<open>Loading, record by record.\<close>

definition reloaded :: "(json \<Rightarrow> string) \<Rightarrow> string \<times> json \<Rightarrow> string \<times> json \<Rightarrow> bool" where
  "reloaded digest r r' \<longleftrightarrow> (\<exists>it st it' st' now. r = (fingerprint digest it, JObj (serialize_item it st now)) \<and>
     r' = (fingerprint digest it, JObj (serialize_item it' st' now)) \<and> valid_item it' \<and> fingerprint digest it' = fingerprint digest it \<and>
     wi_item_id it' = wi_item_id it \<and> (st = SUCCEEDED \<longrightarrow> it' = it \<and> st' = SUCCEEDED))"

definition loaded_from :: "(json \<Rightarrow> string) \<Rightarrow> (string \<times> json) list \<Rightarrow> work_item \<Rightarrow> bool" where
  "loaded_from digest rs it \<longleftrightarrow> valid_item it \<and> (\<exists>it0 st now. (fingerprint digest it, JObj (serialize_item it0 st now)) \<in> set rs \<and>
     wi_item_id it0 = wi_item_id it \<and> st \<noteq> SUCCEEDED)"

lemma loaded_from_Cons: "loaded_from digest rs it \<Longrightarrow> loaded_from digest (r # rs) it"
  unfolding loaded_from_def by (metis list.set_intros(2))

lemma reloaded_key: "reloaded digest r r' \<Longrightarrow> fst r' = fst r"
  by (auto simp: reloaded_def)

lemma serialize_reset:
  "dict_set (dict_set (serialize_item it st now) ''state'' (JStr ''PENDING'')) ''attempts'' (JInt 0) =
   serialize_item (it\<lparr>wi_attempts := 0\<rparr>) PENDING now"
  by (simp add: serialize_item_def)

lemma load_records_good:
  "\<forall>(k, j) \<in> set rs. good_record digest k j \<Longrightarrow>
   \<exists>its rs'. load_records digest strf retry rs = Inr (its, rs') \<and> list_all2 (reloaded digest) rs rs' \<and> (\<forall>it \<in> set its. loaded_from digest rs it)"
proof (induction rs)
  case Nil
  then show ?case by simp
next
  case (Cons r rs)
  obtain it st now where v: "valid_item it" and r: "r = (fingerprint digest it, JObj (serialize_item it st now))"
    using Cons.prems by (cases r) (auto simp: good_record_def)
  obtain its rs' where ih: "load_records digest strf retry rs = Inr (its, rs')" "list_all2 (reloaded digest) rs rs'"
    "\<forall>it \<in> set its. loaded_from digest rs it" using Cons by auto
  have stv: "state_value st = ''SUCCEEDED'' \<longleftrightarrow> st = SUCCEEDED" "state_value st = ''BLOCKED'' \<longleftrightarrow> st = BLOCKED" by (cases st; simp)+
  have keys: "map_of (serialize_item it st now) ''title'' \<noteq> None" "map_of (serialize_item it st now) ''kind'' \<noteq> None"
    "map_of (serialize_item it st now) ''item_id'' \<noteq> None" by (simp_all add: serialize_item_def)
  show ?case
  proof (cases "st = SUCCEEDED \<or> st = BLOCKED \<and> \<not> retry")
    case True
    then have "load_records digest strf retry (r # rs) = Inr (its, r # rs')" using ih(1) r stv by (simp add: Let_def)
    moreover have "reloaded digest r r" using r v unfolding reloaded_def
      by (intro exI [of _ it] exI [of _ st] exI [of _ it] exI [of _ st] exI [of _ now]) simp
    moreover have "\<forall>it \<in> set its. loaded_from digest (r # rs) it" using ih(3) loaded_from_Cons by blast
    ultimately show ?thesis using ih(2) by auto
  next
    case False
    let ?it = "it\<lparr>wi_state := PENDING, wi_attempts := (if st = BLOCKED then 0 else wi_attempts it)\<rparr>"
    let ?r = "(fingerprint digest it, JObj (if st = BLOCKED then serialize_item (it\<lparr>wi_attempts := 0\<rparr>) PENDING now else serialize_item it st now))"
    have ld: "load_records digest strf retry (r # rs) = Inr (?it # its, ?r # rs')"
      using ih(1) r stv False keys v by (simp add: Let_def restore_serialized serialize_reset)
    have "valid_item (it\<lparr>wi_attempts := 0\<rparr>)" using v by (auto simp: valid_item_def work_item_new_def split: if_splits)
    moreover have "fingerprint digest (it\<lparr>wi_attempts := 0\<rparr>) = fingerprint digest it" by (simp add: fingerprint_def)
    ultimately have "reloaded digest r ?r" using r v False unfolding reloaded_def
      by (intro exI [of _ it] exI [of _ st] exI [of _ "if st = BLOCKED then it\<lparr>wi_attempts := 0\<rparr> else it"]
            exI [of _ "if st = BLOCKED then PENDING else st"] exI [of _ now]) auto
    moreover have "loaded_from digest (r # rs) ?it" using v r False by (auto simp: loaded_from_def)
    moreover have "\<forall>it \<in> set its. loaded_from digest (r # rs) it" using ih(3) loaded_from_Cons by blast
    ultimately show ?thesis using ih(2) ld by auto
  qed
qed

lemma reloaded_map_of:
  assumes "list_all2 (reloaded digest) rs rs'"
  shows "case map_of rs k of None \<Rightarrow> map_of rs' k = None
    | Some j \<Rightarrow> \<exists>j'. map_of rs' k = Some j' \<and> reloaded digest (k, j) (k, j')"
  using assms
proof (induction rule: list_all2_induct)
  case (Cons r rs r' rs')
  have k: "fst r' = fst r" by (rule reloaded_key [OF Cons.hyps(1)])
  show ?case
  proof (cases "fst r = k")
    case True
    then have "(k, snd r) = r" "(k, snd r') = r'" using k by (cases r; cases r'; simp)+
    then show ?thesis using Cons.hyps(1) True k by (cases r; cases r') simp
  next
    case False
    then have "map_of (r # rs) k = map_of rs k" "map_of (r' # rs') k = map_of rs' k" using k by (cases r; cases r'; simp)+
    then show ?thesis using Cons.IH by (simp only:)
  qed
qed simp

lemma reloaded_good:
  assumes "list_all2 (reloaded digest) rs rs'" "good_records digest rs"
  shows "good_records digest rs'"
proof -
  have "map fst rs' = map fst rs" using assms(1) by (induction rule: list_all2_induct) (auto simp: reloaded_def)
  moreover have "\<forall>(k, j) \<in> set rs'. good_record digest k j"
    using assms(1) by (induction rule: list_all2_induct) (auto simp: reloaded_def good_record_def)
  ultimately show ?thesis using assms(2) by (simp add: good_records_def)
qed

lemma load_resumable_cases:
  assumes "ledger_read f = Inr d" "good_records digest (ld_records d)"
  obtains its rs' f' where "load_resumable digest strf retry f = (Inr its, f')" "list_all2 (reloaded digest) (ld_records d) rs'"
    "\<forall>it \<in> set its. loaded_from digest (ld_records d) it" "good_records digest rs'"
    "\<exists>d'. ledger_read f' = Inr d' \<and> map_of (ld_records d') = map_of rs' \<and> good_records digest (ld_records d')"
proof -
  have "\<forall>(k, j) \<in> set (ld_records d). good_record digest k j" using assms(2) by (simp add: good_records_def)
  from load_records_good [OF this, of strf retry] obtain its rs' where
    l: "load_records digest strf retry (ld_records d) = Inr (its, rs')" "list_all2 (reloaded digest) (ld_records d) rs'"
      "\<forall>it \<in> set its. loaded_from digest (ld_records d) it" by blast
  have g: "good_records digest rs'" by (rule reloaded_good [OF l(2) assms(2)])
  let ?f = "if rs' \<noteq> ld_records d then ledger_write (d\<lparr>ld_records := rs'\<rparr>) else f"
  have "\<exists>d'. ledger_read ?f = Inr d' \<and> map_of (ld_records d') = map_of rs' \<and> good_records digest (ld_records d')"
  proof (cases "rs' = ld_records d")
    case True
    then show ?thesis using assms by simp
  next
    case False
    have "distinct (map fst rs')" using g by (simp add: good_records_def)
    from map_of_sort_fst [OF this] show ?thesis using False good_records_sort [OF g] by (simp add: ledger_read_write)
  qed
  then show thesis using l g assms(1) by (intro that [of its ?f rs']) (simp_all add: load_resumable_def)
qed

lemma json_load_frame:
  assumes "json_wf digest f" "load_resumable digest strf retry f = (r, f')"
  shows "json_wf digest f' \<and> json_record_id k f' = json_record_id k f \<and>
    (finished (ledger_state_for strf) k f \<longrightarrow> finished (ledger_state_for strf) k f')"
proof -
  obtain d where d: "ledger_read f = Inr d" "good_records digest (ld_records d)" using assms(1) by (auto simp: json_wf_def)
  obtain its rs' where l: "r = Inr its" "list_all2 (reloaded digest) (ld_records d) rs'"
    and ex: "\<exists>d'. ledger_read f' = Inr d' \<and> map_of (ld_records d') = map_of rs' \<and> good_records digest (ld_records d')"
    by (rule load_resumable_cases [OF d, of strf retry]) (use assms(2) in auto)
  then obtain d' where d': "ledger_read f' = Inr d'" "map_of (ld_records d') = map_of rs'" "good_records digest (ld_records d')" by blast
  note m = reloaded_map_of [OF l(2), of k]
  have "json_wf digest f'" using d' by (auto simp: json_wf_def)
  moreover have "json_record_id k f' = json_record_id k f"
    using m d d' by (cases "map_of (ld_records d) k") (auto simp: json_record_id_def reloaded_def)
  moreover have "finished (ledger_state_for strf) k f'" if fin: "finished (ledger_state_for strf) k f"
  proof -
    obtain it now where "map_of (ld_records d) k = Some (JObj (serialize_item it SUCCEEDED now))"
      using fin json_finished_iff [OF d] by blast
    with m obtain j' where j': "map_of rs' k = Some j'" "reloaded digest (k, JObj (serialize_item it SUCCEEDED now)) (k, j')" by auto
    obtain it0 st it1 st1 now1 where e: "serialize_item it SUCCEEDED now = serialize_item it0 st now1"
      "j' = JObj (serialize_item it1 st1 now1)" "st = SUCCEEDED \<longrightarrow> it1 = it0 \<and> st1 = SUCCEEDED"
      using j'(2) unfolding reloaded_def by blast
    have "st = SUCCEEDED"
      using e(1) by (drule_tac arg_cong [where f = "\<lambda>r. dict_get r ''state'' JNull"]) (simp del: state_value.simps)
    then show ?thesis using json_finished_iff [OF d'(1,3)] d'(2) j'(1) e(2,3) by auto
  qed
  ultimately show ?thesis by blast
qed

lemma json_load_items:
  assumes "json_wf digest f" "load_resumable digest strf retry f = (Inr its, f')" "it \<in> set its"
  shows "valid_item it \<and> \<not> finished (ledger_state_for strf) (fingerprint digest it) f \<and>
    json_record_id (fingerprint digest it) f = Some (wi_item_id it)"
proof -
  obtain d where d: "ledger_read f = Inr d" "good_records digest (ld_records d)" using assms(1) by (auto simp: json_wf_def)
  have "loaded_from digest (ld_records d) it"
    by (rule load_resumable_cases [OF d, of strf retry]) (use assms(2,3) in auto)
  then obtain it0 st now where v: "valid_item it" and m: "(fingerprint digest it, JObj (serialize_item it0 st now)) \<in> set (ld_records d)"
    "wi_item_id it0 = wi_item_id it" "st \<noteq> SUCCEEDED" by (auto simp: loaded_from_def)
  have mo: "map_of (ld_records d) (fingerprint digest it) = Some (JObj (serialize_item it0 st now))"
    using m(1) d(2) by (simp add: good_records_def)
  have "serialize_item it0 st now \<noteq> serialize_item it2 SUCCEEDED now2" for it2 now2
    using m(3) by (auto dest!: arg_cong [where f = "\<lambda>r. dict_get r ''state'' JNull"] simp del: state_value.simps)
  then show ?thesis using v m(2) mo json_finished_iff [OF d, of strf] d(1) by (auto simp: json_record_id_def)
qed

lemma json_register_ids:
  assumes "json_wf digest f" "valid_item it" "restore_or_register digest strf it retry now f = (r, f')"
  shows "r = Inr (Some it') \<Longrightarrow> valid_item it' \<and> json_record_id (fingerprint digest it) f' = Some (wi_item_id it')"
    "json_record_id k f = Some i \<Longrightarrow> json_record_id k f' = Some i"
proof -
  obtain d where d: "ledger_read f = Inr d" "good_records digest (ld_records d)" using assms(1) by (auto simp: json_wf_def)
  have w: "json_record_id k (ledger_write (d\<lparr>ld_records := dict_set (ld_records d) (fingerprint digest x) (JObj (serialize_item x st now))\<rparr>)) =
      (if k = fingerprint digest x then Some (wi_item_id x) else json_record_id k f)" if "valid_item x" for x st k
    using json_record_id_write [of digest "d\<lparr>ld_records := dict_set (ld_records d) (fingerprint digest x) (JObj (serialize_item x st now))\<rparr>" k]
      good_records_set [OF d(2) that, of st now] d(1) by (simp add: json_record_id_def)
  have "(r = Inr (Some it') \<longrightarrow> valid_item it' \<and> json_record_id (fingerprint digest it) f' = Some (wi_item_id it')) \<and>
    (json_record_id k f = Some i \<longrightarrow> json_record_id k f' = Some i)"
  proof (rule register_cases [OF d, where it = it and strf = strf and retry = retry and now = now])
    assume n: "map_of (ld_records d) (fingerprint digest it) = None"
      and e: "restore_or_register digest strf it retry now f = (Inr (Some it), ledger_write (d\<lparr>ld_records :=
         dict_set (ld_records d) (fingerprint digest it) (JObj (serialize_item it (wi_state it) now))\<rparr>))"
    have "json_record_id (fingerprint digest it) f = None" using n d(1) by (simp add: json_record_id_def)
    then show ?thesis using e assms(2,3) w [OF assms(2), of _ "wi_state it"] by auto
  next
    fix it0 st now0
    assume v0: "valid_item it0" and fp0: "fingerprint digest it0 = fingerprint digest it"
      and m: "map_of (ld_records d) (fingerprint digest it) = Some (JObj (serialize_item it0 st now0))"
      and e: "restore_or_register digest strf it retry now f =
         (if st = SUCCEEDED \<or> st = BLOCKED \<and> \<not> retry then (Inr None, f)
          else (let it' = it0\<lparr>wi_state := PENDING, wi_attempts := (if st = BLOCKED then 0 else wi_attempts it0)\<rparr>
            in (Inr (Some it'), ledger_write (d\<lparr>ld_records := dict_set (ld_records d)
               (fingerprint digest it) (JObj (serialize_item it' PENDING now))\<rparr>))))"
    let ?it = "it0\<lparr>wi_state := PENDING, wi_attempts := (if st = BLOCKED then 0 else wi_attempts it0)\<rparr>"
    have i0: "json_record_id (fingerprint digest it) f = Some (wi_item_id it0)" using m d(1) by (simp add: json_record_id_def)
    have v: "valid_item ?it" and fp: "fingerprint digest ?it = fingerprint digest it" using v0 fp0 by simp_all
    show ?thesis
    proof (cases "st = SUCCEEDED \<or> st = BLOCKED \<and> \<not> retry")
      case True
      then show ?thesis using e assms(3) by simp
    next
      case False
      have "restore_or_register digest strf it retry now f = (Inr (Some ?it), ledger_write (d\<lparr>ld_records := dict_set (ld_records d)
               (fingerprint digest it) (JObj (serialize_item ?it PENDING now))\<rparr>))"
        unfolding e if_not_P [OF False] Let_def by (rule refl)
      then have "r = Inr (Some ?it)" and f': "f' = ledger_write (d\<lparr>ld_records := dict_set (ld_records d)
               (fingerprint digest ?it) (JObj (serialize_item ?it PENDING now))\<rparr>)"
        using assms(3) unfolding fp by (simp_all only: prod.inject)
      have w1: "json_record_id k' f' = (if k' = fingerprint digest ?it then Some (wi_item_id ?it) else json_record_id k' f)" for k'
        unfolding f' by (rule w [OF v])
      have "wi_item_id ?it = wi_item_id it0" by simp
      then show ?thesis using w1 v i0 \<open>r = Inr (Some ?it)\<close> unfolding fp by (metis option.inject sum.inject(2))
    qed
  qed
  then show "r = Inr (Some it') \<Longrightarrow> valid_item it' \<and> json_record_id (fingerprint digest it) f' = Some (wi_item_id it')"
    "json_record_id k f = Some i \<Longrightarrow> json_record_id k f' = Some i" by blast+
qed

text \<open>A checkpoint rewrites entries with the id they have.\<close>

lemma checkpoint_records_ids:
  assumes "distinct (map (\<lambda>(i, it). fingerprint digest it) items)"
    and "\<forall>(i, it) \<in> set items. wi_item_id it = i \<and> record_item_id (map_of rs (fingerprint digest it)) = Some i"
  shows "record_item_id (map_of (checkpoint_records digest cp now items rs) k) = record_item_id (map_of rs k)"
proof (cases "k \<in> (\<lambda>(i, it). fingerprint digest it) ` set items")
  case True
  then obtain i it where it: "(i, it) \<in> set items" "k = fingerprint digest it" by auto
  then show ?thesis using checkpoint_records_get [OF assms(1) it(1), of cp now rs] assms(2) by auto
next
  case False
  then show ?thesis by (simp add: checkpoint_records_other)
qed

lemma known_ids_distinct:
  assumes "distinct (map fst items)" "\<forall>(i, it) \<in> set items. g (fp it) = Some i"
  shows "distinct (map (\<lambda>(i, it). fp it) items)"
  using assms by (induction items) (auto, force)

lemma json_checkpoint_law:
  assumes "json_wf digest f" "distinct (map fst items)"
    "\<forall>(i, it) \<in> set items. valid_item it \<and> wi_item_id it = i \<and> json_record_id (fingerprint digest it) f = Some i"
  shows "\<exists>f'. record_checkpoint digest n cp now items now f = (Inr (), f') \<and> json_wf digest f' \<and>
    (\<forall>k. json_record_id k f' = json_record_id k f) \<and>
    (\<forall>(i, it) \<in> set items. ledger_state_for strf (fingerprint digest it) f' = Inr (Some (state_value (persisted_state cp i it)))) \<and>
    (\<forall>k. k \<notin> (\<lambda>(i, it). fingerprint digest it) ` set items \<longrightarrow> ledger_state_for strf k f' = ledger_state_for strf k f)"
proof -
  obtain d where d: "ledger_read f = Inr d" "good_records digest (ld_records d)" using assms(1) by (auto simp: json_wf_def)
  have v: "\<forall>(i, it) \<in> set items. valid_item it" using assms(3) by auto
  have fps: "distinct (map (\<lambda>(i, it). fingerprint digest it) items)"
    by (rule known_ids_distinct [OF assms(2), of "\<lambda>k. json_record_id k f"]) (use assms(3) in auto)
  let ?rs = "checkpoint_records digest cp now items (ld_records d)"
  let ?d = "\<lparr>ld_records = ?rs, ld_checkpoints = last_n n (ld_checkpoints d @ [checkpoint_json cp now])\<rparr>"
  have c: "record_checkpoint digest n cp now items now f = (Inr (), ledger_write ?d)" by (simp add: record_checkpoint_def d(1))
  have g: "good_records digest (ld_records ?d)" using checkpoint_records_good [OF d(2) v] by simp
  have rd: "ledger_read (ledger_write ?d) = Inr (?d\<lparr>ld_records := sort_key fst ?rs\<rparr>)" by (simp add: ledger_read_write)
  have mo: "map_of (sort_key fst ?rs) = map_of ?rs" using g by (simp add: map_of_sort_fst good_records_def)
  have "\<forall>(i, it) \<in> set items. wi_item_id it = i \<and> record_item_id (map_of (ld_records d) (fingerprint digest it)) = Some i"
    using assms(3) by (auto simp: json_record_id_read [OF d(1)])
  from checkpoint_records_ids [OF fps this] have ids: "json_record_id k (ledger_write ?d) = json_record_id k f" for k
    by (simp add: json_record_id_write [OF g] json_record_id_read [OF d(1)])
  obtain f' where "record_checkpoint digest n cp now items now f = (Inr (), f')" "json_wf digest f'"
    "\<forall>(i, it) \<in> set items. ledger_state_for strf (fingerprint digest it) f' = Inr (Some (state_value (persisted_state cp i it)))"
    using record_checkpoint_state [OF assms(1) v fps] by blast
  moreover have "f' = ledger_write ?d" using calculation(1) c by simp
  moreover have "ledger_state_for strf k (ledger_write ?d) = ledger_state_for strf k f"
    if "k \<notin> (\<lambda>(i, it). fingerprint digest it) ` set items" for k
    using checkpoint_records_other [OF that] mo by (simp add: ledger_state_for_read [OF rd] ledger_state_for_read [OF d(1)])
  ultimately show ?thesis using ids by blast
qed

interpretation json_durable: durable_ledger "restore_or_register digest strf" "ledger_state_for strf" digest "json_wf digest"
  "\<lambda>retry now. load_resumable digest strf retry" "\<lambda>cp now items. record_checkpoint digest n cp now items now" json_record_id
  for digest strf n
proof unfold_locales
  fix s it retry now it' s'
  assume "json_wf digest s" "valid_item it" "restore_or_register digest strf it retry now s = (Inr (Some it'), s')"
  from json_register_ids(1) [OF this] show "valid_item it' \<and> json_record_id (fingerprint digest it) s' = Some (wi_item_id it')"
    by blast
next
  fix s it f i retry now
  assume "json_wf digest s" "valid_item it" "json_record_id f s = Some i"
  with json_register_ids(2) [OF this(1,2) surjective_pairing] show
    "json_record_id f (snd (restore_or_register digest strf it retry now s)) = Some i" by blast
next
  fix s retry r s' f
  assume "json_wf digest s" "load_resumable digest strf retry s = (r, s')"
  from json_load_frame [OF this] show "json_wf digest s' \<and> json_record_id f s' = json_record_id f s \<and>
      (finished (ledger_state_for strf) f s \<longrightarrow> finished (ledger_state_for strf) f s')" .
next
  fix s retry its s' it
  assume "json_wf digest s" "load_resumable digest strf retry s = (Inr its, s')" "it \<in> set its"
  from json_load_items [OF this] show "valid_item it \<and> \<not> finished (ledger_state_for strf) (fingerprint digest it) s \<and>
      json_record_id (fingerprint digest it) s = Some (wi_item_id it)" .
qed (rule json_checkpoint_law)

text \<open>A pipeline on the JSON ledger, whose sources find items the ledger can give back.\<close>

definition on_json_ledger :: "(json \<Rightarrow> string) \<Rightarrow> (json \<Rightarrow> string) \<Rightarrow> (ledger_file, 'e) pipeline \<Rightarrow> bool" where
  "on_json_ledger digest strf P \<longleftrightarrow> pi_digest P = digest \<and> (\<exists>n. pi_ledger P = json_ledger_ops digest strf n) \<and>
     (\<forall>src \<in> set (pi_sources P). \<forall>e. \<forall>it \<in> set (fst (fst (src e))). valid_item it)"

lemma on_json_ledger_served:
  assumes "on_json_ledger digest strf P"
  obtains n where "json_durable.served digest strf n P" "json_durable.sources_valid P"
  using assms by (auto simp: on_json_ledger_def json_durable.served_def json_durable.sources_valid_def json_ledger_ops_def)

lemma json_pipeline_never_repeats:
  fixes P :: "(ledger_file, 'e) pipeline" and P2 :: "(ledger_file, 'f) pipeline"
  assumes "on_json_ledger digest strf P" "\<forall>it \<in> set seeds. valid_item it" "json_wf digest (pw_ledger w)" "pw_items w = []"
    and "pl_run P seeds w = (Inr rep, w1)"
    and "on_json_ledger digest strf P2" "\<forall>it \<in> set seeds2. valid_item it" "pw_ledger w2 = pw_ledger w1" "pw_items w2 = []"
    and "\<forall>it e. \<not> finished (ledger_state_for strf) (fingerprint digest it) (pw_ledger w1) \<longrightarrow> other it e = pi_execute P2 it e"
  shows "\<forall>i \<in> set (lr_completed_item_ids rep). \<exists>f. json_record_id f (pw_ledger w1) = Some i \<and>
      finished (ledger_state_for strf) f (pw_ledger w1)"
    "pl_run (P2\<lparr>pi_execute := other\<rparr>) seeds2 w2 = pl_run P2 seeds2 w2"
proof -
  obtain n where s1: "json_durable.served digest strf n P" "json_durable.sources_valid P" by (rule on_json_ledger_served [OF assms(1)])
  have g1: "json_durable.pipe_good strf digest {} w"
    using assms(3,4) by (simp add: json_durable.pipe_good_def json_durable.items_good_def)
  note done1 = json_durable.run_completed [OF s1 g1 assms(2,5)]
  show "\<forall>i \<in> set (lr_completed_item_ids rep). \<exists>f. json_record_id f (pw_ledger w1) = Some i \<and>
      finished (ledger_state_for strf) f (pw_ledger w1)" using done1(2) by blast
  let ?F = "{f. finished (ledger_state_for strf) f (pw_ledger w1)}"
  obtain n2 where s2: "json_durable.served digest strf n2 P2" "json_durable.sources_valid P2" by (rule on_json_ledger_served [OF assms(6)])
  have g2: "json_durable.pipe_good strf digest ?F w2"
    using done1(1) assms(8,9) by (simp add: json_durable.pipe_good_def json_durable.items_good_def)
  have "json_durable.agree_off digest ?F P2 other"
    using assms(10) by (simp add: json_durable.agree_off_def)
  from json_durable.run_same [OF s2 g2 assms(7) this]
  show "pl_run (P2\<lparr>pi_execute := other\<rparr>) seeds2 w2 = pl_run P2 seeds2 w2" .
qed

text \<open>
  C6: Work a run completed is never executed again: when a run of the pipeline on a well-formed JSON ledger returns a
  report, every item id it lists as completed belongs to an entry that is SUCCEEDED in the ledger; and a later pipeline on
  that ledger, whatever its seeds, sources, policy and lease, runs exactly as it would with any other executor
  that differs only on items whose content fingerprint is SUCCEEDED in the ledger, so it never asks its executor about one.
\<close>

theorem completed_work_is_never_executed_again:
  fixes P :: "(ledger_file, 'e) pipeline" and P2 :: "(ledger_file, 'f) pipeline"
  assumes "on_json_ledger digest strf P" "\<forall>it \<in> set seeds. valid_item it" "json_wf digest (pw_ledger w)" "pw_items w = []"
    and "pl_run P seeds w = (Inr rep, w1)"
    and "on_json_ledger digest strf P2" "\<forall>it \<in> set seeds2. valid_item it" "pw_ledger w2 = pw_ledger w1" "pw_items w2 = []"
    and "\<forall>it e. \<not> finished (ledger_state_for strf) (fingerprint digest it) (pw_ledger w1) \<longrightarrow> other it e = pi_execute P2 it e"
  shows "(\<forall>i \<in> set (lr_completed_item_ids rep). \<exists>f. json_record_id f (pw_ledger w1) = Some i \<and>
      finished (ledger_state_for strf) f (pw_ledger w1)) \<and>
    pl_run (P2\<lparr>pi_execute := other\<rparr>) seeds2 w2 = pl_run P2 seeds2 w2"
  using json_pipeline_never_repeats [OF assms] by (rule conjI)

text \<open>A pipeline whose world is the list of the items it executed.\<close>

definition demo_pipeline :: "(ledger_file, string list) pipeline" where
  "demo_pipeline = \<lparr>pi_execute = (\<lambda>it e. (Inr \<lparr>ex_task_id = wi_item_id it, ex_status = ''SUCCEEDED'', ex_ci_repair_passed = None\<rparr>,
       wi_item_id it # e)),
     pi_ledger = json_ledger_ops demo_digest (\<lambda>j. []) 5, pi_sources = [], pi_policy = demo_policy, pi_retry_blocked = True,
     pi_acquire = (\<lambda>e. (None, e)), pi_release = (\<lambda>e. (None, e)), pi_clock = (\<lambda>e. 0), pi_digest = demo_digest\<rparr>"

definition demo_pipe :: "(ledger_file, string list) pipe" where
  "demo_pipe = \<lparr>pw_ledger = NoFile, pw_items = [], pw_exec = [], pw_closed = False\<rparr>"

lemma demo_pipeline_run:
  "case pl_run demo_pipeline [demo_item ''a''] demo_pipe of (Inl e, w) \<Rightarrow> False
   | (Inr rep, w) \<Rightarrow> lr_completed_item_ids rep = [''a''] \<and> pw_exec w = [''a'']"
  by code_simp

theorem completed_work_is_never_executed_again_witness:
  "\<exists>rep w1 f. pl_run demo_pipeline [demo_item ''a''] demo_pipe = (Inr rep, w1) \<and> lr_completed_item_ids rep = [''a''] \<and>
     json_record_id f (pw_ledger w1) = Some ''a'' \<and>
     pl_run (demo_pipeline\<lparr>pi_execute := \<lambda>it e. if finished (ledger_state_for (\<lambda>j. [])) (fingerprint demo_digest it) (pw_ledger w1)
         then (Inl (''RuntimeError'', []), e) else pi_execute demo_pipeline it e\<rparr>) [demo_item ''a''] (w1\<lparr>pw_items := []\<rparr>) =
       pl_run demo_pipeline [demo_item ''a''] (w1\<lparr>pw_items := []\<rparr>)"
proof -
  obtain r w1 where r: "pl_run demo_pipeline [demo_item ''a''] demo_pipe = (r, w1)" by fastforce
  obtain rep where rep: "r = Inr rep" "lr_completed_item_ids rep = [''a'']" using demo_pipeline_run r by (cases r) auto
  have p: "on_json_ledger demo_digest (\<lambda>j. []) demo_pipeline" "json_wf demo_digest (pw_ledger demo_pipe)" "pw_items demo_pipe = []"
    by (auto simp: on_json_ledger_def demo_pipeline_def demo_pipe_def json_wf_def ledger_read_def good_records_def)
  have v: "\<forall>it \<in> set [demo_item ''a'']. valid_item it" using demo_item_valid by simp
  show ?thesis
    using completed_work_is_never_executed_again [OF p(1) v p(2,3) r [unfolded rep(1)] p(1) v, of "w1\<lparr>pw_items := []\<rparr>"
        "\<lambda>it e. if finished (ledger_state_for (\<lambda>j. [])) (fingerprint demo_digest it) (pw_ledger w1)
           then (Inl (''RuntimeError'', []), e) else pi_execute demo_pipeline it e"] r rep by auto
qed

end
