(* ===== verification/LegacyJobs.thy ===== *)
theory LegacyJobs
  imports Prelude
begin

text \<open>
  \<open>src/zcoder/domain/models/legacy_job.py\<close>: the legacy job store with its event log and approvals, the command
  policy, the fake runtime and the orchestrator. Random identifiers and clock readings are arguments; the operations that
  take several of them number them. Each statement of an operation commits on its own.
\<close>

subsection \<open>Entities\<close>

datatype job_status =
    JobCreated | JobPlanning | JobReady | JobRunning | JobWaitingApproval | JobPaused | JobRetrying
  | JobBudgetReached | JobCancelled | JobFailed | JobSucceeded

fun job_status_value :: "job_status \<Rightarrow> string" where
  "job_status_value JobCreated = ''CREATED''"
| "job_status_value JobPlanning = ''PLANNING''"
| "job_status_value JobReady = ''READY''"
| "job_status_value JobRunning = ''RUNNING''"
| "job_status_value JobWaitingApproval = ''WAITING_APPROVAL''"
| "job_status_value JobPaused = ''PAUSED''"
| "job_status_value JobRetrying = ''RETRYING''"
| "job_status_value JobBudgetReached = ''BUDGET_REACHED''"
| "job_status_value JobCancelled = ''CANCELLED''"
| "job_status_value JobFailed = ''FAILED''"
| "job_status_value JobSucceeded = ''SUCCEEDED''"

record job =
  jb_id :: string
  jb_task :: string
  jb_runtime :: string
  jb_status :: string
  jb_workspace :: string
  jb_created_at :: real
  jb_updated_at :: real
  jb_model :: string
  jb_budget_usd :: real
  jb_cost_usd :: real
  jb_metadata :: jobj
  jb_project_id :: "string option"

record job_event =
  je_id :: string
  je_job_id :: string
  je_sequence :: int
  je_event_type :: string
  je_timestamp :: real
  je_payload :: jobj

record approval_request =
  ap_id :: string
  ap_job_id :: string
  ap_tool_name :: string
  ap_action_description :: string
  ap_risk_level :: string
  ap_status :: string
  ap_created_at :: real

record job_store =
  js_jobs :: "job list"
  js_events :: "job_event list"
  js_approvals :: "approval_request list"

definition js_empty :: job_store where
  "js_empty = \<lparr>js_jobs = [], js_events = [], js_approvals = []\<rparr>"

subsection \<open>The store\<close>

text \<open>The table has no \<open>project_id\<close> column, so a job read back has none.\<close>

definition save_job :: "real \<Rightarrow> job \<Rightarrow> job_store \<Rightarrow> job_store" where
  "save_job now j s = s\<lparr>js_jobs := sql_replace jb_id (j\<lparr>jb_updated_at := now, jb_project_id := None\<rparr>) (js_jobs s)\<rparr>"

definition get_job :: "job_store \<Rightarrow> string \<Rightarrow> job option" where
  "get_job s i = sql_get jb_id i (js_jobs s)"

definition list_jobs :: "job_store \<Rightarrow> job list" where
  "list_jobs s = sort_key (\<lambda>j. - jb_created_at j) (js_jobs s)"

definition next_sequence :: "job_store \<Rightarrow> string \<Rightarrow> int" where
  "next_sequence s job_id = (case map je_sequence (filter (\<lambda>e. je_job_id e = job_id) (js_events s)) of
     [] \<Rightarrow> 1 | q # qs \<Rightarrow> foldl max q qs + 1)"

definition add_event :: "string \<Rightarrow> real \<Rightarrow> string \<Rightarrow> string \<Rightarrow> jobj \<Rightarrow> (job_store, db_error, job_event) op" where
  "add_event hex now job_id event_type payload s =
     (let e = \<lparr>je_id = ''evt_'' @ take 8 hex, je_job_id = job_id, je_sequence = next_sequence s job_id,
            je_event_type = event_type, je_timestamp = now, je_payload = payload\<rparr>
      in if sql_get je_id (je_id e) (js_events s) \<noteq> None then (Inl (IntegrityError ''events.id''), s)
         else (Inr e, s\<lparr>js_events := js_events s @ [e]\<rparr>))"

definition list_events :: "job_store \<Rightarrow> string \<Rightarrow> job_event list" where
  "list_events s job_id = sort_key je_sequence (filter (\<lambda>e. je_job_id e = job_id) (js_events s))"

definition create_approval ::
  "string \<Rightarrow> real \<Rightarrow> string \<Rightarrow> string \<Rightarrow> string \<Rightarrow> string \<Rightarrow> (job_store, db_error, approval_request) op" where
  "create_approval hex now job_id tool action risk s =
     (let a = \<lparr>ap_id = ''apr_'' @ take 8 hex, ap_job_id = job_id, ap_tool_name = tool, ap_action_description = action,
            ap_risk_level = risk, ap_status = ''PENDING'', ap_created_at = now\<rparr>
      in if sql_get ap_id (ap_id a) (js_approvals s) \<noteq> None then (Inl (IntegrityError ''approvals.id''), s)
         else (Inr a, s\<lparr>js_approvals := js_approvals s @ [a]\<rparr>))"

definition update_approval :: "string \<Rightarrow> string \<Rightarrow> job_store \<Rightarrow> job_store" where
  "update_approval i status s =
     s\<lparr>js_approvals := sql_update (\<lambda>a. ap_id a = i) (\<lambda>a. a\<lparr>ap_status := status\<rparr>) (js_approvals s)\<rparr>"

subsection \<open>Command policy\<close>

datatype tool_policy = ToolAllow | ToolDeny | ToolRequireApproval

definition DANGEROUS_COMMANDS :: "string list" where
  "DANGEROUS_COMMANDS = [''rm -rf'', ''git push -f'', ''git reset --hard'', ''drop table'', ''mkfs'', ''dd if='']"

definition evaluate_command :: "string \<Rightarrow> tool_policy" where
  "evaluate_command cmd = (if list_ex (py_contains cmd) DANGEROUS_COMMANDS then ToolRequireApproval else ToolAllow)"

subsection \<open>The fake runtime and the orchestrator\<close>

definition put_job :: "real \<Rightarrow> job \<Rightarrow> (job_store, db_error, unit) op" where
  "put_job now j s = (Inr (), save_job now j s)"

text \<open>
  \<open>clk\<close> and \<open>hx\<close> number the clock readings and identifiers; \<open>valid\<close> is what the validator answers, \<open>None\<close> when
  there is none.
\<close>

definition finish_job ::
  "(nat \<Rightarrow> real) \<Rightarrow> (nat \<Rightarrow> string) \<Rightarrow> job \<Rightarrow> job_status \<Rightarrow> string \<Rightarrow> jobj \<Rightarrow> bool \<Rightarrow> (job_store, db_error, bool) op" where
  "finish_job clk hx j st event payload result =
     and_then (put_job (clk 4) (j\<lparr>jb_status := job_status_value st\<rparr>))
       (\<lambda>_. and_then (add_event (hx 3) (clk 5) (jb_id j) event payload) (\<lambda>_. give result))"

definition execute_task ::
  "(nat \<Rightarrow> real) \<Rightarrow> (nat \<Rightarrow> string) \<Rightarrow> bool \<Rightarrow> real \<Rightarrow> job \<Rightarrow> bool option \<Rightarrow> (job_store, db_error, bool) op" where
  "execute_task clk hx should_succeed cost job valid =
     (let j0 = job\<lparr>jb_status := ''RUNNING''\<rparr>; j = j0\<lparr>jb_cost_usd := jb_cost_usd j0 + cost\<rparr> in
      and_then (put_job (clk 0) j0) (\<lambda>_.
      and_then (add_event (hx 0) (clk 1) (jb_id job) ''job.started'' [(''runtime'', JStr ''fake'')]) (\<lambda>_.
      and_then (add_event (hx 1) (clk 2) (jb_id job) ''agent.plan''
         [(''steps'', JArr [JStr ''Analyze'', JStr ''Patch'', JStr ''Validate''])]) (\<lambda>_.
      and_then (add_event (hx 2) (clk 3) (jb_id job) ''agent.tool_executed''
         [(''tool'', JStr ''file_patch''), (''file'', JStr ''test_auth.py'')]) (\<lambda>_.
      if jb_budget_usd j \<noteq> 0 \<and> jb_cost_usd j > jb_budget_usd j
      then finish_job clk hx j JobBudgetReached ''budget.reached''
             [(''budget'', JFloat (jb_budget_usd j)), (''spent'', JFloat (jb_cost_usd j))] False
      else if valid = Some False
      then finish_job clk hx j JobFailed ''job.failed'' [(''reason'', JStr ''validation_failed'')] False
      else if should_succeed
      then finish_job clk hx j JobSucceeded ''job.succeeded'' [(''cost_usd'', JFloat (jb_cost_usd j))] True
      else finish_job clk hx j JobFailed ''job.failed'' [(''reason'', JStr ''runtime_error'')] False)))))"

definition submit_job ::
  "string \<Rightarrow> real \<Rightarrow> real \<Rightarrow> real \<Rightarrow> string \<Rightarrow> string \<Rightarrow> string \<Rightarrow> real \<Rightarrow> job_store \<Rightarrow> job \<times> job_store" where
  "submit_job hex t_created t_updated t_saved task runtime model budget s =
     (let j = \<lparr>jb_id = ''job_'' @ take 8 hex, jb_task = task, jb_runtime = runtime, jb_status = ''CREATED'',
        jb_workspace = ''.'', jb_created_at = t_created, jb_updated_at = t_updated, jb_model = model,
        jb_budget_usd = budget, jb_cost_usd = 0, jb_metadata = [], jb_project_id = None\<rparr>
      in (j\<lparr>jb_updated_at := t_saved\<rparr>, save_job t_saved j s))"

text \<open>\<open>run_job\<close> with the fake runtime as its adapter; an unknown job is the \<open>ValueError\<close>.\<close>

datatype job_error = JobNotFound string | JobDbError db_error

definition run_job ::
  "string \<Rightarrow> (job \<Rightarrow> (job_store, db_error, bool) op) \<Rightarrow> (job_store, job_error, bool) op" where
  "run_job job_id adapter s =
     (case get_job s job_id of
        None \<Rightarrow> (Inl (JobNotFound job_id), s)
      | Some j \<Rightarrow> (case adapter j s of (r, s') \<Rightarrow> (map_sum JobDbError (\<lambda>b. b) r, s')))"

subsection \<open>The event log is gapless\<close>

definition job_seqs :: "job_store \<Rightarrow> string \<Rightarrow> int list" where
  "job_seqs s i = map je_sequence (filter (\<lambda>e. je_job_id e = i) (js_events s))"

definition js_inv :: "job_store \<Rightarrow> bool" where
  "js_inv s \<longleftrightarrow> (\<forall>i. job_seqs s i = map int [1..<Suc (length (job_seqs s i))])"

lemma js_inv_empty: "js_inv js_empty"
  by (simp add: js_inv_def job_seqs_def js_empty_def)

lemma foldl_max_upt: "1 \<le> n \<Longrightarrow> foldl max (int 1) (map int [2..<Suc n]) = int n"
  by (induction n) (auto simp: le_Suc_eq)

lemma next_sequence_inv:
  assumes "js_inv s"
  shows "next_sequence s i = int (length (job_seqs s i)) + 1"
proof (cases "length (job_seqs s i)")
  case 0
  then show ?thesis by (simp add: next_sequence_def job_seqs_def)
next
  case (Suc n)
  have "job_seqs s i = map int [1..<Suc (Suc n)]" using assms Suc unfolding js_inv_def by metis
  also have "[1..<Suc (Suc n)] = 1 # [2..<Suc (Suc n)]" by (subst upt_conv_Cons) (simp_all add: numeral_2_eq_2)
  finally have "job_seqs s i = int 1 # map int [2..<Suc (Suc n)]" by simp
  then have "next_sequence s i = foldl max (int 1) (map int [2..<Suc (Suc n)]) + 1"
    by (simp add: next_sequence_def job_seqs_def)
  then show ?thesis using foldl_max_upt [of "Suc n"] Suc by simp
qed

lemma list_events_seqs:
  assumes "js_inv s"
  shows "list_events s i = filter (\<lambda>e. je_job_id e = i) (js_events s)"
proof -
  have "sorted (map int [1..<Suc (length (job_seqs s i))])"
    by (simp add: sorted_iff_nth_mono del: upt_Suc)
  then have "sorted (job_seqs s i)" using assms unfolding js_inv_def by metis
  then show ?thesis by (simp add: list_events_def job_seqs_def sort_key_id_if_sorted)
qed

lemma add_event_InrD:
  assumes "add_event hex now i ty payload s = (Inr e, s')"
  shows "s' = s\<lparr>js_events := js_events s @ [e]\<rparr>" and "je_job_id e = i" and "je_event_type e = ty"
    and "je_payload e = payload" and "je_sequence e = next_sequence s i"
  using assms by (auto simp: add_event_def Let_def split: if_splits)

lemma job_seqs_append:
  "job_seqs (s\<lparr>js_events := js_events s @ [e]\<rparr>) i = job_seqs s i @ (if je_job_id e = i then [je_sequence e] else [])"
  by (simp add: job_seqs_def)

lemma add_event_inv:
  assumes "js_inv s" and "add_event hex now i ty payload s = (Inr e, s')"
  shows "js_inv s'"
  unfolding js_inv_def
proof
  fix k
  have k: "job_seqs s k = map int [1..<Suc (length (job_seqs s k))]" using assms(1) unfolding js_inv_def by blast
  have "job_seqs s' k = job_seqs s k @ (if i = k then [int (length (job_seqs s k)) + 1] else [])"
    using add_event_InrD [OF assms(2)] next_sequence_inv [OF assms(1), of i] by (simp add: job_seqs_append)
  then show "job_seqs s' k = map int [1..<Suc (length (job_seqs s' k))]"
    using k by (auto simp: add.commute)
qed

lemma save_job_inv: "js_inv (save_job now j s) \<longleftrightarrow> js_inv s"
  by (simp add: js_inv_def job_seqs_def save_job_def)

text \<open>
  The event log of a job is append-only and gapless: in a store built by the operations, adding an
  event lists it after all earlier events of the job, numbered with the next number, and leaves the log of every other job alone.
\<close>
theorem event_log_is_gapless:
  assumes "js_inv s" and "add_event hex now i ty payload s = (Inr e, s')"
  shows "js_inv s' \<and> list_events s' i = list_events s i @ [e] \<and> je_sequence e = int (length (list_events s i)) + 1 \<and>
    (\<forall>k. k \<noteq> i \<longrightarrow> list_events s' k = list_events s k)"
proof -
  have inv: "js_inv s'" by (rule add_event_inv [OF assms])
  have l: "list_events s' k = list_events s k @ (if k = i then [e] else [])" for k
    using list_events_seqs [OF inv, of k] list_events_seqs [OF assms(1), of k] add_event_InrD(1,2) [OF assms(2)]
    by auto
  have "je_sequence e = int (length (list_events s i)) + 1"
    using next_sequence_inv [OF assms(1), of i] add_event_InrD(5) [OF assms(2)] list_events_seqs [OF assms(1), of i]
    by (simp add: job_seqs_def)
  with inv l show ?thesis by simp
qed

theorem event_log_is_gapless_witness:
  "\<exists>e s'. add_event ''abcdefgh'' 1 ''j'' ''t'' [] js_empty = (Inr e, s') \<and> list_events s' ''j'' = [e] \<and> je_sequence e = 1"
proof -
  obtain e s' where a: "add_event ''abcdefgh'' 1 ''j'' ''t'' [] js_empty = (Inr e, s')"
    by (simp add: add_event_def js_empty_def sql_get_def Let_def)
  have "list_events js_empty ''j'' = []" by (simp add: list_events_def js_empty_def)
  with event_log_is_gapless [OF js_inv_empty a] a show ?thesis by auto
qed

subsection \<open>What a run reports\<close>

lemma put_job_Inr: "put_job now j s = (r, s') \<longleftrightarrow> r = Inr () \<and> s' = save_job now j s"
  by (auto simp: put_job_def)

lemma get_job_add_event: "add_event hex now i ty payload s = (r, s') \<Longrightarrow> get_job s' k = get_job s k"
  by (auto simp: add_event_def Let_def get_job_def split: if_splits)

lemma get_job_save:
  "get_job (save_job now j s) k = (if k = jb_id j then Some (j\<lparr>jb_updated_at := now, jb_project_id := None\<rparr>) else get_job s k)"
  by (simp add: get_job_def save_job_def sql_get_replace)

lemma finish_job_stored:
  assumes "finish_job clk hx j st ev payload res s = (Inr r, s')"
  shows "r = res \<and> map_option jb_status (get_job s' (jb_id j)) = Some (job_status_value st) \<and>
    map_option jb_cost_usd (get_job s' (jb_id j)) = Some (jb_cost_usd j)"
  using assms
  by (auto simp: finish_job_def and_then_eq_Inr put_job_Inr get_job_save dest!: get_job_add_event [where k = "jb_id j"])

definition outcome_of :: "bool \<Rightarrow> real \<Rightarrow> job \<Rightarrow> bool option \<Rightarrow> job_status" where
  "outcome_of should_succeed cost j valid =
     (if jb_budget_usd j \<noteq> 0 \<and> jb_cost_usd j + cost > jb_budget_usd j then JobBudgetReached
      else if valid = Some False \<or> \<not> should_succeed then JobFailed else JobSucceeded)"

text \<open>
  A job never reports success over budget or without validation: when a run of the fake runtime
  returns, it returned true exactly for the outcome SUCCEEDED, which needs the validator's consent and a cost within the
  budget if there is one, and the stored job has that status and the added cost.
\<close>
theorem run_reports_stored_outcome:
  assumes "execute_task clk hx should_succeed cost j valid s = (Inr r, s')"
  shows "(r \<longleftrightarrow> outcome_of should_succeed cost j valid = JobSucceeded) \<and>
    map_option jb_status (get_job s' (jb_id j)) = Some (job_status_value (outcome_of should_succeed cost j valid)) \<and>
    map_option jb_cost_usd (get_job s' (jb_id j)) = Some (jb_cost_usd j + cost)"
  using assms unfolding execute_task_def Let_def outcome_of_def
  by (auto simp: and_then_eq_Inr simp del: job_status_value.simps split: if_splits dest!: finish_job_stored)

definition demo_job :: job where
  "demo_job = \<lparr>jb_id = ''j'', jb_task = ''t'', jb_runtime = ''direct'', jb_status = ''CREATED'', jb_workspace = ''.'',
     jb_created_at = 0, jb_updated_at = 0, jb_model = ''m'', jb_budget_usd = 1, jb_cost_usd = 0, jb_metadata = [],
     jb_project_id = None\<rparr>"

definition demo_ids :: "nat \<Rightarrow> string" where
  "demo_ids n = char_of (97 + n) # ''xxxxxxx''"

lemma demo_run_returns:
  "\<exists>r s'. execute_task real demo_ids True 2 demo_job None js_empty = (Inr r, s')"
  by (simp add: execute_task_def finish_job_def and_then_def put_job_def add_event_def save_job_def demo_job_def js_empty_def
      sql_replace_def sql_get_def Let_def demo_ids_def give_def) blast

theorem run_reports_stored_outcome_witness:
  "\<exists>r s'. execute_task real demo_ids True 2 demo_job None js_empty = (Inr r, s') \<and> \<not> r \<and>
     map_option jb_status (get_job s' ''j'') = Some ''BUDGET_REACHED''"
proof -
  obtain r s' where e: "execute_task real demo_ids True 2 demo_job None js_empty = (Inr r, s')"
    using demo_run_returns by blast
  from run_reports_stored_outcome [OF e] e show ?thesis by (auto simp: outcome_of_def demo_job_def)
qed

end
