(* ===== verification/ControlPlane.thy ===== *)
theory ControlPlane
  imports LegacyJobs
begin

text \<open>
  \<open>src/zcoder/domain/services/control_plane.py\<close> and \<open>outbox_policy.py\<close>: the shared SQLite control plane with leased jobs
  under fencing tokens, the outbox, the inbox that deduplicates webhook deliveries, and the fleet tables. A transaction is
  one step; a clock reading is an argument, numbered where an operation takes several. The outbox handler is a function
  over a world it may change; it answers the text of the exception it raises.
\<close>

subsection \<open>Rows\<close>

record storage_capabilities =
  sc_durable :: bool
  sc_multi_process :: bool
  sc_multi_host :: bool
  sc_row_locking :: bool
  sc_advisory_locking :: bool

record outbox_message =
  om_id :: string
  om_action :: string
  om_payload :: jobj
  om_status :: string
  om_attempts :: int
  om_created_at :: real
  om_delivered_at :: "real option"
  om_error :: "string option"

record github_installation =
  gi_installation_id :: int
  gi_account_login :: string
  gi_account_type :: string
  gi_suspended :: bool
  gi_created_at :: real

record fleet_repository =
  fr_id :: string
  fr_installation_id :: int
  fr_owner :: string
  fr_name :: string
  fr_default_branch :: string
  fr_automation_enabled :: bool
  fr_trust_level :: string

record cp_job =
  cj_job :: job
  cj_claimed_by :: "string option"
  cj_claim_generation :: int
  cj_lease_expires_at :: real

record inbox_row =
  ib_delivery_id :: string
  ib_event_type :: string
  ib_received_at :: real

record control_plane =
  cp_capabilities :: storage_capabilities
  cp_jobs :: "cp_job list"
  cp_outbox :: "outbox_message list"
  cp_inbox :: "inbox_row list"
  cp_installations :: "github_installation list"
  cp_repositories :: "fleet_repository list"

definition cp_empty :: control_plane where
  "cp_empty = \<lparr>cp_capabilities = \<lparr>sc_durable = True, sc_multi_process = True, sc_multi_host = False,
       sc_row_locking = False, sc_advisory_locking = False\<rparr>,
     cp_jobs = [], cp_outbox = [], cp_inbox = [], cp_installations = [], cp_repositories = []\<rparr>"

abbreviation cj_id :: "cp_job \<Rightarrow> string" where
  "cj_id r \<equiv> jb_id (cj_job r)"

subsection \<open>Claims and fencing\<close>

definition cp_claimable :: "real \<Rightarrow> cp_job \<Rightarrow> bool" where
  "cp_claimable now r \<longleftrightarrow> jb_status (cj_job r) = ''READY'' \<or>
     (jb_status (cj_job r) = ''RUNNING'' \<and> cj_lease_expires_at r < now)"

definition cp_mark_claimed :: "string \<Rightarrow> real \<Rightarrow> real \<Rightarrow> int \<Rightarrow> cp_job \<Rightarrow> cp_job" where
  "cp_mark_claimed worker expires now generation r = r\<lparr>cj_job := (cj_job r)\<lparr>jb_status := ''RUNNING'', jb_updated_at := now\<rparr>,
     cj_claimed_by := Some worker, cj_claim_generation := generation + 1, cj_lease_expires_at := expires\<rparr>"

definition cp_same_claim :: "cp_job \<Rightarrow> cp_job \<Rightarrow> bool" where
  "cp_same_claim r r' \<longleftrightarrow> cj_id r' = cj_id r \<and> cj_claim_generation r' = cj_claim_generation r"

text \<open>
  The clock is read for the selection, the expiry, the update and the returned job. \<open>SELECT\<close> and \<open>UPDATE\<close> are two statements; the
  update names the generation that was read, so a claim that came in between makes it change no row and answer nothing. Here the
  two are one step.
\<close>

definition claim_job_with_fencing ::
  "string \<Rightarrow> real \<Rightarrow> (nat \<Rightarrow> real) \<Rightarrow> control_plane \<Rightarrow> (job \<times> int) option \<times> control_plane" where
  "claim_job_with_fencing worker lease clk db =
     (case sql_first_by (\<lambda>r. jb_created_at (cj_job r)) (filter (cp_claimable (clk 0)) (cp_jobs db)) of
        None \<Rightarrow> (None, db)
      | Some r \<Rightarrow>
         (let db' = db\<lparr>cp_jobs := sql_update (cp_same_claim r)
                (cp_mark_claimed worker (clk 1 + lease) (clk 2) (cj_claim_generation r)) (cp_jobs db)\<rparr>
          in if sql_count (cp_same_claim r) (cp_jobs db) = 0 then (None, db')
             else (Some ((cj_job r)\<lparr>jb_status := ''RUNNING'', jb_updated_at := clk 3, jb_project_id := None\<rparr>,
                   cj_claim_generation r + 1), db')))"

definition cp_owned :: "string \<Rightarrow> string \<Rightarrow> int \<Rightarrow> cp_job \<Rightarrow> bool" where
  "cp_owned job_id worker token r \<longleftrightarrow> cj_id r = job_id \<and> cj_claimed_by r = Some worker \<and> cj_claim_generation r = token"

definition mutate_with_fencing ::
  "string \<Rightarrow> string \<Rightarrow> int \<Rightarrow> job_status \<Rightarrow> real \<Rightarrow> real \<Rightarrow> control_plane \<Rightarrow> bool \<times> control_plane" where
  "mutate_with_fencing job_id worker token status cost now db =
     (sql_count (cp_owned job_id worker token) (cp_jobs db) > 0,
      db\<lparr>cp_jobs := sql_update (cp_owned job_id worker token)
        (\<lambda>r. r\<lparr>cj_job := (cj_job r)\<lparr>jb_status := job_status_value status, jb_cost_usd := cost, jb_updated_at := now\<rparr>\<rparr>)
        (cp_jobs db)\<rparr>)"

subsection \<open>The outbox\<close>

record outbox_failure_transition =
  oft_attempts :: int
  oft_status :: string

definition transition_after_failure :: "int \<Rightarrow> int \<Rightarrow> string + outbox_failure_transition" where
  "transition_after_failure current max_attempts =
     (if current < 0 then Inl ''current_attempts must be >= 0''
      else if max_attempts < 1 then Inl ''max_attempts must be >= 1''
      else Inr \<lparr>oft_attempts = current + 1,
        oft_status = (if current + 1 \<ge> max_attempts then ''DEAD'' else ''PENDING'')\<rparr>)"

definition enqueue_outbox ::
  "string \<Rightarrow> real \<Rightarrow> string \<Rightarrow> jobj \<Rightarrow> (control_plane, db_error, outbox_message) op" where
  "enqueue_outbox hex now action payload db =
     (let m = \<lparr>om_id = ''out_'' @ take 8 hex, om_action = action, om_payload = payload, om_status = ''PENDING'',
            om_attempts = 0, om_created_at = now, om_delivered_at = None, om_error = None\<rparr>
      in if sql_get om_id (om_id m) (cp_outbox db) \<noteq> None then (Inl (IntegrityError ''outbox.id''), db)
         else (Inr m, db\<lparr>cp_outbox := cp_outbox db @ [m]\<rparr>))"

type_synonym 'w outbox_handler = "string \<Rightarrow> jobj \<Rightarrow> 'w \<Rightarrow> string option \<times> 'w"

definition mark_delivered :: "real \<Rightarrow> string \<Rightarrow> outbox_message list \<Rightarrow> outbox_message list" where
  "mark_delivered now i t = sql_update (\<lambda>m. om_id m = i) (\<lambda>m. m\<lparr>om_status := ''DELIVERED'', om_delivered_at := Some now\<rparr>) t"

definition mark_failed :: "int option \<Rightarrow> outbox_message \<Rightarrow> string \<Rightarrow> outbox_message list \<Rightarrow> string + outbox_message list" where
  "mark_failed max_attempts row err t =
     (case max_attempts of
        None \<Rightarrow> Inr (sql_update (\<lambda>m. om_id m = om_id row)
                  (\<lambda>m. m\<lparr>om_attempts := om_attempts m + 1, om_error := Some err\<rparr>) t)
      | Some k \<Rightarrow> map_sum (\<lambda>e. e) (\<lambda>tr. sql_update (\<lambda>m. om_id m = om_id row)
                  (\<lambda>m. m\<lparr>om_attempts := oft_attempts tr, om_status := oft_status tr, om_error := Some err\<rparr>) t)
                (transition_after_failure (om_attempts row) k))"

text \<open>
  The loop over the selected rows. An error out of the loop rolls the table back; the handler's effects on
  the world stay. \<open>clk\<close> is the clock reading at the delivery of a message.
\<close>

fun deliver_rows ::
  "'w outbox_handler \<Rightarrow> int option \<Rightarrow> (string \<Rightarrow> real) \<Rightarrow> outbox_message list \<Rightarrow> outbox_message list \<Rightarrow> 'w
     \<Rightarrow> (string + int \<times> outbox_message list) \<times> 'w" where
  "deliver_rows handler max_attempts clk [] t w = (Inr (0, t), w)"
| "deliver_rows handler max_attempts clk (r # rs) t w =
     (case handler (om_action r) (om_payload r) w of
        (None, w1) \<Rightarrow>
          (case deliver_rows handler max_attempts clk rs (mark_delivered (clk (om_id r)) (om_id r) t) w1 of
             (res, w2) \<Rightarrow> (map_sum (\<lambda>e. e) (\<lambda>(n, t'). (n + 1, t')) res, w2))
      | (Some err, w1) \<Rightarrow>
          (case mark_failed max_attempts r err t of
             Inl e \<Rightarrow> (Inl e, w1)
           | Inr t1 \<Rightarrow> deliver_rows handler max_attempts clk rs t1 w1))"

definition pending_rows :: "int option \<Rightarrow> outbox_message list \<Rightarrow> outbox_message list" where
  "pending_rows max_messages t =
     (let rows = sort_key om_created_at (filter (\<lambda>m. om_status m = ''PENDING'') t)
      in case max_messages of None \<Rightarrow> rows | Some n \<Rightarrow> take (nat n) rows)"

definition process_outbox ::
  "'w outbox_handler \<Rightarrow> int option \<Rightarrow> int option \<Rightarrow> (string \<Rightarrow> real) \<Rightarrow> control_plane \<Rightarrow> 'w
     \<Rightarrow> (string + int) \<times> control_plane \<times> 'w" where
  "process_outbox handler max_messages max_attempts clk db w =
     (if (case max_messages of Some n \<Rightarrow> n < 1 | None \<Rightarrow> False) then (Inl ''max_messages must be >= 1'', db, w)
      else if (case max_attempts of Some n \<Rightarrow> n < 1 | None \<Rightarrow> False) then (Inl ''max_attempts must be >= 1'', db, w)
      else (case deliver_rows handler max_attempts clk (pending_rows max_messages (cp_outbox db)) (cp_outbox db) w of
          (Inl e, w') \<Rightarrow> (Inl e, db, w')
        | (Inr (n, t), w') \<Rightarrow> (Inr n, db\<lparr>cp_outbox := t\<rparr>, w')))"

subsection \<open>Inbox and fleet\<close>

definition record_webhook_delivery_atomic :: "string \<Rightarrow> string \<Rightarrow> real \<Rightarrow> control_plane \<Rightarrow> bool \<times> control_plane" where
  "record_webhook_delivery_atomic delivery_id event_type now db =
     (if sql_get ib_delivery_id delivery_id (cp_inbox db) \<noteq> None then (False, db)
      else (True, db\<lparr>cp_inbox := cp_inbox db @
        [\<lparr>ib_delivery_id = delivery_id, ib_event_type = event_type, ib_received_at = now\<rparr>]\<rparr>))"

definition register_installation :: "github_installation \<Rightarrow> control_plane \<Rightarrow> control_plane" where
  "register_installation i db = db\<lparr>cp_installations := sql_replace gi_installation_id i (cp_installations db)\<rparr>"

definition register_repository :: "fleet_repository \<Rightarrow> control_plane \<Rightarrow> control_plane" where
  "register_repository r db = db\<lparr>cp_repositories := sql_replace fr_id r (cp_repositories db)\<rparr>"

subsection \<open>Fencing tokens only grow\<close>

definition cp_inv :: "control_plane \<Rightarrow> bool" where
  "cp_inv db \<longleftrightarrow> unique_key cj_id (cp_jobs db)"

definition cp_job_of :: "control_plane \<Rightarrow> string \<Rightarrow> cp_job option" where
  "cp_job_of db i = sql_get cj_id i (cp_jobs db)"

lemma cp_mark_claimed_id [simp]: "cj_id (cp_mark_claimed w e n g r) = cj_id r"
  by (simp add: cp_mark_claimed_def)

lemma claim_with_fencing_cases:
  assumes "cp_inv db" and "claim_job_with_fencing worker lease clk db = (res, db')"
  obtains (none) "res = None" "db' = db"
  | (claimed) r j where "cp_job_of db (cj_id r) = Some r" "cp_claimable (clk 0) r"
      "res = Some (j, cj_claim_generation r + 1)" "jb_id j = cj_id r" "cp_inv db'"
      "\<And>i. cp_job_of db' i = (if i = cj_id r
         then Some (cp_mark_claimed worker (clk 1 + lease) (clk 2) (cj_claim_generation r) r) else cp_job_of db i)"
proof (cases "sql_first_by (\<lambda>r. jb_created_at (cj_job r)) (filter (cp_claimable (clk 0)) (cp_jobs db))")
  case None
  with assms(2) show thesis by (intro none) (auto simp: claim_job_with_fencing_def)
next
  case (Some r)
  have r: "r \<in> set (cp_jobs db)" "cp_claimable (clk 0) r" using sql_first_by_SomeD(1) [OF Some] by auto
  have g: "sql_get cj_id (cj_id r) (cp_jobs db) = Some r"
    using assms(1) r(1) sql_get_SomeI [of cj_id "cp_jobs db" r] by (simp add: cp_inv_def)
  let ?upd = "sql_update (cp_same_claim r) (cp_mark_claimed worker (clk 1 + lease) (clk 2) (cj_claim_generation r)) (cp_jobs db)"
  have "sql_count (cp_same_claim r) (cp_jobs db) > 0" using r(1) by (auto simp: sql_count_pos_iff cp_same_claim_def)
  then have res: "res = Some ((cj_job r)\<lparr>jb_status := ''RUNNING'', jb_updated_at := clk 3, jb_project_id := None\<rparr>,
        cj_claim_generation r + 1)" and db': "db' = db\<lparr>cp_jobs := ?upd\<rparr>"
    using assms(2) Some by (auto simp: claim_job_with_fencing_def Let_def)
  have get: "cp_job_of db' i = (if i = cj_id r
         then Some (cp_mark_claimed worker (clk 1 + lease) (clk 2) (cj_claim_generation r) r) else cp_job_of db i)" for i
  proof (cases "i = cj_id r")
    case True
    then show ?thesis by (simp add: db' cp_job_of_def sql_get_update g cp_same_claim_def)
  next
    case False
    then show ?thesis by (cases "sql_get cj_id i (cp_jobs db)")
        (auto simp: db' cp_job_of_def sql_get_update cp_same_claim_def dest: sql_get_SomeD)
  qed
  have inv: "cp_inv db'" using assms(1) by (simp add: db' cp_inv_def unique_key_sql_update)
  show thesis by (rule claimed [OF _ r(2) res _ inv get]) (simp_all add: cp_job_of_def g)
qed

lemma mutate_with_fencing_get:
  "cp_job_of (snd (mutate_with_fencing i w g st c now db)) k = map_option (\<lambda>r. if cp_owned i w g r
     then r\<lparr>cj_job := (cj_job r)\<lparr>jb_status := job_status_value st, jb_cost_usd := c, jb_updated_at := now\<rparr>\<rparr> else r)
     (cp_job_of db k)"
  by (simp add: cp_job_of_def mutate_with_fencing_def sql_get_update)

lemma cp_inv_mutate: "cp_inv db \<Longrightarrow> cp_inv (snd (mutate_with_fencing i w g st c now db))"
  by (simp add: cp_inv_def mutate_with_fencing_def unique_key_sql_update)

text \<open>What the workers do to the jobs, in any order and number.\<close>

inductive cp_steps :: "control_plane \<Rightarrow> control_plane \<Rightarrow> bool" where
  cp_refl: "cp_steps db db"
| cp_claim: "cp_steps db db1 \<Longrightarrow> cp_steps db (snd (claim_job_with_fencing worker lease clk db1))"
| cp_mutate: "cp_steps db db1 \<Longrightarrow> cp_steps db (snd (mutate_with_fencing i worker token status cost now db1))"

lemma cp_steps_generation:
  assumes "cp_steps db db'" and "cp_inv db" and "cp_job_of db i = Some r"
  shows "cp_inv db' \<and> (\<exists>r'. cp_job_of db' i = Some r' \<and> cj_claim_generation r \<le> cj_claim_generation r')"
  using assms
proof (induction rule: cp_steps.induct)
  case (cp_claim db db1 worker lease clk)
  then obtain r1 where r1: "cp_inv db1" "cp_job_of db1 i = Some r1" "cj_claim_generation r \<le> cj_claim_generation r1" by blast
  obtain res db2 where c: "claim_job_with_fencing worker lease clk db1 = (res, db2)" by (metis surj_pair)
  from r1(1) c show ?case
  proof (cases rule: claim_with_fencing_cases)
    case none
    with r1 c show ?thesis by simp
  next
    case (claimed r2 j)
    show ?thesis
    proof (cases "i = cj_id r2")
      case True
      with claimed(1) r1(2) have "r2 = r1" by simp
      with True claimed(5,6) r1(3) c show ?thesis by (simp add: cp_mark_claimed_def)
    next
      case False
      with claimed(5,6) r1 c show ?thesis by simp
    qed
  qed
next
  case (cp_mutate db db1 k worker token status cost now)
  then obtain r1 where r1: "cp_inv db1" "cp_job_of db1 i = Some r1" "cj_claim_generation r \<le> cj_claim_generation r1" by blast
  then show ?case by (auto simp: cp_inv_mutate mutate_with_fencing_get)
qed auto

text \<open>
  C15: A worker that lost its lease is fenced out for good: if a job was claimed with token \<open>g\<close> and,
  after any claims and mutations by anyone, was claimed again with token \<open>g'\<close>, then \<open>g < g'\<close> and at every later time a mutation
  that presents \<open>g\<close>, under whatever worker name, is refused and changes nothing.
\<close>
theorem stale_worker_is_fenced:
  assumes "cp_inv db" and "claim_job_with_fencing w1 l1 c1 db = (Some (j, g), db1)" and "cp_steps db1 db2"
    and "claim_job_with_fencing w2 l2 c2 db2 = (Some (j', g'), db3)" and "jb_id j' = jb_id j" and "cp_steps db3 db4"
  shows "g < g' \<and> mutate_with_fencing (jb_id j) w g status cost now db4 = (False, db4)"
proof -
  obtain r where r: "cj_claim_generation r + 1 = g" "jb_id j = cj_id r" "cp_inv db1"
      "cp_job_of db1 (jb_id j) = Some (cp_mark_claimed w1 (c1 1 + l1) (c1 2) (cj_claim_generation r) r)"
    using assms(1,2) by (cases rule: claim_with_fencing_cases) auto
  obtain r2 where r2: "cp_inv db2" "cp_job_of db2 (jb_id j) = Some r2" "g \<le> cj_claim_generation r2"
    using cp_steps_generation [OF assms(3) r(3,4)] r(1) by (auto simp: cp_mark_claimed_def)
  obtain r3 where r3: "cj_claim_generation r3 + 1 = g'" "jb_id j' = cj_id r3" "cp_inv db3" "cp_job_of db2 (cj_id r3) = Some r3"
      "cp_job_of db3 (jb_id j') = Some (cp_mark_claimed w2 (c2 1 + l2) (c2 2) (cj_claim_generation r3) r3)"
    using r2(1) assms(4) by (cases rule: claim_with_fencing_cases) auto
  have "r3 = r2" using r3(2,4) r2(2) assms(5) by simp
  then have lt: "g < g'" using r2(3) r3(1) by simp
  obtain r4 where r4: "cp_inv db4" "cp_job_of db4 (jb_id j) = Some r4" "g' \<le> cj_claim_generation r4"
    using cp_steps_generation [OF assms(6) r3(3,5)] r3(1) assms(5) by (auto simp: cp_mark_claimed_def)
  have "\<not> cp_owned (jb_id j) w g r'" if "r' \<in> set (cp_jobs db4)" for r'
  proof
    assume o: "cp_owned (jb_id j) w g r'"
    have "sql_get cj_id (cj_id r') (cp_jobs db4) = Some r'"
      using r4(1) that sql_get_SomeI [of cj_id "cp_jobs db4" r'] by (simp add: cp_inv_def)
    then have "r' = r4" using r4(2) o by (simp add: cp_job_of_def cp_owned_def)
    with o r4(3) lt show False by (simp add: cp_owned_def)
  qed
  then have "\<not> sql_count (cp_owned (jb_id j) w g) (cp_jobs db4) > 0" and
      "sql_update (cp_owned (jb_id j) w g) f (cp_jobs db4) = cp_jobs db4" for f
    by (auto simp: sql_count_pos_iff sql_update_none)
  with lt show ?thesis by (simp add: mutate_with_fencing_def)
qed

definition demo_cp :: control_plane where
  "demo_cp = cp_empty\<lparr>cp_jobs := [\<lparr>cj_job = demo_job\<lparr>jb_status := ''READY''\<rparr>, cj_claimed_by = None,
     cj_claim_generation = 0, cj_lease_expires_at = 0\<rparr>]\<rparr>"

theorem stale_worker_is_fenced_witness:
  "\<exists>j db1 j' db3. claim_job_with_fencing ''a'' 60 (\<lambda>n. 0) demo_cp = (Some (j, 1), db1) \<and>
     claim_job_with_fencing ''b'' 60 (\<lambda>n. 100) db1 = (Some (j', 2), db3) \<and>
     mutate_with_fencing ''j'' ''a'' 1 JobSucceeded 5 110 db3 = (False, db3)"
proof -
  have inv: "cp_inv demo_cp" by (simp add: cp_inv_def demo_cp_def cp_empty_def unique_key_def)
  let ?c1 = "claim_job_with_fencing ''a'' 60 (\<lambda>n. 0) demo_cp"
  let ?c2 = "claim_job_with_fencing ''b'' 60 (\<lambda>n. 100) (snd ?c1)"
  have s: "sort_key f [x] = [x]" for f :: "cp_job \<Rightarrow> real" and x by (simp add: sort_key_def)
  have a: "\<exists>j. ?c1 = (Some (j, 1), snd ?c1) \<and> jb_id j = ''j''" and b: "\<exists>j. ?c2 = (Some (j, 2), snd ?c2) \<and> jb_id j = ''j''"
    by (simp_all add: claim_job_with_fencing_def demo_cp_def cp_empty_def demo_job_def cp_claimable_def sql_first_by_def s
        Let_def sql_count_def cp_same_claim_def sql_update_def cp_mark_claimed_def)
  then obtain j j' where c: "?c1 = (Some (j, 1), snd ?c1)" "jb_id j = ''j''" "?c2 = (Some (j', 2), snd ?c2)" "jb_id j' = ''j''"
    by blast
  have "1 < (2::int) \<and> mutate_with_fencing (jb_id j) ''a'' 1 JobSucceeded 5 110 (snd ?c2) = (False, snd ?c2)"
    by (rule stale_worker_is_fenced [OF inv c(1) cp_refl c(3) _ cp_refl]) (simp add: c)
  with c show ?thesis by metis
qed

subsection \<open>Delivery attempts are bounded\<close>

definition message_ok :: "int \<Rightarrow> outbox_message \<Rightarrow> bool" where
  "message_ok k m \<longleftrightarrow> 0 \<le> om_attempts m \<and> om_attempts m \<le> k \<and>
     (om_status m = ''PENDING'' \<longrightarrow> om_attempts m < k) \<and> (om_status m = ''DEAD'' \<longrightarrow> om_attempts m = k)"

definition outbox_ok :: "int \<Rightarrow> outbox_message list \<Rightarrow> bool" where
  "outbox_ok k t \<longleftrightarrow> unique_key om_id t \<and> (\<forall>m \<in> set t. message_ok k m)"

definition settle :: "int \<Rightarrow> (string \<Rightarrow> real) \<Rightarrow> string option \<Rightarrow> outbox_message \<Rightarrow> outbox_message" where
  "settle k clk res m = (case res of
     None \<Rightarrow> m\<lparr>om_status := ''DELIVERED'', om_delivered_at := Some (clk (om_id m))\<rparr>
   | Some err \<Rightarrow> m\<lparr>om_attempts := om_attempts m + 1,
       om_status := (if om_attempts m + 1 \<ge> k then ''DEAD'' else ''PENDING''), om_error := Some err\<rparr>)"

lemma settle_id [simp]: "om_id (settle k clk res m) = om_id m"
  by (simp add: settle_def split: option.split)

lemma message_ok_settle: "message_ok k m \<Longrightarrow> om_status m = ''PENDING'' \<Longrightarrow> message_ok k (settle k clk res m)"
  by (auto simp: message_ok_def settle_def split: option.split)

lemma sql_update_row:
  assumes "unique_key key t" and "r \<in> set t" and "\<And>m. key m = key r \<Longrightarrow> m \<in> set t \<Longrightarrow> f m = g m"
  shows "sql_update (\<lambda>m. key m = key r) f t = sql_update (\<lambda>m. key m = key r) g t"
  using assms by (auto simp: sql_update_def)

text \<open>One row of the pass, with a budget: the row moves on, the table stays well-formed, nothing raises.\<close>

lemma deliver_row:
  assumes "outbox_ok k t" and "1 \<le> k" and "r \<in> set t"
  shows "deliver_rows handler (Some k) clk (r # rs) t w =
    (case handler (om_action r) (om_payload r) w of (res, w1) \<Rightarrow>
      (case deliver_rows handler (Some k) clk rs (sql_update (\<lambda>m. om_id m = om_id r) (settle k clk res) t) w1 of
         (out, w2) \<Rightarrow> (map_sum (\<lambda>e. e) (\<lambda>(n, t'). (if res = None then n + 1 else n, t')) out, w2)))"
proof -
  have a: "0 \<le> om_attempts r" using assms(1,3) by (simp add: outbox_ok_def message_ok_def)
  have "mark_delivered (clk (om_id r)) (om_id r) t = sql_update (\<lambda>m. om_id m = om_id r) (settle k clk None) t"
    by (auto simp: mark_delivered_def sql_update_def settle_def)
  moreover have e: "m = r" if "m \<in> set t" "om_id m = om_id r" for m
    using that assms(1,3) unique_keyD [of om_id t m r] by (simp add: outbox_ok_def)
  moreover have "mark_failed (Some k) r err t = Inr (sql_update (\<lambda>m. om_id m = om_id r) (settle k clk (Some err)) t)" for err
    using assms(2) a by (auto simp: mark_failed_def transition_after_failure_def sql_update_def settle_def dest!: e)
  ultimately show ?thesis
    by (auto simp: map_sum_def split: prod.splits option.splits sum.splits)
qed

lemma outbox_ok_settle:
  assumes "outbox_ok k t" and "r \<in> set t" and "om_status r = ''PENDING''"
  shows "outbox_ok k (sql_update (\<lambda>m. om_id m = om_id r) (settle k clk res) t)"
proof -
  have e: "m = r" if "m \<in> set t" "om_id m = om_id r" for m
    using that assms(1,2) unique_keyD [of om_id t m r] by (simp add: outbox_ok_def)
  have "message_ok k (settle k clk res r)" using assms by (auto simp: outbox_ok_def intro: message_ok_settle)
  with assms(1) show ?thesis
    unfolding outbox_ok_def by (auto simp: unique_key_sql_update set_sql_update dest: e)
qed

lemma other_row:
  assumes "set (r # rs) \<subseteq> set t" and "distinct (map key (r # rs))" and "m \<in> set rs"
  shows "m \<in> set t" and "key m \<noteq> key r"
proof -
  show "m \<in> set t" using assms(1,3) by auto
  have "key m \<in> key ` set rs" using assms(3) by (rule imageI)
  then show "key m \<noteq> key r" using assms(2) by auto
qed

lemma deliver_rows_ok:
  assumes "outbox_ok k t" and "1 \<le> k" and "set rs \<subseteq> set t" and "distinct (map om_id rs)"
    and "\<forall>r \<in> set rs. om_status r = ''PENDING''"
  shows "\<exists>n t' w'. deliver_rows handler (Some k) clk rs t w = (Inr (n, t'), w') \<and> outbox_ok k t' \<and>
    (\<forall>m \<in> set t. om_status m \<noteq> ''PENDING'' \<longrightarrow> m \<in> set t')"
  using assms
proof (induction rs arbitrary: t w)
  case (Cons r rs)
  obtain res w1 where h: "handler (om_action r) (om_payload r) w = (res, w1)" by (metis surj_pair)
  let ?t = "sql_update (\<lambda>m. om_id m = om_id r) (settle k clk res) t"
  have ok: "outbox_ok k ?t" using outbox_ok_settle Cons.prems by simp
  have mem: "m \<in> set ?t" if "m \<in> set t" "om_id m \<noteq> om_id r" for m
    using that by (force simp: set_sql_update)
  have d: "distinct (map om_id rs)" and pe: "\<forall>r \<in> set rs. om_status r = ''PENDING''" using Cons.prems by auto
  have sub: "set rs \<subseteq> set ?t"
  proof
    fix m assume "m \<in> set rs"
    with Cons.prems(3,4) have "m \<in> set t" "om_id m \<noteq> om_id r" by (rule other_row)+
    then show "m \<in> set ?t" by (rule mem)
  qed
  obtain n t' w' where r: "deliver_rows handler (Some k) clk rs ?t w1 = (Inr (n, t'), w')" "outbox_ok k t'"
      "\<forall>m \<in> set ?t. om_status m \<noteq> ''PENDING'' \<longrightarrow> m \<in> set t'"
    using Cons.IH [OF ok Cons.prems(2) sub d pe, of w1] by blast
  have "m \<in> set t'" if "m \<in> set t" "om_status m \<noteq> ''PENDING''" for m
  proof -
    have "om_id m \<noteq> om_id r"
      using that Cons.prems(1,3,5) unique_keyD [of om_id t m r] by (auto simp: outbox_ok_def)
    with mem r(3) that show ?thesis by blast
  qed
  with r show ?case using deliver_row [OF Cons.prems(1,2), of r handler clk rs w] h Cons.prems(3) by simp
qed simp

lemma pending_rows_props:
  assumes "unique_key om_id t"
  shows "set (pending_rows mm t) \<subseteq> set t" and "distinct (map om_id (pending_rows mm t))"
    and "\<forall>r \<in> set (pending_rows mm t). om_status r = ''PENDING''"
proof -
  let ?F = "sort_key om_created_at (filter (\<lambda>m. om_status m = ''PENDING'') t)"
  have "distinct (map om_id (filter (\<lambda>m. om_status m = ''PENDING'') t))"
    using assms by (simp add: unique_key_def distinct_map_filter)
  then have d: "distinct (map om_id ?F)" by (simp add: distinct_map inj_on_def)
  have "\<exists>n. pending_rows mm t = take n ?F"
    by (cases mm) (auto simp: pending_rows_def Let_def intro: exI [of _ "length ?F"])
  then obtain n where n: "pending_rows mm t = take n ?F" by blast
  have "set (pending_rows mm t) \<subseteq> set ?F" unfolding n by (rule set_take_subset)
  moreover have "distinct (map om_id (pending_rows mm t))" unfolding n using d by (simp add: take_map [symmetric])
  ultimately show "set (pending_rows mm t) \<subseteq> set t" and "distinct (map om_id (pending_rows mm t))"
    and "\<forall>r \<in> set (pending_rows mm t). om_status r = ''PENDING''"
    by auto
qed

lemma process_outbox_ok:
  assumes "outbox_ok k (cp_outbox db)" and "1 \<le> k" and "\<And>n. mm = Some n \<Longrightarrow> 1 \<le> n"
  shows "\<exists>c db' w'. process_outbox handler mm (Some k) clk db w = (Inr c, db', w') \<and> outbox_ok k (cp_outbox db') \<and>
    (\<forall>m \<in> set (cp_outbox db). om_status m \<noteq> ''PENDING'' \<longrightarrow> m \<in> set (cp_outbox db'))"
proof -
  have u: "unique_key om_id (cp_outbox db)" using assms(1) by (simp add: outbox_ok_def)
  obtain c t' w' where d: "deliver_rows handler (Some k) clk (pending_rows mm (cp_outbox db)) (cp_outbox db) w = (Inr (c, t'), w')"
      "outbox_ok k t'" "\<forall>m \<in> set (cp_outbox db). om_status m \<noteq> ''PENDING'' \<longrightarrow> m \<in> set t'"
    using deliver_rows_ok [OF assms(1,2) pending_rows_props [OF u], of handler clk mm w] by blast
  have "\<not> (case mm of Some n \<Rightarrow> n < 1 | None \<Rightarrow> False)" using assms(3) by (cases mm) auto
  with d assms(2) show ?thesis by (simp add: process_outbox_def)
qed

text \<open>
  Delivery of a message is bounded: with a failure budget \<open>k\<close>, a pass over the outbox never
  raises whatever the handler does, every message keeps at most \<open>k\<close> failed attempts, a pending one has budget left, a dead one has
  used it all, and a delivered or dead message is not touched again.
\<close>
theorem outbox_attempts_bounded:
  assumes "outbox_ok k (cp_outbox db)" and "1 \<le> k" and "\<And>n. mm = Some n \<Longrightarrow> 1 \<le> n"
  shows "\<exists>c db' w'. process_outbox handler mm (Some k) clk db w = (Inr c, db', w') \<and> outbox_ok k (cp_outbox db') \<and>
    (\<forall>m \<in> set (cp_outbox db). om_status m \<noteq> ''PENDING'' \<longrightarrow> m \<in> set (cp_outbox db'))"
  by (rule process_outbox_ok [OF assms])

lemma message_ok_fresh: "1 \<le> k \<Longrightarrow> om_status m = ''PENDING'' \<Longrightarrow> om_attempts m = 0 \<Longrightarrow> message_ok k m"
  by (simp add: message_ok_def)

theorem outbox_attempts_bounded_witness:
  "\<exists>c db' w'. process_outbox (\<lambda>a p w. (Some ''down'', w + 1)) None (Some 1) (\<lambda>i. 5)
     (snd (enqueue_outbox ''abcdefgh'' 1 ''ping'' [] cp_empty)) (0::nat) = (Inr c, db', w') \<and> outbox_ok 1 (cp_outbox db')"
proof -
  have "outbox_ok 1 (cp_outbox (snd (enqueue_outbox ''abcdefgh'' 1 ''ping'' [] cp_empty)))"
    by (simp add: enqueue_outbox_def cp_empty_def sql_get_def Let_def outbox_ok_def unique_key_def message_ok_def)
  from outbox_attempts_bounded [OF this, of None "\<lambda>a p w. (Some ''down'', w + 1)" "\<lambda>i. 5" 0] show ?thesis by blast
qed

subsection \<open>Poison messages\<close>

definition always_fails :: "'w outbox_handler \<Rightarrow> bool" where
  "always_fails h \<longleftrightarrow> (\<forall>a p w. fst (h a p w) \<noteq> None)"

fun passes :: "nat \<Rightarrow> 'w outbox_handler \<Rightarrow> int \<Rightarrow> (nat \<Rightarrow> string \<Rightarrow> real) \<Rightarrow> control_plane \<Rightarrow> 'w \<Rightarrow> control_plane \<times> 'w" where
  "passes 0 h k clk db w = (db, w)"
| "passes (Suc n) h k clk db w = (case process_outbox h None (Some k) (clk n) db w of (_, db', w') \<Rightarrow> passes n h k clk db' w')"

text \<open>A failing pass: every pending message has one more attempt, and is dead when the budget is used.\<close>

definition failed_once :: "int \<Rightarrow> outbox_message \<Rightarrow> outbox_message \<Rightarrow> bool" where
  "failed_once k m m' \<longleftrightarrow> om_id m' = om_id m \<and>
     (if om_status m = ''PENDING''
      then om_attempts m' = om_attempts m + 1 \<and> om_status m' = (if om_attempts m + 1 \<ge> k then ''DEAD'' else ''PENDING'')
      else m' = m)"

definition failed_if :: "int \<Rightarrow> string set \<Rightarrow> outbox_message \<Rightarrow> outbox_message \<Rightarrow> bool" where
  "failed_if k ids m m' \<longleftrightarrow> om_id m' = om_id m \<and>
     (if om_id m \<in> ids
      then om_attempts m' = om_attempts m + 1 \<and> om_status m' = (if om_attempts m + 1 \<ge> k then ''DEAD'' else ''PENDING'')
      else m' = m)"

lemma list_all2_sql_update:
  "(\<And>m. m \<in> set t \<Longrightarrow> P m (if p m then f m else m)) \<Longrightarrow> list_all2 P t (sql_update p f t)"
  by (induction t) (auto simp: sql_update_def)

lemma deliver_rows_failing:
  assumes "always_fails h" and "outbox_ok k t" and "1 \<le> k" and "set rs \<subseteq> set t" and "distinct (map om_id rs)"
    and "\<forall>r \<in> set rs. om_status r = ''PENDING''"
  shows "\<exists>n t' w'. deliver_rows h (Some k) clk rs t w = (Inr (n, t'), w') \<and> list_all2 (failed_if k (om_id ` set rs)) t t'"
  using assms
proof (induction rs arbitrary: t w)
  case Nil
  then show ?case by (auto simp: failed_if_def list_all2_refl)
next
  case (Cons r rs)
  obtain res w1 where h: "h (om_action r) (om_payload r) w = (res, w1)" by (metis surj_pair)
  then obtain err where res: "res = Some err" using Cons.prems(1) unfolding always_fails_def by (metis fst_conv not_None_eq)
  let ?t = "sql_update (\<lambda>m. om_id m = om_id r) (settle k clk res) t"
  have ok: "outbox_ok k ?t" using outbox_ok_settle Cons.prems by simp
  have d: "distinct (map om_id rs)" and pe: "\<forall>r \<in> set rs. om_status r = ''PENDING''" using Cons.prems by auto
  have sub: "set rs \<subseteq> set ?t"
  proof
    fix m assume "m \<in> set rs"
    with Cons.prems(4,5) have "m \<in> set t" "om_id m \<noteq> om_id r" by (rule other_row)+
    then show "m \<in> set ?t" by (force simp: set_sql_update)
  qed
  obtain n t' w' where r: "deliver_rows h (Some k) clk rs ?t w1 = (Inr (n, t'), w')"
      "list_all2 (failed_if k (om_id ` set rs)) ?t t'"
    using Cons.IH [OF Cons.prems(1) ok Cons.prems(3) sub d pe, of w1] by blast
  have h1: "list_all2 (failed_if k {om_id r}) t ?t"
    by (rule list_all2_sql_update) (auto simp: failed_if_def settle_def res)
  have i: "om_id r \<notin> om_id ` set rs" using Cons.prems(5) by simp
  have "list_all2 (failed_if k (om_id ` set (r # rs))) t t'"
    by (rule list_all2_trans [OF _ h1 r(2)]) (use i in \<open>auto simp: failed_if_def split: if_splits\<close>)
  with r show ?case using deliver_row [OF Cons.prems(2,3), of r h clk rs w] h Cons.prems(4) by simp
qed

lemma failing_pass:
  assumes "always_fails h" and "outbox_ok k (cp_outbox db)" and "1 \<le> k"
  shows "\<exists>c db' w'. process_outbox h None (Some k) clk db w = (Inr c, db', w') \<and>
    list_all2 (failed_once k) (cp_outbox db) (cp_outbox db')"
proof -
  have u: "unique_key om_id (cp_outbox db)" using assms(2) by (simp add: outbox_ok_def)
  obtain c t' w' where d: "deliver_rows h (Some k) clk (pending_rows None (cp_outbox db)) (cp_outbox db) w = (Inr (c, t'), w')"
      "list_all2 (failed_if k (om_id ` set (pending_rows None (cp_outbox db)))) (cp_outbox db) t'"
    using deliver_rows_failing [OF assms pending_rows_props [OF u], of clk None w] by blast
  have s: "om_id m \<in> om_id ` set (pending_rows None (cp_outbox db)) \<longleftrightarrow> om_status m = ''PENDING''" if "m \<in> set (cp_outbox db)" for m
    using that unique_keyD [OF u, of m] by (auto simp: pending_rows_def)
  have "list_all2 (failed_once k) (cp_outbox db) t'"
    using d(2) s unfolding list_all2_conv_all_nth failed_if_def failed_once_def by simp
  with d(1) assms(3) show ?thesis by (simp add: process_outbox_def)
qed

lemma process_outbox_keeps:
  assumes "outbox_ok k (cp_outbox db)" and "1 \<le> k" and "process_outbox h None (Some k) clk db w = (r, db', w')"
  shows "outbox_ok k (cp_outbox db')"
proof -
  have "\<exists>c db' w'. process_outbox h None (Some k) clk db w = (Inr c, db', w') \<and> outbox_ok k (cp_outbox db') \<and>
    (\<forall>m \<in> set (cp_outbox db). om_status m \<noteq> ''PENDING'' \<longrightarrow> m \<in> set (cp_outbox db'))"
    by (rule process_outbox_ok [OF assms(1,2)]) simp
  with assms(3) show ?thesis by auto
qed

lemma failing_passes:
  assumes "always_fails h" and "outbox_ok k (cp_outbox db)" and "1 \<le> k"
    and "m \<in> set (cp_outbox db)" and "om_status m = (if om_attempts m \<ge> k then ''DEAD'' else ''PENDING'')"
  shows "\<exists>m' \<in> set (cp_outbox (fst (passes n h k clk db w))). om_id m' = om_id m \<and>
    om_attempts m' = min (om_attempts m + int n) k \<and>
    om_status m' = (if om_attempts m + int n \<ge> k then ''DEAD'' else ''PENDING'')"
  using assms
proof (induction n arbitrary: db m w)
  case 0
  have "om_attempts m \<le> k" using 0(2,4) by (simp add: outbox_ok_def message_ok_def)
  then have "om_attempts m = min (om_attempts m + int 0) k" by simp
  moreover have "om_status m = (if om_attempts m + int 0 \<ge> k then ''DEAD'' else ''PENDING'')"
    unfolding of_nat_0 add_0_right by (rule 0(5))
  moreover have "m \<in> set (cp_outbox (fst (passes 0 h k clk db w)))" using 0(4) by simp
  ultimately show ?case by blast
next
  case (Suc n)
  obtain c db1 w1 where p: "process_outbox h None (Some k) (clk n) db w = (Inr c, db1, w1)"
      "list_all2 (failed_once k) (cp_outbox db) (cp_outbox db1)"
    using failing_pass [OF Suc.prems(1-3), of "clk n" w] by blast
  have ok: "outbox_ok k (cp_outbox db1)" using process_outbox_keeps [OF Suc.prems(2,3) p(1)] .
  obtain j where j: "j < length (cp_outbox db)" "cp_outbox db ! j = m"
    using Suc.prems(4) unfolding in_set_conv_nth by blast
  define m1 where "m1 = cp_outbox db1 ! j"
  have m1: "m1 \<in> set (cp_outbox db1)" "failed_once k m m1"
    using list_all2_lengthD [OF p(2)] list_all2_nthD [OF p(2) j(1)] j by (simp_all add: m1_def)
  have le: "om_attempts m \<le> k" using Suc.prems(2,4) by (simp add: outbox_ok_def message_ok_def)
  have e: "passes (Suc n) h k clk db w = passes n h k clk db1 w1" by (simp add: p(1))
  have st: "om_status m1 = (if om_attempts m1 \<ge> k then ''DEAD'' else ''PENDING'')" and i: "om_id m1 = om_id m"
    and a: "om_attempts m1 = min (om_attempts m + 1) k"
  proof -
    show "om_id m1 = om_id m" using m1(2) unfolding failed_once_def by (rule conjunct1)
    show "om_status m1 = (if om_attempts m1 \<ge> k then ''DEAD'' else ''PENDING'')"
      and "om_attempts m1 = min (om_attempts m + 1) k"
    proof (atomize (full), cases "om_attempts m \<ge> k")
      case True
      then have "m1 = m" using m1(2) Suc.prems(5) unfolding failed_once_def by simp
      then show "om_status m1 = (if om_attempts m1 \<ge> k then ''DEAD'' else ''PENDING'') \<and> om_attempts m1 = min (om_attempts m + 1) k"
        using True le Suc.prems(5) by simp
    next
      case False
      then have "om_attempts m1 = om_attempts m + 1 \<and> om_status m1 = (if om_attempts m + 1 \<ge> k then ''DEAD'' else ''PENDING'')"
        using m1(2) Suc.prems(5) unfolding failed_once_def by simp
      then show "om_status m1 = (if om_attempts m1 \<ge> k then ''DEAD'' else ''PENDING'') \<and> om_attempts m1 = min (om_attempts m + 1) k"
        using False by simp
    qed
  qed
  obtain m' where m': "m' \<in> set (cp_outbox (fst (passes n h k clk db1 w1)))" "om_id m' = om_id m1"
      "om_attempts m' = min (om_attempts m1 + int n) k"
      "om_status m' = (if om_attempts m1 + int n \<ge> k then ''DEAD'' else ''PENDING'')"
    using Suc.IH [OF Suc.prems(1) ok Suc.prems(3) m1(1) st, of w1] by blast
  have "min (om_attempts m1 + int n) k = min (om_attempts m + int (Suc n)) k"
    and "om_attempts m1 + int n \<ge> k \<longleftrightarrow> om_attempts m + int (Suc n) \<ge> k"
    using a le by linarith+
  then show ?case unfolding e using m' i by (intro bexI [OF _ m'(1)]) simp
qed

text \<open>
  C24: A poison message ends dead after exactly its budget: if the handler fails on everything, a fresh
  message has, after \<open>n\<close> passes with budget \<open>k\<close>, exactly the smaller of \<open>n\<close> and \<open>k\<close> failed attempts, and is DEAD once \<open>n\<close> reaches
  \<open>k\<close> and PENDING before.
\<close>
theorem poison_message_ends_dead:
  assumes "always_fails h" and "outbox_ok k (cp_outbox db)" and "1 \<le> k"
    and "m \<in> set (cp_outbox db)" and "om_status m = ''PENDING''" and "om_attempts m = 0"
  shows "\<exists>m' \<in> set (cp_outbox (fst (passes n h k clk db w))). om_id m' = om_id m \<and>
    om_attempts m' = min (int n) k \<and> om_status m' = (if int n \<ge> k then ''DEAD'' else ''PENDING'')"
proof -
  have "om_status m = (if om_attempts m \<ge> k then ''DEAD'' else ''PENDING'')" using assms(3,5,6) by simp
  from failing_passes [OF assms(1-4) this, of n clk w] show ?thesis unfolding assms(6) by simp
qed

definition demo_outbox_db :: control_plane where
  "demo_outbox_db = cp_empty\<lparr>cp_outbox := [\<lparr>om_id = ''m'', om_action = ''ping'', om_payload = [], om_status = ''PENDING'',
     om_attempts = 0, om_created_at = 0, om_delivered_at = None, om_error = None\<rparr>]\<rparr>"

theorem poison_message_ends_dead_witness:
  "\<exists>m' \<in> set (cp_outbox (fst (passes 3 (\<lambda>a p w. (Some ''down'', w)) 2 (\<lambda>n i. real n) demo_outbox_db ()))).
     om_id m' = ''m'' \<and> om_attempts m' = 2 \<and> om_status m' = ''DEAD''"
proof -
  have a: "always_fails (\<lambda>a p w. (Some ''down'', w))" by (simp add: always_fails_def)
  have b: "outbox_ok 2 (cp_outbox demo_outbox_db)"
    by (simp add: demo_outbox_db_def outbox_ok_def unique_key_def message_ok_def)
  have c: "hd (cp_outbox demo_outbox_db) \<in> set (cp_outbox demo_outbox_db)" by (simp add: demo_outbox_db_def)
  from poison_message_ends_dead [OF a b _ c, of 3 "\<lambda>n i. real n" "()"] show ?thesis
    by (simp add: demo_outbox_db_def)
qed

subsection \<open>Webhook deliveries are accepted once\<close>

fun deliveries :: "(string \<times> string \<times> real) list \<Rightarrow> control_plane \<Rightarrow> bool list \<times> control_plane" where
  "deliveries [] db = ([], db)"
| "deliveries ((i, ty, now) # ds) db = (case record_webhook_delivery_atomic i ty now db of (b, db1) \<Rightarrow>
     (case deliveries ds db1 of (bs, db2) \<Rightarrow> (b # bs, db2)))"

definition inbox_ids :: "control_plane \<Rightarrow> string set" where
  "inbox_ids db = ib_delivery_id ` set (cp_inbox db)"

lemma record_webhook_iff:
  "record_webhook_delivery_atomic i ty now db = (b, db') \<Longrightarrow> (b \<longleftrightarrow> i \<notin> inbox_ids db) \<and> inbox_ids db' = insert i (inbox_ids db)"
  by (auto simp: record_webhook_delivery_atomic_def inbox_ids_def sql_get_None split: if_splits)

lemma deliveries_accepted:
  "map fst (map fst (filter snd (zip ds (fst (deliveries ds db))))) =
     filter (\<lambda>i. i \<notin> inbox_ids db) (dict_fromkeys (map fst ds))"
proof (induction ds db rule: deliveries.induct)
  case (2 i ty now ds db)
  obtain b db1 where r: "record_webhook_delivery_atomic i ty now db = (b, db1)" by (metis surj_pair)
  have b: "b \<longleftrightarrow> i \<notin> inbox_ids db" and s: "inbox_ids db1 = insert i (inbox_ids db)" using record_webhook_iff [OF r] by auto
  obtain bs db2 where d: "deliveries ds db1 = (bs, db2)" by (metis surj_pair)
  have ih: "map fst (map fst (filter snd (zip ds bs))) = filter (\<lambda>i. i \<notin> inbox_ids db1) (dict_fromkeys (map fst ds))"
    using 2 [OF r [symmetric]] d by simp
  have "filter (\<lambda>j. j \<notin> insert i (inbox_ids db)) xs = filter (\<lambda>j. j \<notin> inbox_ids db) (removeAll i xs)" for xs
    by (induction xs) auto
  then have "map fst (map fst (filter snd (zip ds bs))) =
      filter (\<lambda>j. j \<notin> inbox_ids db) (removeAll i (dict_fromkeys (map fst ds)))" unfolding ih s .
  then show ?case using b r d by simp
qed simp

text \<open>
  Every webhook delivery is accepted exactly once: in any sequence of deliveries, the accepted ones
  are the distinct identifiers that the inbox did not hold before, each at its first occurrence.
\<close>
theorem webhook_accepted_once:
  "map fst (map fst (filter snd (zip ds (fst (deliveries ds db))))) =
     filter (\<lambda>i. i \<notin> inbox_ids db) (dict_fromkeys (map fst ds))"
  by (rule deliveries_accepted)

end
