(* ===== verification/RunLease.thy ===== *)
theory RunLease
  imports UpgradeFence
begin

text \<open>
  \<open>src/zcoder/services/upgrade_lease.py\<close>: the lease file that keeps two upgrade runners from overlapping, with its
  bounded wait, and the contract \<open>run_lease\<close> it shares with the advisory lease of \<open>UpgradeFence\<close>. One poll of the file
  is one step: \<open>O_EXCL\<close> makes creation atomic. What other processes do between the polls of a waiting runner is part of the
  clock and sleep functions, which may change the whole world. A \<open>close\<close> that fails after the payload was written is not modelled.
\<close>

subsection \<open>The lease file\<close>

record file_lease =
  rl_path :: string
  rl_wait_seconds :: real
  rl_poll_seconds :: real
  rl_token :: string
  rl_acquired :: bool

definition file_lease_new :: "string \<Rightarrow> real \<Rightarrow> real \<Rightarrow> string \<Rightarrow> string + file_lease" where
  "file_lease_new path wait_seconds poll_seconds token =
     (if wait_seconds < 0 then Inl ''wait_seconds must be >= 0''
      else if poll_seconds \<le> 0 then Inl ''poll_seconds must be > 0''
      else Inr \<lparr>rl_path = path, rl_wait_seconds = wait_seconds, rl_poll_seconds = poll_seconds, rl_token = token, rl_acquired = False\<rparr>)"

type_synonym lease_files = "string \<Rightarrow> ledger_file"

text \<open>How the system calls of one poll go: errors of \<open>open\<close> other than \<open>EEXIST\<close>, of the write, and of its clean-up.\<close>

record open_call =
  oc_error :: "string option"
  oc_write_error :: "string option"
  oc_unlink_ok :: bool

datatype poll_result = Acquired | Held | OsFailed string

definition lease_payload :: "int \<Rightarrow> string \<Rightarrow> real \<Rightarrow> string \<Rightarrow> json" where
  "lease_payload pid host created_at token = JObj [(''created_at'', JFloat created_at), (''host'', JStr host),
     (''pid'', JInt pid), (''token'', JStr token)]"

definition lease_poll :: "open_call \<times> json \<Rightarrow> file_lease \<Rightarrow> lease_files \<Rightarrow> poll_result \<times> file_lease \<times> lease_files" where
  "lease_poll x L files =
     (case x of (C, payload) \<Rightarrow>
       case oc_error C of
         Some m \<Rightarrow> (OsFailed m, L, files)
       | None \<Rightarrow>
           if files (rl_path L) \<noteq> NoFile then (Held, L, files)
           else (case oc_write_error C of
               None \<Rightarrow> (Acquired, L\<lparr>rl_acquired := True\<rparr>, files(rl_path L := Content payload))
             | Some m \<Rightarrow> (OsFailed m, L, if oc_unlink_ok C then files else files(rl_path L := NotJson []))))"

datatype run_lease_error = RunLeaseError string | LeaseOSError string | LeaseAttributeError

text \<open>The world of a runner: the files and the rest, which others change too.\<close>

record 'x lease_os =
  lo_files :: lease_files
  lo_env :: 'x

record 'x lease_env =
  le_mkdir :: "'x lease_os \<Rightarrow> string option \<times> 'x lease_os"
  le_call :: "'x lease_os \<Rightarrow> open_call"
  le_monotonic :: "'x lease_os \<Rightarrow> real \<times> 'x lease_os"
  le_sleep :: "real \<Rightarrow> 'x lease_os \<Rightarrow> 'x lease_os"
  le_time :: "'x lease_os \<Rightarrow> real"
  le_pid :: int
  le_host :: string

text \<open>The loop of \<open>acquire\<close>; \<open>None\<close> is not returning.\<close>

partial_function (option) acquire_loop ::
  "'x lease_env \<Rightarrow> json \<Rightarrow> real \<Rightarrow> file_lease \<Rightarrow> 'x lease_os \<Rightarrow> ((run_lease_error + unit) \<times> file_lease \<times> 'x lease_os) option" where
  "acquire_loop E payload deadline L s =
     (case lease_poll (le_call E s, payload) L (lo_files s) of
        (r, L', files) \<Rightarrow>
          let s1 = s\<lparr>lo_files := files\<rparr> in
          (case r of
             Acquired \<Rightarrow> Some (Inr (), L', s1)
           | OsFailed m \<Rightarrow> Some (Inl (RunLeaseError (''unable to acquire upgrade run lease: '' @ m)), L', s1)
           | Held \<Rightarrow>
               (case le_monotonic E s1 of
                  (t, s2) \<Rightarrow>
                    if t \<ge> deadline then Some (Inl (RunLeaseError (''upgrade run lease already held: '' @ rl_path L)), L', s2)
                    else (case le_monotonic E s2 of
                        (t2, s3) \<Rightarrow> acquire_loop E payload deadline L' (le_sleep E (min (rl_poll_seconds L) (max 0 (deadline - t2))) s3)))))"

definition lease_acquire ::
  "'x lease_env \<Rightarrow> file_lease \<Rightarrow> 'x lease_os \<Rightarrow> ((run_lease_error + unit) \<times> file_lease \<times> 'x lease_os) option" where
  "lease_acquire E L s =
     (case le_monotonic E s of
        (t, s1) \<Rightarrow>
          (case le_mkdir E s1 of
             (Some m, s2) \<Rightarrow> Some (Inl (LeaseOSError m), L, s2)
           | (None, s2) \<Rightarrow> acquire_loop E (lease_payload (le_pid E) (le_host E) (le_time E s2) (rl_token L)) (t + rl_wait_seconds L) L s2))"

text \<open>The errors of reading and of removing the file are arguments.\<close>

definition lease_release ::
  "string option \<times> string option \<Rightarrow> file_lease \<Rightarrow> lease_files \<Rightarrow> (run_lease_error + unit) \<times> file_lease \<times> lease_files" where
  "lease_release x L files =
     (if \<not> rl_acquired L then (Inr (), L, files)
      else (let failed = (\<lambda>m. (Inl (RunLeaseError (''unable to release upgrade run lease: '' @ m)), L, files)) in
        case (fst x, files (rl_path L)) of
          (Some m, _) \<Rightarrow> failed m
        | (None, NoFile) \<Rightarrow> failed ''No such file''
        | (None, NotJson m) \<Rightarrow> failed m
        | (None, Content (JObj d)) \<Rightarrow>
            if dict_get d ''token'' JNull \<noteq> JStr (rl_token L)
            then (Inl (RunLeaseError ''upgrade run lease ownership changed before release''), L, files)
            else (case snd x of
                Some m \<Rightarrow> failed m
              | None \<Rightarrow> (Inr (), L\<lparr>rl_acquired := False\<rparr>, files(rl_path L := NoFile)))
        | (None, Content _) \<Rightarrow> (Inl LeaseAttributeError, L, files)))"

subsection \<open>The contract of a run lease\<close>

text \<open>
  Handles \<open>'h\<close> compete for one resource in the shared state \<open>'l\<close>. \<open>grip\<close> is the badge a handle believes to hold the
  resource with, \<open>owner\<close> the badge the shared state knows, \<open>badge\<close> the one an attempt would use.
\<close>

locale run_lease =
  fixes attempt :: "'x \<Rightarrow> 'h \<Rightarrow> 'l \<Rightarrow> 'r \<times> 'h \<times> 'l"
    and won :: "'r \<Rightarrow> bool"
    and release :: "'y \<Rightarrow> 'h \<Rightarrow> 'l \<Rightarrow> 'q \<times> 'h \<times> 'l"
    and badge :: "'x \<Rightarrow> 'h \<Rightarrow> 'k option"
    and grip :: "'h \<Rightarrow> 'k option"
    and owner :: "'l \<Rightarrow> 'k option"
    and fits :: "'x \<Rightarrow> 'h \<Rightarrow> bool"
    and same_resource :: "'h \<Rightarrow> bool"
  assumes attempt_won: "same_resource h \<Longrightarrow> fits x h \<Longrightarrow> attempt x h l = (r, h', l') \<Longrightarrow> won r \<Longrightarrow>
         grip h' = badge x h \<and> owner l' = badge x h \<and> (owner l = None \<or> owner l = badge x h)"
    and attempt_lost: "same_resource h \<Longrightarrow> fits x h \<Longrightarrow> attempt x h l = (r, h', l') \<Longrightarrow> \<not> won r \<Longrightarrow>
         grip h' = grip h \<and> owner l' = owner l"
    and attempt_same: "same_resource h \<Longrightarrow> attempt x h l = (r, h', l') \<Longrightarrow> same_resource h'"
    and release_safe: "same_resource h \<Longrightarrow> release y h l = (q, h', l') \<Longrightarrow> grip h' = grip h \<or> grip h' = None"
    and release_owner: "same_resource h \<Longrightarrow> release y h l = (q, h', l') \<Longrightarrow> owner l' = owner l \<or> grip h' = None \<and> owner l = grip h \<and> grip h \<noteq> None"
    and release_same: "same_resource h \<Longrightarrow> release y h l = (q, h', l') \<Longrightarrow> same_resource h'"
begin

text \<open>Any number of handles, in any order; an attempt does not use a badge that another handle holds.\<close>

inductive lease_step :: "('p \<Rightarrow> 'h) \<times> 'l \<Rightarrow> ('p \<Rightarrow> 'h) \<times> 'l \<Rightarrow> bool" where
  attempt_step: "fits x (hs p) \<Longrightarrow> \<forall>q. q \<noteq> p \<longrightarrow> grip (hs q) = None \<or> grip (hs q) \<noteq> badge x (hs p) \<Longrightarrow>
      attempt x (hs p) l = (r, h, l') \<Longrightarrow> lease_step (hs, l) (hs(p := h), l')"
| release_step: "release y (hs p) l = (q, h, l') \<Longrightarrow> lease_step (hs, l) (hs(p := h), l')"

definition orderly :: "('p \<Rightarrow> 'h) \<times> 'l \<Rightarrow> bool" where
  "orderly s \<longleftrightarrow> (case s of (hs, l) \<Rightarrow> (\<forall>p. same_resource (hs p) \<and> (grip (hs p) = None \<or> grip (hs p) = owner l)) \<and>
     (\<forall>p q. p \<noteq> q \<longrightarrow> grip (hs p) = None \<or> grip (hs q) = None))"

lemma orderlyD:
  assumes "orderly (hs, l)"
  shows "same_resource (hs p)" "grip (hs p) = None \<or> grip (hs p) = owner l" "p \<noteq> q \<Longrightarrow> grip (hs p) = None \<or> grip (hs q) = None"
  using assms by (simp_all add: orderly_def)

text \<open>A step of one handle keeps order if the others stay in agreement with the owner.\<close>

lemma orderly_upd:
  assumes "orderly (hs, l)" "same_resource h" "grip h = None \<or> grip h = owner l'"
    "\<And>q. q \<noteq> p \<Longrightarrow> grip (hs q) \<noteq> None \<Longrightarrow> grip h = None \<and> owner l' = owner l"
  shows "orderly (hs(p := h), l')"
proof -
  have 1: "same_resource ((hs(p := h)) q)" for q using orderlyD(1) [OF assms(1)] assms(2) by simp
  have 2: "grip ((hs(p := h)) q) = None \<or> grip ((hs(p := h)) q) = owner l'" for q
  proof (cases "q = p \<or> grip (hs q) = None")
    case False
    then have "owner l' = owner l" "grip (hs q) = owner l" using assms(4) [of q] orderlyD(2) [OF assms(1), of q] by (simp_all del: not_None_eq)
    then show ?thesis using False by simp
  next
    case True
    then show ?thesis using assms(3) by (cases "q = p") simp_all
  qed
  have h: "grip (hs q) = None \<or> grip h = None" if "q \<noteq> p" for q
    by (cases "grip (hs q) = None") (use assms(4) [OF that] in \<open>simp_all del: not_None_eq\<close>)
  have 3: "grip ((hs(p := h)) q) = None \<or> grip ((hs(p := h)) q') = None" if "q \<noteq> q'" for q q'
  proof (cases "q = p \<or> q' = p")
    case True
    then show ?thesis using h [of q] h [of q'] that by (cases "q = p") (simp_all add: disj_commute)
  next
    case False
    then show ?thesis using orderlyD(3) [OF assms(1) that] by simp
  qed
  show ?thesis unfolding orderly_def prod.case by (intro conjI allI impI 1 2 3)
qed

lemma orderly_step: "lease_step s s' \<Longrightarrow> orderly s \<Longrightarrow> orderly s'"
proof (induction rule: lease_step.induct)
  case (attempt_step x hs p l r h l')
  note o = orderlyD [OF attempt_step.prems]
  note same = attempt_same [OF o(1) attempt_step.hyps(3)]
  show ?case
  proof (rule orderly_upd [OF attempt_step.prems same])
    show "grip h = None \<or> grip h = owner l'"
    proof (cases "won r")
      case True
      then show ?thesis using attempt_won [OF o(1) attempt_step.hyps(1,3)] by simp
    next
      case False
      note f = attempt_lost [OF o(1) attempt_step.hyps(1,3) False]
      show ?thesis unfolding conjunct1 [OF f] conjunct2 [OF f] by (rule o(2))
    qed
    fix q assume q: "q \<noteq> p" "grip (hs q) \<noteq> None"
    have "grip (hs q) = owner l" using o(2) [of q] q(2) by simp
    moreover have "grip (hs q) = None \<or> grip (hs q) \<noteq> badge x (hs p)" using attempt_step.hyps(2) q(1) by simp
    ultimately have "owner l \<noteq> None" "owner l \<noteq> badge x (hs p)" using q(2) by (simp_all del: not_None_eq)
    then have "\<not> won r" using attempt_won [OF o(1) attempt_step.hyps(1,3)] by (auto simp del: not_None_eq)
    note f = attempt_lost [OF o(1) attempt_step.hyps(1,3) this]
    show "grip h = None \<and> owner l' = owner l" using f o(3) [OF q(1)] q(2) by simp
  qed
next
  case (release_step y hs p l r h l')
  note o = orderlyD [OF release_step.prems]
  note r = release_same [OF o(1) release_step.hyps] release_safe [OF o(1) release_step.hyps] release_owner [OF o(1) release_step.hyps]
  show ?case
  proof (rule orderly_upd [OF release_step.prems r(1)])
    show "grip h = None \<or> grip h = owner l'"
    proof (cases "owner l' = owner l \<and> grip h = grip (hs p)")
      case True
      then show ?thesis using o(2) [of p] by simp
    next
      case False
      then show ?thesis using r(2,3) by auto
    qed
    fix q assume q: "q \<noteq> p" "grip (hs q) \<noteq> None"
    then have "grip (hs p) = None" using o(3) [of q p] by (simp del: not_None_eq)
    then show "grip h = None \<and> owner l' = owner l" using r(2,3) by simp
  qed
qed

lemma orderly_steps: "lease_step\<^sup>*\<^sup>* s s' \<Longrightarrow> orderly s \<Longrightarrow> orderly s'"
  by (induction rule: rtranclp_induct) (auto intro: orderly_step)

lemma at_most_one_holder:
  assumes "lease_step\<^sup>*\<^sup>* (hs, l) (hs', l')" "\<And>p. same_resource (hs p)" "\<And>p. grip (hs p) = None" "grip (hs' p) \<noteq> None"
  shows "grip (hs' p) = owner l'" "q \<noteq> p \<Longrightarrow> grip (hs' q) = None"
proof -
  have "orderly (hs, l)" using assms(2,3) by (simp add: orderly_def)
  note o = orderlyD [OF orderly_steps [OF assms(1) this]]
  show "grip (hs' p) = owner l'" using o(2) [of p] assms(4) by blast
  show "q \<noteq> p \<Longrightarrow> grip (hs' q) = None" using o(3) [of q p] assms(4) by blast
qed

end

subsection \<open>The lease file keeps the contract\<close>

fun file_owner :: "ledger_file \<Rightarrow> string option" where
  "file_owner (Content (JObj d)) = (case map_of d ''token'' of Some (JStr t) \<Rightarrow> Some t | _ \<Rightarrow> None)"
| "file_owner _ = None"

definition file_grip :: "file_lease \<Rightarrow> string option" where
  "file_grip L = (if rl_acquired L then Some (rl_token L) else None)"

lemma file_owner_payload [simp]: "file_owner (Content (lease_payload pid host t token)) = Some token"
  by (simp add: lease_payload_def)

interpretation file_lease: run_lease lease_poll "\<lambda>r. r = Acquired" lease_release
  "\<lambda>x L. Some (rl_token L)" file_grip "\<lambda>files. file_owner (files path)"
  "\<lambda>x L. \<exists>pid host t. snd x = lease_payload pid host t (rl_token L)" "\<lambda>L. rl_path L = path" for path
proof unfold_locales
  fix h x l r h' l'
  assume "rl_path h = path" "\<exists>pid host t. snd x = lease_payload pid host t (rl_token h)"
    "lease_poll x h l = (r, h', l')" "r = Acquired"
  then show "file_grip h' = Some (rl_token h) \<and> file_owner (l' path) = Some (rl_token h) \<and>
      (file_owner (l path) = None \<or> file_owner (l path) = Some (rl_token h))"
    by (cases x) (auto simp: lease_poll_def file_grip_def split: option.splits if_splits)
next
  fix h x l r h' l'
  assume "rl_path h = path" "lease_poll x h l = (r, h', l')" "r \<noteq> Acquired"
  then show "file_grip h' = file_grip h \<and> file_owner (l' path) = file_owner (l path)"
    by (cases x) (auto simp: lease_poll_def split: option.splits if_splits)
next
  fix h x l r h' l'
  assume "rl_path h = path" "lease_poll x h l = (r, h', l')"
  then show "rl_path h' = path" by (cases x) (auto simp: lease_poll_def split: option.splits if_splits)
next
  fix h y l q h' l'
  assume "rl_path h = path" "lease_release y h l = (q, h', l')"
  then show "file_grip h' = file_grip h \<or> file_grip h' = None"
    by (auto simp: lease_release_def file_grip_def Let_def split: option.splits ledger_file.splits json.splits if_splits)
next
  fix h y l q h' l'
  assume a: "rl_path h = path" "lease_release y h l = (q, h', l')"
  show "file_owner (l' path) = file_owner (l path) \<or> file_grip h' = None \<and> file_owner (l path) = file_grip h \<and> file_grip h \<noteq> None"
  proof (cases "l' = l")
    case False
    then have "rl_acquired h" "h' = h\<lparr>rl_acquired := False\<rparr>" "\<exists>d. l path = Content (JObj d) \<and> dict_get d ''token'' JNull = JStr (rl_token h)"
      using a by (auto simp: lease_release_def Let_def split: option.splits ledger_file.splits json.splits if_splits)
    then show ?thesis by (auto simp: file_grip_def dict_get_def split: option.splits)
  qed simp
next
  fix h y l q h' l'
  assume "rl_path h = path" "lease_release y h l = (q, h', l')"
  then show "rl_path h' = path"
    by (auto simp: lease_release_def Let_def split: option.splits ledger_file.splits json.splits if_splits)
qed

subsection \<open>So does the advisory lease\<close>

definition lock_owner :: "int \<Rightarrow> advisory_locks \<Rightarrow> nat option" where
  "lock_owner k locks = map_option fst (map_of locks k)"

definition session_of :: "string + nat \<Rightarrow> nat option" where
  "session_of checkout = (case checkout of Inl e \<Rightarrow> None | Inr c \<Rightarrow> Some c)"

interpretation advisory_lease: run_lease pg_acquire "\<lambda>r. r = Inr ()" "\<lambda>(y :: unit). pg_release" "\<lambda>x L. session_of x" pl_connection
  "lock_owner k" "\<lambda>x L. True" "\<lambda>L. pl_lock_key L = k" for k
proof unfold_locales
  fix h x l r h' l'
  assume "pl_lock_key h = k" "pg_acquire x h l = (r, h', l')" "r = Inr ()"
  then show "pl_connection h' = session_of x \<and> lock_owner k l' = session_of x \<and> (lock_owner k l = None \<or> lock_owner k l = session_of x)"
    by (auto simp: pg_acquire_def pg_try_advisory_lock_def lock_owner_def session_of_def split: sum.splits option.splits prod.splits if_splits)
next
  fix h x l r h' l'
  assume "pl_lock_key h = k" "pg_acquire x h l = (r, h', l')" "r \<noteq> Inr ()"
  then show "pl_connection h' = pl_connection h \<and> lock_owner k l' = lock_owner k l"
    by (auto simp: pg_acquire_def pg_try_advisory_lock_def split: sum.splits option.splits prod.splits if_splits)
next
  fix h x l r h' l'
  assume "pl_lock_key h = k" "pg_acquire x h l = (r, h', l')"
  then show "pl_lock_key h' = k"
    by (auto simp: pg_acquire_def split: sum.splits option.splits prod.splits if_splits bool.splits)
next
  fix h y l q h' l'
  assume "pl_lock_key h = k" "pg_release h l = (q, h', l')"
  then show "pl_connection h' = pl_connection h \<or> pl_connection h' = None"
    by (auto simp: pg_release_def split: option.splits prod.splits bool.splits)
next
  fix h y l q h' l'
  assume "pl_lock_key h = k" "pg_release h l = (q, h', l')"
  then show "lock_owner k l' = lock_owner k l \<or> pl_connection h' = None \<and> lock_owner k l = pl_connection h \<and> pl_connection h \<noteq> None"
    by (auto simp: pg_release_def pg_advisory_unlock_def lock_owner_def split: option.splits prod.splits bool.splits if_splits)
next
  fix h y l q h' l'
  assume "pl_lock_key h = k" "pg_release h l = (q, h', l')"
  then show "pl_lock_key h' = k" by (auto simp: pg_release_def split: option.splits prod.splits bool.splits)
qed

subsection \<open>The wait is bounded\<close>

lemma lease_poll_acquired:
  assumes "lease_poll x L files = (r, L', files')"
  shows "r = Acquired \<Longrightarrow> rl_acquired L' \<and> files' (rl_path L) = Content (snd x) \<and> files (rl_path L) = NoFile" "r \<noteq> Acquired \<Longrightarrow> L' = L"
  using assms by (auto simp: lease_poll_def split: prod.splits option.splits if_splits)

text \<open>
  A clock for the whole wait: a reading lies within its call, a sleep lasts what it is asked to, and no single call, of the clock, of
  \<open>mkdir\<close> or beyond the sleep itself, takes longer than \<open>e\<close>. A change of the files takes no time of its own.
\<close>

definition fair_clock :: "real \<Rightarrow> 'x lease_env \<Rightarrow> ('x lease_os \<Rightarrow> real) \<Rightarrow> bool" where
  "fair_clock e E clock \<longleftrightarrow>
     (\<forall>s t s'. le_monotonic E s = (t, s') \<longrightarrow> clock s \<le> t \<and> t \<le> clock s' \<and> clock s' \<le> clock s + e) \<and>
     (\<forall>d s. 0 \<le> d \<longrightarrow> clock s + d \<le> clock (le_sleep E d s) \<and> clock (le_sleep E d s) \<le> clock s + d + e) \<and>
     (\<forall>s files. clock (s\<lparr>lo_files := files\<rparr>) = clock s) \<and>
     (\<forall>s m s'. le_mkdir E s = (m, s') \<longrightarrow> clock s' \<le> clock s + e)"

lemma fair_clockD:
  assumes "fair_clock e E clock"
  shows "le_monotonic E s = (t, s') \<Longrightarrow> clock s \<le> t \<and> t \<le> clock s' \<and> clock s' \<le> clock s + e"
    "0 \<le> d \<Longrightarrow> clock s + d \<le> clock (le_sleep E d s) \<and> clock (le_sleep E d s) \<le> clock s + d + e"
    "clock (s\<lparr>lo_files := files\<rparr>) = clock s" "le_mkdir E s = (m, s') \<Longrightarrow> clock s' \<le> clock s + e"
  using assms unfolding fair_clock_def by blast+

text \<open>One round of the loop ends, or sleeps to a later state that is still near the deadline.\<close>

lemma acquire_loop_round:
  assumes "fair_clock e E clock" "0 < rl_poll_seconds L" "clock s \<le> deadline + 3 * e"
  obtains (ends) r L' s' where "acquire_loop E payload deadline L s = Some (r, L', s')" "r \<noteq> Inr () \<longrightarrow> L' = L"
      "r = Inr () \<longrightarrow> rl_acquired L' \<and> lo_files s' (rl_path L) = Content payload" "clock s' \<le> deadline + 4 * e"
  | (sleeps) s4 where "acquire_loop E payload deadline L s = acquire_loop E payload deadline L s4"
      "clock s < deadline" "deadline - clock s4 \<le> max 0 (deadline - clock s - rl_poll_seconds L)" "clock s4 \<le> deadline + 3 * e"
proof -
  note fair = fair_clockD [OF assms(1)]
  obtain r L' files where p: "lease_poll (le_call E s, payload) L (lo_files s) = (r, L', files)" by (metis prod_cases3)
  note pa = lease_poll_acquired [OF p]
  define s1 where "s1 = s\<lparr>lo_files := files\<rparr>"
  have c1: "clock s1 = clock s" by (simp add: fair(3) s1_def)
  obtain t s2 where t: "le_monotonic E s1 = (t, s2)" by fastforce
  obtain t2 s3 where t2: "le_monotonic E s2 = (t2, s3)" by fastforce
  note c = fair(1) [OF t] fair(1) [OF t2]
  have e: "0 \<le> e" using c by linarith
  show thesis
  proof (cases "r = Held")
    case False
    have "acquire_loop E payload deadline L s = Some (case r of Acquired \<Rightarrow> Inr () | OsFailed m \<Rightarrow>
        Inl (RunLeaseError (''unable to acquire upgrade run lease: '' @ m)) | Held \<Rightarrow> Inr (), L', s1)"
      using p False by (cases r) (simp_all add: acquire_loop.simps [of E payload deadline L s] Let_def flip: s1_def)
    then show thesis by (rule ends) (use pa False c1 assms(3) e in \<open>auto simp: s1_def split: poll_result.splits\<close>)
  next
    case True
    have L': "L' = L" using pa(2) True by simp
    show thesis
    proof (cases "t \<ge> deadline")
      case True
      have "acquire_loop E payload deadline L s = Some (Inl (RunLeaseError (''upgrade run lease already held: '' @ rl_path L)), L, s2)"
        using p t \<open>r = Held\<close> L' True by (simp add: acquire_loop.simps [of E payload deadline L s] Let_def flip: s1_def)
      then show thesis by (rule ends) (use c c1 assms(3) in simp_all)
    next
      case False
      define d where "d = min (rl_poll_seconds L) (max 0 (deadline - t2))"
      have d: "0 \<le> d" "d \<le> max 0 (deadline - t2)" using assms(2) by (simp_all add: d_def)
      note z = fair(2) [OF d(1), of s3]
      have eq: "acquire_loop E payload deadline L s = acquire_loop E payload deadline L (le_sleep E d s3)"
        using p t t2 \<open>r = Held\<close> L' False by (simp add: acquire_loop.simps [of E payload deadline L s] Let_def d_def flip: s1_def)
      have "clock (le_sleep E d s3) \<le> deadline + 3 * e" using z d(2) c c1 e False by (simp add: max_def split: if_splits)
      moreover have "deadline - clock (le_sleep E d s3) \<le> max 0 (deadline - clock s - rl_poll_seconds L)"
        using z c c1 unfolding d_def by (simp add: min_def max_def split: if_splits)
      ultimately show thesis by (intro sleeps [OF eq]) (use c c1 False in simp_all)
    qed
  qed
qed

lemma acquire_loop_returns:
  assumes "fair_clock e E clock" "0 < rl_poll_seconds L" "clock s \<le> deadline + 3 * e" "deadline - clock s \<le> real n * rl_poll_seconds L"
  shows "\<exists>r L' s'. acquire_loop E payload deadline L s = Some (r, L', s') \<and> (r \<noteq> Inr () \<longrightarrow> L' = L) \<and>
    (r = Inr () \<longrightarrow> rl_acquired L' \<and> lo_files s' (rl_path L) = Content payload) \<and> clock s' \<le> deadline + 4 * e"
  using assms(3,4)
proof (induction n arbitrary: s rule: less_induct)
  case (less n)
  from assms(1,2) less.prems(1) show ?case
  proof (cases rule: acquire_loop_round [where payload = payload])
    case (sleeps s4)
    have "0 < real n * rl_poll_seconds L" using sleeps(2) less.prems(2) by linarith
    then have n: "0 < n" by (cases n) simp_all
    then have "real (n - 1) * rl_poll_seconds L = real n * rl_poll_seconds L - rl_poll_seconds L" "0 \<le> real (n - 1) * rl_poll_seconds L"
      using assms(2) by (simp_all add: of_nat_diff left_diff_distrib)
    then have "deadline - clock s4 \<le> real (n - 1) * rl_poll_seconds L" using sleeps(3) less.prems(2) by linarith
    from less.IH [OF _ sleeps(4) this] n show ?thesis unfolding sleeps(1) by simp
  qed blast
qed

text \<open>
  C29: Taking the file lease always returns, and in time, whatever other processes do to the files: where no call takes longer than
  \<open>e\<close> beyond the sleep it asks for, \<open>acquire\<close> ends at the latest five such calls after its \<open>wait_seconds\<close>, either with the lease
  taken and its own token in the file, or with an error and the lease not taken.
\<close>
theorem file_lease_acquire_returns:
  assumes "file_lease_new path wait_seconds poll_seconds token = Inr L"
    and "\<forall>s t s'. le_monotonic E s = (t, s') \<longrightarrow> clock s \<le> t \<and> t \<le> clock s' \<and> clock s' \<le> clock s + e"
    and "\<forall>d s. 0 \<le> d \<longrightarrow> clock s + d \<le> clock (le_sleep E d s) \<and> clock (le_sleep E d s) \<le> clock s + d + e"
    and "\<forall>s files. clock (s\<lparr>lo_files := files\<rparr>) = clock s"
    and "\<forall>s m s'. le_mkdir E s = (m, s') \<longrightarrow> clock s' \<le> clock s + e"
  shows "\<exists>r L' s'. lease_acquire E L s = Some (r, L', s') \<and> (r \<noteq> Inr () \<longrightarrow> L' = L) \<and>
    (r = Inr () \<longrightarrow> rl_acquired L' \<and> file_owner (lo_files s' (rl_path L)) = Some (rl_token L)) \<and>
    clock s' \<le> clock s + wait_seconds + 5 * e"
proof -
  have L: "rl_wait_seconds L = wait_seconds" "rl_poll_seconds L = poll_seconds" "0 \<le> wait_seconds" "0 < poll_seconds"
    using assms(1) by (auto simp: file_lease_new_def split: if_splits)
  have fair: "fair_clock e E clock" using assms(2-5) by (simp add: fair_clock_def)
  obtain t s1 where t: "le_monotonic E s = (t, s1)" by fastforce
  obtain m s2 where m: "le_mkdir E s1 = (m, s2)" by fastforce
  note c = fair_clockD(1) [OF fair t] fair_clockD(4) [OF fair m]
  have e: "0 \<le> e" using c by linarith
  show ?thesis
  proof (cases m)
    case (Some err)
    then show ?thesis using t m c e L(3) by (simp add: lease_acquire_def)
  next
    case None
    let ?deadline = "t + rl_wait_seconds L" and ?payload = "lease_payload (le_pid E) (le_host E) (le_time E s2) (rl_token L)"
    obtain n where "(?deadline - clock s2) / rl_poll_seconds L \<le> real n" using real_arch_simple by blast
    then have n: "?deadline - clock s2 \<le> real n * rl_poll_seconds L" using L(2,4) by (simp add: pos_divide_le_eq)
    have near: "clock s2 \<le> ?deadline + 3 * e" using c e L(1,3) by linarith
    have poll: "0 < rl_poll_seconds L" using L(2,4) by simp
    from acquire_loop_returns [OF fair poll near n, of ?payload] obtain r L' s' where r:
      "acquire_loop E ?payload ?deadline L s2 = Some (r, L', s')" "r \<noteq> Inr () \<longrightarrow> L' = L"
      "r = Inr () \<longrightarrow> rl_acquired L' \<and> lo_files s' (rl_path L) = Content ?payload" "clock s' \<le> ?deadline + 4 * e" by blast
    have "clock s' \<le> clock s + wait_seconds + 5 * e" using r(4) c L(1) by linarith
    then show ?thesis using r(1-3) t m None by (auto simp: lease_acquire_def)
  qed
qed

text \<open>A world with a clock that others do not touch, where a lease waits for a file that stays.\<close>

definition demo_lease :: "string \<Rightarrow> file_lease" where
  "demo_lease token = \<lparr>rl_path = ''p'', rl_wait_seconds = 1, rl_poll_seconds = 1, rl_token = token, rl_acquired = False\<rparr>"

definition calm_env :: "real lease_env" where
  "calm_env = \<lparr>le_mkdir = (\<lambda>s. (None, s)), le_call = (\<lambda>s. \<lparr>oc_error = None, oc_write_error = None, oc_unlink_ok = True\<rparr>),
     le_monotonic = (\<lambda>s. (lo_env s, s)), le_sleep = (\<lambda>d s. s\<lparr>lo_env := lo_env s + d\<rparr>), le_time = lo_env, le_pid = 1, le_host = ''h''\<rparr>"

theorem file_lease_acquire_returns_witness:
  "\<exists>r L' s'. lease_acquire calm_env (demo_lease ''a'') \<lparr>lo_files = (\<lambda>p. NotJson []), lo_env = 0\<rparr> = Some (r, L', s') \<and>
     (r = Inr () \<or> L' = demo_lease ''a'') \<and> lo_env s' \<le> 1"
  using file_lease_acquire_returns [of "''p''" 1 1 "''a''" "demo_lease ''a''" calm_env lo_env 0 "\<lparr>lo_files = (\<lambda>p. NotJson []), lo_env = 0\<rparr>"]
  by (auto simp: calm_env_def demo_lease_def file_lease_new_def)

text \<open>
  C10: At most one runner holds the lease file of a path: from a state in which no lease object is
  acquired, whatever polls and releases the objects of that path make in any order, with any system call failing, all holders
  are one, and the file carries its token. A poll is excluded only if another holder has the same token.
\<close>
theorem file_lease_is_exclusive:
  assumes "file_lease.lease_step\<^sup>*\<^sup>* (hs, files) (hs', files')"
    and "\<forall>p. rl_path (hs p) = path \<and> \<not> rl_acquired (hs p)" and "rl_acquired (hs' p)"
  shows "file_owner (files' path) = Some (rl_token (hs' p)) \<and> (\<forall>q. q \<noteq> p \<longrightarrow> \<not> rl_acquired (hs' q))"
proof -
  have g: "file_grip (hs' q) = None \<longleftrightarrow> \<not> rl_acquired (hs' q)" for q by (simp add: file_grip_def)
  have i: "rl_path (hs q) = path" "file_grip (hs q) = None" for q using assms(2) by (simp_all add: file_grip_def)
  have p: "file_grip (hs' p) \<noteq> None" using assms(3) g by simp
  from file_lease.at_most_one_holder [OF assms(1) i p] show ?thesis using assms(3) g by (simp add: file_grip_def)
qed

definition demo_leases :: "nat \<Rightarrow> file_lease" where
  "demo_leases p = demo_lease (if p = 0 then ''a'' else ''b'')"

definition leased_files :: lease_files where
  "leased_files = (\<lambda>p. NoFile)(''p'' := Content (lease_payload 1 ''h'' 0 ''a''))"

lemma demo_lease_step:
  "file_lease.lease_step (demo_leases, \<lambda>p. NoFile) (demo_leases(0 := (demo_leases 0)\<lparr>rl_acquired := True\<rparr>), leased_files)"
proof (rule file_lease.attempt_step [where x = "(\<lparr>oc_error = None, oc_write_error = None, oc_unlink_ok = True\<rparr>, lease_payload 1 ''h'' 0 ''a'')"])
  show "\<exists>pid host t. snd (\<lparr>oc_error = None, oc_write_error = None, oc_unlink_ok = True\<rparr>, lease_payload 1 ''h'' 0 ''a'') =
      lease_payload pid host t (rl_token (demo_leases 0))"
    by (intro exI [of _ 1] exI [of _ "''h''"] exI [of _ 0]) (simp add: demo_leases_def demo_lease_def)
qed (simp_all add: file_grip_def demo_leases_def demo_lease_def lease_poll_def leased_files_def)

theorem file_lease_is_exclusive_witness:
  "file_lease.lease_step (demo_leases, \<lambda>p. NoFile) (demo_leases(0 := (demo_leases 0)\<lparr>rl_acquired := True\<rparr>), leased_files) \<and>
   file_owner (leased_files ''p'') = Some ''a'' \<and>
   \<not> rl_acquired ((demo_leases(0 := (demo_leases 0)\<lparr>rl_acquired := True\<rparr>)) 1)"
  using file_lease_is_exclusive [OF r_into_rtranclp [where r = file_lease.lease_step, OF demo_lease_step], of "''p''" 0] demo_lease_step
  by (simp add: demo_leases_def demo_lease_def)

end
