(* ===== verification/Maintenance.thy ===== *)
theory Maintenance
  imports PipelineJson ControlPlane RunLease
begin

text \<open>
  Recurring maintenance: signals become recommendations (\<open>src/zcoder/services/maintenance_intelligence.py\<close>,
  \<open>domain/models/intelligence.py\<close>), a campaign runs them through the pipeline (\<open>maintenance_campaign.py\<close>, events of
  \<open>maintenance_observability.py\<close>), a worker puts the summary in the outbox of the control plane
  (\<open>maintenance_campaign_worker.py\<close>), a handler delivers it (\<open>maintenance_campaign_delivery.py\<close>), and a scheduler repeats
  this under a lease (\<open>maintenance_scheduler.py\<close>). The command lines and the reading of signal files are not modelled.
\<close>

subsection \<open>Signals and recommendations\<close>

record maintenance_signal =
  ms_id :: string
  ms_repository :: string
  ms_type :: string
  ms_severity :: string
  ms_source :: string
  ms_evidence :: jobj
  ms_detected_at :: real

record recommendation =
  mr_id :: string
  mr_repository :: string
  mr_type :: string
  mr_priority :: int
  mr_risk :: string
  mr_reason :: string
  mr_evidence :: "maintenance_signal list"
  mr_status :: string

definition add_signal :: "maintenance_signal \<Rightarrow> maintenance_signal list \<Rightarrow> maintenance_signal list" where
  "add_signal s signals = signals @ [s]"

text \<open>The fresh identifiers are drawn from \<open>hexes\<close>, one per recommendation.\<close>

fun generate_recommendations :: "(json \<Rightarrow> string) \<Rightarrow> maintenance_signal list \<Rightarrow> (nat \<Rightarrow> string) \<Rightarrow> recommendation list" where
  "generate_recommendations strf [] hexes = []"
| "generate_recommendations strf (s # signals) hexes =
     (if ms_type s = ''CI_FAILURE''
      then \<lparr>mr_id = ''rec_'' @ hexes 0, mr_repository = ms_repository s, mr_type = ''REPAIR_CI'', mr_priority = 2, mr_risk = ''medium'',
          mr_reason = ''CI failure detected in source: '' @ ms_source s, mr_evidence = [s], mr_status = ''NEW''\<rparr> #
        generate_recommendations strf signals (\<lambda>i. hexes (Suc i))
      else if ms_type s = ''DEPENDENCY_OUTDATED''
      then \<lparr>mr_id = ''rec_'' @ hexes 0, mr_repository = ms_repository s, mr_type = ''PATCH_DEPENDENCY'', mr_priority = 1, mr_risk = ''low'',
          mr_reason = ''Dependency outdated: '' @ py_str strf (dict_get (ms_evidence s) ''package'' JNull), mr_evidence = [s],
          mr_status = ''NEW''\<rparr> #
        generate_recommendations strf signals (\<lambda>i. hexes (Suc i))
      else generate_recommendations strf signals hexes)"

text \<open>
  The work item of a recommendation: the identifier of the recommendation stays out, so that the content decides. Of the two
  items that are made, each draws an item id.
\<close>

definition maintenance_campaign_work :: "(json \<Rightarrow> string) \<Rightarrow> recommendation \<Rightarrow> string \<Rightarrow> string \<Rightarrow> string + work_item" where
  "maintenance_campaign_work digest r hex hex2 =
     (case work_from_maintenance_recommendation (mr_type r) (mr_reason r) (mr_id r) (mr_repository r) (mr_priority r) (mr_risk r) hex of
        Inl e \<Rightarrow> Inl e
      | Inr base \<Rightarrow>
          (let repository = py_str (\<lambda>j. []) (dict_get (wi_payload base) ''repository'' (JStr []));
               rtype = py_str (\<lambda>j. []) (dict_get (wi_payload base) ''recommendation_type'' (JStr []));
               key = digest (JObj [(''kind'', JStr (wi_kind base)), (''priority'', JInt (wi_priority base)),
                 (''recommendation_type'', JStr rtype), (''repository'', JStr repository), (''risk'', JStr (wi_risk base)),
                 (''title'', JStr (py_strip (wi_title base)))])
           in work_item_new \<lparr>wi_title = wi_title base, wi_kind = wi_kind base,
                wi_payload = [(''repository'', JStr repository), (''recommendation_type'', JStr rtype), (''recommendation_key'', JStr key)],
                wi_priority = wi_priority base, wi_risk = wi_risk base, wi_max_attempts = wi_max_attempts base,
                wi_item_id = ''work_'' @ hex2, wi_state = PENDING, wi_attempts = 0, wi_last_error = []\<rparr>))"

text \<open>\<open>work_by_fingerprint\<close>: the first item of each content, in order.\<close>

fun campaign_works ::
  "(json \<Rightarrow> string) \<Rightarrow> recommendation list \<Rightarrow> (nat \<Rightarrow> string) \<Rightarrow> (string \<times> work_item) list \<Rightarrow> string + (string \<times> work_item) list" where
  "campaign_works digest [] hexes works = Inr works"
| "campaign_works digest (r # rs) hexes works =
     (case maintenance_campaign_work digest r (hexes 0) (hexes 1) of
        Inl e \<Rightarrow> Inl e
      | Inr it \<Rightarrow> campaign_works digest rs (\<lambda>i. hexes (i + 2)) (dict_setdefault works (fingerprint digest it) it))"

subsection \<open>The campaign\<close>

record campaign_event =
  ce_event_type :: string
  ce_campaign_id :: string
  ce_timestamp :: real
  ce_state :: string
  ce_recommendations_discovered :: nat
  ce_work_seeded :: nat
  ce_iterations :: nat
  ce_completed_count :: nat
  ce_blocked_count :: nat
  ce_pending_count :: nat
  ce_halt_reason :: string
  ce_duration_seconds :: real
  ce_observer_error_count :: nat

record campaign_report =
  cr_campaign_id :: string
  cr_state :: loop_state
  cr_recommendations_discovered :: nat
  cr_work_seeded :: nat
  cr_iterations :: nat
  cr_completed_count :: nat
  cr_blocked_count :: nat
  cr_pending_count :: nat
  cr_halt_reason :: string
  cr_terminal_ledger_counts :: "nat \<times> nat"
  cr_observer_error_count :: nat
  cr_started_at :: real
  cr_finished_at :: real

definition duration_seconds :: "campaign_report \<Rightarrow> real" where
  "duration_seconds r = max 0 (cr_finished_at r - cr_started_at r)"

definition campaign_report_json :: "campaign_report \<Rightarrow> json" where
  "campaign_report_json r = JObj [(''campaign_id'', JStr (cr_campaign_id r)), (''state'', JStr (loop_state_value (cr_state r))),
     (''recommendations_discovered'', JInt (int (cr_recommendations_discovered r))), (''work_seeded'', JInt (int (cr_work_seeded r))),
     (''iterations'', JInt (int (cr_iterations r))), (''completed_count'', JInt (int (cr_completed_count r))),
     (''blocked_count'', JInt (int (cr_blocked_count r))), (''pending_count'', JInt (int (cr_pending_count r))),
     (''halt_reason'', JStr (cr_halt_reason r)),
     (''terminal_ledger_counts'', JObj [(''SUCCEEDED'', JInt (int (fst (cr_terminal_ledger_counts r)))),
        (''BLOCKED'', JInt (int (snd (cr_terminal_ledger_counts r))))]),
     (''observer_error_count'', JInt (int (cr_observer_error_count r))), (''started_at'', JFloat (cr_started_at r)),
     (''finished_at'', JFloat (cr_finished_at r)), (''duration_seconds'', JFloat (duration_seconds r))]"

record ('s, 'e) campaign =
  cs_pipeline :: "('s, 'e) pipeline"
  cs_terminal_counts :: "'s \<Rightarrow> ledger_error + nat \<times> nat"
  cs_event_sink :: "(campaign_event \<Rightarrow> 'e \<Rightarrow> py_exc option \<times> 'e) option"

text \<open>An observer that raises is counted and otherwise ignored.\<close>

definition campaign_emit :: "('s, 'e) campaign \<Rightarrow> campaign_event \<Rightarrow> nat \<Rightarrow> ('s, 'e) pipe \<Rightarrow> nat \<times> ('s, 'e) pipe" where
  "campaign_emit C ev errors w =
     (case cs_event_sink C of
        None \<Rightarrow> (errors, w)
      | Some emit \<Rightarrow> (case emit ev (pw_exec w) of (x, e) \<Rightarrow> (if x = None then errors else errors + 1, w\<lparr>pw_exec := e\<rparr>)))"

definition plain_event :: "string \<Rightarrow> string \<Rightarrow> real \<Rightarrow> campaign_event" where
  "plain_event ty cid t = \<lparr>ce_event_type = ty, ce_campaign_id = cid, ce_timestamp = t, ce_state = [], ce_recommendations_discovered = 0,
     ce_work_seeded = 0, ce_iterations = 0, ce_completed_count = 0, ce_blocked_count = 0, ce_pending_count = 0, ce_halt_reason = [],
     ce_duration_seconds = 0, ce_observer_error_count = 0\<rparr>"

definition campaign_clock :: "('s, 'e) campaign \<Rightarrow> ('s, 'e) pipe \<Rightarrow> real" where
  "campaign_clock C w = pi_clock (cs_pipeline C) (pw_exec w)"

definition campaign_run ::
  "('s, 'e) campaign \<Rightarrow> recommendation list \<Rightarrow> string \<Rightarrow> (nat \<Rightarrow> string) \<Rightarrow> nat \<Rightarrow> ('s, 'e) pipe
     \<Rightarrow> (py_exc + campaign_report) \<times> nat \<times> ('s, 'e) pipe" where
  "campaign_run C recommendations hex hexes errors w =
     (let started_at = campaign_clock C w; campaign_id = ''maintenance-'' @ hex in
      case campaign_emit C (plain_event ''campaign.started'' campaign_id started_at) errors w of
        (errors1, w1) \<Rightarrow>
          (case campaign_works (pi_digest (cs_pipeline C)) recommendations hexes [] of
             Inl m \<Rightarrow> (Inl (''ValueError'', m), errors1, w1)
           | Inr works \<Rightarrow>
               (case campaign_emit C ((plain_event ''campaign.recommendations_discovered'' campaign_id (campaign_clock C w1))
                      \<lparr>ce_recommendations_discovered := length recommendations, ce_work_seeded := length works,
                       ce_observer_error_count := errors1\<rparr>) errors1 w1 of
                  (errors2, w2) \<Rightarrow>
                    (case pl_run (cs_pipeline C) (dict_values works) w2 of
                       (Inl x, w3) \<Rightarrow> (Inl x, errors2, w3)
                     | (Inr report, w3) \<Rightarrow>
                         (case cs_terminal_counts C (pw_ledger w3) of
                            Inl e \<Rightarrow> (Inl (ledger_exc e), errors2, w3)
                          | Inr counts \<Rightarrow>
                              (let r = \<lparr>cr_campaign_id = campaign_id, cr_state = lr_state report,
                                   cr_recommendations_discovered = length recommendations, cr_work_seeded = length works,
                                   cr_iterations = lr_iterations report, cr_completed_count = length (lr_completed_item_ids report),
                                   cr_blocked_count = length (lr_blocked_item_ids report),
                                   cr_pending_count = length (lr_pending_item_ids report), cr_halt_reason = lr_halt_reason report,
                                   cr_terminal_ledger_counts = counts, cr_observer_error_count = errors2,
                                   cr_started_at = started_at, cr_finished_at = campaign_clock C w3\<rparr>
                               in case campaign_emit C \<lparr>ce_event_type = (if lr_state report = LoopCompleted then ''campaign.completed'' else ''campaign.halted''),
                                       ce_campaign_id = campaign_id, ce_timestamp = cr_finished_at r, ce_state = loop_state_value (cr_state r),
                                       ce_recommendations_discovered = cr_recommendations_discovered r, ce_work_seeded = cr_work_seeded r,
                                       ce_iterations = cr_iterations r, ce_completed_count = cr_completed_count r,
                                       ce_blocked_count = cr_blocked_count r, ce_pending_count = cr_pending_count r,
                                       ce_halt_reason = cr_halt_reason r, ce_duration_seconds = duration_seconds r,
                                       ce_observer_error_count = errors2\<rparr> errors2 w3 of
                                    (errors3, w4) \<Rightarrow> (Inr (r\<lparr>cr_observer_error_count := errors3\<rparr>), errors3, w4)))))))"

record campaign_result =
  rr_report :: campaign_report
  rr_exit_code :: int

definition run_maintenance_campaign_once ::
  "('s, 'e) campaign \<Rightarrow> recommendation list \<Rightarrow> string \<Rightarrow> (nat \<Rightarrow> string) \<Rightarrow> ('s, 'e) pipe \<Rightarrow> (py_exc + campaign_result) \<times> ('s, 'e) pipe" where
  "run_maintenance_campaign_once C recommendations hex hexes w =
     (case campaign_run C recommendations hex hexes 0 w of
        (r, errors, w1) \<Rightarrow> (map_sum (\<lambda>x. x) (\<lambda>rep. \<lparr>rr_report = rep, rr_exit_code = (if cr_state rep = LoopCompleted then 0 else 2)\<rparr>) r, w1))"

subsection \<open>The summary in the outbox\<close>

definition SUMMARY_ACTION :: string where "SUMMARY_ACTION = ''maintenance.campaign.summary''"

definition SUMMARY_SCHEMA_VERSION :: int where "SUMMARY_SCHEMA_VERSION = 1"

definition summary_payload :: "campaign_result \<Rightarrow> jobj" where
  "summary_payload r = [(''schema_version'', JInt SUMMARY_SCHEMA_VERSION),
     (''idempotency_key'', JStr (''maintenance-campaign:'' @ cr_campaign_id (rr_report r))),
     (''exit_code'', JInt (rr_exit_code r)), (''report'', campaign_report_json (rr_report r))]"

definition enqueue_summary ::
  "string \<Rightarrow> real \<Rightarrow> campaign_result \<Rightarrow> control_plane \<Rightarrow> (db_error + string) \<times> control_plane" where
  "enqueue_summary hex now r db =
     (case enqueue_outbox hex now SUMMARY_ACTION (summary_payload r) db of (x, db') \<Rightarrow> (map_sum (\<lambda>e. e) om_id x, db'))"

datatype dispatch_error = CampaignFailed py_exc | EnqueueFailed db_error

definition run_campaign_worker_once ::
  "('s, 'e) campaign \<Rightarrow> recommendation list \<Rightarrow> string \<Rightarrow> (nat \<Rightarrow> string) \<Rightarrow> string \<Rightarrow> ('s, 'e) pipe \<Rightarrow> control_plane
     \<Rightarrow> (dispatch_error + campaign_result \<times> string) \<times> ('s, 'e) pipe \<times> control_plane" where
  "run_campaign_worker_once C recommendations hex hexes out_hex w db =
     (case run_maintenance_campaign_once C recommendations hex hexes w of
        (Inl x, w1) \<Rightarrow> (Inl (CampaignFailed x), w1, db)
      | (Inr r, w1) \<Rightarrow>
          (case enqueue_summary out_hex (campaign_clock C w1) r db of
             (Inl e, db1) \<Rightarrow> (Inl (EnqueueFailed e), w1, db1)
           | (Inr i, db1) \<Rightarrow> (Inr (r, i), w1, db1)))"

text \<open>
  The checks of the delivery. A version equals 1 as an integer, a float or \<open>True\<close>; an exit code must be an integer and no
  boolean, which are different constructors here.
\<close>

definition validated_summary_payload :: "string \<Rightarrow> jobj \<Rightarrow> string + string \<times> jobj" where
  "validated_summary_payload action payload =
     (if action \<noteq> SUMMARY_ACTION then Inl (''unsupported outbox action: '' @ action)
      else if dict_get payload ''schema_version'' JNull \<notin> {JInt SUMMARY_SCHEMA_VERSION, JFloat 1, JBool True}
      then Inl ''unsupported maintenance campaign summary schema''
      else (case dict_get payload ''idempotency_key'' JNull of
          JStr key \<Rightarrow>
            if \<not> py_startswith key ''maintenance-campaign:'' then Inl ''invalid maintenance campaign idempotency key''
            else (case dict_get payload ''report'' JNull of
                JObj report \<Rightarrow>
                  if (case dict_get report ''campaign_id'' JNull of JStr cid \<Rightarrow> key \<noteq> ''maintenance-campaign:'' @ cid | _ \<Rightarrow> True)
                  then Inl ''maintenance campaign summary identity mismatch''
                  else (case dict_get payload ''exit_code'' JNull of
                      JInt n \<Rightarrow> Inr (key, payload)
                    | _ \<Rightarrow> Inl ''maintenance campaign exit_code must be an integer'')
              | _ \<Rightarrow> Inl ''maintenance campaign summary report must be an object'')
        | _ \<Rightarrow> Inl ''invalid maintenance campaign idempotency key''))"

text \<open>As a handler of the outbox: an error is its text.\<close>

definition deliver_summary_once :: "(string \<Rightarrow> jobj \<Rightarrow> 'w \<Rightarrow> string option \<times> 'w) \<Rightarrow> 'w outbox_handler" where
  "deliver_summary_once sink action payload w =
     (case validated_summary_payload action payload of
        Inl e \<Rightarrow> (Some e, w)
      | Inr (key, p) \<Rightarrow> sink key p w)"

subsection \<open>The scheduler\<close>

text \<open>Its collaborators act on a world \<open>'w\<close>, in which leases are handles \<open>'h\<close>; \<open>stop\<close> is the stop event, if there is one.\<close>

record ('w, 'h) scheduler =
  sc_lease_factory :: "'w \<Rightarrow> (py_exc + 'h) \<times> 'w"
  sc_acquire :: "'h \<Rightarrow> 'w \<Rightarrow> py_exc option \<times> 'w"
  sc_release :: "'h \<Rightarrow> 'w \<Rightarrow> py_exc option \<times> 'w"
  sc_campaign_runner :: "'w \<Rightarrow> (py_exc + bool) \<times> 'w"
  sc_outbox_processor :: "int \<Rightarrow> int \<Rightarrow> 'w \<Rightarrow> (py_exc + int) \<times> 'w"
  sc_every_seconds :: real
  sc_max_cycles :: int
  sc_sleep :: "real \<Rightarrow> 'w \<Rightarrow> 'w"
  sc_stop :: "('w \<Rightarrow> bool) option"
  sc_outbox_max_messages :: int
  sc_outbox_max_attempts :: int

definition scheduler_new :: "('w, 'h) scheduler \<Rightarrow> string + ('w, 'h) scheduler" where
  "scheduler_new S =
     (if sc_max_cycles S < 1 then Inl ''max_cycles must be >= 1''
      else if sc_every_seconds S < 0 then Inl ''every_seconds must be >= 0''
      else if sc_outbox_max_messages S < 1 then Inl ''outbox_max_messages must be >= 1''
      else if sc_outbox_max_attempts S < 1 then Inl ''outbox_max_attempts must be >= 1''
      else Inr S)"

record cycle_result =
  cy_cycle_index :: nat
  cy_lease_acquired :: bool
  cy_campaign_ran :: bool
  cy_outbox_processed :: "int option"
  cy_skipped_reason :: string

definition should_stop :: "('w, 'h) scheduler \<Rightarrow> 'w \<Rightarrow> bool" where
  "should_stop S w = (case sc_stop S of None \<Rightarrow> False | Some f \<Rightarrow> f w)"

definition lease_unavailable :: "py_exc \<Rightarrow> bool" where
  "lease_unavailable x \<longleftrightarrow> fst x \<in> {''UpgradeRunLeaseError'', ''PostgresUpgradeRunLeaseError''}"

text \<open>The body of the \<open>try\<close>: the campaign, then one drain. Of the campaign's result only whether it is \<open>None\<close> is looked at.\<close>

definition cycle_body :: "('w, 'h) scheduler \<Rightarrow> nat \<Rightarrow> 'w \<Rightarrow> cycle_result \<times> 'w" where
  "cycle_body S i w =
     (case sc_campaign_runner S w of
        (Inl x, w1) \<Rightarrow> (\<lparr>cy_cycle_index = i, cy_lease_acquired = True, cy_campaign_ran = False, cy_outbox_processed = None,
            cy_skipped_reason = ''cycle-failed''\<rparr>, w1)
      | (Inr is_result, w1) \<Rightarrow>
          (case sc_outbox_processor S (sc_outbox_max_messages S) (sc_outbox_max_attempts S) w1 of
             (Inl x, w2) \<Rightarrow> (\<lparr>cy_cycle_index = i, cy_lease_acquired = True, cy_campaign_ran = is_result, cy_outbox_processed = None,
                 cy_skipped_reason = ''cycle-failed''\<rparr>, w2)
           | (Inr n, w2) \<Rightarrow> (\<lparr>cy_cycle_index = i, cy_lease_acquired = True, cy_campaign_ran = True, cy_outbox_processed = Some n,
                 cy_skipped_reason = []\<rparr>, w2)))"

definition run_cycle :: "('w, 'h) scheduler \<Rightarrow> nat \<Rightarrow> 'w \<Rightarrow> (py_exc + cycle_result) \<times> 'w" where
  "run_cycle S i w =
     (case sc_lease_factory S w of
        (Inl x, w1) \<Rightarrow> (Inl x, w1)
      | (Inr h, w1) \<Rightarrow>
          (case sc_acquire S h w1 of
             (Some x, w2) \<Rightarrow>
               (if lease_unavailable x
                then (Inr \<lparr>cy_cycle_index = i, cy_lease_acquired = False, cy_campaign_ran = False, cy_outbox_processed = None,
                    cy_skipped_reason = ''lease-unavailable''\<rparr>, w2)
                else (Inl x, w2))
           | (None, w2) \<Rightarrow>
               (case cycle_body S i w2 of
                  (r, w3) \<Rightarrow>
                    (case sc_release S h w3 of
                       (Some x, w4) \<Rightarrow> (if lease_unavailable x then Inr r else Inl x, w4)
                     | (None, w4) \<Rightarrow> (Inr r, w4)))))"

definition sleep_interval :: "('w, 'h) scheduler \<Rightarrow> 'w \<Rightarrow> 'w" where
  "sleep_interval S w = (if sc_every_seconds S \<le> 0 \<or> should_stop S w then w else sc_sleep S (sc_every_seconds S) w)"

fun scheduler_cycles :: "('w, 'h) scheduler \<Rightarrow> nat list \<Rightarrow> 'w \<Rightarrow> (py_exc + cycle_result list) \<times> 'w" where
  "scheduler_cycles S [] w = (Inr [], w)"
| "scheduler_cycles S (i # is) w =
     (if should_stop S w then (Inr [], w)
      else (case run_cycle S i w of
          (Inl x, w1) \<Rightarrow> (Inl x, w1)
        | (Inr r, w1) \<Rightarrow>
            (case scheduler_cycles S is (if int (i + 1) < sc_max_cycles S then sleep_interval S w1 else w1) of
               (rs, w2) \<Rightarrow> (map_sum (\<lambda>x. x) (\<lambda>rs. r # rs) rs, w2))))"

definition scheduler_run :: "('w, 'h) scheduler \<Rightarrow> 'w \<Rightarrow> (py_exc + cycle_result list) \<times> 'w" where
  "scheduler_run S w = scheduler_cycles S [0..<nat (sc_max_cycles S)] w"

subsection \<open>Campaigns run under the lease\<close>

text \<open>
  What the scheduler relies on: taking the lease of a fresh handle establishes \<open>held\<close>, giving it back ends it, and campaign and
  drain leave it to the scheduler. \<open>free\<close> is a world in which the scheduler holds nothing.
\<close>

definition lease_discipline :: "('w, 'h) scheduler \<Rightarrow> ('w \<Rightarrow> bool) \<Rightarrow> ('w \<Rightarrow> bool) \<Rightarrow> bool" where
  "lease_discipline S held free \<longleftrightarrow>
     (\<forall>w w1 h w2. free w \<longrightarrow> sc_lease_factory S w = (Inr h, w1) \<longrightarrow> sc_acquire S h w1 = (None, w2) \<longrightarrow> held w2) \<and>
     (\<forall>w w1 h w2 x. free w \<longrightarrow> sc_lease_factory S w = (Inr h, w1) \<longrightarrow> sc_acquire S h w1 = (Some x, w2) \<longrightarrow> free w2) \<and>
     (\<forall>w w1 x. free w \<longrightarrow> sc_lease_factory S w = (Inl x, w1) \<longrightarrow> free w1) \<and>
     (\<forall>w. held w \<longrightarrow> held (snd (sc_campaign_runner S w))) \<and>
     (\<forall>w a b. held w \<longrightarrow> held (snd (sc_outbox_processor S a b w))) \<and>
     (\<forall>h w. held w \<longrightarrow> free (snd (sc_release S h w))) \<and> (\<forall>w d. free w \<longrightarrow> free (sc_sleep S d w))"

lemma cycle_body_held: "lease_discipline S held free \<Longrightarrow> held w \<Longrightarrow> held (snd (cycle_body S i w))"
proof -
  assume a: "lease_discipline S held free" and w: "held w"
  obtain x w1 where x: "sc_campaign_runner S w = (x, w1)" by fastforce
  obtain y w2 where y: "sc_outbox_processor S (sc_outbox_max_messages S) (sc_outbox_max_attempts S) w1 = (y, w2)" by fastforce
  have h1: "held w1" using a w x unfolding lease_discipline_def by (metis snd_conv)
  then have "held w2" using a y unfolding lease_discipline_def by (metis snd_conv)
  then show ?thesis using x y h1 by (cases x; cases y) (simp_all add: cycle_body_def)
qed

text \<open>The campaign runner and the outbox processor, replaced by others where the lease is not held.\<close>

definition only_when_held :: "('w, 'h) scheduler \<Rightarrow> ('w \<Rightarrow> bool) \<Rightarrow> ('w, 'h) scheduler \<Rightarrow> bool" where
  "only_when_held S held S' \<longleftrightarrow> (\<exists>campaign outbox. S' = S\<lparr>sc_campaign_runner := campaign, sc_outbox_processor := outbox\<rparr> \<and>
     (\<forall>w. held w \<longrightarrow> campaign w = sc_campaign_runner S w \<and> (\<forall>a b. outbox a b w = sc_outbox_processor S a b w)))"

lemma cycle_body_same:
  assumes "lease_discipline S held free" "only_when_held S held S'" "held w"
  shows "cycle_body S' i w = cycle_body S i w"
proof -
  obtain campaign outbox where S': "S' = S\<lparr>sc_campaign_runner := campaign, sc_outbox_processor := outbox\<rparr>"
    and c: "\<And>w. held w \<Longrightarrow> campaign w = sc_campaign_runner S w" and b: "\<And>w n m. held w \<Longrightarrow> outbox n m w = sc_outbox_processor S n m w"
    using assms(2) unfolding only_when_held_def by blast
  obtain x w1 where x: "sc_campaign_runner S w = (x, w1)" by fastforce
  have "held w1" using assms(1,3) x unfolding lease_discipline_def by (metis snd_conv)
  then show ?thesis using c [OF assms(3)] b [of w1] x by (simp add: cycle_body_def S' split: sum.splits)
qed

lemma run_cycle_free:
  assumes "lease_discipline S held free" "free w"
  shows "free (snd (run_cycle S i w)) \<and> (only_when_held S held S' \<longrightarrow> run_cycle S' i w = run_cycle S i w)"
proof -
  have S': "sc_lease_factory S' = sc_lease_factory S \<and> sc_acquire S' = sc_acquire S \<and> sc_release S' = sc_release S"
    if "only_when_held S held S'" using that by (auto simp: only_when_held_def)
  obtain hx w1 where f: "sc_lease_factory S w = (hx, w1)" by fastforce
  show ?thesis
  proof (cases hx)
    case (Inl x)
    then have "free w1" using assms f unfolding lease_discipline_def by blast
    then show ?thesis using f Inl S' by (simp add: run_cycle_def)
  next
    case (Inr h)
    obtain x w2 where a: "sc_acquire S h w1 = (x, w2)" by fastforce
    show ?thesis
    proof (cases x)
      case (Some e)
      then have "free w2" using assms f Inr a unfolding lease_discipline_def by blast
      then show ?thesis using f Inr a Some S' by (simp add: run_cycle_def)
    next
      case None
      then have h2: "held w2" using assms f Inr a unfolding lease_discipline_def by blast
      obtain r w3 where b: "cycle_body S i w2 = (r, w3)" by fastforce
      have "held w3" using cycle_body_held [OF assms(1) h2, of i] b by simp
      then have fr: "free (snd (sc_release S h w3))" using assms(1) unfolding lease_discipline_def by blast
      obtain y w4 where rel: "sc_release S h w3 = (y, w4)" by fastforce
      have "run_cycle S i w = (case y of None \<Rightarrow> Inr r | Some x \<Rightarrow> if lease_unavailable x then Inr r else Inl x, w4)"
        using f Inr a None b rel by (simp add: run_cycle_def split: option.split)
      moreover have "run_cycle S' i w = (case y of None \<Rightarrow> Inr r | Some x \<Rightarrow> if lease_unavailable x then Inr r else Inl x, w4)"
        if o: "only_when_held S held S'"
        using f Inr a None b rel S' [OF o] cycle_body_same [OF assms(1) o h2, of i] by (simp add: run_cycle_def split: option.split)
      ultimately show ?thesis using fr rel by simp
    qed
  qed
qed

lemma scheduler_cycles_same:
  assumes "lease_discipline S held free" "only_when_held S held S'"
  shows "free w \<Longrightarrow> free (snd (scheduler_cycles S is w)) \<and> scheduler_cycles S' is w = scheduler_cycles S is w"
proof (induction "is" arbitrary: w)
  case (Cons i "is")
  obtain campaign outbox where "S' = S\<lparr>sc_campaign_runner := campaign, sc_outbox_processor := outbox\<rparr>"
    using assms(2) unfolding only_when_held_def by blast
  then have S': "should_stop S' v = should_stop S v" "sleep_interval S' v = sleep_interval S v" "sc_max_cycles S' = sc_max_cycles S" for v
    by (simp_all add: should_stop_def sleep_interval_def)
  obtain r w1 where r: "run_cycle S i w = (r, w1)" by fastforce
  have f1: "free w1" and same: "run_cycle S' i w = (r, w1)"
    using run_cycle_free [OF assms(1) Cons.prems, of i S'] assms(2) r by simp_all
  have "free (sc_sleep S d v)" if "free v" for d v using assms(1) that unfolding lease_discipline_def by blast
  then have "free (sleep_interval S w1)" using f1 by (simp add: sleep_interval_def)
  then have "free (if int (i + 1) < sc_max_cycles S then sleep_interval S w1 else w1)" using f1 by simp
  note ih = Cons.IH [OF this]
  obtain rs w2 where rs: "scheduler_cycles S is (if int (i + 1) < sc_max_cycles S then sleep_interval S w1 else w1) = (rs, w2)" by fastforce
  show ?case
  proof (cases "should_stop S w")
    case True
    then show ?thesis using Cons.prems by (simp add: S'(1))
  next
    case False
    have 1: "scheduler_cycles S (i # is) w = (case r of Inl x \<Rightarrow> (Inl x, w1) | Inr q \<Rightarrow> (map_sum (\<lambda>x. x) (\<lambda>rs. q # rs) rs, w2))"
      using False r rs by (cases r) (simp_all split del: if_split)
    have 2: "scheduler_cycles S' (i # is) w = (case r of Inl x \<Rightarrow> (Inl x, w1) | Inr q \<Rightarrow> (map_sum (\<lambda>x. x) (\<lambda>rs. q # rs) rs, w2))"
      using False same rs conjunct2 [OF ih] by (cases r) (simp_all add: S' cong: if_cong split del: if_split)
    have "free w2" using ih rs by simp
    then show ?thesis unfolding 1 2 using f1 by (cases r) simp_all
  qed
qed simp

lemma run_cycle_result:
  "run_cycle S i w = (Inr r, w') \<Longrightarrow> cy_cycle_index r = i \<and> (cy_campaign_ran r \<longrightarrow> cy_lease_acquired r) \<and>
     (cy_skipped_reason r = [] \<longleftrightarrow> cy_outbox_processed r \<noteq> None)"
  by (auto simp: run_cycle_def cycle_body_def split: prod.splits sum.splits option.splits if_splits)

lemma scheduler_cycles_results:
  "scheduler_cycles S is w = (Inr rs, w') \<Longrightarrow> prefix (map cy_cycle_index rs) is \<and>
     (\<forall>r \<in> set rs. (cy_campaign_ran r \<longrightarrow> cy_lease_acquired r) \<and> (cy_skipped_reason r = [] \<longleftrightarrow> cy_outbox_processed r \<noteq> None))"
proof (induction "is" arbitrary: w rs w')
  case (Cons i "is")
  show ?case
  proof (cases "should_stop S w")
    case True
    then show ?thesis using Cons.prems by simp
  next
    case False
    obtain x w1 where x: "run_cycle S i w = (x, w1)" by fastforce
    obtain ys w2 where ys: "scheduler_cycles S is (if int (i + 1) < sc_max_cycles S then sleep_interval S w1 else w1) = (ys, w2)"
      by fastforce
    obtain r rs' where r: "x = Inr r" "ys = Inr rs'" "rs = r # rs'"
      using Cons.prems False x ys by (cases x; cases ys) (simp_all split del: if_split)
    show ?thesis using Cons.IH [OF ys [unfolded r(2)]] run_cycle_result [OF x [unfolded r(1)]] r(3) by simp
  qed
qed simp

text \<open>
  C25: The scheduler runs campaigns and drains the outbox only while it holds its lease, is back without it at the end, and is
  bounded: a run is the same whatever the two collaborators would do in worlds where the lease is not held, and a run that
  returns has at most \<open>max_cycles\<close> results, numbered from 0, in which a campaign ran only under the lease.
\<close>
theorem scheduler_works_under_its_lease:
  assumes "lease_discipline S held free" and "free w"
    and "\<forall>w. held w \<longrightarrow> campaign w = sc_campaign_runner S w \<and> (\<forall>a b. outbox a b w = sc_outbox_processor S a b w)"
  shows "scheduler_run (S\<lparr>sc_campaign_runner := campaign, sc_outbox_processor := outbox\<rparr>) w = scheduler_run S w \<and>
    free (snd (scheduler_run S w)) \<and>
    (\<forall>rs. fst (scheduler_run S w) = Inr rs \<longrightarrow> length rs \<le> nat (sc_max_cycles S) \<and> map cy_cycle_index rs = [0..<length rs] \<and>
       (\<forall>r \<in> set rs. cy_campaign_ran r \<longrightarrow> cy_lease_acquired r))"
proof (intro conjI allI impI)
  let ?S = "S\<lparr>sc_campaign_runner := campaign, sc_outbox_processor := outbox\<rparr>"
  have o: "only_when_held S held ?S" using assms(3) unfolding only_when_held_def by blast
  note same = scheduler_cycles_same [OF assms(1) o assms(2)]
  show "scheduler_run ?S w = scheduler_run S w" "free (snd (scheduler_run S w))"
    using same by (simp_all add: scheduler_run_def)
  fix rs assume "fst (scheduler_run S w) = Inr rs"
  then obtain w' where "scheduler_cycles S [0..<nat (sc_max_cycles S)] w = (Inr rs, w')"
    by (cases "scheduler_run S w") (simp add: scheduler_run_def)
  note r = scheduler_cycles_results [OF this]
  then obtain zs where z: "[0..<nat (sc_max_cycles S)] = map cy_cycle_index rs @ zs" unfolding prefix_def by blast
  from arg_cong [OF z, of length] have len: "length rs \<le> nat (sc_max_cycles S)" by simp
  from arg_cong [OF z, of "take (length rs)"] have "map cy_cycle_index rs = take (length rs) [0..<nat (sc_max_cycles S)]" by simp
  then show "map cy_cycle_index rs = [0..<length rs]" using len by simp
  show "length rs \<le> nat (sc_max_cycles S)" by (rule len)
  show "\<forall>r \<in> set rs. cy_campaign_ran r \<longrightarrow> cy_lease_acquired r" using r by blast
qed

text \<open>A scheduler with the lease file, whose campaigns are counted.\<close>

type_synonym demo_world = "file_lease \<times> lease_files \<times> nat"

definition demo_scheduler :: "(demo_world, unit) scheduler" where
  "demo_scheduler = \<lparr>sc_lease_factory = (\<lambda>(L, fs, n). (Inr (), (demo_lease ''a'', fs, n))),
     sc_acquire = (\<lambda>h (L, fs, n). case lease_poll (\<lparr>oc_error = None, oc_write_error = None, oc_unlink_ok = True\<rparr>,
        lease_payload 1 ''h'' 0 (rl_token L)) L fs of (r, L', fs') \<Rightarrow>
        (if r = Acquired then None else Some (''UpgradeRunLeaseError'', []), (L', fs', n))),
     sc_release = (\<lambda>h (L, fs, n). case lease_release (None, None) L fs of (r, L', fs') \<Rightarrow> (None, (L', fs', n))),
     sc_campaign_runner = (\<lambda>(L, fs, n). (Inr True, (L, fs, n + 1))), sc_outbox_processor = (\<lambda>a b w. (Inr 0, w)),
     sc_every_seconds = 0, sc_max_cycles = 2, sc_sleep = (\<lambda>d w. w), sc_stop = None, sc_outbox_max_messages = 1,
     sc_outbox_max_attempts = 1\<rparr>"

definition demo_held :: "demo_world \<Rightarrow> bool" where
  "demo_held w = (case w of (L, fs, n) \<Rightarrow> file_owner (fs ''p'') = Some ''a'')"

lemma poll_takes_file: "lease_poll (c, lease_payload i h t token) L fs = (Acquired, L', fs') \<Longrightarrow> file_owner (fs' (rl_path L)) = Some token"
  using lease_poll_acquired(1) [OF _ refl] by fastforce

lemma demo_discipline: "lease_discipline demo_scheduler demo_held (\<lambda>w. True)"
  by (auto simp: lease_discipline_def demo_scheduler_def demo_held_def demo_lease_def dest!: poll_takes_file split: prod.splits if_splits)

theorem scheduler_works_under_its_lease_witness:
  "scheduler_run (demo_scheduler\<lparr>sc_campaign_runner := (\<lambda>w. if demo_held w then sc_campaign_runner demo_scheduler w
        else (Inl (''RuntimeError'', []), w)), sc_outbox_processor := sc_outbox_processor demo_scheduler\<rparr>)
      (demo_lease ''x'', \<lambda>p. NoFile, 0) = scheduler_run demo_scheduler (demo_lease ''x'', \<lambda>p. NoFile, 0)"
  using scheduler_works_under_its_lease [OF demo_discipline, where w = "(demo_lease ''x'', \<lambda>p. NoFile, 0)" and
      campaign = "\<lambda>w. if demo_held w then sc_campaign_runner demo_scheduler w else (Inl (''RuntimeError'', []), w)" and
      outbox = "sc_outbox_processor demo_scheduler"] by simp

subsection \<open>From campaign to delivery\<close>

lemma deliver_rows_seen:
  assumes "\<And>a p v. seen v \<Longrightarrow> seen (snd (h a p v))"
  shows "deliver_rows h mk clk rs t w = (x, w') \<Longrightarrow> seen w \<Longrightarrow> seen w'"
proof (induction rs arbitrary: t w x w')
  case (Cons r rs)
  obtain e w1 where h: "h (om_action r) (om_payload r) w = (e, w1)" by fastforce
  have s1: "seen w1" using assms [OF Cons.prems(2)] h by (metis snd_conv)
  show ?case
  proof (cases e)
    case None
    obtain y w2 where y: "deliver_rows h mk clk rs (mark_delivered (clk (om_id r)) (om_id r) t) w1 = (y, w2)" by fastforce
    then show ?thesis using Cons.IH [OF y s1] Cons.prems(1) h None by simp
  next
    case (Some m)
    then show ?thesis using Cons.IH [OF _ s1] Cons.prems(1) h s1 by (auto split: sum.splits)
  qed
qed simp

lemma deliver_rows_accepted:
  assumes "\<And>v. fst (h (om_action m) (om_payload m) v) = None \<and> seen (snd (h (om_action m) (om_payload m) v))"
    and "\<And>a p v. seen v \<Longrightarrow> seen (snd (h a p v))"
  shows "outbox_ok k t \<Longrightarrow> 1 \<le> k \<Longrightarrow> set rs \<subseteq> set t \<Longrightarrow> distinct (map om_id rs) \<Longrightarrow> \<forall>r \<in> set rs. om_status r = ''PENDING'' \<Longrightarrow>
    m \<in> set rs \<Longrightarrow> \<exists>n t' w'. deliver_rows h (Some k) clk rs t w = (Inr (n, t'), w') \<and> settle k clk None m \<in> set t' \<and> seen w'"
proof (induction rs arbitrary: t w)
  case (Cons r rs)
  obtain res w1 where hr: "h (om_action r) (om_payload r) w = (res, w1)" by fastforce
  let ?t = "sql_update (\<lambda>m. om_id m = om_id r) (settle k clk res) t"
  have r: "r \<in> set t" "om_status r = ''PENDING''" using Cons.prems by auto
  have ok: "outbox_ok k ?t" by (rule outbox_ok_settle [OF Cons.prems(1) r])
  have mem: "x \<in> set ?t" if "x \<in> set t" "om_id x \<noteq> om_id r" for x using that by (force simp: set_sql_update)
  have d: "distinct (map om_id rs)" and pe: "\<forall>r \<in> set rs. om_status r = ''PENDING''" using Cons.prems by auto
  have sub: "set rs \<subseteq> set ?t"
  proof
    fix x assume "x \<in> set rs"
    with Cons.prems(3,4) have "x \<in> set t" "om_id x \<noteq> om_id r" by (rule other_row)+
    then show "x \<in> set ?t" by (rule mem)
  qed
  have step: "\<exists>n t' w'. deliver_rows h (Some k) clk rs ?t w1 = (Inr (n, t'), w') \<and> settle k clk None m \<in> set t' \<and> seen w'"
  proof (cases "m \<in> set rs")
    case True
    show ?thesis by (rule Cons.IH [OF ok Cons.prems(2) sub d pe True])
  next
    case False
    then have m: "m = r" using Cons.prems(6) by simp
    then have res: "res = None" and s1: "seen w1" using assms(1) [of w] hr by simp_all
    have "settle k clk None m \<in> set ?t" using r(1) by (auto simp: set_sql_update m res)
    moreover have "om_status (settle k clk None m) \<noteq> ''PENDING''" by (simp add: settle_def)
    moreover obtain n t' w' where x: "deliver_rows h (Some k) clk rs ?t w1 = (Inr (n, t'), w')"
      "\<forall>x \<in> set ?t. om_status x \<noteq> ''PENDING'' \<longrightarrow> x \<in> set t'"
      using deliver_rows_ok [OF ok Cons.prems(2) sub d pe, of h clk w1] by blast
    ultimately show ?thesis using deliver_rows_seen [where seen = seen, OF assms(2) x(1) s1] by blast
  qed
  then obtain n t' w' where "deliver_rows h (Some k) clk rs ?t w1 = (Inr (n, t'), w')" "settle k clk None m \<in> set t'" "seen w'" by blast
  then show ?case using deliver_row [OF Cons.prems(1,2) r(1), of h clk rs w] hr by simp
qed simp

lemma summary_payload_valid:
  "validated_summary_payload SUMMARY_ACTION (summary_payload r) =
     Inr (''maintenance-campaign:'' @ cr_campaign_id (rr_report r), summary_payload r)"
  by (simp add: validated_summary_payload_def summary_payload_def campaign_report_json_def dict_get_def py_startswith_def)

lemma outbox_ok_enqueue:
  assumes "outbox_ok k (cp_outbox db)" "1 \<le> k" "enqueue_outbox hex now a p db = (Inr m, db')"
  shows "outbox_ok k (cp_outbox db')" "cp_outbox db' = cp_outbox db @ [m]" "om_status m = ''PENDING''" "om_action m = a" "om_payload m = p"
proof -
  have n: "sql_get om_id (om_id m) (cp_outbox db) = None" and db': "db' = db\<lparr>cp_outbox := cp_outbox db @ [m]\<rparr>"
    and m: "om_status m = ''PENDING''" "om_attempts m = 0" "om_action m = a" "om_payload m = p"
    using assms(3) by (auto simp: enqueue_outbox_def Let_def split: if_splits)
  have "om_id m \<notin> om_id ` set (cp_outbox db)" using n by (auto simp: sql_get_def find_None_iff)
  then have "unique_key om_id (cp_outbox db @ [m])" using assms(1) by (simp add: outbox_ok_def unique_key_def)
  then show "outbox_ok k (cp_outbox db')" using assms(1,2) m by (auto simp: outbox_ok_def db' message_ok_def)
  show "cp_outbox db' = cp_outbox db @ [m]" "om_status m = ''PENDING''" "om_action m = a" "om_payload m = p" using db' m by simp_all
qed

text \<open>
  C28: The summary of a campaign is delivered by the next drain: whatever else is in the outbox, if the worker returned a
  result and a message id, a drain that can take all pending messages marks that message DELIVERED, with the payload of
  the result, and its sink has been called with the campaign's idempotency key and that payload, provided the sink does not
  raise. Every payload the worker writes passes the checks of the delivery.
\<close>
theorem campaign_summary_is_delivered:
  assumes "run_campaign_worker_once C recs hex hexes out_hex w db = (Inr (r, i), w1, db1)"
    and "outbox_ok k (cp_outbox db)" and "1 \<le> k"
    and "mm = None \<or> mm = Some n \<and> length (filter (\<lambda>m. om_status m = ''PENDING'') (cp_outbox db)) < nat n"
    and "\<forall>key p v. fst (sink key p v) = None" and "\<forall>key p v. seen v \<longrightarrow> seen (snd (sink key p v))"
    and "\<forall>v. seen (snd (sink (''maintenance-campaign:'' @ cr_campaign_id (rr_report r)) (summary_payload r) v))"
  shows "\<exists>c db2 v'. process_outbox (deliver_summary_once sink) mm (Some k) clk db1 v = (Inr c, db2, v') \<and> seen v' \<and>
    (\<exists>m \<in> set (cp_outbox db2). om_id m = i \<and> om_status m = ''DELIVERED'' \<and> om_payload m = summary_payload r)"
proof -
  obtain now x where x: "enqueue_outbox out_hex now SUMMARY_ACTION (summary_payload r) db = (x, db1)" "map_sum (\<lambda>e. e) om_id x = Inr i"
    using assms(1) by (auto simp: run_campaign_worker_once_def enqueue_summary_def split: prod.splits sum.splits)
  then obtain m where e: "enqueue_outbox out_hex now SUMMARY_ACTION (summary_payload r) db = (Inr m, db1)" "om_id m = i"
    by (cases x) simp_all
  note o = outbox_ok_enqueue [OF assms(2,3) e(1)]
  let ?h = "deliver_summary_once sink"
  have u: "unique_key om_id (cp_outbox db1)" using o(1) by (simp add: outbox_ok_def)
  have len: "length (filter (\<lambda>m. om_status m = ''PENDING'') (cp_outbox db1)) \<le> nat n" if "mm = Some n"
    using assms(4) that o(2,3) by simp
  then have p: "pending_rows mm (cp_outbox db1) = sort_key om_created_at (filter (\<lambda>m. om_status m = ''PENDING'') (cp_outbox db1))"
    using assms(4) by (auto simp: pending_rows_def Let_def)
  have m: "m \<in> set (pending_rows mm (cp_outbox db1))" unfolding p using o(2,3) by simp
  have h: "fst (?h (om_action m) (om_payload m) v) = None \<and> seen (snd (?h (om_action m) (om_payload m) v))" for v
    using assms(5,7) o(4,5) by (simp add: deliver_summary_once_def summary_payload_valid)
  have s: "seen v \<Longrightarrow> seen (snd (?h a p v))" for a p v
    using assms(6) by (auto simp: deliver_summary_once_def split: sum.splits)
  obtain c t' w' where d: "deliver_rows ?h (Some k) clk (pending_rows mm (cp_outbox db1)) (cp_outbox db1) v = (Inr (c, t'), w')"
    "settle k clk None m \<in> set t'" "seen w'"
    using deliver_rows_accepted [where seen = seen and h = ?h, OF h s o(1) assms(3) pending_rows_props [OF u] m] by blast
  have "\<not> (case mm of Some n \<Rightarrow> n < 1 | None \<Rightarrow> False)" using assms(4) by auto
  then have "process_outbox ?h mm (Some k) clk db1 v = (Inr c, db1\<lparr>cp_outbox := t'\<rparr>, w')"
    using d(1) assms(3) by (simp add: process_outbox_def)
  moreover have "\<exists>m' \<in> set t'. om_id m' = i \<and> om_status m' = ''DELIVERED'' \<and> om_payload m' = summary_payload r"
    by (rule bexI [OF _ d(2)]) (use o(5) e(2) in \<open>simp add: settle_def\<close>)
  ultimately show ?thesis using d(3) by simp
qed

definition demo_campaign :: "(ledger_file, string list) campaign" where
  "demo_campaign = \<lparr>cs_pipeline = demo_pipeline, cs_terminal_counts = ledger_terminal_counts (\<lambda>j. []),
     cs_event_sink = Some (\<lambda>ev e. (Some (''RuntimeError'', []), e))\<rparr>"

definition demo_signal :: maintenance_signal where
  "demo_signal = \<lparr>ms_id = ''s'', ms_repository = ''r'', ms_type = ''CI_FAILURE'', ms_severity = ''medium'', ms_source = ''ci'', ms_evidence = [],
     ms_detected_at = 0\<rparr>"

definition demo_recs :: "recommendation list" where
  "demo_recs = generate_recommendations (\<lambda>j. []) [demo_signal] (\<lambda>i. ''x'')"

lemma demo_campaign_run:
  "case fst (run_maintenance_campaign_once demo_campaign demo_recs ''h'' (\<lambda>i. ''y'') demo_pipe) of Inl e \<Rightarrow> False
   | Inr r \<Rightarrow> rr_exit_code r = 0 \<and> cr_completed_count (rr_report r) = 1 \<and> cr_observer_error_count (rr_report r) = 3"
  by code_simp

theorem campaign_summary_is_delivered_witness:
  "\<exists>r i w1 db1 c db2 v'. run_campaign_worker_once demo_campaign demo_recs ''h'' (\<lambda>i. ''y'') ''m'' demo_pipe cp_empty = (Inr (r, i), w1, db1) \<and>
     process_outbox (deliver_summary_once (\<lambda>key p v. (None, key # v))) None (Some 3) (\<lambda>i. 1) db1 [] = (Inr c, db2, v') \<and>
     v' \<noteq> [] \<and> (\<exists>m \<in> set (cp_outbox db2). om_id m = i \<and> om_status m = ''DELIVERED'' \<and> om_payload m = summary_payload r)"
proof -
  obtain x w1 where c: "run_maintenance_campaign_once demo_campaign demo_recs ''h'' (\<lambda>i. ''y'') demo_pipe = (x, w1)" by fastforce
  obtain r where r: "x = Inr r" using demo_campaign_run c by (cases x) simp_all
  obtain m db1 where e: "enqueue_outbox ''m'' (campaign_clock demo_campaign w1) SUMMARY_ACTION (summary_payload r) cp_empty = (Inr m, db1)"
    by (simp add: enqueue_outbox_def cp_empty_def sql_get_def Let_def)
  have w: "run_campaign_worker_once demo_campaign demo_recs ''h'' (\<lambda>i. ''y'') ''m'' demo_pipe cp_empty = (Inr (r, om_id m), w1, db1)"
    using c r e by (simp add: run_campaign_worker_once_def enqueue_summary_def)
  have "outbox_ok 3 (cp_outbox cp_empty)" by (simp add: outbox_ok_def cp_empty_def unique_key_def)
  from campaign_summary_is_delivered [OF w this, where mm = None and sink = "\<lambda>key p v. (None, key # v)" and seen = "\<lambda>v. v \<noteq> []" and v = "[]"
      and clk = "\<lambda>i. 1"] w show ?thesis by fastforce
qed

subsection \<open>Campaigns over the same signals\<close>

text \<open>The same recommendation with other identifiers and evidence.\<close>

definition same_advice :: "recommendation \<Rightarrow> recommendation \<Rightarrow> bool" where
  "same_advice r r' \<longleftrightarrow> (\<exists>i e. r' = r\<lparr>mr_id := i, mr_evidence := e\<rparr>)"

lemma campaign_work_same:
  assumes "same_advice r r'" "py_strip (mr_reason r) \<noteq> []"
  shows "\<exists>it it'. maintenance_campaign_work digest r h h2 = Inr it \<and> maintenance_campaign_work digest r' k k2 = Inr it' \<and>
    valid_item it \<and> valid_item it' \<and> fingerprint digest it' = fingerprint digest it"
proof -
  obtain i e where r': "r' = r\<lparr>mr_id := i, mr_evidence := e\<rparr>" using assms(1) by (auto simp: same_advice_def)
  have k: "valid_kind (kind_value k)" for k by simp
  show ?thesis using assms(2)
    by (simp add: maintenance_campaign_work_def work_from_maintenance_recommendation_def work_item_new_def Let_def r'
        valid_item_def fingerprint_def dict_get_def k del: kind_value.simps)
qed

lemma map_fst_setdefault: "map fst (dict_setdefault d k v) = (if k \<in> fst ` set d then map fst d else map fst d @ [k])"
  by (simp add: dict_setdefault_def map_of_eq_None_iff length_dict_set_new)

lemma setdefault_values: "set (dict_values (dict_setdefault d k v)) \<subseteq> insert v (set (dict_values d))"
  using values_dict_set_subset [of k v d] by (auto simp: dict_setdefault_def)

lemma campaign_works_same:
  assumes "list_all2 same_advice rs rs'" "\<forall>r \<in> set rs. py_strip (mr_reason r) \<noteq> []"
  shows "map fst works' = map fst works \<Longrightarrow> \<forall>it \<in> set (dict_values works) \<union> set (dict_values works'). valid_item it \<Longrightarrow>
    \<exists>ws ws'. campaign_works digest rs h works = Inr ws \<and> campaign_works digest rs' k works' = Inr ws' \<and>
      map fst ws' = map fst ws \<and> (\<forall>it \<in> set (dict_values ws) \<union> set (dict_values ws'). valid_item it)"
  using assms
proof (induction arbitrary: works works' h k rule: list_all2_induct)
  case (Cons r rs r' rs')
  obtain it it' where it: "maintenance_campaign_work digest r (h 0) (h 1) = Inr it" "maintenance_campaign_work digest r' (k 0) (k 1) = Inr it'"
    "valid_item it" "valid_item it'" "fingerprint digest it' = fingerprint digest it"
    using campaign_work_same [OF Cons.hyps(1), of digest "h 0" "h 1" "k 0" "k 1"] Cons.prems(3) by auto
  let ?ws = "dict_setdefault works (fingerprint digest it) it" and ?ws' = "dict_setdefault works' (fingerprint digest it) it'"
  have "fst ` set works' = fst ` set works" using Cons.prems(1) by (metis list.set_map)
  then have k1: "map fst ?ws' = map fst ?ws" using Cons.prems(1) by (simp add: map_fst_setdefault)
  have v1: "\<forall>x \<in> set (dict_values ?ws) \<union> set (dict_values ?ws'). valid_item x"
    using setdefault_values [of works "fingerprint digest it" it] setdefault_values [of works' "fingerprint digest it" it'] Cons.prems(2) it(3,4)
    by blast
  have 1: "campaign_works digest (r # rs) h works = campaign_works digest rs (\<lambda>i. h (i + 2)) ?ws"
    "campaign_works digest (r' # rs') k works' = campaign_works digest rs' (\<lambda>i. k (i + 2)) ?ws'"
    using it(1,2,5) by simp_all
  have "\<forall>r \<in> set rs. py_strip (mr_reason r) \<noteq> []" using Cons.prems(3) by simp
  from Cons.IH [OF k1 v1 this, of "\<lambda>i. h (i + 2)" "\<lambda>i. k (i + 2)"] show ?case unfolding 1 .
qed simp

lemma recommendations_same:
  assumes "list_all2 (\<lambda>s s'. ms_type s' = ms_type s \<and> ms_repository s' = ms_repository s \<and> ms_source s' = ms_source s \<and>
      dict_get (ms_evidence s') ''package'' JNull = dict_get (ms_evidence s) ''package'' JNull) signals signals'"
  shows "list_all2 same_advice (generate_recommendations strf signals h) (generate_recommendations strf signals' k)"
  using assms
proof (induction arbitrary: h k rule: list_all2_induct)
  case (Cons s ss s' ss')
  then show ?case by (auto simp: same_advice_def)
qed simp

lemma dropWhile_keeps: "c \<in> set s \<Longrightarrow> \<not> p c \<Longrightarrow> c \<in> set (dropWhile p s)"
  by (induction s) auto

lemma strip_nonempty:
  assumes "c \<in> set s" "\<not> py_isspace c"
  shows "py_strip s \<noteq> []"
proof -
  have "c \<in> set (py_strip s)" using dropWhile_keeps [where p = py_isspace, OF _ assms(2)] assms(1) by (simp add: py_strip_def)
  then show ?thesis by auto
qed

lemma reason_nonempty: "r \<in> set (generate_recommendations strf signals h) \<Longrightarrow> py_strip (mr_reason r) \<noteq> []"
proof (induction signals arbitrary: h)
  case (Cons s ss)
  have c: "py_strip (''CI failure detected in source: '' @ x) \<noteq> []" "py_strip (''Dependency outdated: '' @ x) \<noteq> []" for x
    by (rule strip_nonempty [of "CHR ''e''"]; simp add: py_isspace_def)+
  show ?case using Cons.prems Cons.IH c by (auto split: if_splits)
qed simp

lemma generated_works:
  assumes "list_all2 (\<lambda>s s'. ms_type s' = ms_type s \<and> ms_repository s' = ms_repository s \<and> ms_source s' = ms_source s \<and>
      dict_get (ms_evidence s') ''package'' JNull = dict_get (ms_evidence s) ''package'' JNull) signals signals'"
  shows "\<exists>ws ws'. campaign_works digest (generate_recommendations strf signals r) h [] = Inr ws \<and>
    campaign_works digest (generate_recommendations strf signals' r') h' [] = Inr ws' \<and>
    map fst ws' = map fst ws \<and> (\<forall>it \<in> set (dict_values ws) \<union> set (dict_values ws'). valid_item it)"
  by (rule campaign_works_same [OF recommendations_same [OF assms]])
     (use reason_nonempty in \<open>auto simp: dict_values_def\<close>)

lemma campaign_emit_frame:
  "campaign_emit C ev n w = (m, w') \<Longrightarrow> pw_ledger w' = pw_ledger w \<and> pw_items w' = pw_items w"
  "campaign_emit (C\<lparr>cs_pipeline := Q\<rparr>) = campaign_emit C"
  by (auto simp: campaign_emit_def fun_eq_iff split: option.splits prod.splits)

lemma campaign_run_ledger:
  assumes "campaign_run C recs hex hexes n w = (Inr rep, m, w')" "campaign_works (pi_digest (cs_pipeline C)) recs hexes [] = Inr ws"
  obtains lrep w2 w3 where "pl_run (cs_pipeline C) (dict_values ws) w2 = (Inr lrep, w3)" "pw_ledger w2 = pw_ledger w" "pw_items w2 = pw_items w"
    "pw_ledger w' = pw_ledger w3" "cr_state rep = lr_state lrep" "cr_completed_count rep = length (lr_completed_item_ids lrep)"
proof -
  let ?e1 = "plain_event ''campaign.started'' (''maintenance-'' @ hex) (campaign_clock C w)"
  obtain n1 w1 where e1: "campaign_emit C ?e1 n w = (n1, w1)" by fastforce
  obtain n2 w2 where e2: "campaign_emit C ((plain_event ''campaign.recommendations_discovered'' (''maintenance-'' @ hex) (campaign_clock C w1))
                      \<lparr>ce_recommendations_discovered := length recs, ce_work_seeded := length ws, ce_observer_error_count := n1\<rparr>) n1 w1 = (n2, w2)"
    by fastforce
  obtain x w3 where p: "pl_run (cs_pipeline C) (dict_values ws) w2 = (x, w3)" by fastforce
  obtain lrep where x: "x = Inr lrep" using assms e1 e2 p by (cases x) (simp_all add: campaign_run_def Let_def)
  obtain counts where c: "cs_terminal_counts C (pw_ledger w3) = Inr counts"
    using assms e1 e2 p x by (cases "cs_terminal_counts C (pw_ledger w3)") (simp_all add: campaign_run_def Let_def)
  have "pw_ledger w2 = pw_ledger w \<and> pw_items w2 = pw_items w"
    using campaign_emit_frame(1) [OF e1] campaign_emit_frame(1) [OF e2] by simp
  moreover have "pw_ledger w' = pw_ledger w3 \<and> cr_state rep = lr_state lrep \<and> cr_completed_count rep = length (lr_completed_item_ids lrep)"
    using assms e1 e2 p x c by (auto simp: campaign_run_def Let_def dest!: campaign_emit_frame(1) split: prod.splits)
  ultimately show thesis using that p x by blast
qed

lemma campaign_run_other_executor:
  assumes "campaign_works (pi_digest (cs_pipeline C)) recs hexes [] = Inr ws"
    and "\<And>w2. pw_ledger w2 = pw_ledger w \<Longrightarrow> pw_items w2 = pw_items w \<Longrightarrow>
       pl_run ((cs_pipeline C)\<lparr>pi_execute := other\<rparr>) (dict_values ws) w2 = pl_run (cs_pipeline C) (dict_values ws) w2"
  shows "campaign_run (C\<lparr>cs_pipeline := (cs_pipeline C)\<lparr>pi_execute := other\<rparr>\<rparr>) recs hex hexes n w = campaign_run C recs hex hexes n w"
proof -
  let ?C = "C\<lparr>cs_pipeline := (cs_pipeline C)\<lparr>pi_execute := other\<rparr>\<rparr>"
  have clk: "campaign_clock ?C v = campaign_clock C v" for v by (simp add: campaign_clock_def)
  have dg: "pi_digest ((cs_pipeline C)\<lparr>pi_execute := other\<rparr>) = pi_digest (cs_pipeline C)" and tc: "cs_terminal_counts ?C = cs_terminal_counts C"
    and cp: "cs_pipeline ?C = (cs_pipeline C)\<lparr>pi_execute := other\<rparr>" by simp_all
  let ?e1 = "plain_event ''campaign.started'' (''maintenance-'' @ hex) (campaign_clock C w)"
  obtain n1 w1 where e1: "campaign_emit C ?e1 n w = (n1, w1)" by fastforce
  obtain n2 w2 where e2: "campaign_emit C ((plain_event ''campaign.recommendations_discovered'' (''maintenance-'' @ hex) (campaign_clock C w1))
                      \<lparr>ce_recommendations_discovered := length recs, ce_work_seeded := length ws, ce_observer_error_count := n1\<rparr>) n1 w1 = (n2, w2)"
    by fastforce
  have f: "pw_ledger w2 = pw_ledger w" "pw_items w2 = pw_items w"
    using campaign_emit_frame(1) [OF e1] campaign_emit_frame(1) [OF e2] by simp_all
  note same = assms(2) [OF f]
  show ?thesis unfolding campaign_run_def Let_def clk campaign_emit_frame(2) tc cp dg e1 prod.case assms(1) sum.case e2 same by (rule refl)
qed

text \<open>
  C12: A campaign over the same signals does not repeat finished work: recommendations made of signals with the same type,
  repository, source and package seed the same content fingerprints, whatever their identifiers and times; and after a campaign on
  a JSON ledger returned, a later one on that ledger is the same as with any other executor that differs only on content that
  is SUCCEEDED in the ledger.
\<close>
theorem repeated_campaign_skips_finished_work:
  fixes C :: "(ledger_file, 'e) campaign" and C2 :: "(ledger_file, 'f) campaign"
  assumes "on_json_ledger digest strf (cs_pipeline C)" "json_wf digest (pw_ledger w)" "pw_items w = []"
    and "run_maintenance_campaign_once C (generate_recommendations strf signals ids) hex hexes w = (Inr res, w1)"
    and "list_all2 (\<lambda>s s'. ms_type s' = ms_type s \<and> ms_repository s' = ms_repository s \<and> ms_source s' = ms_source s \<and>
      dict_get (ms_evidence s') ''package'' JNull = dict_get (ms_evidence s) ''package'' JNull) signals signals2"
    and "on_json_ledger digest strf (cs_pipeline C2)" "pw_ledger w2 = pw_ledger w1" "pw_items w2 = []"
    and "\<forall>it e. \<not> finished (ledger_state_for strf) (fingerprint digest it) (pw_ledger w1) \<longrightarrow> other it e = pi_execute (cs_pipeline C2) it e"
  shows "(\<exists>ws ws2. campaign_works digest (generate_recommendations strf signals ids) hexes [] = Inr ws \<and>
      campaign_works digest (generate_recommendations strf signals2 ids2) hexes2 [] = Inr ws2 \<and> map fst ws2 = map fst ws) \<and>
    run_maintenance_campaign_once (C2\<lparr>cs_pipeline := (cs_pipeline C2)\<lparr>pi_execute := other\<rparr>\<rparr>) (generate_recommendations strf signals2 ids2)
      hex2 hexes2 w2 = run_maintenance_campaign_once C2 (generate_recommendations strf signals2 ids2) hex2 hexes2 w2"
proof -
  obtain ws ws2 where ws: "campaign_works digest (generate_recommendations strf signals ids) hexes [] = Inr ws"
    "campaign_works digest (generate_recommendations strf signals2 ids2) hexes2 [] = Inr ws2" "map fst ws2 = map fst ws"
    "\<forall>it \<in> set (dict_values ws) \<union> set (dict_values ws2). valid_item it"
    using generated_works [OF assms(5), of digest strf ids hexes ids2 hexes2] by blast
  obtain rep m where run: "campaign_run C (generate_recommendations strf signals ids) hex hexes 0 w = (Inr rep, m, w1)"
    using assms(4) unfolding run_maintenance_campaign_once_def
    by (cases "fst (campaign_run C (generate_recommendations strf signals ids) hex hexes 0 w)") (auto split: prod.splits)
  have dg: "pi_digest (cs_pipeline C) = digest" using assms(1) by (simp add: on_json_ledger_def)
  obtain lrep v2 v3 where p: "pl_run (cs_pipeline C) (dict_values ws) v2 = (Inr lrep, v3)" "pw_ledger v2 = pw_ledger w"
    "pw_items v2 = pw_items w" "pw_ledger w1 = pw_ledger v3"
    by (rule campaign_run_ledger [OF run, of ws]) (use ws(1) dg in simp, blast)
  have "pl_run ((cs_pipeline C2)\<lparr>pi_execute := other\<rparr>) (dict_values ws2) v = pl_run (cs_pipeline C2) (dict_values ws2) v"
    if "pw_ledger v = pw_ledger w2" "pw_items v = pw_items w2" for v
    by (rule json_pipeline_never_repeats(2) [OF assms(1) _ _ _ p(1) assms(6)])
       (use ws(4) assms(2,3,7-9) p(2-4) that in simp_all)
  then have "campaign_run (C2\<lparr>cs_pipeline := (cs_pipeline C2)\<lparr>pi_execute := other\<rparr>\<rparr>) (generate_recommendations strf signals2 ids2) hex2 hexes2 0 w2 =
      campaign_run C2 (generate_recommendations strf signals2 ids2) hex2 hexes2 0 w2"
    by (intro campaign_run_other_executor) (use ws(2) assms(6) in \<open>simp_all add: on_json_ledger_def\<close>)
  then show ?thesis using ws(1-3) by (simp add: run_maintenance_campaign_once_def)
qed

theorem repeated_campaign_skips_finished_work_witness:
  "\<exists>res w1. run_maintenance_campaign_once demo_campaign demo_recs ''h'' (\<lambda>i. ''y'') demo_pipe = (Inr res, w1) \<and> rr_exit_code res = 0 \<and>
     run_maintenance_campaign_once (demo_campaign\<lparr>cs_pipeline := demo_pipeline\<lparr>pi_execute :=
        \<lambda>it e. if finished (ledger_state_for (\<lambda>j. [])) (fingerprint demo_digest it) (pw_ledger w1)
           then (Inl (''RuntimeError'', []), e) else pi_execute demo_pipeline it e\<rparr>\<rparr>)
       (generate_recommendations (\<lambda>j. []) [demo_signal\<lparr>ms_id := ''other''\<rparr>] (\<lambda>i. ''z'')) ''k'' (\<lambda>i. ''u'') (w1\<lparr>pw_items := []\<rparr>) =
     run_maintenance_campaign_once demo_campaign
       (generate_recommendations (\<lambda>j. []) [demo_signal\<lparr>ms_id := ''other''\<rparr>] (\<lambda>i. ''z'')) ''k'' (\<lambda>i. ''u'') (w1\<lparr>pw_items := []\<rparr>)"
proof -
  obtain x w1 where c: "run_maintenance_campaign_once demo_campaign demo_recs ''h'' (\<lambda>i. ''y'') demo_pipe = (x, w1)" by fastforce
  obtain res where x: "x = Inr res" "rr_exit_code res = 0" using demo_campaign_run c by (cases x) simp_all
  have p: "on_json_ledger demo_digest (\<lambda>j. []) (cs_pipeline demo_campaign)" "json_wf demo_digest (pw_ledger demo_pipe)" "pw_items demo_pipe = []"
    by (auto simp: demo_campaign_def on_json_ledger_def demo_pipeline_def demo_pipe_def json_wf_def ledger_read_def good_records_def)
  have s: "list_all2 (\<lambda>s s'. ms_type s' = ms_type s \<and> ms_repository s' = ms_repository s \<and> ms_source s' = ms_source s \<and>
      dict_get (ms_evidence s') ''package'' JNull = dict_get (ms_evidence s) ''package'' JNull) [demo_signal] [demo_signal\<lparr>ms_id := ''other''\<rparr>]"
    by simp
  have cp: "cs_pipeline demo_campaign = demo_pipeline" by (simp add: demo_campaign_def)
  have "pw_ledger (w1\<lparr>pw_items := []\<rparr>) = pw_ledger w1" "pw_items (w1\<lparr>pw_items := []\<rparr>) = []" by simp_all
  note never = repeated_campaign_skips_finished_work [OF p c [unfolded x(1) demo_recs_def] s p(1) this,
      of "\<lambda>it e. if finished (ledger_state_for (\<lambda>j. [])) (fingerprint demo_digest it) (pw_ledger w1)
           then (Inl (''RuntimeError'', []), e) else pi_execute demo_pipeline it e" "\<lambda>i. ''z''" "\<lambda>i. ''u''" "''k''"]
  show ?thesis using never c x unfolding cp by auto
qed

end
