(* ===== verification/EngineeringWorker.thy ===== *)
theory EngineeringWorker
  imports EngineeringStore
begin

text \<open>
  \<open>src/zcoder/services/engineering_worker.py\<close>: the worker that drains an engineering store, one claimed task at a time
  through an injected handler. The store is a record of the operations it uses; the handler may act on the store and on a world
  \<open>'e\<close>, from which clock and fresh identifiers are read. \<open>worker_store\<close> is what the worker needs of a store. The handler gets the task by
  value, so one that changes the task object it was given is not modelled, and its results are JSON values: one that \<open>json.dumps\<close>
  refuses would end \<open>run_once\<close> with a \<open>TypeError\<close> from \<open>save_checkpoint\<close>.
\<close>

subsection \<open>The worker\<close>

record 's worker_ops =
  wo_claim_task :: "real \<Rightarrow> 's \<Rightarrow> engineering_task option \<times> 's"
  wo_save_task :: "real \<Rightarrow> engineering_task \<Rightarrow> 's \<Rightarrow> 's"
  wo_create_attempt :: "attempt \<Rightarrow> 's \<Rightarrow> db_error + 's"
  wo_save_checkpoint :: "checkpoint \<Rightarrow> 's \<Rightarrow> db_error + 's"

record ('s, 'e, 'x) worker =
  wk_ops :: "'s worker_ops"
  wk_handler :: "engineering_task \<Rightarrow> 's \<times> 'e \<Rightarrow> ('x + json) \<times> 's \<times> 'e"
  wk_time :: "'e \<Rightarrow> real"
  wk_uuid :: "string \<Rightarrow> 'e \<Rightarrow> string"

text \<open>\<open>_default_handler\<close>, where no handler is given.\<close>

definition default_handler :: "engineering_task \<Rightarrow> 's \<times> 'e \<Rightarrow> (string + json) \<times> 's \<times> 'e" where
  "default_handler t st = (Inl ''No engineering task handler configured'', st)"

definition worker_attempt :: "('s, 'e, 'x) worker \<Rightarrow> engineering_task \<Rightarrow> 'e \<Rightarrow> attempt" where
  "worker_attempt W t e = \<lparr>at_id = ''att_'' @ wk_uuid W (et_id t) e, at_task_id = et_id t, at_generation = 1, at_status = ''PENDING'',
     at_started_at = wk_time W e, at_completed_at = None\<rparr>"

definition worker_claim :: "('s, 'e, 'x) worker \<Rightarrow> 's \<times> 'e \<Rightarrow> engineering_task option \<times> 's \<times> 'e" where
  "worker_claim W st = (case wo_claim_task (wk_ops W) (wk_time W (snd st)) (fst st) of (r, s) \<Rightarrow> (r, s, snd st))"

definition worker_run_once :: "('s, 'e, 'x) worker \<Rightarrow> 's \<times> 'e \<Rightarrow> (db_error + bool) \<times> 's \<times> 'e" where
  "worker_run_once W st =
     (case worker_claim W st of
        (None, st1) \<Rightarrow> (Inr False, st1)
      | (Some t, st1) \<Rightarrow>
          (let att = worker_attempt W t (snd st1) in
           case wk_handler W t st1 of
             (Inl exc, s2, e2) \<Rightarrow>
               (case wo_create_attempt (wk_ops W) (att\<lparr>at_status := ''FAILED'', at_completed_at := Some (wk_time W e2)\<rparr>) s2 of
                  Inl x \<Rightarrow> (Inl x, s2, e2)
                | Inr s3 \<Rightarrow> (Inr True, wo_save_task (wk_ops W) (wk_time W e2) (t\<lparr>et_status := TaskFailed\<rparr>) s3, e2))
           | (Inr result, s2, e2) \<Rightarrow>
               (case wo_create_attempt (wk_ops W) (att\<lparr>at_status := ''SUCCEEDED'', at_completed_at := Some (wk_time W e2)\<rparr>) s2 of
                  Inl x \<Rightarrow> (Inl x, s2, e2)
                | Inr s3 \<Rightarrow>
                    (case wo_save_checkpoint (wk_ops W) \<lparr>ck_id = ''chk_'' @ wk_uuid W (et_id t) e2, ck_task_id = et_id t,
                        ck_attempt_id = at_id att, ck_sequence = 1, ck_phase = ''execute'', ck_state_snapshot = [(''result'', result)],
                        ck_timestamp = wk_time W e2\<rparr> s3 of
                       Inl x \<Rightarrow> (Inl x, s3, e2)
                     | Inr s4 \<Rightarrow> (Inr True, wo_save_task (wk_ops W) (wk_time W e2) (t\<lparr>et_status := TaskSucceeded\<rparr>) s4, e2)))))"

text \<open>The drain; \<open>None\<close> is not returning.\<close>

partial_function (option) worker_run_from ::
  "('s, 'e, 'x) worker \<Rightarrow> int option \<Rightarrow> nat \<Rightarrow> 's \<times> 'e \<Rightarrow> ((db_error + nat) \<times> 's \<times> 'e) option" where
  "worker_run_from W max_tasks processed st =
     (if (case max_tasks of None \<Rightarrow> True | Some m \<Rightarrow> int processed < m)
      then (case worker_run_once W st of
          (Inl x, st1) \<Rightarrow> Some (Inl x, st1)
        | (Inr busy, st1) \<Rightarrow> if busy then worker_run_from W max_tasks (processed + 1) st1 else Some (Inr processed, st1))
      else Some (Inr processed, st))"

definition worker_run :: "('s, 'e, 'x) worker \<Rightarrow> int option \<Rightarrow> 's \<times> 'e \<Rightarrow> ((db_error + nat) \<times> 's \<times> 'e) option" where
  "worker_run W max_tasks st = worker_run_from W max_tasks 0 st"

subsection \<open>What the worker needs of a store\<close>

locale worker_store = engineering_store get_task save_task claim_task list_tasks invar
  for get_task :: "'s \<Rightarrow> string \<Rightarrow> engineering_task option" and save_task claim_task list_tasks invar +
  fixes create_attempt :: "attempt \<Rightarrow> 's \<Rightarrow> db_error + 's"
    and save_checkpoint :: "checkpoint \<Rightarrow> 's \<Rightarrow> db_error + 's"
  assumes attempt_frame: "invar s \<Longrightarrow> create_attempt a s = Inr s' \<Longrightarrow> invar s' \<and> get_task s' = get_task s"
    and checkpoint_frame: "invar s \<Longrightarrow> save_checkpoint c s = Inr s' \<Longrightarrow> invar s' \<and> get_task s' = get_task s"
begin

definition served_by :: "('s, 'e, 'x) worker \<Rightarrow> bool" where
  "served_by W \<longleftrightarrow> wk_ops W = \<lparr>wo_claim_task = claim_task, wo_save_task = save_task, wo_create_attempt = create_attempt,
     wo_save_checkpoint = save_checkpoint\<rparr>"

text \<open>A handler that leaves the tasks alone.\<close>

definition keeps_tasks :: "('s, 'e, 'x) worker \<Rightarrow> bool" where
  "keeps_tasks W \<longleftrightarrow> (\<forall>t s e r s' e'. invar s \<longrightarrow> wk_handler W t (s, e) = (r, s', e') \<longrightarrow> invar s' \<and> get_task s' = get_task s)"

definition open_tasks :: "'s \<Rightarrow> string set" where
  "open_tasks s = {i. \<exists>t. get_task s i = Some t \<and> et_status t \<in> {TaskCreated, TaskRunning}}"

definition closed_task :: "'s \<Rightarrow> string \<Rightarrow> bool" where
  "closed_task s i \<longleftrightarrow> (\<exists>t. get_task s i = Some t \<and> et_status t \<in> {TaskSucceeded, TaskFailed})"

lemma finite_open: "invar s \<Longrightarrow> finite (open_tasks s)"
proof -
  assume "invar s"
  then have "open_tasks s \<subseteq> et_id ` set (list_tasks s None)"
    using set_list get_id by (force simp: open_tasks_def)
  then show ?thesis by (rule finite_subset) simp
qed

text \<open>One task: claimed, handled, closed; everything else as before.\<close>

lemma run_once_step:
  assumes "served_by W" "keeps_tasks W" "invar s" "worker_run_once W (s, e) = (r, s', e')"
  shows "r = Inr False \<Longrightarrow> s' = s \<and> (\<forall>i t. get_task s i = Some t \<longrightarrow> et_status t \<noteq> TaskCreated)"
    "r = Inr True \<Longrightarrow> invar s' \<and> (\<exists>i \<in> open_tasks s. closed_task s' i \<and> (\<forall>j. j \<noteq> i \<longrightarrow> get_task s' j = get_task s j))"
proof -
  obtain c s1 where c: "claim_task (wk_time W e) s = (c, s1)" by fastforce
  have i1: "invar s1" using invar_claim [OF assms(3), of "wk_time W e"] c by simp
  have ops: "wo_claim_task (wk_ops W) = claim_task" "wo_save_task (wk_ops W) = save_task" "wo_create_attempt (wk_ops W) = create_attempt"
    "wo_save_checkpoint (wk_ops W) = save_checkpoint" using assms(1) by (simp_all add: served_by_def)
  have goal: "(r = Inr False \<longrightarrow> s' = s \<and> (\<forall>i t. get_task s i = Some t \<longrightarrow> et_status t \<noteq> TaskCreated)) \<and>
    (r = Inr True \<longrightarrow> invar s' \<and> (\<exists>i \<in> open_tasks s. closed_task s' i \<and> (\<forall>j. j \<noteq> i \<longrightarrow> get_task s' j = get_task s j)))"
  proof (cases c)
    case None
    then have "r = Inr False \<and> s' = s1" using assms(4) c ops by (simp add: worker_run_once_def worker_claim_def)
    then show ?thesis using claim_None [OF assms(3) c [unfolded None]] by simp
  next
    case (Some t)
    note cl = claim_Some [OF assms(3) c [unfolded Some]] claim_other [OF assms(3) c [unfolded Some]]
    have o: "et_id t \<in> open_tasks s" using cl(1) by (auto simp: open_tasks_def)
    obtain x s2 e2 where h: "wk_handler W t (s1, e) = (x, s2, e2)" by (metis prod_cases3)
    have h2: "invar s2" "get_task s2 = get_task s1" using assms(2) i1 h unfolding keeps_tasks_def by blast+
    have fin: "invar (save_task now (t\<lparr>et_status := st\<rparr>) s3) \<and> closed_task (save_task now (t\<lparr>et_status := st\<rparr>) s3) (et_id t) \<and>
        (\<forall>j. j \<noteq> et_id t \<longrightarrow> get_task (save_task now (t\<lparr>et_status := st\<rparr>) s3) j = get_task s j)"
      if "invar s3" "get_task s3 = get_task s1" "st \<in> {TaskSucceeded, TaskFailed}" for s3 st now
    proof -
      obtain k where k: "get_task (save_task now (t\<lparr>et_status := st\<rparr>) s3) (et_id t) =
          Some (t\<lparr>et_status := st, et_updated_at := now, et_created_at := k\<rparr>)"
        using get_save [OF \<open>invar s3\<close>, of now "t\<lparr>et_status := st\<rparr>"] by auto
      have "closed_task (save_task now (t\<lparr>et_status := st\<rparr>) s3) (et_id t)" using k \<open>st \<in> {TaskSucceeded, TaskFailed}\<close> unfolding closed_task_def by auto
      moreover have "get_task (save_task now (t\<lparr>et_status := st\<rparr>) s3) j = get_task s j" if "j \<noteq> et_id t" for j
        using get_save_other [OF \<open>invar s3\<close>, of j "t\<lparr>et_status := st\<rparr>" now] cl(2) [OF that] \<open>get_task s3 = get_task s1\<close> that by simp
      ultimately show ?thesis using invar_save [OF \<open>invar s3\<close>] by blast
    qed
    show ?thesis
    proof (cases x)
      case (Inl exc)
      let ?a = "(worker_attempt W t e)\<lparr>at_status := ''FAILED'', at_completed_at := Some (wk_time W e2)\<rparr>"
      show ?thesis
      proof (cases "create_attempt ?a s2")
        case (Inl err)
        then show ?thesis using assms(4) c ops Some h \<open>x = Inl exc\<close> by (auto simp add: worker_run_once_def worker_claim_def Let_def)
      next
        case (Inr s3)
        note f = attempt_frame [OF h2(1) Inr]
        have "r = Inr True \<and> s' = save_task (wk_time W e2) (t\<lparr>et_status := TaskFailed\<rparr>) s3"
          using assms(4) c ops Some h \<open>x = Inl exc\<close> Inr by (auto simp add: worker_run_once_def worker_claim_def Let_def)
        then show ?thesis using fin [of s3 TaskFailed "wk_time W e2"] f h2 o by auto
      qed
    next
      case (Inr result)
      let ?a = "(worker_attempt W t e)\<lparr>at_status := ''SUCCEEDED'', at_completed_at := Some (wk_time W e2)\<rparr>"
      let ?k = "\<lparr>ck_id = ''chk_'' @ wk_uuid W (et_id t) e2, ck_task_id = et_id t,
                        ck_attempt_id = at_id (worker_attempt W t e), ck_sequence = 1, ck_phase = ''execute'', ck_state_snapshot = [(''result'', result)],
                        ck_timestamp = wk_time W e2\<rparr>"
      show ?thesis
      proof (cases "create_attempt ?a s2")
        case (Inl err)
        then show ?thesis using assms(4) c ops Some h \<open>x = Inr result\<close> by (auto simp add: worker_run_once_def worker_claim_def Let_def)
      next
        case (Inr s3)
        note f = attempt_frame [OF h2(1) Inr]
        show ?thesis
        proof (cases "save_checkpoint ?k s3")
          case (Inl err)
          then show ?thesis using assms(4) c ops Some h \<open>x = Inr result\<close> Inr by (auto simp add: worker_run_once_def worker_claim_def Let_def)
        next
          case (Inr s4)
          note g = checkpoint_frame [OF conjunct1 [OF f] Inr]
          have "r = Inr True \<and> s' = save_task (wk_time W e2) (t\<lparr>et_status := TaskSucceeded\<rparr>) s4"
            using assms(4) c ops Some h \<open>x = Inr result\<close> \<open>create_attempt ?a s2 = Inr s3\<close> Inr
            by (auto simp add: worker_run_once_def worker_claim_def Let_def)
          then show ?thesis using fin [of s4 TaskSucceeded "wk_time W e2"] f g h2 o by auto
        qed
      qed
    qed
  qed
  show "r = Inr False \<Longrightarrow> s' = s \<and> (\<forall>i t. get_task s i = Some t \<longrightarrow> et_status t \<noteq> TaskCreated)" using goal by blast
  show "r = Inr True \<Longrightarrow> invar s' \<and> (\<exists>i \<in> open_tasks s. closed_task s' i \<and> (\<forall>j. j \<noteq> i \<longrightarrow> get_task s' j = get_task s j))" using goal by blast
qed

text \<open>Closing one open task takes it out of the open ones.\<close>

lemma open_after_close:
  assumes "i \<in> open_tasks s" "closed_task s' i" "\<forall>j. j \<noteq> i \<longrightarrow> get_task s' j = get_task s j"
  shows "open_tasks s' = open_tasks s - {i}"
proof (rule set_eqI)
  fix j show "j \<in> open_tasks s' \<longleftrightarrow> j \<in> open_tasks s - {i}"
    using assms by (cases "j = i") (auto simp: open_tasks_def closed_task_def)
qed

text \<open>Any run ends; a run that drained left no created task, closed exactly the tasks it touched, and counted them.\<close>

definition drained :: "'s \<Rightarrow> 's \<Rightarrow> nat \<Rightarrow> bool" where
  "drained s s' n \<longleftrightarrow> invar s' \<and> open_tasks s' \<subseteq> open_tasks s \<and> n = card (open_tasks s - open_tasks s') \<and>
     (\<forall>i. get_task s' i = get_task s i \<or> i \<in> open_tasks s - open_tasks s' \<and> closed_task s' i)"

lemma drained_step:
  assumes "invar s" "drained s0 s n" "i \<in> open_tasks s" "closed_task s' i" "\<forall>j. j \<noteq> i \<longrightarrow> get_task s' j = get_task s j" "invar s'" "invar s0"
  shows "drained s0 s' (Suc n)"
proof -
  note o = open_after_close [OF assms(3-5)]
  have i: "i \<in> open_tasks s0" "i \<notin> open_tasks s0 - open_tasks s" using assms(2,3) by (auto simp: drained_def)
  have "open_tasks s0 - open_tasks s' = insert i (open_tasks s0 - open_tasks s)" using o i by auto
  moreover have "finite (open_tasks s0 - open_tasks s)" using finite_open [OF assms(7)] by simp
  ultimately have "card (open_tasks s0 - open_tasks s') = Suc n" using i(2) assms(2) by (simp add: drained_def)
  moreover have "get_task s' j = get_task s0 j \<or> j \<in> open_tasks s0 - open_tasks s' \<and> closed_task s' j" for j
  proof (cases "j = i")
    case True
    then show ?thesis using o i assms(4) by simp
  next
    case False
    then have e: "get_task s' j = get_task s j" using assms(5) by simp
    have "get_task s j = get_task s0 j \<or> j \<in> open_tasks s0 - open_tasks s \<and> closed_task s j" using assms(2) by (simp add: drained_def)
    then show ?thesis using e o False by (auto simp: closed_task_def)
  qed
  ultimately show ?thesis using assms(2,6) o by (auto simp: drained_def)
qed

lemma worker_drains_from:
  assumes "served_by W" "keeps_tasks W" "invar s0"
  shows "invar s \<Longrightarrow> drained s0 s n \<Longrightarrow> \<exists>r s' e'. worker_run_from W max_tasks n (s, e) = Some (r, s', e') \<and>
    (\<forall>m. r = Inr m \<longrightarrow> drained s0 s' m \<and> (case max_tasks of None \<Rightarrow> True | Some k \<Rightarrow> int m < k) \<longrightarrow>
       (\<forall>i t. get_task s' i = Some t \<longrightarrow> et_status t \<noteq> TaskCreated)) \<and> (\<forall>m. r = Inr m \<longrightarrow> drained s0 s' m)"
proof (induction "card (open_tasks s)" arbitrary: s n e rule: less_induct)
  case less
  show ?case
  proof (cases "case max_tasks of None \<Rightarrow> True | Some k \<Rightarrow> int n < k")
    case False
    then show ?thesis using less.prems by (simp add: worker_run_from.simps [of W max_tasks n "(s, e)"])
  next
    case True
    obtain r s1 e1 where o: "worker_run_once W (s, e) = (r, s1, e1)" by (metis prod_cases3)
    note step = run_once_step [OF assms(1,2) less.prems(1) o]
    consider (err) x where "r = Inl x" | (idle) "r = Inr False" | (busy) "r = Inr True" by (metis sum.exhaust)
    then show ?thesis
    proof cases
      case err
      then show ?thesis using True o by (simp add: worker_run_from.simps [of W max_tasks n "(s, e)"])
    next
      case idle
      then show ?thesis using True o step(1) less.prems(2) by (simp add: worker_run_from.simps [of W max_tasks n "(s, e)"])
    next
      case busy
      then obtain i where i: "invar s1" "i \<in> open_tasks s" "closed_task s1 i" "\<forall>j. j \<noteq> i \<longrightarrow> get_task s1 j = get_task s j" using step(2) by blast
      have "card (open_tasks s1) < card (open_tasks s)"
        unfolding open_after_close [OF i(2-4)] by (rule card_Diff1_less [OF finite_open [OF less.prems(1)] i(2)])
      moreover have "drained s0 s1 (Suc n)" by (rule drained_step [OF less.prems i(2-4,1) assms(3)])
      moreover have "worker_run_from W max_tasks n (s, e) = worker_run_from W max_tasks (Suc n) (s1, e1)"
        using True o busy by (simp add: worker_run_from.simps [of W max_tasks n "(s, e)"])
      ultimately show ?thesis using less.hyps [of s1 "Suc n" e1] i(1) by simp
    qed
  qed
qed

lemma worker_drains:
  assumes "served_by W" "keeps_tasks W" "invar s"
  shows "\<exists>r s' e'. worker_run W max_tasks (s, e) = Some (r, s', e') \<and> (\<forall>n. r = Inr n \<longrightarrow> drained s s' n \<and>
    ((case max_tasks of None \<Rightarrow> True | Some k \<Rightarrow> int n < k) \<longrightarrow> (\<forall>i t. get_task s' i = Some t \<longrightarrow> et_status t \<noteq> TaskCreated)))"
proof -
  have "drained s s 0" using assms(3) by (simp add: drained_def)
  from worker_drains_from [OF assms assms(3) this, of max_tasks e] show ?thesis unfolding worker_run_def by blast
qed

end

subsection \<open>Both stores serve a worker\<close>

interpretation pg_worker: worker_store pg_get_task pg_save_task pg_claim_task pg_list_tasks pg_invar pg_create_attempt pg_save_checkpoint
  by unfold_locales (auto simp: pg_create_attempt_def pg_save_checkpoint_def pg_invar_def pg_get_task_def fun_eq_iff split: if_splits)

interpretation sqlite_worker: worker_store sq_get_task sq_save_task "sq_claim_task None who lease" sq_list_tasks sq_invar
  sq_create_attempt sq_save_checkpoint for who lease
  by (rule worker_store.intro [OF sq_engineering_store], unfold_locales)
     (auto simp: sq_create_attempt_def sq_save_checkpoint_def sq_invar_def sq_get_task_def fun_eq_iff split: if_splits)

text \<open>
  C13: A worker drains the queue and returns: with a handler that leaves the tasks table alone, a run on the SQLite store
  always ends; if it does not raise, every task is as before or was open (created or running) and is now SUCCEEDED or FAILED, the
  number returned is the number of these, and unless the limit was reached no created task is left.
\<close>
theorem sqlite_worker_drains_queue:
  assumes "wk_ops W = \<lparr>wo_claim_task = sq_claim_task None who lease, wo_save_task = sq_save_task,
      wo_create_attempt = sq_create_attempt, wo_save_checkpoint = sq_save_checkpoint\<rparr>"
    and "\<forall>t s e r s' e'. sq_invar s \<longrightarrow> wk_handler W t (s, e) = (r, s', e') \<longrightarrow> sq_invar s' \<and> sq_get_task s' = sq_get_task s"
    and "sq_invar s"
  shows "\<exists>r s' e'. worker_run W max_tasks (s, e) = Some (r, s', e') \<and> (\<forall>n. r = Inr n \<longrightarrow> sq_invar s' \<and>
    (\<forall>i. sq_get_task s' i = sq_get_task s i \<or> i \<in> sqlite_worker.open_tasks s \<and> sqlite_worker.closed_task s' i) \<and>
    n = card (sqlite_worker.open_tasks s - sqlite_worker.open_tasks s') \<and>
    ((case max_tasks of None \<Rightarrow> True | Some k \<Rightarrow> int n < k) \<longrightarrow> (\<forall>i t. sq_get_task s' i = Some t \<longrightarrow> et_status t \<noteq> TaskCreated)))"
proof -
  have "sqlite_worker.served_by who lease W" using assms(1) by (simp add: sqlite_worker.served_by_def)
  moreover have "sqlite_worker.keeps_tasks W" unfolding sqlite_worker.keeps_tasks_def using assms(2) by blast
  ultimately obtain r s' e' where w: "worker_run W max_tasks (s, e) = Some (r, s', e')"
    "\<forall>n. r = Inr n \<longrightarrow> sqlite_worker.drained s s' n \<and>
       ((case max_tasks of None \<Rightarrow> True | Some k \<Rightarrow> int n < k) \<longrightarrow> (\<forall>i t. sq_get_task s' i = Some t \<longrightarrow> et_status t \<noteq> TaskCreated))"
    using sqlite_worker.worker_drains [OF _ _ assms(3), of who lease W max_tasks e] by blast
  show ?thesis
  proof (intro exI conjI allI impI)
    show "worker_run W max_tasks (s, e) = Some (r, s', e')" by (rule w(1))
  qed (use w(2) in \<open>auto simp: sqlite_worker.drained_def\<close>)
qed

definition demo_worker :: "(sqlite_db, string list, string) worker" where
  "demo_worker = \<lparr>wk_ops = \<lparr>wo_claim_task = sq_claim_task None ''w'' 60, wo_save_task = sq_save_task,
      wo_create_attempt = sq_create_attempt, wo_save_checkpoint = sq_save_checkpoint\<rparr>,
     wk_handler = (\<lambda>t (s, e). (if et_id t = ''bad'' then Inl ''boom'' else Inr JNull, s, et_id t # e)),
     wk_time = (\<lambda>e. real (length e)), wk_uuid = (\<lambda>i e. i)\<rparr>"

definition demo_queue :: sqlite_db where
  "demo_queue = sq_save_task 0 \<lparr>et_id = ''bad'', et_task_description = [], et_status = TaskCreated,
     et_created_at = 0, et_updated_at = 0, et_metadata = []\<rparr> sq_empty"

theorem sqlite_worker_drains_queue_witness:
  "\<exists>s' e'. worker_run demo_worker None (demo_queue, []) = Some (Inr 1, s', e') \<and> sq_invar s' \<and>
     \<not> (\<exists>i t. sq_get_task s' i = Some t \<and> et_status t = TaskCreated)"
proof -
  have inv: "sq_invar demo_queue" unfolding demo_queue_def
    by (rule sq_invar_save) (simp add: sq_invar_def sq_empty_def unique_key_def)
  let ?st = "snd (worker_run_once demo_worker (demo_queue, []))"
  have "fst (worker_run_once demo_worker (demo_queue, [])) = Inr True \<and> fst (worker_run_once demo_worker ?st) = Inr False" by code_simp
  then obtain st s' e' where once: "worker_run_once demo_worker (demo_queue, []) = (Inr True, st)" "worker_run_once demo_worker st = (Inr False, s', e')"
    by (metis prod.collapse)
  have run: "worker_run demo_worker None (demo_queue, []) = Some (Inr 1, s', e')"
    by (simp add: worker_run_def worker_run_from.simps [of demo_worker None 0] once(1))
      (simp add: worker_run_from.simps [of demo_worker None "Suc 0"] once(2))
  from sqlite_worker_drains_queue [OF _ _ inv, of demo_worker "''w''" 60 None "[]"] show ?thesis
    unfolding run by (auto simp: demo_worker_def)
qed

text \<open>The save at the end asks for no lease: a worker whose lease expired replaces the outcome of the one that took over.\<close>

lemma late_worker_overwrites:
  assumes "sq_claim_task None w1 lease now1 s = (Some t, s1)" "sq_claim_task None w2 lease now2 s1 = (Some t2, s2)" "et_id t2 = et_id t"
  shows "\<exists>t'. sq_get_task (sq_save_task now4 (t\<lparr>et_status := TaskFailed\<rparr>) (sq_save_task now3 (t2\<lparr>et_status := TaskSucceeded\<rparr>) s2)) (et_id t) =
    Some t' \<and> et_status t' = TaskFailed"
  by (simp add: sq_get_task_def sq_save_task_def sql_get_replace row_task_def)

end
