(* ===== verification/TenantStore.thy ===== *)
theory TenantStore
  imports Tenancy ControlPlane
begin

text \<open>
  \<open>src/zcoder/infrastructure/stores/enterprise_postgres.py\<close>: the PostgreSQL store of organisations, projects, jobs, API keys,
  usage, quotas and the audit log, shared by all tenants. A scoped connection sets \<open>app.current_org\<close> for one transaction, and row
  level security (RLS) confines it to the rows of that tenant if the connection's role is subject to it (\<open>td_rls\<close>). A
  transaction is one step that is rolled back by an error; where an operation reads before it inserts, what other transactions
  commit in between is the function \<open>mid\<close>. Uniqueness and foreign keys are checked across tenants, as the server does. Queries of
  the catalogue that verify the policies, and the pool, are not modelled.
\<close>

subsection \<open>Rows\<close>

record tenant_job =
  tj_organization_id :: string
  tj_row :: cp_job

record idempotency_row =
  ir_organization_id :: string
  ir_idempotency_key :: string
  ir_request_fingerprint :: string
  ir_job_id :: string

record tenant_db =
  td_rls :: bool
  td_organizations :: "organization list"
  td_projects :: "project list"
  td_api_keys :: "api_key list"
  td_jobs :: "tenant_job list"
  td_idempotency :: "idempotency_row list"
  td_usage :: "usage_event list"
  td_quotas :: "quota list"
  td_audit :: "audit_event list"

datatype store_error = TenantError tenant_error | StoreValueError string | StoreRuntimeError string
  | StoreDbError db_error | RowSecurityError

abbreviation tj_id :: "tenant_job \<Rightarrow> string" where
  "tj_id r \<equiv> cj_id (tj_row r)"

abbreviation tj_job :: "tenant_job \<Rightarrow> job" where
  "tj_job r \<equiv> cj_job (tj_row r)"

subsection \<open>Row level security and scoped transactions\<close>

text \<open>The policy of every tenant table: with \<open>app.current_org = cur\<close>, a row of \<open>org\<close> exists for the connection.\<close>

definition sees :: "tenant_db \<Rightarrow> string \<Rightarrow> string \<Rightarrow> bool" where
  "sees db cur org \<longleftrightarrow> (td_rls db \<longrightarrow> org = cur)"

definition scoped :: "request_context \<Rightarrow> (string \<Rightarrow> 's \<Rightarrow> ('e + 'a) \<times> 's) \<Rightarrow> 's \<Rightarrow> ('e + 'a) \<times> 's" where
  "scoped ctx body db = (case body (rc_organization_id ctx) db of (Inl e, _) \<Rightarrow> (Inl e, db) | (Inr x, db') \<Rightarrow> (Inr x, db'))"

text \<open>What is checked of an inserted row of a tenant: the policy, and the references to its organisation and project.\<close>

definition row_accepted :: "tenant_db \<Rightarrow> string \<Rightarrow> string \<Rightarrow> string option \<Rightarrow> store_error + unit" where
  "row_accepted db cur org proj =
     (if \<not> sees db cur org then Inl RowSecurityError
      else if sql_get og_id org (td_organizations db) = None then Inl (StoreDbError (IntegrityError ''organization_id''))
      else if (case proj of None \<Rightarrow> False | Some p \<Rightarrow> sql_get pj_id p (td_projects db) = None)
      then Inl (StoreDbError (IntegrityError ''project_id''))
      else Inr ())"

text \<open>The checks most operations begin with.\<close>

definition admitted :: "request_context \<Rightarrow> string \<Rightarrow> string option \<Rightarrow> string \<Rightarrow> tenant_error + unit" where
  "admitted ctx org proj perm =
     (case validate_tenant_access ctx org proj of Inl e \<Rightarrow> Inl e | Inr _ \<Rightarrow> require_permission ctx perm)"

subsection \<open>Organisations and projects\<close>

text \<open>\<open>organizations\<close> has no policy, and its connection no tenant.\<close>

definition create_organization :: "request_context \<Rightarrow> organization \<Rightarrow> tenant_db \<Rightarrow> (store_error + organization) \<times> tenant_db" where
  "create_organization ctx og db =
     (case (if \<not> rc_is_global_admin ctx \<and> rc_organization_id ctx \<noteq> og_id og then require_permission ctx ''org.manage'' else Inr ()) of
        Inl e \<Rightarrow> (Inl (TenantError e), db)
      | Inr _ \<Rightarrow>
          if sql_get og_id (og_id og) (td_organizations db) \<noteq> None
          then (Inr og, db\<lparr>td_organizations := sql_update (\<lambda>r. og_id r = og_id og)
            (\<lambda>r. r\<lparr>og_name := og_name og, og_status := og_status og\<rparr>) (td_organizations db)\<rparr>)
          else if sql_get og_slug (og_slug og) (td_organizations db) \<noteq> None
          then (Inl (StoreDbError (IntegrityError ''slug'')), db)
          else (Inr og, db\<lparr>td_organizations := td_organizations db @ [og]\<rparr>))"

definition get_organization :: "request_context \<Rightarrow> string \<Rightarrow> tenant_db \<Rightarrow> store_error + organization option" where
  "get_organization ctx i db =
     (case admitted ctx i None ''org.read'' of
        Inl e \<Rightarrow> Inl (TenantError e)
      | Inr _ \<Rightarrow> Inr (sql_get og_id i (td_organizations db)))"

definition insert_project :: "project \<Rightarrow> string \<Rightarrow> tenant_db \<Rightarrow> (store_error + project) \<times> tenant_db" where
  "insert_project pj cur db =
     (if \<not> sees db cur (pj_organization_id pj) then (Inl RowSecurityError, db)
      else (case sql_get pj_id (pj_id pj) (td_projects db) of
          Some r \<Rightarrow>
            if \<not> sees db cur (pj_organization_id r) then (Inl RowSecurityError, db)
            else (Inr pj, db\<lparr>td_projects := sql_update (\<lambda>r. sees db cur (pj_organization_id r) \<and> pj_id r = pj_id pj)
              (\<lambda>r. r\<lparr>pj_name := pj_name pj, pj_status := pj_status pj\<rparr>) (td_projects db)\<rparr>)
        | None \<Rightarrow>
            (case row_accepted db cur (pj_organization_id pj) None of
               Inl e \<Rightarrow> (Inl e, db)
             | Inr _ \<Rightarrow>
                 if \<exists>r \<in> set (td_projects db). pj_organization_id r = pj_organization_id pj \<and> pj_slug r = pj_slug pj
                 then (Inl (StoreDbError (IntegrityError ''slug'')), db)
                 else (Inr pj, db\<lparr>td_projects := td_projects db @ [pj]\<rparr>))))"

definition create_project :: "request_context \<Rightarrow> project \<Rightarrow> tenant_db \<Rightarrow> (store_error + project) \<times> tenant_db" where
  "create_project ctx pj db =
     (case admitted ctx (pj_organization_id pj) None ''project.manage'' of
        Inl e \<Rightarrow> (Inl (TenantError e), db)
      | Inr _ \<Rightarrow> scoped ctx (insert_project pj) db)"

subsection \<open>Jobs\<close>

definition select_job :: "tenant_db \<Rightarrow> string \<Rightarrow> string \<Rightarrow> (tenant_job \<Rightarrow> bool) \<Rightarrow> tenant_job list" where
  "select_job db cur org p = filter (\<lambda>r. sees db cur (tj_organization_id r) \<and> tj_organization_id r = org \<and> p r) (td_jobs db)"

definition fetchone :: "'r list \<Rightarrow> 'r option" where
  "fetchone rows = (case rows of [] \<Rightarrow> None | r # _ \<Rightarrow> Some r)"

definition in_project :: "request_context \<Rightarrow> tenant_job \<Rightarrow> bool" where
  "in_project ctx r \<longleftrightarrow> (if truthy_str (rc_project_id ctx) then jb_project_id (tj_job r) = rc_project_id ctx else True)"

definition key_reused :: store_error where
  "key_reused = TenantError (IdempotencyConflictError ''Idempotency key reused with a different request payload'')"

definition job_from_idempotency_row :: "request_context \<Rightarrow> tenant_job \<Rightarrow> store_error + job" where
  "job_from_idempotency_row ctx r =
     (if (case rc_project_id ctx of None \<Rightarrow> False | Some p \<Rightarrow> jb_project_id (tj_job r) \<noteq> Some p)
      then Inl (TenantError (IdempotencyConflictError ''Idempotency key is already associated with a different project scope''))
      else Inr (tj_job r))"

definition select_idempotency :: "tenant_db \<Rightarrow> string \<Rightarrow> string \<Rightarrow> idempotency_row option" where
  "select_idempotency db org key = find (\<lambda>r. ir_organization_id r = org \<and> ir_idempotency_key r = key) (td_idempotency db)"

definition recorded_job :: "request_context \<Rightarrow> string option \<Rightarrow> idempotency_row \<Rightarrow> tenant_db \<Rightarrow> store_error + job" where
  "recorded_job ctx fp row db =
     (if Some (ir_request_fingerprint row) \<noteq> fp then Inl key_reused
      else (case fetchone (select_job db (rc_organization_id ctx) (rc_organization_id ctx) (\<lambda>r. tj_id r = ir_job_id row)) of
          None \<Rightarrow> Inl (StoreRuntimeError ''idempotency record references a missing job'')
        | Some r \<Rightarrow> job_from_idempotency_row ctx r))"

definition tenant_job_row :: "string \<Rightarrow> string option \<Rightarrow> job \<Rightarrow> tenant_job" where
  "tenant_job_row org proj j = \<lparr>tj_organization_id = org, tj_row = \<lparr>cj_job = j\<lparr>jb_project_id := proj\<rparr>, cj_claimed_by = None,
     cj_claim_generation = 0, cj_lease_expires_at = 0\<rparr>\<rparr>"

text \<open>The inserting part of \<open>enqueue_job\<close>; a key that another transaction recorded first answers its job and takes the new one back.\<close>

definition insert_job ::
  "request_context \<Rightarrow> job \<Rightarrow> string option \<Rightarrow> string option \<Rightarrow> string option \<Rightarrow> string \<Rightarrow> tenant_db \<Rightarrow> (store_error + job) \<times> tenant_db" where
  "insert_job ctx j proj key fp cur db =
     (case row_accepted db cur (rc_organization_id ctx) proj of
        Inl e \<Rightarrow> (Inl e, db)
      | Inr _ \<Rightarrow>
          if sql_get tj_id (jb_id j) (td_jobs db) \<noteq> None then (Inl (StoreDbError (IntegrityError ''id'')), db)
          else (let db1 = db\<lparr>td_jobs := td_jobs db @ [tenant_job_row (rc_organization_id ctx) proj j]\<rparr> in
            if \<not> truthy_str key then (Inr j, db1)
            else (case select_idempotency db1 (rc_organization_id ctx) (the key) of
                None \<Rightarrow>
                  if sql_get ir_job_id (jb_id j) (td_idempotency db1) \<noteq> None
                  then (Inl (StoreDbError (IntegrityError ''job_id'')), db1)
                  else (Inr j, db1\<lparr>td_idempotency := td_idempotency db1 @ [\<lparr>ir_organization_id = rc_organization_id ctx,
                    ir_idempotency_key = the key, ir_request_fingerprint = the fp, ir_job_id = jb_id j\<rparr>]\<rparr>)
              | Some row \<Rightarrow>
                  if Some (ir_request_fingerprint row) \<noteq> fp then (Inl key_reused, db1)
                  else (let db2 = db1\<lparr>td_jobs := filter (\<lambda>r. \<not> (sees db1 cur (tj_organization_id r) \<and> tj_id r = jb_id j)) (td_jobs db1)\<rparr>
                    in (recorded_job ctx fp row db2, db2)))))"

definition enqueue_job ::
  "request_context \<Rightarrow> job \<Rightarrow> string option \<Rightarrow> string option \<Rightarrow> (tenant_db \<Rightarrow> tenant_db) \<Rightarrow> tenant_db \<Rightarrow> (store_error + job) \<times> tenant_db" where
  "enqueue_job ctx j key fp mid db =
     (case admitted ctx (rc_organization_id ctx) None ''job.create'' of
        Inl e \<Rightarrow> (Inl (TenantError e), db)
      | Inr _ \<Rightarrow>
          if truthy_str key \<and> (\<not> truthy_str fp \<or> length (the key) > 256)
          then (Inl (StoreValueError ''idempotency_key requires a request fingerprint and must be at most 256 characters''), db)
          else (let proj = (if truthy_str (jb_project_id j) then jb_project_id j else rc_project_id ctx) in
            case validate_tenant_access ctx (rc_organization_id ctx) proj of
              Inl e \<Rightarrow> (Inl (TenantError e), db)
            | Inr _ \<Rightarrow>
                (case (if truthy_str key then select_idempotency db (rc_organization_id ctx) (the key) else None) of
                   Some row \<Rightarrow> (recorded_job ctx fp row db, db)
                 | None \<Rightarrow> scoped ctx (insert_job ctx j proj key fp) (mid db))))"

definition tenant_get_job :: "request_context \<Rightarrow> string \<Rightarrow> tenant_db \<Rightarrow> store_error + job option" where
  "tenant_get_job ctx i db =
     (case admitted ctx (rc_organization_id ctx) None ''job.read'' of
        Inl e \<Rightarrow> Inl (TenantError e)
      | Inr _ \<Rightarrow> Inr (map_option tj_job (fetchone
          (select_job db (rc_organization_id ctx) (rc_organization_id ctx) (\<lambda>r. tj_id r = i \<and> in_project ctx r)))))"

definition tenant_list_jobs :: "request_context \<Rightarrow> nat \<Rightarrow> nat \<Rightarrow> tenant_db \<Rightarrow> store_error + job list \<times> nat" where
  "tenant_list_jobs ctx limit offset db =
     (case admitted ctx (rc_organization_id ctx) None ''job.read'' of
        Inl e \<Rightarrow> Inl (TenantError e)
      | Inr _ \<Rightarrow>
          (let rows = select_job db (rc_organization_id ctx) (rc_organization_id ctx) (in_project ctx)
           in Inr (map tj_job (take limit (drop offset (sort_key (\<lambda>r. - jb_created_at (tj_job r)) rows))), length rows)))"

definition update_job :: "tenant_db \<Rightarrow> string \<Rightarrow> (tenant_job \<Rightarrow> bool) \<Rightarrow> (cp_job \<Rightarrow> cp_job) \<Rightarrow> tenant_db" where
  "update_job db cur p f = db\<lparr>td_jobs := sql_update (\<lambda>r. sees db cur (tj_organization_id r) \<and> p r) (\<lambda>r. r\<lparr>tj_row := f (tj_row r)\<rparr>) (td_jobs db)\<rparr>"

definition set_status :: "string \<Rightarrow> real \<Rightarrow> cp_job \<Rightarrow> cp_job" where
  "set_status st now r = r\<lparr>cj_job := (cj_job r)\<lparr>jb_status := st, jb_updated_at := now\<rparr>\<rparr>"

definition cancel_job :: "request_context \<Rightarrow> string \<Rightarrow> real \<Rightarrow> tenant_db \<Rightarrow> (store_error + job option) \<times> tenant_db" where
  "cancel_job ctx i now db =
     (case admitted ctx (rc_organization_id ctx) None ''job.cancel'' of
        Inl e \<Rightarrow> (Inl (TenantError e), db)
      | Inr _ \<Rightarrow>
          (case fetchone (select_job db (rc_organization_id ctx) (rc_organization_id ctx) (\<lambda>r. tj_id r = i \<and> in_project ctx r)) of
             None \<Rightarrow> (Inr None, db)
           | Some r \<Rightarrow>
               if jb_status (tj_job r) \<notin> {''SUCCEEDED'', ''FAILED'', ''CANCELLED''}
               then (Inr (Some (cj_job (set_status ''CANCELLED'' now (tj_row r)))),
                 update_job db (rc_organization_id ctx) (\<lambda>r. tj_id r = i) (set_status ''CANCELLED'' now))
               else (Inr (Some (tj_job r)), db)))"

text \<open>
  Claims; the clock is read once. The oldest row that can be claimed is taken: that \<open>SKIP LOCKED\<close> passes over a row another claim
  has just locked, and takes the next one, is not modelled.
\<close>

definition claim_filter :: "request_context \<Rightarrow> tenant_job \<Rightarrow> bool" where
  "claim_filter ctx r \<longleftrightarrow> rc_project_id ctx = None \<or> jb_project_id (tj_job r) = rc_project_id ctx"

definition claim_job_scoped :: "request_context \<Rightarrow> string \<Rightarrow> real \<Rightarrow> real \<Rightarrow> tenant_db \<Rightarrow> (job \<times> int) option \<times> tenant_db" where
  "claim_job_scoped ctx worker lease now db =
     (case sql_first_by (\<lambda>r. jb_created_at (tj_job r)) (select_job db (rc_organization_id ctx) (rc_organization_id ctx)
             (\<lambda>r. cp_claimable now (tj_row r) \<and> claim_filter ctx r)) of
        None \<Rightarrow> (None, db)
      | Some r \<Rightarrow>
          (let same = (\<lambda>r'. tj_id r' = tj_id r \<and> tj_organization_id r' = rc_organization_id ctx \<and>
                 cj_claim_generation (tj_row r') = cj_claim_generation (tj_row r));
               db' = update_job db (rc_organization_id ctx) same
                 (cp_mark_claimed worker (now + lease) now (cj_claim_generation (tj_row r)))
           in if sql_count (\<lambda>r'. sees db (rc_organization_id ctx) (tj_organization_id r') \<and> same r') (td_jobs db) \<noteq> 1 then (None, db')
              else (Some ((tj_job r)\<lparr>jb_status := ''RUNNING'', jb_updated_at := now\<rparr>, cj_claim_generation (tj_row r) + 1), db')))"

definition tenant_owned :: "request_context \<Rightarrow> string \<Rightarrow> string \<Rightarrow> int \<Rightarrow> tenant_job \<Rightarrow> bool" where
  "tenant_owned ctx i worker token r \<longleftrightarrow> cp_owned i worker token (tj_row r) \<and> tj_organization_id r = rc_organization_id ctx \<and>
     jb_status (tj_job r) = ''RUNNING''"

definition owned_count :: "request_context \<Rightarrow> string \<Rightarrow> string \<Rightarrow> int \<Rightarrow> tenant_db \<Rightarrow> nat" where
  "owned_count ctx i worker token db = sql_count (\<lambda>r. sees db (rc_organization_id ctx) (tj_organization_id r) \<and> tenant_owned ctx i worker token r) (td_jobs db)"

definition mutate_job_scoped ::
  "request_context \<Rightarrow> string \<Rightarrow> string \<Rightarrow> int \<Rightarrow> job_status \<Rightarrow> real \<Rightarrow> real \<Rightarrow> tenant_db \<Rightarrow> bool \<times> tenant_db" where
  "mutate_job_scoped ctx i worker token st cost now db =
     (owned_count ctx i worker token db > 0,
      update_job db (rc_organization_id ctx) (tenant_owned ctx i worker token)
        (\<lambda>r. r\<lparr>cj_job := (cj_job r)\<lparr>jb_status := job_status_value st, jb_cost_usd := cost, jb_updated_at := now\<rparr>\<rparr>))"

definition renew_lease :: "request_context \<Rightarrow> string \<Rightarrow> string \<Rightarrow> int \<Rightarrow> real \<Rightarrow> real \<Rightarrow> tenant_db \<Rightarrow> bool \<times> tenant_db" where
  "renew_lease ctx i worker token lease now db =
     (owned_count ctx i worker token db > 0,
      update_job db (rc_organization_id ctx) (tenant_owned ctx i worker token)
        (\<lambda>r. r\<lparr>cj_job := (cj_job r)\<lparr>jb_updated_at := now\<rparr>, cj_lease_expires_at := now + lease\<rparr>))"

subsection \<open>API keys\<close>

definition insert_api_key :: "api_key \<Rightarrow> string \<Rightarrow> tenant_db \<Rightarrow> (store_error + unit) \<times> tenant_db" where
  "insert_api_key k cur db =
     (case row_accepted db cur (ak_organization_id k) (ak_project_id k) of
        Inl e \<Rightarrow> (Inl e, db)
      | Inr _ \<Rightarrow>
          if sql_get ak_id (ak_id k) (td_api_keys db) \<noteq> None then (Inl (StoreDbError (IntegrityError ''id'')), db)
          else (Inr (), db\<lparr>td_api_keys := td_api_keys db @ [k\<lparr>ak_last_used_at := None\<rparr>]\<rparr>))"

definition save_api_key :: "request_context \<Rightarrow> api_key \<Rightarrow> tenant_db \<Rightarrow> (store_error + unit) \<times> tenant_db" where
  "save_api_key ctx k db =
     (case admitted ctx (ak_organization_id k) None ''apikey.manage'' of
        Inl e \<Rightarrow> (Inl (TenantError e), db)
      | Inr _ \<Rightarrow> scoped ctx (insert_api_key k) db)"

text \<open>\<open>LIKE\<close> with its wildcards and the backslash as escape.\<close>

fun sql_like :: "string \<Rightarrow> string \<Rightarrow> bool" where
  "sql_like [] s = (s = [])"
| "sql_like (c # p) s =
     (if c = CHR ''%'' then list_ex (sql_like p) (suffixes s)
      else if c = CHR ''_'' then (case s of [] \<Rightarrow> False | _ # t \<Rightarrow> sql_like p t)
      else if c = CHR 0x5C then (case (p, s) of (d # q, e # t) \<Rightarrow> d = e \<and> sql_like q t | _ \<Rightarrow> False)
      else (case s of [] \<Rightarrow> False | e # t \<Rightarrow> c = e \<and> sql_like p t))"

definition candidate_orgs :: "string \<Rightarrow> tenant_db \<Rightarrow> string list" where
  "candidate_orgs raw db =
     (let parts = py_split CHR ''_'' raw;
          org_prefix = (if length parts > 1 then parts ! 1 else []);
          found = filter (\<lambda>i. sql_like (org_prefix @ ''%'') i) (map og_id (td_organizations db))
      in if found = [] then map og_id (td_organizations db) else found)"

fun probe_orgs :: "string \<Rightarrow> real \<Rightarrow> tenant_db \<Rightarrow> string list \<Rightarrow> request_context option" where
  "probe_orgs h now db [] = None"
| "probe_orgs h now db (cur # orgs) =
     (case fetchone (filter (\<lambda>k. sees db cur (ak_organization_id k) \<and> ak_secret_hash k = h \<and> ak_status k = ''ACTIVE'') (td_api_keys db)) of
        None \<Rightarrow> probe_orgs h now db orgs
      | Some k \<Rightarrow>
          if truthy_num (ak_expires_at k) \<and> now > the (ak_expires_at k) then None
          else Some (request_context_new (ak_principal_id k) (ak_organization_id k) (ak_project_id k) (role_value OPERATOR) {} ''apikey'' False))"

definition authenticate_api_key :: "(string \<Rightarrow> string) \<Rightarrow> string \<Rightarrow> real \<Rightarrow> tenant_db \<Rightarrow> request_context option" where
  "authenticate_api_key H raw now db = probe_orgs (H raw) now db (candidate_orgs raw db)"

subsection \<open>Usage and quotas\<close>

definition insert_usage :: "usage_event \<Rightarrow> string \<Rightarrow> string \<Rightarrow> tenant_db \<Rightarrow> (store_error + bool) \<times> tenant_db" where
  "insert_usage e dedup cur db =
     (if \<not> sees db cur (ue_organization_id e) then (Inl RowSecurityError, db)
      else if \<exists>r \<in> set (td_usage db). ue_dedup_key r = Some dedup then (Inr False, db)
      else (case row_accepted db cur (ue_organization_id e) (ue_project_id e) of
          Inl x \<Rightarrow> (Inl x, db)
        | Inr _ \<Rightarrow>
            if sql_get ue_id (ue_id e) (td_usage db) \<noteq> None then (Inl (StoreDbError (IntegrityError ''id'')), db)
            else (Inr True, db\<lparr>td_usage := td_usage db @ [e\<lparr>ue_dedup_key := Some dedup\<rparr>]\<rparr>)))"

text \<open>Only the tenant check raises; every error of the database is a \<open>False\<close>.\<close>

definition record_usage_event :: "request_context \<Rightarrow> usage_event \<Rightarrow> string \<Rightarrow> tenant_db \<Rightarrow> (store_error + bool) \<times> tenant_db" where
  "record_usage_event ctx e hex db =
     (case validate_tenant_access ctx (ue_organization_id e) None of
        Inl x \<Rightarrow> (Inl (TenantError x), db)
      | Inr _ \<Rightarrow>
          (let dedup = (if truthy_str (ue_dedup_key e) then the (ue_dedup_key e) else ''usage_'' @ hex) in
           case scoped ctx (insert_usage e dedup) db of
             (Inl x, db') \<Rightarrow> (Inr False, db')
           | (Inr b, db') \<Rightarrow> (Inr b, db')))"

definition monthly_quota :: "string \<Rightarrow> string \<Rightarrow> quota \<Rightarrow> bool" where
  "monthly_quota org metric q \<longleftrightarrow> qt_organization_id q = org \<and> qt_metric q = metric \<and> qt_period q = ''monthly''"

text \<open>\<open>FOR UPDATE\<close> locks the row that is found; where there is none, another transaction may insert it first.\<close>

definition insert_quota :: "string \<Rightarrow> real \<Rightarrow> real \<Rightarrow> string \<Rightarrow> tenant_db \<Rightarrow> (store_error + bool) \<times> tenant_db" where
  "insert_quota metric amount limit cur db =
     (case row_accepted db cur cur None of
        Inl x \<Rightarrow> (Inl x, db)
      | Inr _ \<Rightarrow>
          if \<exists>q \<in> set (td_quotas db). monthly_quota cur metric q then (Inl (StoreDbError (IntegrityError ''metric'')), db)
          else (Inr True, db\<lparr>td_quotas := td_quotas db @ [\<lparr>qt_organization_id = cur, qt_metric = metric, qt_limit_value = limit,
            qt_period = ''monthly'', qt_current_value = amount, qt_soft_limit_ratio = 0.8\<rparr>]\<rparr>))"

definition check_and_reserve_quota ::
  "request_context \<Rightarrow> string \<Rightarrow> real \<Rightarrow> real \<Rightarrow> (tenant_db \<Rightarrow> tenant_db) \<Rightarrow> tenant_db \<Rightarrow> (store_error + bool) \<times> tenant_db" where
  "check_and_reserve_quota ctx metric amount limit mid db =
     (case fetchone (filter (\<lambda>q. sees db (rc_organization_id ctx) (qt_organization_id q) \<and> monthly_quota (rc_organization_id ctx) metric q)
             (td_quotas db)) of
        None \<Rightarrow> scoped ctx (insert_quota metric amount limit) (mid db)
      | Some q \<Rightarrow>
          if qt_current_value q + amount > qt_limit_value q then (Inr False, db)
          else (Inr True, db\<lparr>td_quotas := sql_update (\<lambda>q. sees db (rc_organization_id ctx) (qt_organization_id q) \<and>
              monthly_quota (rc_organization_id ctx) metric q) (\<lambda>q. q\<lparr>qt_current_value := qt_current_value q + amount\<rparr>) (td_quotas db)\<rparr>))"

subsection \<open>The audit log\<close>

definition insert_audit :: "audit_event \<Rightarrow> string \<Rightarrow> tenant_db \<Rightarrow> (store_error + unit) \<times> tenant_db" where
  "insert_audit e cur db =
     (case row_accepted db cur (ev_organization_id e) None of
        Inl x \<Rightarrow> (Inl x, db)
      | Inr _ \<Rightarrow>
          if sql_get ev_event_id (ev_event_id e) (td_audit db) \<noteq> None then (Inl (StoreDbError (IntegrityError ''event_id'')), db)
          else (Inr (), db\<lparr>td_audit := td_audit db @ [e]\<rparr>))"

definition record_audit_event :: "audit_event \<Rightarrow> tenant_db \<Rightarrow> (store_error + unit) \<times> tenant_db" where
  "record_audit_event e db =
     scoped (request_context_new ''system'' (ev_organization_id e) None (role_value VIEWER) {} ''token'' False) (insert_audit e) db"

definition exported_event :: "audit_event \<Rightarrow> jobj" where
  "exported_event e = [(''event_id'', JStr (ev_event_id e)), (''organization_id'', JStr (ev_organization_id e)),
     (''actor'', JStr (ev_actor e)), (''actor_type'', JStr (ev_actor_type e)), (''action'', JStr (ev_action e)),
     (''resource'', JStr (ev_resource e)), (''result'', JStr (ev_result e)), (''timestamp'', JFloat (ev_timestamp e)),
     (''metadata'', JObj (ev_metadata e)), (''schema_version'', JStr (ev_schema_version e))]"

definition export_audit_log :: "request_context \<Rightarrow> nat \<Rightarrow> tenant_db \<Rightarrow> store_error + jobj list" where
  "export_audit_log ctx limit db =
     (case require_permission ctx ''audit.export'' of
        Inl e \<Rightarrow> Inl (TenantError e)
      | Inr _ \<Rightarrow> Inr (map exported_event (take limit (sort_key (\<lambda>e. - ev_timestamp e)
          (filter (\<lambda>e. sees db (rc_organization_id ctx) (ev_organization_id e) \<and> ev_organization_id e = rc_organization_id ctx) (td_audit db))))))"

end
