(* ===== verification/TenantIsolation.thy ===== *)
theory TenantIsolation
  imports TenantStore
begin

text \<open>
  What the tenant store promises under any sequence of transactions: the rows of a tenant are those of its own transactions, an
  idempotency key stands for one job, and a quota stays within its limit once it exists.
\<close>

subsection \<open>Transactions of tenants\<close>

text \<open>
  Any operations, in any order, by contexts whose organisation satisfies \<open>P\<close> and workers whose name satisfies \<open>W\<close>; between the read and the insert of
  \<open>enqueue_job\<close> and of \<open>check_and_reserve_quota\<close> others may commit.
\<close>

inductive txns :: "(string \<Rightarrow> bool) \<Rightarrow> (string \<Rightarrow> bool) \<Rightarrow> tenant_db \<Rightarrow> tenant_db \<Rightarrow> bool" for P W where
  txn_refl: "txns P W db db"
| txn_org: "txns P W db db1 \<Longrightarrow> txns P W db (snd (create_organization ctx og db1))"
| txn_project: "txns P W db db1 \<Longrightarrow> P (rc_organization_id ctx) \<Longrightarrow> txns P W db (snd (create_project ctx pj db1))"
| txn_enqueue: "txns P W db db1 \<Longrightarrow> P (rc_organization_id ctx) \<Longrightarrow> txns P W db1 db2 \<Longrightarrow>
    txns P W db (snd (enqueue_job ctx j key fp (\<lambda>_. db2) db1))"
| txn_cancel: "txns P W db db1 \<Longrightarrow> P (rc_organization_id ctx) \<Longrightarrow> txns P W db (snd (cancel_job ctx i now db1))"
| txn_claim: "txns P W db db1 \<Longrightarrow> P (rc_organization_id ctx) \<Longrightarrow> W w \<Longrightarrow> txns P W db (snd (claim_job_scoped ctx w lease now db1))"
| txn_mutate: "txns P W db db1 \<Longrightarrow> P (rc_organization_id ctx) \<Longrightarrow> W w \<Longrightarrow> txns P W db (snd (mutate_job_scoped ctx i w token st cost now db1))"
| txn_renew: "txns P W db db1 \<Longrightarrow> P (rc_organization_id ctx) \<Longrightarrow> W w \<Longrightarrow> txns P W db (snd (renew_lease ctx i w token lease now db1))"
| txn_key: "txns P W db db1 \<Longrightarrow> P (rc_organization_id ctx) \<Longrightarrow> txns P W db (snd (save_api_key ctx k db1))"
| txn_usage: "txns P W db db1 \<Longrightarrow> P (rc_organization_id ctx) \<Longrightarrow> txns P W db (snd (record_usage_event ctx e hex db1))"
| txn_reserve: "txns P W db db1 \<Longrightarrow> P (rc_organization_id ctx) \<Longrightarrow> txns P W db1 db2 \<Longrightarrow>
    txns P W db (snd (check_and_reserve_quota ctx m x l (\<lambda>_. db2) db1))"
| txn_audit: "txns P W db db1 \<Longrightarrow> P (ev_organization_id ev) \<Longrightarrow> txns P W db (snd (record_audit_event ev db1))"

subsection \<open>Rows of a tenant\<close>

definition tenant_rows :: "string \<Rightarrow> tenant_db \<Rightarrow> project list \<times> api_key list \<times> tenant_job list \<times> idempotency_row list \<times>
    usage_event list \<times> quota list \<times> audit_event list" where
  "tenant_rows org db =
     (filter (\<lambda>r. pj_organization_id r = org) (td_projects db), filter (\<lambda>r. ak_organization_id r = org) (td_api_keys db),
      filter (\<lambda>r. tj_organization_id r = org) (td_jobs db), filter (\<lambda>r. ir_organization_id r = org) (td_idempotency db),
      filter (\<lambda>r. ue_organization_id r = org) (td_usage db), filter (\<lambda>r. qt_organization_id r = org) (td_quotas db),
      filter (\<lambda>r. ev_organization_id r = org) (td_audit db))"

text \<open>A transaction is foreign to a tenant if it leaves its rows, and the role of the connection, alone.\<close>

definition foreign :: "string \<Rightarrow> tenant_db \<Rightarrow> tenant_db \<Rightarrow> bool" where
  "foreign org db db' \<longleftrightarrow> tenant_rows org db' = tenant_rows org db \<and> td_rls db' = td_rls db"

lemma foreign_refl [simp]: "foreign org db db"
  by (simp add: foreign_def)

lemma foreign_trans: "foreign org db db1 \<Longrightarrow> foreign org db1 db2 \<Longrightarrow> foreign org db db2"
  by (simp add: foreign_def)

lemma foreign_scoped:
  assumes "\<And>x db'. body (rc_organization_id ctx) db = (Inr x, db') \<Longrightarrow> foreign org db db'"
  shows "foreign org db (snd (scoped ctx body db))"
proof (cases "body (rc_organization_id ctx) db")
  case (Pair r db')
  then show ?thesis using assms by (cases r) (simp_all add: scoped_def)
qed

lemma sees_other: "td_rls db \<Longrightarrow> cur \<noteq> org \<Longrightarrow> \<not> sees db cur org"
  by (simp add: sees_def)

lemma sees_own [simp]: "sees db cur cur"
  by (simp add: sees_def)

lemma filter_update_foreign:
  assumes "\<And>r. key (f r) = key r" "\<And>r. p r \<Longrightarrow> key r \<noteq> org"
  shows "filter (\<lambda>r. key r = org) (sql_update p f t) = filter (\<lambda>r. key r = org) t"
  using assms by (induction t) (auto simp: sql_update_def)

lemma row_accepted_own: "td_rls db \<Longrightarrow> row_accepted db cur org proj = Inr u \<Longrightarrow> org = cur"
  by (auto simp: row_accepted_def sees_def split: if_splits)

lemma foreign_update_job:
  assumes "\<And>r. sees db cur (tj_organization_id r) \<Longrightarrow> p r \<Longrightarrow> tj_organization_id r \<noteq> org"
  shows "foreign org db (update_job db cur p f)"
proof -
  have "filter (\<lambda>r. tj_organization_id r = org) (sql_update (\<lambda>r. sees db cur (tj_organization_id r) \<and> p r)
      (\<lambda>r. r\<lparr>tj_row := f (tj_row r)\<rparr>) (td_jobs db)) = filter (\<lambda>r. tj_organization_id r = org) (td_jobs db)"
    by (rule filter_update_foreign [where key = tj_organization_id]) (use assms in auto)
  then show ?thesis by (simp add: foreign_def tenant_rows_def update_job_def)
qed

lemma foreign_update_job_rls: "td_rls db \<Longrightarrow> cur \<noteq> org \<Longrightarrow> foreign org db (update_job db cur p f)"
  by (rule foreign_update_job) (simp add: sees_def)

lemma foreign_create_organization: "foreign org db (snd (create_organization ctx og db))"
  by (simp add: foreign_def tenant_rows_def create_organization_def split: sum.split)

lemma foreign_insert_project:
  assumes "td_rls db" "cur \<noteq> org" "insert_project pj cur db = (Inr x, db')"
  shows "foreign org db db'"
proof -
  have o: "pj_organization_id pj = cur" using assms(1,3) by (auto simp: insert_project_def sees_def split: if_splits)
  have "filter (\<lambda>r. pj_organization_id r = org) (sql_update (\<lambda>r. sees db cur (pj_organization_id r) \<and> pj_id r = pj_id pj)
      (\<lambda>r. r\<lparr>pj_name := pj_name pj, pj_status := pj_status pj\<rparr>) (td_projects db)) = filter (\<lambda>r. pj_organization_id r = org) (td_projects db)"
    by (rule filter_update_foreign [where key = pj_organization_id]) (use assms(1,2) in \<open>auto simp: sees_def\<close>)
  then show ?thesis using assms o
    by (auto simp: insert_project_def foreign_def tenant_rows_def split: if_splits option.splits sum.splits)
qed

lemma foreign_insert_job:
  assumes "td_rls db" "rc_organization_id ctx \<noteq> org" "insert_job ctx j proj key fp (rc_organization_id ctx) db = (Inr x, db')"
  shows "foreign org db db'"
proof -
  have "filter (\<lambda>r. tj_organization_id r = org) (filter (\<lambda>r. \<not> (sees db (rc_organization_id ctx) (tj_organization_id r) \<and> tj_id r = jb_id j))
      (td_jobs db @ [tenant_job_row (rc_organization_id ctx) proj j])) = filter (\<lambda>r. tj_organization_id r = org) (td_jobs db)"
    using assms(1,2) by (auto simp: sees_def tenant_job_row_def intro!: filter_cong)
  moreover have "sees (db\<lparr>td_jobs := t\<rparr>) = sees db" for t by (simp add: fun_eq_iff sees_def)
  ultimately show ?thesis using assms(2,3)
    by (auto simp: insert_job_def Let_def foreign_def tenant_rows_def tenant_job_row_def split: if_splits option.splits sum.splits)
qed

lemma foreign_cancel: "td_rls db \<Longrightarrow> rc_organization_id ctx \<noteq> org \<Longrightarrow> foreign org db (snd (cancel_job ctx i now db))"
  by (simp add: cancel_job_def foreign_update_job_rls split: sum.split option.split)

lemma foreign_claim: "td_rls db \<Longrightarrow> rc_organization_id ctx \<noteq> org \<Longrightarrow> foreign org db (snd (claim_job_scoped ctx w lease now db))"
  by (simp add: claim_job_scoped_def Let_def foreign_update_job_rls split: option.split)

lemma foreign_insert_api_key:
  "td_rls db \<Longrightarrow> cur \<noteq> org \<Longrightarrow> insert_api_key k cur db = (Inr x, db') \<Longrightarrow> foreign org db db'"
  by (auto simp: insert_api_key_def foreign_def tenant_rows_def split: sum.splits if_splits dest: row_accepted_own)

lemma foreign_insert_usage:
  "td_rls db \<Longrightarrow> cur \<noteq> org \<Longrightarrow> insert_usage e d cur db = (Inr x, db') \<Longrightarrow> foreign org db db'"
  by (auto simp: insert_usage_def foreign_def tenant_rows_def split: sum.splits if_splits dest: row_accepted_own)

lemma foreign_insert_quota:
  "cur \<noteq> org \<Longrightarrow> insert_quota m x l cur db = (Inr y, db') \<Longrightarrow> foreign org db db'"
  by (auto simp: insert_quota_def foreign_def tenant_rows_def split: sum.splits if_splits)

lemma foreign_insert_audit:
  "td_rls db \<Longrightarrow> cur \<noteq> org \<Longrightarrow> insert_audit e cur db = (Inr y, db') \<Longrightarrow> foreign org db db'"
  by (auto simp: insert_audit_def foreign_def tenant_rows_def split: sum.splits if_splits dest: row_accepted_own)

lemma foreign_usage:
  assumes "td_rls db" "rc_organization_id ctx \<noteq> org"
  shows "foreign org db (snd (record_usage_event ctx e hex db))"
proof -
  have "foreign org db (snd (scoped ctx (insert_usage e d) db))" for d
    by (rule foreign_scoped) (rule foreign_insert_usage [OF assms])
  then have "foreign org db db'" if "scoped ctx (insert_usage e d) db = (r, db')" for d r db' by (metis that snd_conv)
  then show ?thesis unfolding record_usage_event_def Let_def by (auto split: sum.split prod.split)
qed

lemma foreign_reserve:
  assumes "td_rls db" "rc_organization_id ctx \<noteq> org" "foreign org db db1"
  shows "foreign org db (snd (check_and_reserve_quota ctx m x l (\<lambda>_. db1) db))"
proof -
  have "foreign org db1 (snd (scoped ctx (insert_quota m x l) db1))"
    by (rule foreign_scoped) (rule foreign_insert_quota [OF assms(2)])
  then have 1: "foreign org db (snd (scoped ctx (insert_quota m x l) db1))" using assms(3) foreign_trans by blast
  have "filter (\<lambda>r. qt_organization_id r = org) (sql_update (\<lambda>q. sees db (rc_organization_id ctx) (qt_organization_id q) \<and>
      monthly_quota (rc_organization_id ctx) m q) (\<lambda>q. q\<lparr>qt_current_value := qt_current_value q + x\<rparr>) (td_quotas db)) =
    filter (\<lambda>r. qt_organization_id r = org) (td_quotas db)"
    by (rule filter_update_foreign [where key = qt_organization_id]) (use assms(2) in \<open>auto simp: monthly_quota_def\<close>)
  then have 2: "foreign org db (db\<lparr>td_quotas := sql_update (\<lambda>q. sees db (rc_organization_id ctx) (qt_organization_id q) \<and>
      monthly_quota (rc_organization_id ctx) m q) (\<lambda>q. q\<lparr>qt_current_value := qt_current_value q + x\<rparr>) (td_quotas db)\<rparr>)"
    by (simp add: foreign_def tenant_rows_def)
  show ?thesis unfolding check_and_reserve_quota_def using 1 2 by (simp split: option.split)
qed

lemma foreign_enqueue:
  assumes "td_rls db" "rc_organization_id ctx \<noteq> org" "foreign org db db1"
  shows "foreign org db (snd (enqueue_job ctx j key fp (\<lambda>_. db1) db))"
proof -
  have "td_rls db1" using assms(1,3) by (simp add: foreign_def)
  have "foreign org db1 (snd (scoped ctx (insert_job ctx j proj key fp) db1))" for proj
    by (rule foreign_scoped) (rule foreign_insert_job [OF \<open>td_rls db1\<close> assms(2)])
  then have "foreign org db (snd (scoped ctx (insert_job ctx j proj key fp) db1))" for proj using assms(3) foreign_trans by blast
  then show ?thesis by (simp add: enqueue_job_def Let_def split: sum.split option.split)
qed

lemma txns_foreign: "txns P W db db' \<Longrightarrow> \<not> P org \<Longrightarrow> td_rls db \<Longrightarrow> foreign org db db'"
proof (induction rule: txns.induct)
  case (txn_project db db1 ctx pj)
  then have f: "foreign org db db1" "td_rls db1" "rc_organization_id ctx \<noteq> org" by (auto simp: foreign_def)
  have "foreign org db1 (snd (create_project ctx pj db1))"
    by (simp add: create_project_def foreign_scoped [OF foreign_insert_project [OF f(2,3)]] split: sum.split)
  then show ?case using f(1) foreign_trans by blast
next
  case (txn_enqueue db db1 ctx db2 j key fp)
  then have f: "foreign org db db1" "td_rls db1" "rc_organization_id ctx \<noteq> org" by (auto simp: foreign_def)
  show ?case using foreign_trans [OF f(1) foreign_enqueue [OF f(2,3)]] txn_enqueue.IH(2) txn_enqueue.prems(1) f(2) by blast
next
  case (txn_reserve db db1 ctx db2 m x l)
  then have f: "foreign org db db1" "td_rls db1" "rc_organization_id ctx \<noteq> org" by (auto simp: foreign_def)
  show ?case using foreign_trans [OF f(1) foreign_reserve [OF f(2,3)]] txn_reserve.IH(2) txn_reserve.prems(1) f(2) by blast
next
  case (txn_key db db1 ctx k)
  then have f: "foreign org db db1" "td_rls db1" "rc_organization_id ctx \<noteq> org" by (auto simp: foreign_def)
  have "foreign org db1 (snd (scoped ctx (insert_api_key k) db1))" by (rule foreign_scoped, rule foreign_insert_api_key [OF f(2,3)])
  then have "foreign org db1 (snd (save_api_key ctx k db1))" by (simp add: save_api_key_def split: sum.split)
  then show ?case using f(1) foreign_trans by blast
next
  case (txn_audit db db1 ev)
  then have f: "foreign org db db1" "td_rls db1" "ev_organization_id ev \<noteq> org" by (auto simp: foreign_def)
  have "foreign org db1 (snd (record_audit_event ev db1))"
    unfolding record_audit_event_def by (rule foreign_scoped, rule foreign_insert_audit) (use f(2,3) in auto)
  then show ?case using f(1) foreign_trans by blast
next
  case (txn_org db db1 ctx og)
  then show ?case using foreign_create_organization foreign_trans by blast
next
  case (txn_cancel db db1 ctx i now)
  then have f: "foreign org db db1" "td_rls db1" "rc_organization_id ctx \<noteq> org" by (auto simp: foreign_def)
  show ?case using foreign_trans [OF f(1) foreign_cancel [OF f(2,3)]] .
next
  case (txn_claim db db1 ctx w lease now)
  then have f: "foreign org db db1" "td_rls db1" "rc_organization_id ctx \<noteq> org" by (auto simp: foreign_def)
  show ?case using foreign_trans [OF f(1) foreign_claim [OF f(2,3)]] .
next
  case (txn_mutate db db1 ctx i w token st cost now)
  then have f: "foreign org db db1" "td_rls db1" "rc_organization_id ctx \<noteq> org" by (auto simp: foreign_def)
  show ?case using foreign_trans [OF f(1) foreign_update_job_rls [OF f(2,3)]] by (simp add: mutate_job_scoped_def)
next
  case (txn_renew db db1 ctx i w token lease now)
  then have f: "foreign org db db1" "td_rls db1" "rc_organization_id ctx \<noteq> org" by (auto simp: foreign_def)
  show ?case using foreign_trans [OF f(1) foreign_update_job_rls [OF f(2,3)]] by (simp add: renew_lease_def)
next
  case (txn_usage db db1 ctx e hex)
  then have f: "foreign org db db1" "td_rls db1" "rc_organization_id ctx \<noteq> org" by (auto simp: foreign_def)
  show ?case using foreign_trans [OF f(1) foreign_usage [OF f(2,3)]] .
qed simp

subsection \<open>Isolation\<close>

text \<open>What a read of a context returns depends on the rows of its organisation only.\<close>

lemma select_job_own: "select_job db org org p = filter p (filter (\<lambda>r. tj_organization_id r = org) (td_jobs db))"
  by (auto simp: select_job_def intro!: filter_cong)

lemma reads_depend_on_own_rows:
  assumes "tenant_rows (rc_organization_id ctx) db' = tenant_rows (rc_organization_id ctx) db"
  shows "tenant_get_job ctx i db' = tenant_get_job ctx i db \<and> tenant_list_jobs ctx n m db' = tenant_list_jobs ctx n m db \<and>
    export_audit_log ctx n db' = export_audit_log ctx n db"
proof -
  have rows: "filter (\<lambda>r. tj_organization_id r = rc_organization_id ctx) (td_jobs db') = filter (\<lambda>r. tj_organization_id r = rc_organization_id ctx) (td_jobs db)"
    "filter (\<lambda>r. ev_organization_id r = rc_organization_id ctx) (td_audit db') = filter (\<lambda>r. ev_organization_id r = rc_organization_id ctx) (td_audit db)"
    using assms unfolding tenant_rows_def prod.inject by blast+
  have own: "filter (\<lambda>e. sees d (rc_organization_id ctx) (ev_organization_id e) \<and> ev_organization_id e = rc_organization_id ctx) t =
    filter (\<lambda>e. ev_organization_id e = rc_organization_id ctx) t" for d t by (rule filter_cong [OF refl]) auto
  show ?thesis unfolding tenant_get_job_def tenant_list_jobs_def export_audit_log_def select_job_own own rows by (intro conjI refl)
qed

text \<open>
  C2: tenants are isolated. On a connection that is subject to row level security, any sequence of operations by contexts of
  other organisations, of whatever role and global administrators among them, leaves the projects, keys, jobs, idempotency keys,
  usage, quotas and audit events of an organisation as they were, and the answers its own contexts get do not change. (Organisations
  themselves have no policy.)
\<close>

theorem tenants_are_isolated:
  assumes "txns (\<lambda>org'. org' \<noteq> rc_organization_id ctx) (\<lambda>_. True) db db'" "td_rls db"
  shows "tenant_rows (rc_organization_id ctx) db' = tenant_rows (rc_organization_id ctx) db \<and> tenant_get_job ctx i db' = tenant_get_job ctx i db \<and>
    tenant_list_jobs ctx n m db' = tenant_list_jobs ctx n m db \<and> export_audit_log ctx n db' = export_audit_log ctx n db"
proof -
  have "tenant_rows (rc_organization_id ctx) db' = tenant_rows (rc_organization_id ctx) db"
    using txns_foreign [OF assms(1) _ assms(2), of "rc_organization_id ctx"] by (simp add: foreign_def)
  then show ?thesis using reads_depend_on_own_rows by blast
qed

definition demo_org :: "string \<Rightarrow> organization" where
  "demo_org i = \<lparr>og_id = i, og_name = i, og_slug = i, og_status = OrgActive, og_created_at = 0, og_metadata = []\<rparr>"

definition demo_tenant_ctx :: "string \<Rightarrow> enterprise_role \<Rightarrow> request_context" where
  "demo_tenant_ctx org role = request_context_new ''u'' org None (role_value role) {} ''token'' False"

definition demo_tenants :: tenant_db where
  "demo_tenants = \<lparr>td_rls = True, td_organizations = [demo_org ''a'', demo_org ''b''], td_projects = [], td_api_keys = [],
     td_jobs = [tenant_job_row ''a'' None (demo_job\<lparr>jb_status := ''READY''\<rparr>)], td_idempotency = [], td_usage = [], td_quotas = [],
     td_audit = []\<rparr>"

theorem tenants_are_isolated_witness:
  "tenant_get_job (demo_tenant_ctx ''a'' VIEWER) ''j'' (snd (claim_job_scoped (demo_tenant_ctx ''b'' OPERATOR) ''w'' 60 5
      (snd (enqueue_job (demo_tenant_ctx ''b'' OPERATOR) (demo_job\<lparr>jb_id := ''k''\<rparr>) None None (\<lambda>_. demo_tenants) demo_tenants)))) =
    Inr (Some (demo_job\<lparr>jb_status := ''READY''\<rparr>))"
proof -
  let ?b = "demo_tenant_ctx ''b'' OPERATOR"
  let ?db = "snd (claim_job_scoped ?b ''w'' 60 5 (snd (enqueue_job ?b (demo_job\<lparr>jb_id := ''k''\<rparr>) None None (\<lambda>_. demo_tenants) demo_tenants)))"
  have "txns (\<lambda>org'. org' \<noteq> rc_organization_id (demo_tenant_ctx ''a'' VIEWER)) (\<lambda>_. True) demo_tenants ?db"
    by (intro txn_claim txn_enqueue txn_refl) (simp_all add: demo_tenant_ctx_def)
  from tenants_are_isolated [OF this, of "''j''"]
  have "tenant_get_job (demo_tenant_ctx ''a'' VIEWER) ''j'' ?db = tenant_get_job (demo_tenant_ctx ''a'' VIEWER) ''j'' demo_tenants" by (simp add: demo_tenants_def)
  also have "\<dots> = Inr (Some (demo_job\<lparr>jb_status := ''READY''\<rparr>))" by code_simp
  finally show ?thesis .
qed

text \<open>
  the organisations themselves are not guarded. Whoever may manage the own organisation, or merely belongs to the one named,
  whatever the role, overwrites name and status of an existing organisation: an owner can suspend another tenant, and a viewer of a
  suspended one can set it active again.
\<close>

theorem organizations_are_not_guarded:
  assumes "has_permission ctx ''org.manage'' \<or> rc_organization_id ctx = og_id og" "sql_get og_id (og_id og) (td_organizations db) = Some r"
  shows "\<exists>db'. create_organization ctx og db = (Inr og, db') \<and>
    sql_get og_id (og_id og) (td_organizations db') = Some (r\<lparr>og_name := og_name og, og_status := og_status og\<rparr>)"
  using assms sql_get_SomeD [OF assms(2)]
  by (auto simp: create_organization_def require_permission_def has_permission_def sql_get_update split: if_splits)

theorem organizations_are_not_guarded_witness:
  "\<not> has_permission (demo_tenant_ctx ''a'' VIEWER) ''org.manage'' \<and>
   (\<exists>db'. create_organization (demo_tenant_ctx ''a'' VIEWER) (demo_org ''a'')
      (demo_tenants\<lparr>td_organizations := [demo_org ''a''\<lparr>og_status := OrgSuspended\<rparr>]\<rparr>) = (Inr (demo_org ''a''), db') \<and>
    map_option og_status (sql_get og_id ''a'' (td_organizations db')) = Some OrgActive) \<and>
   (\<exists>db'. create_organization (demo_tenant_ctx ''b'' ORG_OWNER) (demo_org ''a''\<lparr>og_status := OrgSuspended\<rparr>) demo_tenants =
      (Inr (demo_org ''a''\<lparr>og_status := OrgSuspended\<rparr>), db') \<and>
    map_option og_status (sql_get og_id ''a'' (td_organizations db')) = Some OrgSuspended)"
proof -
  have 1: "\<not> has_permission (demo_tenant_ctx ''a'' VIEWER) ''org.manage''" by (simp add: demo_tenant_ctx_def has_permission_def del: role_value.simps)
  have p: "has_permission (demo_tenant_ctx ''a'' VIEWER) ''org.manage'' \<or> rc_organization_id (demo_tenant_ctx ''a'' VIEWER) = og_id (demo_org ''a'')"
    "has_permission (demo_tenant_ctx ''b'' ORG_OWNER) ''org.manage'' \<or>
      rc_organization_id (demo_tenant_ctx ''b'' ORG_OWNER) = og_id (demo_org ''a''\<lparr>og_status := OrgSuspended\<rparr>)"
    by (simp_all add: demo_tenant_ctx_def demo_org_def has_permission_def del: role_value.simps)
  have g: "sql_get og_id (og_id (demo_org ''a'')) (td_organizations (demo_tenants\<lparr>td_organizations := [demo_org ''a''\<lparr>og_status := OrgSuspended\<rparr>]\<rparr>)) =
      Some (demo_org ''a''\<lparr>og_status := OrgSuspended\<rparr>)"
    "sql_get og_id (og_id (demo_org ''a''\<lparr>og_status := OrgSuspended\<rparr>)) (td_organizations demo_tenants) = Some (demo_org ''a'')"
    by (simp_all add: demo_org_def demo_tenants_def sql_get_def)
  show ?thesis using 1 organizations_are_not_guarded [OF p(1) g(1)] organizations_are_not_guarded [OF p(2) g(2)]
    by (auto simp: demo_org_def)
qed

subsection \<open>One job per idempotency key\<close>

text \<open>The keys of the tables, and the job of every idempotency record.\<close>

definition tenant_inv :: "tenant_db \<Rightarrow> bool" where
  "tenant_inv db \<longleftrightarrow> unique_key tj_id (td_jobs db) \<and> unique_key (\<lambda>r. (ir_organization_id r, ir_idempotency_key r)) (td_idempotency db) \<and>
     (\<forall>row \<in> set (td_idempotency db). \<exists>r \<in> set (td_jobs db). tj_id r = ir_job_id row \<and> tj_organization_id r = ir_organization_id row)"

text \<open>What stays of a job that was stored, under transactions in which only workers of \<open>W\<close> take part; records stay.\<close>

definition held_by :: "(string \<Rightarrow> bool) \<Rightarrow> tenant_job \<Rightarrow> bool" where
  "held_by W r \<longleftrightarrow> (case cj_claimed_by (tj_row r) of None \<Rightarrow> False | Some w \<Rightarrow> W w)"

definition same_job :: "(string \<Rightarrow> bool) \<Rightarrow> tenant_job \<Rightarrow> tenant_job \<Rightarrow> bool" where
  "same_job W r r' \<longleftrightarrow> tj_id r' = tj_id r \<and> tj_organization_id r' = tj_organization_id r \<and> jb_project_id (tj_job r') = jb_project_id (tj_job r) \<and>
     cj_claim_generation (tj_row r) \<le> cj_claim_generation (tj_row r') \<and>
     (cj_claim_generation (tj_row r') = cj_claim_generation (tj_row r) \<longrightarrow> \<not> held_by W r \<longrightarrow>
        cj_claimed_by (tj_row r') = cj_claimed_by (tj_row r) \<and> jb_status (tj_job r') \<in> {jb_status (tj_job r), ''CANCELLED''})"

definition keeps_jobs :: "(string \<Rightarrow> bool) \<Rightarrow> tenant_db \<Rightarrow> tenant_db \<Rightarrow> bool" where
  "keeps_jobs W db db' \<longleftrightarrow> set (td_idempotency db) \<subseteq> set (td_idempotency db') \<and> (\<forall>r \<in> set (td_jobs db). \<exists>r' \<in> set (td_jobs db'). same_job W r r')"

lemma same_job_refl [simp]: "same_job W r r"
  by (simp add: same_job_def)

lemma same_job_trans: "same_job W r r1 \<Longrightarrow> same_job W r1 r2 \<Longrightarrow> same_job W r r2"
  unfolding same_job_def held_by_def by (auto split: option.splits)

lemma keeps_same_tables:
  "set (td_idempotency db) \<subseteq> set (td_idempotency db') \<Longrightarrow> set (td_jobs db) \<subseteq> set (td_jobs db') \<Longrightarrow> keeps_jobs W db db'"
  unfolding keeps_jobs_def using same_job_refl by blast

lemma keeps_jobs_refl [simp]: "keeps_jobs W db db"
  by (simp add: keeps_same_tables)

lemma keeps_jobs_trans: "keeps_jobs W db db1 \<Longrightarrow> keeps_jobs W db1 db2 \<Longrightarrow> keeps_jobs W db db2"
  unfolding keeps_jobs_def by (meson same_job_trans subset_trans)

definition good :: "(string \<Rightarrow> bool) \<Rightarrow> tenant_db \<Rightarrow> tenant_db \<Rightarrow> bool" where
  "good W db db' \<longleftrightarrow> tenant_inv db' \<and> keeps_jobs W db db'"

lemma good_trans: "good W db db1 \<Longrightarrow> good W db1 db2 \<Longrightarrow> good W db db2"
  by (auto simp: good_def intro: keeps_jobs_trans)

lemma good_other_tables: "tenant_inv db \<Longrightarrow> td_jobs db' = td_jobs db \<Longrightarrow> td_idempotency db' = td_idempotency db \<Longrightarrow> good W db db'"
  unfolding good_def using keeps_same_tables [of db db'] by (intro conjI) (simp_all add: tenant_inv_def)

lemma good_update_job:
  assumes "tenant_inv db" "\<And>r. r \<in> set (td_jobs db) \<Longrightarrow> p r \<Longrightarrow> same_job W r (r\<lparr>tj_row := f (tj_row r)\<rparr>)"
  shows "good W db (update_job db cur p f)"
proof -
  let ?u = "\<lambda>r. if sees db cur (tj_organization_id r) \<and> p r then r\<lparr>tj_row := f (tj_row r)\<rparr> else r"
  have u: "same_job W r (?u r)" if "r \<in> set (td_jobs db)" for r using assms(2) [OF that] by simp
  have s: "td_jobs (update_job db cur p f) = map ?u (td_jobs db)" "td_idempotency (update_job db cur p f) = td_idempotency db"
    by (simp_all add: update_job_def sql_update_def)
  have "map tj_id (map ?u (td_jobs db)) = map tj_id (td_jobs db)" unfolding map_map
    by (rule map_cong [OF refl]) (use u in \<open>auto simp: same_job_def\<close>)
  then have 1: "unique_key tj_id (map ?u (td_jobs db))" using assms(1) by (simp only: tenant_inv_def unique_key_def)
  have 2: "\<exists>r \<in> set (map ?u (td_jobs db)). tj_id r = i \<and> tj_organization_id r = o'"
    if "\<exists>r \<in> set (td_jobs db). tj_id r = i \<and> tj_organization_id r = o'" for i o'
  proof -
    from that obtain r where r: "r \<in> set (td_jobs db)" "tj_id r = i" "tj_organization_id r = o'" by blast
    have m: "?u r \<in> set (map ?u (td_jobs db))" unfolding set_map by (rule imageI [OF r(1)])
    show ?thesis by (rule bexI [OF _ m]) (use u [OF r(1)] r(2,3) in \<open>simp only: same_job_def\<close>)
  qed
  have 3: "\<exists>r' \<in> set (map ?u (td_jobs db)). same_job W r r'" if "r \<in> set (td_jobs db)" for r
    unfolding set_map by (rule bexI [where x = "?u r"], rule u [OF that], rule imageI, rule that)
  have "\<forall>row \<in> set (td_idempotency db). \<exists>r \<in> set (map ?u (td_jobs db)). tj_id r = ir_job_id row \<and> tj_organization_id r = ir_organization_id row"
    using assms(1) by (intro ballI 2) (simp add: tenant_inv_def)
  moreover have "unique_key (\<lambda>r. (ir_organization_id r, ir_idempotency_key r)) (td_idempotency db)" using assms(1) by (simp only: tenant_inv_def)
  ultimately have "tenant_inv (update_job db cur p f)" unfolding tenant_inv_def s using 1 by (intro conjI)
  moreover have "keeps_jobs W db (update_job db cur p f)" unfolding keeps_jobs_def s by (intro conjI ballI 3 subset_refl)
  ultimately show ?thesis unfolding good_def by (rule conjI)
qed

text \<open>The updates of the store are of this kind.\<close>

lemma good_cancelled: "tenant_inv db \<Longrightarrow> good W db (update_job db cur p (set_status ''CANCELLED'' now))"
  by (rule good_update_job) (simp_all add: same_job_def set_status_def)

lemma good_claimed:
  "tenant_inv db \<Longrightarrow> good W db (update_job db cur (\<lambda>r'. tj_id r' = i \<and> tj_organization_id r' = org \<and> cj_claim_generation (tj_row r') = g)
     (cp_mark_claimed w e now g))"
  by (rule good_update_job) (auto simp: same_job_def cp_mark_claimed_def)

lemma good_owned:
  assumes "tenant_inv db" "W w" "\<And>r. cj_id (f r) = cj_id r \<and> jb_project_id (cj_job (f r)) = jb_project_id (cj_job r) \<and>
    cj_claim_generation (f r) = cj_claim_generation r \<and> cj_claimed_by (f r) = cj_claimed_by r"
  shows "good W db (update_job db cur (tenant_owned ctx i w token) f)"
  by (rule good_update_job [OF assms(1)]) (use assms(2,3) in \<open>auto simp: same_job_def held_by_def tenant_owned_def cp_owned_def\<close>)

lemma good_append_job:
  assumes "tenant_inv db" "sql_get tj_id (tj_id r) (td_jobs db) = None" "td_jobs db' = td_jobs db @ [r]" "td_idempotency db' = td_idempotency db"
  shows "good W db db'"
proof -
  have "keeps_jobs W db db'" by (rule keeps_same_tables) (use assms(3,4) in auto)
  then show ?thesis using assms by (auto simp: good_def tenant_inv_def unique_key_def table_simps)
qed

lemma good_append_record:
  assumes "tenant_inv db" "r \<in> set (td_jobs db)" "tj_id r = ir_job_id row" "tj_organization_id r = ir_organization_id row"
    "select_idempotency db (ir_organization_id row) (ir_idempotency_key row) = None"
    "td_jobs db' = td_jobs db" "td_idempotency db' = td_idempotency db @ [row]"
  shows "good W db db'"
proof -
  have "keeps_jobs W db db'" by (rule keeps_same_tables) (use assms(6,7) in auto)
  then show ?thesis using assms by (auto simp: good_def tenant_inv_def unique_key_def select_idempotency_def find_None_iff)
qed

lemma good_scoped:
  assumes "tenant_inv db" "\<And>x db'. body (rc_organization_id ctx) db = (Inr x, db') \<Longrightarrow> good W db db'"
  shows "good W db (snd (scoped ctx body db))"
proof (cases "body (rc_organization_id ctx) db")
  case (Pair r db')
  then show ?thesis using assms good_other_tables [OF assms(1), of db] by (cases r) (simp_all add: scoped_def)
qed

lemma sql_get_fresh: "sql_get key i t = None \<Longrightarrow> filter (\<lambda>r. \<not> (p r \<and> key r = i)) t = t"
  by (auto simp: table_simps filter_id_conv)

text \<open>What inserting a job does: a job, a job with its record, or, for a key that is taken, nothing.\<close>

lemma insert_job_cases:
  assumes "insert_job ctx j proj key fp (rc_organization_id ctx) db = (Inr x, db')"
  obtains (no_key) "\<not> truthy_str key" "x = j" "sql_get tj_id (jb_id j) (td_jobs db) = None"
      "db' = db\<lparr>td_jobs := td_jobs db @ [tenant_job_row (rc_organization_id ctx) proj j]\<rparr>"
  | (recorded) "truthy_str key" "x = j" "sql_get tj_id (jb_id j) (td_jobs db) = None"
      "select_idempotency db (rc_organization_id ctx) (the key) = None"
      "db' = db\<lparr>td_jobs := td_jobs db @ [tenant_job_row (rc_organization_id ctx) proj j], td_idempotency := td_idempotency db @
        [\<lparr>ir_organization_id = rc_organization_id ctx, ir_idempotency_key = the key, ir_request_fingerprint = the fp, ir_job_id = jb_id j\<rparr>]\<rparr>"
  | (taken) row where "truthy_str key" "select_idempotency db (rc_organization_id ctx) (the key) = Some row"
      "Some (ir_request_fingerprint row) = fp" "recorded_job ctx fp row db = Inr x" "db' = db"
proof -
  let ?db1 = "db\<lparr>td_jobs := td_jobs db @ [tenant_job_row (rc_organization_id ctx) proj j]\<rparr>"
  have acc: "row_accepted db (rc_organization_id ctx) (rc_organization_id ctx) proj = Inr ()"
    and fresh: "sql_get tj_id (jb_id j) (td_jobs db) = None"
    using assms by (auto simp: insert_job_def split: sum.splits if_splits)
  have i: "select_idempotency ?db1 = select_idempotency db" by (simp add: fun_eq_iff select_idempotency_def)
  have d: "?db1\<lparr>td_jobs := filter (\<lambda>r. \<not> (sees ?db1 (rc_organization_id ctx) (tj_organization_id r) \<and> tj_id r = jb_id j)) (td_jobs ?db1)\<rparr> = db"
    using sql_get_fresh [OF fresh] by (simp add: tenant_job_row_def)
  show thesis
  proof (cases "truthy_str key")
    case False
    show thesis by (rule no_key) (use assms acc fresh False in \<open>auto simp: insert_job_def Let_def\<close>)
  next
    case True
    show thesis
    proof (cases "select_idempotency db (rc_organization_id ctx) (the key)")
      case None
      show thesis by (rule recorded) (use assms acc fresh True None i in \<open>auto simp: insert_job_def Let_def split: if_splits\<close>)
    next
      case (Some row)
      have "insert_job ctx j proj key fp (rc_organization_id ctx) db =
          (if Some (ir_request_fingerprint row) \<noteq> fp then (Inl key_reused, ?db1) else (recorded_job ctx fp row db, db))"
        unfolding insert_job_def acc Let_def d sum.case using fresh True Some i by simp
      then show thesis using taken [OF True Some] assms by (auto split: if_splits)
    qed
  qed
qed

lemma good_insert_job:
  assumes "tenant_inv db" "insert_job ctx j proj key fp (rc_organization_id ctx) db = (Inr x, db')"
  shows "good W db db'"
  using assms(2)
proof (cases rule: insert_job_cases)
  case no_key
  then show ?thesis by (intro good_append_job [OF assms(1)]) (simp_all add: tenant_job_row_def)
next
  case recorded
  let ?db1 = "db\<lparr>td_jobs := td_jobs db @ [tenant_job_row (rc_organization_id ctx) proj j]\<rparr>"
  have g: "good W db ?db1" using recorded(3) by (intro good_append_job [OF assms(1)]) (simp_all add: tenant_job_row_def)
  have "good W ?db1 db'" using g recorded(4,5)
    by (intro good_append_record [where r = "tenant_job_row (rc_organization_id ctx) proj j"])
      (simp_all add: good_def tenant_job_row_def select_idempotency_def)
  then show ?thesis by (rule good_trans [OF g])
next
  case (taken row)
  then show ?thesis using good_other_tables [OF assms(1)] by simp
qed

lemma txns_good: "txns P W db db' \<Longrightarrow> tenant_inv db \<Longrightarrow> good W db db'"
proof (induction rule: txns.induct)
  case (txn_refl db)
  then show ?case by (simp add: good_def)
next
  case (txn_org db db1 ctx og)
  then have g: "good W db db1" by simp
  have "good W db1 (snd (create_organization ctx og db1))" using g
    by (intro good_other_tables) (auto simp: good_def create_organization_def split: sum.split)
  then show ?case by (rule good_trans [OF g])
next
  case (txn_project db db1 ctx pj)
  then have g: "good W db db1" by simp
  have "good W db1 (snd (create_project ctx pj db1))" using g
    by (intro good_other_tables) (auto simp: good_def create_project_def scoped_def insert_project_def split: sum.split prod.split option.split if_splits)
  then show ?case by (rule good_trans [OF g])
next
  case (txn_enqueue db db1 ctx db2 j key fp)
  then have g: "good W db db1" "good W db1 db2" by (simp_all add: good_def)
  have i: "tenant_inv db2" "good W db1 db1" using g good_other_tables by (auto simp: good_def)
  have "good W db2 (snd (scoped ctx (insert_job ctx j proj key fp) db2))" for proj
    by (rule good_scoped [OF i(1)]) (rule good_insert_job [OF i(1)])
  then have "good W db1 (snd (scoped ctx (insert_job ctx j proj key fp) db2))" for proj using g(2) good_trans by blast
  then have "good W db1 (snd (enqueue_job ctx j key fp (\<lambda>_. db2) db1))" using i(2)
    by (simp add: enqueue_job_def Let_def split: sum.split option.split)
  then show ?case by (rule good_trans [OF g(1)])
next
  case (txn_cancel db db1 ctx i now)
  then have g: "good W db db1" by simp
  then have i: "tenant_inv db1" "good W db1 db1" using good_other_tables by (auto simp: good_def)
  have "good W db1 (snd (cancel_job ctx i now db1))" using i good_cancelled [OF i(1)]
    by (simp add: cancel_job_def split: sum.split option.split)
  then show ?case by (rule good_trans [OF g])
next
  case (txn_claim db db1 ctx w lease now)
  then have g: "good W db db1" by simp
  then have i: "tenant_inv db1" "good W db1 db1" using good_other_tables by (auto simp: good_def)
  have "good W db1 (snd (claim_job_scoped ctx w lease now db1))" using i(2) good_claimed [OF i(1)]
    by (simp add: claim_job_scoped_def Let_def split: option.split)
  then show ?case by (rule good_trans [OF g])
next
  case (txn_mutate db db1 ctx w i token st cost now)
  then have g: "good W db db1" by simp
  have "good W db1 (snd (mutate_job_scoped ctx i w token st cost now db1))"
    unfolding mutate_job_scoped_def snd_conv by (rule good_owned) (use g txn_mutate.hyps in \<open>simp_all add: good_def\<close>)
  then show ?case by (rule good_trans [OF g])
next
  case (txn_renew db db1 ctx w i token lease now)
  then have g: "good W db db1" by simp
  have "good W db1 (snd (renew_lease ctx i w token lease now db1))"
    unfolding renew_lease_def snd_conv by (rule good_owned) (use g txn_renew.hyps in \<open>simp_all add: good_def\<close>)
  then show ?case by (rule good_trans [OF g])
next
  case (txn_key db db1 ctx k)
  then have g: "good W db db1" by simp
  have "good W db1 (snd (save_api_key ctx k db1))" using g
    by (intro good_other_tables) (auto simp: good_def save_api_key_def scoped_def insert_api_key_def split: sum.split prod.split if_splits)
  then show ?case by (rule good_trans [OF g])
next
  case (txn_usage db db1 ctx e hex)
  then have g: "good W db db1" by simp
  have "good W db1 (snd (record_usage_event ctx e hex db1))" using g
    by (intro good_other_tables) (auto simp: good_def record_usage_event_def Let_def scoped_def insert_usage_def split: sum.split prod.split if_splits)
  then show ?case by (rule good_trans [OF g])
next
  case (txn_reserve db db1 ctx db2 m x l)
  then have g: "good W db db1" "good W db1 db2" by (simp_all add: good_def)
  have "good W db2 (snd (scoped ctx (insert_quota m x l) db2))" using g(2)
    by (intro good_other_tables) (auto simp: good_def scoped_def insert_quota_def split: sum.split prod.split if_splits)
  then have "good W db1 (snd (scoped ctx (insert_quota m x l) db2))" using g(2) good_trans by blast
  moreover have "good W db1 db1" using g(1) good_other_tables by (simp add: good_def)
  moreover have "good W db1 (db1\<lparr>td_quotas := t\<rparr>)" for t using g(1) by (intro good_other_tables) (simp_all add: good_def)
  ultimately have "good W db1 (snd (check_and_reserve_quota ctx m x l (\<lambda>_. db2) db1))"
    by (simp add: check_and_reserve_quota_def split: option.split)
  then show ?case by (rule good_trans [OF g(1)])
next
  case (txn_audit db db1 ev)
  then have g: "good W db db1" by simp
  have "good W db1 (snd (record_audit_event ev db1))" using g
    by (intro good_other_tables) (auto simp: good_def record_audit_event_def scoped_def insert_audit_def split: sum.split prod.split if_splits)
  then show ?case by (rule good_trans [OF g])
qed

definition scope_fits :: "request_context \<Rightarrow> tenant_job \<Rightarrow> bool" where
  "scope_fits ctx r \<longleftrightarrow> rc_project_id ctx = None \<or> jb_project_id (tj_job r) = rc_project_id ctx"

text \<open>A key of the organisation stands for a job that a context may see.\<close>

definition stands_for :: "request_context \<Rightarrow> string \<Rightarrow> string \<Rightarrow> string \<Rightarrow> tenant_db \<Rightarrow> bool" where
  "stands_for ctx key fp i db \<longleftrightarrow>
     \<lparr>ir_organization_id = rc_organization_id ctx, ir_idempotency_key = key, ir_request_fingerprint = fp, ir_job_id = i\<rparr> \<in> set (td_idempotency db) \<and>
     (\<exists>r \<in> set (td_jobs db). tj_id r = i \<and> tj_organization_id r = rc_organization_id ctx \<and> scope_fits ctx r)"

lemma fetchone_SomeD: "fetchone rows = Some r \<Longrightarrow> r \<in> set rows"
  by (auto simp: fetchone_def split: list.splits)

lemma recorded_job_InrD:
  assumes "recorded_job ctx fp row db = Inr x"
  shows "\<exists>r \<in> set (td_jobs db). tj_id r = ir_job_id row \<and> jb_id x = ir_job_id row \<and> tj_organization_id r = rc_organization_id ctx \<and> scope_fits ctx r"
    "fp = Some (ir_request_fingerprint row)"
  using assms by (auto simp: recorded_job_def job_from_idempotency_row_def select_job_def scope_fits_def
      split: if_splits option.splits dest!: fetchone_SomeD)

lemma recorded_job_of:
  assumes "unique_key tj_id (td_jobs db)" "r \<in> set (td_jobs db)" "tj_id r = ir_job_id row" "tj_organization_id r = rc_organization_id ctx" "scope_fits ctx r"
  shows "recorded_job ctx fp row db = (if fp = Some (ir_request_fingerprint row) then Inr (tj_job r) else Inl key_reused)"
proof -
  let ?s = "select_job db (rc_organization_id ctx) (rc_organization_id ctx) (\<lambda>r. tj_id r = ir_job_id row)"
  have m: "r \<in> set ?s" using assms(2-4) by (simp add: select_job_def)
  then obtain r' where f: "fetchone ?s = Some r'" by (cases ?s) (simp_all add: fetchone_def)
  have "r' \<in> set (td_jobs db)" "tj_id r' = tj_id r" using fetchone_SomeD [OF f] assms(3) by (simp_all add: select_job_def)
  then have "r' = r" using unique_keyD [OF assms(1) _ assms(2)] by simp
  then show ?thesis using f assms(5) by (auto simp: recorded_job_def job_from_idempotency_row_def scope_fits_def split: option.splits)
qed

lemma select_idempotency_SomeD:
  "select_idempotency db org key = Some row \<Longrightarrow> row \<in> set (td_idempotency db) \<and> ir_organization_id row = org \<and> ir_idempotency_key row = key"
  by (auto simp: select_idempotency_def find_Some_iff)

lemma select_idempotency_of:
  assumes "tenant_inv db" "row \<in> set (td_idempotency db)"
  shows "select_idempotency db (ir_organization_id row) (ir_idempotency_key row) = Some row"
proof -
  have "sql_get (\<lambda>r. (ir_organization_id r, ir_idempotency_key r)) (ir_organization_id row, ir_idempotency_key row) (td_idempotency db) = Some row"
    using sql_get_SomeI [of "\<lambda>r. (ir_organization_id r, ir_idempotency_key r)", OF _ assms(2)] assms(1) by (simp add: tenant_inv_def)
  then show ?thesis by (simp add: select_idempotency_def sql_get_def)
qed

lemma recorded_stands_for:
  assumes "recorded_job ctx fp row db = Inr x" "select_idempotency db (rc_organization_id ctx) key = Some row"
  shows "stands_for ctx key (the fp) (jb_id x) db"
proof -
  obtain r where r: "r \<in> set (td_jobs db)" "tj_id r = ir_job_id row" "jb_id x = ir_job_id row"
    "tj_organization_id r = rc_organization_id ctx" "scope_fits ctx r" "fp = Some (ir_request_fingerprint row)"
    using recorded_job_InrD [OF assms(1)] by blast
  have "row = \<lparr>ir_organization_id = rc_organization_id ctx, ir_idempotency_key = key, ir_request_fingerprint = the fp, ir_job_id = jb_id x\<rparr>"
    using select_idempotency_SomeD [OF assms(2)] r(3,6) by (cases row) simp
  then show ?thesis using select_idempotency_SomeD [OF assms(2)] r(1-5) unfolding stands_for_def by auto
qed

text \<open>The project a job is stored with fits the scope of the context.\<close>

definition job_scope :: "request_context \<Rightarrow> job \<Rightarrow> string option" where
  "job_scope ctx j = (if truthy_str (jb_project_id j) then jb_project_id j else rc_project_id ctx)"

lemma enqueue_stands_for:
  assumes "enqueue_job ctx j (Some key) (Some fp) mid db = (Inr j1, db1)" "key \<noteq> []" "rc_project_id ctx \<noteq> Some []" "\<not> rc_is_global_admin ctx"
  shows "stands_for ctx key fp (jb_id j1) db1" "has_permission ctx ''job.create''" "fp \<noteq> []" "length key \<le> 256"
    "validate_tenant_access ctx (rc_organization_id ctx) (job_scope ctx j) = Inr ()"
proof -
  let ?o = "rc_organization_id ctx"
  have a: "admitted ctx ?o None ''job.create'' = Inr ()" and k: "fp \<noteq> []" "length key \<le> 256"
    and v: "validate_tenant_access ctx ?o (job_scope ctx j) = Inr ()"
    using assms(1,2) by (auto simp: enqueue_job_def Let_def job_scope_def split: sum.splits if_splits)
  show "has_permission ctx ''job.create''" using a by (auto simp: admitted_def require_permission_def split: sum.splits if_splits)
  show "fp \<noteq> []" "length key \<le> 256" "validate_tenant_access ctx ?o (job_scope ctx j) = Inr ()" by (rule k v)+
  have e: "(case select_idempotency db ?o key of Some row \<Rightarrow> (recorded_job ctx (Some fp) row db, db)
      | None \<Rightarrow> scoped ctx (insert_job ctx j (job_scope ctx j) (Some key) (Some fp)) (mid db)) = (Inr j1, db1)"
    using assms(1,2) a k v by (simp add: enqueue_job_def Let_def job_scope_def split: option.splits if_splits)
  show "stands_for ctx key fp (jb_id j1) db1"
  proof (cases "select_idempotency db ?o key")
    case (Some row)
    then show ?thesis using e recorded_stands_for [of ctx "Some fp" row db j1 key] by auto
  next
    case None
    have "insert_job ctx j (job_scope ctx j) (Some key) (Some fp) ?o (mid db) = (Inr j1, db1)"
      using e None by (auto simp: scoped_def split: prod.splits sum.splits)
    then show ?thesis
    proof (cases rule: insert_job_cases)
      case no_key
      then show ?thesis using assms(2) by simp
    next
      case recorded
      have "scope_fits ctx (tenant_job_row ?o (job_scope ctx j) j)"
        using v assms(3,4) by (auto simp: scope_fits_def tenant_job_row_def job_scope_def validate_tenant_access_def split: if_splits)
          (metis truthy_str.elims(3))
      then show ?thesis using recorded(2,5) by (simp add: stands_for_def tenant_job_row_def)
    next
      case (taken row)
      then show ?thesis using recorded_stands_for [of ctx "Some fp" row db1 j1 key] by simp
    qed
  qed
qed

text \<open>
  C3: a job is enqueued once per idempotency key. When a context has enqueued a job under a key, then after any transactions of
  any tenants, and whatever others did while it was enqueued, the same context asking again under the key with the same fingerprint gets
  that job back and nothing is stored; with another fingerprint it gets the conflict error and nothing is stored.
\<close>

theorem enqueue_is_idempotent:
  assumes "tenant_inv db" "txns (\<lambda>_. True) (\<lambda>_. True) db (mid db)" "enqueue_job ctx j (Some key) (Some fp) mid db = (Inr j1, db1)"
    and "key \<noteq> []" "rc_project_id ctx \<noteq> Some []" "\<not> rc_is_global_admin ctx"
    and "txns (\<lambda>_. True) (\<lambda>_. True) db1 db2" "jb_project_id j' = jb_project_id j" "fp' \<noteq> []"
  shows "\<exists>j2. enqueue_job ctx j' (Some key) (Some fp') mid' db2 = (if fp' = fp then Inr j2 else Inl key_reused, db2) \<and> jb_id j2 = jb_id j1"
proof -
  let ?o = "rc_organization_id ctx"
  let ?row = "\<lparr>ir_organization_id = ?o, ir_idempotency_key = key, ir_request_fingerprint = fp, ir_job_id = jb_id j1\<rparr>"
  note e = enqueue_stands_for [OF assms(3-6)]
  have "txns (\<lambda>_. True) (\<lambda>_. True) db (snd (enqueue_job ctx j (Some key) (Some fp) (\<lambda>_. mid db) db))" using assms(2) by (intro txn_enqueue txn_refl) auto
  moreover have "enqueue_job ctx j (Some key) (Some fp) (\<lambda>_. mid db) db = enqueue_job ctx j (Some key) (Some fp) mid db"
    by (simp add: enqueue_job_def)
  ultimately have "tenant_inv db1" using txns_good [OF _ assms(1)] assms(3) by (simp add: good_def)
  from txns_good [OF assms(7) this] have g: "tenant_inv db2" "keeps_jobs (\<lambda>_. True) db1 db2" by (simp_all add: good_def)
  obtain r0 where r0: "?row \<in> set (td_idempotency db1)" "r0 \<in> set (td_jobs db1)" "tj_id r0 = jb_id j1" "tj_organization_id r0 = ?o" "scope_fits ctx r0"
    using e(1) unfolding stands_for_def by blast
  obtain r where r: "?row \<in> set (td_idempotency db2)" "r \<in> set (td_jobs db2)" "same_job (\<lambda>_. True) r0 r"
    using g(2) r0(1,2) unfolding keeps_jobs_def by blast
  have s: "select_idempotency db2 ?o key = Some ?row" using select_idempotency_of [OF g(1) r(1)] by simp
  have rec: "recorded_job ctx (Some fp') ?row db2 = (if fp' = fp then Inr (tj_job r) else Inl key_reused)"
    using recorded_job_of [of db2 r ?row ctx "Some fp'"] g(1) r(2,3) r0(3-5) by (simp add: tenant_inv_def same_job_def scope_fits_def)
  have adm: "admitted ctx ?o None ''job.create'' = Inr ()" using e(2) by (simp add: admitted_def validate_tenant_access_def require_permission_def)
  have same: "job_scope ctx j' = job_scope ctx j" using assms(8) by (simp add: job_scope_def)
  have "enqueue_job ctx j' (Some key) (Some fp') mid' db2 = (recorded_job ctx (Some fp') ?row db2, db2)"
    unfolding enqueue_job_def Let_def job_scope_def [symmetric] same using adm e(4,5) assms(4,9) s by simp
  then show ?thesis using rec r(3) r0(3) by (intro exI [of _ "tj_job r"]) (simp add: same_job_def)
qed

theorem enqueue_is_idempotent_witness:
  "\<exists>db1 j2. enqueue_job (demo_tenant_ctx ''a'' OPERATOR) (demo_job\<lparr>jb_id := ''k''\<rparr>) (Some ''key'') (Some ''f'') (\<lambda>db. db) demo_tenants =
      (Inr (demo_job\<lparr>jb_id := ''k''\<rparr>), db1) \<and>
    enqueue_job (demo_tenant_ctx ''a'' OPERATOR) (demo_job\<lparr>jb_id := ''l''\<rparr>) (Some ''key'') (Some ''f'') (\<lambda>db. db)
      (snd (claim_job_scoped (demo_tenant_ctx ''a'' OPERATOR) ''w'' 60 5 db1)) =
      (Inr j2, snd (claim_job_scoped (demo_tenant_ctx ''a'' OPERATOR) ''w'' 60 5 db1)) \<and> jb_id j2 = ''k''"
proof -
  let ?a = "demo_tenant_ctx ''a'' OPERATOR"
  let ?e = "enqueue_job ?a (demo_job\<lparr>jb_id := ''k''\<rparr>) (Some ''key'') (Some ''f'') (\<lambda>db. db) demo_tenants"
  have "fst ?e = Inr (demo_job\<lparr>jb_id := ''k''\<rparr>)" by code_simp
  then obtain db1 where e: "?e = (Inr (demo_job\<lparr>jb_id := ''k''\<rparr>), db1)" by (metis prod.collapse)
  have inv: "tenant_inv demo_tenants" by (simp add: tenant_inv_def demo_tenants_def unique_key_def)
  have "txns (\<lambda>_. True) (\<lambda>_. True) db1 (snd (claim_job_scoped ?a ''w'' 60 5 db1))" by (intro txn_claim txn_refl) simp_all
  from enqueue_is_idempotent [OF inv txn_refl e _ _ _ this, of "demo_job\<lparr>jb_id := ''l''\<rparr>" "''f''"] show ?thesis
    using e by (auto simp: demo_tenant_ctx_def)
qed

subsection \<open>Quotas\<close>

definition quota_of :: "tenant_db \<Rightarrow> string \<Rightarrow> string \<Rightarrow> quota option" where
  "quota_of db org metric = find (monthly_quota org metric) (td_quotas db)"

definition within_limit :: "string \<Rightarrow> string \<Rightarrow> real \<Rightarrow> tenant_db \<Rightarrow> bool" where
  "within_limit org metric l db \<longleftrightarrow> (\<exists>q. quota_of db org metric = Some q \<and> qt_limit_value q = l \<and> qt_current_value q \<le> l)"

lemma fetchone_filter: "fetchone (filter p t) = find p t"
  by (induction t) (simp_all add: fetchone_def)

lemma within_same: "within_limit org m l db \<Longrightarrow> td_quotas db' = td_quotas db \<Longrightarrow> within_limit org m l db'"
  by (simp add: within_limit_def quota_of_def)

lemma find_append_quota: "find p t = Some q \<Longrightarrow> find p (t @ u) = Some q"
  by (induction t) auto

lemma find_update_quota:
  assumes "find p t = Some q" "\<And>r. p (f r) = p r" "\<And>r. u r \<Longrightarrow> find u t = Some r0 \<Longrightarrow> True"
  shows "find p (sql_update u f t) = Some (if u q then f q else q)"
  using assms(1,2) by (induction t) (auto simp: sql_update_def split: if_splits)

lemma monthly_quota_eq: "monthly_quota o1 m1 q \<Longrightarrow> monthly_quota o2 m2 q \<Longrightarrow> o1 = o2 \<and> m1 = m2"
  by (auto simp: monthly_quota_def)

lemma reserve_eq:
  "check_and_reserve_quota ctx m x l mid db = (case find (monthly_quota (rc_organization_id ctx) m) (td_quotas db) of
     None \<Rightarrow> scoped ctx (insert_quota m x l) (mid db)
   | Some q \<Rightarrow> if qt_current_value q + x > qt_limit_value q then (Inr False, db)
       else (Inr True, db\<lparr>td_quotas := sql_update (monthly_quota (rc_organization_id ctx) m)
         (\<lambda>q. q\<lparr>qt_current_value := qt_current_value q + x\<rparr>) (td_quotas db)\<rparr>))"
proof -
  have u: "(sees db (rc_organization_id ctx) (qt_organization_id q) \<and> monthly_quota (rc_organization_id ctx) m q) =
      monthly_quota (rc_organization_id ctx) m q" for q by (auto simp: monthly_quota_def)
  show ?thesis unfolding check_and_reserve_quota_def fetchone_filter u by (rule refl)
qed

lemma within_reserve:
  assumes "within_limit org metric l db" "within_limit org metric l db1"
  shows "within_limit org metric l (snd (check_and_reserve_quota ctx m x l' (\<lambda>_. db1) db))"
proof -
  let ?o = "rc_organization_id ctx"
  obtain q where q: "quota_of db org metric = Some q" "qt_limit_value q = l" "qt_current_value q \<le> l" using assms(1) by (auto simp: within_limit_def)
  obtain q1 where q1: "quota_of db1 org metric = Some q1" "qt_limit_value q1 = l" "qt_current_value q1 \<le> l" using assms(2) by (auto simp: within_limit_def)
  have mq: "monthly_quota org metric q" using q(1) by (auto simp: quota_of_def find_Some_iff)
  have 1: "within_limit org metric l (snd (scoped ctx (insert_quota m x l') db1))"
    using q1 by (auto simp: scoped_def insert_quota_def within_limit_def quota_of_def find_append_quota split: prod.split sum.splits if_splits)
  have 2: "within_limit org metric l (db\<lparr>td_quotas := sql_update (monthly_quota ?o m) (\<lambda>q. q\<lparr>qt_current_value := qt_current_value q + x\<rparr>) (td_quotas db)\<rparr>)"
    if f: "find (monthly_quota ?o m) (td_quotas db) = Some q0" and ok: "qt_current_value q0 + x \<le> qt_limit_value q0" for q0
  proof -
    let ?f = "\<lambda>q. q\<lparr>qt_current_value := qt_current_value q + x\<rparr>"
    have "find (monthly_quota org metric) (sql_update (monthly_quota ?o m) ?f (td_quotas db)) = Some (if monthly_quota ?o m q then ?f q else q)"
      by (rule find_update_quota) (use q(1) in \<open>simp_all add: quota_of_def monthly_quota_def\<close>)
    moreover have "q0 = q" if "monthly_quota ?o m q" using monthly_quota_eq [OF mq that] q(1) f by (simp add: quota_of_def)
    ultimately show ?thesis using q(2,3) ok by (auto simp: within_limit_def quota_of_def)
  qed
  show ?thesis unfolding reserve_eq using 1 2 assms(1) by (simp split: option.split)
qed

text \<open>
  C26: a quota that exists is never overspent: once there is a monthly quota of an organisation for a metric and its use is within
  its limit, it stays so, with the same limit, under any transactions of any tenants, even when several reserve at once.
\<close>

theorem quota_is_never_overspent:
  assumes "txns P W db db'" "find (monthly_quota org metric) (td_quotas db) = Some q" "qt_current_value q \<le> qt_limit_value q"
  shows "\<exists>q'. find (monthly_quota org metric) (td_quotas db') = Some q' \<and> qt_limit_value q' = qt_limit_value q \<and>
    qt_current_value q' \<le> qt_limit_value q"
proof -
  have "within_limit org metric (qt_limit_value q) db" using assms(2,3) by (simp add: within_limit_def quota_of_def)
  with assms(1) have "within_limit org metric (qt_limit_value q) db'"
  proof (induction rule: txns.induct)
    case (txn_org db db1 ctx og)
    then have w: "within_limit org metric (qt_limit_value q) db1" by simp
    show ?case by (rule within_same [OF w]) (auto simp: create_organization_def split: sum.split)
  next
    case (txn_project db db1 ctx pj)
    then have w: "within_limit org metric (qt_limit_value q) db1" by simp
    show ?case
      by (rule within_same [OF w]) (auto simp: create_project_def scoped_def insert_project_def split: sum.split prod.split option.split if_splits)
  next
    case (txn_enqueue db db1 ctx db2 j key fp)
    have "td_quotas (snd (scoped ctx (insert_job ctx j proj key fp) db2)) = td_quotas db2" for proj
      by (auto simp: scoped_def insert_job_def Let_def split: sum.split prod.split option.split if_splits)
    then have "within_limit org metric (qt_limit_value q) (snd (scoped ctx (insert_job ctx j proj key fp) db2))" for proj
      using txn_enqueue within_same by blast
    then show ?case using txn_enqueue by (simp add: enqueue_job_def Let_def split: sum.split option.split)
  next
    case (txn_cancel db db1 ctx i now)
    then have w: "within_limit org metric (qt_limit_value q) db1" by simp
    show ?case by (rule within_same [OF w]) (auto simp: cancel_job_def update_job_def split: sum.split option.split)
  next
    case (txn_claim db db1 ctx w lease now)
    then have w: "within_limit org metric (qt_limit_value q) db1" by simp
    show ?case by (rule within_same [OF w]) (auto simp: claim_job_scoped_def update_job_def Let_def split: option.split)
  next
    case (txn_mutate db db1 ctx i w token st cost now)
    then have w: "within_limit org metric (qt_limit_value q) db1" by simp
    show ?case by (rule within_same [OF w]) (simp add: mutate_job_scoped_def update_job_def)
  next
    case (txn_renew db db1 ctx i w token lease now)
    then have w: "within_limit org metric (qt_limit_value q) db1" by simp
    show ?case by (rule within_same [OF w]) (simp add: renew_lease_def update_job_def)
  next
    case (txn_key db db1 ctx k)
    then have w: "within_limit org metric (qt_limit_value q) db1" by simp
    show ?case
      by (rule within_same [OF w]) (auto simp: save_api_key_def scoped_def insert_api_key_def split: sum.split prod.split if_splits)
  next
    case (txn_usage db db1 ctx e hex)
    then have w: "within_limit org metric (qt_limit_value q) db1" by simp
    show ?case
      by (rule within_same [OF w]) (auto simp: record_usage_event_def Let_def scoped_def insert_usage_def split: sum.split prod.split if_splits)
  next
    case (txn_reserve db db1 ctx db2 m x l)
    then show ?case using within_reserve by blast
  next
    case (txn_audit db db1 ev)
    then have w: "within_limit org metric (qt_limit_value q) db1" by simp
    show ?case by (rule within_same [OF w]) (auto simp: record_audit_event_def scoped_def insert_audit_def split: sum.split prod.split if_splits)
  qed
  then show ?thesis by (simp add: within_limit_def quota_of_def)
qed

theorem quota_is_never_overspent_witness:
  "\<exists>q'. find (monthly_quota ''a'' ''jobs'') (td_quotas (snd (check_and_reserve_quota (demo_tenant_ctx ''a'' OPERATOR) ''jobs'' 7 10 (\<lambda>db. db)
      (snd (check_and_reserve_quota (demo_tenant_ctx ''a'' OPERATOR) ''jobs'' 5 10 (\<lambda>db. db) demo_tenants))))) = Some q' \<and>
    qt_limit_value q' = 10 \<and> qt_current_value q' \<le> 10"
proof -
  let ?db = "snd (check_and_reserve_quota (demo_tenant_ctx ''a'' OPERATOR) ''jobs'' 5 10 (\<lambda>db. db) demo_tenants)"
  have q: "find (monthly_quota ''a'' ''jobs'') (td_quotas ?db) = Some \<lparr>qt_organization_id = ''a'', qt_metric = ''jobs'', qt_limit_value = 10,
      qt_period = ''monthly'', qt_current_value = 5, qt_soft_limit_ratio = 0.8\<rparr>" by code_simp
  have "txns (\<lambda>_. True) (\<lambda>_. True) ?db (snd (check_and_reserve_quota (demo_tenant_ctx ''a'' OPERATOR) ''jobs'' 7 10 (\<lambda>_. ?db) ?db))"
    by (intro txn_reserve txn_refl) simp
  moreover have "check_and_reserve_quota ctx m x l (\<lambda>_. db) db = check_and_reserve_quota ctx m x l (\<lambda>db. db) db" for ctx m x l db
    unfolding reserve_eq by (rule refl)
  ultimately have t: "txns (\<lambda>_. True) (\<lambda>_. True) ?db (snd (check_and_reserve_quota (demo_tenant_ctx ''a'' OPERATOR) ''jobs'' 7 10 (\<lambda>db. db) ?db))" by (simp only:)
  show ?thesis using quota_is_never_overspent [OF t q] by simp
qed

text \<open>The first reservation of a metric is not compared with the limit it creates.\<close>

lemma find_append_new: "find p t = None \<Longrightarrow> p q \<Longrightarrow> find p (t @ [q]) = Some q"
  by (induction t) auto

lemma first_reservation_is_unchecked:
  assumes "find (monthly_quota (rc_organization_id ctx) m) (td_quotas db) = None"
    "sql_get og_id (rc_organization_id ctx) (td_organizations db) = Some og"
  shows "\<exists>db' q. check_and_reserve_quota ctx m x l (\<lambda>db. db) db = (Inr True, db') \<and>
    find (monthly_quota (rc_organization_id ctx) m) (td_quotas db') = Some q \<and> qt_current_value q = x \<and> qt_limit_value q = l"
proof -
  let ?q = "\<lparr>qt_organization_id = rc_organization_id ctx, qt_metric = m, qt_limit_value = l, qt_period = ''monthly'',
    qt_current_value = x, qt_soft_limit_ratio = 0.8\<rparr>"
  have n: "\<not> (\<exists>q \<in> set (td_quotas db). monthly_quota (rc_organization_id ctx) m q)" using assms(1) by (auto simp: find_None_iff)
  have a: "row_accepted db (rc_organization_id ctx) (rc_organization_id ctx) None = Inr ()" using assms(2) by (simp add: row_accepted_def)
  have "check_and_reserve_quota ctx m x l (\<lambda>db. db) db = (Inr True, db\<lparr>td_quotas := td_quotas db @ [?q]\<rparr>)"
    unfolding reserve_eq assms(1) option.case scoped_def insert_quota_def a sum.case using n by simp
  moreover have "find (monthly_quota (rc_organization_id ctx) m) (td_quotas db @ [?q]) = Some ?q"
    by (rule find_append_new [OF assms(1)]) (simp add: monthly_quota_def)
  ultimately show ?thesis by auto
qed

subsection \<open>API keys\<close>

lemma sql_like_wildcard: "suffix t s \<Longrightarrow> sql_like p t \<Longrightarrow> sql_like (CHR ''%'' # p) s"
  by (auto simp: list_ex_iff set_suffixes_eq)

lemma sql_like_prefix: "CHR 0x5C \<notin> set p \<Longrightarrow> CHR ''_'' \<notin> set p \<Longrightarrow> sql_like (p @ ''%'') (p @ t)"
proof (induction p)
  case Nil
  have "sql_like [] []" by simp
  from sql_like_wildcard [OF _ this, of t] show ?case by simp
next
  case (Cons c p)
  then have s: "sql_like (p @ ''%'') (p @ t)" "c \<noteq> CHR 0x5C" "c \<noteq> CHR ''_''" by auto
  show ?case
  proof (cases "c = CHR ''%''")
    case True
    have "suffix (p @ t) ((c # p) @ t)" by (simp add: suffix_ConsI)
    from sql_like_wildcard [OF this s(1)] show ?thesis by (simp only: True append_Cons)
  next
    case False
    then show ?thesis using s by simp
  qed
qed

lemma hd_py_split: "hd (py_split c s) = takeWhile (\<lambda>x. x \<noteq> c) s"
  by (induction s) (auto split: list.split)

lemma generated_key_parts:
  assumes "raw = snd (api_key_generate H org who proj scopes ttl hex4 secret hex8 now)"
  shows "length (py_split CHR ''_'' raw) > 1" "py_split CHR ''_'' raw ! 1 = takeWhile (\<lambda>x. x \<noteq> CHR ''_'') (take 6 org)"
proof -
  have "raw = ''zck'' @ CHR ''_'' # take 6 org @ CHR ''_'' # hex4 @ CHR ''_'' # secret"
    using assms by (simp add: api_key_generate_def api_key_prefix_def Let_def)
  then have s: "py_split CHR ''_'' raw = ''zck'' # py_split CHR ''_'' (take 6 org @ CHR ''_'' # hex4 @ CHR ''_'' # secret)"
    using py_split_append [of "CHR ''_''" "''zck''"] by simp
  then show "length (py_split CHR ''_'' raw) > 1" by simp
  have "py_split CHR ''_'' raw ! 1 = hd (py_split CHR ''_'' (take 6 org @ CHR ''_'' # hex4 @ CHR ''_'' # secret))"
    unfolding s by (simp add: hd_conv_nth)
  also have "\<dots> = takeWhile (\<lambda>x. x \<noteq> CHR ''_'') (take 6 org)" unfolding hd_py_split
    by (simp add: takeWhile_tail)
  finally show "py_split CHR ''_'' raw ! 1 = takeWhile (\<lambda>x. x \<noteq> CHR ''_'') (take 6 org)" .
qed

lemma candidate_of_generated:
  assumes "raw = snd (api_key_generate H org who proj scopes ttl hex4 secret hex8 now)" "CHR 0x5C \<notin> set org"
    "sql_get og_id org (td_organizations db) \<noteq> None"
  shows "org \<in> set (candidate_orgs raw db)"
proof -
  let ?p = "takeWhile (\<lambda>x. x \<noteq> CHR ''_'') (take 6 org)"
  obtain t where t: "org = ?p @ t" by (metis append.assoc append_take_drop_id takeWhile_dropWhile_id)
  have "CHR 0x5C \<notin> set ?p" using assms(2) by (auto dest!: set_takeWhileD in_set_takeD)
  moreover have "CHR ''_'' \<notin> set ?p" by (auto dest: set_takeWhileD)
  ultimately have l: "sql_like (?p @ ''%'') org" using sql_like_prefix [of ?p t] t by simp
  have m: "org \<in> set (map og_id (td_organizations db))" using assms(3) by (auto simp: table_simps)
  show ?thesis using l m generated_key_parts [OF assms(1)] by (auto simp: candidate_orgs_def Let_def)
qed

lemma probe_orgs_finds:
  assumes "filter (\<lambda>k. ak_secret_hash k = h \<and> ak_status k = ''ACTIVE'') (td_api_keys db) = [k]" "ak_organization_id k \<in> set orgs"
    "\<not> (truthy_num (ak_expires_at k) \<and> now > the (ak_expires_at k))"
  shows "probe_orgs h now db orgs = Some (request_context_new (ak_principal_id k) (ak_organization_id k) (ak_project_id k) (role_value OPERATOR) {} ''apikey'' False)"
  using assms(2)
proof (induction orgs)
  case (Cons cur orgs)
  have f: "filter (\<lambda>k. sees db cur (ak_organization_id k) \<and> ak_secret_hash k = h \<and> ak_status k = ''ACTIVE'') (td_api_keys db) =
      (if sees db cur (ak_organization_id k) then [k] else [])"
    using arg_cong [OF assms(1), of "filter (\<lambda>k. sees db cur (ak_organization_id k))"] by (simp add: conj_ac)
  show ?case
  proof (cases "sees db cur (ak_organization_id k)")
    case True
    then show ?thesis using f assms(3) by (simp add: fetchone_def)
  next
    case False
    then have "ak_organization_id k \<in> set orgs" using Cons.prems by auto
    then show ?thesis using f False Cons.IH by (simp add: fetchone_def)
  qed
qed simp

text \<open>
  C27: a key that was generated for an organisation and saved authenticates its bearer until it expires, as the principal of that
  organisation and project; but always in the role of an operator, whatever the scopes it was generated with and whatever the status of
  the organisation.
\<close>

theorem saved_key_authenticates:
  assumes "api_key_generate H org who proj scopes ttl hex4 secret hex8 now = (k, raw)" "save_api_key ctx k db = (Inr (), db')"
    and "\<forall>k' \<in> set (td_api_keys db). ak_secret_hash k' \<noteq> H raw" "CHR 0x5C \<notin> set org"
    and "case ttl of None \<Rightarrow> True | Some t \<Rightarrow> t = 0 \<or> now + t = 0 \<or> now' \<le> now + t"
  shows "authenticate_api_key H raw now' db' = Some (request_context_new who org proj (role_value OPERATOR) {} ''apikey'' False)"
proof -
  have k: "ak_secret_hash k = H raw" "ak_status k = ''ACTIVE''" "ak_organization_id k = org" "ak_principal_id k = who" "ak_project_id k = proj"
    "ak_expires_at k = (if truthy_num ttl then Some (now + the ttl) else None)" and raw: "raw = snd (api_key_generate H org who proj scopes ttl hex4 secret hex8 now)"
    using assms(1) by (auto simp: api_key_generate_def Let_def)
  have ins: "insert_api_key k (rc_organization_id ctx) db = (Inr (), db')"
    using assms(2) by (auto simp: save_api_key_def scoped_def split: sum.splits prod.splits)
  then have db': "db' = db\<lparr>td_api_keys := td_api_keys db @ [k\<lparr>ak_last_used_at := None\<rparr>]\<rparr>"
    and org: "sql_get og_id org (td_organizations db) \<noteq> None"
    using k(3) by (auto simp: insert_api_key_def row_accepted_def split: sum.splits if_splits)
  have "filter (\<lambda>k. ak_secret_hash k = H raw \<and> ak_status k = ''ACTIVE'') (td_api_keys db) = []" using assms(3) by (simp add: filter_empty_conv)
  then have f: "filter (\<lambda>k. ak_secret_hash k = H raw \<and> ak_status k = ''ACTIVE'') (td_api_keys db') = [k\<lparr>ak_last_used_at := None\<rparr>]"
    using k(1,2) by (simp add: db')
  have c: "ak_organization_id (k\<lparr>ak_last_used_at := None\<rparr>) \<in> set (candidate_orgs raw db')"
    using candidate_of_generated [OF raw assms(4), of db'] org k(3) by (simp add: db')
  have e: "\<not> (truthy_num (ak_expires_at (k\<lparr>ak_last_used_at := None\<rparr>)) \<and> now' > the (ak_expires_at (k\<lparr>ak_last_used_at := None\<rparr>)))"
    using assms(5) k(6) by (cases ttl) auto
  show ?thesis using probe_orgs_finds [OF f c e] k(3-5) by (simp add: authenticate_api_key_def)
qed

theorem saved_key_authenticates_witness:
  "\<exists>k raw db'. api_key_generate (\<lambda>s. s) ''b'' ''u'' None [''job:read''] (Some 60) ''h'' ''s'' ''i'' 0 = (k, raw) \<and>
     save_api_key (demo_tenant_ctx ''b'' ORG_OWNER) k demo_tenants = (Inr (), db') \<and>
     authenticate_api_key (\<lambda>s. s) raw 30 db' = Some (request_context_new ''u'' ''b'' None (role_value OPERATOR) {} ''apikey'' False)"
proof -
  obtain k raw where g: "api_key_generate (\<lambda>s. s) ''b'' ''u'' None [''job:read''] (Some 60) ''h'' ''s'' ''i'' 0 = (k, raw)" by fastforce
  have "fst (save_api_key (demo_tenant_ctx ''b'' ORG_OWNER) (fst (api_key_generate (\<lambda>s. s) ''b'' ''u'' None [''job:read''] (Some 60) ''h'' ''s'' ''i'' 0)) demo_tenants) = Inr ()"
    by code_simp
  then obtain db' where s: "save_api_key (demo_tenant_ctx ''b'' ORG_OWNER) k demo_tenants = (Inr (), db')" unfolding g by (metis fst_conv prod.collapse)
  from saved_key_authenticates [OF g s, of 30] g s show ?thesis by (auto simp: demo_tenants_def)
qed

end
