(* ===== verification/JobQueue.thy ===== *)
theory JobQueue
  imports ControlPlane
begin

text \<open>
  What a worker relies on in a store of jobs, as the locale \<open>fenced_jobs\<close>: claims hand out growing fencing tokens, a mutation is
  made only for the current token of its worker, and what others do to a job either raises its token, or leaves the claim as it is,
  or is one of the operations of the store that ask for no token. The SQLite control plane is the first store that is shown to keep it.
\<close>

definition holds :: "string \<Rightarrow> int \<Rightarrow> cp_job \<Rightarrow> bool" where
  "holds w token r \<longleftrightarrow> cj_claimed_by r = Some w \<and> cj_claim_generation r = token"

text \<open>What others than \<open>w\<close> may do to a job: raise its token, leave claim and status as they are, or, where the store has operations that
  ask for no token, leave it as one of those does (\<open>unfenced\<close>, of the owner and the status). Of the jobs of third workers nothing is said.\<close>

definition left_alone :: "(string option \<Rightarrow> string \<Rightarrow> bool) \<Rightarrow> string \<Rightarrow> cp_job \<Rightarrow> cp_job \<Rightarrow> bool" where
  "left_alone unfenced w r r' \<longleftrightarrow> cj_claim_generation r \<le> cj_claim_generation r' \<and>
     (cj_claim_generation r' = cj_claim_generation r \<longrightarrow>
       cj_claimed_by r = Some w \<or> cj_claimed_by r = None \<and> unfenced None (jb_status (cj_job r)) \<longrightarrow>
       cj_claimed_by r' = cj_claimed_by r \<and> jb_status (cj_job r') = jb_status (cj_job r) \<or>
       cj_claimed_by r' \<in> {cj_claimed_by r, None} \<and> unfenced (cj_claimed_by r') (jb_status (cj_job r')))"

lemma left_alone_refl [simp]: "left_alone unfenced w r r"
  by (simp add: left_alone_def)

text \<open>Where every operation asks for a token, only the first two.\<close>

definition fenced_only :: "string \<Rightarrow> cp_job \<Rightarrow> cp_job \<Rightarrow> bool" where
  "fenced_only w r r' \<longleftrightarrow> cj_claim_generation r \<le> cj_claim_generation r' \<and>
     (cj_claim_generation r' = cj_claim_generation r \<longrightarrow> cj_claimed_by r \<in> {Some w, None} \<longrightarrow>
       cj_claimed_by r' = cj_claimed_by r \<and> jb_status (cj_job r') = jb_status (cj_job r))"

lemma fenced_only_refl [simp]: "fenced_only w r r"
  by (simp add: fenced_only_def)

lemma fenced_only_left_alone: "fenced_only w r r' \<Longrightarrow> left_alone unfenced w r r'"
  by (auto simp: fenced_only_def left_alone_def)

locale fenced_jobs =
  fixes view :: "'s \<Rightarrow> string \<Rightarrow> cp_job option"
    and invar :: "'s \<Rightarrow> bool"
    and claim :: "string \<Rightarrow> (nat \<Rightarrow> real) \<Rightarrow> 's \<Rightarrow> (job \<times> int) option \<times> 's"
    and mutate :: "string \<Rightarrow> string \<Rightarrow> int \<Rightarrow> job_status \<Rightarrow> real \<Rightarrow> real \<Rightarrow> 's \<Rightarrow> bool \<times> 's"
    and renew :: "string \<Rightarrow> string \<Rightarrow> int \<Rightarrow> (nat \<Rightarrow> real) \<Rightarrow> 's \<Rightarrow> bool \<times> 's"
    and unfenced :: "string option \<Rightarrow> string \<Rightarrow> bool"
    and others :: "string \<Rightarrow> 's \<Rightarrow> 's \<Rightarrow> bool"
  assumes claim_none: "invar s \<Longrightarrow> claim w clk s = (None, s') \<Longrightarrow> invar s' \<and> view s' = view s"
    and claim_some: "invar s \<Longrightarrow> claim w clk s = (Some (j, token), s') \<Longrightarrow> invar s' \<and> (\<exists>r r'. view s (jb_id j) = Some r \<and>
         cj_claim_generation r < token \<and> view s' = (view s)(jb_id j \<mapsto> r') \<and> holds w token r' \<and> jb_status (cj_job r') = ''RUNNING'')"
    and mutate_done: "invar s \<Longrightarrow> mutate i w token st cost now s = (True, s') \<Longrightarrow> invar s' \<and> (\<exists>r r'. view s i = Some r \<and>
         holds w token r \<and> view s' = (view s)(i \<mapsto> r') \<and> holds w token r' \<and> jb_status (cj_job r') = job_status_value st)"
    and mutate_refused: "invar s \<Longrightarrow> mutate i w token st cost now s = (False, s') \<Longrightarrow> invar s' \<and> view s' = view s \<and>
         (\<forall>r. view s i = Some r \<longrightarrow> holds w token r \<longrightarrow> jb_status (cj_job r) \<noteq> ''RUNNING'')"
    and renewed: "invar s \<Longrightarrow> renew i w token clk s = (b, s') \<Longrightarrow> invar s' \<and> (\<forall>k r. view s k = Some r \<longrightarrow>
         (\<exists>r'. view s' k = Some r' \<and> cj_claim_generation r' = cj_claim_generation r \<and> cj_claimed_by r' = cj_claimed_by r \<and>
           jb_status (cj_job r') = jb_status (cj_job r)))"
    and others_keep: "invar s \<Longrightarrow> others w s s' \<Longrightarrow> invar s' \<and> (\<forall>k r. view s k = Some r \<longrightarrow> (\<exists>r'. view s' k = Some r' \<and> left_alone unfenced w r r'))"
begin

lemma stale_token_refused:
  assumes "invar s" "view s i = Some r" "cj_claim_generation r \<noteq> token"
  shows "\<exists>s'. mutate i w token st cost now s = (False, s') \<and> view s' = view s"
proof -
  obtain ok s' where m: "mutate i w token st cost now s = (ok, s')" by fastforce
  show ?thesis
  proof (cases ok)
    case True
    then have "mutate i w token st cost now s = (True, s')" using m by simp
    from mutate_done [OF assms(1) this] show ?thesis using assms(2,3) by (auto simp: holds_def)
  next
    case False
    then have "mutate i w token st cost now s = (False, s')" using m by simp
    from mutate_refused [OF assms(1) this] this show ?thesis by blast
  qed
qed

end

subsection \<open>The SQLite control plane\<close>

inductive sqlite_others :: "string \<Rightarrow> control_plane \<Rightarrow> control_plane \<Rightarrow> bool" for w where
  other_claim: "w' \<noteq> w \<Longrightarrow> sqlite_others w db (snd (claim_job_with_fencing w' lease clk db))"
| other_mutate: "w' \<noteq> w \<Longrightarrow> sqlite_others w db (snd (mutate_with_fencing i w' token st cost now db))"

lemma cp_job_of_id: "cp_job_of db i = Some r \<Longrightarrow> cj_id r = i"
  by (auto simp: cp_job_of_def dest: sql_get_SomeD)

lemma sqlite_claim_some:
  assumes "cp_inv db" "claim_job_with_fencing w lease clk db = (Some (j, token), db')"
  shows "cp_inv db' \<and> (\<exists>r r'. cp_job_of db (jb_id j) = Some r \<and> cj_claim_generation r < token \<and> cp_job_of db' = (cp_job_of db)(jb_id j \<mapsto> r') \<and>
    holds w token r' \<and> jb_status (cj_job r') = ''RUNNING'')"
  using assms
proof (cases rule: claim_with_fencing_cases)
  case (claimed r j')
  have "cp_job_of db' = (cp_job_of db)(cj_id r \<mapsto> cp_mark_claimed w (clk 1 + lease) (clk 2) (cj_claim_generation r) r)"
    using claimed(6) by (auto simp: fun_eq_iff)
  then show ?thesis using claimed by (auto simp: holds_def cp_mark_claimed_def)
qed simp

lemma sqlite_mutate_done:
  assumes "cp_inv db" "mutate_with_fencing i w token st cost now db = (True, db')"
  shows "\<exists>r r'. cp_job_of db i = Some r \<and> holds w token r \<and> cp_job_of db' = (cp_job_of db)(i \<mapsto> r') \<and> holds w token r' \<and>
      jb_status (cj_job r') = job_status_value st"
proof -
  obtain r where r: "r \<in> set (cp_jobs db)" "cp_owned i w token r" using assms(2) by (auto simp: mutate_with_fencing_def sql_count_pos_iff)
  have g: "cp_job_of db i = Some r" using sql_get_SomeI [of cj_id "cp_jobs db" r] assms(1) r by (simp add: cp_inv_def cp_job_of_def cp_owned_def)
  let ?r' = "r\<lparr>cj_job := (cj_job r)\<lparr>jb_status := job_status_value st, jb_cost_usd := cost, jb_updated_at := now\<rparr>\<rparr>"
  have "cp_job_of db' k = ((cp_job_of db)(i \<mapsto> ?r')) k" for k
  proof (cases "k = i")
    case True
    then show ?thesis using mutate_with_fencing_get [of i w token st cost now db k] assms(2) g r(2) by simp
  next
    case False
    then have "\<not> cp_owned i w token r'" if "cp_job_of db k = Some r'" for r' using cp_job_of_id [OF that] by (auto simp: cp_owned_def)
    then show ?thesis using mutate_with_fencing_get [of i w token st cost now db k] assms(2) False by (cases "cp_job_of db k") auto
  qed
  then have "cp_job_of db' = (cp_job_of db)(i \<mapsto> ?r')" by (rule ext)
  then show ?thesis using g r(2) by (auto simp: holds_def cp_owned_def)
qed

lemma sqlite_mutate_refused:
  assumes "mutate_with_fencing i w token st cost now db = (False, db')"
  shows "db' = db" "cp_job_of db i = Some r \<Longrightarrow> \<not> holds w token r"
proof -
  have n: "\<forall>r \<in> set (cp_jobs db). \<not> cp_owned i w token r" using assms by (auto simp: mutate_with_fencing_def sql_count_pos_iff)
  then show "db' = db" using assms by (simp add: mutate_with_fencing_def sql_update_none)
  show "\<not> holds w token r" if "cp_job_of db i = Some r"
    using n that by (auto simp: cp_job_of_def holds_def cp_owned_def dest!: sql_get_SomeD)
qed

lemma sqlite_others_keep:
  assumes "cp_inv db" "sqlite_others w db db'"
  shows "cp_inv db' \<and> (\<forall>k r. cp_job_of db k = Some r \<longrightarrow> (\<exists>r'. cp_job_of db' k = Some r' \<and> fenced_only w r r'))"
  using assms(2)
proof cases
  case (other_claim w' lease clk)
  obtain res db1 where c: "claim_job_with_fencing w' lease clk db = (res, db1)" by fastforce
  show ?thesis
  proof (cases res)
    case None
    from assms(1) c show ?thesis by (cases rule: claim_with_fencing_cases) (use other_claim c None assms(1) in simp_all)
  next
    case (Some jt)
    then show ?thesis using sqlite_claim_some [OF assms(1), of w' lease clk "fst jt" "snd jt" db1] other_claim c
      by (auto simp: fenced_only_def holds_def)
  qed
next
  case (other_mutate w' i token st cost now)
  show ?thesis using cp_inv_mutate [OF assms(1)] other_mutate
    by (auto simp: mutate_with_fencing_get fenced_only_def cp_owned_def)
qed

interpretation sqlite_jobs: fenced_jobs cp_job_of cp_inv "\<lambda>w. claim_job_with_fencing w lease" mutate_with_fencing
  "\<lambda>i w token clk db. (False, db)" "\<lambda>_ _. False" sqlite_others for lease
proof unfold_locales
  fix s w clk s'
  assume a: "cp_inv s" "claim_job_with_fencing w lease clk s = (None, s')"
  then show "cp_inv s' \<and> cp_job_of s' = cp_job_of s" by (cases rule: claim_with_fencing_cases) (use a(1) in simp_all)
next
  fix i w token st cost now s s'
  assume a: "cp_inv s" "mutate_with_fencing i w token st cost now s = (True, s')"
  have "s' = snd (mutate_with_fencing i w token st cost now s)" using a(2) by simp
  then have "cp_inv s'" using cp_inv_mutate [OF a(1)] by simp
  from this sqlite_mutate_done [OF a] show "cp_inv s' \<and> (\<exists>r r'. cp_job_of s i = Some r \<and> holds w token r \<and> cp_job_of s' = (cp_job_of s)(i \<mapsto> r') \<and>
      holds w token r' \<and> jb_status (cj_job r') = job_status_value st)" by (rule conjI)
next
  fix i w token st cost now s s'
  assume a: "cp_inv s" "mutate_with_fencing i w token st cost now s = (False, s')"
  then show "cp_inv s' \<and> cp_job_of s' = cp_job_of s \<and> (\<forall>r. cp_job_of s i = Some r \<longrightarrow> holds w token r \<longrightarrow> jb_status (cj_job r) \<noteq> ''RUNNING'')"
    using sqlite_mutate_refused [OF a(2)] by blast
next
  fix w clk s j token s'
  assume a: "cp_inv s" "claim_job_with_fencing w lease clk s = (Some (j, token), s')"
  from sqlite_claim_some [OF a] show "cp_inv s' \<and> (\<exists>r r'. cp_job_of s (jb_id j) = Some r \<and> cj_claim_generation r < token \<and>
      cp_job_of s' = (cp_job_of s)(jb_id j \<mapsto> r') \<and> holds w token r' \<and> jb_status (cj_job r') = ''RUNNING'')" .
next
  fix s w s'
  assume a: "cp_inv s" "sqlite_others w s s'"
  show "cp_inv s' \<and> (\<forall>k r. cp_job_of s k = Some r \<longrightarrow> (\<exists>r'. cp_job_of s' k = Some r' \<and> left_alone (\<lambda>_ _. False) w r r'))"
    using sqlite_others_keep [OF a] fenced_only_left_alone by blast
qed simp

end
