(* ===== verification/TenantQueue.thy ===== *)
theory TenantQueue
  imports TenantIsolation JobQueue
begin

text \<open>
  The jobs of one organisation in the tenant store as a store of jobs for its workers: the contract \<open>fenced_jobs\<close>, where the others
  are every transaction of every tenant in which the worker itself takes no part.
\<close>

definition tenant_view :: "string \<Rightarrow> tenant_db \<Rightarrow> string \<Rightarrow> cp_job option" where
  "tenant_view org db i = map_option tj_row (sql_get tj_id i (filter (\<lambda>r. tj_organization_id r = org) (td_jobs db)))"

lemma tenant_view_SomeD:
  "tenant_view org db i = Some c \<Longrightarrow> \<exists>r \<in> set (td_jobs db). tj_organization_id r = org \<and> tj_id r = i \<and> tj_row r = c"
  by (auto simp: tenant_view_def dest!: sql_get_SomeD)

lemma tenant_view_iff:
  assumes "tenant_inv db"
  shows "tenant_view org db i = Some c \<longleftrightarrow> (\<exists>r \<in> set (td_jobs db). tj_organization_id r = org \<and> tj_id r = i \<and> tj_row r = c)"
proof
  assume "tenant_view org db i = Some c"
  then show "\<exists>r \<in> set (td_jobs db). tj_organization_id r = org \<and> tj_id r = i \<and> tj_row r = c" by (rule tenant_view_SomeD)
next
  assume "\<exists>r \<in> set (td_jobs db). tj_organization_id r = org \<and> tj_id r = i \<and> tj_row r = c"
  then obtain r where r: "r \<in> set (td_jobs db)" "tj_organization_id r = org" "tj_id r = i" "tj_row r = c" by blast
  have "unique_key tj_id (filter (\<lambda>r. tj_organization_id r = org) (td_jobs db))"
    using assms by (auto simp: tenant_inv_def unique_key_def distinct_map intro: inj_on_subset)
  from sql_get_SomeI [OF this, of r] r show "tenant_view org db i = Some c" by (simp add: tenant_view_def)
qed

lemma tenant_view_update:
  assumes "\<And>c. cj_id (f c) = cj_id c" "\<And>r. p r \<longleftrightarrow> tj_organization_id r = org \<and> q (tj_row r)"
  shows "tenant_view org (update_job db org p f) i = map_option (\<lambda>c. if q c then f c else c) (tenant_view org db i)"
proof -
  have "map_option tj_row (sql_get tj_id i (filter (\<lambda>r. tj_organization_id r = org) (sql_update (\<lambda>r. sees db org (tj_organization_id r) \<and> p r)
      (\<lambda>r. r\<lparr>tj_row := f (tj_row r)\<rparr>) t))) =
    map_option (\<lambda>c. if q c then f c else c) (map_option tj_row (sql_get tj_id i (filter (\<lambda>r. tj_organization_id r = org) t)))" for t
    by (induction t) (auto simp: sql_update_def sql_get_def assms)
  then show ?thesis by (simp add: tenant_view_def update_job_def)
qed

lemma tenant_inv_claim: "tenant_inv db \<Longrightarrow> tenant_inv (snd (claim_job_scoped ctx w lease now db))"
  using txns_good [OF txn_claim [OF txn_refl, of "\<lambda>_. True" ctx "\<lambda>_. True" w db lease now]] by (simp add: good_def)

lemma tenant_inv_mutate: "tenant_inv db \<Longrightarrow> tenant_inv (snd (mutate_job_scoped ctx i w token st cost now db))"
  using txns_good [OF txn_mutate [OF txn_refl, of "\<lambda>_. True" ctx "\<lambda>_. True" w db i token st cost now]] by (simp add: good_def)

lemma tenant_inv_renew: "tenant_inv db \<Longrightarrow> tenant_inv (snd (renew_lease ctx i w token lease now db))"
  using txns_good [OF txn_renew [OF txn_refl, of "\<lambda>_. True" ctx "\<lambda>_. True" w db i token lease now]] by (simp add: good_def)

lemma tenant_claim_cases:
  assumes "tenant_inv db" "claim_job_scoped ctx w lease now db = (res, db')"
  obtains (none) "res = None" "db' = db"
  | (claimed) c j where "tenant_view (rc_organization_id ctx) db (cj_id c) = Some c" "cp_claimable now c"
      "res = Some (j, cj_claim_generation c + 1)" "jb_id j = cj_id c"
      "tenant_view (rc_organization_id ctx) db' = (tenant_view (rc_organization_id ctx) db)(cj_id c \<mapsto> cp_mark_claimed w (now + lease) now (cj_claim_generation c) c)"
proof (cases "sql_first_by (\<lambda>r. jb_created_at (tj_job r)) (select_job db (rc_organization_id ctx) (rc_organization_id ctx)
      (\<lambda>r. cp_claimable now (tj_row r) \<and> claim_filter ctx r))")
  case None
  show thesis by (rule none) (use assms(2) None in \<open>simp_all add: claim_job_scoped_def\<close>)
next
  case (Some r)
  let ?o = "rc_organization_id ctx"
  have r: "r \<in> set (td_jobs db)" "tj_organization_id r = ?o" "cp_claimable now (tj_row r)"
    using sql_first_by_SomeD(1) [OF Some] by (simp_all add: select_job_def)
  let ?same = "\<lambda>r'. tj_id r' = tj_id r \<and> tj_organization_id r' = ?o \<and> cj_claim_generation (tj_row r') = cj_claim_generation (tj_row r)"
  let ?f = "cp_mark_claimed w (now + lease) now (cj_claim_generation (tj_row r))"
  have cnt: "sql_count (\<lambda>r'. sees db ?o (tj_organization_id r') \<and> ?same r') (td_jobs db) = 1"
    by (rule sql_count_key [where key = tj_id and r = r]) (use assms(1) r in \<open>simp_all add: tenant_inv_def\<close>)
  have res: "res = Some ((tj_job r)\<lparr>jb_status := ''RUNNING'', jb_updated_at := now\<rparr>, cj_claim_generation (tj_row r) + 1)"
    and db': "db' = update_job db ?o ?same ?f"
    using assms(2) Some cnt by (simp_all add: claim_job_scoped_def Let_def)
  have v: "tenant_view ?o db (tj_id r) = Some (tj_row r)" using tenant_view_iff [OF assms(1)] r by auto
  have "tenant_view ?o db' i = ((tenant_view ?o db)(tj_id r \<mapsto> ?f (tj_row r))) i" for i
  proof -
    have u: "tenant_view ?o db' i = map_option (\<lambda>c. if cj_id c = tj_id r \<and> cj_claim_generation c = cj_claim_generation (tj_row r) then ?f c else c) (tenant_view ?o db i)"
      unfolding db' by (rule tenant_view_update) auto
    show ?thesis
    proof (cases "i = tj_id r")
      case True
      then show ?thesis using u v by simp
    next
      case False
      have "cj_id c \<noteq> tj_id r" if "tenant_view ?o db i = Some c" for c using that False tenant_view_iff [OF assms(1)] by auto
      then show ?thesis using u False by (cases "tenant_view ?o db i") auto
    qed
  qed
  then have "tenant_view ?o db' = (tenant_view ?o db)(tj_id r \<mapsto> ?f (tj_row r))" by (rule ext)
  from claimed [OF v r(3) res _ this] show thesis by simp
qed

lemma tenant_claim_some:
  assumes "tenant_inv db" "claim_job_scoped ctx w lease now db = (Some (j, token), db')"
  shows "\<exists>r r'. tenant_view (rc_organization_id ctx) db (jb_id j) = Some r \<and> cj_claim_generation r < token \<and>
    tenant_view (rc_organization_id ctx) db' = (tenant_view (rc_organization_id ctx) db)(jb_id j \<mapsto> r') \<and> holds w token r' \<and>
    jb_status (cj_job r') = ''RUNNING''"
  using assms
proof (cases rule: tenant_claim_cases)
  case (claimed c j')
  then show ?thesis by (auto simp: holds_def cp_mark_claimed_def)
qed simp

text \<open>What a worker owns, in the view.\<close>

definition running_owned :: "string \<Rightarrow> string \<Rightarrow> int \<Rightarrow> cp_job \<Rightarrow> bool" where
  "running_owned i w token c \<longleftrightarrow> cp_owned i w token c \<and> jb_status (cj_job c) = ''RUNNING''"

lemma tenant_owned_view: "tenant_owned ctx i w token r \<longleftrightarrow> tj_organization_id r = rc_organization_id ctx \<and> running_owned i w token (tj_row r)"
  by (auto simp: tenant_owned_def running_owned_def)

lemma owned_count_view:
  assumes "tenant_inv db"
  shows "owned_count ctx i w token db > 0 \<longleftrightarrow> (\<exists>c. tenant_view (rc_organization_id ctx) db i = Some c \<and> running_owned i w token c)"
  unfolding owned_count_def sql_count_pos_iff tenant_view_iff [OF assms] tenant_owned_view
  by (auto simp: sees_def running_owned_def cp_owned_def)

lemma tenant_mutate_done:
  assumes "tenant_inv db" "mutate_job_scoped ctx i w token st cost now db = (True, db')"
  shows "\<exists>r r'. tenant_view (rc_organization_id ctx) db i = Some r \<and> holds w token r \<and>
    tenant_view (rc_organization_id ctx) db' = (tenant_view (rc_organization_id ctx) db)(i \<mapsto> r') \<and> holds w token r' \<and>
    jb_status (cj_job r') = job_status_value st"
proof -
  let ?o = "rc_organization_id ctx"
  let ?f = "\<lambda>r. r\<lparr>cj_job := (cj_job r)\<lparr>jb_status := job_status_value st, jb_cost_usd := cost, jb_updated_at := now\<rparr>\<rparr>"
  obtain c where c: "tenant_view ?o db i = Some c" "running_owned i w token c"
    using assms owned_count_view [OF assms(1)] by (auto simp: mutate_job_scoped_def)
  have "tenant_view ?o db' k = ((tenant_view ?o db)(i \<mapsto> ?f c)) k" for k
  proof -
    have u: "tenant_view ?o db' k = map_option (\<lambda>c. if running_owned i w token c then ?f c else c) (tenant_view ?o db k)"
      using assms(2) tenant_view_update [where f = ?f and q = "running_owned i w token" and p = "tenant_owned ctx i w token" and org = ?o and db = db and i = k]
      by (simp add: mutate_job_scoped_def tenant_owned_view)
    show ?thesis
    proof (cases "k = i")
      case False
      have "\<not> running_owned i w token c'" if "tenant_view ?o db k = Some c'" for c'
        using that False tenant_view_iff [OF assms(1)] by (auto simp: running_owned_def cp_owned_def)
      then show ?thesis using u False by (cases "tenant_view ?o db k") auto
    qed (use u c in simp)
  qed
  then have "tenant_view ?o db' = (tenant_view ?o db)(i \<mapsto> ?f c)" by (rule ext)
  then show ?thesis using c by (auto simp: holds_def running_owned_def cp_owned_def)
qed

lemma tenant_mutate_refused:
  assumes "tenant_inv db" "mutate_job_scoped ctx i w token st cost now db = (False, db')"
  shows "db' = db" "tenant_view (rc_organization_id ctx) db i = Some r \<Longrightarrow> holds w token r \<Longrightarrow> jb_status (cj_job r) \<noteq> ''RUNNING''"
proof -
  have n: "owned_count ctx i w token db = 0" using assms(2) by (simp add: mutate_job_scoped_def)
  then have "\<not> (\<exists>r \<in> set (td_jobs db). sees db (rc_organization_id ctx) (tj_organization_id r) \<and> tenant_owned ctx i w token r)"
    using sql_count_pos_iff [of "\<lambda>r. sees db (rc_organization_id ctx) (tj_organization_id r) \<and> tenant_owned ctx i w token r" "td_jobs db"]
    unfolding owned_count_def by simp
  then show "db' = db" using assms(2) by (auto simp: mutate_job_scoped_def update_job_def sql_update_none)
  show "jb_status (cj_job r) \<noteq> ''RUNNING''" if "tenant_view (rc_organization_id ctx) db i = Some r" "holds w token r"
    using owned_count_view [OF assms(1), of ctx i w token] n that tenant_view_iff [OF assms(1)]
    by (auto simp: running_owned_def holds_def cp_owned_def)
qed

lemma tenant_renewed:
  assumes "renew_lease ctx i w token lease now db = (b, db')" "tenant_view (rc_organization_id ctx) db k = Some r"
  shows "\<exists>r'. tenant_view (rc_organization_id ctx) db' k = Some r' \<and> cj_claim_generation r' = cj_claim_generation r \<and>
    cj_claimed_by r' = cj_claimed_by r \<and> jb_status (cj_job r') = jb_status (cj_job r)"
proof -
  let ?f = "\<lambda>r. r\<lparr>cj_job := (cj_job r)\<lparr>jb_updated_at := now\<rparr>, cj_lease_expires_at := now + lease\<rparr>"
  have "tenant_view (rc_organization_id ctx) db' k = map_option (\<lambda>c. if running_owned i w token c then ?f c else c)
      (tenant_view (rc_organization_id ctx) db k)"
    using assms(1) tenant_view_update [where f = ?f and q = "running_owned i w token" and p = "tenant_owned ctx i w token"
        and org = "rc_organization_id ctx" and db = db and i = k]
    by (simp add: renew_lease_def tenant_owned_view)
  then show ?thesis using assms(2) by simp
qed

text \<open>A member who may cancel jobs needs no token for it; the owner stays.\<close>

definition cancelled :: "string option \<Rightarrow> string \<Rightarrow> bool" where
  "cancelled owner status \<longleftrightarrow> owner \<noteq> None \<and> status = ''CANCELLED''"

lemma tenant_others_keep:
  assumes "tenant_inv db" "txns P (\<lambda>w'. w' \<noteq> w) db db'" "tenant_view org db k = Some c"
  shows "\<exists>c'. tenant_view org db' k = Some c' \<and> left_alone cancelled w c c'"
proof -
  have g: "tenant_inv db'" "keeps_jobs (\<lambda>w'. w' \<noteq> w) db db'" using txns_good [OF assms(2,1)] by (simp_all add: good_def)
  obtain r where r: "r \<in> set (td_jobs db)" "tj_organization_id r = org" "tj_id r = k" "tj_row r = c"
    using assms(3) tenant_view_iff [OF assms(1)] by blast
  obtain r' where r': "r' \<in> set (td_jobs db')" "same_job (\<lambda>w'. w' \<noteq> w) r r'" using g(2) r(1) unfolding keeps_jobs_def by blast
  have "tenant_view org db' k = Some (tj_row r')" using tenant_view_iff [OF g(1)] r r' by (auto simp: same_job_def)
  moreover have "left_alone cancelled w c (tj_row r')" using r'(2) r(4) by (auto simp: same_job_def left_alone_def cancelled_def held_by_def split: option.splits)
  ultimately show ?thesis by blast
qed

interpretation tenant_jobs: fenced_jobs "tenant_view (rc_organization_id ctx)" tenant_inv "\<lambda>w clk. claim_job_scoped ctx w lease (clk 0)"
  "mutate_job_scoped ctx" "\<lambda>i w token clk. renew_lease ctx i w token lease (clk 0)" cancelled "\<lambda>w. txns (\<lambda>_. True) (\<lambda>w'. w' \<noteq> w)" for ctx lease
proof unfold_locales
  fix s w clk s'
  assume a: "tenant_inv s" "claim_job_scoped ctx w lease (clk 0) s = (None, s')"
  from a have "s' = s" by (cases rule: tenant_claim_cases) simp_all
  then show "tenant_inv s' \<and> tenant_view (rc_organization_id ctx) s' = tenant_view (rc_organization_id ctx) s" using a(1) by simp
next
  fix w clk s j token s'
  assume a: "tenant_inv s" "claim_job_scoped ctx w lease (clk 0) s = (Some (j, token), s')"
  have "tenant_inv s'" using tenant_inv_claim [OF a(1), of ctx w lease "clk 0"] a(2) by simp
  from this tenant_claim_some [OF a]
  show "tenant_inv s' \<and> (\<exists>r r'. tenant_view (rc_organization_id ctx) s (jb_id j) = Some r \<and> cj_claim_generation r < token \<and>
      tenant_view (rc_organization_id ctx) s' = (tenant_view (rc_organization_id ctx) s)(jb_id j \<mapsto> r') \<and> holds w token r' \<and>
      jb_status (cj_job r') = ''RUNNING'')" by (rule conjI)
next
  fix i w token st cost now s s'
  assume a: "tenant_inv s" "mutate_job_scoped ctx i w token st cost now s = (True, s')"
  have "tenant_inv s'" using tenant_inv_mutate [OF a(1), of ctx i w token st cost now] a(2) by simp
  from this tenant_mutate_done [OF a]
  show "tenant_inv s' \<and> (\<exists>r r'. tenant_view (rc_organization_id ctx) s i = Some r \<and> holds w token r \<and>
      tenant_view (rc_organization_id ctx) s' = (tenant_view (rc_organization_id ctx) s)(i \<mapsto> r') \<and> holds w token r' \<and>
      jb_status (cj_job r') = job_status_value st)" by (rule conjI)
next
  fix i w token st cost now s s'
  assume a: "tenant_inv s" "mutate_job_scoped ctx i w token st cost now s = (False, s')"
  show "tenant_inv s' \<and> tenant_view (rc_organization_id ctx) s' = tenant_view (rc_organization_id ctx) s \<and>
      (\<forall>r. tenant_view (rc_organization_id ctx) s i = Some r \<longrightarrow> holds w token r \<longrightarrow> jb_status (cj_job r) \<noteq> ''RUNNING'')"
    using tenant_mutate_refused [OF a] a(1) by blast
next
  fix i w token clk s b s'
  assume a: "tenant_inv s" "renew_lease ctx i w token lease (clk 0) s = (b, s')"
  have "tenant_inv s'" using tenant_inv_renew [OF a(1), of ctx i w token lease "clk 0"] a(2) by simp
  then show "tenant_inv s' \<and> (\<forall>k r. tenant_view (rc_organization_id ctx) s k = Some r \<longrightarrow>
      (\<exists>r'. tenant_view (rc_organization_id ctx) s' k = Some r' \<and> cj_claim_generation r' = cj_claim_generation r \<and>
        cj_claimed_by r' = cj_claimed_by r \<and> jb_status (cj_job r') = jb_status (cj_job r)))"
    using tenant_renewed [OF a(2)] by blast
next
  fix s w s'
  assume a: "tenant_inv s" "txns (\<lambda>_. True) (\<lambda>w'. w' \<noteq> w) s s'"
  show "tenant_inv s' \<and> (\<forall>k r. tenant_view (rc_organization_id ctx) s k = Some r \<longrightarrow>
      (\<exists>r'. tenant_view (rc_organization_id ctx) s' k = Some r' \<and> left_alone cancelled w r r'))"
    using txns_good [OF a(2,1)] tenant_others_keep [OF a] by (auto simp: good_def)
qed

end
