(* ===== verification/PgControlPlane.thy ===== *)
theory PgControlPlane
  imports JobQueue
begin

text \<open>
  \<open>src/zcoder/infrastructure/stores/postgres.py\<close>, \<open>postgres_outbox_store.py\<close> and \<open>postgres_outbox.py\<close>: the control plane on
  PostgreSQL, with renewed and reconciled leases, the bounded outbox, the webhook inbox, the registries of repositories and workers,
  and the records of deployments and backups. A connection is one transaction, rolled back by an error. Its claims and mutations are
  shown to be those of the SQLite control plane, from which it gets its contract as a store of jobs.
\<close>

subsection \<open>Tables\<close>

record pg_worker_row =
  wr_worker_id :: string
  wr_pool_type :: string
  wr_hostname :: string
  wr_pid :: int
  wr_registered_at :: real
  wr_last_heartbeat :: real
  wr_active_jobs :: int

record pg_deployment_row =
  dr_id :: string
  dr_version :: string
  dr_image_digest :: string
  dr_deployed_at :: real
  dr_actor :: string
  dr_environment :: string
  dr_migration_version :: string
  dr_result :: string
  dr_notes :: string

record pg_backup_row =
  bk_id :: string
  bk_backup_type :: string
  bk_started_at :: real
  bk_completed_at :: real
  bk_success :: bool
  bk_size_bytes :: int
  bk_destination :: string
  bk_error :: "string option"
  bk_restore_drill_at :: "real option"
  bk_restore_drill_success :: "bool option"

record pg_control =
  pq_jobs :: "cp_job list"
  pq_outbox :: "outbox_message list"
  pq_inbox :: "inbox_row list"
  pq_installations :: "github_installation list"
  pq_repositories :: "fleet_repository list"
  pq_workers :: "pg_worker_row list"
  pq_deployments :: "pg_deployment_row list"
  pq_backups :: "pg_backup_row list"

definition pq_empty :: pg_control where
  "pq_empty = \<lparr>pq_jobs = [], pq_outbox = [], pq_inbox = [], pq_installations = [], pq_repositories = [], pq_workers = [],
     pq_deployments = [], pq_backups = []\<rparr>"

subsection \<open>Jobs\<close>

text \<open>The table has no project column.\<close>

definition pq_enqueue_job :: "job \<Rightarrow> pg_control \<Rightarrow> (db_error + job) \<times> pg_control" where
  "pq_enqueue_job j db =
     (if sql_get cj_id (jb_id j) (pq_jobs db) \<noteq> None then (Inl (IntegrityError ''jobs.id''), db)
      else (Inr j, db\<lparr>pq_jobs := pq_jobs db @ [\<lparr>cj_job = j\<lparr>jb_project_id := None\<rparr>, cj_claimed_by = None, cj_claim_generation = 0,
        cj_lease_expires_at = 0\<rparr>]\<rparr>))"

definition pq_claim_job :: "string \<Rightarrow> real \<Rightarrow> real \<Rightarrow> pg_control \<Rightarrow> (job \<times> int) option \<times> pg_control" where
  "pq_claim_job worker lease now db =
     (case sql_first_by (\<lambda>r. jb_created_at (cj_job r)) (filter (cp_claimable now) (pq_jobs db)) of
        None \<Rightarrow> (None, db)
      | Some r \<Rightarrow>
          (let db' = db\<lparr>pq_jobs := sql_update (cp_same_claim r) (cp_mark_claimed worker (now + lease) now (cj_claim_generation r)) (pq_jobs db)\<rparr>
           in if sql_count (cp_same_claim r) (pq_jobs db) = 0 then (None, db')
              else (Some ((cj_job r)\<lparr>jb_status := ''RUNNING'', jb_updated_at := now, jb_project_id := None\<rparr>, cj_claim_generation r + 1), db')))"

definition pq_mutate :: "string \<Rightarrow> string \<Rightarrow> int \<Rightarrow> job_status \<Rightarrow> real \<Rightarrow> real \<Rightarrow> pg_control \<Rightarrow> bool \<times> pg_control" where
  "pq_mutate i worker token st cost now db =
     (sql_count (cp_owned i worker token) (pq_jobs db) > 0,
      db\<lparr>pq_jobs := sql_update (cp_owned i worker token)
        (\<lambda>r. r\<lparr>cj_job := (cj_job r)\<lparr>jb_status := job_status_value st, jb_cost_usd := cost, jb_updated_at := now\<rparr>\<rparr>) (pq_jobs db)\<rparr>)"

text \<open>\<open>now\<close> is the reading for the expiry, \<open>now'\<close> the one for the time stamp.\<close>

definition pq_renew_lease :: "real \<Rightarrow> string \<Rightarrow> string \<Rightarrow> int \<Rightarrow> real \<Rightarrow> real \<Rightarrow> pg_control \<Rightarrow> bool \<times> pg_control" where
  "pq_renew_lease lease i worker token now now' db =
     (let held = (\<lambda>r. cp_owned i worker token r \<and> jb_status (cj_job r) = ''RUNNING'') in
      (sql_count held (pq_jobs db) > 0,
       db\<lparr>pq_jobs := sql_update held (\<lambda>r. r\<lparr>cj_lease_expires_at := now + lease, cj_job := (cj_job r)\<lparr>jb_updated_at := now'\<rparr>\<rparr>) (pq_jobs db)\<rparr>))"

definition pq_expired :: "real \<Rightarrow> cp_job \<Rightarrow> bool" where
  "pq_expired now r \<longleftrightarrow> jb_status (cj_job r) = ''RUNNING'' \<and> cj_lease_expires_at r < now"

definition pq_reconcile :: "real \<Rightarrow> real \<Rightarrow> pg_control \<Rightarrow> nat \<times> pg_control" where
  "pq_reconcile now now' db = (sql_count (pq_expired now') (pq_jobs db),
     db\<lparr>pq_jobs := sql_update (pq_expired now') (\<lambda>r. r\<lparr>cj_claimed_by := None, cj_job := (cj_job r)\<lparr>jb_status := ''READY'', jb_updated_at := now\<rparr>\<rparr>)
       (pq_jobs db)\<rparr>)"

text \<open>Reading a status that is none of the enumeration raises.\<close>

definition job_statuses :: "job_status list" where
  "job_statuses = [JobCreated, JobPlanning, JobReady, JobRunning, JobWaitingApproval, JobPaused, JobRetrying, JobBudgetReached,
     JobCancelled, JobFailed, JobSucceeded]"

definition pq_read_job :: "cp_job \<Rightarrow> string + job" where
  "pq_read_job r = (if jb_status (cj_job r) \<in> set (map job_status_value job_statuses) then Inr ((cj_job r)\<lparr>jb_project_id := None\<rparr>)
     else Inl (jb_status (cj_job r) @ '' is not a valid JobStatus''))"

definition pq_get_job :: "string \<Rightarrow> pg_control \<Rightarrow> string + job option" where
  "pq_get_job i db = (case sql_get cj_id i (pq_jobs db) of None \<Rightarrow> Inr None | Some r \<Rightarrow> map_sum id Some (pq_read_job r))"

fun pq_read_jobs :: "cp_job list \<Rightarrow> string + job list" where
  "pq_read_jobs [] = Inr []"
| "pq_read_jobs (r # rs) = (case pq_read_job r of Inl e \<Rightarrow> Inl e | Inr j \<Rightarrow> map_sum id (\<lambda>js. j # js) (pq_read_jobs rs))"

definition pq_list_jobs :: "string option \<Rightarrow> nat \<Rightarrow> pg_control \<Rightarrow> string + job list" where
  "pq_list_jobs status_filter limit db = pq_read_jobs (take limit (sort_key (\<lambda>r. - jb_created_at (cj_job r))
     (if truthy_str status_filter then filter (\<lambda>r. jb_status (cj_job r) = the status_filter) (pq_jobs db) else pq_jobs db)))"

definition pq_queue_stats :: "pg_control \<Rightarrow> (string \<times> nat) list" where
  "pq_queue_stats db = map (\<lambda>st. (st, sql_count (\<lambda>r. jb_status (cj_job r) = st) (pq_jobs db)))
     (dict_fromkeys (map (\<lambda>r. jb_status (cj_job r)) (pq_jobs db)))"

subsection \<open>Outbox\<close>

definition pq_enqueue_outbox :: "string \<Rightarrow> real \<Rightarrow> string \<Rightarrow> jobj \<Rightarrow> pg_control \<Rightarrow> (db_error + jobj) \<times> pg_control" where
  "pq_enqueue_outbox hex now action payload db =
     (let i = ''out_'' @ take 8 hex in
      if sql_get om_id i (pq_outbox db) \<noteq> None then (Inl (IntegrityError ''outbox.id''), db)
      else (Inr [(''id'', JStr i), (''action'', JStr action), (''status'', JStr ''PENDING''), (''created_at'', JFloat now)],
        db\<lparr>pq_outbox := pq_outbox db @ [\<lparr>om_id = i, om_action = action, om_payload = payload, om_status = ''PENDING'', om_attempts = 0,
          om_created_at = now, om_delivered_at = None, om_error = None\<rparr>]\<rparr>))"

definition pq_due :: "int \<Rightarrow> int \<Rightarrow> outbox_message list \<Rightarrow> outbox_message list" where
  "pq_due max_messages max_attempts t =
     take (nat max_messages) (sort_key om_created_at (filter (\<lambda>m. om_status m = ''PENDING'' \<and> om_attempts m < max_attempts) t))"

definition pq_delivered :: "real \<Rightarrow> string \<Rightarrow> outbox_message list \<Rightarrow> outbox_message list" where
  "pq_delivered now i t = sql_update (\<lambda>m. om_id m = i) (\<lambda>m. m\<lparr>om_status := ''DELIVERED'', om_delivered_at := Some now, om_error := None\<rparr>) t"

text \<open>\<open>handler = None\<close> is one that is not callable: each message fails with the \<open>TypeError\<close>.\<close>

fun pq_deliver_rows ::
  "'w outbox_handler option \<Rightarrow> int \<Rightarrow> (string \<Rightarrow> real) \<Rightarrow> outbox_message list \<Rightarrow> outbox_message list \<Rightarrow> 'w
     \<Rightarrow> (string + int \<times> outbox_message list) \<times> 'w" where
  "pq_deliver_rows handler max_attempts clk [] t w = (Inr (0, t), w)"
| "pq_deliver_rows handler max_attempts clk (r # rs) t w =
     (case (case handler of None \<Rightarrow> (Some ''handler must be callable'', w) | Some h \<Rightarrow> h (om_action r) (om_payload r) w) of
        (None, w1) \<Rightarrow>
          (case pq_deliver_rows handler max_attempts clk rs (pq_delivered (clk (om_id r)) (om_id r) t) w1 of
             (res, w2) \<Rightarrow> (map_sum id (\<lambda>(n, t'). (n + 1, t')) res, w2))
      | (Some err, w1) \<Rightarrow>
          (case mark_failed (Some max_attempts) r err t of
             Inl e \<Rightarrow> (Inl e, w1)
           | Inr t1 \<Rightarrow> pq_deliver_rows handler max_attempts clk rs t1 w1))"

definition process_postgres_outbox_once ::
  "'w outbox_handler option \<Rightarrow> int \<Rightarrow> int \<Rightarrow> (string \<Rightarrow> real) \<Rightarrow> pg_control \<Rightarrow> 'w \<Rightarrow> (string + int) \<times> pg_control \<times> 'w" where
  "process_postgres_outbox_once handler max_messages max_attempts clk db w =
     (if max_messages < 1 then (Inl ''max_messages must be >= 1'', db, w)
      else if max_attempts < 1 then (Inl ''max_attempts must be >= 1'', db, w)
      else (case pq_deliver_rows handler max_attempts clk (pq_due max_messages max_attempts (pq_outbox db)) (pq_outbox db) w of
          (Inl e, w') \<Rightarrow> (Inl e, db, w')
        | (Inr (n, t), w') \<Rightarrow> (Inr n, db\<lparr>pq_outbox := t\<rparr>, w')))"

definition pq_process_outbox :: "'w outbox_handler option \<Rightarrow> int \<Rightarrow> (string \<Rightarrow> real) \<Rightarrow> pg_control \<Rightarrow> 'w \<Rightarrow> (string + int) \<times> pg_control \<times> 'w" where
  "pq_process_outbox handler max_attempts clk db w = process_postgres_outbox_once handler 50 max_attempts clk db w"

subsection \<open>Inbox and registries\<close>

definition pq_record_webhook :: "string \<Rightarrow> string \<Rightarrow> real \<Rightarrow> pg_control \<Rightarrow> bool \<times> pg_control" where
  "pq_record_webhook i ty now db =
     (if sql_get ib_delivery_id i (pq_inbox db) \<noteq> None then (False, db)
      else (True, db\<lparr>pq_inbox := pq_inbox db @ [\<lparr>ib_delivery_id = i, ib_event_type = ty, ib_received_at = now\<rparr>]\<rparr>))"

definition pq_register_installation :: "int \<Rightarrow> string \<Rightarrow> string \<Rightarrow> real \<Rightarrow> pg_control \<Rightarrow> pg_control" where
  "pq_register_installation i login ty now db = db\<lparr>pq_installations :=
     (if sql_get gi_installation_id i (pq_installations db) \<noteq> None
      then sql_update (\<lambda>r. gi_installation_id r = i) (\<lambda>r. r\<lparr>gi_account_login := login, gi_account_type := ty\<rparr>) (pq_installations db)
      else pq_installations db @ [\<lparr>gi_installation_id = i, gi_account_login = login, gi_account_type = ty, gi_suspended = False, gi_created_at = now\<rparr>])\<rparr>"

definition pq_register_repository :: "fleet_repository \<Rightarrow> pg_control \<Rightarrow> (db_error + unit) \<times> pg_control" where
  "pq_register_repository r db =
     (if sql_get fr_id (fr_id r) (pq_repositories db) \<noteq> None
      then (Inr (), db\<lparr>pq_repositories := sql_update (\<lambda>r'. fr_id r' = fr_id r) (\<lambda>r'. r'\<lparr>fr_automation_enabled := fr_automation_enabled r,
        fr_trust_level := fr_trust_level r, fr_default_branch := fr_default_branch r\<rparr>) (pq_repositories db)\<rparr>)
      else if sql_get gi_installation_id (fr_installation_id r) (pq_installations db) = None then (Inl (IntegrityError ''installation_id''), db)
      else (Inr (), db\<lparr>pq_repositories := pq_repositories db @ [r]\<rparr>))"

definition pq_register_worker :: "string \<Rightarrow> string \<Rightarrow> string \<Rightarrow> int \<Rightarrow> real \<Rightarrow> real \<Rightarrow> pg_control \<Rightarrow> pg_control" where
  "pq_register_worker i pool host pid now now' db = db\<lparr>pq_workers :=
     (if sql_get wr_worker_id i (pq_workers db) \<noteq> None
      then sql_update (\<lambda>r. wr_worker_id r = i) (\<lambda>r. r\<lparr>wr_last_heartbeat := now', wr_pool_type := pool\<rparr>) (pq_workers db)
      else pq_workers db @ [\<lparr>wr_worker_id = i, wr_pool_type = pool, wr_hostname = host, wr_pid = pid, wr_registered_at = now,
        wr_last_heartbeat = now', wr_active_jobs = 0\<rparr>])\<rparr>"

definition pq_heartbeat_worker :: "string \<Rightarrow> int \<Rightarrow> real \<Rightarrow> pg_control \<Rightarrow> pg_control" where
  "pq_heartbeat_worker i n now db = db\<lparr>pq_workers := sql_update (\<lambda>r. wr_worker_id r = i)
     (\<lambda>r. r\<lparr>wr_last_heartbeat := now, wr_active_jobs := n\<rparr>) (pq_workers db)\<rparr>"

definition pq_active_workers :: "real \<Rightarrow> real \<Rightarrow> pg_control \<Rightarrow> pg_worker_row list" where
  "pq_active_workers max_idle now db = sort_key (\<lambda>r. - wr_last_heartbeat r) (filter (\<lambda>r. wr_last_heartbeat r > now - max_idle) (pq_workers db))"

definition pq_record_deployment :: "pg_deployment_row \<Rightarrow> string \<Rightarrow> real \<Rightarrow> pg_control \<Rightarrow> (db_error + string) \<times> pg_control" where
  "pq_record_deployment d hex now db =
     (let i = ''deploy_'' @ take 8 hex in
      if sql_get dr_id i (pq_deployments db) \<noteq> None then (Inl (IntegrityError ''deployment_history.id''), db)
      else (Inr i, db\<lparr>pq_deployments := pq_deployments db @ [d\<lparr>dr_id := i, dr_deployed_at := now\<rparr>]\<rparr>))"

definition pq_record_backup :: "string \<Rightarrow> bool \<Rightarrow> int \<Rightarrow> string \<Rightarrow> string \<Rightarrow> string \<Rightarrow> real \<Rightarrow> pg_control \<Rightarrow> (db_error + string) \<times> pg_control" where
  "pq_record_backup ty success bytes dest err hex now db =
     (let i = ''bkp_'' @ take 8 hex in
      if sql_get bk_id i (pq_backups db) \<noteq> None then (Inl (IntegrityError ''backup_status.id''), db)
      else (Inr i, db\<lparr>pq_backups := pq_backups db @ [\<lparr>bk_id = i, bk_backup_type = ty, bk_started_at = now, bk_completed_at = now,
        bk_success = success, bk_size_bytes = bytes, bk_destination = dest, bk_error = (if err = [] then None else Some err),
        bk_restore_drill_at = None, bk_restore_drill_success = None\<rparr>]\<rparr>))"

definition pq_record_restore_drill :: "string \<Rightarrow> bool \<Rightarrow> real \<Rightarrow> pg_control \<Rightarrow> pg_control" where
  "pq_record_restore_drill i ok now db = db\<lparr>pq_backups := sql_update (\<lambda>r. bk_id r = i)
     (\<lambda>r. r\<lparr>bk_restore_drill_at := Some now, bk_restore_drill_success := Some ok\<rparr>) (pq_backups db)\<rparr>"

record backup_freshness =
  bf_last_backup_at :: "real option"
  bf_last_backup_success :: bool
  bf_last_restore_drill_at :: "real option"
  bf_last_restore_drill_success :: "bool option"

definition pq_backup_freshness :: "pg_control \<Rightarrow> backup_freshness" where
  "pq_backup_freshness db =
     (let last_backup = sql_first_by (\<lambda>r. - bk_completed_at r) (filter bk_success (pq_backups db));
          last_drill = sql_first_by (\<lambda>r. - the (bk_restore_drill_at r)) (filter (\<lambda>r. bk_restore_drill_at r \<noteq> None) (pq_backups db))
      in \<lparr>bf_last_backup_at = map_option bk_completed_at last_backup,
          bf_last_backup_success = (case last_backup of None \<Rightarrow> False | Some r \<Rightarrow> bk_success r),
          bf_last_restore_drill_at = (case last_drill of None \<Rightarrow> None | Some r \<Rightarrow> bk_restore_drill_at r),
          bf_last_restore_drill_success = (case last_drill of None \<Rightarrow> Some False | Some r \<Rightarrow> bk_restore_drill_success r)\<rparr>)"

subsection \<open>The jobs as a store for workers\<close>

text \<open>The tables of the SQLite control plane with the same jobs.\<close>

definition pq_sqlite :: "pg_control \<Rightarrow> control_plane" where
  "pq_sqlite db = cp_empty\<lparr>cp_jobs := pq_jobs db\<rparr>"

definition pq_view :: "pg_control \<Rightarrow> string \<Rightarrow> cp_job option" where
  "pq_view db = cp_job_of (pq_sqlite db)"

definition pq_inv :: "pg_control \<Rightarrow> bool" where
  "pq_inv db \<longleftrightarrow> cp_inv (pq_sqlite db)"

lemma pq_claim_sqlite:
  "pq_claim_job w lease now db = (res, db') \<Longrightarrow> claim_job_with_fencing w lease (\<lambda>_. now) (pq_sqlite db) = (res, pq_sqlite db')"
  by (cases "sql_first_by (\<lambda>r. jb_created_at (cj_job r)) (filter (cp_claimable now) (pq_jobs db))")
     (auto simp: pq_claim_job_def claim_job_with_fencing_def pq_sqlite_def Let_def)

lemma pq_mutate_sqlite:
  "pq_mutate i w token st cost now db = (ok, db') \<Longrightarrow> mutate_with_fencing i w token st cost now (pq_sqlite db) = (ok, pq_sqlite db')"
  by (simp add: pq_mutate_def mutate_with_fencing_def pq_sqlite_def) (auto simp: cp_empty_def)

text \<open>An update of jobs that keeps their ids, seen through the view.\<close>

lemma pq_update_view:
  assumes "\<And>r. cj_id (f r) = cj_id r"
  shows "pq_view (db\<lparr>pq_jobs := sql_update p f (pq_jobs db)\<rparr>) k = map_option (\<lambda>r. if p r then f r else r) (pq_view db k)"
  using assms by (simp add: pq_view_def pq_sqlite_def cp_job_of_def sql_get_update)

lemma pq_update_inv:
  assumes "\<And>r. cj_id (f r) = cj_id r" "pq_inv db"
  shows "pq_inv (db\<lparr>pq_jobs := sql_update p f (pq_jobs db)\<rparr>)"
  using assms by (simp add: pq_inv_def pq_sqlite_def cp_inv_def unique_key_sql_update)

lemma pq_renewed:
  assumes "pq_inv db" "pq_renew_lease lease i w token now now' db = (b, db')"
  shows "pq_inv db' \<and> (\<forall>k r. pq_view db k = Some r \<longrightarrow> (\<exists>r'. pq_view db' k = Some r' \<and>
    cj_claim_generation r' = cj_claim_generation r \<and> cj_claimed_by r' = cj_claimed_by r \<and> jb_status (cj_job r') = jb_status (cj_job r)))"
proof -
  have db': "db' = db\<lparr>pq_jobs := sql_update (\<lambda>r. cp_owned i w token r \<and> jb_status (cj_job r) = ''RUNNING'')
      (\<lambda>r. r\<lparr>cj_lease_expires_at := now + lease, cj_job := (cj_job r)\<lparr>jb_updated_at := now'\<rparr>\<rparr>) (pq_jobs db)\<rparr>"
    using assms(2) by (simp add: pq_renew_lease_def Let_def)
  show ?thesis unfolding db' by (simp add: pq_update_view pq_update_inv assms(1))
qed

text \<open>A reconciled job is nobody's and ready, under the token it had.\<close>

definition reclaimed :: "string option \<Rightarrow> string \<Rightarrow> bool" where
  "reclaimed owner status \<longleftrightarrow> owner = None \<and> status = ''READY''"

inductive pg_others :: "string \<Rightarrow> pg_control \<Rightarrow> pg_control \<Rightarrow> bool" for w where
  pg_claim: "w' \<noteq> w \<Longrightarrow> pg_others w db (snd (pq_claim_job w' lease now db))"
| pg_mutate: "w' \<noteq> w \<Longrightarrow> pg_others w db (snd (pq_mutate i w' token st cost now db))"
| pg_renew: "w' \<noteq> w \<Longrightarrow> pg_others w db (snd (pq_renew_lease lease i w' token now now' db))"
| pg_reconcile: "pg_others w db (snd (pq_reconcile now now' db))"
| pg_enqueue: "pg_others w db (snd (pq_enqueue_job j db))"

lemma pq_reconcile_keeps:
  assumes "pq_inv db" "pq_view db k = Some r"
  shows "pq_inv (snd (pq_reconcile now now' db)) \<and> (\<exists>r'. pq_view (snd (pq_reconcile now now' db)) k = Some r' \<and> left_alone reclaimed w r r')"
  using assms by (simp add: pq_reconcile_def pq_update_view pq_update_inv left_alone_def reclaimed_def)

lemma pq_enqueue_inv: "pq_inv db \<Longrightarrow> pq_inv (snd (pq_enqueue_job j db))"
  by (auto simp: pq_inv_def pq_sqlite_def cp_inv_def pq_enqueue_job_def unique_key_def sql_get_None)

lemma pq_enqueue_view: "pq_view db k = Some r \<Longrightarrow> pq_view (snd (pq_enqueue_job j db)) k = Some r"
  by (auto simp: pq_view_def pq_sqlite_def cp_job_of_def pq_enqueue_job_def sql_get_append)

lemma pq_sqlite_others:
  assumes "pq_inv db" "sqlite_others w (pq_sqlite db) (pq_sqlite db')"
  shows "pq_inv db' \<and> (\<forall>k r. pq_view db k = Some r \<longrightarrow> (\<exists>r'. pq_view db' k = Some r' \<and> left_alone reclaimed w r r'))"
  using sqlite_others_keep [OF assms(1) [unfolded pq_inv_def] assms(2)] fenced_only_left_alone unfolding pq_inv_def pq_view_def by blast

lemma pq_others_keep:
  assumes "pq_inv db" "pg_others w db db'"
  shows "pq_inv db' \<and> (\<forall>k r. pq_view db k = Some r \<longrightarrow> (\<exists>r'. pq_view db' k = Some r' \<and> left_alone reclaimed w r r'))"
  using assms(2)
proof cases
  case (pg_claim w' lease now)
  have "claim_job_with_fencing w' lease (\<lambda>_. now) (pq_sqlite db) = (fst (pq_claim_job w' lease now db), pq_sqlite db')"
    by (rule pq_claim_sqlite) (simp add: pg_claim)
  then have "sqlite_others w (pq_sqlite db) (pq_sqlite db')" using other_claim [OF pg_claim(2), of "pq_sqlite db" lease "\<lambda>_. now"] by simp
  then show ?thesis by (rule pq_sqlite_others [OF assms(1)])
next
  case (pg_mutate w' i token st cost now)
  have "mutate_with_fencing i w' token st cost now (pq_sqlite db) = (fst (pq_mutate i w' token st cost now db), pq_sqlite db')"
    by (rule pq_mutate_sqlite) (simp add: pg_mutate)
  then have "sqlite_others w (pq_sqlite db) (pq_sqlite db')"
    using other_mutate [OF pg_mutate(2), of "pq_sqlite db" i token st cost now] by simp
  then show ?thesis by (rule pq_sqlite_others [OF assms(1)])
next
  case (pg_renew w' lease i token now now')
  have "pq_renew_lease lease i w' token now now' db = (fst (pq_renew_lease lease i w' token now now' db), db')" by (simp add: pg_renew)
  from pq_renewed [OF assms(1) this] show ?thesis by (fastforce simp: left_alone_def)
next
  case (pg_reconcile now now')
  have "pq_inv db'" using assms(1) unfolding pg_reconcile by (simp add: pq_reconcile_def pq_update_inv)
  then show ?thesis using pq_reconcile_keeps [OF assms(1)] unfolding pg_reconcile by blast
next
  case (pg_enqueue j)
  show ?thesis unfolding pg_enqueue using pq_enqueue_inv [OF assms(1)] pq_enqueue_view left_alone_refl by blast
qed

interpretation pg_jobs: fenced_jobs pq_view pq_inv "\<lambda>w clk. pq_claim_job w lease (clk 0)" pq_mutate
  "\<lambda>i w token clk. pq_renew_lease lease i w token (clk 0) (clk 1)" reclaimed pg_others for lease
proof unfold_locales
  fix s w clk s'
  assume "pq_inv s" "pq_claim_job w lease (clk 0) s = (None, s')"
  then show "pq_inv s' \<and> pq_view s' = pq_view s"
    using sqlite_jobs.claim_none [OF _ pq_claim_sqlite] unfolding pq_inv_def pq_view_def by blast
next
  fix w clk s j token s'
  assume "pq_inv s" "pq_claim_job w lease (clk 0) s = (Some (j, token), s')"
  then show "pq_inv s' \<and> (\<exists>r r'. pq_view s (jb_id j) = Some r \<and> cj_claim_generation r < token \<and>
      pq_view s' = (pq_view s)(jb_id j \<mapsto> r') \<and> holds w token r' \<and> jb_status (cj_job r') = ''RUNNING'')"
    using sqlite_jobs.claim_some [OF _ pq_claim_sqlite] unfolding pq_inv_def pq_view_def by blast
next
  fix i w token st cost now s s'
  assume "pq_inv s" "pq_mutate i w token st cost now s = (True, s')"
  then show "pq_inv s' \<and> (\<exists>r r'. pq_view s i = Some r \<and> holds w token r \<and> pq_view s' = (pq_view s)(i \<mapsto> r') \<and> holds w token r' \<and>
      jb_status (cj_job r') = job_status_value st)"
    using sqlite_jobs.mutate_done [OF _ pq_mutate_sqlite] unfolding pq_inv_def pq_view_def by blast
next
  fix i w token st cost now s s'
  assume "pq_inv s" "pq_mutate i w token st cost now s = (False, s')"
  then show "pq_inv s' \<and> pq_view s' = pq_view s \<and> (\<forall>r. pq_view s i = Some r \<longrightarrow> holds w token r \<longrightarrow> jb_status (cj_job r) \<noteq> ''RUNNING'')"
    using sqlite_jobs.mutate_refused [OF _ pq_mutate_sqlite] unfolding pq_inv_def pq_view_def by blast
next
  fix i w token clk s b s'
  assume "pq_inv s" "pq_renew_lease lease i w token (clk 0) (clk 1) s = (b, s')"
  then show "pq_inv s' \<and> (\<forall>k r. pq_view s k = Some r \<longrightarrow> (\<exists>r'. pq_view s' k = Some r' \<and>
      cj_claim_generation r' = cj_claim_generation r \<and> cj_claimed_by r' = cj_claimed_by r \<and> jb_status (cj_job r') = jb_status (cj_job r)))"
    by (rule pq_renewed)
next
  fix s w s'
  assume "pq_inv s" "pg_others w s s'"
  then show "pq_inv s' \<and> (\<forall>k r. pq_view s k = Some r \<longrightarrow> (\<exists>r'. pq_view s' k = Some r' \<and> left_alone reclaimed w r r'))" by (rule pq_others_keep)
qed

end
