(* ===== verification/WorkerProcess.thy ===== *)
theory WorkerProcess
  imports TenantQueue PgControlPlane
begin

text \<open>
  \<open>src/zcoder/worker/process.py\<close>: the main loop that claims jobs, one thread per job with its renewals, the signal that starts
  the drain, and the shutdown that gives unfinished jobs back. A thread's last actions, the main loop, the renewals, the signal and
  others that use the store interleave (\<open>proc_step\<close>). The process runs on any store of jobs; what it leaves behind is shown inside
  \<open>fenced_jobs\<close> and holds for the three stores \<open>_setup_store\<close> chooses from. Heartbeats and metrics do not touch jobs; errors of the
  database and a kill of the process are not modelled.
\<close>

subsection \<open>The process\<close>

datatype proc_state = WIdle | WRunning | WDraining | WStopped

datatype thread_phase = Executing | Recorded

record job_thread =
  th_job :: job
  th_token :: int
  th_phase :: thread_phase

type_synonym active_jobs = "(string \<times> job \<times> int) list"

text \<open>Where \<open>run\<close> is: before the call, at the loop's condition, about to claim, about to start a job, in the shutdown's wait, giving
  the entries left over back, or returned.\<close>

datatype main_pc = AtCall | AtTop | AtClaim | AtStart job int | AtWait | AtRelease active_jobs | AtReturn

text \<open>A worker with the calls it makes on its store.\<close>

record 's proc_config =
  pc_worker_id :: string
  pc_concurrency :: int
  pc_claim_job :: "(nat \<Rightarrow> real) \<Rightarrow> 's \<Rightarrow> (job \<times> int) option \<times> 's"
  pc_mutate_job :: "string \<Rightarrow> int \<Rightarrow> job_status \<Rightarrow> real \<Rightarrow> real \<Rightarrow> 's \<Rightarrow> bool \<times> 's"
  pc_renew_job_lease :: "string \<Rightarrow> int \<Rightarrow> (nat \<Rightarrow> real) \<Rightarrow> 's \<Rightarrow> bool \<times> 's"

record proc =
  wp_state :: proc_state
  wp_stop :: bool
  wp_active :: active_jobs
  wp_threads :: "job_thread list"
  wp_pc :: main_pc

definition proc_new :: proc where
  "proc_new = \<lparr>wp_state = WIdle, wp_stop = False, wp_active = [], wp_threads = [], wp_pc = AtCall\<rparr>"

definition begin_drain :: "proc \<Rightarrow> proc" where
  "begin_drain p = (if wp_state p = WStopped then p else p\<lparr>wp_state := WDraining, wp_stop := True\<rparr>)"

definition start_job :: "job \<Rightarrow> int \<Rightarrow> proc \<Rightarrow> proc" where
  "start_job j token p = p\<lparr>wp_active := dict_set (wp_active p) (jb_id j) (j, token),
     wp_threads := wp_threads p @ [\<lparr>th_job = j, th_token = token, th_phase = Executing\<rparr>]\<rparr>"

text \<open>A step of the main thread, with the token it claimed. The wait of the shutdown ends when nothing is active or at the deadline.\<close>

definition shutdown_step :: "'s proc_config \<Rightarrow> bool \<Rightarrow> real \<Rightarrow> real \<Rightarrow> proc \<Rightarrow> 's \<Rightarrow> proc \<times> 's" where
  "shutdown_step C deadline cost now p db = (case wp_pc p of
       AtWait \<Rightarrow> (if wp_active p = [] \<or> deadline then p\<lparr>wp_pc := AtRelease (wp_active p)\<rparr> else p, db)
     | AtRelease ((i, j, token) # rest) \<Rightarrow> (p\<lparr>wp_pc := AtRelease rest\<rparr>,
         snd (pc_mutate_job C i token JobReady cost now db))
     | AtRelease [] \<Rightarrow> (p\<lparr>wp_state := WStopped, wp_pc := AtReturn\<rparr>, db)
     | _ \<Rightarrow> (p, db))"

definition run_step :: "'s proc_config \<Rightarrow> bool \<Rightarrow> (nat \<Rightarrow> real) \<Rightarrow> real \<Rightarrow> proc \<Rightarrow> 's \<Rightarrow> proc \<times> 's \<times> (string \<times> int) option" where
  "run_step C deadline clk cost p db = (case wp_pc p of
       AtCall \<Rightarrow> (p\<lparr>wp_state := WRunning, wp_pc := AtTop\<rparr>, db, None)
     | AtTop \<Rightarrow> (if wp_stop p then p\<lparr>wp_pc := AtWait\<rparr>
         else if int (length (wp_active p)) \<ge> pc_concurrency C then p
         else p\<lparr>wp_pc := AtClaim\<rparr>, db, None)
     | AtClaim \<Rightarrow> (case pc_claim_job C clk db of
           (None, db') \<Rightarrow> (p\<lparr>wp_pc := AtTop\<rparr>, db', None)
         | (Some (j, token), db') \<Rightarrow> (p\<lparr>wp_pc := AtStart j token\<rparr>, db', Some (jb_id j, token)))
     | AtStart j token \<Rightarrow> ((start_job j token p)\<lparr>wp_pc := AtTop\<rparr>, db, None)
     | _ \<Rightarrow> (case shutdown_step C deadline cost (clk 0) p db of (p', db') \<Rightarrow> (p', db', None)))"

text \<open>The end of a job in its thread: the outcome is recorded, then the entry of the job is dropped.\<close>

definition record_outcome :: "'s proc_config \<Rightarrow> nat \<Rightarrow> bool \<Rightarrow> real \<Rightarrow> real \<Rightarrow> proc \<Rightarrow> 's \<Rightarrow> proc \<times> 's" where
  "record_outcome C k ok cost now p db =
     (let th = wp_threads p ! k in
      (p\<lparr>wp_threads := (wp_threads p)[k := th\<lparr>th_phase := Recorded\<rparr>]\<rparr>,
       snd (pc_mutate_job C (jb_id (th_job th)) (th_token th) (if ok then JobSucceeded else JobFailed) cost now db)))"

definition drop_entry :: "nat \<Rightarrow> proc \<Rightarrow> proc" where
  "drop_entry k p = p\<lparr>wp_active := AList.delete (jb_id (th_job (wp_threads p ! k))) (wp_active p),
     wp_threads := take k (wp_threads p) @ drop (Suc k) (wp_threads p)\<rparr>"

text \<open>The stores \<open>_setup_store\<close> chooses from. The SQLite store has no \<open>renew_lease\<close>, so there the renewals do nothing.\<close>

definition process_on ::
  "(string \<Rightarrow> (nat \<Rightarrow> real) \<Rightarrow> 's \<Rightarrow> (job \<times> int) option \<times> 's) \<Rightarrow>
   (string \<Rightarrow> string \<Rightarrow> int \<Rightarrow> job_status \<Rightarrow> real \<Rightarrow> real \<Rightarrow> 's \<Rightarrow> bool \<times> 's) \<Rightarrow>
   (string \<Rightarrow> string \<Rightarrow> int \<Rightarrow> (nat \<Rightarrow> real) \<Rightarrow> 's \<Rightarrow> bool \<times> 's) \<Rightarrow> string \<Rightarrow> int \<Rightarrow> 's proc_config" where
  "process_on claim mutate renew w n = \<lparr>pc_worker_id = w, pc_concurrency = n, pc_claim_job = claim w,
     pc_mutate_job = (\<lambda>i token. mutate i w token), pc_renew_job_lease = (\<lambda>i token. renew i w token)\<rparr>"

definition sqlite_process :: "real \<Rightarrow> string \<Rightarrow> int \<Rightarrow> control_plane proc_config" where
  "sqlite_process lease = process_on (\<lambda>w. claim_job_with_fencing w lease) mutate_with_fencing (\<lambda>i w token clk db. (False, db))"

definition pg_process :: "real \<Rightarrow> string \<Rightarrow> int \<Rightarrow> pg_control proc_config" where
  "pg_process lease = process_on (\<lambda>w clk. pq_claim_job w lease (clk 0)) pq_mutate
     (\<lambda>i w token clk. pq_renew_lease lease i w token (clk 0) (clk 1))"

definition worker_context :: "string \<Rightarrow> string \<Rightarrow> string \<Rightarrow> request_context" where
  "worker_context w organization_id project_id = request_context_new w organization_id
     (if project_id = [] then None else Some project_id) (role_value OPERATOR) {} ''token'' False"

definition tenant_process :: "string \<Rightarrow> string \<Rightarrow> real \<Rightarrow> string \<Rightarrow> int \<Rightarrow> tenant_db proc_config" where
  "tenant_process organization_id project_id lease w = process_on
     (\<lambda>w' clk. claim_job_scoped (worker_context w organization_id project_id) w' lease (clk 0))
     (mutate_job_scoped (worker_context w organization_id project_id))
     (\<lambda>i w' token clk. renew_lease (worker_context w organization_id project_id) i w' token lease (clk 0)) w"

text \<open>The interleaving; the third component lists the tokens the process claimed. A renewal may outlive the join of its thread.\<close>

type_synonym 's proc_world = "proc \<times> 's \<times> (string \<times> int) list"

inductive proc_step :: "'s proc_config \<Rightarrow> ('s \<Rightarrow> 's \<Rightarrow> bool) \<Rightarrow> 's proc_world \<Rightarrow> 's proc_world \<Rightarrow> bool" for C others where
  step_signal: "proc_step C others (p, db, tokens) (begin_drain p, db, tokens)"
| step_main: "run_step C deadline clk cost p db = (p', db', got) \<Longrightarrow>
    proc_step C others (p, db, tokens) (p', db', (case got of None \<Rightarrow> tokens | Some c \<Rightarrow> c # tokens))"
| step_record: "k < length (wp_threads p) \<Longrightarrow> th_phase (wp_threads p ! k) = Executing \<Longrightarrow>
    record_outcome C k ok cost now p db = (p', db') \<Longrightarrow> proc_step C others (p, db, tokens) (p', db', tokens)"
| step_drop: "k < length (wp_threads p) \<Longrightarrow> th_phase (wp_threads p ! k) = Recorded \<Longrightarrow>
    proc_step C others (p, db, tokens) (drop_entry k p, db, tokens)"
| step_renew: "pc_renew_job_lease C i token clk db = (b, db') \<Longrightarrow> proc_step C others (p, db, tokens) (p, db', tokens)"
| step_others: "others db db' \<Longrightarrow> proc_step C others (p, db, tokens) (p, db', tokens)"

subsection \<open>Claims the process works on\<close>

definition executing :: "job_thread list \<Rightarrow> (string \<times> int) list" where
  "executing ths = map (\<lambda>th. (jb_id (th_job th), th_token th)) (filter (\<lambda>th. th_phase th = Executing) ths)"

text \<open>The claims the process still works on: in a thread, or about to be given one.\<close>

definition in_hand :: "proc \<Rightarrow> (string \<times> int) set" where
  "in_hand p = set (executing (wp_threads p)) \<union> (case wp_pc p of AtStart j token \<Rightarrow> {(jb_id j, token)} | _ \<Rightarrow> {})"

text \<open>
  The claims the process keeps track of: it has an entry for them, has just got them, or has still to give them back. An entry is kept
  under the id of its job, so the first of two threads on one job drops the entry of the other; \<open>repeated\<close> are the claims of a job the
  process had claimed before.
\<close>

definition entries :: "active_jobs \<Rightarrow> (string \<times> int) set" where
  "entries d = (\<lambda>(i, j, token). (i, token)) ` set d"

definition tracked :: "proc \<Rightarrow> (string \<times> int) set" where
  "tracked p = (case wp_pc p of AtStart j token \<Rightarrow> insert (jb_id j, token) (entries (wp_active p))
     | AtRelease rest \<Rightarrow> entries rest | AtReturn \<Rightarrow> {} | _ \<Rightarrow> entries (wp_active p))"

definition repeated :: "(string \<times> int) list \<Rightarrow> (string \<times> int) set" where
  "repeated tokens = {c. \<exists>token < snd c. (fst c, token) \<in> set tokens}"

definition still_running :: "proc \<Rightarrow> (string \<times> int) list \<Rightarrow> (string \<times> int) set" where
  "still_running p tokens = in_hand p \<inter> (tracked p \<union> repeated tokens)"

definition claim_of :: "job_thread \<Rightarrow> string \<times> int" where
  "claim_of th = (jb_id (th_job th), th_token th)"

text \<open>
  A claimed token is in order: taken over with a higher one, or still the process's own with the outcome recorded or the job given
  back, or running and among \<open>H\<close>, or left by an operation of the store that asks for no token.
\<close>

definition in_order :: "(string option \<Rightarrow> string \<Rightarrow> bool) \<Rightarrow> string \<Rightarrow> (string \<times> int) set \<Rightarrow> string \<times> int \<Rightarrow> cp_job \<Rightarrow> bool" where
  "in_order unfenced w H c r \<longleftrightarrow> snd c \<le> cj_claim_generation r \<and> (cj_claim_generation r = snd c \<longrightarrow>
     cj_claimed_by r = Some w \<and> (jb_status (cj_job r) \<in> {''SUCCEEDED'', ''FAILED'', ''READY''} \<or> jb_status (cj_job r) = ''RUNNING'' \<and> c \<in> H) \<or>
     cj_claimed_by r \<in> {Some w, None} \<and> unfenced (cj_claimed_by r) (jb_status (cj_job r)))"

definition settled ::
  "('s \<Rightarrow> string \<Rightarrow> cp_job option) \<Rightarrow> (string option \<Rightarrow> string \<Rightarrow> bool) \<Rightarrow> string \<Rightarrow> (string \<times> int) set \<Rightarrow> 's \<Rightarrow> string \<times> int \<Rightarrow> bool" where
  "settled view unfenced w H db c \<longleftrightarrow> (\<exists>r. view db (fst c) = Some r \<and> in_order unfenced w H c r)"

definition has_room :: "'s proc_config \<Rightarrow> proc \<Rightarrow> bool" where
  "has_room C p \<longleftrightarrow> int (length (wp_active p)) \<le> max 0 (pc_concurrency C) - (case wp_pc p of AtClaim \<Rightarrow> 1 | AtStart _ _ \<Rightarrow> 1 | _ \<Rightarrow> 0)"

subsection \<open>Every step keeps the invariant\<close>

lemma executing_append: "executing (xs @ ys) = executing xs @ executing ys"
  by (simp add: executing_def)

lemma set_executing_split:
  assumes "k < length ths"
  shows "set (executing ths) = set (executing (take k ths)) \<union> set (executing [ths ! k]) \<union> set (executing (drop (Suc k) ths))"
proof -
  have "executing ths = executing (take k ths @ [ths ! k] @ drop (Suc k) ths)" using id_take_nth_drop [OF assms] by simp
  then show ?thesis by (simp only: executing_append set_append Un_assoc)
qed

lemma in_hand_start: "in_hand ((start_job j token p)\<lparr>wp_pc := AtTop\<rparr>) = set (executing (wp_threads p)) \<union> {(jb_id j, token)}"
  by (simp add: in_hand_def start_job_def executing_def)

lemma in_hand_drop:
  assumes "k < length (wp_threads p)" "th_phase (wp_threads p ! k) = Recorded"
  shows "in_hand (drop_entry k p) = in_hand p"
  using set_executing_split [OF assms(1)] assms(2)
  by (simp add: in_hand_def drop_entry_def executing_append) (simp add: executing_def)

lemma in_hand_record:
  assumes "k < length (wp_threads p)" "record_outcome C k ok cost now p db = (p', db')" "c \<in> in_hand p"
  shows "c \<in> in_hand p' \<or> c = (jb_id (th_job (wp_threads p ! k)), th_token (wp_threads p ! k))"
proof -
  have p': "p' = p\<lparr>wp_threads := (wp_threads p)[k := (wp_threads p ! k)\<lparr>th_phase := Recorded\<rparr>]\<rparr>"
    using assms(2) by (simp add: record_outcome_def Let_def)
  have "set (executing ((wp_threads p)[k := (wp_threads p ! k)\<lparr>th_phase := Recorded\<rparr>]))
      = set (executing (take k (wp_threads p))) \<union> set (executing (drop (Suc k) (wp_threads p)))"
    using set_executing_split [of k "(wp_threads p)[k := (wp_threads p ! k)\<lparr>th_phase := Recorded\<rparr>]"] assms(1)
    by simp (simp add: executing_def)
  moreover have "set (executing [wp_threads p ! k]) \<subseteq> {(jb_id (th_job (wp_threads p ! k)), th_token (wp_threads p ! k))}"
    by (simp add: executing_def)
  ultimately show ?thesis using assms(3) set_executing_split [OF assms(1)] unfolding p' in_hand_def by auto
qed

lemma entries_dict_set: "entries (dict_set d i (j, token)) \<supseteq> insert (i, token) {c \<in> entries d. fst c \<noteq> i}"
  by (induction d) (auto simp: entries_def)

lemma entries_delete: "entries (AList.delete i d) = {c \<in> entries d. fst c \<noteq> i}"
  by (force simp: entries_def AList.delete_eq)

lemma entries_Cons: "entries ((i, j, token) # d) = insert (i, token) (entries d)"
  by (simp add: entries_def)

lemma tracked_cong: "wp_pc p' = wp_pc p \<Longrightarrow> wp_active p' = wp_active p \<Longrightarrow> tracked p' = tracked p"
  by (cases "wp_pc p") (simp_all add: tracked_def)

lemma tracked_drop:
  assumes "c \<in> tracked p" "fst c \<noteq> jb_id (th_job (wp_threads p ! k))"
  shows "c \<in> tracked (drop_entry k p)"
  using assms by (auto simp: tracked_def drop_entry_def entries_delete split: main_pc.splits)

lemma length_dict_set: "length (dict_set d k v) \<le> Suc (length d)"
  by (induction d) auto

lemma room_drain: "has_room C p \<Longrightarrow> has_room C (begin_drain p)"
  by (simp add: has_room_def begin_drain_def)

lemma in_hand_drain: "in_hand (begin_drain p) = in_hand p"
  by (simp add: in_hand_def begin_drain_def)

lemma room_drop: "has_room C p \<Longrightarrow> has_room C (drop_entry k p)"
  using length_delete_le [of "jb_id (th_job (wp_threads p ! k))" "wp_active p"] by (simp add: has_room_def drop_entry_def)


subsection \<open>On any store of jobs\<close>

context fenced_jobs begin

abbreviation settled' :: "string \<Rightarrow> (string \<times> int) set \<Rightarrow> 's \<Rightarrow> string \<times> int \<Rightarrow> bool" where
  "settled' \<equiv> settled view unfenced"

definition proc_inv :: "'s proc_config \<Rightarrow> 's proc_world \<Rightarrow> bool" where
  "proc_inv C s \<longleftrightarrow> (case s of (p, db, tokens) \<Rightarrow> invar db \<and> has_room C p \<and>
     (\<forall>c \<in> set tokens. settled' (pc_worker_id C) (still_running p tokens) db c) \<and>
     (\<forall>th \<in> set (wp_threads p). claim_of th \<in> set tokens \<and> (th_phase th = Recorded \<longrightarrow> settled' (pc_worker_id C) {} db (claim_of th))) \<and>
     (\<forall>j token. wp_pc p = AtStart j token \<longrightarrow> (jb_id j, token) \<in> set tokens))"

lemma settled_mono: "settled' w H db c \<Longrightarrow> (c \<in> H \<Longrightarrow> c \<in> H') \<Longrightarrow> settled' w H' db c"
  by (auto simp: settled_def in_order_def)

lemma settledE:
  assumes "settled' w H db c"
  obtains r where "view db (fst c) = Some r" "in_order unfenced w H c r"
  using assms unfolding settled_def by blast

lemma settled_claim:
  assumes "settled' w H db c" "invar db" "claim w' clk db = (res, db')"
  shows "invar db'" "settled' w H db' c"
proof -
  obtain r where r: "view db (fst c) = Some r" "in_order unfenced w H c r" using assms(1) by (rule settledE)
  have "invar db' \<and> settled' w H db' c"
  proof (cases res)
    case None
    with claim_none [of db w' clk db'] assms r show ?thesis by (simp add: settled_def)
  next
    case (Some jt)
    obtain j token where jt: "jt = (j, token)" by fastforce
    from claim_some [of db w' clk j token db'] obtain r0 r' where *: "invar db'" "view db (jb_id j) = Some r0"
      "cj_claim_generation r0 < token" "view db' = (view db)(jb_id j \<mapsto> r')" "holds w' token r'" using assms(2,3) Some jt by blast
    show ?thesis
    proof (cases "fst c = jb_id j")
      case True
      then show ?thesis using * r by (auto simp: settled_def in_order_def holds_def)
    next
      case False
      then show ?thesis using * r by (simp add: settled_def)
    qed
  qed
  then show "invar db'" "settled' w H db' c" by blast+
qed

lemma settled_new_claim:
  assumes "invar db" "claim w clk db = (Some (j, token), db')" "(jb_id j, token) \<in> H"
  shows "settled' w H db' (jb_id j, token)"
  using claim_some [OF assms(1,2)] assms(3) by (auto simp: settled_def in_order_def holds_def)

lemma settled_mutate:
  assumes "settled' w H db c" "invar db" "mutate k w t st cost now db = (ok, db')" "st \<in> {JobSucceeded, JobFailed, JobReady}"
    "c \<in> H \<Longrightarrow> c \<in> H' \<or> c = (k, t)"
  shows "settled' w H' db' c"
proof -
  obtain r where r: "view db (fst c) = Some r" "in_order unfenced w H c r" using assms(1) by (rule settledE)
  have st: "job_status_value st \<in> {''SUCCEEDED'', ''FAILED'', ''READY''}" using assms(4) by auto
  show ?thesis
  proof (cases ok)
    case True
    then have m: "mutate k w t st cost now db = (True, db')" using assms(3) by simp
    from mutate_done [OF assms(2) m] obtain r0 r' where *: "view db k = Some r0" "holds w t r0"
      "view db' = (view db)(k \<mapsto> r')" "holds w t r'" "jb_status (cj_job r') = job_status_value st" by blast
    show ?thesis
    proof (cases "fst c = k")
      case True
      then show ?thesis using * r st by (auto simp: settled_def in_order_def holds_def)
    next
      case False
      then show ?thesis using * r assms(5) by (auto simp: settled_def in_order_def)
    qed
  next
    case False
    then have m: "mutate k w t st cost now db = (False, db')" using assms(3) by simp
    from mutate_refused [OF assms(2) m] have v: "view db' = view db" "\<And>r. view db k = Some r \<Longrightarrow> holds w t r \<Longrightarrow> jb_status (cj_job r) \<noteq> ''RUNNING''"
      by blast+
    have "in_order unfenced w H' c r"
    proof (cases "c = (k, t)")
      case True
      then show ?thesis using v(2) [of r] r by (auto simp: in_order_def holds_def)
    next
      case False
      then show ?thesis using r(2) assms(5) by (auto simp: in_order_def)
    qed
    then show ?thesis using r(1) v(1) by (simp add: settled_def)
  qed
qed

lemma invar_mutate: "invar db \<Longrightarrow> mutate k w t st cost now db = (ok, db') \<Longrightarrow> invar db'"
  using mutate_done [of db k w t st cost now db'] mutate_refused [of db k w t st cost now db'] by (cases ok) simp_all

lemma settled_renew:
  assumes "settled' w H db c" "invar db" "renew i w' t clk db = (b, db')"
  shows "settled' w H db' c"
proof -
  obtain r where r: "view db (fst c) = Some r" "in_order unfenced w H c r" using assms(1) by (rule settledE)
  from renewed [OF assms(2,3)] r(1) obtain r' where "view db' (fst c) = Some r'" "cj_claim_generation r' = cj_claim_generation r"
    "cj_claimed_by r' = cj_claimed_by r" "jb_status (cj_job r') = jb_status (cj_job r)" by blast
  then show ?thesis using r(2) by (simp add: settled_def in_order_def)
qed

lemma settled_others:
  assumes "settled' w H db c" "invar db" "others w db db'"
  shows "settled' w H db' c"
proof -
  obtain r where r: "view db (fst c) = Some r" "in_order unfenced w H c r" using assms(1) by (rule settledE)
  from others_keep [OF assms(2,3)] r(1) obtain r' where r': "view db' (fst c) = Some r'" "left_alone unfenced w r r'" by blast
  show ?thesis
  proof (cases "cj_claim_generation r' = snd c")
    case True
    then have g: "cj_claim_generation r = snd c" "cj_claimed_by r = Some w \<or> cj_claimed_by r = None \<and> unfenced None (jb_status (cj_job r))"
      using r r' by (auto simp: in_order_def left_alone_def)
    then have "cj_claimed_by r' = cj_claimed_by r \<and> jb_status (cj_job r') = jb_status (cj_job r) \<or>
       cj_claimed_by r' \<in> {cj_claimed_by r, None} \<and> unfenced (cj_claimed_by r') (jb_status (cj_job r'))"
      using r'(2) True unfolding left_alone_def by simp
    then show ?thesis
    proof
      assume "cj_claimed_by r' = cj_claimed_by r \<and> jb_status (cj_job r') = jb_status (cj_job r)"
      then show ?thesis using r(2) r'(1) True g(1) by (simp add: settled_def in_order_def)
    next
      assume "cj_claimed_by r' \<in> {cj_claimed_by r, None} \<and> unfenced (cj_claimed_by r') (jb_status (cj_job r'))"
      then show ?thesis using g(2) r'(1) True by (auto simp: settled_def in_order_def)
    qed
  next
    case False
    then show ?thesis using r r' by (auto simp: settled_def in_order_def left_alone_def)
  qed
qed

text \<open>A claim is in order when a later one of the same job is.\<close>

lemma settled_older:
  assumes "settled' w H db c'" "fst c' = fst c" "snd c < snd c'"
  shows "settled' w H' db c"
  using assms by (auto simp: settled_def in_order_def)

text \<open>A claim that is not tracked any more because of another claim of its job.\<close>

lemma settled_same_job:
  assumes "settled' w H db c" "settled' w H'' db c'" "c' \<in> set tokens" "fst c' = fst c" "c' \<noteq> c" "c \<in> repeated tokens \<Longrightarrow> c \<in> H \<Longrightarrow> c \<in> H'"
  shows "settled' w H' db c"
proof (cases "snd c < snd c'")
  case True
  then show ?thesis using settled_older [OF assms(2,4)] by blast
next
  case False
  then have "snd c' < snd c" using assms(4,5) by (metis linorder_less_linear prod.expand)
  then have "c \<in> repeated tokens" using assms(3,4) unfolding repeated_def by (metis (mono_tags, lifting) mem_Collect_eq prod.collapse)
  then show ?thesis using settled_mono [OF assms(1)] assms(6) by blast
qed

text \<open>Every step keeps the invariant.\<close>

lemma proc_invD:
  assumes "proc_inv (process_on claim mutate renew w n) (p, db, tokens)"
  shows "invar db" "has_room (process_on claim mutate renew w n) p" "c \<in> set tokens \<Longrightarrow> settled' w (still_running p tokens) db c"
    "th \<in> set (wp_threads p) \<Longrightarrow> claim_of th \<in> set tokens"
    "th \<in> set (wp_threads p) \<Longrightarrow> th_phase th = Recorded \<Longrightarrow> settled' w {} db (claim_of th)"
    "wp_pc p = AtStart j token \<Longrightarrow> (jb_id j, token) \<in> set tokens"
  using assms by (auto simp: proc_inv_def process_on_def)

lemma proc_invI:
  assumes "invar db" "has_room (process_on claim mutate renew w n) p" "\<And>c. c \<in> set tokens \<Longrightarrow> settled' w (still_running p tokens) db c"
    "\<And>th. th \<in> set (wp_threads p) \<Longrightarrow> claim_of th \<in> set tokens"
    "\<And>th. th \<in> set (wp_threads p) \<Longrightarrow> th_phase th = Recorded \<Longrightarrow> settled' w {} db (claim_of th)"
    "\<And>j token. wp_pc p = AtStart j token \<Longrightarrow> (jb_id j, token) \<in> set tokens"
  shows "proc_inv (process_on claim mutate renew w n) (p, db, tokens)"
  using assms by (auto simp: proc_inv_def process_on_def)

text \<open>A change of the store that keeps what was in order, with the process as it is or further in its program.\<close>

lemma inv_keep:
  assumes "proc_inv (process_on claim mutate renew w n) (p, db, tokens)" "invar db'" "has_room (process_on claim mutate renew w n) p'"
    "wp_threads p' = wp_threads p" "\<And>j token. wp_pc p' \<noteq> AtStart j token \<or> wp_pc p' = wp_pc p"
    "\<And>c H. c \<in> set tokens \<Longrightarrow> settled' w H db c \<Longrightarrow> (c \<in> still_running p tokens \<longleftrightarrow> c \<in> H) \<or> H = {} \<Longrightarrow>
       settled' w (if H = {} then {} else still_running p' tokens) db' c"
  shows "proc_inv (process_on claim mutate renew w n) (p', db', tokens)"
proof (rule proc_invI)
  note i = proc_invD [OF assms(1)]
  show "invar db'" "has_room (process_on claim mutate renew w n) p'" by (rule assms(2), rule assms(3))
  show "claim_of th \<in> set tokens" if "th \<in> set (wp_threads p')" for th using i(4) that assms(4) by simp
  show "settled' w {} db' (claim_of th)" if "th \<in> set (wp_threads p')" "th_phase th = Recorded" for th
    using assms(6) [of "claim_of th" "{}"] i(4,5) [of th] that assms(4) by simp
  show "settled' w (still_running p' tokens) db' c" if "c \<in> set tokens" for c
    using assms(6) [OF that i(3) [OF that]] settled_mono [of w "{}" db' c] by (auto split: if_splits)
  show "(jb_id j, token) \<in> set tokens" if "wp_pc p' = AtStart j token" for j token using assms(5) [of j token] i(6) that by auto
qed

lemma inv_record:
  assumes "proc_inv (process_on claim mutate renew w n) (p, db, tokens)" "k < length (wp_threads p)"
    "record_outcome (process_on claim mutate renew w n) k ok cost now p db = (p', db')"
  shows "proc_inv (process_on claim mutate renew w n) (p', db', tokens)"
proof (rule proc_invI)
  note i = proc_invD [OF assms(1)]
  let ?th = "wp_threads p ! k"
  obtain b where m: "mutate (jb_id (th_job ?th)) w (th_token ?th) (if ok then JobSucceeded else JobFailed) cost now db = (b, db')"
    using assms(3) by (auto simp: record_outcome_def process_on_def Let_def intro: prod.collapse [symmetric])
  have p': "p' = p\<lparr>wp_threads := (wp_threads p)[k := ?th\<lparr>th_phase := Recorded\<rparr>]\<rparr>" using assms(3) by (simp add: record_outcome_def Let_def)
  have st: "(if ok then JobSucceeded else JobFailed) \<in> {JobSucceeded, JobFailed, JobReady}" by simp
  note keep = settled_mutate [OF _ i(1) m st]
  have cl: "claim_of ?th \<in> set tokens" using i(4) assms(2) by simp
  have mem: "th = ?th\<lparr>th_phase := Recorded\<rparr> \<or> th \<in> set (wp_threads p)" if "th \<in> set (wp_threads p')" for th
    using that unfolding p' by (auto dest!: set_update_subset_insert [THEN subsetD])
  show "invar db'" using invar_mutate [OF i(1) m] .
  show "has_room (process_on claim mutate renew w n) p'" using i(2) by (simp add: has_room_def p')
  show "claim_of th \<in> set tokens" if "th \<in> set (wp_threads p')" for th
    using mem [OF that] i(4) [of th] cl by (auto simp: claim_of_def)
  show "settled' w {} db' (claim_of th)" if "th \<in> set (wp_threads p')" "th_phase th = Recorded" for th
    using mem [OF that(1)]
  proof
    assume "th = ?th\<lparr>th_phase := Recorded\<rparr>"
    then have "claim_of th = (jb_id (th_job ?th), th_token ?th)" by (simp add: claim_of_def)
    then show ?thesis using keep [of _ "claim_of th" "{}"] i(3) [OF cl] by (simp add: claim_of_def)
  qed (use keep [of "{}" "claim_of th" "{}"] i(5) [of th] that(2) in simp)
  have tr: "tracked p' = tracked p" by (rule tracked_cong) (simp_all add: p')
  show "settled' w (still_running p' tokens) db' c" if "c \<in> set tokens" for c
    using keep [OF i(3) [OF that], of "still_running p' tokens"] in_hand_record [OF assms(2,3), of c] tr
    by (auto simp: still_running_def)
  show "(jb_id j, token) \<in> set tokens" if "wp_pc p' = AtStart j token" for j token using i(6) that by (simp add: p')
qed

lemma inv_drop:
  assumes "proc_inv (process_on claim mutate renew w n) (p, db, tokens)" "k < length (wp_threads p)" "th_phase (wp_threads p ! k) = Recorded"
  shows "proc_inv (process_on claim mutate renew w n) (drop_entry k p, db, tokens)"
proof (rule proc_invI)
  note i = proc_invD [OF assms(1)]
  let ?th = "wp_threads p ! k"
  have th: "?th \<in> set (wp_threads p)" using assms(2) by simp
  have mem: "th \<in> set (wp_threads p)" if "th \<in> set (wp_threads (drop_entry k p))" for th
    using that by (auto simp: drop_entry_def dest: in_set_takeD in_set_dropD)
  show "invar db" "has_room (process_on claim mutate renew w n) (drop_entry k p)" using i(1,2) room_drop by blast+
  show "claim_of th \<in> set tokens" if "th \<in> set (wp_threads (drop_entry k p))" for th using i(4) mem [OF that] .
  show "settled' w {} db (claim_of th)" if "th \<in> set (wp_threads (drop_entry k p))" "th_phase th = Recorded" for th
    using i(5) mem [OF that(1)] that(2) .
  show "settled' w (still_running (drop_entry k p) tokens) db c" if c: "c \<in> set tokens" for c
  proof (cases "fst c = fst (claim_of ?th)")
    case False
    have "c \<in> still_running (drop_entry k p) tokens" if "c \<in> still_running p tokens"
      using that False tracked_drop [of c p k] in_hand_drop [OF assms(2,3)] by (auto simp: still_running_def claim_of_def)
    then show ?thesis using settled_mono [OF i(3) [OF c]] by blast
  next
    case True
    show ?thesis
    proof (cases "claim_of ?th = c")
      case True
      then show ?thesis using settled_mono [OF i(5) [OF th assms(3)]] by simp
    next
      case neq: False
      show ?thesis by (rule settled_same_job [OF i(3) [OF c] i(3) [OF i(4) [OF th]] i(4) [OF th] True [symmetric] neq])
          (use in_hand_drop [OF assms(2,3)] in \<open>simp add: still_running_def\<close>)
    qed
  qed
  show "(jb_id j, token) \<in> set tokens" if "wp_pc (drop_entry k p) = AtStart j token" for j token using i(6) that by (simp add: drop_entry_def)
qed

lemma inv_release:
  assumes "proc_inv (process_on claim mutate renew w n) (p, db, tokens)" "wp_pc p = AtRelease ((i, j, token) # rest)"
    "mutate i w token JobReady cost now db = (b, db')"
  shows "proc_inv (process_on claim mutate renew w n) (p\<lparr>wp_pc := AtRelease rest\<rparr>, db', tokens)"
proof (rule inv_keep [OF assms(1)])
  note inv = proc_invD [OF assms(1)]
  show "invar db'" using invar_mutate [OF inv(1) assms(3)] .
  show "has_room (process_on claim mutate renew w n) (p\<lparr>wp_pc := AtRelease rest\<rparr>)" using inv(2) assms(2) by (simp add: has_room_def)
  fix c H
  assume c: "c \<in> set tokens" "settled' w H db c" "(c \<in> still_running p tokens \<longleftrightarrow> c \<in> H) \<or> H = {}"
  show "settled' w (if H = {} then {} else still_running (p\<lparr>wp_pc := AtRelease rest\<rparr>) tokens) db' c"
    by (rule settled_mutate [OF c(2) inv(1) assms(3)])
      (use c(3) assms(2) in \<open>auto simp: still_running_def tracked_def in_hand_def entries_Cons split: if_splits\<close>)
qed simp_all

lemma inv_pc:
  assumes "proc_inv (process_on claim mutate renew w n) (p, db, tokens)" "has_room (process_on claim mutate renew w n) p'"
    "wp_threads p' = wp_threads p" "in_hand p' = in_hand p" "tracked p' = tracked p" "\<And>j token. wp_pc p' \<noteq> AtStart j token \<or> wp_pc p' = wp_pc p"
  shows "proc_inv (process_on claim mutate renew w n) (p', db, tokens)"
proof (rule inv_keep [OF assms(1) proc_invD(1) [OF assms(1)] assms(2,3,6)])
  fix c H
  assume c: "settled' w H db c" "(c \<in> still_running p tokens \<longleftrightarrow> c \<in> H) \<or> H = {}"
  have "still_running p' tokens = still_running p tokens" by (simp add: still_running_def assms(4,5))
  then show "settled' w (if H = {} then {} else still_running p' tokens) db c" using settled_mono [OF c(1)] c(2) by auto
qed

lemma inv_shutdown:
  assumes "proc_inv (process_on claim mutate renew w n) (p, db, tokens)"
    "shutdown_step (process_on claim mutate renew w n) deadline cost now p db = (p', db')"
  shows "proc_inv (process_on claim mutate renew w n) (p', db', tokens)"
proof (cases "wp_pc p")
  case AtWait
  show ?thesis
  proof (cases "wp_active p = [] \<or> deadline")
    case True
    then have p': "p' = p\<lparr>wp_pc := AtRelease (wp_active p)\<rparr>" "db' = db" using assms(2) AtWait by (auto simp: shutdown_step_def)
    show ?thesis unfolding p'
      by (rule inv_pc [OF assms(1)]) (use proc_invD(2) [OF assms(1)] AtWait in \<open>simp_all add: has_room_def in_hand_def tracked_def\<close>)
  next
    case False
    then show ?thesis using assms AtWait by (simp add: shutdown_step_def)
  qed
next
  case (AtRelease es)
  show ?thesis
  proof (cases es)
    case Nil
    then have p': "p' = p\<lparr>wp_state := WStopped, wp_pc := AtReturn\<rparr>" "db' = db" using assms(2) AtRelease by (simp_all add: shutdown_step_def)
    show ?thesis unfolding p'
      by (rule inv_pc [OF assms(1)])
        (use proc_invD(2) [OF assms(1)] AtRelease Nil in \<open>simp_all add: has_room_def in_hand_def tracked_def entries_def\<close>)
  next
    case (Cons e rest)
    obtain i j token where e: "e = (i, j, token)" by (metis prod_cases3)
    obtain b db1 where m: "mutate i w token JobReady cost now db = (b, db1)" by fastforce
    have "p' = p\<lparr>wp_pc := AtRelease rest\<rparr>" "db' = db1" using assms(2) AtRelease Cons e m by (simp_all add: shutdown_step_def process_on_def)
    then show ?thesis using inv_release [OF assms(1) AtRelease [unfolded Cons e] m] by simp
  qed
qed (use assms in \<open>simp_all add: shutdown_step_def\<close>)

lemma inv_claim:
  assumes "proc_inv (process_on claim mutate renew w n) (p, db, tokens)" "wp_pc p = AtClaim"
    "run_step (process_on claim mutate renew w n) deadline clk cost p db = (p', db', got)"
  shows "proc_inv (process_on claim mutate renew w n) (p', db', (case got of None \<Rightarrow> tokens | Some c \<Rightarrow> c # tokens))"
proof -
  note i = proc_invD [OF assms(1)]
  obtain res where c: "claim w clk db = (res, db')"
    and r: "res = None \<and> p' = p\<lparr>wp_pc := AtTop\<rparr> \<and> got = None
      \<or> (\<exists>j token. res = Some (j, token) \<and> p' = p\<lparr>wp_pc := AtStart j token\<rparr> \<and> got = Some (jb_id j, token))"
    using assms(2,3) by (auto simp: run_step_def process_on_def split: prod.splits option.splits)
  have db': "invar db'"
  proof (cases res)
    case (Some jt)
    then show ?thesis using claim_some [OF i(1), of w clk "fst jt" "snd jt" db'] c by simp
  qed (use claim_none [OF i(1), of w clk db'] c in simp)
  note keep = settled_claim(2) [OF _ i(1) c]
  from r show ?thesis
  proof (elim disjE conjE exE)
    assume none: "p' = p\<lparr>wp_pc := AtTop\<rparr>" "got = None"
    have eq: "still_running p' tokens = still_running p tokens" using assms(2) by (simp add: still_running_def in_hand_def tracked_def none(1))
    have "proc_inv (process_on claim mutate renew w n) (p', db', tokens)"
    proof (rule proc_invI)
      show "has_room (process_on claim mutate renew w n) p'" using i(2) assms(2) by (simp add: has_room_def none(1))
      show "settled' w (still_running p' tokens) db' x" if "x \<in> set tokens" for x using keep [OF i(3) [OF that]] eq by simp
      show "settled' w {} db' (claim_of th)" if "th \<in> set (wp_threads p')" "th_phase th = Recorded" for th
        using keep [OF i(5)] that none(1) by simp
    qed (use db' i(4) none(1) in simp_all)
    then show ?thesis using none(2) by simp
  next
    fix j token
    assume some: "res = Some (j, token)" "p' = p\<lparr>wp_pc := AtStart j token\<rparr>" "got = Some (jb_id j, token)"
    let ?tokens = "(jb_id j, token) # tokens"
    have sub: "still_running p tokens \<subseteq> still_running p' ?tokens"
      using assms(2) by (auto simp: still_running_def in_hand_def tracked_def repeated_def some(2))
    have "proc_inv (process_on claim mutate renew w n) (p', db', ?tokens)"
    proof (rule proc_invI)
      show "has_room (process_on claim mutate renew w n) p'" using i(2) assms(2) by (simp add: has_room_def some(2))
      show "settled' w (still_running p' ?tokens) db' x" if "x \<in> set ?tokens" for x
      proof (cases "x \<in> set tokens")
        case True
        then show ?thesis using settled_mono [OF keep [OF i(3)], of x "still_running p' ?tokens"] sub by blast
      next
        case False
        then have "x = (jb_id j, token)" using that by simp
        moreover have "(jb_id j, token) \<in> still_running p' ?tokens" by (simp add: still_running_def in_hand_def tracked_def some(2))
        ultimately show ?thesis using settled_new_claim [OF i(1) c [unfolded some(1)]] by simp
      qed
      show "settled' w {} db' (claim_of th)" if "th \<in> set (wp_threads p')" "th_phase th = Recorded" for th
        using keep [OF i(5)] that some(2) by simp
    qed (use db' i(4) some(2) in simp_all)
    then show ?thesis using some(3) by simp
  qed
qed

lemma inv_start:
  assumes "proc_inv (process_on claim mutate renew w n) (p, db, tokens)" "wp_pc p = AtStart j token"
  shows "proc_inv (process_on claim mutate renew w n) ((start_job j token p)\<lparr>wp_pc := AtTop\<rparr>, db, tokens)"
proof (rule proc_invI)
  note i = proc_invD [OF assms(1)]
  let ?p' = "(start_job j token p)\<lparr>wp_pc := AtTop\<rparr>"
  note got = i(6) [OF assms(2)]
  have threads: "wp_threads ?p' = wp_threads p @ [\<lparr>th_job = j, th_token = token, th_phase = Executing\<rparr>]" by (simp add: start_job_def)
  have hand: "in_hand ?p' = in_hand p" unfolding in_hand_start by (simp add: in_hand_def assms(2))
  have tr: "tracked ?p' \<supseteq> insert (jb_id j, token) {c \<in> entries (wp_active p). fst c \<noteq> jb_id j}"
    using entries_dict_set [where d = "wp_active p" and i = "jb_id j" and j = j and token = token] by (simp add: tracked_def start_job_def)
  show "invar db" by (rule i(1))
  show "has_room (process_on claim mutate renew w n) ?p'"
    using i(2) assms(2) length_dict_set [where d = "wp_active p" and k = "jb_id j" and v = "(j, token)"]
    by (auto simp: has_room_def start_job_def)
  show "claim_of th \<in> set tokens" if "th \<in> set (wp_threads ?p')" for th
    using i(4) got that unfolding threads by (auto simp: claim_of_def)
  show "settled' w {} db (claim_of th)" if "th \<in> set (wp_threads ?p')" "th_phase th = Recorded" for th
    using i(5) that unfolding threads by auto
  show "settled' w (still_running ?p' tokens) db c" if c: "c \<in> set tokens" for c
  proof (cases "fst c = jb_id j \<and> c \<noteq> (jb_id j, token)")
    case True
    then have same: "fst (jb_id j, token) = fst c" "(jb_id j, token) \<noteq> c" by auto
    show ?thesis by (rule settled_same_job [OF i(3) [OF c] i(3) [OF got] got same]) (simp add: still_running_def hand)
  next
    case False
    have "c \<in> still_running ?p' tokens" if "c \<in> still_running p tokens"
      using that tr False by (auto simp: still_running_def hand tracked_def assms(2))
    then show ?thesis using settled_mono [OF i(3) [OF c]] by blast
  qed
  show "(jb_id j', t') \<in> set tokens" if "wp_pc ?p' = AtStart j' t'" for j' t' using that by simp
qed

lemma inv_main:
  assumes "proc_inv (process_on claim mutate renew w n) (p, db, tokens)" "run_step (process_on claim mutate renew w n) deadline clk cost p db = (p', db', got)"
  shows "proc_inv (process_on claim mutate renew w n) (p', db', (case got of None \<Rightarrow> tokens | Some c \<Rightarrow> c # tokens))"
proof (cases "wp_pc p")
  case AtCall
  then have p': "p' = p\<lparr>wp_state := WRunning, wp_pc := AtTop\<rparr>" "db' = db" "got = None" using assms(2) by (simp_all add: run_step_def)
  have "proc_inv (process_on claim mutate renew w n) (p', db, tokens)" unfolding p'(1)
    by (rule inv_pc [OF assms(1)]) (use proc_invD(2) [OF assms(1)] AtCall in \<open>simp_all add: has_room_def in_hand_def tracked_def\<close>)
  then show ?thesis by (simp add: p'(2,3))
next
  case AtTop
  then have p': "p' = p \<or> p' = p\<lparr>wp_pc := AtWait\<rparr> \<or> p' = p\<lparr>wp_pc := AtClaim\<rparr> \<and> int (length (wp_active p)) < n" "db' = db" "got = None"
    using assms(2) by (simp_all add: run_step_def process_on_def split: if_splits)
  have "proc_inv (process_on claim mutate renew w n) (p', db, tokens)" using p'(1)
  proof (elim disjE conjE)
    assume eq: "p' = p\<lparr>wp_pc := AtWait\<rparr>"
    show ?thesis unfolding eq
      by (rule inv_pc [OF assms(1)]) (use proc_invD(2) [OF assms(1)] AtTop in \<open>simp_all add: has_room_def in_hand_def tracked_def\<close>)
  next
    assume eq: "p' = p\<lparr>wp_pc := AtClaim\<rparr>" and room: "int (length (wp_active p)) < n"
    show ?thesis unfolding eq
      by (rule inv_pc [OF assms(1)])
        (use proc_invD(2) [OF assms(1)] AtTop room in \<open>simp_all add: has_room_def in_hand_def tracked_def process_on_def\<close>)
  qed (use assms(1) in simp)
  then show ?thesis by (simp add: p'(2,3))
next
  case AtClaim
  then show ?thesis by (rule inv_claim [OF assms(1) _ assms(2)])
next
  case (AtStart j token)
  then have p': "p' = (start_job j token p)\<lparr>wp_pc := AtTop\<rparr>" "db' = db" "got = None" using assms(2) by (simp_all add: run_step_def)
  show ?thesis using inv_start [OF assms(1) AtStart] by (simp add: p')
qed (use assms inv_shutdown [OF assms(1)] in \<open>auto simp: run_step_def split: prod.splits\<close>)

lemma proc_step_inv:
  "proc_step (process_on claim mutate renew w n) (others w) s s' \<Longrightarrow> proc_inv (process_on claim mutate renew w n) s \<Longrightarrow>
    proc_inv (process_on claim mutate renew w n) s'"
proof (induction rule: proc_step.induct)
  case (step_signal p db tokens)
  have p': "wp_threads (begin_drain p) = wp_threads p" "wp_pc (begin_drain p) = wp_pc p" "wp_active (begin_drain p) = wp_active p"
    by (simp_all add: begin_drain_def)
  show ?case
    by (rule inv_pc [OF step_signal room_drain [OF proc_invD(2) [OF step_signal]] p'(1) in_hand_drain tracked_cong [OF p'(2,3)]])
      (simp add: p'(2))
next
  case (step_main deadline clk cost p db p' db' got tokens)
  then show ?case using inv_main by blast
next
  case (step_record k p ok cost now db p' db' tokens)
  then show ?case using inv_record by blast
next
  case (step_drop k p db tokens)
  then show ?case using inv_drop by blast
next
  case (step_renew i token clk db b db' p tokens)
  note inv = proc_invD [OF step_renew(2)]
  have r: "renew i w token clk db = (b, db')" using step_renew(1) by (simp add: process_on_def)
  show ?case
  proof (rule inv_keep [OF step_renew(2) _ inv(2)])
    show "invar db'" using renewed [OF inv(1) r] by simp
    show "settled' w (if H = {} then {} else still_running p tokens) db' c"
      if "settled' w H db c" "(c \<in> still_running p tokens \<longleftrightarrow> c \<in> H) \<or> H = {}" for c H
      using settled_mono [OF settled_renew [OF that(1) inv(1) r]] that(2) by auto
  qed simp_all
next
  case (step_others db db' p tokens)
  note inv = proc_invD [OF step_others(2)]
  show ?case
  proof (rule inv_keep [OF step_others(2) _ inv(2)])
    show "invar db'" using others_keep [OF inv(1) step_others(1)] by simp
    show "settled' w (if H = {} then {} else still_running p tokens) db' c"
      if "settled' w H db c" "(c \<in> still_running p tokens \<longleftrightarrow> c \<in> H) \<or> H = {}" for c H
      using settled_mono [OF settled_others [OF that(1) inv(1) step_others(1)]] that(2) by auto
  qed simp_all
qed

lemma stopped_process_leaves_no_orphan:
  assumes "invar db" "(proc_step (process_on claim mutate renew w n) (others w))\<^sup>*\<^sup>* (proc_new, db, []) (p, db', tokens)"
    "wp_pc p = AtReturn" "c \<in> set tokens"
  shows "int (length (wp_active p)) \<le> max 0 n \<and>
    (\<exists>r. view db' (fst c) = Some r \<and> in_order unfenced w (set (executing (wp_threads p)) \<inter> repeated tokens) c r)"
proof -
  have "proc_inv (process_on claim mutate renew w n) s'" if "(proc_step (process_on claim mutate renew w n) (others w))\<^sup>*\<^sup>* (proc_new, db, []) s'" for s'
    using that
  proof induction
    case base
    show ?case by (rule proc_invI) (use assms(1) in \<open>simp_all add: proc_new_def has_room_def\<close>)
  next
    case (step s s')
    then show ?case using proc_step_inv by blast
  qed
  from this [OF assms(2)] have inv: "proc_inv (process_on claim mutate renew w n) (p, db', tokens)" .
  have "still_running p tokens = set (executing (wp_threads p)) \<inter> repeated tokens"
    using assms(3) by (simp add: still_running_def in_hand_def tracked_def)
  then have "settled' w (set (executing (wp_threads p)) \<inter> repeated tokens) db' c" using proc_invD(3) [OF inv assms(4)] by simp
  moreover have "int (length (wp_active p)) \<le> max 0 n" using proc_invD(2) [OF inv] assms(3) by (simp add: has_room_def process_on_def)
  ultimately show ?thesis by (simp add: settled_def)
qed

end

subsection \<open>Schedules\<close>

text \<open>An executable schedule of the process's own steps; an action that is not possible is skipped.\<close>

datatype proc_action = Signal | Main bool | Record nat bool | Drop nat

fun act :: "'s proc_config \<Rightarrow> real \<Rightarrow> proc_action \<Rightarrow> 's proc_world \<Rightarrow> 's proc_world" where
  "act C now Signal (p, db, tokens) = (begin_drain p, db, tokens)"
| "act C now (Main deadline) (p, db, tokens) = (case run_step C deadline (\<lambda>_. now) 0 p db of
     (p', db', got) \<Rightarrow> (p', db', (case got of None \<Rightarrow> tokens | Some c \<Rightarrow> c # tokens)))"
| "act C now (Record k ok) (p, db, tokens) = (if k < length (wp_threads p) \<and> th_phase (wp_threads p ! k) = Executing
     then (case record_outcome C k ok 0 now p db of (p', db') \<Rightarrow> (p', db', tokens)) else (p, db, tokens))"
| "act C now (Drop k) (p, db, tokens) = (if k < length (wp_threads p) \<and> th_phase (wp_threads p ! k) = Recorded
     then (drop_entry k p, db, tokens) else (p, db, tokens))"

lemma act_step: "act C now a s = s \<or> proc_step C others s (act C now a s)"
  by (induction C now a s rule: act.induct) (auto intro: proc_step.intros split: prod.splits)

lemma acts_steps: "(proc_step C others)\<^sup>*\<^sup>* s (fold (act C now) as s)"
proof (induction as arbitrary: s)
  case (Cons a as)
  from act_step [of C now a s others] show ?case
  proof
    assume "act C now a s = s"
    then show ?thesis using Cons.IH [of s] by simp
  next
    assume "proc_step C others s (act C now a s)"
    then show ?thesis using Cons.IH [of "act C now a s"] by (simp add: converse_rtranclp_into_rtranclp)
  qed
qed simp

text \<open>A worker for one job on each of the stores.\<close>

abbreviation demo_process :: "control_plane proc_config" where
  "demo_process \<equiv> sqlite_process 120 ''w'' 1"

abbreviation demo_tenant_process :: "tenant_db proc_config" where
  "demo_tenant_process \<equiv> tenant_process ''a'' [] 120 ''w'' 1"

text \<open>A job is claimed and started, the signal arrives, and the wait reaches its deadline.\<close>

definition until_deadline :: "proc_action list" where
  "until_deadline = [Main False, Main False, Main False, Main False, Signal, Main False, Main True]"

subsection \<open>What a stopped worker leaves behind\<close>

text \<open>C8: a worker process leaves no orphan. Started on the SQLite control plane and stopped at any point of any interleaving of
  its threads, its signals and other workers, every job it ever claimed is, when \<open>run\<close> has returned, either taken over by another
  claim, with a greater token, or still its own and then recorded as succeeded or failed, or given back as ready. Only a job that the
  process had claimed once before, under a smaller token, may still run in one of its threads: the first of its two threads to end
  has dropped the entry that the shutdown would have given back. The jobs it counts as active never exceed the concurrency.\<close>

theorem shutdown_leaves_no_orphan:
  assumes "cp_inv db" "(proc_step (sqlite_process lease w n) (sqlite_others w))\<^sup>*\<^sup>* (proc_new, db, []) (p, db', tokens)"
    "wp_pc p = AtReturn" "c \<in> set tokens"
  shows "int (length (wp_active p)) \<le> max 0 n \<and>
    (\<exists>r. cp_job_of db' (fst c) = Some r \<and> snd c \<le> cj_claim_generation r \<and>
      (cj_claim_generation r = snd c \<longrightarrow> cj_claimed_by r = Some w \<and>
        (jb_status (cj_job r) \<in> {''SUCCEEDED'', ''FAILED'', ''READY''} \<or>
         jb_status (cj_job r) = ''RUNNING'' \<and> c \<in> set (executing (wp_threads p)) \<and> (\<exists>token < snd c. (fst c, token) \<in> set tokens))))"
  using sqlite_jobs.stopped_process_leaves_no_orphan [OF assms(1) assms(2) [unfolded sqlite_process_def] assms(3,4)]
  by (auto simp: in_order_def repeated_def)

lemma sqlite_run:
  "(proc_step C (sqlite_others w))\<^sup>*\<^sup>* (proc_new, demo_cp, []) (fold (act C now) as (proc_new, demo_cp, []))"
  by (rule acts_steps)

theorem shutdown_leaves_no_orphan_witness:
  "\<exists>p db tokens. fold (act demo_process 0) (until_deadline @ [Main True, Main True]) (proc_new, demo_cp, []) = (p, db, tokens) \<and>
     (''j'', 1) \<in> set tokens \<and> int (length (wp_active p)) \<le> 1 \<and>
     (\<exists>r. cp_job_of db ''j'' = Some r \<and> jb_status (cj_job r) = ''READY'' \<and> cj_claim_generation r = 1)"
proof -
  let ?s = "fold (act demo_process 0) (until_deadline @ [Main True, Main True]) (proc_new, demo_cp, [])"
  obtain p db tokens where s: "?s = (p, db, tokens)" by (cases ?s)
  have "wp_pc (fst ?s) = AtReturn \<and> (''j'', 1) \<in> set (snd (snd ?s)) \<and>
      map_option (\<lambda>r. (jb_status (cj_job r), cj_claim_generation r)) (cp_job_of (fst (snd ?s)) ''j'') = Some (''READY'', 1)" by code_simp
  then have *: "wp_pc p = AtReturn" "(''j'', 1) \<in> set tokens"
    and r: "\<exists>r. cp_job_of db ''j'' = Some r \<and> jb_status (cj_job r) = ''READY'' \<and> cj_claim_generation r = 1" unfolding s by auto
  have inv: "cp_inv demo_cp" by (simp add: cp_inv_def demo_cp_def cp_empty_def unique_key_def)
  have "(proc_step demo_process (sqlite_others ''w''))\<^sup>*\<^sup>* (proc_new, demo_cp, []) (p, db, tokens)"
    using sqlite_run [where C = demo_process and now = 0] unfolding s [symmetric] .
  from shutdown_leaves_no_orphan [OF inv this *] have "int (length (wp_active p)) \<le> 1" by simp
  with s *(2) r show ?thesis by blast
qed

text \<open>On PostgreSQL a reconciliation may have taken the job from the worker without a new token; it is ready then, and nobody's.\<close>

lemma pg_shutdown_leaves_no_orphan:
  assumes "pq_inv db" "(proc_step (pg_process lease w n) (pg_others w))\<^sup>*\<^sup>* (proc_new, db, []) (p, db', tokens)"
    "wp_pc p = AtReturn" "c \<in> set tokens"
  shows "int (length (wp_active p)) \<le> max 0 n \<and>
    (\<exists>r. pq_view db' (fst c) = Some r \<and> snd c \<le> cj_claim_generation r \<and>
      (cj_claim_generation r = snd c \<longrightarrow> cj_claimed_by r = None \<and> jb_status (cj_job r) = ''READY'' \<or> cj_claimed_by r = Some w \<and>
        (jb_status (cj_job r) \<in> {''SUCCEEDED'', ''FAILED'', ''READY''} \<or>
         jb_status (cj_job r) = ''RUNNING'' \<and> c \<in> set (executing (wp_threads p)) \<and> (\<exists>token < snd c. (fst c, token) \<in> set tokens))))"
  using pg_jobs.stopped_process_leaves_no_orphan [OF assms(1) assms(2) [unfolded pg_process_def] assms(3,4)]
  by (auto simp: in_order_def reclaimed_def repeated_def)

text \<open>C11: a worker of an organisation leaves no orphan in the tenant store, whatever any tenant does meanwhile: when \<open>run\<close> has
  returned, every job it claimed is a job of its organisation that was taken over with a greater token, or is its own and succeeded,
  failed, ready or cancelled by a member. A job may still run in one of its threads only if the process had claimed it before.\<close>

theorem tenant_shutdown_leaves_no_orphan:
  assumes "tenant_inv db" "(proc_step (tenant_process org proj lease w n) (txns (\<lambda>_. True) (\<lambda>w'. w' \<noteq> w)))\<^sup>*\<^sup>* (proc_new, db, []) (p, db', tokens)"
    "wp_pc p = AtReturn" "c \<in> set tokens"
  shows "int (length (wp_active p)) \<le> max 0 n \<and>
    (\<exists>r \<in> set (td_jobs db'). tj_organization_id r = org \<and> tj_id r = fst c \<and> snd c \<le> cj_claim_generation (tj_row r) \<and>
      (cj_claim_generation (tj_row r) = snd c \<longrightarrow> cj_claimed_by (tj_row r) = Some w \<and>
        (jb_status (tj_job r) \<in> {''SUCCEEDED'', ''FAILED'', ''READY'', ''CANCELLED''} \<or>
         jb_status (tj_job r) = ''RUNNING'' \<and> c \<in> set (executing (wp_threads p)) \<and> (\<exists>token < snd c. (fst c, token) \<in> set tokens))))"
proof -
  let ?ctx = "worker_context w org proj"
  have o: "rc_organization_id ?ctx = org" by (simp add: worker_context_def)
  from tenant_jobs.stopped_process_leaves_no_orphan [OF assms(1) assms(2) [unfolded tenant_process_def] assms(3,4)]
  obtain r where r: "int (length (wp_active p)) \<le> max 0 n" "tenant_view org db' (fst c) = Some r"
    "in_order cancelled w (set (executing (wp_threads p)) \<inter> repeated tokens) c r" unfolding o by blast
  from r(2) obtain t where t: "t \<in> set (td_jobs db')" "tj_organization_id t = org" "tj_id t = fst c" "tj_row t = r"
    using tenant_view_SomeD by blast
  show ?thesis using r(1,3) t by (intro conjI bexI [of _ t]) (auto simp: in_order_def cancelled_def repeated_def)
qed

lemma tenant_run:
  "(proc_step C (txns (\<lambda>_. True) (\<lambda>w'. w' \<noteq> w)))\<^sup>*\<^sup>* (proc_new, demo_tenants, []) (fold (act C now) as (proc_new, demo_tenants, []))"
  by (rule acts_steps)

theorem tenant_shutdown_leaves_no_orphan_witness:
  "\<exists>p db tokens. fold (act demo_tenant_process 0) (until_deadline @ [Main True, Main True]) (proc_new, demo_tenants, []) = (p, db, tokens) \<and>
     (''j'', 1) \<in> set tokens \<and> int (length (wp_active p)) \<le> 1 \<and> (\<exists>r. r \<in> set (td_jobs db) \<and> tj_organization_id r = ''a'' \<and> tj_id r = ''j'')"
proof -
  let ?s = "fold (act demo_tenant_process 0) (until_deadline @ [Main True, Main True]) (proc_new, demo_tenants, [])"
  obtain p db tokens where s: "?s = (p, db, tokens)" by (cases ?s)
  have "wp_pc (fst ?s) = AtReturn \<and> (''j'', 1) \<in> set (snd (snd ?s))" by code_simp
  then have *: "wp_pc p = AtReturn" "(''j'', 1) \<in> set tokens" unfolding s by simp_all
  have inv: "tenant_inv demo_tenants" by (simp add: tenant_inv_def demo_tenants_def unique_key_def)
  have "(proc_step demo_tenant_process (txns (\<lambda>_. True) (\<lambda>w'. w' \<noteq> ''w'')))\<^sup>*\<^sup>* (proc_new, demo_tenants, []) (p, db, tokens)"
    using tenant_run [where C = demo_tenant_process and now = 0] unfolding s [symmetric] .
  from tenant_shutdown_leaves_no_orphan [OF inv this *] s *(2) show ?thesis by auto
qed

definition stored_status :: "control_plane proc_world \<Rightarrow> string option" where
  "stored_status s = map_option (\<lambda>r. jb_status (cj_job r)) (cp_job_of (fst (snd s)) ''j'')"

text \<open>The exception of C8 happens: with room for two, the process claims its own expired job again, the first thread ends and drops the
  entry of the second, and the shutdown returns without giving back the job, which is still running.\<close>

lemma reclaimed_job_is_left_running:
  "\<exists>s. (proc_step (sqlite_process 1 ''w'' 2) (\<lambda>_ _. False))\<^sup>*\<^sup>* (proc_new, demo_cp, []) s \<and> wp_pc (fst s) = AtReturn \<and>
     stored_status s = Some ''RUNNING'' \<and> executing (wp_threads (fst s)) = [(''j'', 2)] \<and> snd (snd s) = [(''j'', 2), (''j'', 1)]"
proof -
  let ?C = "sqlite_process 1 ''w'' 2"
  let ?s = "fold (act ?C 0) [Main False, Main False, Main False, Main False] (proc_new, demo_cp, [])"
  let ?s' = "fold (act ?C 9) [Main False, Main False, Main False, Record 0 True, Drop 0, Signal, Main False, Main False, Main False] ?s"
  have "wp_pc (fst ?s') = AtReturn \<and> stored_status ?s' = Some ''RUNNING'' \<and> executing (wp_threads (fst ?s')) = [(''j'', 2)] \<and>
      snd (snd ?s') = [(''j'', 2), (''j'', 1)]" by code_simp
  moreover have "(proc_step ?C (\<lambda>_ _. False))\<^sup>*\<^sup>* (proc_new, demo_cp, []) ?s'" using rtranclp_trans [OF acts_steps acts_steps] .
  ultimately show ?thesis by blast
qed

text \<open>C40: giving a job back does not look at its status. The process alone, without other workers, comes to a point where its thread
  has recorded the job as succeeded while the shutdown still has the entry to give back; from there the next step of the shutdown,
  whenever and with whatever cost it is made, sets the finished job to ready, so that it runs again.\<close>

theorem shutdown_reopens_finished_job:
  "\<exists>p db tokens j token. (proc_step demo_process (\<lambda>_ _. False))\<^sup>*\<^sup>* (proc_new, demo_cp, []) (p, db, tokens) \<and>
     wp_pc p = AtRelease [(''j'', j, token)] \<and> executing (wp_threads p) = [] \<and> stored_status (p, db, tokens) = Some ''SUCCEEDED'' \<and>
     (\<forall>deadline cost now. \<exists>p' db'. shutdown_step demo_process deadline cost now p db = (p', db') \<and>
        wp_pc p' = AtRelease [] \<and> stored_status (p', db', tokens) = Some ''READY'')"
proof -
  let ?s = "fold (act demo_process 0) (until_deadline @ [Record 0 True]) (proc_new, demo_cp, [])"
  obtain p db tokens where s: "?s = (p, db, tokens)" by (cases ?s)
  have "(case wp_pc (fst ?s) of AtRelease es \<Rightarrow> map (\<lambda>(i, j, token). (i, token)) es = [(''j'', 1)] | _ \<Rightarrow> False) \<and> executing (wp_threads (fst ?s)) = [] \<and>
      stored_status ?s = Some ''SUCCEEDED'' \<and>
      (case cp_job_of (fst (snd ?s)) ''j'' of None \<Rightarrow> False | Some r \<Rightarrow> cp_owned ''j'' ''w'' 1 r)" by code_simp
  then obtain j where *: "wp_pc p = AtRelease [(''j'', j, 1)]" "executing (wp_threads p) = []" "stored_status (p, db, tokens) = Some ''SUCCEEDED''"
    and o: "case cp_job_of db ''j'' of None \<Rightarrow> False | Some r \<Rightarrow> cp_owned ''j'' ''w'' 1 r"
    unfolding s by (auto split: main_pc.splits)
  have "\<exists>p' db'. shutdown_step demo_process deadline cost now p db = (p', db') \<and> wp_pc p' = AtRelease [] \<and>
      stored_status (p', db', tokens) = Some ''READY''" for deadline cost now
    using o mutate_with_fencing_get [of "''j''" "''w''" 1 JobReady cost now db "''j''"]
    by (auto simp: shutdown_step_def *(1) sqlite_process_def process_on_def stored_status_def split: option.splits)
  moreover have "(proc_step demo_process (\<lambda>_ _. False))\<^sup>*\<^sup>* (proc_new, demo_cp, []) (p, db, tokens)"
    using acts_steps [of demo_process "\<lambda>_ _. False" "(proc_new, demo_cp, [])" 0 "until_deadline @ [Record 0 True]"] unfolding s .
  ultimately show ?thesis using * by blast
qed

end
