(* ===== verification/Deployment.thy ===== *)
theory Deployment
  imports ControlPlane
begin

text \<open>
  \<open>src/zcoder/domain/services/deployment.py\<close>: health, logical backup and restore, deployment history with rollback,
  and revocable artifact manifests, over the control plane store. The dump of \<open>iterdump\<close> stands for the whole database, so
  executing it on a fresh file gives that database; the text of a dump is the parameter \<open>dump\<close>. The deployment tables
  live in the same file and are created on first use, which a missing table is here.
\<close>

subsection \<open>Records\<close>

record service_health =
  sh_status :: string
  sh_liveness :: bool
  sh_readiness :: bool
  sh_db_connected :: bool
  sh_active_workers :: int
  sh_queue_depth :: int

record deployment_record =
  dr_deployment_id :: string
  dr_version :: string
  dr_image_digest :: string
  dr_environment :: string
  dr_deployed_at :: real
  dr_actor :: string
  dr_result :: string
  dr_notes :: string

record artifact_manifest =
  am_artifact_id :: string
  am_artifact_type :: string
  am_version :: string
  am_sha256 :: string
  am_size_bytes :: int
  am_provenance :: string
  am_revoked :: bool
  am_revocation_reason :: string
  am_created_at :: real

text \<open>The database file: the control plane and the two tables that may not exist yet.\<close>

record database =
  db_plane :: control_plane
  db_history :: "deployment_record list option"
  db_artifacts :: "artifact_manifest list option"

record backup_archive =
  ba_archive_id :: string
  ba_created_at :: real
  ba_record_counts :: "(string \<times> nat) list"
  ba_data_dump :: database
  ba_dump_text :: string

subsection \<open>Health and backup\<close>

text \<open>\<open>reachable\<close> is whether the database answers.\<close>

definition evaluate_health :: "bool \<Rightarrow> database \<Rightarrow> service_health" where
  "evaluate_health reachable db =
     \<lparr>sh_status = (if reachable then ''HEALTHY'' else ''DEGRADED''), sh_liveness = True, sh_readiness = reachable,
      sh_db_connected = reachable, sh_active_workers = 2,
      sh_queue_depth = (if reachable
        then int (sql_count (\<lambda>r. jb_status (cj_job r) = ''READY'') (cp_jobs (db_plane db))) else 0)\<rparr>"

definition create_logical_backup :: "(database \<Rightarrow> string) \<Rightarrow> real \<Rightarrow> real \<Rightarrow> database \<Rightarrow> backup_archive" where
  "create_logical_backup dump t_id t_created db =
     \<lparr>ba_archive_id = ''bck_'' @ string_of_int \<lfloor>t_id\<rfloor>, ba_created_at = t_created,
      ba_record_counts = [(''jobs'', length (cp_jobs (db_plane db))), (''outbox'', length (cp_outbox (db_plane db))),
        (''webhook_inbox'', length (cp_inbox (db_plane db))), (''installations'', length (cp_installations (db_plane db))),
        (''repositories'', length (cp_repositories (db_plane db)))],
      ba_data_dump = db, ba_dump_text = dump db\<rparr>"

definition restore_backup :: "backup_archive \<Rightarrow> database \<Rightarrow> bool \<times> database" where
  "restore_backup a target = (if ba_dump_text a = [] then (False, target) else (True, ba_data_dump a))"

text \<open>Reclaim after a crash: the lease is set into the past and worker B claims.\<close>

definition simulate_worker_crash_and_reclaim ::
  "real \<Rightarrow> (nat \<Rightarrow> real) \<Rightarrow> string \<Rightarrow> database \<Rightarrow> (bool \<times> string option) \<times> database" where
  "simulate_worker_crash_and_reclaim now clk job_id db =
     (let p = (db_plane db)\<lparr>cp_jobs := sql_update (\<lambda>r. cj_id r = job_id) (\<lambda>r. r\<lparr>cj_lease_expires_at := now - 10\<rparr>)
            (cp_jobs (db_plane db))\<rparr>
      in (case claim_job_with_fencing ''worker_B'' 60 clk p of
            (None, p') \<Rightarrow> ((False, None), db\<lparr>db_plane := p'\<rparr>)
          | (Some (_, token), p') \<Rightarrow>
              ((True, Some (''Reclaimed with fencing token '' @ string_of_int token)), db\<lparr>db_plane := p'\<rparr>)))"

subsection \<open>Deployment history\<close>

definition history_rows :: "database \<Rightarrow> deployment_record list" where
  "history_rows db = (case db_history db of None \<Rightarrow> [] | Some t \<Rightarrow> t)"

definition record_deployment :: "deployment_record \<Rightarrow> database \<Rightarrow> database" where
  "record_deployment r db = db\<lparr>db_history := Some (sql_replace dr_deployment_id r (history_rows db))\<rparr>"

text \<open>A negative limit is no limit in SQLite.\<close>

definition get_deployment_history :: "int \<Rightarrow> database \<Rightarrow> deployment_record list \<times> database" where
  "get_deployment_history limit db =
     (let rows = sort_key (\<lambda>r. - dr_deployed_at r) (history_rows db)
      in (if limit < 0 then rows else take (nat limit) rows, db\<lparr>db_history := Some (history_rows db)\<rparr>))"

definition rollback_to_version :: "real \<Rightarrow> real \<Rightarrow> string \<Rightarrow> string \<Rightarrow> database \<Rightarrow> (bool \<times> string) \<times> database" where
  "rollback_to_version t_id t_deployed target_version actor db =
     (case get_deployment_history 50 db of (hist, db1) \<Rightarrow>
        (case find (\<lambda>d. dr_version d = target_version) hist of
           None \<Rightarrow> ((False, ''Version '' @ target_version @ '' not found in deployment history''), db1)
         | Some target \<Rightarrow>
             (let rid = ''rollback_'' @ string_of_int \<lfloor>t_id\<rfloor> in
              ((True, ''Rollback to '' @ target_version @ '' recorded (deployment_id='' @ rid @ '')''),
               record_deployment \<lparr>dr_deployment_id = rid, dr_version = target_version,
                 dr_image_digest = dr_image_digest target, dr_environment = dr_environment target,
                 dr_deployed_at = t_deployed, dr_actor = actor, dr_result = ''ROLLBACK'',
                 dr_notes = ''Rollback from failed deployment to '' @ target_version\<rparr> db1))))"

subsection \<open>Artifacts\<close>

definition revoke_artifact :: "artifact_manifest \<Rightarrow> string \<Rightarrow> database \<Rightarrow> artifact_manifest \<times> database" where
  "revoke_artifact m reason db =
     (let m' = m\<lparr>am_revoked := True, am_revocation_reason := reason\<rparr>
      in (m', db\<lparr>db_artifacts := Some (sql_replace am_artifact_id m' (case db_artifacts db of None \<Rightarrow> [] | Some t \<Rightarrow> t))\<rparr>))"

text \<open>Unlike the history, the table is not created here: reading before any revocation raises.\<close>

datatype deployment_error = NoSuchTable string | DatabaseUnreachable

definition get_artifact_manifest :: "string \<Rightarrow> database \<Rightarrow> deployment_error + artifact_manifest option" where
  "get_artifact_manifest i db =
     (case db_artifacts db of
        None \<Rightarrow> Inl (NoSuchTable ''artifact_manifest'')
      | Some t \<Rightarrow> Inr (sql_get am_artifact_id i t))"

text \<open>\<open>content\<close> is what reading the file gives, \<open>None\<close> if that fails.\<close>

definition verify_artifact_integrity :: "(string \<Rightarrow> string) \<Rightarrow> artifact_manifest \<Rightarrow> string option \<Rightarrow> bool" where
  "verify_artifact_integrity H m content = (case content of None \<Rightarrow> False | Some c \<Rightarrow> H c = am_sha256 m)"

text \<open>
  With an unreachable database the history query at the end raises, whatever the earlier checks noted.
\<close>

definition run_deployment_rehearsal ::
  "(database \<Rightarrow> string) \<Rightarrow> bool \<Rightarrow> (nat \<Rightarrow> real) \<Rightarrow> string \<Rightarrow> bool \<Rightarrow> database \<Rightarrow> (deployment_error + jobj) \<times> database" where
  "run_deployment_rehearsal dump reachable clk target_version dry_run db =
     (if \<not> reachable then (Inl DatabaseUnreachable, db)
      else
       (let health = evaluate_health reachable db;
            backup = create_logical_backup dump (clk 1) (clk 2) db;
            (hist, db1) = get_deployment_history 1 db
        in (Inr [(''target_version'', JStr target_version), (''dry_run'', JBool dry_run), (''started_at'', JFloat (clk 0)),
           (''checks'', JArr
             [JObj [(''name'', JStr ''health''), (''passed'', JBool (sh_status health = ''HEALTHY'')),
                (''detail'', JStr (sh_status health))],
              JObj [(''name'', JStr ''backup_creation''), (''passed'', JBool (ba_dump_text backup \<noteq> [])),
                (''detail'', JStr (''archive_id='' @ ba_archive_id backup))],
              JObj [(''name'', JStr ''deployment_history''), (''passed'', JBool (hist \<noteq> [])),
                (''detail'', JStr (string_of_int (int (length hist)) @ '' records''))]]),
           (''passed'', JBool (sh_status health = ''HEALTHY'' \<and> ba_dump_text backup \<noteq> [])),
           (''completed_at'', JFloat (clk 3)), (''duration_seconds'', JFloat (clk 3 - clk 0))], db1)))"

subsection \<open>Rollback\<close>

lemma sort_key_hd_strict:
  fixes f :: "'a \<Rightarrow> real"
  assumes "x \<in> set t" and "\<And>y. y \<in> set t \<Longrightarrow> y \<noteq> x \<Longrightarrow> f x < f y"
  shows "\<exists>ys. sort_key f t = x # ys"
proof -
  obtain z zs where s: "sort_key f t = z # zs"
    using assms(1) by (metis empty_iff empty_set list.exhaust set_sort)
  have z: "z \<in> set t" using s set_sort [of f t] by (metis list.set_intros(1))
  have "sorted (map f (z # zs))" using sorted_sort_key [of f t] s by simp
  moreover have "x \<in> set (z # zs)" using assms(1) s set_sort [of f t] by metis
  ultimately have "f z \<le> f x" by auto
  with assms(2) [OF z] have "z = x" by fastforce
  with s show ?thesis by blast
qed

text \<open>
  C38: A rollback makes the target current: if a version is in the recent history and the clock is past
  every recorded deployment, the rollback succeeds, and the newest entry of the history is then one of result ROLLBACK for that
  version, with the image digest and environment of the most recent recorded deployment of it.
\<close>
theorem rollback_makes_target_current:
  assumes "find (\<lambda>d. dr_version d = v) (fst (get_deployment_history 50 db)) = Some target"
    and "\<forall>r \<in> set (history_rows db). dr_deployed_at r < t_deployed"
  shows "\<exists>msg db' r. rollback_to_version t_id t_deployed v actor db = ((True, msg), db') \<and>
    fst (get_deployment_history 1 db') = [r] \<and> dr_version r = v \<and> dr_result r = ''ROLLBACK'' \<and>
    dr_image_digest r = dr_image_digest target \<and> dr_environment r = dr_environment target"
proof -
  let ?r = "\<lparr>dr_deployment_id = ''rollback_'' @ string_of_int \<lfloor>t_id\<rfloor>, dr_version = v,
      dr_image_digest = dr_image_digest target, dr_environment = dr_environment target,
      dr_deployed_at = t_deployed, dr_actor = actor, dr_result = ''ROLLBACK'',
      dr_notes = ''Rollback from failed deployment to '' @ v\<rparr>"
  let ?db1 = "db\<lparr>db_history := Some (history_rows db)\<rparr>"
  let ?db' = "record_deployment ?r ?db1"
  have g: "get_deployment_history 50 db = (fst (get_deployment_history 50 db), ?db1)"
    by (simp add: get_deployment_history_def Let_def)
  obtain msg where a: "rollback_to_version t_id t_deployed v actor db = ((True, msg), ?db')"
    unfolding rollback_to_version_def by (subst (asm) g) (simp add: assms(1) Let_def)
  have "\<exists>ys. sort_key (\<lambda>r. - dr_deployed_at r) (history_rows ?db') = ?r # ys"
  proof (rule sort_key_hd_strict)
    show "?r \<in> set (history_rows ?db')" by (simp add: history_rows_def record_deployment_def sql_replace_def)
    fix y assume "y \<in> set (history_rows ?db')" and "y \<noteq> ?r"
    then have "y \<in> set (history_rows db)"
      by (auto simp: history_rows_def record_deployment_def sql_replace_def)
    with assms(2) show "- dr_deployed_at ?r < - dr_deployed_at y" by simp
  qed
  then have b: "fst (get_deployment_history 1 ?db') = [?r]" by (auto simp: get_deployment_history_def Let_def)
  have "dr_version ?r = v \<and> dr_result ?r = ''ROLLBACK'' \<and> dr_image_digest ?r = dr_image_digest target \<and>
      dr_environment ?r = dr_environment target" by simp
  with a b show ?thesis by blast
qed

definition demo_database :: database where
  "demo_database = \<lparr>db_plane = cp_empty, db_history = Some [\<lparr>dr_deployment_id = ''d'', dr_version = ''1.0'',
     dr_image_digest = ''sha'', dr_environment = ''prod'', dr_deployed_at = 5, dr_actor = ''a'', dr_result = ''OK'', dr_notes = []\<rparr>],
     db_artifacts = None\<rparr>"

theorem rollback_makes_target_current_witness:
  "\<exists>msg db' r. rollback_to_version 9 9 ''1.0'' ''op'' demo_database = ((True, msg), db') \<and>
     fst (get_deployment_history 1 db') = [r] \<and> dr_version r = ''1.0'' \<and> dr_image_digest r = ''sha''"
proof -
  have "fst (get_deployment_history 50 demo_database) = history_rows demo_database"
    by (simp add: get_deployment_history_def Let_def history_rows_def demo_database_def sort_key_def)
  then have f: "find (\<lambda>d. dr_version d = ''1.0'') (fst (get_deployment_history 50 demo_database)) =
      Some (hd (history_rows demo_database))" by (simp add: history_rows_def demo_database_def)
  have "\<forall>r \<in> set (history_rows demo_database). dr_deployed_at r < 9" by (simp add: history_rows_def demo_database_def)
  from rollback_makes_target_current [OF f this, of 9 "''op''"] show ?thesis
    by (auto simp: history_rows_def demo_database_def)
qed

text \<open>
  A revocation is durable: once an artifact was revoked, its manifest reads back revoked with the
  reason of its last revocation, however many other artifacts are revoked afterwards.
\<close>
theorem revocation_is_durable:
  assumes "\<forall>(m', r') \<in> set others. am_artifact_id m' \<noteq> am_artifact_id m"
  shows "get_artifact_manifest (am_artifact_id m)
      (foldl (\<lambda>db (m', r'). snd (revoke_artifact m' r' db)) (snd (revoke_artifact m reason db)) others) =
    Inr (Some (m\<lparr>am_revoked := True, am_revocation_reason := reason\<rparr>))"
proof -
  have base: "get_artifact_manifest (am_artifact_id m) (snd (revoke_artifact m reason db)) =
      Inr (Some (m\<lparr>am_revoked := True, am_revocation_reason := reason\<rparr>))"
    by (simp add: get_artifact_manifest_def revoke_artifact_def Let_def sql_get_replace)
  have step: "get_artifact_manifest i d = Inr (Some x) \<Longrightarrow> am_artifact_id m' \<noteq> i \<Longrightarrow>
      get_artifact_manifest i (snd (revoke_artifact m' r' d)) = Inr (Some x)" for i d x m' r'
    by (auto simp: get_artifact_manifest_def revoke_artifact_def Let_def sql_get_replace split: option.splits)
  have "get_artifact_manifest i d = Inr (Some x) \<Longrightarrow> \<forall>(m', r') \<in> set os. am_artifact_id m' \<noteq> i \<Longrightarrow>
      get_artifact_manifest i (foldl (\<lambda>db (m', r'). snd (revoke_artifact m' r' db)) d os) = Inr (Some x)" for i d x os
    by (induction os arbitrary: d) (auto intro: step)
  from this [OF base assms] show ?thesis .
qed

theorem revocation_is_durable_witness:
  "\<exists>m m2. am_artifact_id m = ''w'' \<and> get_artifact_manifest ''w'' (snd (revoke_artifact m2 ''b''
     (snd (revoke_artifact m ''a'' demo_database)))) = Inr (Some (m\<lparr>am_revoked := True, am_revocation_reason := ''a''\<rparr>))"
proof -
  let ?m = "\<lambda>i. \<lparr>am_artifact_id = i, am_artifact_type = ''wheel'', am_version = ''1'', am_sha256 = ''s'', am_size_bytes = 1,
     am_provenance = [], am_revoked = False, am_revocation_reason = [], am_created_at = 0\<rparr>"
  have "\<forall>(m', r') \<in> set [(?m ''x'', ''b'')]. am_artifact_id m' \<noteq> am_artifact_id (?m ''w'')" by simp
  from revocation_is_durable [OF this, of "''a''" demo_database]
  show ?thesis by (intro exI [of _ "?m ''w''"] exI [of _ "?m ''x''"]) simp
qed

end
