(* ===== verification/PyRegex.thy ===== *)
theory PyRegex
  imports Prelude
begin

text \<open>
  The parts of Python's \<open>re\<close>, \<open>shlex\<close>, \<open>fnmatch\<close> and \<open>str\<close> that the coding agent decides with. A compiled pattern is a
  syntax tree; matching lists the results in the order in which the backtracking matcher tries them, so that the first one
  is the match Python finds and the groups are the ones it reports.
\<close>

subsection \<open>Patterns\<close>

datatype rx =
    REps
  | RClass "char \<Rightarrow> bool"
  | RSeq rx rx
  | RAlt rx rx
  | RStar rx
  | RLazyStar rx
  | RWordB
  | REnd
  | RNot rx
  | RNotBehind "char \<Rightarrow> bool"
  | RGroup nat rx

text \<open>The character before the position, the text from the position on, and the groups matched so far.\<close>

type_synonym rx_state = "char option \<times> string \<times> (nat \<times> string) list"

definition word_char :: "char \<Rightarrow> bool" where
  "word_char c = (let n = (of_char c :: nat) in
     48 \<le> n \<and> n \<le> 57 \<or> 65 \<le> n \<and> n \<le> 90 \<or> n = 95 \<or> 97 \<le> n \<and> n \<le> 122 \<or> n = 170 \<or> n = 178 \<or> n = 179 \<or> n = 181 \<or> n = 185
       \<or> n = 186 \<or> 188 \<le> n \<and> n \<le> 190 \<or> 192 \<le> n \<and> n \<noteq> 215 \<and> n \<noteq> 247)"

definition at_word_boundary :: "char option \<Rightarrow> string \<Rightarrow> bool" where
  "at_word_boundary p s = ((case p of None \<Rightarrow> False | Some c \<Rightarrow> word_char c) \<noteq> (case s of [] \<Rightarrow> False | c # _ \<Rightarrow> word_char c))"

text \<open>Repetition: an iteration that consumes nothing is not repeated, so the length of the text bounds the iterations.\<close>

primrec greedy_iter :: "nat \<Rightarrow> (rx_state \<Rightarrow> rx_state list) \<Rightarrow> rx_state \<Rightarrow> rx_state list" where
  "greedy_iter 0 f st = [st]"
| "greedy_iter (Suc n) f st =
     concat (map (greedy_iter n f) (filter (\<lambda>st'. length (fst (snd st')) < length (fst (snd st))) (f st))) @ [st]"

primrec lazy_iter :: "nat \<Rightarrow> (rx_state \<Rightarrow> rx_state list) \<Rightarrow> rx_state \<Rightarrow> rx_state list" where
  "lazy_iter 0 f st = [st]"
| "lazy_iter (Suc n) f st =
     st # concat (map (lazy_iter n f) (filter (\<lambda>st'. length (fst (snd st')) < length (fst (snd st))) (f st)))"

fun rx_results :: "rx \<Rightarrow> rx_state \<Rightarrow> rx_state list" where
  "rx_results REps st = [st]"
| "rx_results (RClass f) (p, s, g) = (case s of [] \<Rightarrow> [] | c # cs \<Rightarrow> if f c then [(Some c, cs, g)] else [])"
| "rx_results (RSeq a b) st = concat (map (rx_results b) (rx_results a st))"
| "rx_results (RAlt a b) st = rx_results a st @ rx_results b st"
| "rx_results (RStar a) (p, s, g) = greedy_iter (length s) (rx_results a) (p, s, g)"
| "rx_results (RLazyStar a) (p, s, g) = lazy_iter (length s) (rx_results a) (p, s, g)"
| "rx_results RWordB (p, s, g) = (if at_word_boundary p s then [(p, s, g)] else [])"
| "rx_results REnd (p, s, g) = (if s = [] \<or> s = [CHR 0x0A] then [(p, s, g)] else [])"
| "rx_results (RNot a) st = (if rx_results a st = [] then [st] else [])"
| "rx_results (RNotBehind f) (p, s, g) = (if (case p of None \<Rightarrow> False | Some c \<Rightarrow> f c) then [] else [(p, s, g)])"
| "rx_results (RGroup n a) (p, s, g) =
     map (\<lambda>(p', s', g'). (p', s', AList.update n (take (length s - length s') s) g')) (rx_results a (p, s, g))"

text \<open>Derived patterns: a literal text, a set of characters, an option, a repetition of at least one, alternatives.\<close>

definition rlit :: "string \<Rightarrow> rx" where
  "rlit s = foldr (\<lambda>c r. RSeq (RClass (\<lambda>x. x = c)) r) s REps"

text \<open>The same under \<open>(?i)\<close>.\<close>

definition rlit_i :: "string \<Rightarrow> rx" where
  "rlit_i s = foldr (\<lambda>c r. RSeq (RClass (\<lambda>x. ascii_lower x = ascii_lower c)) r) s REps"

definition rset :: "string \<Rightarrow> rx" where
  "rset s = RClass (\<lambda>c. List.member s c)"

definition rnotset :: "string \<Rightarrow> rx" where
  "rnotset s = RClass (\<lambda>c. \<not> List.member s c)"

definition ropt :: "rx \<Rightarrow> rx" where
  "ropt r = RAlt r REps"

definition rplus :: "rx \<Rightarrow> rx" where
  "rplus r = RSeq r (RStar r)"

definition rseq :: "rx list \<Rightarrow> rx" where
  "rseq rs = foldr RSeq rs REps"

definition ralt :: "rx list \<Rightarrow> rx" where
  "ralt rs = (case rs of [] \<Rightarrow> RClass (\<lambda>c. False) | r # rest \<Rightarrow> foldl RAlt r rest)"

abbreviation rspace :: rx where "rspace \<equiv> RClass py_isspace"
abbreviation rnonspace :: rx where "rnonspace \<equiv> RClass (\<lambda>c. \<not> py_isspace c)"
abbreviation rword :: rx where "rword \<equiv> RClass word_char"
abbreviation rdot :: rx where "rdot \<equiv> RClass (\<lambda>c. c \<noteq> CHR 0x0A)"

subsection \<open>Searching\<close>

text \<open>A match: the text before it, the matched text, the text after it, and the groups.\<close>

record rx_match =
  rm_before :: string
  rm_text :: string
  rm_after :: string
  rm_groups :: "(nat \<times> string) list"

fun search_from :: "rx \<Rightarrow> string \<Rightarrow> char option \<Rightarrow> string \<Rightarrow> rx_match option" where
  "search_from r seen p s =
     (case rx_results r (p, s, []) of
        (p', s', g) # _ \<Rightarrow> Some \<lparr>rm_before = rev seen, rm_text = take (length s - length s') s, rm_after = s', rm_groups = g\<rparr>
      | [] \<Rightarrow> (case s of [] \<Rightarrow> None | c # cs \<Rightarrow> search_from r (c # seen) (Some c) cs))"

declare search_from.simps [simp del]

definition re_search :: "rx \<Rightarrow> string \<Rightarrow> rx_match option" where
  "re_search r s = search_from r [] None s"

definition re_found :: "rx \<Rightarrow> string \<Rightarrow> bool" where
  "re_found r s = (re_search r s \<noteq> None)"

definition re_fullmatch :: "rx \<Rightarrow> string \<Rightarrow> (nat \<times> string) list option" where
  "re_fullmatch r s = (case filter (\<lambda>(p, s', g). s' = []) (rx_results r (None, s, [])) of
     [] \<Rightarrow> None | (p, s', g) # _ \<Rightarrow> Some g)"

text \<open>
  \<open>finditer\<close> for patterns that match no empty text, as all the patterns used with it are: the next search starts at the
  end of the last match. The fuel is the length of the text.
\<close>

fun finditer_from :: "nat \<Rightarrow> rx \<Rightarrow> char option \<Rightarrow> string \<Rightarrow> rx_match list" where
  "finditer_from 0 r p s = []"
| "finditer_from (Suc n) r p s =
     (case search_from r [] p s of
        None \<Rightarrow> []
      | Some m \<Rightarrow> m # (if rm_text m = [] then [] else finditer_from n r (Some (last (rm_text m))) (rm_after m)))"

definition re_finditer :: "rx \<Rightarrow> string \<Rightarrow> rx_match list" where
  "re_finditer r s = finditer_from (Suc (length s)) r None s"

subsection \<open>\<open>shlex.split\<close> in POSIX mode\<close>

datatype shlex_state = ShSpace | ShWord | ShQuote char | ShEscape shlex_state

definition shlex_space :: "char \<Rightarrow> bool" where
  "shlex_space c = List.member [CHR '' '', CHR 0x09, CHR 0x0D, CHR 0x0A] c"

text \<open>The token read so far is kept reversed; \<open>None\<close> is the \<open>ValueError\<close> of an unfinished quotation or escape.\<close>

fun shlex_from :: "shlex_state \<Rightarrow> bool \<Rightarrow> string \<Rightarrow> string \<Rightarrow> string list option" where
  "shlex_from ShSpace quoted tok [] = Some []"
| "shlex_from ShWord quoted tok [] = Some (if tok \<noteq> [] \<or> quoted then [rev tok] else [])"
| "shlex_from (ShQuote q) quoted tok [] = None"
| "shlex_from (ShEscape e) quoted tok [] = None"
| "shlex_from ShSpace quoted tok (c # s) =
     (if shlex_space c then shlex_from ShSpace quoted tok s
      else if c = CHR 0x5C then shlex_from (ShEscape ShWord) quoted tok s
      else if c = CHR 0x27 \<or> c = CHR 0x22 then shlex_from (ShQuote c) quoted tok s
      else shlex_from ShWord quoted [c] s)"
| "shlex_from ShWord quoted tok (c # s) =
     (if shlex_space c then
        (if tok \<noteq> [] \<or> quoted then map_option (Cons (rev tok)) (shlex_from ShSpace False [] s)
         else shlex_from ShSpace quoted tok s)
      else if c = CHR 0x27 \<or> c = CHR 0x22 then shlex_from (ShQuote c) quoted tok s
      else if c = CHR 0x5C then shlex_from (ShEscape ShWord) quoted tok s
      else shlex_from ShWord quoted (c # tok) s)"
| "shlex_from (ShQuote q) quoted tok (c # s) =
     (if c = q then shlex_from ShWord True tok s
      else if c = CHR 0x5C \<and> q = CHR 0x22 then shlex_from (ShEscape (ShQuote q)) True tok s
      else shlex_from (ShQuote q) True (c # tok) s)"
| "shlex_from (ShEscape e) quoted tok (c # s) =
     (case e of
        ShQuote q \<Rightarrow> shlex_from e quoted (if c \<noteq> CHR 0x5C \<and> c \<noteq> q then c # CHR 0x5C # tok else c # tok) s
      | _ \<Rightarrow> shlex_from e quoted (c # tok) s)"

definition shlex_split :: "string \<Rightarrow> string list option" where
  "shlex_split s = shlex_from ShSpace False [] s"

text \<open>The characters of the tokens are those of the text.\<close>

lemma shlex_word_end: "shlex_from ShWord quoted tok [] = Some toks \<Longrightarrow> set tok \<subseteq> A \<Longrightarrow> \<forall>t \<in> set toks. set t \<subseteq> A"
  by (cases "tok \<noteq> [] \<or> quoted") auto

lemma shlex_chars:
  assumes "shlex_from st q tok s = Some toks" "set tok \<subseteq> A" "set s \<subseteq> A" "CHR 0x5C \<in> A"
  shows "\<forall>t \<in> set toks. set t \<subseteq> A"
  using assms(1-3)
proof (induction st q tok s arbitrary: toks rule: shlex_from.induct)
  case (2 quoted tok)
  show ?case by (rule shlex_word_end [OF 2(1,2)])
next
  case (5 quoted tok c s)
  show ?case
    by (cases "shlex_space c"; cases "c = CHR 0x5C"; cases "c = CHR 0x27 \<or> c = CHR 0x22")
      (use "5.IH" "5.prems" in simp_all)
next
  case (6 quoted tok c s)
  show ?case
  proof (cases "shlex_space c \<and> (tok \<noteq> [] \<or> quoted)")
    case True
    with "6.prems"(1) obtain ts where "shlex_from ShSpace False [] s = Some ts" "toks = rev tok # ts" by auto
    with "6.IH"(1) True "6.prems"(2,3) show ?thesis by simp
  next
    case False
    then show ?thesis
      by (cases "shlex_space c"; cases "c = CHR 0x27 \<or> c = CHR 0x22"; cases "c = CHR 0x5C")
        (use "6.IH"(2-5) "6.prems" in simp_all)
  qed
next
  case (7 q quoted tok c s)
  show ?case
  proof (cases "c = q")
    case True
    then show ?thesis using "7.IH"(1) "7.prems" by simp
  next
    case False
    note ne = this
    have cA: "set (c # tok) \<subseteq> A" "set s \<subseteq> A" using "7.prems" by simp_all
    show ?thesis
    proof (cases "c = CHR 0x5C \<and> q = CHR 0x22")
      case True
      then have "shlex_from (ShEscape (ShQuote q)) True tok s = Some toks" using "7.prems"(1) by simp
      from "7.IH"(2) [OF ne True this "7.prems"(2) cA(2)] show ?thesis .
    next
      case False
      then have "shlex_from (ShQuote q) True (c # tok) s = Some toks" using "7.prems"(1) ne by (simp only: shlex_from.simps if_False)
      from "7.IH"(3) [OF ne False this cA] show ?thesis .
    qed
  qed
next
  case (8 e quoted tok c s)
  have cA: "set (c # tok) \<subseteq> A" "set s \<subseteq> A" using "8.prems" by simp_all
  then have qA: "set (if c \<noteq> CHR 0x5C \<and> c \<noteq> x then c # CHR 0x5C # tok else c # tok) \<subseteq> A" for x
    using assms(4) by simp
  show ?case
  proof (cases e)
    case ShSpace
    with "8.IH"(1) [OF ShSpace _ cA] "8.prems"(1) show ?thesis by simp
  next
    case ShWord
    with "8.IH"(2) [OF ShWord _ cA] "8.prems"(1) show ?thesis by simp
  next
    case (ShQuote x)
    with "8.IH"(3) [OF ShQuote _ qA cA(2)] "8.prems"(1) show ?thesis by simp
  next
    case (ShEscape e')
    with "8.IH"(4) [OF ShEscape _ cA] "8.prems"(1) show ?thesis by simp
  qed
qed simp_all

subsection \<open>\<open>fnmatch.fnmatch\<close>\<close>

datatype glob_item = GAny | GMany | GLit char | GSet bool "char \<Rightarrow> bool"

text \<open>The members of a bracket: ranges and single characters; a range whose ends are out of order is empty.\<close>

fun bracket_has :: "string \<Rightarrow> char \<Rightarrow> bool" where
  "bracket_has (a # b # c # s) x =
     (if b = CHR ''-'' then (of_char a \<le> (of_char x :: nat) \<and> of_char x \<le> (of_char c :: nat)) \<or> bracket_has s x
      else x = a \<or> bracket_has (b # c # s) x)"
| "bracket_has s x = List.member s x"

text \<open>The text of a bracket expression and what follows it; a \<open>]\<close> right after the opening or its \<open>!\<close> is a member.\<close>

definition bracket_split :: "string \<Rightarrow> (string \<times> string) option" where
  "bracket_split s =
     (let (neg, s1) = (case s of c # r \<Rightarrow> if c = CHR ''!'' then ([c], r) else ([], s) | [] \<Rightarrow> ([], s));
          (first, s2) = (case s1 of c # r \<Rightarrow> if c = CHR '']'' then ([c], r) else ([], s1) | [] \<Rightarrow> ([], s1));
          body = takeWhile (\<lambda>c. c \<noteq> CHR '']'') s2
      in case dropWhile (\<lambda>c. c \<noteq> CHR '']'') s2 of [] \<Rightarrow> None | _ # rest \<Rightarrow> Some (neg @ first @ body, rest))"

lemma bracket_split_shorter: "bracket_split s = Some (b, rest) \<Longrightarrow> length rest < length s"
proof -
  assume a: "bracket_split s = Some (b, rest)"
  have d: "length (dropWhile P u) \<le> length (u :: string)" for P u by (rule length_dropWhile_le)
  have "dropWhile P u = x # xs \<Longrightarrow> length xs < length (u :: string)" for P u x xs
    using d [of P u] by simp
  with a show ?thesis
    by (fastforce simp: bracket_split_def Let_def split: list.splits if_splits prod.splits)
qed

function glob_items :: "string \<Rightarrow> glob_item list" where
  "glob_items [] = []"
| "glob_items (c # s) =
     (if c = CHR ''*'' then GMany # glob_items s
      else if c = CHR ''?'' then GAny # glob_items s
      else if c = CHR ''['' then
        (case bracket_split s of
           None \<Rightarrow> GLit c # glob_items s
         | Some (b, rest) \<Rightarrow>
             (if b \<noteq> [] \<and> hd b = CHR ''!'' then GSet False (bracket_has (tl b)) else GSet True (bracket_has b)) # glob_items rest)
      else GLit c # glob_items s)"
  by pat_completeness auto
termination
  by (relation "measure length") (auto dest: bracket_split_shorter)

fun glob_matches :: "glob_item list \<Rightarrow> string \<Rightarrow> bool" where
  "glob_matches [] s = (s = [])"
| "glob_matches (GAny # ps) s = (case s of [] \<Rightarrow> False | c # cs \<Rightarrow> glob_matches ps cs)"
| "glob_matches (GLit d # ps) s = (case s of [] \<Rightarrow> False | c # cs \<Rightarrow> c = d \<and> glob_matches ps cs)"
| "glob_matches (GSet b f # ps) s = (case s of [] \<Rightarrow> False | c # cs \<Rightarrow> f c = b \<and> glob_matches ps cs)"
| "glob_matches (GMany # ps) [] = glob_matches ps []"
| "glob_matches (GMany # ps) (c # cs) = (glob_matches ps (c # cs) \<or> glob_matches (GMany # ps) cs)"

definition py_fnmatch :: "string \<Rightarrow> string \<Rightarrow> bool" where
  "py_fnmatch name pat = glob_matches (glob_items pat) name"

subsection \<open>\<open>s.count\<close>, \<open>s.replace\<close> and \<open>s.find\<close>\<close>

text \<open>Occurrences that do not overlap, from the left; the limit \<open>None\<close> is no limit. Used with a pattern that is not empty, on texts as lists of code points.\<close>

function py_count :: "'a list \<Rightarrow> 'a list \<Rightarrow> nat" where
  "py_count s old =
     (if old = [] then Suc (length s)
      else if s = [] then 0
      else if prefix old s then Suc (py_count (drop (length old) s) old)
      else py_count (tl s) old)"
  by pat_completeness auto
termination
  by (relation "measure (\<lambda>(s, old). length s)") auto

declare py_count.simps [simp del]

function py_replace_from :: "'a list \<Rightarrow> 'a list \<Rightarrow> 'a list \<Rightarrow> nat option \<Rightarrow> 'a list" where
  "py_replace_from s old new limit =
     (if s = [] \<or> old = [] \<or> limit = Some 0 then s
      else if prefix old s then new @ py_replace_from (drop (length old) s) old new (map_option (\<lambda>n. n - 1) limit)
      else hd s # py_replace_from (tl s) old new limit)"
  by pat_completeness auto
termination
  by (relation "measure (\<lambda>(s, old, new, limit). length s)") auto

declare py_replace_from.simps [simp del]

text \<open>Replacing the empty text puts the new text before each character and at the end.\<close>

definition py_replace :: "'a list \<Rightarrow> 'a list \<Rightarrow> 'a list \<Rightarrow> nat option \<Rightarrow> 'a list" where
  "py_replace s old new limit =
     (if old = [] then
        (case limit of
           None \<Rightarrow> concat (map (\<lambda>c. new @ [c]) s) @ new
         | Some n \<Rightarrow> concat (map (\<lambda>c. new @ [c]) (take n s)) @ (if n > length s then new else drop n s))
      else py_replace_from s old new limit)"

fun py_find :: "string \<Rightarrow> string \<Rightarrow> nat option" where
  "py_find [] p = (if p = [] then Some 0 else None)"
| "py_find (c # s) p = (if prefix p (c # s) then Some 0 else map_option Suc (py_find s p))"

subsection \<open>Repetition of a character class\<close>

lemma greedy_class:
  assumes "list_all f u" and "v = [] \<or> \<not> f (hd v)" and "length (u @ v) \<le> n"
  shows "map snd (greedy_iter n (rx_results (RClass f)) (p, u @ v, g)) = map (\<lambda>k. (drop k (u @ v), g)) (rev [0..<Suc (length u)])"
  using assms
proof (induction u arbitrary: n p)
  case Nil
  then show ?case by (cases n; cases v) auto
next
  case (Cons c u)
  then obtain m where n: "n = Suc m" "length (u @ v) \<le> m" by (cases n) auto
  have r: "rev [0..<Suc (length (c # u))] = map Suc (rev [0..<Suc (length u)]) @ [0]"
  proof -
    have "[0..<Suc (length (c # u))] = 0 # map Suc [0..<Suc (length u)]"
      using upt_conv_Cons [of 0 "Suc (length (c # u))"] map_Suc_upt [of 0 "Suc (length u)"] by simp
    then show ?thesis by (simp only: rev.simps rev_map)
  qed
  have "map snd (greedy_iter n (rx_results (RClass f)) (p, (c # u) @ v, g)) =
      map snd (greedy_iter m (rx_results (RClass f)) (Some c, u @ v, g)) @ [((c # u) @ v, g)]"
    using Cons.prems(1) by (simp add: n(1))
  also have "\<dots> = map (\<lambda>k. (drop k (u @ v), g)) (rev [0..<Suc (length u)]) @ [((c # u) @ v, g)]"
    using Cons.IH [OF _ Cons.prems(2) n(2), of "Some c"] Cons.prems(1) by simp
  also have "\<dots> = map (\<lambda>k. (drop k ((c # u) @ v), g)) (rev [0..<Suc (length (c # u))])"
    unfolding r by (simp add: comp_def del: upt_Suc)
  finally show ?case .
qed

lemma star_class:
  "list_all f u \<Longrightarrow> v = [] \<or> \<not> f (hd v) \<Longrightarrow>
   map snd (rx_results (RStar (RClass f)) (p, u @ v, g)) = map (\<lambda>k. (drop k (u @ v), g)) (rev [0..<Suc (length u)])"
  using greedy_class [of f u v "length (u @ v)" p g] by simp

lemma rx_results_lit1: "rx_results (rlit [c]) (p, s, g) = (case s of [] \<Rightarrow> [] | d # ds \<Rightarrow> if d = c then [(Some d, ds, g)] else [])"
  by (auto simp: rlit_def split: list.splits)

lemma rx_results_rseq:
  "rx_results (rseq []) st = [st]"
  "rx_results (rseq (r # rs)) st = concat (map (rx_results (rseq rs)) (rx_results r st))"
  by (simp_all add: rseq_def)

lemma re_fullmatch_snd:
  "re_fullmatch r s = (case filter (\<lambda>(s', g). s' = []) (map snd (rx_results r (None, s, []))) of
     [] \<Rightarrow> None | (s', g) # _ \<Rightarrow> Some g)"
proof -
  have "filter (\<lambda>(s', g). s' = []) (map snd L) = map snd (filter (\<lambda>(p, s', g). s' = []) L)" for L :: "rx_state list"
    by (induction L) auto
  then show ?thesis by (simp add: re_fullmatch_def split: list.splits prod.splits)
qed

lemma map_snd_concat_map:
  assumes "\<And>p s g. map snd (F (p, s, g)) = G (s, g)"
  shows "map snd (concat (map F L)) = concat (map G (map snd L))"
  using assms by (induction L) (auto simp: split_paired_all)

lemma map_snd_group:
  "map snd (rx_results (RGroup n a) (p, s, g)) =
     map (\<lambda>(s', g'). (s', AList.update n (take (length s - length s') s) g')) (map snd (rx_results a (p, s, g)))"
  by (induction "rx_results a (p, s, g)") (auto simp: case_prod_beta)

end
