(* ===== verification/Workspace.thy ===== *)
theory Workspace
  imports PyRegex
begin

text \<open>
  \<open>src/zcoder/agent/codeagent/workspace.py\<close>: the sandbox of the coding agent, with its record of which files were read
  and its undo checkpoints. A path is the list of its components below the root of the file system. A file is its bytes,
  as a string, and its modification time; a directory has a modification time. Symbolic links are the function \<open>fs_realpath\<close> of the file system, home directories \<open>fs_home\<close>, and \<open>fs_now\<close> is the
  time stamp that the next change leaves. Temporary files and permission bits are not modelled.
\<close>

type_synonym path = "string list"

record file_system =
  fs_files :: "path \<Rightarrow> (string \<times> int) option"
  fs_dirs :: "path \<Rightarrow> int option"
  fs_realpath :: "string list \<Rightarrow> path"
  fs_home :: "string \<Rightarrow> path option"
  fs_now :: int

datatype tool_exn = ToolErr string | OtherErr string path

definition path_exists :: "file_system \<Rightarrow> path \<Rightarrow> bool" where
  "path_exists fs p = (fs_files fs p \<noteq> None \<or> fs_dirs fs p \<noteq> None)"

definition is_dir :: "file_system \<Rightarrow> path \<Rightarrow> bool" where
  "is_dir fs p = (fs_dirs fs p \<noteq> None)"

definition st_mtime :: "file_system \<Rightarrow> path \<Rightarrow> int option" where
  "st_mtime fs p = (case fs_files fs p of Some (t, m) \<Rightarrow> Some m | None \<Rightarrow> fs_dirs fs p)"

subsection \<open>Paths\<close>

definition path_parts :: "string \<Rightarrow> string list" where
  "path_parts raw = filter (\<lambda>c. c \<noteq> [] \<and> c \<noteq> ''.'') (py_split (CHR ''/'') raw)"

definition join_with :: "string \<Rightarrow> string list \<Rightarrow> string" where
  "join_with sep xs = (case xs of [] \<Rightarrow> [] | x # rest \<Rightarrow> x @ concat (map (\<lambda>y. sep @ y) rest))"

definition path_str :: "path \<Rightarrow> string" where
  "path_str p = CHR ''/'' # join_with ''/'' p"

record ws_checkpoint =
  ck_turn :: nat
  ck_path :: path
  ck_previous :: "string option"

record workspace =
  ws_root :: path
  ws_extra_dirs :: "path list"
  ws_read_state :: "(path \<times> int) list"
  ws_checkpoints :: "ws_checkpoint list"
  ws_turn :: nat

text \<open>\<open>Path(raw).expanduser()\<close>; without a home directory it is a \<open>RuntimeError\<close>.\<close>

definition expanduser :: "file_system \<Rightarrow> string \<Rightarrow> tool_exn + bool \<times> string list" where
  "expanduser fs raw =
     (let parts = path_parts raw in
      if py_startswith raw ''/'' then Inr (True, parts)
      else (case parts of
          [] \<Rightarrow> Inr (False, [])
        | c # rest \<Rightarrow>
            if py_startswith c ''~'' then
              (case fs_home fs (tl c) of Some h \<Rightarrow> Inr (True, h @ rest) | None \<Rightarrow> Inl (OtherErr ''RuntimeError'' [c]))
            else Inr (False, parts)))"

definition workspace_new :: "path \<Rightarrow> path list \<Rightarrow> workspace" where
  "workspace_new base extra = \<lparr>ws_root = base, ws_extra_dirs = extra, ws_read_state = [], ws_checkpoints = [], ws_turn = 0\<rparr>"

definition allowed_roots :: "workspace \<Rightarrow> path list" where
  "allowed_roots ws = ws_root ws # ws_extra_dirs ws"

definition inside :: "workspace \<Rightarrow> path \<Rightarrow> bool" where
  "inside ws p = list_ex (\<lambda>r. prefix r p) (allowed_roots ws)"

definition ws_resolve :: "workspace \<Rightarrow> file_system \<Rightarrow> json \<Rightarrow> tool_exn + path" where
  "ws_resolve ws fs raw_value =
     (case raw_value of
        JStr raw \<Rightarrow>
          if py_strip raw = [] then Inl (ToolErr ''path is required'')
          else if List.member raw (CHR 0x00) then Inl (ToolErr ''invalid path'')
          else try_then (expanduser fs raw) (\<lambda>(absolute, parts).
            let resolved = fs_realpath fs (if absolute then parts else ws_root ws @ parts) in
            if inside ws resolved then Inr resolved
            else Inl (ToolErr (''path is outside the workspace: '' @ raw)))
      | _ \<Rightarrow> Inl (ToolErr ''path is required''))"

definition ws_rel :: "workspace \<Rightarrow> path \<Rightarrow> string" where
  "ws_rel ws p =
     (if prefix (ws_root ws) p
      then (case drop (length (ws_root ws)) p of [] \<Rightarrow> ''.'' | rest \<Rightarrow> join_with ''/'' rest)
      else path_str p)"

definition is_protected :: "path \<Rightarrow> bool" where
  "is_protected p = List.member p ''.git''"

definition path_name :: "path \<Rightarrow> string" where
  "path_name p = (if p = [] then [] else last p)"

definition is_sensitive :: "path \<Rightarrow> bool" where
  "is_sensitive p =
     (let name = py_lower (path_name p) in
      py_startswith name ''.env''
      \<or> list_ex (py_endswith name) [''.pem'', ''.key'', ''.p12'', ''.pfx'']
      \<or> List.member [''id_rsa'', ''id_ed25519'', ''credentials'', ''.npmrc'', ''.pypirc'', ''.netrc''] name
      \<or> List.member p ''.github'')"

subsection \<open>Which files were read\<close>

definition mark_read :: "file_system \<Rightarrow> path \<Rightarrow> workspace \<Rightarrow> workspace" where
  "mark_read fs p ws =
     (case st_mtime fs p of Some m \<Rightarrow> ws\<lparr>ws_read_state := dict_set (ws_read_state ws) p m\<rparr> | None \<Rightarrow> ws)"

definition ensure_fresh :: "workspace \<Rightarrow> file_system \<Rightarrow> path \<Rightarrow> tool_exn + unit" where
  "ensure_fresh ws fs p =
     (case map_of (ws_read_state ws) p of
        None \<Rightarrow> Inl (ToolErr (ws_rel ws p @ '' has not been read yet. Use Read first, then retry.''))
      | Some seen \<Rightarrow>
          (case st_mtime fs p of
             None \<Rightarrow> Inl (OtherErr ''FileNotFoundError'' p)
           | Some m \<Rightarrow>
               if m \<noteq> seen then Inl (ToolErr (ws_rel ws p @ '' changed since it was read. Read it again before editing.''))
               else Inr ()))"

subsection \<open>Writing with a checkpoint, and undoing\<close>

definition begin_turn :: "workspace \<Rightarrow> workspace" where
  "begin_turn ws = ws\<lparr>ws_turn := ws_turn ws + 1\<rparr>"

text \<open>\<open>mkdir(parents=True, exist_ok=True)\<close>: fails where a component is a file.\<close>

definition mkdir_parents :: "path \<Rightarrow> file_system \<Rightarrow> tool_exn + file_system" where
  "mkdir_parents d fs =
     (if fs_files fs d \<noteq> None then Inl (OtherErr ''FileExistsError'' d)
      else if list_ex (\<lambda>q. fs_files fs q \<noteq> None) (prefixes d) then Inl (OtherErr ''NotADirectoryError'' d)
      else Inr (fs\<lparr>fs_dirs := \<lambda>q. if prefix q d \<and> fs_dirs fs q = None then Some (fs_now fs) else fs_dirs fs q\<rparr>))"

definition put_file :: "path \<Rightarrow> string \<Rightarrow> file_system \<Rightarrow> file_system" where
  "put_file p data fs = fs\<lparr>fs_files := (fs_files fs)(p \<mapsto> (data, fs_now fs))\<rparr>"

definition write_atomic :: "path \<Rightarrow> string \<Rightarrow> workspace \<Rightarrow> file_system \<Rightarrow> tool_exn option \<times> workspace \<times> file_system" where
  "write_atomic p data ws fs =
     (case mkdir_parents (butlast p) fs of
        Inl e \<Rightarrow> (Some e, ws, fs)
      | Inr fs1 \<Rightarrow>
          if is_dir fs1 p then (Some (OtherErr ''IsADirectoryError'' p), ws, fs1)
          else (let previous = map_option fst (fs_files fs1 p);
                    ws1 = ws\<lparr>ws_checkpoints := ws_checkpoints ws @
                      [\<lparr>ck_turn = ws_turn ws, ck_path = p, ck_previous = previous\<rparr>]\<rparr>;
                    fs2 = put_file p data fs1
                in (None, mark_read fs2 p ws1, fs2)))"

text \<open>Undoing one checkpoint: the message, or the error of a path that has become a directory or has lost its directory.\<close>

definition undo_checkpoint :: "ws_checkpoint \<Rightarrow> workspace \<Rightarrow> file_system \<Rightarrow> (tool_exn + string) \<times> file_system" where
  "undo_checkpoint cp ws fs =
     (let p = ck_path cp in
      case ck_previous cp of
        None \<Rightarrow>
          if is_dir fs p then (Inl (OtherErr ''IsADirectoryError'' p), fs)
          else (Inr (''deleted '' @ ws_rel ws p), fs\<lparr>fs_files := (fs_files fs)(p := None)\<rparr>)
      | Some previous \<Rightarrow>
          if is_dir fs p then (Inl (OtherErr ''IsADirectoryError'' p), fs)
          else if \<not> is_dir fs (butlast p) then (Inl (OtherErr ''FileNotFoundError'' p), fs)
          else (Inr (''restored '' @ ws_rel ws p), put_file p previous fs))"

text \<open>The loop over the checkpoints of the turn, newest first: the messages so far, and the error that stopped it.\<close>

fun undo_from :: "nat \<Rightarrow> ws_checkpoint list \<Rightarrow> string list \<Rightarrow> workspace \<Rightarrow> file_system
    \<Rightarrow> (tool_exn + string list) \<times> workspace \<times> file_system" where
  "undo_from turn [] restored ws fs = (Inr restored, ws\<lparr>ws_checkpoints := []\<rparr>, fs)"
| "undo_from turn (cp # cps) restored ws fs =
     (if ck_turn cp \<noteq> turn then (Inr restored, ws\<lparr>ws_checkpoints := rev (cp # cps)\<rparr>, fs)
      else (case undo_checkpoint cp ws fs of
          (Inl e, fs') \<Rightarrow> (Inl e, ws\<lparr>ws_checkpoints := rev cps\<rparr>, fs')
        | (Inr msg, fs') \<Rightarrow>
            undo_from turn cps (restored @ [msg]) (ws\<lparr>ws_read_state := AList.delete (ck_path cp) (ws_read_state ws)\<rparr>) fs'))"

definition undo_last_turn :: "workspace \<Rightarrow> file_system \<Rightarrow> (tool_exn + string list) \<times> workspace \<times> file_system" where
  "undo_last_turn ws fs =
     (case rev (ws_checkpoints ws) of
        [] \<Rightarrow> (Inr [], ws, fs)
      | cp # cps \<Rightarrow> undo_from (ck_turn cp) (cp # cps) [] ws fs)"

subsection \<open>Undoing restores the contents\<close>

definition content :: "file_system \<Rightarrow> path \<Rightarrow> string option" where
  "content fs p = map_option fst (fs_files fs p)"

text \<open>A file is no directory and lies in one.\<close>

definition is_file :: "file_system \<Rightarrow> path \<Rightarrow> bool" where
  "is_file fs p = (fs_files fs p \<noteq> None)"

definition fs_wf :: "file_system \<Rightarrow> bool" where
  "fs_wf fs \<longleftrightarrow> (\<forall>p. is_file fs p \<longrightarrow> \<not> is_dir fs p \<and> is_dir fs (butlast p))"

lemma fs_wfD: "fs_wf fs \<Longrightarrow> is_file fs p \<Longrightarrow> \<not> is_dir fs p" "fs_wf fs \<Longrightarrow> is_file fs p \<Longrightarrow> is_dir fs (butlast p)"
  by (simp_all add: fs_wf_def)

lemma mkdir_parents_InrD:
  assumes "mkdir_parents d fs = Inr fs'"
  shows "fs_files fs' = fs_files fs" "is_dir fs' q \<longleftrightarrow> is_dir fs q \<or> prefix q d" "is_file fs q \<Longrightarrow> \<not> prefix q d"
proof -
  have fs': "fs' = fs\<lparr>fs_dirs := \<lambda>q. if prefix q d \<and> fs_dirs fs q = None then Some (fs_now fs) else fs_dirs fs q\<rparr>"
    using assms by (auto simp: mkdir_parents_def split: if_splits)
  then show "fs_files fs' = fs_files fs" "is_dir fs' q \<longleftrightarrow> is_dir fs q \<or> prefix q d" by (auto simp: is_dir_def)
  have "\<forall>q \<in> set (prefixes d). \<not> is_file fs q"
    using assms unfolding is_file_def by (auto simp: mkdir_parents_def list_ex_iff split: if_splits)
  then show "is_file fs q \<Longrightarrow> \<not> prefix q d" by auto
qed

lemma mkdir_parents_wf:
  assumes "fs_wf fs" "mkdir_parents d fs = Inr fs'"
  shows "fs_wf fs'"
  using assms(1) mkdir_parents_InrD [OF assms(2)] by (simp add: fs_wf_def is_file_def)

text \<open>What a write does, in the form the proofs use.\<close>

lemma write_atomic_cases:
  assumes w: "write_atomic p data ws fs = (r, ws', fs')" and wf: "fs_wf fs"
  obtains (failed) e where "r = Some e" "ws' = ws" "fs_files fs' = fs_files fs" "fs_wf fs'"
  | (written) "r = None" "fs_files fs' = (fs_files fs)(p \<mapsto> (data, fs_now fs'))" "fs_wf fs'"
      "ws_checkpoints ws' = ws_checkpoints ws @ [\<lparr>ck_turn = ws_turn ws, ck_path = p, ck_previous = content fs p\<rparr>]"
      "ws_turn ws' = ws_turn ws" "ws_root ws' = ws_root ws" "ws_extra_dirs ws' = ws_extra_dirs ws"
      "map_of (ws_read_state ws') p = Some (fs_now fs')"
proof (cases "mkdir_parents (butlast p) fs")
  case (Inl e)
  then show thesis using w wf failed by (auto simp: write_atomic_def)
next
  case (Inr fs1)
  note m = mkdir_parents_InrD [OF Inr]
  have wf1: "fs_wf fs1" by (rule mkdir_parents_wf [OF wf Inr])
  show thesis
  proof (cases "is_dir fs1 p")
    case True
    then show thesis using w wf1 m(1) Inr failed by (auto simp: write_atomic_def)
  next
    case False
    let ?fs2 = "put_file p data fs1"
    have "is_dir ?fs2 = is_dir fs1" "is_file ?fs2 q \<longleftrightarrow> q = p \<or> is_file fs1 q" for q
      by (auto simp: put_file_def is_dir_def is_file_def)
    moreover have "is_dir fs1 (butlast p)" by (simp add: m(2))
    ultimately have "fs_wf ?fs2" using wf1 False by (auto simp only: fs_wf_def)
    moreover have "r = None" "fs' = ?fs2"
      "ws' = mark_read ?fs2 p (ws\<lparr>ws_checkpoints := ws_checkpoints ws @
         [\<lparr>ck_turn = ws_turn ws, ck_path = p, ck_previous = map_option fst (fs_files fs1 p)\<rparr>]\<rparr>)"
      using w False Inr by (auto simp add: write_atomic_def Let_def)
    ultimately show thesis using m(1) by (intro written) (simp_all add: put_file_def mark_read_def st_mtime_def content_def)
  qed
qed

fun write_all :: "(path \<times> string) list \<Rightarrow> workspace \<Rightarrow> file_system \<Rightarrow> workspace \<times> file_system" where
  "write_all [] ws fs = (ws, fs)"
| "write_all ((p, data) # writes) ws fs = (case write_atomic p data ws fs of (r, ws', fs') \<Rightarrow> write_all writes ws' fs')"

definition restore_content :: "ws_checkpoint list \<Rightarrow> (path \<Rightarrow> string option) \<Rightarrow> path \<Rightarrow> string option" where
  "restore_content cps c = foldl (\<lambda>c cp. c(ck_path cp := ck_previous cp)) c cps"

text \<open>A checkpoint that can be undone: its path is a file in a directory.\<close>

definition undoable :: "file_system \<Rightarrow> ws_checkpoint \<Rightarrow> bool" where
  "undoable fs cp \<longleftrightarrow> \<not> is_dir fs (ck_path cp) \<and> is_dir fs (butlast (ck_path cp))"

lemma undo_checkpoint_undoable:
  assumes "undoable fs cp"
  shows "\<exists>msg fs'. undo_checkpoint cp ws fs = (Inr msg, fs') \<and> content fs' = (content fs)(ck_path cp := ck_previous cp) \<and>
    fs_dirs fs' = fs_dirs fs"
  using assms
  by (cases "ck_previous cp") (auto simp: undo_checkpoint_def undoable_def put_file_def content_def fun_eq_iff Let_def)

lemma undo_from_restores:
  assumes "\<forall>cp \<in> set cps. ck_turn cp = t \<and> undoable fs cp" and "rest = [] \<or> ck_turn (hd rest) \<noteq> t"
  shows "\<exists>msgs ws' fs'. undo_from t (cps @ rest) r ws fs = (Inr msgs, ws', fs') \<and>
    content fs' = restore_content cps (content fs) \<and> ws_checkpoints ws' = rev rest"
  using assms
proof (induction cps arbitrary: r ws fs)
  case Nil
  then show ?case by (cases rest) (auto simp: restore_content_def)
next
  case (Cons cp cps)
  from Cons.prems(1) have "undoable fs cp" by simp
  from undo_checkpoint_undoable [OF this] obtain msg fs' where
    u: "undo_checkpoint cp ws fs = (Inr msg, fs')" "content fs' = (content fs)(ck_path cp := ck_previous cp)"
      "fs_dirs fs' = fs_dirs fs" by blast
  have "\<forall>cp \<in> set cps. ck_turn cp = t \<and> undoable fs' cp" using Cons.prems(1) u(3) by (simp add: undoable_def is_dir_def)
  from Cons.IH [OF this Cons.prems(2), where r = "r @ [msg]" and ws = "ws\<lparr>ws_read_state := AList.delete (ck_path cp) (ws_read_state ws)\<rparr>"]
  show ?case using u(1,2) Cons.prems(1) by (simp add: restore_content_def fun_upd_def)
qed

lemma write_all_checkpoints:
  assumes "write_all writes ws fs = (ws', fs')" "fs_wf fs"
  shows "\<exists>cps. ws_checkpoints ws' = ws_checkpoints ws @ cps \<and> fs_wf fs' \<and> ws_turn ws' = ws_turn ws \<and>
    (\<forall>cp \<in> set cps. ck_turn cp = ws_turn ws \<and> is_file fs' (ck_path cp)) \<and>
    restore_content (rev cps) (content fs') = content fs \<and> (\<forall>q. is_file fs q \<longrightarrow> is_file fs' q)"
  using assms
proof (induction writes arbitrary: ws fs)
  case Nil
  then show ?case by (simp add: restore_content_def)
next
  case (Cons wr writes)
  obtain p data where wr: "wr = (p, data)" by (cases wr)
  obtain r ws1 fs1 where w: "write_atomic p data ws fs = (r, ws1, fs1)" by (metis prod_cases3)
  from Cons.prems(1) w wr have rest: "write_all writes ws1 fs1 = (ws', fs')" by simp
  from w Cons.prems(2) show ?case
  proof (cases rule: write_atomic_cases)
    case (failed e)
    then show ?thesis using Cons.IH [OF rest failed(4)] by (simp add: content_def is_file_def)
  next
    case written
    let ?cp = "\<lparr>ck_turn = ws_turn ws, ck_path = p, ck_previous = content fs p\<rparr>"
    obtain cps where ih: "ws_checkpoints ws' = ws_checkpoints ws1 @ cps" "fs_wf fs'" "ws_turn ws' = ws_turn ws1"
      "\<forall>cp \<in> set cps. ck_turn cp = ws_turn ws1 \<and> is_file fs' (ck_path cp)"
      "restore_content (rev cps) (content fs') = content fs1" "\<forall>q. is_file fs1 q \<longrightarrow> is_file fs' q"
      using Cons.IH [OF rest written(3)] by blast
    have "content fs1 = (content fs)(p \<mapsto> data)" using written(2) by (auto simp: content_def fun_eq_iff)
    then have "restore_content (rev (?cp # cps)) (content fs') = content fs"
      using ih(5) by (simp add: restore_content_def)
    moreover have "is_file fs1 p" "\<forall>q. is_file fs q \<longrightarrow> is_file fs1 q" using written(2) by (simp_all add: is_file_def)
    ultimately show ?thesis using ih written(4,5) by (intro exI [of _ "?cp # cps"]) auto
  qed
qed

text \<open>
  C22: Undo takes back exactly the last turn: after a turn that changed at least one file, whatever the turn wrote, and in
  whatever order and however often, every file of the file system has the content it had before the turn, a file the turn
  created is gone, and the checkpoints of the earlier turns are left.
\<close>
theorem undo_restores_turn:
  assumes "fs_wf fs" and "\<forall>cp \<in> set (ws_checkpoints ws). ck_turn cp \<le> ws_turn ws"
    and "write_all writes (begin_turn ws) fs = (ws', fs')" and "ws_checkpoints ws' \<noteq> ws_checkpoints ws"
  shows "\<exists>msgs ws'' fs''. undo_last_turn ws' fs' = (Inr msgs, ws'', fs'') \<and> content fs'' = content fs \<and>
    ws_checkpoints ws'' = ws_checkpoints ws"
proof -
  obtain cps where cps: "ws_checkpoints ws' = ws_checkpoints ws @ cps" "fs_wf fs'"
    "\<forall>cp \<in> set cps. ck_turn cp = Suc (ws_turn ws) \<and> is_file fs' (ck_path cp)"
    "restore_content (rev cps) (content fs') = content fs"
    using write_all_checkpoints [OF assms(3,1)] by (auto simp: begin_turn_def)
  obtain cp cps' where rev: "rev cps = cp # cps'" using cps(1) assms(4) by (cases "rev cps") auto
  have turn: "ck_turn cp = Suc (ws_turn ws)" using cps(3) rev by (metis list.set_intros(1) set_rev)
  have "\<forall>cp \<in> set (rev cps). ck_turn cp = Suc (ws_turn ws) \<and> undoable fs' cp"
    using cps(2,3) by (auto simp: undoable_def dest: fs_wfD)
  moreover have "rev (ws_checkpoints ws) = [] \<or> ck_turn (hd (rev (ws_checkpoints ws))) \<noteq> Suc (ws_turn ws)"
    using assms(2) by (cases "ws_checkpoints ws" rule: rev_cases) auto
  ultimately obtain msgs ws'' fs'' where
    "undo_from (Suc (ws_turn ws)) (rev cps @ rev (ws_checkpoints ws)) [] ws' fs' = (Inr msgs, ws'', fs'')"
    "content fs'' = restore_content (rev cps) (content fs')" "ws_checkpoints ws'' = rev (rev (ws_checkpoints ws))"
    using undo_from_restores by blast
  then show ?thesis using cps(1,4) rev turn by (simp add: undo_last_turn_def)
qed

definition demo_files :: file_system where
  "demo_files = \<lparr>fs_files = [[''w'', ''a''] \<mapsto> (''one'', 1)], fs_dirs = [[] \<mapsto> 0, [''w''] \<mapsto> 0], fs_realpath = id,
     fs_home = (\<lambda>u. None), fs_now = 5\<rparr>"

lemma demo_files_wf: "fs_wf demo_files"
  by (simp add: fs_wf_def is_file_def is_dir_def demo_files_def)

theorem undo_restores_turn_witness:
  "\<exists>ws' fs' msgs ws'' fs''.
     write_all [([''w'', ''a''], ''two''), ([''w'', ''d'', ''b''], ''new''), ([''w'', ''a''], ''three'')]
       (begin_turn (workspace_new [''w''] [])) demo_files = (ws', fs') \<and>
     content fs' [''w'', ''a''] = Some ''three'' \<and> undo_last_turn ws' fs' = (Inr msgs, ws'', fs'') \<and>
     content fs'' [''w'', ''a''] = Some ''one'' \<and> content fs'' [''w'', ''d'', ''b''] = None"
proof -
  let ?writes = "[([''w'', ''a''], ''two''), ([''w'', ''d'', ''b''], ''new''), ([''w'', ''a''], ''three'')]"
  obtain ws' fs' where w: "write_all ?writes (begin_turn (workspace_new [''w''] [])) demo_files = (ws', fs')"
    by (metis surj_pair)
  then have c: "content fs' [''w'', ''a''] = Some ''three''" and n: "ws_checkpoints ws' \<noteq> []"
    by (auto simp: write_atomic_def mkdir_parents_def demo_files_def is_dir_def put_file_def content_def workspace_new_def
        begin_turn_def mark_read_def st_mtime_def)
  have "\<forall>cp \<in> set (ws_checkpoints (workspace_new [''w''] [])). ck_turn cp \<le> ws_turn (workspace_new [''w''] [])"
    and "ws_checkpoints ws' \<noteq> ws_checkpoints (workspace_new [''w''] [])" using n by (simp_all add: workspace_new_def)
  from undo_restores_turn [OF demo_files_wf this(1) w this(2)] obtain msgs ws'' fs'' where
    u: "undo_last_turn ws' fs' = (Inr msgs, ws'', fs'')" "content fs'' = content demo_files" by blast
  from u(2) have "content fs'' [''w'', ''a''] = Some ''one''" "content fs'' [''w'', ''d'', ''b''] = None"
    by (simp_all add: content_def demo_files_def)
  with w c u(1) show ?thesis by blast
qed

end
