(* ===== verification/Utf8.thy ===== *)
theory Utf8
  imports Prelude
begin

text \<open>
  UTF-8 as Python decodes it with \<open>errors="replace"\<close> and encodes it: bytes are characters, a text is the list of its code points.
  Decoding gives one U+FFFD for each maximal part of a broken sequence, so it loses the bytes it could not read; on the encoding of a
  text it gives back the text.
\<close>

subsection \<open>Encoding\<close>

definition scalar :: "nat \<Rightarrow> bool" where
  "scalar c \<longleftrightarrow> c < 0xD800 \<or> 0xDFFF < c \<and> c < 0x110000"

definition utf8_char :: "nat \<Rightarrow> nat list" where
  "utf8_char c =
     (if c < 0x80 then [c]
      else if c < 0x800 then [0xC0 + c div 64, 0x80 + c mod 64]
      else if c < 0x10000 then [0xE0 + c div 4096, 0x80 + c div 64 mod 64, 0x80 + c mod 64]
      else [0xF0 + c div 262144, 0x80 + c div 4096 mod 64, 0x80 + c div 64 mod 64, 0x80 + c mod 64])"

definition utf8_encode :: "nat list \<Rightarrow> string" where
  "utf8_encode t = map char_of (concat (map utf8_char t))"

subsection \<open>Decoding\<close>

text \<open>A lead byte: how many bytes follow, its bits, and the range of the next byte.\<close>

definition utf8_lead :: "nat \<Rightarrow> (nat \<times> nat \<times> nat \<times> nat) option" where
  "utf8_lead b =
     (if 0xC2 \<le> b \<and> b \<le> 0xDF then Some (1, b - 0xC0, 0x80, 0xBF)
      else if b = 0xE0 then Some (2, 0, 0xA0, 0xBF)
      else if b = 0xED then Some (2, 0xD, 0x80, 0x9F)
      else if 0xE1 \<le> b \<and> b \<le> 0xEF then Some (2, b - 0xE0, 0x80, 0xBF)
      else if b = 0xF0 then Some (3, 0, 0x90, 0xBF)
      else if 0xF1 \<le> b \<and> b \<le> 0xF3 then Some (3, b - 0xF0, 0x80, 0xBF)
      else if b = 0xF4 then Some (3, 4, 0x80, 0x8F)
      else None)"

text \<open>The bytes that follow, as far as they fit; \<open>None\<close> when one is missing or does not fit, which is left where it is.\<close>

fun utf8_rest :: "nat \<Rightarrow> nat \<Rightarrow> nat \<Rightarrow> nat \<Rightarrow> nat list \<Rightarrow> nat option \<times> nat list" where
  "utf8_rest 0 acc lo hi bs = (Some acc, bs)"
| "utf8_rest (Suc n) acc lo hi [] = (None, [])"
| "utf8_rest (Suc n) acc lo hi (b # bs) =
     (if lo \<le> b \<and> b \<le> hi then utf8_rest n (acc * 64 + (b - 0x80)) 0x80 0xBF bs else (None, b # bs))"

lemma utf8_rest_length: "length (snd (utf8_rest n acc lo hi bs)) \<le> length bs"
  by (induction n acc lo hi bs rule: utf8_rest.induct) auto

definition REPLACEMENT :: nat where "REPLACEMENT = 0xFFFD"

function utf8_points :: "nat list \<Rightarrow> nat list" where
  "utf8_points [] = []"
| "utf8_points (b # bs) =
     (if b < 0x80 then b # utf8_points bs
      else case utf8_lead b of
          None \<Rightarrow> REPLACEMENT # utf8_points bs
        | Some (n, bits, lo, hi) \<Rightarrow>
            (case fst (utf8_rest n bits lo hi bs) of None \<Rightarrow> REPLACEMENT | Some c \<Rightarrow> c) # utf8_points (snd (utf8_rest n bits lo hi bs)))"
  by pat_completeness auto
termination
proof (relation "measure length")
  fix b :: nat and bs :: "nat list" and q and n r bits s lo hi :: nat
  show "(snd (utf8_rest n bits lo hi bs), b # bs) \<in> measure length" using utf8_rest_length [of n bits lo hi bs] by simp
qed simp_all

definition utf8_decode :: "string \<Rightarrow> nat list" where
  "utf8_decode bs = utf8_points (map of_char bs)"

subsection \<open>Decoding inverts encoding\<close>

lemma six_bits:
  fixes c :: nat
  shows "c = c div 64 * 64 + c mod 64" "c mod 64 < 64" "c div 64 = c div 4096 * 64 + c div 64 mod 64"
    "c div 4096 = c div 262144 * 64 + c div 4096 mod 64"
proof -
  have "c div 4096 = c div 64 div 64" "c div 262144 = c div 4096 div 64" by (simp_all add: div_mult2_eq [symmetric])
  then show "c div 64 = c div 4096 * 64 + c div 64 mod 64" "c div 4096 = c div 262144 * 64 + c div 4096 mod 64"
    by (simp_all only: div_mult_mod_eq)
qed simp_all

lemma utf8_points_2:
  assumes "0x80 \<le> c" "c < 0x800"
  shows "utf8_points ([0xC0 + c div 64, 0x80 + c mod 64] @ bs) = c # utf8_points bs"
proof -
  define x z where "x = c div 64" and "z = c mod 64"
  have c: "c = x * 64 + z" and z: "z < 64" unfolding x_def z_def by (rule six_bits(1)) simp
  have x: "2 \<le> x" "x < 32" using c z assms by linarith+
  have "utf8_lead (0xC0 + x) = Some (1, x, 0x80, 0xBF)" using x by (simp add: utf8_lead_def)
  then have "utf8_points ([0xC0 + x, 0x80 + z] @ bs) = c # utf8_points bs" using x z by (simp add: c)
  then show ?thesis by (simp only: x_def z_def)
qed

lemma utf8_lead_2:
  assumes "x < 16" "x = 0 \<Longrightarrow> 32 \<le> y" "x = 13 \<Longrightarrow> y < 32" "y < 64"
  shows "\<exists>lo hi. utf8_lead (0xE0 + x) = Some (2, x, lo, hi) \<and> lo \<le> 0x80 + y \<and> 0x80 + y \<le> hi"
proof (cases "x = 0")
  case True
  then show ?thesis using assms by (simp add: utf8_lead_def)
next
  case False
  show ?thesis
  proof (cases "x = 13")
    case True
    then show ?thesis using assms by (simp add: utf8_lead_def)
  next
    case n: False
    then show ?thesis using False assms by (simp add: utf8_lead_def)
  qed
qed

lemma utf8_lead_3:
  assumes "x \<le> 4" "x = 0 \<Longrightarrow> 16 \<le> y" "x = 4 \<Longrightarrow> y < 16" "y < 64"
  shows "\<exists>lo hi. utf8_lead (0xF0 + x) = Some (3, x, lo, hi) \<and> lo \<le> 0x80 + y \<and> 0x80 + y \<le> hi"
proof (cases "x = 0")
  case True
  then show ?thesis using assms by (simp add: utf8_lead_def)
next
  case False
  show ?thesis
  proof (cases "x = 4")
    case True
    then show ?thesis using assms by (simp add: utf8_lead_def)
  next
    case n: False
    then show ?thesis using False assms by (simp add: utf8_lead_def)
  qed
qed

lemma utf8_points_3:
  assumes "0x800 \<le> c" "c < 0x10000" "scalar c"
  shows "utf8_points ([0xE0 + c div 4096, 0x80 + c div 64 mod 64, 0x80 + c mod 64] @ bs) = c # utf8_points bs"
proof -
  define x y z where "x = c div 4096" and "y = c div 64 mod 64" and "z = c mod 64"
  have b: "y < 64" "z < 64" unfolding y_def z_def by simp_all
  have c: "c = (x * 64 + y) * 64 + z" unfolding x_def y_def z_def by (simp only: six_bits(1,3) [symmetric])
  have c': "c = x * 4096 + y * 64 + z" using c by (simp add: distrib_right)
  have x1: "x < 16" using c' b assms(2) by linarith
  have x2: "32 \<le> y" if "x = 0" using c' b assms(1) that by linarith
  have y: "y < 32" if "x = 13" using c' b assms(3) that unfolding scalar_def by linarith
  from utf8_lead_2 [OF x1 x2 y b(1)] obtain lo hi where l: "utf8_lead (0xE0 + x) = Some (2, x, lo, hi)" "lo \<le> 0x80 + y" "0x80 + y \<le> hi" by blast
  have "utf8_points ([0xE0 + x, 0x80 + y, 0x80 + z] @ bs) = c # utf8_points bs"
    using l b by (simp add: numeral_2_eq_2 c)
  then show ?thesis by (simp only: x_def y_def z_def)
qed

lemma utf8_points_4:
  assumes "0x10000 \<le> c" "scalar c"
  shows "utf8_points ([0xF0 + c div 262144, 0x80 + c div 4096 mod 64, 0x80 + c div 64 mod 64, 0x80 + c mod 64] @ bs) = c # utf8_points bs"
proof -
  define x y z u where "x = c div 262144" and "y = c div 4096 mod 64" and "z = c div 64 mod 64" and "u = c mod 64"
  have b: "y < 64" "z < 64" "u < 64" unfolding y_def z_def u_def by simp_all
  have c: "c = ((x * 64 + y) * 64 + z) * 64 + u" unfolding x_def y_def z_def u_def by (simp only: six_bits(1,3,4) [symmetric])
  have m: "c < 0x110000" using assms unfolding scalar_def by linarith
  have c': "c = x * 262144 + y * 4096 + z * 64 + u" using c by (simp add: distrib_right)
  have x1: "x \<le> 4" using c' b m by linarith
  have x2: "16 \<le> y" if "x = 0" using c' b assms(1) that by linarith
  have x3: "y < 16" if "x = 4" using c' b m that by linarith
  from utf8_lead_3 [OF x1 x2 x3 b(1)] obtain lo hi where l: "utf8_lead (0xF0 + x) = Some (3, x, lo, hi)" "lo \<le> 0x80 + y" "0x80 + y \<le> hi" by blast
  have "utf8_points ([0xF0 + x, 0x80 + y, 0x80 + z, 0x80 + u] @ bs) = c # utf8_points bs"
    using l b by (simp add: numeral_3_eq_3 c)
  then show ?thesis by (simp only: x_def y_def z_def u_def)
qed

lemma utf8_points_char:
  assumes "scalar c"
  shows "utf8_points (utf8_char c @ bs) = c # utf8_points bs"
proof -
  consider "c < 0x80" | "0x80 \<le> c" "c < 0x800" | "0x800 \<le> c" "c < 0x10000" | "0x10000 \<le> c" by linarith
  then show ?thesis
  proof cases
    case 1
    then show ?thesis by (simp add: utf8_char_def)
  next
    case 2
    have "utf8_char c = [0xC0 + c div 64, 0x80 + c mod 64]" using 2 by (simp add: utf8_char_def)
    then show ?thesis by (simp only: utf8_points_2 [OF 2])
  next
    case 3
    have "utf8_char c = [0xE0 + c div 4096, 0x80 + c div 64 mod 64, 0x80 + c mod 64]" using 3 by (simp add: utf8_char_def)
    then show ?thesis by (simp only: utf8_points_3 [OF 3 assms])
  next
    case 4
    have "utf8_char c = [0xF0 + c div 262144, 0x80 + c div 4096 mod 64, 0x80 + c div 64 mod 64, 0x80 + c mod 64]"
      using 4 by (simp add: utf8_char_def)
    then show ?thesis by (simp only: utf8_points_4 [OF 4 assms])
  qed
qed

lemma utf8_char_bytes:
  assumes "scalar c" "b \<in> set (utf8_char c)"
  shows "b < 256"
proof -
  have "c < 0x110000" using assms(1) unfolding scalar_def by linarith
  then have "c div 262144 < 5" by (intro less_mult_imp_div_less) simp
  moreover have "c div 4096 < 16" if "c < 0x10000" using that by (intro less_mult_imp_div_less) simp
  moreover have "c div 64 < 32" if "c < 0x800" using that by (intro less_mult_imp_div_less) simp
  moreover have "c mod 64 < 64" "c div 64 mod 64 < 64" "c div 4096 mod 64 < 64" by simp_all
  ultimately show ?thesis using assms(2) unfolding utf8_char_def by (auto split: if_splits)
qed

lemma utf8_decode_encode:
  assumes "list_all scalar t"
  shows "utf8_decode (utf8_encode t) = t"
proof -
  have "b < 256" if "b \<in> set (concat (map utf8_char t))" for b
    using that assms utf8_char_bytes by (auto simp: list_all_iff)
  then have "map (of_char \<circ> char_of) (concat (map utf8_char t)) = concat (map utf8_char t)" by (intro map_idI) (simp add: of_char_of)
  moreover have "utf8_points (concat (map utf8_char t)) = t" using assms by (induction t) (simp_all add: utf8_points_char)
  ultimately show ?thesis by (simp add: utf8_decode_def utf8_encode_def)
qed

lemma utf8_encode_append [simp]: "utf8_encode (s @ t) = utf8_encode s @ utf8_encode t"
  by (simp add: utf8_encode_def)

lemma utf8_encode_ascii: "\<forall>c \<in> set s. of_char c < (128 :: nat) \<Longrightarrow> utf8_encode (map of_char s) = s"
  by (induction s) (simp_all add: utf8_encode_def utf8_char_def)

subsection \<open>What decoding gives\<close>

lemma utf8_rest_bounds:
  "fst (utf8_rest n acc 0x80 0xBF bs) = Some c \<Longrightarrow> acc * 64 ^ n \<le> c \<and> c < Suc acc * 64 ^ n"
proof (induction n arbitrary: acc bs)
  case (Suc n)
  obtain y r where bs: "bs = y # r" using Suc.prems by (cases bs) simp_all
  have y: "0x80 \<le> y" "y \<le> 0xBF" and f: "fst (utf8_rest n (acc * 64 + (y - 0x80)) 0x80 0xBF r) = Some c"
    using Suc.prems bs by (simp_all split: if_splits)
  have c: "(acc * 64 + (y - 0x80)) * 64 ^ n \<le> c" "c < Suc (acc * 64 + (y - 0x80)) * 64 ^ n" using Suc.IH [OF f] by simp_all
  have "acc * 64 ^ Suc n \<le> (acc * 64 + (y - 0x80)) * 64 ^ n" by (simp add: distrib_right)
  moreover have "Suc (acc * 64 + (y - 0x80)) * 64 ^ n \<le> (Suc acc * 64) * 64 ^ n" using y by (intro mult_le_mono1) simp
  moreover have "(Suc acc * 64) * 64 ^ n = Suc acc * 64 ^ Suc n" by (simp only: power_Suc mult.assoc)
  ultimately show ?case using c by linarith
qed simp

lemma utf8_rest_range:
  assumes "fst (utf8_rest (Suc n) bits lo hi bs) = Some c"
  shows "(bits * 64 + (lo - 0x80)) * 64 ^ n \<le> c" "c < Suc (bits * 64 + (hi - 0x80)) * 64 ^ n"
proof -
  obtain y r where bs: "bs = y # r" using assms by (cases bs) simp_all
  have y: "lo \<le> y" "y \<le> hi" and f: "fst (utf8_rest n (bits * 64 + (y - 0x80)) 0x80 0xBF r) = Some c"
    using assms bs by (simp_all split: if_splits)
  have "(bits * 64 + (lo - 0x80)) * 64 ^ n \<le> (bits * 64 + (y - 0x80)) * 64 ^ n"
    "Suc (bits * 64 + (y - 0x80)) * 64 ^ n \<le> Suc (bits * 64 + (hi - 0x80)) * 64 ^ n" using y by (intro mult_le_mono1; simp)+
  then show "(bits * 64 + (lo - 0x80)) * 64 ^ n \<le> c" "c < Suc (bits * 64 + (hi - 0x80)) * 64 ^ n"
    using utf8_rest_bounds [OF f] by linarith+
qed

lemma utf8_lead_scalar:
  assumes l: "utf8_lead b = Some (n, bits, lo, hi)" and r: "fst (utf8_rest n bits lo hi bs) = Some c"
  shows "scalar c"
proof -
  consider "n = 1" "bits < 32" "lo = 0x80" "hi = 0xBF" | "n = 2" "bits < 0xD" "hi = 0xBF" | "n = 2" "bits = 0xD" "lo = 0x80" "hi = 0x9F"
    | "n = 2" "0xD < bits" "bits < 16" "lo = 0x80" "hi = 0xBF"
    | "n = 3" "bits < 4" "hi = 0xBF" "0x90 \<le> lo \<or> 1 \<le> bits" | "n = 3" "bits = 4" "lo = 0x80" "hi = 0x8F"
    using l linorder_less_linear [of bits 13] unfolding utf8_lead_def by (auto split: if_splits)
  then show ?thesis
  proof cases
    case 1
    then show ?thesis using utf8_rest_range [of 0 bits lo hi bs c] r by (simp add: scalar_def)
  next
    case 2
    then show ?thesis using utf8_rest_range [of 1 bits lo hi bs c] r by (simp add: scalar_def numeral_2_eq_2)
  next
    case 3
    then show ?thesis using utf8_rest_range [of 1 bits lo hi bs c] r by (simp add: scalar_def numeral_2_eq_2)
  next
    case 4
    then show ?thesis using utf8_rest_range [of 1 bits lo hi bs c] r by (simp add: scalar_def numeral_2_eq_2)
  next
    case 5
    then show ?thesis using utf8_rest_range [of 2 bits lo hi bs c] r by (auto simp: scalar_def numeral_3_eq_3)
  next
    case 6
    then show ?thesis using utf8_rest_range [of 2 bits lo hi bs c] r by (simp add: scalar_def numeral_3_eq_3)
  qed
qed

lemma scalar_utf8_points: "list_all scalar (utf8_points bs)"
proof (induction bs rule: utf8_points.induct)
  case (2 b bs)
  have "scalar REPLACEMENT" "b < 0x80 \<Longrightarrow> scalar b" by (simp_all add: REPLACEMENT_def scalar_def)
  then show ?case using 2 by (auto split: option.splits dest: utf8_lead_scalar)
qed simp

lemma scalar_utf8_decode: "list_all scalar (utf8_decode data)"
  by (simp add: utf8_decode_def scalar_utf8_points)

text \<open>Bytes that are the encoding of a text.\<close>

definition valid_utf8 :: "string \<Rightarrow> bool" where
  "valid_utf8 data \<longleftrightarrow> utf8_encode (utf8_decode data) = data"

lemma valid_utf8_encode: "list_all scalar t \<Longrightarrow> valid_utf8 (utf8_encode t)"
  by (simp add: valid_utf8_def utf8_decode_encode)

subsection \<open>Texts of the model\<close>

text \<open>
  The strings of arguments and outputs have code points below 256. What a text holds beyond that is shown to the model as the
  substitute character, or as a line break where it is one; it is not lost in the files.
\<close>

definition points :: "string \<Rightarrow> nat list" where
  "points s = map of_char s"

definition shown :: "nat list \<Rightarrow> string" where
  "shown t = map (\<lambda>c. if c < 256 then char_of c else if c = 0x2028 \<or> c = 0x2029 then CHR 0x85 else CHR 0x1A) t"

lemma scalar_points: "list_all scalar (points s)"
proof -
  have "scalar (of_char c)" for c :: char
  proof -
    have "(of_char c :: nat) mod 256 < 256" by (rule mod_less_divisor) simp
    then have "(of_char c :: nat) < 256" by (simp only: of_char_mod_256)
    then show ?thesis unfolding scalar_def by linarith
  qed
  then show ?thesis by (simp add: points_def list_all_iff)
qed

lemma points_eq_iff [simp]: "points s = points t \<longleftrightarrow> s = t" "points s = [] \<longleftrightarrow> s = []"
  unfolding points_def by (simp_all add: inj_map_eq_map [OF inj_of_char])

lemma utf8_encode_points_ascii: "list_all (\<lambda>c. of_char c < (128 :: nat)) s \<Longrightarrow> utf8_encode (points s) = s"
  unfolding points_def by (rule utf8_encode_ascii) (simp add: list_all_iff)

end
