(* ===== verification/CodeTools.thy ===== *)
theory CodeTools
  imports Workspace Utf8
begin

text \<open>
  \<open>src/zcoder/agent/codeagent/tools.py\<close>: the tools the model may call. A tool maps the arguments of a call and the tool
  context to an output or an exception and to the context it leaves. What lies outside the process is the record
  \<open>tool_env\<close>: the shell, the searches over the file system (which change nothing), the text of a unified diff and the
  environment variables. A file holds bytes: its text is the list of the code points that UTF-8 decoding with
  \<open>errors="replace"\<close> gives, on which an Edit counts and replaces, and what is written are the bytes of the new text. Arguments are
  strings of code points below 256 (a lone surrogate, which could not be encoded, is not among them). The character U+2026 the code puts into shortened texts is written as code point 133, which is its
  place in the eight-bit Windows character set.
\<close>

definition MAX_OUTPUT_CHARS :: nat where "MAX_OUTPUT_CHARS = 30000"
definition MAX_READ_BYTES :: nat where "MAX_READ_BYTES = 2000000"
definition MAX_LINE_CHARS :: nat where "MAX_LINE_CHARS = 2000"

record tool_ctx =
  tc_ws :: workspace
  tc_fs :: file_system
  tc_todos :: "(string \<times> string) list"
  tc_scrub_env :: bool
  tc_pass_env :: "string list"

record tool_output =
  to_text :: string
  to_diff :: "string option"

record shell_result =
  sr_output :: string
  sr_status :: string
  sr_returncode :: int

record tool_env =
  te_shell :: "(string \<times> string) list \<Rightarrow> path \<Rightarrow> string \<Rightarrow> int \<Rightarrow> file_system \<Rightarrow> shell_result \<times> file_system"
  te_environ :: "(string \<times> string) list"
  te_unified_diff :: "string \<Rightarrow> nat list \<Rightarrow> nat list \<Rightarrow> string"
  te_search :: "string \<Rightarrow> jobj \<Rightarrow> workspace \<Rightarrow> file_system \<Rightarrow> tool_exn + string"
  te_str :: "json \<Rightarrow> string"
  te_exn_text :: "string \<Rightarrow> path \<Rightarrow> string"

type_synonym tool_result = "(tool_exn + tool_output) \<times> tool_ctx"

datatype tool_category = CatRead | CatEdit | CatExec | CatMeta | CatPlan
datatype arg_type = TString | TInteger | TBoolean | TArray | TObject

record tool =
  tl_name :: string
  tl_properties :: "(string \<times> arg_type) list"
  tl_required :: "string list"
  tl_category :: tool_category
  tl_func :: "tool_env \<Rightarrow> jobj \<Rightarrow> tool_ctx \<Rightarrow> tool_result"

subsection \<open>Helpers\<close>

definition ellipsis :: string where "ellipsis = [CHR 0x85]"

abbreviation line_feed :: string where "line_feed \<equiv> [CHR 0x0A]"

definition py_last :: "nat \<Rightarrow> string \<Rightarrow> string" where
  "py_last n s = (if n = 0 then s else drop (length s - n) s)"

definition truncate_text :: "string \<Rightarrow> nat \<Rightarrow> string" where
  "truncate_text t limit =
     (if length t \<le> limit then t
      else (let half = limit div 2 in
        take half t @ line_feed @ ellipsis @ '' ['' @ digits_of_nat (length t - limit) @ '' characters truncated] '' @ ellipsis
          @ line_feed @ py_last half t))"

definition make_diff :: "tool_env \<Rightarrow> string \<Rightarrow> nat list \<Rightarrow> nat list \<Rightarrow> string" where
  "make_diff env p old new = truncate_text (te_unified_diff env p old new) 20000"

definition SECRET_NAME :: rx where
  "SECRET_NAME = ralt (map rlit_i [''key'', ''token'', ''secret'', ''passw'', ''credential'', ''auth'', ''cookie'', ''session''])"

definition bash_environment :: "tool_env \<Rightarrow> tool_ctx \<Rightarrow> (string \<times> string) list" where
  "bash_environment env ctx =
     (if \<not> tc_scrub_env ctx then te_environ env
      else filter (\<lambda>(k, v). List.member (tc_pass_env ctx) k \<or> \<not> re_found SECRET_NAME k) (te_environ env))"

definition read_text :: "file_system \<Rightarrow> path \<Rightarrow> tool_exn + nat list" where
  "read_text fs p =
     (if \<not> path_exists fs p then Inl (ToolErr (''file not found: '' @ path_name p))
      else if is_dir fs p then Inl (ToolErr (path_name p @ '' is a directory; use LS''))
      else (case content fs p of
          None \<Rightarrow> Inl (ToolErr (''file not found: '' @ path_name p))
        | Some data \<Rightarrow>
            if length data > MAX_READ_BYTES
            then Inl (ToolErr ''file is larger than 2 MB; use Grep or Read with offset/limit on a smaller file'')
            else if List.member (take 8192 data) (CHR 0x00) then Inl (ToolErr ''binary file; refusing to read as text'')
            else Inr (utf8_decode data)))"

definition int_arg :: "jobj \<Rightarrow> string \<Rightarrow> int \<Rightarrow> int \<Rightarrow> int \<Rightarrow> tool_exn + int" where
  "int_arg args key dflt lo hi =
     (case py_int (dict_get args key (JInt dflt)) of
        None \<Rightarrow> Inl (ToolErr (key @ '' must be an integer''))
      | Some v \<Rightarrow> Inr (max lo (min hi v)))"

definition str_arg :: "jobj \<Rightarrow> string \<Rightarrow> string option" where
  "str_arg args key = (case map_of args key of Some (JStr s) \<Rightarrow> Some s | _ \<Rightarrow> None)"

definition right_6 :: "string \<Rightarrow> string" where
  "right_6 s = replicate (6 - length s) (CHR '' '') @ s"

subsection \<open>Reading and changing files\<close>

definition numbered :: "nat \<Rightarrow> string list \<Rightarrow> string" where
  "numbered start ls = join_with line_feed
     (map (\<lambda>(i, ln). right_6 (digits_of_nat i) @ [CHR 0x09] @ take MAX_LINE_CHARS ln) (enumerate start ls))"

definition tool_read :: "tool_env \<Rightarrow> jobj \<Rightarrow> tool_ctx \<Rightarrow> tool_result" where
  "tool_read env args ctx =
     (case try_then (ws_resolve (tc_ws ctx) (tc_fs ctx) (dict_get args ''path'' (JStr [])))
            (\<lambda>p. try_then (read_text (tc_fs ctx) p) (\<lambda>t. Inr (p, t))) of
        Inl e \<Rightarrow> (Inl e, ctx)
      | Inr (p, t) \<Rightarrow>
          (let ctx1 = ctx\<lparr>tc_ws := mark_read (tc_fs ctx) p (tc_ws ctx)\<rparr>;
               ls = py_splitlines (shown t)
           in (try_then (int_arg args ''offset'' 1 1 (10 ^ 9)) (\<lambda>offset.
               try_then (int_arg args ''limit'' 2000 1 5000) (\<lambda>limit.
                 let chunk = take (nat limit) (drop (nat offset - 1) ls);
                     read_to = nat offset - 1 + nat limit;
                     body = numbered (nat offset) chunk @
                       (if read_to < length ls
                        then line_feed @ ellipsis @ '' '' @ digits_of_nat (length ls - read_to) @ '' more lines (use offset/limit)''
                        else [])
                 in if chunk = [] \<and> ls \<noteq> []
                    then Inl (ToolErr (''offset '' @ string_of_int offset @ '' is past the end of the file ('' @
                      digits_of_nat (length ls) @ '' lines)''))
                    else Inr \<lparr>to_text = (if body = [] then ''(empty file)'' else body), to_diff = None\<rparr>)), ctx1)))"

text \<open>\<open>write_atomic\<close> on the context.\<close>

definition ctx_write :: "path \<Rightarrow> string \<Rightarrow> tool_output \<Rightarrow> tool_ctx \<Rightarrow> tool_result" where
  "ctx_write p data out ctx =
     (case write_atomic p data (tc_ws ctx) (tc_fs ctx) of
        (r, ws', fs') \<Rightarrow> (case r of Some e \<Rightarrow> Inl e | None \<Rightarrow> Inr out, ctx\<lparr>tc_ws := ws', tc_fs := fs'\<rparr>))"

text \<open>The checks of \<open>_write\<close> and \<open>_edit\<close>: the path and, where there is one, the old text.\<close>

definition check_write :: "jobj \<Rightarrow> tool_ctx \<Rightarrow> tool_exn + path \<times> string \<times> nat list option" where
  "check_write args ctx =
     (let ws = tc_ws ctx; fs = tc_fs ctx in
      try_then (ws_resolve ws fs (dict_get args ''path'' (JStr []))) (\<lambda>p.
        case str_arg args ''content'' of
          None \<Rightarrow> Inl (ToolErr ''content must be a string'')
        | Some data \<Rightarrow>
            if is_protected p then Inl (ToolErr ''writing inside .git is not allowed'')
            else if is_dir fs p then Inl (ToolErr (ws_rel ws p @ '' is a directory''))
            else if path_exists fs p then
              try_then (ensure_fresh ws fs p) (\<lambda>_. try_then (read_text fs p) (\<lambda>old. Inr (p, data, Some old)))
            else Inr (p, data, None)))"

definition tool_write :: "tool_env \<Rightarrow> jobj \<Rightarrow> tool_ctx \<Rightarrow> tool_result" where
  "tool_write env args ctx =
     (case check_write args ctx of
        Inl e \<Rightarrow> (Inl e, ctx)
      | Inr (p, data, old) \<Rightarrow>
          (let rel = ws_rel (tc_ws ctx) p; verb = (case old of Some _ \<Rightarrow> ''Updated'' | None \<Rightarrow> ''Created'') in
           ctx_write p (utf8_encode (points data))
             \<lparr>to_text = verb @ '' '' @ rel @ '' ('' @ digits_of_nat (length (py_splitlines data)) @ '' lines)'',
              to_diff = Some (make_diff env rel (case old of Some t \<Rightarrow> t | None \<Rightarrow> []) (points data))\<rparr> ctx))"

definition check_edit :: "jobj \<Rightarrow> tool_ctx \<Rightarrow> tool_exn + path \<times> nat list \<times> nat list \<times> nat list" where
  "check_edit args ctx =
     (let ws = tc_ws ctx; fs = tc_fs ctx in
      try_then (ws_resolve ws fs (dict_get args ''path'' (JStr []))) (\<lambda>p.
        case (str_arg args ''old_string'', str_arg args ''new_string'') of
          (Some old_s, Some new_s) \<Rightarrow>
            if is_protected p then Inl (ToolErr ''editing inside .git is not allowed'')
            else if old_s = new_s then Inl (ToolErr ''old_string and new_string are identical'')
            else if old_s = [] then Inl (ToolErr ''old_string is empty; use Write to create files'')
            else try_then (ensure_fresh ws fs p) (\<lambda>_. try_then (read_text fs p) (\<lambda>t. Inr (p, points old_s, points new_s, t)))
        | _ \<Rightarrow> Inl (ToolErr ''old_string and new_string must be strings'')))"

definition tool_edit :: "tool_env \<Rightarrow> jobj \<Rightarrow> tool_ctx \<Rightarrow> tool_result" where
  "tool_edit env args ctx =
     (case check_edit args ctx of
        Inl e \<Rightarrow> (Inl e, ctx)
      | Inr (p, old_s, new_s, t) \<Rightarrow>
          (let occurrences = py_count t old_s; replace_all = truthy (dict_get args ''replace_all'' (JBool False)) in
           if occurrences = 0 then
             (Inl (ToolErr ''old_string was not found. It must match exactly, including whitespace and indentation.''), ctx)
           else if occurrences > 1 \<and> \<not> replace_all then
             (Inl (ToolErr (''old_string matches '' @ digits_of_nat occurrences @
                '' places. Add surrounding context to make it unique, or set replace_all.'')), ctx)
           else
             (let new_text = py_replace t old_s new_s (if replace_all then None else Some 1); rel = ws_rel (tc_ws ctx) p in
              ctx_write p (utf8_encode new_text)
                \<lparr>to_text = ''Edited '' @ rel @ '' ('' @ digits_of_nat (if replace_all then occurrences else 1) @ '' replacement'' @
                   (if replace_all \<and> occurrences > 1 then ''s'' else []) @ '')'',
                 to_diff = Some (make_diff env rel t new_text)\<rparr> ctx)))"

subsection \<open>The other tools\<close>

text \<open>\<open>_glob\<close>, \<open>_grep\<close> and \<open>_ls\<close> only look; their answer is the parameter \<open>te_search\<close>.\<close>

definition tool_search :: "string \<Rightarrow> tool_env \<Rightarrow> jobj \<Rightarrow> tool_ctx \<Rightarrow> tool_result" where
  "tool_search which env args ctx =
     (map_sum id (\<lambda>t. \<lparr>to_text = t, to_diff = None\<rparr>) (te_search env which args (tc_ws ctx) (tc_fs ctx)), ctx)"

definition tool_bash :: "tool_env \<Rightarrow> jobj \<Rightarrow> tool_ctx \<Rightarrow> tool_result" where
  "tool_bash env args ctx =
     (case str_arg args ''command'' of
        None \<Rightarrow> (Inl (ToolErr ''command is required''), ctx)
      | Some command \<Rightarrow>
          if py_strip command = [] then (Inl (ToolErr ''command is required''), ctx)
          else (case int_arg args ''timeout'' 120 1 600 of
              Inl e \<Rightarrow> (Inl e, ctx)
            | Inr timeout \<Rightarrow>
                (let environ = foldl (\<lambda>d (k, v). dict_set d k v) (bash_environment env ctx)
                       [(''GIT_PAGER'', ''cat''), (''PAGER'', ''cat''), (''TERM'', ''dumb''), (''NO_COLOR'', ''1'')] in
                 case te_shell env environ (ws_root (tc_ws ctx)) command timeout (tc_fs ctx) of
                   (r, fs') \<Rightarrow>
                     (let t = truncate_text (sr_output r) MAX_OUTPUT_CHARS; ctx' = ctx\<lparr>tc_fs := fs'\<rparr> in
                      if sr_status r \<noteq> [] then (Inl (ToolErr (t @ line_feed @ ''[command '' @ sr_status r @ '']'')), ctx')
                      else if sr_returncode r \<noteq> 0 then
                        (Inl (ToolErr (py_strip (t @ line_feed @ ''[exit code '' @ string_of_int (sr_returncode r) @ '']''))), ctx')
                      else (Inr \<lparr>to_text = (if t = [] then ''(no output)'' else t), to_diff = None\<rparr>, ctx')))))"

definition TODO_STATES :: "string list" where "TODO_STATES = [''pending'', ''in_progress'', ''completed'']"

definition quoted :: "string \<Rightarrow> string" where
  "quoted s = [CHR 0x27] @ s @ [CHR 0x27]"

definition todo_content_error :: string where
  "todo_content_error = ''each todo needs non-empty string '' @ quoted ''content''"

definition todo_status_error :: string where
  "todo_status_error = ''todo status must be one of ['' @ join_with '', '' (map quoted [''completed'', ''in_progress'', ''pending'']) @ '']''"

definition clean_todo :: "json \<Rightarrow> tool_exn + string \<times> string" where
  "clean_todo item =
     (case item of
        JObj d \<Rightarrow>
          (case map_of d ''content'' of
             Some (JStr c) \<Rightarrow>
               if py_strip c = [] then Inl (ToolErr todo_content_error)
               else (case dict_get d ''status'' (JStr ''pending'') of
                   JStr st \<Rightarrow> if List.member TODO_STATES st then Inr (py_strip c, st)
                     else Inl (ToolErr todo_status_error)
                 | JArr _ \<Rightarrow> Inl (OtherErr ''TypeError'' [])
                 | JObj _ \<Rightarrow> Inl (OtherErr ''TypeError'' [])
                 | _ \<Rightarrow> Inl (ToolErr todo_status_error))
           | _ \<Rightarrow> Inl (ToolErr todo_content_error))
      | _ \<Rightarrow> Inl (ToolErr todo_content_error))"

fun clean_todos :: "json list \<Rightarrow> tool_exn + (string \<times> string) list" where
  "clean_todos [] = Inr []"
| "clean_todos (x # xs) = try_then (clean_todo x) (\<lambda>t. try_then (clean_todos xs) (\<lambda>ts. Inr (t # ts)))"

definition tool_todo :: "tool_env \<Rightarrow> jobj \<Rightarrow> tool_ctx \<Rightarrow> tool_result" where
  "tool_todo env args ctx =
     (case map_of args ''todos'' of
        Some (JArr items) \<Rightarrow>
          (case clean_todos items of
             Inl e \<Rightarrow> (Inl e, ctx)
           | Inr cleaned \<Rightarrow>
               if length (filter (\<lambda>t. snd t = ''in_progress'') cleaned) > 1
               then (Inl (ToolErr ''only one todo may be in_progress at a time''), ctx)
               else (Inr \<lparr>to_text = ''Todos updated'', to_diff = None\<rparr>, ctx\<lparr>tc_todos := cleaned\<rparr>))
      | _ \<Rightarrow> (Inl (ToolErr ''todos must be a list''), ctx))"

definition tool_exit_plan :: "tool_env \<Rightarrow> jobj \<Rightarrow> tool_ctx \<Rightarrow> tool_result" where
  "tool_exit_plan env args ctx =
     ((case str_arg args ''plan'' of
         None \<Rightarrow> Inl (ToolErr ''plan is required'')
       | Some plan \<Rightarrow>
           if py_strip plan = [] then Inl (ToolErr ''plan is required'')
           else Inr \<lparr>to_text = ''User approved the plan. You may now make changes.'', to_diff = None\<rparr>), ctx)"

definition default_tools :: "(string \<times> tool) list" where
  "default_tools = map (\<lambda>t. (tl_name t, t))
    [\<lparr>tl_name = ''Read'', tl_properties = [(''path'', TString), (''offset'', TInteger), (''limit'', TInteger)],
       tl_required = [''path''], tl_category = CatRead, tl_func = tool_read\<rparr>,
     \<lparr>tl_name = ''Write'', tl_properties = [(''path'', TString), (''content'', TString)],
       tl_required = [''path'', ''content''], tl_category = CatEdit, tl_func = tool_write\<rparr>,
     \<lparr>tl_name = ''Edit'', tl_properties =
         [(''path'', TString), (''old_string'', TString), (''new_string'', TString), (''replace_all'', TBoolean)],
       tl_required = [''path'', ''old_string'', ''new_string''], tl_category = CatEdit, tl_func = tool_edit\<rparr>,
     \<lparr>tl_name = ''Glob'', tl_properties = [(''pattern'', TString), (''path'', TString)],
       tl_required = [''pattern''], tl_category = CatRead, tl_func = tool_search ''Glob''\<rparr>,
     \<lparr>tl_name = ''Grep'', tl_properties = [(''pattern'', TString), (''path'', TString), (''glob'', TString),
         (''ignore_case'', TBoolean), (''output_mode'', TString), (''head_limit'', TInteger)],
       tl_required = [''pattern''], tl_category = CatRead, tl_func = tool_search ''Grep''\<rparr>,
     \<lparr>tl_name = ''LS'', tl_properties = [(''path'', TString)],
       tl_required = [], tl_category = CatRead, tl_func = tool_search ''LS''\<rparr>,
     \<lparr>tl_name = ''Bash'', tl_properties = [(''command'', TString), (''timeout'', TInteger)],
       tl_required = [''command''], tl_category = CatExec, tl_func = tool_bash\<rparr>,
     \<lparr>tl_name = ''TodoWrite'', tl_properties = [(''todos'', TArray)],
       tl_required = [''todos''], tl_category = CatMeta, tl_func = tool_todo\<rparr>,
     \<lparr>tl_name = ''ExitPlanMode'', tl_properties = [(''plan'', TString)],
       tl_required = [''plan''], tl_category = CatPlan, tl_func = tool_exit_plan\<rparr>]"

subsection \<open>Checking the arguments of a call\<close>

text \<open>\<open>str.isdigit\<close> on code points below 256: the decimal digits and the three superscripts.\<close>

definition py_isdigit :: "string \<Rightarrow> bool" where
  "py_isdigit s = (s \<noteq> [] \<and> list_all (\<lambda>c. is_digit c \<or> List.member [CHR 0xB2, CHR 0xB3, CHR 0xB9] c) s)"

fun of_type :: "arg_type \<Rightarrow> json \<Rightarrow> bool" where
  "of_type TString (JStr s) = True"
| "of_type TInteger (JInt i) = True"
| "of_type TInteger (JBool b) = True"
| "of_type TBoolean (JBool b) = True"
| "of_type TArray (JArr xs) = True"
| "of_type TObject (JObj d) = True"
| "of_type _ _ = False"

fun arg_type_name :: "arg_type \<Rightarrow> string" where
  "arg_type_name TString = ''string''"
| "arg_type_name TInteger = ''integer''"
| "arg_type_name TBoolean = ''boolean''"
| "arg_type_name TArray = ''array''"
| "arg_type_name TObject = ''object''"

text \<open>The coercions; a text of digits and dashes that is no number is a \<open>ValueError\<close> of \<open>int\<close>, which nothing catches.\<close>

definition coerce_arg :: "arg_type \<Rightarrow> json \<Rightarrow> tool_exn + json" where
  "coerce_arg want v =
     (case v of
        JStr s \<Rightarrow>
          if want = TInteger \<and> py_isdigit (dropWhile (\<lambda>c. c = CHR ''-'') (py_strip s)) then
            (case py_int_str s of Some i \<Rightarrow> Inr (JInt i) | None \<Rightarrow> Inl (OtherErr ''ValueError'' [s]))
          else if want = TBoolean \<and> (py_lower s = ''true'' \<or> py_lower s = ''false'') then Inr (JBool (py_lower s = ''true''))
          else Inr v
      | _ \<Rightarrow> Inr v)"

fun check_properties :: "(string \<times> arg_type) list \<Rightarrow> jobj \<Rightarrow> tool_exn + jobj" where
  "check_properties [] out = Inr out"
| "check_properties ((key, want) # props) out =
     (case map_of out key of
        None \<Rightarrow> check_properties props out
      | Some v \<Rightarrow> try_then (coerce_arg want v) (\<lambda>v'.
          if \<not> of_type want v' then Inl (ToolErr (''argument '' @ quoted key @ '' must be of type '' @ arg_type_name want))
          else check_properties props (dict_set out key v')))"

definition validate_args :: "tool \<Rightarrow> json \<Rightarrow> tool_exn + jobj" where
  "validate_args t args =
     (case args of
        JObj d \<Rightarrow>
          if map_of d ''__parse_error__'' \<noteq> None
          then Inl (ToolErr ''arguments were not valid JSON; resend the call with valid JSON'')
          else (case find (\<lambda>key. map_of d key = None) (tl_required t) of
              Some key \<Rightarrow> Inl (ToolErr (''missing required argument: '' @ key))
            | None \<Rightarrow> check_properties (tl_properties t) d)
      | _ \<Rightarrow> Inl (ToolErr ''arguments must be a JSON object''))"

subsection \<open>What the permission prompt shows\<close>

definition preview :: "tool_env \<Rightarrow> tool \<Rightarrow> jobj \<Rightarrow> tool_ctx \<Rightarrow> tool_exn + string \<times> string option" where
  "preview env t args ctx =
     (let ws = tc_ws ctx; fs = tc_fs ctx;
          fallback = (tl_name t @ '' '' @ te_str env (JObj args), None);
          arg = (\<lambda>k. case str_arg args k of Some s \<Rightarrow> Inr s | None \<Rightarrow> Inl (ToolErr k));
          old_text = (\<lambda>p. if path_exists fs p then read_text fs p else Inr []);
          shown =
            (if tl_name t = ''Bash'' then Inr (py_str (te_str env) (dict_get args ''command'' (JStr [])), None)
             else if tl_name t = ''Edit'' then
               try_then (arg ''path'') (\<lambda>raw. try_then (ws_resolve ws fs (JStr raw)) (\<lambda>p. try_then (old_text p) (\<lambda>old.
                 try_then (arg ''old_string'') (\<lambda>old_s. try_then (arg ''new_string'') (\<lambda>new_s.
                   Inr (''Edit '' @ ws_rel ws p, Some (make_diff env (ws_rel ws p) old
                     (py_replace old (points old_s) (points new_s) (if truthy (dict_get args ''replace_all'' JNull) then None else Some 1)))))))))
             else if tl_name t = ''Write'' then
               try_then (arg ''path'') (\<lambda>raw. try_then (ws_resolve ws fs (JStr raw)) (\<lambda>p. try_then (old_text p) (\<lambda>old.
                 try_then (arg ''content'') (\<lambda>data.
                   Inr ((if old = [] then ''Create '' else ''Overwrite '') @ ws_rel ws p, Some (make_diff env (ws_rel ws p) old (points data)))))))
             else if tl_name t = ''ExitPlanMode'' then
               Inr (''Approve plan and start making changes'', Some (py_str (te_str env) (dict_get args ''plan'' (JStr []))))
             else Inr fallback)
      in case shown of
           Inr r \<Rightarrow> Inr r
         | Inl (ToolErr _) \<Rightarrow> Inr fallback
         | Inl (OtherErr k p) \<Rightarrow> if k = ''RuntimeError'' then Inl (OtherErr k p) else Inr fallback)"

end
