(* ===== verification/Permissions.thy ===== *)
theory Permissions
  imports CodeTools
begin

text \<open>
  \<open>src/zcoder/agent/codeagent/permissions.py\<close>: permission modes, allow and deny rules, the always-on list of denied
  commands, and the verdict on a call. The patterns are the syntax trees of the regular expressions in the code, in their
  order.
\<close>

datatype mode = ModeDefault | ModeAcceptEdits | ModePlan | ModeBypass

fun mode_value :: "mode \<Rightarrow> string" where
  "mode_value ModeDefault = ''default''"
| "mode_value ModeAcceptEdits = ''acceptEdits''"
| "mode_value ModePlan = ''plan''"
| "mode_value ModeBypass = ''bypass''"

definition MODE_CYCLE :: "mode list" where "MODE_CYCLE = [ModeDefault, ModeAcceptEdits, ModePlan]"

datatype action = Allow | Ask | Deny

record verdict =
  vd_action :: action
  vd_reason :: string

abbreviation spaces :: rx where "spaces \<equiv> RStar rspace"
abbreviation spaces1 :: rx where "spaces1 \<equiv> rplus rspace"
abbreviation to_line_end :: rx where "to_line_end \<equiv> RStar rdot"

subsection \<open>Commands that are never run\<close>

definition HARD_DENY :: "(rx \<times> string) list" where
  "HARD_DENY =
    [(rseq [RWordB, rlit ''rm'', spaces1, RStar (rseq [rlit ''-'', rplus rnonspace, spaces1]),
        ralt [rlit ''--no-preserve-root'', rseq [rlit ''/'', ropt (rlit ''*'')], rseq [rlit ''~'', ropt (rlit ''/''), ropt (rlit ''*'')],
          rseq [rlit ''$HOME'', ropt (rlit ''/''), ropt (rlit ''*'')]],
        RAlt rspace REnd],
      ''recursive delete of / or home''),
     (ralt [rseq [RWordB, rlit ''sudo'', RWordB],
        rseq [RWordB, rlit ''su'', spaces1, ropt (rlit ''-''), RStar rword, spaces, REnd],
        rseq [RWordB, rlit ''doas'', RWordB]],
      ''privilege escalation''),
     (RAlt (rseq [RWordB, rlit ''mkfs'', ropt (rseq [rlit ''.'', rplus rword]), RWordB])
        (rseq [RWordB, rlit ''dd'', RWordB, RStar (rnotset [CHR 0x0A, CHR '';'', CHR ''|'', CHR ''&'']), RWordB, rlit ''of=/dev/'']),
      ''disk-destroying command''),
     (rseq [rlit ''>'', spaces, rlit ''/dev/'', ralt [rlit ''sd'', rlit ''nvme'', rlit ''hd'', rlit ''disk'']],
      ''write to a block device''),
     (rseq [rlit '':()'', spaces, rlit ''{'', to_line_end, rlit ''};'', spaces, rlit '':''],
      ''fork bomb''),
     (rseq [RWordB, ralt [rlit ''curl'', rlit ''wget''], RWordB, to_line_end, rlit ''|'', spaces, ropt (rseq [rlit ''sudo'', spaces1]),
        ropt (ralt [rlit ''ba'', rlit ''z'', rlit ''da'']), rlit ''sh'', RWordB],
      ''piping a download into a shell''),
     (rseq [RWordB, rlit ''chmod'', spaces1, rlit ''-R'', spaces1, ropt (rlit ''0''), rlit ''777'', spaces1, rlit ''/'', RAlt rspace REnd],
      ''recursive chmod on /''),
     (rseq [RWordB, ralt [rlit ''shutdown'', rlit ''reboot'', rlit ''halt'', rlit ''poweroff''], RWordB],
      ''system power command''),
     (rseq [RWordB, rlit ''git'', spaces1, rlit ''push'', RWordB, to_line_end, rlit ''--force'', RNot (rlit ''-with-lease''), to_line_end,
        RWordB, ralt [rlit ''main'', rlit ''master''], RWordB],
      ''force-push to main'')]"

definition hard_deny_reason :: "string \<Rightarrow> string option" where
  "hard_deny_reason command = map_option snd (find (\<lambda>(r, why). re_found r command) HARD_DENY)"

subsection \<open>Commands that only read\<close>

definition SHELL_WRAPPERS :: "string list" where
  "SHELL_WRAPPERS = [''bash'', ''sh'', ''zsh'', ''eval'', ''exec'', ''env'', ''xargs'', ''sudo'', ''ssh'', ''nohup'', ''time'', ''watch'',
     ''python'', ''python3'', ''node'', ''perl'', ''ruby'']"

definition TWO_WORD :: "string list" where
  "TWO_WORD = [''git'', ''npm'', ''pnpm'', ''yarn'', ''pip'', ''pip3'', ''cargo'', ''make'', ''docker'', ''kubectl'', ''uv'', ''go'', ''pytest'', ''npx'']"

definition READONLY_CMDS :: "string list" where
  "READONLY_CMDS = [''ls'', ''pwd'', ''cat'', ''head'', ''tail'', ''wc'', ''echo'', ''which'', ''whoami'', ''date'', ''uname'', ''grep'', ''rg'',
     ''file'', ''stat'', ''du'', ''df'', ''basename'', ''dirname'', ''uniq'', ''diff'', ''true'', ''id'']"

definition GIT_READONLY :: "string list" where
  "GIT_READONLY = [''status'', ''diff'', ''log'', ''show'', ''rev-parse'', ''ls-files'', ''blame'', ''describe'', ''shortlog'', ''ls-tree'', ''remote'']"

definition unsafe_shell :: "string \<Rightarrow> bool" where
  "unsafe_shell command =
     list_ex (py_contains command) [''$('', [CHR 0x60], ''>'', ''<('', ''<<'', ''$'' @ ''{'']"

text \<open>The parts between \<open>&&\<close>, \<open>||\<close>, \<open>;\<close>, \<open>|\<close> and line feeds; the part read so far is kept reversed.\<close>

fun compound_parts :: "string \<Rightarrow> string \<Rightarrow> string list" where
  "compound_parts acc [] = [rev acc]"
| "compound_parts acc [c] =
     (if c = CHR '';'' \<or> c = CHR ''|'' \<or> c = CHR 0x0A then [rev acc, []] else [rev (c # acc)])"
| "compound_parts acc (c # d # s) =
     (if c = CHR ''&'' \<and> d = CHR ''&'' \<or> c = CHR ''|'' \<and> d = CHR ''|'' then rev acc # compound_parts [] s
      else if c = CHR '';'' \<or> c = CHR ''|'' \<or> c = CHR 0x0A then rev acc # compound_parts [] (d # s)
      else compound_parts (c # acc) (d # s))"

definition split_command :: "string \<Rightarrow> string list option" where
  "split_command command =
     (if unsafe_shell command then None
      else (case filter (\<lambda>p. p \<noteq> []) (map py_strip (compound_parts [] command)) of [] \<Rightarrow> None | ps \<Rightarrow> Some ps))"

definition escapes_workspace :: "string \<Rightarrow> bool" where
  "escapes_workspace tok \<longleftrightarrow> py_startswith tok ''/'' \<or> py_startswith tok ''~'' \<or> List.member (py_split (CHR ''/'') tok) ''..''"

definition writes_output :: "string \<Rightarrow> bool" where
  "writes_output tok = list_ex (py_startswith tok) [''--output'', ''--pre'', ''-o'']"

definition readonly_segment :: "string \<Rightarrow> bool" where
  "readonly_segment seg =
     (case shlex_split seg of
        None \<Rightarrow> False
      | Some [] \<Rightarrow> False
      | Some (head # args) \<Rightarrow>
          if list_ex (\<lambda>t. escapes_workspace t \<or> writes_output t) args then False
          else if List.member READONLY_CMDS head then True
          else if head = ''find'' then
            \<not> list_ex (List.member [''-exec'', ''-execdir'', ''-delete'', ''-fprint'', ''-fprintf'', ''-ok'']) (head # args)
          else if head = ''git'' \<and> args \<noteq> [] then
            (let sub = hd args; rest = tl args in
             if List.member GIT_READONLY sub then
               \<not> (sub = ''remote'' \<and> rest \<noteq> [] \<and> \<not> List.member [''-v'', ''show'', ''get-url''] (hd rest))
             else sub = ''branch'' \<and>
               list_all (\<lambda>t. py_startswith t ''-'' \<and> List.member [''-a'', ''-r'', ''-v'', ''-vv'', ''--list'', ''--show-current''] t) rest)
          else False)"

definition is_readonly_command :: "string \<Rightarrow> bool" where
  "is_readonly_command command =
     (case split_command command of None \<Rightarrow> False | Some segments \<Rightarrow> list_all readonly_segment segments)"

subsection \<open>Rules\<close>

definition command_of :: "tool_env \<Rightarrow> jobj \<Rightarrow> string" where
  "command_of env args = py_str (te_str env) (dict_get args ''command'' (JStr []))"

definition session_prefix :: "string list \<Rightarrow> string" where
  "session_prefix toks =
     (if List.member TWO_WORD (hd toks) \<and> length toks > 1 \<and> \<not> py_startswith (toks ! 1) ''-''
      then join_with '' '' (take 2 toks) else hd toks)"

definition rule_for :: "tool_env \<Rightarrow> tool \<Rightarrow> jobj \<Rightarrow> string option" where
  "rule_for env t args =
     (case tl_category t of
        CatExec \<Rightarrow>
          (case split_command (command_of env args) of
             Some [seg] \<Rightarrow>
               (case shlex_split seg of
                  None \<Rightarrow> None
                | Some toks \<Rightarrow>
                    if toks = [] \<or> List.member SHELL_WRAPPERS (hd toks) then None
                    else Some (''Bash('' @ session_prefix toks @ '':*)''))
           | _ \<Rightarrow> None)
      | CatEdit \<Rightarrow> Some (tl_name t)
      | _ \<Rightarrow> None)"

definition RULE :: rx where
  "RULE = RSeq (RGroup 1 (rplus rword)) (ropt (rseq [rlit ''('', RGroup 2 (RStar rdot), rlit '')'']))"

definition matches_prefix :: "string \<Rightarrow> string \<Rightarrow> bool" where
  "matches_prefix pattern seg =
     (if py_endswith pattern '':*'' then
        (let p = take (length pattern - 2) pattern in seg = p \<or> py_startswith seg (p @ '' ''))
      else seg = pattern)"

definition rule_matches :: "tool_env \<Rightarrow> string \<Rightarrow> tool \<Rightarrow> jobj \<Rightarrow> bool" where
  "rule_matches env rule t args =
     (case re_fullmatch RULE (py_strip rule) of
        None \<Rightarrow> False
      | Some groups \<Rightarrow>
          if map_of groups 1 \<noteq> Some (tl_name t) then False
          else (case map_of groups 2 of
              None \<Rightarrow> True
            | Some pattern \<Rightarrow>
                if tl_category t = CatExec then
                  (case split_command (command_of env args) of
                     None \<Rightarrow> False
                   | Some segments \<Rightarrow> list_all (matches_prefix pattern) segments)
                else py_fnmatch (py_str (te_str env) (dict_get args ''path'' (JStr []))) pattern))"

subsection \<open>The policy\<close>

record policy =
  pp_mode :: mode
  pp_allow_rules :: "string list"
  pp_deny_rules :: "string list"
  pp_allow_bypass :: bool

definition set_mode :: "mode \<Rightarrow> policy \<Rightarrow> tool_exn + policy" where
  "set_mode m pp =
     (if m = ModeBypass \<and> \<not> pp_allow_bypass pp
      then Inl (ToolErr ''bypass mode is disabled (start with --dangerously-skip-permissions to enable)'')
      else Inr (pp\<lparr>pp_mode := m\<rparr>))"

fun next_mode :: "mode \<Rightarrow> mode" where
  "next_mode ModeDefault = ModeAcceptEdits"
| "next_mode ModeAcceptEdits = ModePlan"
| "next_mode _ = ModeDefault"

definition cycle_mode :: "policy \<Rightarrow> mode \<times> policy" where
  "cycle_mode pp = (next_mode (pp_mode pp), pp\<lparr>pp_mode := next_mode (pp_mode pp)\<rparr>)"

definition remember_rule :: "tool_env \<Rightarrow> tool \<Rightarrow> jobj \<Rightarrow> policy \<Rightarrow> string option \<times> policy" where
  "remember_rule env t args pp =
     (case rule_for env t args of
        None \<Rightarrow> (None, pp)
      | Some r \<Rightarrow> (Some r,
          if r = [] \<or> List.member (pp_allow_rules pp) r then pp else pp\<lparr>pp_allow_rules := pp_allow_rules pp @ [r]\<rparr>))"

abbreviation vd :: "action \<Rightarrow> string \<Rightarrow> verdict" where
  "vd a r \<equiv> \<lparr>vd_action = a, vd_reason = r\<rparr>"

definition plan_refusal :: string where
  "plan_refusal = ''Plan mode is read-only. Research with Read/Grep/Glob, then call ExitPlanMode with your plan.''"

text \<open>The path of an edit that needs a question first; an unknown home directory is not caught.\<close>

definition sensitive_edit :: "tool_env \<Rightarrow> tool \<Rightarrow> jobj \<Rightarrow> tool_ctx \<Rightarrow> tool_exn + bool" where
  "sensitive_edit env t args ctx =
     (if tl_category t = CatEdit then
        (case ws_resolve (tc_ws ctx) (tc_fs ctx) (JStr (py_str (te_str env) (dict_get args ''path'' (JStr [])))) of
           Inr p \<Rightarrow> Inr (is_sensitive p)
         | Inl (ToolErr _) \<Rightarrow> Inr False
         | Inl e \<Rightarrow> Inl e)
      else Inr False)"

definition check :: "tool_env \<Rightarrow> policy \<Rightarrow> tool \<Rightarrow> jobj \<Rightarrow> tool_ctx \<Rightarrow> tool_exn + verdict" where
  "check env pp t args ctx =
     (let command = command_of env args; denied = (if tl_category t = CatExec then hard_deny_reason command else None) in
      if denied \<noteq> None then Inr (vd Deny (''Blocked: '' @ the denied @ ''. This is never allowed.''))
      else if list_ex (\<lambda>r. rule_matches env r t args) (pp_deny_rules pp) then Inr (vd Deny ''Blocked by a deny rule.'')
      else if tl_category t = CatPlan then
        Inr (if pp_mode pp = ModePlan then vd Ask [] else vd Deny ''Not in plan mode.'')
      else if pp_mode pp = ModePlan then
        Inr (if tl_category t = CatRead \<or> tl_category t = CatMeta then vd Allow []
             else if tl_category t = CatExec \<and> is_readonly_command command then vd Allow []
             else vd Deny plan_refusal)
      else if tl_category t = CatRead \<or> tl_category t = CatMeta then Inr (vd Allow [])
      else if pp_mode pp = ModeBypass \<and> pp_allow_bypass pp then Inr (vd Allow [])
      else try_then (sensitive_edit env t args ctx) (\<lambda>sensitive.
        if sensitive then Inr (vd Ask ''Sensitive file'')
        else if list_ex (\<lambda>r. rule_matches env r t args) (pp_allow_rules pp) then Inr (vd Allow [])
        else if tl_category t = CatEdit \<and> pp_mode pp = ModeAcceptEdits then Inr (vd Allow [])
        else if tl_category t = CatExec \<and> is_readonly_command command then Inr (vd Allow [])
        else Inr (vd Ask [])))"

subsection \<open>What a rule says\<close>

lemma rule_paren:
  assumes "CHR 0x0A \<notin> set inner"
  shows "\<exists>more. filter (\<lambda>(s', g). s' = []) (map snd (rx_results (rseq [rlit ''('', RGroup 2 (RStar rdot), rlit '')''])
      (p, ''('' @ inner @ '')'', [(1, name)]))) = ([], [(1, name), (2, inner)]) # more"
proof -
  let ?w = "inner @ '')''" and ?g = "[(1::nat, name)]"
  let ?F = "rx_results (rseq [rlit '')''])"
  let ?G = "\<lambda>(s :: string, g :: (nat \<times> string) list). (case s of [] \<Rightarrow> [] | d # ds \<Rightarrow> if d = CHR '')'' then [(ds, g)] else [])"
  have F: "map snd (?F (p, s, g)) = ?G (s, g)" for p s g
    by (auto simp: rx_results_rseq rx_results_lit1 split: list.splits)
  have all: "list_all (\<lambda>c. c \<noteq> CHR 0x0A) ?w" using assms by (auto simp: list_all_iff)
  have "map snd (rx_results (RStar rdot) (p', ?w @ [], ?g)) = map (\<lambda>k. (drop k (?w @ []), ?g)) (rev [0..<Suc (length ?w)])" for p'
    by (rule star_class [OF all]) simp
  then have star: "map snd (rx_results (RGroup 2 (RStar rdot)) (p', ?w, ?g)) =
      map (\<lambda>k. (drop k ?w, AList.update 2 (take (length ?w - length (drop k ?w)) ?w) ?g)) (rev [0..<Suc (length ?w)])" for p'
    by (simp add: map_snd_group comp_def del: upt_Suc rx_results.simps)
  have idx: "rev [0..<Suc (length ?w)] = Suc (length inner) # length inner # rev [0..<length inner]" by simp
  have "map snd (rx_results (rseq [rlit ''('', RGroup 2 (RStar rdot), rlit '')'']) (p, ''('' @ ?w, ?g)) =
      concat (map ?G (map snd (rx_results (RGroup 2 (RStar rdot)) (Some (CHR ''(''), ?w, ?g))))"
    using map_snd_concat_map [of ?F ?G, OF F] by (simp add: rx_results_rseq(2) [of "rlit ''(''"] rx_results_rseq(2) [of "RGroup 2 r" for r]
      rx_results_lit1 del: rx_results.simps)
  then show ?thesis unfolding star idx by simp
qed

lemma rule_parts:
  assumes "name \<noteq> []" "list_all word_char name"
  shows "re_fullmatch RULE name = Some [(1, name)]"
    and "CHR 0x0A \<notin> set inner \<Longrightarrow> re_fullmatch RULE (name @ ''('' @ inner @ '')'') = Some [(1, name), (2, inner)]"
proof -
  define X where "X = ropt (rseq [rlit ''('', RGroup 2 (RStar rdot), rlit '')''])"
  define G where "G = (\<lambda>(s, g). map snd (rx_results X (None, s, g)))"
  have main: "filter (\<lambda>(s', g). s' = []) (map snd (rx_results RULE (None, name @ v, []))) =
      filter (\<lambda>(s', g). s' = []) (G (v, [(1, name)]))"
    if v: "v = [] \<or> \<not> word_char (hd v)" for v
  proof -
    obtain c u where name: "name = c # u" using assms(1) by (cases name) auto
    have "list_all word_char u" "word_char c" using assms(2) name by simp_all
    have G: "map snd (rx_results X (p, s, g)) = G (s, g)" for p s g
      by (auto simp: X_def G_def ropt_def rseq_def rx_results_lit1 split: list.splits)
    have "map snd (rx_results (RStar rword) (Some c, u @ v, [])) = map (\<lambda>k. (drop k (u @ v), [])) (rev [0..<Suc (length u)])"
      by (rule star_class [OF \<open>list_all word_char u\<close> v])
    then have grp: "map snd (rx_results (RGroup 1 (rplus rword)) (None, name @ v, [])) =
        map (\<lambda>k. (drop k (u @ v), [(1, take (length (name @ v) - length (drop k (u @ v))) (name @ v))])) (rev [0..<Suc (length u)])"
      using \<open>word_char c\<close> by (simp add: map_snd_group rplus_def name comp_def del: upt_Suc rx_results.simps(5,11))
    have r: "map snd (rx_results RULE (None, name @ v, [])) =
        concat (map G (map (\<lambda>k. (drop k (u @ v), [(1, take (length (name @ v) - length (drop k (u @ v))) (name @ v))]))
          (rev [0..<Suc (length u)])))"
      using map_snd_concat_map [of "rx_results X" G, OF G] by (simp only: RULE_def X_def [symmetric] rx_results.simps(3) grp)
    have short: "filter (\<lambda>(s', g). s' = []) (G (drop k (u @ v), g)) = []" if "k < length u" for k g
    proof -
      have "drop k (u @ v) = u ! k # drop (Suc k) (u @ v)" using that by (simp add: Cons_nth_drop_Suc [symmetric] nth_append)
      moreover have "u ! k \<noteq> CHR ''(''" using \<open>list_all word_char u\<close> that
        by (auto simp: list_all_length word_char_def Let_def)
      ultimately show ?thesis by (simp add: G_def X_def ropt_def rseq_def rx_results_lit1)
    qed
    have "filter (\<lambda>(s', g). s' = []) (concat (map G (map (\<lambda>k. (drop k (u @ v), h k)) (rev [0..<n])))) = []" if "n \<le> length u" for n h
      using that by (induction n) (simp_all add: short del: drop_append)
    from this [of "length u"] show ?thesis unfolding r by (simp add: name)
  qed
  show "re_fullmatch RULE name = Some [(1, name)]"
    using main [of "[]"] by (simp add: re_fullmatch_snd G_def X_def ropt_def rseq_def rx_results_lit1)
  assume "CHR 0x0A \<notin> set inner"
  from rule_paren [OF this, of None name] obtain more where
    "filter (\<lambda>(s', g). s' = []) (map snd (rx_results (rseq [rlit ''('', RGroup 2 (RStar rdot), rlit '')''])
      (None, ''('' @ inner @ '')'', [(1, name)]))) = ([], [(1, name), (2, inner)]) # more" by blast
  then have "filter (\<lambda>(s', g). s' = []) (G (''('' @ inner @ '')'', [(1, name)])) = ([], [(1, name), (2, inner)]) # more @ []"
    by (simp add: G_def X_def ropt_def)
  moreover have "\<not> word_char (hd (''('' @ inner @ '')''))" by (simp add: word_char_def)
  ultimately show "re_fullmatch RULE (name @ ''('' @ inner @ '')'') = Some [(1, name), (2, inner)]"
    using main [of "''('' @ inner @ '')''"] by (simp add: re_fullmatch_snd)
qed

subsection \<open>What a session rule allows\<close>

lemma compound_parts_no_feed:
  "p \<in> set (compound_parts acc s) \<Longrightarrow> CHR 0x0A \<notin> set acc \<Longrightarrow> CHR 0x0A \<notin> set p"
  by (induction acc s rule: compound_parts.induct) (auto split: if_splits)

lemma set_py_strip: "set (py_strip s) \<subseteq> set s"
  unfolding py_strip_def by (auto dest!: set_dropWhileD)

lemma split_command_no_feed:
  assumes "split_command command = Some segs" "seg \<in> set segs"
  shows "CHR 0x0A \<notin> set seg"
proof -
  have "seg \<in> py_strip ` set (compound_parts [] command)"
    using assms by (auto simp: split_command_def split: if_splits list.splits)
  then show ?thesis using compound_parts_no_feed [of _ "[]" command] set_py_strip by force
qed

lemma session_prefix_no_feed:
  assumes "shlex_split seg = Some toks" "toks \<noteq> []" "CHR 0x0A \<notin> set seg"
  shows "CHR 0x0A \<notin> set (session_prefix toks)"
proof -
  have t: "CHR 0x0A \<notin> set t" if "t \<in> set toks" for t
    using shlex_chars [OF assms(1) [unfolded shlex_split_def], of "insert (CHR 0x5C) (set seg)"] that assms(3) by auto
  show ?thesis using t assms(2)
    by (cases toks; cases "tl toks") (auto simp: session_prefix_def join_with_def numeral_2_eq_2)
qed

lemma rule_for_exec:
  assumes "tl_category t = CatExec" "rule_for env t args = Some r"
  obtains seg toks where "split_command (command_of env args) = Some [seg]" "shlex_split seg = Some toks" "toks \<noteq> []"
    "hd toks \<notin> set SHELL_WRAPPERS" "r = ''Bash('' @ session_prefix toks @ '':*)''"
proof -
  obtain seg where 1: "split_command (command_of env args) = Some [seg]"
    using assms by (auto simp: rule_for_def split: option.splits list.splits)
  with assms obtain toks where 2: "shlex_split seg = Some toks"
    by (auto simp: rule_for_def split: option.splits)
  with 1 assms have "toks \<noteq> []" "hd toks \<notin> set SHELL_WRAPPERS" "r = ''Bash('' @ session_prefix toks @ '':*)''"
    by (auto simp: rule_for_def split: if_splits)
  with 1 2 show thesis using that by blast
qed

lemma session_rule_matches:
  assumes "tl_name t = ''Bash''" "tl_category t = CatExec" and p: "CHR 0x0A \<notin> set p"
  shows "rule_matches env (''Bash('' @ p @ '':*)'') t args \<longleftrightarrow>
    (\<exists>segs. split_command (command_of env args) = Some segs \<and> (\<forall>seg \<in> set segs. seg = p \<or> prefix (p @ '' '') seg))"
proof -
  have strip: "py_strip (''Bash('' @ p @ '':*)'') = ''Bash('' @ p @ '':*)''"
    by (rule py_strip_id) (simp add: py_isspace_def)
  have "re_fullmatch RULE (''Bash'' @ ''('' @ (p @ '':*'') @ '')'') = Some [(1, ''Bash''), (2, p @ '':*'')]"
    by (rule rule_parts) (use p in \<open>simp_all add: word_char_def\<close>)
  then have "re_fullmatch RULE (''Bash('' @ p @ '':*)'') = Some [(1, ''Bash''), (2, p @ '':*'')]" by simp
  moreover have "suffix '':*'' (p @ '':*'')" by (simp add: suffix_def)
  then have "matches_prefix (p @ '':*'') seg \<longleftrightarrow> seg = p \<or> prefix (p @ '' '') seg" for seg
    by (auto simp: matches_prefix_def py_endswith_def py_startswith_def Let_def)
  ultimately show ?thesis using assms(1,2) unfolding rule_matches_def strip
    by (simp add: list_all_iff split: option.splits)
qed

lemma check_allow_list:
  assumes "check env (pp\<lparr>pp_allow_rules := rules\<rparr>) t args ctx = Inr (vd Allow [])" "check env pp t args ctx \<noteq> Inr (vd Allow [])"
  shows "list_ex (\<lambda>r. rule_matches env r t args) rules" "\<not> list_ex (\<lambda>r. rule_matches env r t args) (pp_allow_rules pp)"
    "tl_category t = CatExec \<Longrightarrow> hard_deny_reason (command_of env args) = None"
    "\<not> list_ex (\<lambda>r. rule_matches env r t args) (pp_deny_rules pp)"
  using assms by (auto simp: check_def Let_def split: if_splits sum.splits elim!: try_then_eq_Inr [THEN iffD1, elim_format])

text \<open>
  "Always allow" extends what runs unasked by the approved program only: a command that the remembered rule newly
  allows is not on the deny lists, and each of its parts between separators is the approved prefix, alone or followed by a
  blank and arguments; the prefix is the first word of the approved command, which was a single part and no shell wrapper,
  or its first two words for the programs with subcommands.
\<close>
theorem session_rule_scope:
  assumes "tl_name t = ''Bash''" "tl_category t = CatExec" and "remember_rule env t args pp = (r, pp')"
    and "check env pp t args' ctx \<noteq> Inr (vd Allow [])" and "check env pp' t args' ctx = Inr (vd Allow [])"
  shows "\<exists>seg toks segs. split_command (command_of env args) = Some [seg] \<and> shlex_split seg = Some toks \<and>
    hd toks \<notin> set SHELL_WRAPPERS \<and> split_command (command_of env args') = Some segs \<and>
    (\<forall>part \<in> set segs. part = session_prefix toks \<or> prefix (session_prefix toks @ '' '') part) \<and>
    hard_deny_reason (command_of env args') = None \<and> \<not> list_ex (\<lambda>r. rule_matches env r t args') (pp_deny_rules pp)"
proof -
  obtain rule where rule: "rule_for env t args = Some rule" "pp' = pp\<lparr>pp_allow_rules := pp_allow_rules pp @ [rule]\<rparr>"
    using assms(3-5) by (auto simp: remember_rule_def split: option.splits if_splits)
  obtain seg toks where e: "split_command (command_of env args) = Some [seg]" "shlex_split seg = Some toks" "toks \<noteq> []"
    "hd toks \<notin> set SHELL_WRAPPERS" "rule = ''Bash('' @ session_prefix toks @ '':*)''"
    by (rule rule_for_exec [OF assms(2) rule(1)])
  note c = check_allow_list [OF assms(5) [unfolded rule(2)] assms(4)]
  have "rule_matches env rule t args'" using c(1,2) by auto
  moreover have "CHR 0x0A \<notin> set (session_prefix toks)"
    using session_prefix_no_feed [OF e(2,3)] split_command_no_feed [OF e(1)] by simp
  ultimately obtain segs where "split_command (command_of env args') = Some segs"
    "\<forall>part \<in> set segs. part = session_prefix toks \<or> prefix (session_prefix toks @ '' '') part"
    using session_rule_matches [OF assms(1,2)] e(5) by blast
  with e c(3,4) assms(2) show ?thesis by blast
qed

definition bash_tool :: tool where
  "bash_tool = the (map_of default_tools ''Bash'')"

lemma bash_tool [simp]: "tl_name bash_tool = ''Bash''" "tl_category bash_tool = CatExec"
  by (simp_all add: bash_tool_def default_tools_def)

definition demo_env :: tool_env where
  "demo_env = \<lparr>te_shell = (\<lambda>environ cwd command timeout fs. (\<lparr>sr_output = ''ok'', sr_status = [], sr_returncode = 0\<rparr>, fs)),
     te_environ = [], te_unified_diff = (\<lambda>p old new. []), te_search = (\<lambda>w args ws fs. Inr []), te_str = (\<lambda>j. []),
     te_exn_text = (\<lambda>k p. k)\<rparr>"

definition demo_ctx :: tool_ctx where
  "demo_ctx = \<lparr>tc_ws = workspace_new [''w''] [], tc_fs = demo_files, tc_todos = [], tc_scrub_env = True, tc_pass_env = []\<rparr>"

definition default_policy :: policy where
  "default_policy = \<lparr>pp_mode = ModeDefault, pp_allow_rules = [], pp_deny_rules = [], pp_allow_bypass = False\<rparr>"

definition command_args :: "string \<Rightarrow> jobj" where
  "command_args c = [(''command'', JStr c)]"

lemma command_of_args [simp]: "command_of env (command_args c) = c"
  by (simp add: command_of_def command_args_def dict_get_def)

theorem session_rule_scope_witness:
  "\<exists>pp'. remember_rule demo_env bash_tool (command_args ''npm test'') default_policy = (Some ''Bash(npm test:*)'', pp') \<and>
     check demo_env pp' bash_tool (command_args ''npm test -- a'') demo_ctx = Inr (vd Allow []) \<and>
     (\<exists>segs. split_command ''npm test -- a'' = Some segs \<and>
       list_all (\<lambda>part. part = ''npm test'' \<or> prefix ''npm test '' part) segs)"
proof -
  obtain pp' where r: "remember_rule demo_env bash_tool (command_args ''npm test'') default_policy = (Some ''Bash(npm test:*)'', pp')"
    and pp': "pp' = default_policy\<lparr>pp_allow_rules := [''Bash(npm test:*)'']\<rparr>"
  proof -
    have "rule_for demo_env bash_tool (command_args ''npm test'') = Some ''Bash(npm test:*)''" by code_simp
    then show thesis using that by (simp add: remember_rule_def default_policy_def)
  qed
  have n: "hard_deny_reason ''npm test -- a'' = None" and ro: "\<not> is_readonly_command ''npm test -- a''"
    and s: "split_command ''npm test -- a'' = Some [''npm test -- a'']" by code_simp+
  have c: "check demo_env default_policy bash_tool (command_args ''npm test -- a'') demo_ctx \<noteq> Inr (vd Allow [])"
    by (simp add: check_def n ro default_policy_def sensitive_edit_def)
  have m: "rule_matches demo_env ''Bash(npm test:*)'' bash_tool (command_args ''npm test -- a'')"
    using session_rule_matches [of bash_tool "''npm test''" demo_env "command_args ''npm test -- a''"] s
    by (auto simp: prefix_def)
  then have c': "check demo_env pp' bash_tool (command_args ''npm test -- a'') demo_ctx = Inr (vd Allow [])"
    by (simp add: check_def n pp' default_policy_def sensitive_edit_def)
  have sp: "split_command ''npm test'' = Some [''npm test'']" "shlex_split ''npm test'' = Some [''npm'', ''test'']"
    "session_prefix [''npm'', ''test''] = ''npm test''" by code_simp+
  from session_rule_scope [OF bash_tool r c c'] sp s have
    "list_all (\<lambda>part. part = ''npm test'' \<or> prefix ''npm test '' part) [''npm test -- a'']"
    by (auto simp: list_all_iff)
  with r c' s show ?thesis by blast
qed

text \<open>
  What the separators miss: a job started with \<open>&\<close> is part of the segment before it, so plan mode runs
  \<open>ls & rm -rf build\<close> unasked as a command that only reads; and a deny rule has to match every part of a command, so
  \<open>rm -rf build; ls\<close> passes the rule that denies \<open>rm\<close>.
\<close>
theorem compound_commands_evade:
  "check env \<lparr>pp_mode = ModePlan, pp_allow_rules = [], pp_deny_rules = [], pp_allow_bypass = False\<rparr> bash_tool
     (command_args ''ls & rm -rf build'') ctx = Inr (vd Allow []) \<and>
   check env \<lparr>pp_mode = ModeBypass, pp_allow_rules = [], pp_deny_rules = [''Bash(rm:*)''], pp_allow_bypass = True\<rparr> bash_tool
     (command_args ''rm -rf build; ls'') ctx = Inr (vd Allow [])"
proof
  have "hard_deny_reason ''ls & rm -rf build'' = None" "is_readonly_command ''ls & rm -rf build''" by code_simp+
  then show "check env \<lparr>pp_mode = ModePlan, pp_allow_rules = [], pp_deny_rules = [], pp_allow_bypass = False\<rparr> bash_tool
     (command_args ''ls & rm -rf build'') ctx = Inr (vd Allow [])"
    by (simp add: check_def)
  have "hard_deny_reason ''rm -rf build; ls'' = None" "split_command ''rm -rf build; ls'' = Some [''rm -rf build'', ''ls'']"
    by code_simp+
  moreover from this have "\<not> rule_matches env ''Bash(rm:*)'' bash_tool (command_args ''rm -rf build; ls'')"
    using session_rule_matches [of bash_tool "''rm''" env "command_args ''rm -rf build; ls''"] by simp
  ultimately show "check env \<lparr>pp_mode = ModeBypass, pp_allow_rules = [], pp_deny_rules = [''Bash(rm:*)''], pp_allow_bypass = True\<rparr>
     bash_tool (command_args ''rm -rf build; ls'') ctx = Inr (vd Allow [])"
    by (simp add: check_def)
qed

end
