(* ===== verification/AgentLoop.thy ===== *)
theory AgentLoop
  imports Permissions
begin

text \<open>
  \<open>src/zcoder/agent/codeagent/loop.py\<close>, with the events of \<open>events.py\<close>, the hooks of \<open>hooks.py\<close> and the mentions of
  \<open>memory.py\<close>: the loop that streams a model's answer, executes the tool calls in it under the permission policy, and
  repeats. The model, the prompt to the user and the hook processes act on a world \<open>'w\<close>, from which the interrupt flag is
  read; a hook command that changes files of the checkout does so outside the file system of the tools. An asynchronous stream is the list of its chunks, each with the world in which the loop sees it, and the error that
  ended it. Waiting is the world's business; what other tasks do to the agent while it waits, other than setting the
  interrupt flag, is not modelled. JSON text is the pair of parameters \<open>ae_dumps\<close> and \<open>ae_loads\<close>.
\<close>

record tool_call =
  tcl_id :: string
  tcl_name :: string
  tcl_args :: json

datatype message =
    SystemMsg string
  | UserMsg string
  | AssistantMsg "string option" "tool_call list"
  | ToolMsg string string

datatype chunk = CkText string | CkToolCalls "tool_call list" | CkUsage nat nat | CkRetry string | CkOther

record llm_error =
  le_message :: string
  le_retryable :: bool

datatype event =
    TextDelta string
  | ToolStart tool_call
  | ToolEnd string string string bool "string option"
  | TodoUpdate "(string \<times> string) list"
  | UsageUpdate nat nat
  | Notice string string
  | TurnDone string
  | ModeChanged string

record usage =
  us_prompt_tokens :: nat
  us_completion_tokens :: nat
  us_last_prompt_tokens :: nat
  us_requests :: nat

definition usage_new :: usage where
  "usage_new = \<lparr>us_prompt_tokens = 0, us_completion_tokens = 0, us_last_prompt_tokens = 0, us_requests = 0\<rparr>"

definition usage_add :: "nat \<Rightarrow> nat \<Rightarrow> usage \<Rightarrow> usage" where
  "usage_add p c u = u\<lparr>us_prompt_tokens := us_prompt_tokens u + p, us_completion_tokens := us_completion_tokens u + c,
     us_last_prompt_tokens := p, us_requests := us_requests u + 1\<rparr>"

record permission_request =
  pr_id :: string
  pr_tool :: string
  pr_args :: jobj
  pr_summary :: string
  pr_diff :: "string option"
  pr_reason :: string

datatype answer = AskRaised string | AllowOnce | AllowSession | Refuse string

datatype audit_entry =
    AuditTurnStart nat string
  | AuditTurnEnd string
  | AuditTool string string bool string
  | AuditRetry
  | AuditError string

record agent =
  ag_policy :: policy
  ag_ctx :: tool_ctx
  ag_messages :: "message list"
  ag_audit :: "audit_entry list"
  ag_usage :: usage
  ag_running :: bool
  ag_session_id :: string
  ag_last_stop :: string
  ag_saved :: "(string \<times> message list) list"

record hook =
  hk_matcher :: string
  hk_command :: string
  hk_timeout :: int

record hook_result =
  hr_blocked :: bool
  hr_message :: string
  hr_warnings :: "string list"

record 'w agent_env =
  ae_tools :: "(string \<times> tool) list"
  ae_env :: tool_env
  ae_system :: "mode \<Rightarrow> string"
  ae_stream :: "message list \<Rightarrow> 'w \<Rightarrow> (chunk \<times> 'w) list \<times> llm_error option \<times> 'w"
  ae_ask :: "(permission_request \<Rightarrow> 'w \<Rightarrow> answer \<times> 'w) option"
  ae_hooks :: "(string \<times> hook list) list"
  ae_hook_matches :: "string \<Rightarrow> string \<Rightarrow> bool option"
  ae_run_hook :: "hook \<Rightarrow> jobj \<Rightarrow> 'w \<Rightarrow> (int \<times> string) \<times> 'w"
  ae_interrupted :: "'w \<Rightarrow> bool"
  ae_clear_interrupt :: "'w \<Rightarrow> 'w"
  ae_dumps :: "json \<Rightarrow> string"
  ae_loads :: "string \<Rightarrow> json option"
  ae_message_chars :: "message \<Rightarrow> nat"
  ae_seconds :: "real \<Rightarrow> string"
  ae_retry_delays :: "real list"
  ae_context_window :: nat
  ae_max_steps :: nat
  ae_store :: bool

record 'w turn =
  tn_agent :: agent
  tn_world :: 'w
  tn_events :: "event list"

abbreviation emit :: "event \<Rightarrow> 'w turn \<Rightarrow> 'w turn" where
  "emit e s \<equiv> s\<lparr>tn_events := tn_events s @ [e]\<rparr>"

abbreviation on_agent :: "(agent \<Rightarrow> agent) \<Rightarrow> 'w turn \<Rightarrow> 'w turn" where
  "on_agent f s \<equiv> s\<lparr>tn_agent := f (tn_agent s)\<rparr>"

definition add_message :: "message \<Rightarrow> agent \<Rightarrow> agent" where
  "add_message m ag = ag\<lparr>ag_messages := ag_messages ag @ [m]\<rparr>"

definition audit_record :: "audit_entry \<Rightarrow> agent \<Rightarrow> agent" where
  "audit_record e ag = ag\<lparr>ag_audit := ag_audit ag @ [e]\<rparr>"

subsection \<open>The tag filter of the visible stream\<close>

definition TAG :: string where "TAG = ''<tool_call>''"

record tag_filter =
  tf_buf :: string
  tf_hidden :: string

definition tag_filter_new :: tag_filter where "tag_filter_new = \<lparr>tf_buf = [], tf_hidden = []\<rparr>"

text \<open>The longest end of the buffer that may be the beginning of the tag, tried from \<open>k\<close> characters downwards.\<close>

fun held_back :: "nat \<Rightarrow> string \<Rightarrow> nat" where
  "held_back 0 buf = 0"
| "held_back (Suc k) buf = (if prefix (drop (length buf - Suc k) buf) TAG then Suc k else held_back k buf)"

definition tag_feed :: "string \<Rightarrow> tag_filter \<Rightarrow> string \<times> tag_filter" where
  "tag_feed s f =
     (if tf_hidden f \<noteq> [] then ([], f\<lparr>tf_hidden := tf_hidden f @ s\<rparr>)
      else (let buf = tf_buf f @ s in
        case py_find buf TAG of
          Some i \<Rightarrow> (take i buf, \<lparr>tf_buf = [], tf_hidden = drop i buf\<rparr>)
        | None \<Rightarrow>
            (let k = held_back (min (length TAG - 1) (length buf)) buf in
             (take (length buf - k) buf, f\<lparr>tf_buf := drop (length buf - k) buf\<rparr>))))"

definition tag_flush :: "tag_filter \<Rightarrow> string \<times> tag_filter" where
  "tag_flush f = (tf_buf f, f\<lparr>tf_buf := []\<rparr>)"

subsection \<open>Tool calls written as text\<close>

definition TAG_RX :: rx where
  "TAG_RX = rseq [rlit ''<tool_call>'', RStar rspace,
     RGroup 1 (rseq [rlit ''{'', RLazyStar (RClass (\<lambda>c. True)), rlit ''}'']), RStar rspace, rlit ''</tool_call>'']"

definition text_call :: "'w agent_env \<Rightarrow> nat \<Rightarrow> rx_match \<Rightarrow> tool_call option" where
  "text_call E n m =
     (case ae_loads E (dict_get (rm_groups m) 1 []) of
        Some (JObj d) \<Rightarrow>
          (let args = dict_get d ''arguments'' (dict_get d ''parameters'' (JObj []));
               decoded = (case args of JStr s \<Rightarrow> ae_loads E s | _ \<Rightarrow> Some args)
           in case (map_of d ''name'', decoded) of
                (Some (JStr name), Some (JObj a)) \<Rightarrow>
                  Some \<lparr>tcl_id = ''text_call_'' @ digits_of_nat n, tcl_name = name, tcl_args = JObj a\<rparr>
              | _ \<Rightarrow> None)
      | _ \<Rightarrow> None)"

definition parse_text_tool_calls :: "'w agent_env \<Rightarrow> string \<Rightarrow> tool_call list" where
  "parse_text_tool_calls E t = List.map_filter (\<lambda>(n, m). text_call E n m) (enumerate 0 (re_finditer TAG_RX t))"

definition OVERFLOW :: rx where
  "OVERFLOW = ralt [rlit_i ''exceed'', rlit_i ''too long'', rlit_i ''too large'', rlit_i ''larger than'', rlit_i ''context length'',
     rlit_i ''context size'', rlit_i ''context window'']"

definition looks_like_context_overflow :: "string \<Rightarrow> bool" where
  "looks_like_context_overflow msg = (py_contains msg ''HTTP 400'' \<and> re_found OVERFLOW msg)"

subsection \<open>Hooks\<close>

definition matching_hooks :: "'w agent_env \<Rightarrow> string \<Rightarrow> string \<Rightarrow> hook list" where
  "matching_hooks E event name =
     filter (\<lambda>h. hk_matcher h = ''*'' \<or> hk_matcher h = [] \<or> ae_hook_matches E (hk_matcher h) name = Some True)
       (dict_get (ae_hooks E) event [])"

fun fire :: "'w agent_env \<Rightarrow> hook list \<Rightarrow> jobj \<Rightarrow> string list \<Rightarrow> 'w \<Rightarrow> hook_result \<times> 'w" where
  "fire E [] payload warnings w = (\<lparr>hr_blocked = False, hr_message = [], hr_warnings = warnings\<rparr>, w)"
| "fire E (h # hs) payload warnings w =
     (case ae_run_hook E h payload w of ((code, err), w') \<Rightarrow>
        let err' = py_strip err in
        if code = 2 then
          (\<lparr>hr_blocked = True, hr_message = take 2000 (if err' = [] then ''Blocked by hook.'' else err'), hr_warnings = warnings\<rparr>, w')
        else fire E hs payload
          (if code \<noteq> 0 then warnings @ [take 300 (if err' = [] then ''hook exited with '' @ string_of_int code else err')] else warnings) w')"

definition fire_event :: "'w agent_env \<Rightarrow> string \<Rightarrow> string \<Rightarrow> jobj \<Rightarrow> jobj \<Rightarrow> string \<Rightarrow> path \<Rightarrow> 'w \<Rightarrow> hook_result \<times> 'w" where
  "fire_event E event name args extra session cwd w =
     (if list_all (\<lambda>(k, hs). hs = []) (ae_hooks E) then (\<lparr>hr_blocked = False, hr_message = [], hr_warnings = []\<rparr>, w)
      else fire E (matching_hooks E event name)
        ([(''event'', JStr event), (''tool'', JStr name), (''args'', JObj args), (''session_id'', JStr session),
          (''cwd'', JStr (path_str cwd))] @ extra) [] w)"

definition pre_tool :: "'w agent_env \<Rightarrow> string \<Rightarrow> jobj \<Rightarrow> agent \<Rightarrow> 'w \<Rightarrow> hook_result \<times> 'w" where
  "pre_tool E name args ag w = fire_event E ''PreToolUse'' name args [] (ag_session_id ag) (ws_root (tc_ws (ag_ctx ag))) w"

definition post_tool :: "'w agent_env \<Rightarrow> string \<Rightarrow> jobj \<Rightarrow> string \<Rightarrow> bool \<Rightarrow> agent \<Rightarrow> 'w \<Rightarrow> hook_result \<times> 'w" where
  "post_tool E name args out is_error ag w = fire_event E ''PostToolUse'' name args
     [(''output'', JStr (take 4000 out)), (''is_error'', JBool is_error)] (ag_session_id ag) (ws_root (tc_ws (ag_ctx ag))) w"

subsection \<open>Executing one call\<close>

record tool_end =
  te_output :: string
  te_is_error :: bool
  te_diff :: "string option"

text \<open>The end of a call and what the audit trail says of it; an exception nothing catches is the \<open>Inl\<close>.\<close>

type_synonym 'w executed = "(tool_exn + tool_end) \<times> agent \<times> 'w"

definition finish_call :: "tool_call \<Rightarrow> tool_end \<Rightarrow> string \<Rightarrow> agent \<Rightarrow> 'w \<Rightarrow> 'w executed" where
  "finish_call call end decision ag w =
     (Inr end, audit_record (AuditTool (tcl_name call) decision (te_is_error end) (mode_value (pp_mode (ag_policy ag)))) ag, w)"

definition fail_call :: "tool_call \<Rightarrow> string \<Rightarrow> string \<Rightarrow> agent \<Rightarrow> 'w \<Rightarrow> 'w executed" where
  "fail_call call msg decision ag w = finish_call call \<lparr>te_output = msg, te_is_error = True, te_diff = None\<rparr> decision ag w"

text \<open>The tool itself, with the hooks after it.\<close>

definition run_tool :: "'w agent_env \<Rightarrow> tool \<Rightarrow> tool_call \<Rightarrow> jobj \<Rightarrow> string \<Rightarrow> agent \<Rightarrow> 'w \<Rightarrow> 'w executed" where
  "run_tool E t call args decision ag w =
     (case tl_func t (ae_env E) args (ag_ctx ag) of
        (Inl (ToolErr msg), ctx') \<Rightarrow> fail_call call msg decision (ag\<lparr>ag_ctx := ctx'\<rparr>) w
      | (Inl (OtherErr k p), ctx') \<Rightarrow>
          fail_call call (k @ '': '' @ te_exn_text (ae_env E) k p) decision (ag\<lparr>ag_ctx := ctx'\<rparr>) w
      | (Inr out, ctx') \<Rightarrow>
          (let ag' = ag\<lparr>ag_ctx := ctx'\<rparr>; shown = truncate_text (to_text out) MAX_OUTPUT_CHARS in
           case post_tool E (tl_name t) args shown False ag' w of
             (post, w') \<Rightarrow> finish_call call
               \<lparr>te_output = (if hr_blocked post then shown @ line_feed @ ''[PostToolUse hook feedback] '' @ hr_message post else shown),
                te_is_error = False, te_diff = to_diff out\<rparr> decision ag' w'))"

definition no_prompt_text :: string where
  "no_prompt_text = ''This action needs user approval but no interactive prompt is available.''"

text \<open>What an approval changes: leaving plan mode, or a session rule.\<close>

definition approve :: "'w agent_env \<Rightarrow> tool \<Rightarrow> jobj \<Rightarrow> bool \<Rightarrow> agent \<Rightarrow> agent" where
  "approve E t args session ag =
     (if tl_category t = CatPlan
      then ag\<lparr>ag_policy := (ag_policy ag)\<lparr>pp_mode := if session then ModeAcceptEdits else ModeDefault\<rparr>\<rparr>
      else if session then ag\<lparr>ag_policy := snd (remember_rule (ae_env E) t args (ag_policy ag))\<rparr>
      else ag)"

definition ask_and_run :: "'w agent_env \<Rightarrow> tool \<Rightarrow> tool_call \<Rightarrow> jobj \<Rightarrow> string \<Rightarrow> agent \<Rightarrow> 'w \<Rightarrow> 'w executed" where
  "ask_and_run E t call args reason ag w =
     (case ae_ask E of
        None \<Rightarrow> fail_call call no_prompt_text ''no_prompt'' ag w
      | Some ask \<Rightarrow>
          (case preview (ae_env E) t args (ag_ctx ag) of
             Inl e \<Rightarrow> (Inl e, ag, w)
           | Inr (summary, diff) \<Rightarrow>
               (case ask \<lparr>pr_id = tcl_id call, pr_tool = tl_name t, pr_args = args, pr_summary = summary, pr_diff = diff,
                          pr_reason = reason\<rparr> w of
                  (AskRaised k, w') \<Rightarrow>
                    fail_call call (''Approval prompt failed ('' @ k @ ''); the call was not run.'') ''ask_failed'' ag w'
                | (ans, w') \<Rightarrow>
                    if ae_interrupted E w' then fail_call call ''Interrupted by user.'' ''interrupted'' ag w'
                    else (case ans of
                        Refuse feedback \<Rightarrow> fail_call call (''The user denied this tool call.'' @
                          (if feedback = [] then [] else '' User feedback: '' @ feedback)) ''user_deny'' ag w'
                      | AllowSession \<Rightarrow> run_tool E t call args ''user_allow_session'' (approve E t args True ag) w'
                      | _ \<Rightarrow> run_tool E t call args ''user_allow'' (approve E t args False ag) w'))))"

definition execute :: "'w agent_env \<Rightarrow> tool_call \<Rightarrow> agent \<Rightarrow> 'w \<Rightarrow> 'w executed" where
  "execute E call ag w =
     (case map_of (ae_tools E) (tcl_name call) of
        None \<Rightarrow> fail_call call (''Unknown tool '' @ quoted (tcl_name call) @ ''. Available: '' @
          join_with '', '' (map fst (ae_tools E))) ''unknown_tool'' ag w
      | Some t \<Rightarrow>
          (case validate_args t (tcl_args call) of
             Inl (ToolErr msg) \<Rightarrow> fail_call call msg ''invalid_args'' ag w
           | Inl e \<Rightarrow> (Inl e, ag, w)
           | Inr args \<Rightarrow>
               (case pre_tool E (tl_name t) args ag w of
                  (pre, w1) \<Rightarrow>
                    if hr_blocked pre
                    then fail_call call (''Blocked by a PreToolUse hook: '' @ hr_message pre) ''hook_block'' ag w1
                    else (case check (ae_env E) (ag_policy ag) t args (ag_ctx ag) of
                        Inl e \<Rightarrow> (Inl e, ag, w1)
                      | Inr v \<Rightarrow>
                          (case vd_action v of
                             Deny \<Rightarrow> fail_call call (vd_reason v) ''policy_deny'' ag w1
                           | Ask \<Rightarrow> ask_and_run E t call args (vd_reason v) ag w1
                           | Allow \<Rightarrow> run_tool E t call args ''auto'' ag w1)))))"

subsection \<open>Mentions of files\<close>

definition MENTION :: rx where
  "MENTION = rseq [RNotBehind (\<lambda>c. word_char c \<or> c = CHR ''@''), rlit ''@'',
     RGroup 1 (rplus (RClass (\<lambda>c. word_char c \<or> List.member ''./-'' c)))]"

definition rstrip_any :: "string \<Rightarrow> string \<Rightarrow> string" where
  "rstrip_any cs s = rev (dropWhile (List.member cs) (rev s))"

fun expand_from :: "rx_match list \<Rightarrow> string list \<Rightarrow> string list \<Rightarrow> workspace \<Rightarrow> file_system \<Rightarrow> string list \<times> string list \<times> workspace" where
  "expand_from [] attached blocks ws fs = (attached, blocks, ws)"
| "expand_from (m # ms) attached blocks ws fs =
     (let raw = rstrip_any ''.,;:)'' (dict_get (rm_groups m) 1 []) in
      if List.member attached raw then expand_from ms attached blocks ws fs
      else (case ws_resolve ws fs (JStr raw) of
          Inl e \<Rightarrow> expand_from ms attached blocks ws fs
        | Inr p \<Rightarrow>
            (case content fs p of
               None \<Rightarrow> expand_from ms attached blocks ws fs
             | Some data \<Rightarrow>
                 if length data > 200000 \<or> List.member (take 8192 data) (CHR 0x00) then expand_from ms attached blocks ws fs
                 else expand_from ms (attached @ [raw])
                   (blocks @ [''<file path='' @ [CHR 0x22] @ ws_rel ws p @ [CHR 0x22] @ ''>'' @ line_feed @ shown (take 20000 (utf8_decode data)) @ line_feed @ ''</file>''])
                   (mark_read fs p ws) fs)))"

definition expand_mentions :: "string \<Rightarrow> tool_ctx \<Rightarrow> string \<times> string list \<times> tool_ctx" where
  "expand_mentions t ctx =
     (case expand_from (re_finditer MENTION t) [] [] (tc_ws ctx) (tc_fs ctx) of
        (attached, blocks, ws') \<Rightarrow>
          ((if blocks = [] then t else t @ line_feed @ line_feed @ join_with line_feed blocks), attached, ctx\<lparr>tc_ws := ws'\<rparr>))"

subsection \<open>Compaction\<close>

fun call_line :: "'w agent_env \<Rightarrow> tool_call \<Rightarrow> string" where
  "call_line E c = ''[tool call] '' @ tcl_name c @ '' '' @ take 300 (ae_dumps E (tcl_args c))"

fun transcript_lines :: "'w agent_env \<Rightarrow> message \<Rightarrow> string list" where
  "transcript_lines E (SystemMsg s) = (if s = [] then [] else [''system: '' @ take 2000 s])"
| "transcript_lines E (UserMsg s) = (if s = [] then [] else [''user: '' @ take 2000 s])"
| "transcript_lines E (AssistantMsg c calls) =
     (case c of None \<Rightarrow> [] | Some s \<Rightarrow> if s = [] then [] else [''assistant: '' @ take 2000 s]) @ map (call_line E) calls"
| "transcript_lines E (ToolMsg i s) = [''[tool result] '' @ take 500 s]"

definition render_transcript :: "'w agent_env \<Rightarrow> message list \<Rightarrow> string" where
  "render_transcript E ms = py_last 24000 (join_with line_feed (concat (map (transcript_lines E) ms)))"

fun is_user :: "message \<Rightarrow> bool" where
  "is_user (UserMsg s) = True"
| "is_user _ = False"

text \<open>The index of the last user message, 0 if there is none.\<close>

definition last_user :: "message list \<Rightarrow> nat" where
  "last_user ms = (case filter (\<lambda>(i, m). is_user m) (enumerate 0 ms) of [] \<Rightarrow> 0 | ims \<Rightarrow> fst (last ims))"

definition chunk_texts :: "(chunk \<times> 'w) list \<Rightarrow> string" where
  "chunk_texts cs = concat (map (\<lambda>(c, w). case c of CkText s \<Rightarrow> s | _ \<Rightarrow> []) cs)"

definition COMPACT_PROMPT :: string where
  "COMPACT_PROMPT = ''Summarize this coding session so work can continue from the summary alone. Include: the user'' @ [CHR 0x27] @
     ''s goals, decisions made, files created/changed (with paths), commands run and their outcomes, open problems, and next steps. '' @
     ''Be dense and factual.''"

definition compact :: "'w agent_env \<Rightarrow> agent \<Rightarrow> 'w \<Rightarrow> (string + string) \<times> agent \<times> 'w" where
  "compact E ag w =
     (let n = last_user (ag_messages ag); head = take n (ag_messages ag); tail = drop n (ag_messages ag) in
      if head = [] then (Inl ''Nothing to compact yet.'', ag, w)
      else (case ae_stream E [SystemMsg COMPACT_PROMPT, UserMsg (render_transcript E head)] w of
          (chunks, Some err, w') \<Rightarrow> (Inl (le_message err), ag, w')
        | (chunks, None, w') \<Rightarrow>
            (let summary = py_strip (chunk_texts chunks) in
             if summary = [] then (Inl ''The model returned an empty summary.'', ag, w')
             else (Inr summary,
               ag\<lparr>ag_messages := [UserMsg (''[Summary of earlier conversation]'' @ line_feed @ summary),
                  AssistantMsg (Some ''Understood. I have the context and will continue from here.'') []] @ tail\<rparr>, w'))))"

definition estimate_tokens :: "'w agent_env \<Rightarrow> agent \<Rightarrow> nat" where
  "estimate_tokens E ag =
     (let chars = sum_list (map (ae_message_chars E) (ag_messages ag)) + 3000 in
      max (nat \<lfloor>real chars / (7/2)\<rfloor>) (us_last_prompt_tokens (ag_usage ag)))"

subsection \<open>One model request with its retries\<close>

fun chat :: "'w agent_env \<Rightarrow> message list \<Rightarrow> real list \<Rightarrow> nat \<Rightarrow> 'w \<Rightarrow> (chunk \<times> 'w) list \<times> llm_error option \<times> 'w" where
  "chat E wire [] attempt w = ae_stream E wire w"
| "chat E wire (wait # delays) attempt w =
     (case ae_stream E wire w of
        (chunks, None, w') \<Rightarrow> (chunks, None, w')
      | (chunks, Some err, w') \<Rightarrow>
          if chunks \<noteq> [] \<or> \<not> le_retryable err \<or> ae_interrupted E w' then (chunks, Some err, w')
          else (case chat E wire delays (Suc attempt) w' of
              (later, err', w'') \<Rightarrow>
                ((CkRetry (''Model server not ready ('' @ le_message err @ ''); retrying in '' @ ae_seconds E wait @ ''s ('' @
                   digits_of_nat (Suc attempt) @ '')'' @ ellipsis), w') # later, err', w'')))"

text \<open>What the loop keeps of a stream: the visible text, the calls, the filter, and whether an interrupt broke it off.\<close>

record streamed =
  sd_visible :: string
  sd_calls :: "tool_call list"
  sd_filter :: tag_filter

definition take_chunk :: "chunk \<Rightarrow> streamed \<Rightarrow> 'w turn \<Rightarrow> streamed \<times> 'w turn" where
  "take_chunk c sd s =
     (case c of
        CkRetry t \<Rightarrow> (sd, emit (Notice t ''warn'') s)
      | CkText t \<Rightarrow>
          (case tag_feed t (sd_filter sd) of
             (out, f) \<Rightarrow> (sd\<lparr>sd_visible := sd_visible sd @ out, sd_filter := f\<rparr>, if out = [] then s else emit (TextDelta out) s))
      | CkToolCalls calls \<Rightarrow> (sd\<lparr>sd_calls := calls\<rparr>, s)
      | CkUsage p n \<Rightarrow>
          (let s' = on_agent (\<lambda>ag. ag\<lparr>ag_usage := usage_add p n (ag_usage ag)\<rparr>) s; u = ag_usage (tn_agent s') in
           (sd, emit (UsageUpdate (us_prompt_tokens u) (us_completion_tokens u)) s'))
      | CkOther \<Rightarrow> (sd, s))"

definition audit_chunk :: "chunk \<Rightarrow> 'w turn \<Rightarrow> 'w turn" where
  "audit_chunk c s = (case c of CkRetry t \<Rightarrow> on_agent (audit_record AuditRetry) s | _ \<Rightarrow> s)"

text \<open>The Boolean is true when an interrupt broke the loop; then what follows in the stream, its error included, is not seen.\<close>

fun consume :: "'w agent_env \<Rightarrow> (chunk \<times> 'w) list \<Rightarrow> streamed \<Rightarrow> 'w turn \<Rightarrow> bool \<times> streamed \<times> 'w turn" where
  "consume E [] sd s = (False, sd, s)"
| "consume E ((c, w) # cs) sd s =
     (let s1 = (audit_chunk c s)\<lparr>tn_world := w\<rparr> in
      if ae_interrupted E w then (True, sd, s1)
      else (case take_chunk c sd s1 of (sd', s2) \<Rightarrow> consume E cs sd' s2))"

subsection \<open>The loop\<close>

datatype turn_result = Stopped string | Crashed tool_exn

definition done_turn :: "string \<Rightarrow> 'w turn \<Rightarrow> 'w turn" where
  "done_turn reason s =
     emit (TurnDone reason) (on_agent (\<lambda>ag. audit_record (AuditTurnEnd reason) (ag\<lparr>ag_last_stop := reason\<rparr>)) s)"

datatype calls_result = CallsDone "string list" | CallsStopped | CallsCrashed tool_exn

definition interrupted_reply :: "tool_call \<Rightarrow> message" where
  "interrupted_reply c = ToolMsg (tcl_id c) ''Interrupted by user.''"

definition repeat_reply :: tool_end where
  "repeat_reply = \<lparr>te_output = ''You'' @ [CHR 0x27] @ ''ve made this exact call 3 times in a row. Try a different approach or ask the user.'',
     te_is_error = True, te_diff = None\<rparr>"

definition call_signature :: "'w agent_env \<Rightarrow> tool_call \<Rightarrow> string" where
  "call_signature E c = tcl_name c @ ae_dumps E (tcl_args c)"

definition remember_call :: "'w agent_env \<Rightarrow> tool_call \<Rightarrow> string list \<Rightarrow> string list" where
  "remember_call E c recent = (let r = recent @ [call_signature E c] in drop (length r - 3) r)"

definition repeated :: "string list \<Rightarrow> bool" where
  "repeated recent = (length recent = 3 \<and> recent ! 0 = recent ! 1 \<and> recent ! 1 = recent ! 2)"

definition call_step :: "'w agent_env \<Rightarrow> tool_call \<Rightarrow> string list \<Rightarrow> 'w turn \<Rightarrow> tool_exn option \<times> 'w turn" where
  "call_step E c recent s =
     (let s1 = emit (ToolStart c) s;
          reply = (\<lambda>end s.
            let s2 = on_agent (add_message (ToolMsg (tcl_id c) (te_output end)))
                  (emit (ToolEnd (tcl_id c) (tcl_name c) (te_output end) (te_is_error end) (te_diff end)) s)
            in if tcl_name c = ''TodoWrite'' \<and> \<not> te_is_error end
               then emit (TodoUpdate (tc_todos (ag_ctx (tn_agent s2)))) s2 else s2)
      in if repeated recent then (None, reply repeat_reply s1)
         else (case execute E c (tn_agent s1) (tn_world s1) of
             (Inl e, ag', w') \<Rightarrow> (Some e, s1\<lparr>tn_agent := ag', tn_world := w'\<rparr>)
           | (Inr end, ag', w') \<Rightarrow>
               (let s2 = s1\<lparr>tn_agent := ag', tn_world := w'\<rparr>;
                    changed = pp_mode (ag_policy ag') \<noteq> pp_mode (ag_policy (tn_agent s1))
                in (None, reply end (if changed then emit (ModeChanged (mode_value (pp_mode (ag_policy ag')))) s2 else s2)))))"

fun run_calls :: "'w agent_env \<Rightarrow> tool_call list \<Rightarrow> string list \<Rightarrow> 'w turn \<Rightarrow> calls_result \<times> 'w turn" where
  "run_calls E [] recent s = (CallsDone recent, s)"
| "run_calls E (c # cs) recent s =
     (if ae_interrupted E (tn_world s)
      then (CallsStopped, done_turn ''interrupted''
        (on_agent (\<lambda>ag. ag\<lparr>ag_messages := ag_messages ag @ map interrupted_reply (c # cs)\<rparr>) s))
      else (let recent' = remember_call E c recent in
        case call_step E c recent' s of
          (Some e, s') \<Rightarrow> (CallsCrashed e, s')
        | (None, s') \<Rightarrow> run_calls E cs recent' s'))"

definition maybe_compact :: "'w agent_env \<Rightarrow> 'w turn \<Rightarrow> 'w turn" where
  "maybe_compact E s =
     (if int (estimate_tokens E (tn_agent s)) > \<lfloor>real (ae_context_window E) * (8/10)\<rfloor> \<and> length (ag_messages (tn_agent s)) > 4 then
        (case compact E (tn_agent s) (tn_world s) of
           (Inl e, ag', w') \<Rightarrow> s\<lparr>tn_agent := ag', tn_world := w'\<rparr>
         | (Inr t, ag', w') \<Rightarrow>
             emit (Notice ''Context was nearly full; earlier messages were summarized.'' ''warn'') (s\<lparr>tn_agent := ag', tn_world := w'\<rparr>))
      else s)"

text \<open>After the stream: the text held back, calls written as text, and the assistant's message.\<close>

definition close_stream :: "'w agent_env \<Rightarrow> streamed \<Rightarrow> 'w turn \<Rightarrow> string \<times> tool_call list \<times> 'w turn" where
  "close_stream E sd s =
     (case tag_flush (sd_filter sd) of
        (tail, f) \<Rightarrow>
          (sd_visible sd @ tail,
           (if sd_calls sd = [] \<and> tf_hidden f \<noteq> [] then parse_text_tool_calls E (tf_hidden f) else sd_calls sd),
           (if tail = [] then s else emit (TextDelta tail) s)))"

definition wire_messages :: "'w agent_env \<Rightarrow> agent \<Rightarrow> message list" where
  "wire_messages E ag = SystemMsg (ae_system E (pp_mode (ag_policy ag))) # ag_messages ag"

text \<open>The outcome of the request of one step: the stream ended or was broken off, or it failed.\<close>

definition request :: "'w agent_env \<Rightarrow> 'w turn \<Rightarrow> (llm_error + streamed) \<times> 'w turn" where
  "request E s =
     (case chat E (wire_messages E (tn_agent s)) (ae_retry_delays E) 0 (tn_world s) of
        (chunks, err, w') \<Rightarrow>
          (case consume E chunks \<lparr>sd_visible = [], sd_calls = [], sd_filter = tag_filter_new\<rparr> s of
             (True, sd, s') \<Rightarrow> (Inr sd, s')
           | (False, sd, s') \<Rightarrow>
               ((case err of Some e \<Rightarrow> Inl e | None \<Rightarrow> Inr sd), s'\<lparr>tn_world := w'\<rparr>)))"

definition fail_turn :: "string \<Rightarrow> 'w turn \<Rightarrow> turn_result \<times> 'w turn" where
  "fail_turn msg s = (Stopped ''error'', done_turn ''error'' (emit (Notice msg ''error'') (on_agent (audit_record (AuditError (take 300 msg))) s)))"

fun steps :: "'w agent_env \<Rightarrow> nat \<Rightarrow> string list \<Rightarrow> bool \<Rightarrow> 'w turn \<Rightarrow> turn_result \<times> 'w turn" where
  "steps E 0 recent retried s =
     (Stopped ''max_turns'', done_turn ''max_turns''
       (emit (Notice (''Stopped after '' @ digits_of_nat (ae_max_steps E) @ '' steps. Send a message to continue.'') ''warn'') s))"
| "steps E (Suc n) recent retried s =
     (if ae_interrupted E (tn_world s) then (Stopped ''interrupted'', done_turn ''interrupted'' s)
      else (case request E (maybe_compact E s) of
          (Inl err, s1) \<Rightarrow>
            if looks_like_context_overflow (le_message err) \<and> \<not> retried \<and> length (ag_messages (tn_agent s1)) > 2 then
              (case compact E (tn_agent s1) (tn_world s1) of
                 (Inr t, ag', w') \<Rightarrow> steps E n recent True
                   (emit (Notice ''The model rejected the prompt as too long; earlier messages were summarized.'' ''warn'')
                     (s1\<lparr>tn_agent := ag', tn_world := w'\<rparr>))
               | (Inl e, ag', w') \<Rightarrow> fail_turn (le_message err) (s1\<lparr>tn_agent := ag', tn_world := w'\<rparr>))
            else fail_turn (le_message err) s1
        | (Inr sd, s1) \<Rightarrow>
            (case close_stream E sd s1 of
               (visible, calls, s2) \<Rightarrow>
                 if ae_interrupted E (tn_world s2) then
                   (Stopped ''interrupted'', done_turn ''interrupted''
                     (if visible = [] then s2 else on_agent (add_message (AssistantMsg (Some visible) [])) s2))
                 else (let s3 = on_agent (add_message (AssistantMsg (if visible = [] then None else Some visible) calls)) s2 in
                   if calls = [] then (Stopped ''end'', done_turn ''end'' s3)
                   else (case run_calls E calls recent s3 of
                       (CallsStopped, s4) \<Rightarrow> (Stopped ''interrupted'', s4)
                     | (CallsCrashed e, s4) \<Rightarrow> (Crashed e, s4)
                     | (CallsDone recent', s4) \<Rightarrow> steps E n recent' False s4)))))"

text \<open>The \<open>finally\<close> of a turn: the agent is free again and the session is stored.\<close>

definition save_session :: "'w agent_env \<Rightarrow> agent \<Rightarrow> agent" where
  "save_session E ag =
     (if ae_store E \<and> ag_messages ag \<noteq> [] then ag\<lparr>ag_saved := dict_set (ag_saved ag) (ag_session_id ag) (ag_messages ag)\<rparr> else ag)"

definition run_turn :: "'w agent_env \<Rightarrow> string \<Rightarrow> agent \<Rightarrow> 'w \<Rightarrow> turn_result \<times> 'w turn" where
  "run_turn E t ag w =
     (let s0 = \<lparr>tn_agent = ag, tn_world = w, tn_events = []\<rparr> in
      if ag_running ag then
        (Stopped ''error'', done_turn ''error'' (emit (Notice ''The agent is already working. Interrupt it first.'' ''warn'') s0))
      else
        (let ctx = (ag_ctx ag)\<lparr>tc_ws := begin_turn (tc_ws (ag_ctx ag))\<rparr>;
             (prompt, attached, ctx') = expand_mentions t ctx;
             ag1 = add_message (UserMsg prompt) (audit_record (AuditTurnStart (length t) (mode_value (pp_mode (ag_policy ag))))
               (ag\<lparr>ag_running := True, ag_ctx := ctx'\<rparr>));
             s1 = \<lparr>tn_agent = ag1, tn_world = ae_clear_interrupt E w,
               tn_events = (if attached = [] then [] else [Notice (''Attached: '' @ join_with '', '' attached) ''info''])\<rparr>
         in case steps E (ae_max_steps E) [] False s1 of
              (r, s2) \<Rightarrow> (r, on_agent (\<lambda>ag. save_session E (ag\<lparr>ag_running := False\<rparr>)) s2)))"

subsection \<open>The other operations of the agent\<close>

definition clear_agent :: "string \<Rightarrow> agent \<Rightarrow> agent" where
  "clear_agent session ag =
     ag\<lparr>ag_messages := [], ag_session_id := session, ag_usage := usage_new,
        ag_ctx := (ag_ctx ag)\<lparr>tc_todos := [], tc_ws := (tc_ws (ag_ctx ag))\<lparr>ws_read_state := []\<rparr>\<rparr>\<rparr>"

definition load_session :: "string \<Rightarrow> agent \<Rightarrow> (nat \<times> agent) option" where
  "load_session session ag =
     (case map_of (ag_saved ag) session of
        None \<Rightarrow> None
      | Some ms \<Rightarrow> Some (length (filter is_user ms),
          ag\<lparr>ag_messages := ms, ag_session_id := session,
             ag_ctx := (ag_ctx ag)\<lparr>tc_todos := [], tc_ws := (tc_ws (ag_ctx ag))\<lparr>ws_read_state := []\<rparr>\<rparr>\<rparr>))"

definition undo_agent :: "agent \<Rightarrow> (tool_exn + string list) \<times> agent" where
  "undo_agent ag =
     (case undo_last_turn (tc_ws (ag_ctx ag)) (tc_fs (ag_ctx ag)) of
        (r, ws', fs') \<Rightarrow> (r, ag\<lparr>ag_ctx := (ag_ctx ag)\<lparr>tc_ws := ws', tc_fs := fs'\<rparr>\<rparr>))"

end
