(* ===== verification/AgentSafety.thy ===== *)
theory AgentSafety
  imports AgentLoop
begin

text \<open>
  What holds of every turn of the coding agent, whatever the model answers: which calls run, what they may touch, and that
  the conversation stays one that a model server accepts. A turn changes policy and tool context through executed calls
  only, so a reflexive and transitive relation that every call respects holds across the turn.
\<close>

subsection \<open>Effects of the tools\<close>

definition shell_effect :: "tool_env \<Rightarrow> string \<Rightarrow> file_system \<Rightarrow> file_system \<Rightarrow> bool" where
  "shell_effect env c fs fs' \<longleftrightarrow> (\<exists>environ cwd timeout. fs' = snd (te_shell env environ cwd c timeout fs))"

definition same_roots :: "workspace \<Rightarrow> workspace \<Rightarrow> bool" where
  "same_roots ws ws' \<longleftrightarrow> ws_root ws' = ws_root ws \<and> ws_extra_dirs ws' = ws_extra_dirs ws"

definition write_effect :: "workspace \<Rightarrow> file_system \<Rightarrow> file_system \<Rightarrow> bool" where
  "write_effect ws fs fs' \<longleftrightarrow> (\<exists>p. inside ws p \<and> \<not> is_protected p \<and> (\<forall>q. q \<noteq> p \<longrightarrow> content fs' q = content fs q))"

lemma inside_same_roots: "same_roots ws ws' \<Longrightarrow> inside ws' p = inside ws p"
  by (simp add: same_roots_def inside_def allowed_roots_def)

lemma write_effect_same_roots: "same_roots ws ws' \<Longrightarrow> write_effect ws' = write_effect ws"
  by (simp add: write_effect_def inside_same_roots fun_eq_iff)

lemma mark_read_keeps [simp]:
  "same_roots ws (mark_read fs p ws)" "ws_checkpoints (mark_read fs p ws) = ws_checkpoints ws" "ws_turn (mark_read fs p ws) = ws_turn ws"
  by (simp_all add: same_roots_def mark_read_def split: option.splits)

lemma same_roots_refl [simp]: "same_roots ws ws"
  by (simp add: same_roots_def)

lemma write_atomic_same_roots: "write_atomic p data ws fs = (r, ws', fs') \<Longrightarrow> same_roots ws ws'"
  by (auto simp: write_atomic_def Let_def same_roots_def mark_read_def split: sum.splits if_splits option.splits)

lemma write_atomic_content: "write_atomic p data ws fs = (r, ws', fs') \<Longrightarrow> q \<noteq> p \<Longrightarrow> content fs' q = content fs q"
  by (auto simp: write_atomic_def mkdir_parents_def put_file_def content_def Let_def split: if_splits sum.splits)

lemma ws_resolve_inside: "ws_resolve ws fs raw = Inr p \<Longrightarrow> inside ws p"
  by (auto simp: ws_resolve_def Let_def try_then_eq_Inr split: json.splits if_splits)

lemma ctx_write_effect:
  assumes "ctx_write p data out ctx = (r, ctx')" "inside (tc_ws ctx) p" "\<not> is_protected p"
  shows "write_effect (tc_ws ctx) (tc_fs ctx) (tc_fs ctx') \<and> same_roots (tc_ws ctx) (tc_ws ctx')"
proof -
  obtain r1 ws' fs' where w: "write_atomic p data (tc_ws ctx) (tc_fs ctx) = (r1, ws', fs')" by (metis prod_cases3)
  then have "ctx' = ctx\<lparr>tc_ws := ws', tc_fs := fs'\<rparr>" using assms(1) by (simp add: ctx_write_def)
  moreover have "write_effect (tc_ws ctx) (tc_fs ctx) fs'"
    using write_atomic_content [OF w] assms(2,3) unfolding write_effect_def by blast
  ultimately show ?thesis using write_atomic_same_roots [OF w] by simp
qed

lemma ctx_write_done:
  assumes "ctx_write p data out ctx = (Inr r, ctx')"
  shows "content (tc_fs ctx') p = Some data" "q \<noteq> p \<Longrightarrow> content (tc_fs ctx') q = content (tc_fs ctx) q"
proof -
  obtain e ws' fs' where w: "write_atomic p data (tc_ws ctx) (tc_fs ctx) = (e, ws', fs')" by (metis prod_cases3)
  have e: "e = None" "ctx' = ctx\<lparr>tc_ws := ws', tc_fs := fs'\<rparr>" using assms w by (auto simp: ctx_write_def split: option.splits)
  show "content (tc_fs ctx') p = Some data" using w e
    by (auto simp: write_atomic_def put_file_def content_def Let_def split: sum.splits if_splits)
  show "q \<noteq> p \<Longrightarrow> content (tc_fs ctx') q = content (tc_fs ctx) q" using write_atomic_content [OF w] e by simp
qed

lemma check_write_InrD:
  assumes "check_write args ctx = Inr (p, data, old)"
  shows "inside (tc_ws ctx) p" "\<not> is_protected p"
    "path_exists (tc_fs ctx) p \<Longrightarrow> ensure_fresh (tc_ws ctx) (tc_fs ctx) p = Inr ()"
  using assms by (auto simp: check_write_def Let_def try_then_eq_Inr split: option.splits if_splits dest: ws_resolve_inside)

lemma check_edit_InrD:
  assumes "check_edit args ctx = Inr (p, old_t, new_t, t)"
  shows "ws_resolve (tc_ws ctx) (tc_fs ctx) (dict_get args ''path'' (JStr [])) = Inr p" "\<not> is_protected p"
    "\<exists>old_s new_s. str_arg args ''old_string'' = Some old_s \<and> str_arg args ''new_string'' = Some new_s \<and>
       old_t = points old_s \<and> new_t = points new_s \<and> old_s \<noteq> []"
    "ensure_fresh (tc_ws ctx) (tc_fs ctx) p = Inr ()" "read_text (tc_fs ctx) p = Inr t"
proof -
  let ?o = "str_arg args ''old_string''" and ?n = "str_arg args ''new_string''"
  obtain q where q: "ws_resolve (tc_ws ctx) (tc_fs ctx) (dict_get args ''path'' (JStr [])) = Inr q"
    using assms by (cases "ws_resolve (tc_ws ctx) (tc_fs ctx) (dict_get args ''path'' (JStr []))") (simp_all add: check_edit_def try_then_def)
  have "?o \<noteq> None" "?n \<noteq> None"
    using assms q by (cases ?o; cases ?n; simp add: check_edit_def try_then_def)+
  then obtain a b where ab: "?o = Some a" "?n = Some b" by blast
  note e = assms [unfolded check_edit_def Let_def q ab, simplified try_then_def sum.case option.case prod.case]
  have np: "\<not> is_protected q" and d: "a \<noteq> b" and ne: "a \<noteq> []" using e by (simp_all split: if_splits)
  note f = e [simplified np d ne if_False]
  obtain fr where fr: "ensure_fresh (tc_ws ctx) (tc_fs ctx) q = Inr fr" using f by (cases "ensure_fresh (tc_ws ctx) (tc_fs ctx) q") simp_all
  obtain tx where tx: "read_text (tc_fs ctx) q = Inr tx" using f fr by (cases "read_text (tc_fs ctx) q") simp_all
  have eq: "p = q" "old_t = points a" "new_t = points b" "t = tx" using f fr tx by simp_all
  show "ws_resolve (tc_ws ctx) (tc_fs ctx) (dict_get args ''path'' (JStr [])) = Inr p" "\<not> is_protected p"
    "ensure_fresh (tc_ws ctx) (tc_fs ctx) p = Inr ()" "read_text (tc_fs ctx) p = Inr t"
    using q np fr tx eq by simp_all
  show "\<exists>old_s new_s. ?o = Some old_s \<and> ?n = Some new_s \<and> old_t = points old_s \<and> new_t = points new_s \<and> old_s \<noteq> []"
    using ab ne eq by simp
qed

text \<open>A context after a tool: files as before, a shell command, or a write inside the workspace.\<close>

definition tool_effect :: "tool_env \<Rightarrow> tool \<Rightarrow> jobj \<Rightarrow> tool_ctx \<Rightarrow> tool_ctx \<Rightarrow> bool" where
  "tool_effect env t args ctx ctx' \<longleftrightarrow> same_roots (tc_ws ctx) (tc_ws ctx') \<and>
     (tc_fs ctx' = tc_fs ctx \<and> ws_checkpoints (tc_ws ctx') = ws_checkpoints (tc_ws ctx)
      \<or> tl_category t = CatExec \<and> shell_effect env (command_of env args) (tc_fs ctx) (tc_fs ctx') \<and>
        ws_checkpoints (tc_ws ctx') = ws_checkpoints (tc_ws ctx)
      \<or> tl_category t = CatEdit \<and> write_effect (tc_ws ctx) (tc_fs ctx) (tc_fs ctx'))"

lemma tool_effect_refl [simp]: "tool_effect env t args ctx ctx"
  by (simp add: tool_effect_def)

lemma tool_read_effect: "tool_read env args ctx = (r, ctx') \<Longrightarrow> tool_effect env t args ctx ctx'"
  by (auto simp: tool_read_def tool_effect_def Let_def split: sum.splits prod.splits)

lemma tool_write_cases:
  "tool_write env args ctx = (r, ctx') \<Longrightarrow>
   ctx' = ctx \<or> (\<exists>p data old out. check_write args ctx = Inr (p, data, old) \<and> ctx_write p (utf8_encode (points data)) out ctx = (r, ctx'))"
  by (auto simp: tool_write_def Let_def split: sum.splits)

lemma tool_edit_cases:
  "tool_edit env args ctx = (r, ctx') \<Longrightarrow>
   ctx' = ctx \<or> (\<exists>p old_s new_s t data out. check_edit args ctx = Inr (p, old_s, new_s, t) \<and> py_count t old_s \<noteq> 0 \<and>
     data = utf8_encode (py_replace t old_s new_s (if truthy (dict_get args ''replace_all'' (JBool False)) then None else Some 1)) \<and>
     (py_count t old_s > 1 \<longrightarrow> truthy (dict_get args ''replace_all'' (JBool False))) \<and> ctx_write p data out ctx = (r, ctx'))"
  by (auto simp: tool_edit_def Let_def split: sum.splits if_splits)

lemma tool_write_effect:
  assumes "tool_write env args ctx = (r, ctx')" "tl_category t = CatEdit"
  shows "tool_effect env t args ctx ctx'"
  using tool_write_cases [OF assms(1)]
proof (elim disjE exE conjE)
  fix p data old out
  assume c: "check_write args ctx = Inr (p, data, old)" and w: "ctx_write p (utf8_encode (points data)) out ctx = (r, ctx')"
  from ctx_write_effect [OF w check_write_InrD(1,2) [OF c]] show ?thesis using assms(2) by (simp add: tool_effect_def)
qed simp

lemma tool_edit_effect:
  assumes "tool_edit env args ctx = (r, ctx')" "tl_category t = CatEdit"
  shows "tool_effect env t args ctx ctx'"
  using tool_edit_cases [OF assms(1)]
proof (elim disjE exE conjE)
  fix p old_s new_s tx data out
  assume c: "check_edit args ctx = Inr (p, old_s, new_s, tx)" and w: "ctx_write p data out ctx = (r, ctx')"
  from ctx_write_effect [OF w ws_resolve_inside [OF check_edit_InrD(1) [OF c]] check_edit_InrD(2) [OF c]] show ?thesis using assms(2) by (simp add: tool_effect_def)
qed simp

lemma shell_effectI: "te_shell env environ cwd c timeout fs = (r, fs') \<Longrightarrow> shell_effect env c fs fs'"
  unfolding shell_effect_def by (metis snd_conv)

lemma tool_bash_effect:
  assumes "tool_bash env args ctx = (r, ctx')" "tl_category t = CatExec"
  shows "tool_effect env t args ctx ctx'"
proof (cases "str_arg args ''command''")
  case None
  then show ?thesis using assms by (simp add: tool_bash_def)
next
  case (Some c)
  then have c: "command_of env args = c"
    by (auto simp: str_arg_def command_of_def dict_get_def split: option.splits json.splits)
  have "ctx' = ctx \<or> (\<exists>fs'. ctx' = ctx\<lparr>tc_fs := fs'\<rparr> \<and> shell_effect env c (tc_fs ctx) fs')"
    using assms(1) Some by (auto simp: tool_bash_def Let_def split: sum.splits prod.splits if_splits intro: shell_effectI)
  then show ?thesis using assms(2) c by (auto simp: tool_effect_def)
qed

lemma default_tool_effect:
  assumes "map_of default_tools n = Some t" "tl_func t env args ctx = (r, ctx')"
  shows "tool_effect env t args ctx ctx'" "tl_name t = n"
proof -
  have "(n, t) \<in> set default_tools" using assms(1) by (rule map_of_SomeD)
  then consider (r) "tl_func t = tool_read" "n = tl_name t" | (w) "tl_func t = tool_write" "tl_category t = CatEdit" "n = tl_name t"
    | (e) "tl_func t = tool_edit" "tl_category t = CatEdit" "n = tl_name t" | (s) w where "tl_func t = tool_search w" "n = tl_name t"
    | (b) "tl_func t = tool_bash" "tl_category t = CatExec" "n = tl_name t" | (t) "tl_func t = tool_todo" "n = tl_name t"
    | (x) "tl_func t = tool_exit_plan" "n = tl_name t"
    by (auto simp: default_tools_def)
  then have "tool_effect env t args ctx ctx' \<and> tl_name t = n"
  proof cases
    case t
    then show ?thesis using assms(2)
      by (auto simp: tool_todo_def tool_effect_def split: option.splits json.splits sum.splits if_splits)
  qed (use assms(2) tool_read_effect tool_write_effect tool_edit_effect tool_bash_effect in
      \<open>auto simp: tool_search_def tool_exit_plan_def\<close>)
  then show "tool_effect env t args ctx ctx'" "tl_name t = n" by simp_all
qed

subsection \<open>Which calls run\<close>

lemma fail_call_keeps: "fail_call call msg decision ag w = (r, ag', w') \<Longrightarrow> ag' = ag\<lparr>ag_audit := ag_audit ag'\<rparr>"
  by (auto simp: finish_call_def fail_call_def audit_record_def)

lemma run_tool_agent:
  assumes "run_tool E t call args decision ag w = (r, ag', w')"
  shows "\<exists>res ctx'. tl_func t (ae_env E) args (ag_ctx ag) = (res, ctx') \<and> ag' = ag\<lparr>ag_ctx := ctx', ag_audit := ag_audit ag'\<rparr>"
proof -
  obtain res ctx' where f: "tl_func t (ae_env E) args (ag_ctx ag) = (res, ctx')" by fastforce
  have "ag' = (ag\<lparr>ag_ctx := ctx'\<rparr>)\<lparr>ag_audit := ag_audit ag'\<rparr>"
  proof (cases res)
    case (Inl e)
    then show ?thesis using assms f
      by (cases e) (auto simp: run_tool_def fail_call_def finish_call_def audit_record_def)
  next
    case (Inr out)
    then show ?thesis using assms f
      by (auto simp: run_tool_def Let_def finish_call_def audit_record_def split: prod.splits)
  qed
  with f show ?thesis by auto
qed

definition approved_by :: "(permission_request \<Rightarrow> 'w \<Rightarrow> answer \<times> 'w) \<Rightarrow> string \<Rightarrow> jobj \<Rightarrow> answer \<Rightarrow> bool" where
  "approved_by ask name args ans \<longleftrightarrow> ans \<in> {AllowOnce, AllowSession} \<and>
     (\<exists>req w w'. pr_tool req = name \<and> pr_args req = args \<and> ask req w = (ans, w'))"

text \<open>Either nothing but the audit trail changes, or the named tool runs with the permission of the policy or of the user.\<close>

lemma ask_and_run_cases:
  assumes "ask_and_run E t call args reason ag w = (r, ag', w')"
  obtains (refused) "ag' = ag\<lparr>ag_audit := ag_audit ag'\<rparr>"
  | (ran) ask ans decision w1 where "ae_ask E = Some ask" "approved_by ask (tl_name t) args ans"
      "run_tool E t call args decision (approve E t args (ans = AllowSession) ag) w1 = (r, ag', w')"
proof (cases "ae_ask E")
  case None
  then show thesis using assms refused fail_call_keeps by (fastforce simp: ask_and_run_def)
next
  case (Some ask)
  show thesis
  proof (cases "preview (ae_env E) t args (ag_ctx ag)")
    case (Inl e)
    then show thesis using assms Some refused by (simp add: ask_and_run_def)
  next
    case (Inr sd)
    obtain summary diff where sd: "sd = (summary, diff)" by (cases sd)
    let ?req = "\<lparr>pr_id = tcl_id call, pr_tool = tl_name t, pr_args = args, pr_summary = summary, pr_diff = diff, pr_reason = reason\<rparr>"
    obtain ans w1 where a: "ask ?req w = (ans, w1)" by fastforce
    have app: "ans \<in> {AllowOnce, AllowSession} \<Longrightarrow> approved_by ask (tl_name t) args ans"
      using a unfolding approved_by_def by (intro conjI exI [of _ ?req] exI [of _ w] exI [of _ w1]) simp_all
    have ref: "fail_call call msg d ag w1 = (r, ag', w') \<Longrightarrow> thesis" for msg d
      by (rule refused, drule fail_call_keeps)
    show thesis
    proof (cases "ae_interrupted E w1")
      case True
      then show thesis using assms Some Inr sd a ref by (cases ans) (auto simp: ask_and_run_def)
    next
      case False
      note e = assms Some Inr sd a False
      show thesis
      proof (cases ans)
        case AllowOnce
        then show thesis using e app ran [OF Some, of ans "''user_allow''" w1] by (simp add: ask_and_run_def)
      next
        case AllowSession
        then show thesis using e app ran [OF Some, of ans "''user_allow_session''" w1] by (simp add: ask_and_run_def)
      qed (use e ref in \<open>auto simp: ask_and_run_def\<close>)
    qed
  qed
qed

lemma execute_cases:
  assumes "execute E call ag w = (r, ag', w')"
  obtains (refused) "ag' = ag\<lparr>ag_audit := ag_audit ag'\<rparr>"
  | (ran) t args v ag1 decision w1 where "map_of (ae_tools E) (tcl_name call) = Some t" "validate_args t (tcl_args call) = Inr args"
      "check (ae_env E) (ag_policy ag) t args (ag_ctx ag) = Inr v" "run_tool E t call args decision ag1 w1 = (r, ag', w')"
      "vd_action v = Allow \<and> ag1 = ag \<or>
       vd_action v = Ask \<and> (\<exists>ask ans. ae_ask E = Some ask \<and> approved_by ask (tl_name t) args ans \<and>
         ag1 = approve E t args (ans = AllowSession) ag)"
proof (cases "map_of (ae_tools E) (tcl_name call)")
  case None
  then show thesis using assms refused fail_call_keeps by (fastforce simp: execute_def)
next
  case (Some t)
  have ref: "fail_call call msg d ag w1 = (r, ag', w') \<Longrightarrow> thesis" for msg d w1
    by (rule refused, drule fail_call_keeps)
  show thesis
  proof (cases "validate_args t (tcl_args call)")
    case (Inl e)
    then show thesis using assms Some ref refused by (cases e) (auto simp: execute_def)
  next
    case (Inr args)
    obtain pre w1 where pre: "pre_tool E (tl_name t) args ag w = (pre, w1)" by fastforce
    show thesis
    proof (cases "hr_blocked pre")
      case True
      then show thesis using assms Some Inr pre ref by (simp add: execute_def)
    next
      case nb: False
      show thesis
      proof (cases "check (ae_env E) (ag_policy ag) t args (ag_ctx ag)")
        case (Inl e)
        then show thesis using assms Some Inr pre nb refused by (simp add: execute_def)
      next
        case v: (Inr v)
        note e = assms Some Inr pre nb v
        show thesis
        proof (cases "vd_action v")
          case Allow
          then have "run_tool E t call args ''auto'' ag w1 = (r, ag', w')" using e by (simp add: execute_def)
          then show thesis using ran [OF Some Inr v] Allow by blast
        next
          case Ask
          then have "ask_and_run E t call args (vd_reason v) ag w1 = (r, ag', w')" using e by (simp add: execute_def)
          then show thesis
          proof (cases rule: ask_and_run_cases)
            case ans_refused: refused
            then show ?thesis by (rule refused)
          next
            case ans_ran: (ran ask ans decision w2)
            then show ?thesis using ran [OF Some Inr v] Ask by blast
          qed
        next
          case Deny
          then show thesis using e ref by (simp add: execute_def)
        qed
      qed
    qed
  qed
qed

lemma check_hard_deny:
  "check env pp t args ctx = Inr v \<Longrightarrow> vd_action v \<noteq> Deny \<Longrightarrow> tl_category t = CatExec \<Longrightarrow> hard_deny_reason (command_of env args) = None"
  by (auto simp: check_def Let_def split: if_splits)

lemma check_deny_rule:
  "check env pp t args ctx = Inr v \<Longrightarrow> vd_action v \<noteq> Deny \<Longrightarrow> \<not> list_ex (\<lambda>r. rule_matches env r t args) (pp_deny_rules pp)"
  by (auto simp: check_def Let_def split: if_splits)

lemma check_plan_mode:
  assumes "check env pp t args ctx = Inr v" "pp_mode pp = ModePlan"
  shows "vd_action v = Ask \<Longrightarrow> tl_category t = CatPlan"
    and "vd_action v = Allow \<Longrightarrow> tl_category t \<in> {CatRead, CatMeta} \<or> tl_category t = CatExec \<and> is_readonly_command (command_of env args)"
  using assms by (auto simp: check_def Let_def split: if_splits)

subsection \<open>From calls to turns\<close>

definition core :: "agent \<Rightarrow> policy \<times> tool_ctx" where
  "core ag = (ag_policy ag, ag_ctx ag)"

lemma core_simps [simp]:
  "core (audit_record e ag) = core ag" "core (add_message m ag) = core ag" "core (ag\<lparr>ag_messages := ms\<rparr>) = core ag"
  "core (ag\<lparr>ag_audit := au\<rparr>) = core ag" "core (ag\<lparr>ag_usage := u\<rparr>) = core ag" "core (ag\<lparr>ag_last_stop := r\<rparr>) = core ag"
  "core (ag\<lparr>ag_running := b\<rparr>) = core ag" "core (save_session E ag) = core ag"
  by (simp_all add: core_def audit_record_def add_message_def save_session_def)

lemma done_turn_core [simp]: "core (tn_agent (done_turn r s)) = core (tn_agent s)"
  by (simp add: done_turn_def)

lemma fail_turn_core [simp]: "core (tn_agent (snd (fail_turn m s))) = core (tn_agent s)"
  by (simp add: fail_turn_def)

lemma compact_core: "compact E ag w = (r, ag', w') \<Longrightarrow> core ag' = core ag"
  by (auto simp: compact_def Let_def split: prod.splits option.splits if_splits)

lemma maybe_compact_core [simp]: "core (tn_agent (maybe_compact E s)) = core (tn_agent s)"
  by (auto simp: maybe_compact_def dest: compact_core split: prod.splits sum.splits)

lemma audit_chunk_core [simp]: "core (tn_agent (audit_chunk c s)) = core (tn_agent s)"
  by (simp add: audit_chunk_def split: chunk.splits)

lemma take_chunk_core: "take_chunk c sd s = (sd', s') \<Longrightarrow> core (tn_agent s') = core (tn_agent s)"
  by (auto simp: take_chunk_def Let_def split: chunk.splits prod.splits if_splits)

lemma consume_core: "consume E cs sd s = (b, sd', s') \<Longrightarrow> core (tn_agent s') = core (tn_agent s)"
proof (induction E cs sd s rule: consume.induct)
  case (2 E c w cs sd s)
  obtain sd2 s2 where t: "take_chunk c sd ((audit_chunk c s)\<lparr>tn_world := w\<rparr>) = (sd2, s2)" by fastforce
  show ?case
  proof (cases "ae_interrupted E w")
    case True
    then show ?thesis using "2.prems" by (auto simp: Let_def)
  next
    case False
    then have "core (tn_agent s') = core (tn_agent s2)" using "2.IH" [OF refl False t [symmetric]] "2.prems" t by simp
    then show ?thesis using take_chunk_core [OF t] by simp
  qed
qed simp

lemma request_core: "request E s = (r, s') \<Longrightarrow> core (tn_agent s') = core (tn_agent s)"
  by (auto simp: request_def dest: consume_core split: prod.splits bool.splits)

lemma close_stream_core: "close_stream E sd s = (v, calls, s') \<Longrightarrow> core (tn_agent s') = core (tn_agent s)"
  by (auto simp: close_stream_def split: prod.splits if_splits)

lemma call_step_core:
  assumes "call_step E c recent s = (r, s')"
  shows "core (tn_agent s') = core (tn_agent s) \<or>
    (\<exists>res ag' w'. execute E c (tn_agent s) (tn_world s) = (res, ag', w') \<and> core (tn_agent s') = core ag')"
proof (cases "repeated recent")
  case True
  then show ?thesis using assms by (auto simp: call_step_def Let_def)
next
  case False
  obtain res ag' w' where e: "execute E c (tn_agent s) (tn_world s) = (res, ag', w')" by (metis prod_cases3)
  have "core (tn_agent s') = core ag'" using assms False e by (cases res) (auto simp: call_step_def Let_def)
  with e show ?thesis by blast
qed

text \<open>The context in which a turn starts: a new turn of the workspace, with the mentioned files marked as read.\<close>

lemma expand_from_keeps:
  "expand_from ms attached blocks ws fs = (a, b, ws') \<Longrightarrow> same_roots ws ws' \<and> ws_checkpoints ws' = ws_checkpoints ws"
proof (induction ms arbitrary: attached blocks ws)
  case (Cons m ms)
  have keep: "same_roots (mark_read fs p ws) x \<longleftrightarrow> same_roots ws x" for p x
    by (simp add: same_roots_def mark_read_def split: option.splits)
  show ?case using Cons.prems
    by (auto simp: Let_def keep dest!: Cons.IH split: if_splits sum.splits option.splits)
qed simp

text \<open>A relation between states of policy and tool context that every executed call respects is respected by every turn.\<close>

locale turn_relation =
  fixes E :: "'w agent_env" and R :: "policy \<times> tool_ctx \<Rightarrow> policy \<times> tool_ctx \<Rightarrow> bool"
  assumes R_refl: "R x x" and R_trans: "R x y \<Longrightarrow> R y z \<Longrightarrow> R x z"
    and R_execute: "execute E c ag w = (r, ag', w') \<Longrightarrow> R (core ag) (core ag')"
begin

lemma run_calls_respects:
  "run_calls E cs recent s = (r, s') \<Longrightarrow> R (core (tn_agent s)) (core (tn_agent s'))"
proof (induction cs arbitrary: recent s)
  case Nil
  then show ?case using R_refl by simp
next
  case (Cons c cs)
  show ?case
  proof (cases "ae_interrupted E (tn_world s)")
    case True
    then show ?thesis using Cons.prems R_refl [of "core (tn_agent s)"] by auto
  next
    case False
    obtain o1 s1 where c1: "call_step E c (remember_call E c recent) s = (o1, s1)" by fastforce
    have R1: "R (core (tn_agent s)) (core (tn_agent s1))"
      using call_step_core [OF c1] R_refl R_execute by metis
    show ?thesis
    proof (cases o1)
      case None
      then have "run_calls E cs (remember_call E c recent) s1 = (r, s')" using Cons.prems False c1 by (simp add: Let_def)
      from R_trans [OF R1 Cons.IH [OF this]] show ?thesis .
    next
      case (Some e)
      then show ?thesis using Cons.prems False c1 R1 by (auto simp: Let_def)
    qed
  qed
qed

lemma steps_respects:
  "R (core (tn_agent s)) (core (tn_agent (snd (steps E n recent retried s))))"
proof (induction n arbitrary: recent retried s)
  case 0
  show ?case using R_refl by simp
next
  case (Suc n)
  note refl = R_refl
  obtain r1 s1 where q: "request E (maybe_compact E s) = (r1, s1)" by fastforce
  have c1: "core (tn_agent s1) = core (tn_agent s)" using request_core [OF q] by simp
  show ?case
  proof (cases "ae_interrupted E (tn_world s)")
    case True
    then show ?thesis using refl by simp
  next
    case ni: False
    show ?thesis
    proof (cases r1)
      case (Inl err)
      obtain r2 ag2 w2 where k: "compact E (tn_agent s1) (tn_world s1) = (r2, ag2, w2)" by (metis prod_cases3)
      let ?s2 = "s1\<lparr>tn_agent := ag2, tn_world := w2\<rparr>"
      show ?thesis
        using ni q Inl k compact_core [OF k] c1 refl [of "core (tn_agent s)"]
          Suc.IH [of "emit (Notice ''The model rejected the prompt as too long; earlier messages were summarized.'' ''warn'') ?s2" recent True]
        by (simp split: sum.splits)
    next
      case (Inr sd)
      obtain v calls s2 where cl: "close_stream E sd s1 = (v, calls, s2)" by (metis prod_cases3)
      have c2: "core (tn_agent s2) = core (tn_agent s)" using close_stream_core [OF cl] c1 by simp
      define s3 where "s3 = on_agent (add_message (AssistantMsg (if v = [] then None else Some v) calls)) s2"
      have c3: "core (tn_agent s3) = core (tn_agent s)" by (simp add: s3_def c2)
      obtain r4 s4 where rc: "run_calls E calls recent s3 = (r4, s4)" by fastforce
      have R4: "R (core (tn_agent s)) (core (tn_agent s4))" using run_calls_respects [OF rc] c3 by simp
      have R5: "R (core (tn_agent s)) (core (tn_agent (snd (steps E n rec' False s4))))" for rec'
        using R_trans [OF R4 Suc.IH] .
      show ?thesis
      proof (cases "ae_interrupted E (tn_world s2)")
        case True
        then show ?thesis using ni q Inr cl c2 refl [of "core (tn_agent s)"] by simp
      next
        case False
        then show ?thesis using ni q Inr cl rc c3 refl [of "core (tn_agent s)"] R4 R5
          by (simp add: Let_def s3_def [symmetric] split: calls_result.splits)
      qed
    qed
  qed
qed

lemma run_turn_respects:
  obtains ws where "same_roots (tc_ws (ag_ctx ag)) ws" "ws_checkpoints ws = ws_checkpoints (tc_ws (ag_ctx ag))"
    "R (ag_policy ag, (ag_ctx ag)\<lparr>tc_ws := ws\<rparr>) (core (tn_agent (snd (run_turn E t ag w))))"
proof (cases "ag_running ag")
  case True
  show thesis using R_refl True
    by (intro that [of "tc_ws (ag_ctx ag)"]) (simp_all add: run_turn_def done_turn_def core_def audit_record_def)
next
  case False
  obtain attached blocks ws where x: "expand_from (re_finditer MENTION t) [] [] (begin_turn (tc_ws (ag_ctx ag))) (tc_fs (ag_ctx ag)) = (attached, blocks, ws)"
    by (metis prod_cases3)
  let ?ctx = "(ag_ctx ag)\<lparr>tc_ws := ws\<rparr>"
  have k: "same_roots (begin_turn (tc_ws (ag_ctx ag))) ws \<and> ws_checkpoints ws = ws_checkpoints (begin_turn (tc_ws (ag_ctx ag)))"
    by (rule expand_from_keeps [OF x])
  define s1 where "s1 = \<lparr>tn_agent = add_message (UserMsg (if blocks = [] then t else t @ line_feed @ line_feed @ join_with line_feed blocks))
      (audit_record (AuditTurnStart (length t) (mode_value (pp_mode (ag_policy ag)))) (ag\<lparr>ag_running := True, ag_ctx := ?ctx\<rparr>)),
    tn_world = ae_clear_interrupt E w,
    tn_events = (if attached = [] then [] else [Notice (''Attached: '' @ join_with '', '' attached) ''info''])\<rparr>"
  obtain res s2 where st: "steps E (ae_max_steps E) [] False s1 = (res, s2)" by fastforce
  have "core (tn_agent s1) = (ag_policy ag, ?ctx)" by (simp add: s1_def core_def add_message_def audit_record_def)
  then have "R (ag_policy ag, ?ctx) (core (tn_agent s2))"
    using steps_respects [of s1 "ae_max_steps E" "[]" False] st by simp
  moreover have "tn_agent (snd (run_turn E t ag w)) = save_session E ((tn_agent s2)\<lparr>ag_running := False\<rparr>)"
    using False x st by (simp add: run_turn_def Let_def expand_mentions_def s1_def [symmetric])
  ultimately have "R (ag_policy ag, ?ctx) (core (tn_agent (snd (run_turn E t ag w))))" by simp
  then show thesis using k
    by (intro that [of ws]) (simp_all add: begin_turn_def same_roots_def)
qed

end

subsection \<open>What runs, and what it touches\<close>

lemma check_sensitive:
  assumes "check env pp t args ctx = Inr v" "vd_action v = Allow" "sensitive_edit env t args ctx = Inr True" "tl_category t = CatEdit"
  shows "pp_mode pp = ModeBypass \<and> pp_allow_bypass pp"
  using assms by (auto simp: check_def Let_def split: if_splits)

text \<open>
  C21: A call of the model touches files or the agent's notes only if its tool is registered, its arguments are valid, and
  the policy allows it or asks and the user approves this very call. Whatever the mode, it is then no command on the list of
  forbidden ones and matches no deny rule; and a sensitive file is edited only with the user's approval, except in bypass mode.
\<close>
theorem calls_run_only_with_permission:
  assumes "execute E call ag w = (r, ag', w')" "ag_ctx ag' \<noteq> ag_ctx ag"
  shows "\<exists>t args v. map_of (ae_tools E) (tcl_name call) = Some t \<and> validate_args t (tcl_args call) = Inr args \<and>
    check (ae_env E) (ag_policy ag) t args (ag_ctx ag) = Inr v \<and> ag_ctx ag' = snd (tl_func t (ae_env E) args (ag_ctx ag)) \<and>
    \<not> list_ex (\<lambda>rule. rule_matches (ae_env E) rule t args) (pp_deny_rules (ag_policy ag)) \<and>
    (tl_category t = CatExec \<longrightarrow> hard_deny_reason (command_of (ae_env E) args) = None) \<and>
    (vd_action v = Allow \<and>
       (tl_category t = CatEdit \<and> sensitive_edit (ae_env E) t args (ag_ctx ag) = Inr True \<longrightarrow>
          pp_mode (ag_policy ag) = ModeBypass \<and> pp_allow_bypass (ag_policy ag)) \<or>
     vd_action v = Ask \<and> (\<exists>ask ans. ae_ask E = Some ask \<and> approved_by ask (tl_name t) args ans))"
  using assms(1)
proof (cases rule: execute_cases)
  case refused
  then have "ag_ctx ag' = ag_ctx ag" by (metis agent.select_convs(2) agent.surjective agent.update_convs(4))
  then show ?thesis using assms(2) by contradiction
next
  case (ran t args v ag1 decision w1)
  from run_tool_agent [OF ran(4)] obtain res ctx' where f: "tl_func t (ae_env E) args (ag_ctx ag1) = (res, ctx')"
    and ag': "ag' = ag1\<lparr>ag_ctx := ctx', ag_audit := ag_audit ag'\<rparr>" by blast
  have c1: "ag_ctx ag1 = ag_ctx ag" using ran(5) by (auto simp: approve_def)
  have c: "ag_ctx ag' = snd (tl_func t (ae_env E) args (ag_ctx ag))"
    using f c1 arg_cong [OF ag', of ag_ctx] by simp
  have "vd_action v \<noteq> Deny" using ran(5) by auto
  note deny = check_deny_rule [OF ran(3) this] check_hard_deny [OF ran(3) this]
  show ?thesis
    by (intro exI [of _ t] exI [of _ args] exI [of _ v] conjI) (use ran c deny check_sensitive [OF ran(3)] in blast)+
qed

text \<open>One step of the files under the agent: a command that is not forbidden, or one file of the workspace outside \<open>.git\<close>.\<close>

definition confined :: "tool_env \<Rightarrow> workspace \<Rightarrow> file_system \<Rightarrow> file_system \<Rightarrow> bool" where
  "confined env ws fs fs' \<longleftrightarrow> (\<exists>c. hard_deny_reason c = None \<and> shell_effect env c fs fs') \<or> write_effect ws fs fs'"

lemma confined_same_roots: "same_roots ws ws' \<Longrightarrow> confined env ws' = confined env ws"
  by (simp add: confined_def write_effect_same_roots fun_eq_iff)

lemma same_roots_trans [trans]: "same_roots a b \<Longrightarrow> same_roots b c \<Longrightarrow> same_roots a c"
  by (simp add: same_roots_def)

definition confined_core :: "tool_env \<Rightarrow> policy \<times> tool_ctx \<Rightarrow> policy \<times> tool_ctx \<Rightarrow> bool" where
  "confined_core env x y \<longleftrightarrow> same_roots (tc_ws (snd x)) (tc_ws (snd y)) \<and>
     (confined env (tc_ws (snd x)))\<^sup>*\<^sup>* (tc_fs (snd x)) (tc_fs (snd y))"

lemma tool_effect_confined:
  assumes "tool_effect env t args ctx ctx'" "tl_category t = CatExec \<Longrightarrow> hard_deny_reason (command_of env args) = None"
  shows "confined_core env (pp, ctx) (pp', ctx')"
proof -
  have "tc_fs ctx' = tc_fs ctx \<or> confined env (tc_ws ctx) (tc_fs ctx) (tc_fs ctx')"
    using assms unfolding tool_effect_def confined_def by blast
  then have "(confined env (tc_ws ctx))\<^sup>*\<^sup>* (tc_fs ctx) (tc_fs ctx')" by (elim disjE) (simp, rule r_into_rtranclp)
  then show ?thesis using assms(1) by (simp add: confined_core_def tool_effect_def)
qed

lemma execute_ran_core:
  assumes "execute E c ag w = (r, ag', w')" "ae_tools E = default_tools"
  obtains "core ag' = core ag"
  | t args v pp ctx' where "core ag' = (pp, ctx')" "tool_effect (ae_env E) t args (ag_ctx ag) ctx'" "vd_action v \<noteq> Deny"
      "check (ae_env E) (ag_policy ag) t args (ag_ctx ag) = Inr v"
      "pp = ag_policy ag \<or> vd_action v = Ask \<and> (\<exists>ask ans. ae_ask E = Some ask \<and> approved_by ask (tl_name t) args ans)"
      "vd_action v = Allow \<or> vd_action v = Ask \<and> (\<exists>ask ans. ae_ask E = Some ask \<and> approved_by ask (tl_name t) args ans)"
  using assms(1)
proof (cases rule: execute_cases)
  case refused
  then have "core ag' = core ag" by (metis core_simps(4))
  then show thesis by (rule that(1))
next
  case (ran t args v ag1 decision w1)
  from run_tool_agent [OF ran(4)] obtain res ctx' where f: "tl_func t (ae_env E) args (ag_ctx ag1) = (res, ctx')"
    and ag': "ag' = ag1\<lparr>ag_ctx := ctx', ag_audit := ag_audit ag'\<rparr>" by blast
  have c1: "ag_ctx ag1 = ag_ctx ag" using ran(5) by (auto simp: approve_def)
  have eff: "tool_effect (ae_env E) t args (ag_ctx ag) ctx'"
    using default_tool_effect(1) [of "tcl_name c" t "ae_env E" args] f c1 ran(1) assms(2) by simp
  have "core ag' = (ag_policy ag1, ctx')"
    using arg_cong [OF ag', of ag_ctx] arg_cong [OF ag', of ag_policy] by (simp add: core_def)
  then show thesis by (rule that(2)) (use eff ran(3,5) in auto)
qed

lemma confined_core_refl: "confined_core env x x"
  by (simp add: confined_core_def)

lemma confined_core_trans:
  assumes "confined_core env x y" "confined_core env y z"
  shows "confined_core env x z"
proof -
  have "confined env (tc_ws (snd y)) = confined env (tc_ws (snd x))"
    using assms(1) by (intro confined_same_roots) (simp add: confined_core_def)
  with assms show ?thesis by (auto simp: confined_core_def intro: same_roots_trans)
qed

lemma execute_confined:
  assumes "execute E c ag w = (r, ag', w')" "ae_tools E = default_tools"
  shows "confined_core (ae_env E) (core ag) (core ag')"
  using assms
proof (cases rule: execute_ran_core)
  case 1
  then show ?thesis by (simp add: confined_core_refl)
next
  case (2 t args v pp ctx')
  have "confined_core (ae_env E) (ag_policy ag, ag_ctx ag) (pp, ctx')"
    by (rule tool_effect_confined [OF 2(2)], rule check_hard_deny [OF 2(4,3)])
  then show ?thesis using 2(1) by (simp add: core_def)
qed

interpretation confined_turns: turn_relation E "\<lambda>x y. ae_tools E = default_tools \<longrightarrow> confined_core (ae_env E) x y"
  for E :: "'w agent_env"
  by unfold_locales (simp add: confined_core_refl, blast intro: confined_core_trans, simp add: execute_confined)

text \<open>
  C1: Whatever a model answers and in every mode, bypass included, a turn with the built-in tools changes files only by shell
  commands that are not on the list of forbidden ones, and by replacing single files inside the workspace's directories and
  outside \<open>.git\<close>; and it never widens the directories of the workspace.
\<close>
theorem turn_effects_are_confined:
  assumes "ae_tools E = default_tools"
  shows "(confined (ae_env E) (tc_ws (ag_ctx ag)))\<^sup>*\<^sup>*
      (tc_fs (ag_ctx ag)) (tc_fs (ag_ctx (tn_agent (snd (run_turn E t ag w))))) \<and>
    allowed_roots (tc_ws (ag_ctx (tn_agent (snd (run_turn E t ag w))))) = allowed_roots (tc_ws (ag_ctx ag))"
proof -
  obtain ws where k: "same_roots (tc_ws (ag_ctx ag)) ws"
    and R: "confined_core (ae_env E) (ag_policy ag, (ag_ctx ag)\<lparr>tc_ws := ws\<rparr>) (core (tn_agent (snd (run_turn E t ag w))))"
    by (rule confined_turns.run_turn_respects [of ag E t w]) (use assms in blast)
  have "(confined (ae_env E) (tc_ws (ag_ctx ag)))\<^sup>*\<^sup>*
      (tc_fs (ag_ctx ag)) (tc_fs (ag_ctx (tn_agent (snd (run_turn E t ag w)))))"
    using R confined_same_roots [OF k, of "ae_env E"] by (simp add: confined_core_def core_def)
  moreover have "allowed_roots (tc_ws (ag_ctx (tn_agent (snd (run_turn E t ag w))))) = allowed_roots (tc_ws (ag_ctx ag))"
    using R k by (simp add: confined_core_def core_def same_roots_def allowed_roots_def)
  ultimately show ?thesis ..
qed

subsection \<open>Plan mode\<close>

definition never_approves :: "'w agent_env \<Rightarrow> bool" where
  "never_approves E \<longleftrightarrow> (\<forall>ask req w. ae_ask E = Some ask \<longrightarrow> fst (ask req w) \<notin> {AllowOnce, AllowSession})"

lemma never_approved: "never_approves E \<Longrightarrow> ae_ask E = Some ask \<Longrightarrow> \<not> approved_by ask n args ans"
  by (auto simp: never_approves_def approved_by_def) (metis fst_conv)+

definition readonly_step :: "tool_env \<Rightarrow> file_system \<Rightarrow> file_system \<Rightarrow> bool" where
  "readonly_step env fs fs' \<longleftrightarrow> (\<exists>c. is_readonly_command c \<and> hard_deny_reason c = None \<and> shell_effect env c fs fs')"

definition plan_core :: "tool_env \<Rightarrow> policy \<times> tool_ctx \<Rightarrow> policy \<times> tool_ctx \<Rightarrow> bool" where
  "plan_core env x y \<longleftrightarrow> (pp_mode (fst x) = ModePlan \<longrightarrow> fst y = fst x \<and>
     ws_checkpoints (tc_ws (snd y)) = ws_checkpoints (tc_ws (snd x)) \<and> (readonly_step env)\<^sup>*\<^sup>* (tc_fs (snd x)) (tc_fs (snd y)))"

lemma plan_effect:
  assumes "tool_effect env t args ctx ctx'" "tl_category t \<in> {CatRead, CatMeta} \<or>
      tl_category t = CatExec \<and> is_readonly_command (command_of env args) \<and> hard_deny_reason (command_of env args) = None"
  shows "ws_checkpoints (tc_ws ctx') = ws_checkpoints (tc_ws ctx) \<and> (readonly_step env)\<^sup>*\<^sup>* (tc_fs ctx) (tc_fs ctx')"
proof -
  have "ws_checkpoints (tc_ws ctx') = ws_checkpoints (tc_ws ctx) \<and> (tc_fs ctx' = tc_fs ctx \<or> readonly_step env (tc_fs ctx) (tc_fs ctx'))"
    using assms unfolding tool_effect_def readonly_step_def by (elim conjE disjE) auto
  then show ?thesis by auto
qed

lemma execute_plan:
  assumes "execute E c ag w = (r, ag', w')" "ae_tools E = default_tools" "never_approves E"
  shows "plan_core (ae_env E) (core ag) (core ag')"
  using assms(1,2)
proof (cases rule: execute_ran_core)
  case 1
  then show ?thesis by (simp add: plan_core_def)
next
  case (2 t args v pp ctx')
  have allow: "vd_action v = Allow" and pp: "pp = ag_policy ag" using 2(5,6) never_approved [OF assms(3)] by auto
  show ?thesis
  proof (cases "pp_mode (ag_policy ag) = ModePlan")
    case True
    have "tl_category t \<in> {CatRead, CatMeta} \<or> tl_category t = CatExec \<and> is_readonly_command (command_of (ae_env E) args) \<and>
        hard_deny_reason (command_of (ae_env E) args) = None"
      using check_plan_mode(2) [OF 2(4) True allow] check_hard_deny [OF 2(4,3)] by blast
    from plan_effect [OF 2(2) this] show ?thesis using 2(1) pp by (simp add: plan_core_def core_def)
  qed (simp add: plan_core_def core_def)
qed

lemma plan_core_trans: "plan_core env x y \<Longrightarrow> plan_core env y z \<Longrightarrow> plan_core env x z"
  by (auto simp: plan_core_def)

interpretation plan_turns: turn_relation E "\<lambda>x y. ae_tools E = default_tools \<and> never_approves E \<longrightarrow> plan_core (ae_env E) x y"
  for E :: "'w agent_env"
  by unfold_locales (simp add: plan_core_def, blast intro: plan_core_trans, simp add: execute_plan)

text \<open>
  C19: In plan mode, as long as the user approves nothing, a whole turn leaves mode, rules and the undo history as they are,
  and touches the files only through shell commands that the policy takes for read-only and that are not forbidden.
\<close>
theorem plan_mode_only_reads:
  assumes "ae_tools E = default_tools" "never_approves E" "pp_mode (ag_policy ag) = ModePlan"
  shows "ag_policy (tn_agent (snd (run_turn E t ag w))) = ag_policy ag \<and>
    ws_checkpoints (tc_ws (ag_ctx (tn_agent (snd (run_turn E t ag w))))) = ws_checkpoints (tc_ws (ag_ctx ag)) \<and>
    (readonly_step (ae_env E))\<^sup>*\<^sup>* (tc_fs (ag_ctx ag)) (tc_fs (ag_ctx (tn_agent (snd (run_turn E t ag w)))))"
proof -
  obtain ws where "ws_checkpoints ws = ws_checkpoints (tc_ws (ag_ctx ag))"
    and "plan_core (ae_env E) (ag_policy ag, (ag_ctx ag)\<lparr>tc_ws := ws\<rparr>) (core (tn_agent (snd (run_turn E t ag w))))"
    by (rule plan_turns.run_turn_respects [of ag E t w]) (use assms(1,2) in blast)
  then show ?thesis using assms(3) by (simp add: plan_core_def core_def)
qed

subsection \<open>A demonstration agent\<close>

text \<open>A server whose model answers the first request with one command and the next with a word.\<close>

definition calling :: "string \<Rightarrow> json \<Rightarrow> tool_call" where
  "calling n args = \<lparr>tcl_id = ''c1'', tcl_name = n, tcl_args = args\<rparr>"

definition demo_agent_env :: "tool_call \<Rightarrow> answer \<Rightarrow> nat agent_env" where
  "demo_agent_env call ans = \<lparr>ae_tools = default_tools, ae_env = demo_env, ae_system = (\<lambda>m. ''be brief''),
     ae_stream = (\<lambda>ms n. if n = 0 then ([(CkToolCalls [call], 1)], None, 1) else ([(CkText ''ok'', Suc n)], None, Suc n)),
     ae_ask = Some (\<lambda>req n. (ans, n)), ae_hooks = [], ae_hook_matches = (\<lambda>p n. Some False),
     ae_run_hook = (\<lambda>h p n. ((0, []), n)), ae_interrupted = (\<lambda>n. False), ae_clear_interrupt = id,
     ae_dumps = (\<lambda>j. ''{}''), ae_loads = (\<lambda>s. None), ae_message_chars = (\<lambda>m. 10), ae_seconds = (\<lambda>x. ''1''),
     ae_retry_delays = [], ae_context_window = 8192, ae_max_steps = 3, ae_store = False\<rparr>"

definition demo_agent :: "mode \<Rightarrow> agent" where
  "demo_agent m = \<lparr>ag_policy = default_policy\<lparr>pp_mode := m\<rparr>, ag_ctx = demo_ctx, ag_messages = [], ag_audit = [], ag_usage = usage_new,
     ag_running = False, ag_session_id = ''s'', ag_last_stop = [], ag_saved = []\<rparr>"

definition writing_call :: tool_call where
  "writing_call = calling ''Write'' (JObj [(''path'', JStr ''b''), (''content'', JStr ''two'')])"

definition write_tool :: tool where "write_tool = the (map_of default_tools ''Write'')"

definition write_args :: jobj where "write_args = [(''path'', JStr ''b''), (''content'', JStr ''two'')]"

lemma write_tool [simp]: "map_of default_tools ''Write'' = Some write_tool" "tl_name write_tool = ''Write''"
  "tl_category write_tool = CatEdit" "tl_func write_tool = tool_write"
  by (simp_all add: write_tool_def default_tools_def)

lemma write_permitted:
  "validate_args write_tool (tcl_args writing_call) = Inr write_args"
  "check demo_env (default_policy\<lparr>pp_mode := ModeAcceptEdits\<rparr>) write_tool write_args demo_ctx = Inr (vd Allow [])"
  "check_write write_args demo_ctx = Inr ([''w'', ''b''], ''two'', None)"
  by code_simp+

lemma write_runs:
  "content (tc_fs (snd (tool_write demo_env write_args demo_ctx))) [''w'', ''b''] = Some ''two''" "content (tc_fs demo_ctx) [''w'', ''b''] = None"
proof -
  obtain ws' fs' where w: "write_atomic [''w'', ''b''] ''two'' (tc_ws demo_ctx) (tc_fs demo_ctx) = (None, ws', fs')"
    by (auto simp: write_atomic_def mkdir_parents_def demo_ctx_def demo_files_def is_dir_def put_file_def Let_def)
  moreover have "utf8_encode (points ''two'') = ''two''" by code_simp
  ultimately obtain out ctx' where "tool_write demo_env write_args demo_ctx = (Inr out, ctx')"
      "ctx_write [''w'', ''b''] ''two'' out demo_ctx = (Inr out, ctx')"
    using write_permitted(3) by (simp add: tool_write_def ctx_write_def Let_def)
  then show "content (tc_fs (snd (tool_write demo_env write_args demo_ctx))) [''w'', ''b''] = Some ''two''"
    using ctx_write_done(1) by simp
  show "content (tc_fs demo_ctx) [''w'', ''b''] = None" by (simp add: content_def demo_ctx_def demo_files_def)
qed

lemma write_executes:
  assumes "execute (demo_agent_env writing_call AllowOnce) writing_call (demo_agent ModeAcceptEdits) 1 = (r, ag', w')"
  shows "content (tc_fs (ag_ctx ag')) [''w'', ''b''] = Some ''two''"
proof -
  let ?E = "demo_agent_env writing_call AllowOnce" and ?ag = "demo_agent ModeAcceptEdits"
  have pol: "ag_policy ?ag = default_policy\<lparr>pp_mode := ModeAcceptEdits\<rparr>" "ag_ctx ?ag = demo_ctx" by (simp_all add: demo_agent_def)
  have call: "tcl_name writing_call = ''Write''" by (simp add: writing_call_def calling_def)
  have "run_tool ?E write_tool writing_call write_args ''auto'' ?ag 1 = (r, ag', w')"
    using assms pol call write_permitted by (simp add: execute_def demo_agent_env_def pre_tool_def fire_event_def)
  from run_tool_agent [OF this] obtain res ctx' where "tool_write demo_env write_args demo_ctx = (res, ctx')" "ag_ctx ag' = ctx'"
    using pol by (auto simp: demo_agent_env_def dest: arg_cong [where f = ag_ctx])
  with write_runs(1) show ?thesis by simp
qed

theorem calls_run_only_with_permission_witness:
  "\<exists>r ag' w'. execute (demo_agent_env writing_call AllowOnce) writing_call (demo_agent ModeAcceptEdits) 1 = (r, ag', w') \<and>
     content (tc_fs (ag_ctx ag')) [''w'', ''b''] = Some ''two'' \<and>
     (\<exists>t args v. validate_args t (tcl_args writing_call) = Inr args \<and>
        check demo_env (ag_policy (demo_agent ModeAcceptEdits)) t args demo_ctx = Inr v \<and> (vd_action v = Allow \<or> vd_action v = Ask))"
proof -
  obtain r ag' w' where x: "execute (demo_agent_env writing_call AllowOnce) writing_call (demo_agent ModeAcceptEdits) 1 = (r, ag', w')"
    by (metis prod_cases3)
  have c: "content (tc_fs (ag_ctx ag')) [''w'', ''b''] = Some ''two''" by (rule write_executes [OF x])
  have d: "ag_ctx (demo_agent ModeAcceptEdits) = demo_ctx" by (simp add: demo_agent_def)
  then have "ag_ctx ag' \<noteq> ag_ctx (demo_agent ModeAcceptEdits)" using c write_runs by auto
  from calls_run_only_with_permission [OF x this] obtain t args v where "validate_args t (tcl_args writing_call) = Inr args"
    "check demo_env (ag_policy (demo_agent ModeAcceptEdits)) t args demo_ctx = Inr v" "vd_action v = Allow \<or> vd_action v = Ask"
    by (auto simp: d demo_agent_env_def)
  with x c show ?thesis by blast
qed

theorem turn_effects_are_confined_witness:
  "(confined demo_env (workspace_new [''w''] []))\<^sup>*\<^sup>* demo_files
     (tc_fs (ag_ctx (tn_agent (snd (run_turn (demo_agent_env writing_call AllowOnce) ''go'' (demo_agent ModeAcceptEdits) 0)))))"
  using turn_effects_are_confined [of "demo_agent_env writing_call AllowOnce" "demo_agent ModeAcceptEdits" "''go''" 0]
  by (simp add: demo_agent_env_def demo_agent_def demo_ctx_def)

theorem plan_mode_only_reads_witness:
  "pp_mode (ag_policy (tn_agent (snd (run_turn (demo_agent_env writing_call (Refuse [])) ''go'' (demo_agent ModePlan) 0)))) = ModePlan \<and>
   (readonly_step demo_env)\<^sup>*\<^sup>* demo_files
     (tc_fs (ag_ctx (tn_agent (snd (run_turn (demo_agent_env writing_call (Refuse [])) ''go'' (demo_agent ModePlan) 0)))))"
proof -
  have "never_approves (demo_agent_env writing_call (Refuse []))" by (simp add: never_approves_def demo_agent_env_def)
  from plan_mode_only_reads [OF _ this, of "demo_agent ModePlan" "''go''" 0] show ?thesis
    by (simp add: demo_agent_env_def demo_agent_def demo_ctx_def)
qed

subsection \<open>What an edit does to its file\<close>

lemma py_count_split:
  "py_count s old_s \<noteq> 0 \<Longrightarrow> old_s \<noteq> [] \<Longrightarrow> \<exists>b a. s = b @ old_s @ a \<and> py_replace_from s old_s new_s (Some 1) = b @ new_s @ a"
proof (induction "length s" arbitrary: s)
  case 0
  then show ?case by (simp add: py_count.simps [of "[]" old_s])
next
  case (Suc n)
  obtain c r where s: "s = c # r" using Suc.hyps(2) by (cases s) auto
  note cnt = py_count.simps [of s old_s] and rep = py_replace_from.simps [of s old_s new_s "Some 1"]
  show ?case
  proof (cases "prefix old_s s")
    case True
    then obtain a where a: "s = old_s @ a" by (auto simp: prefix_def)
    have "py_replace_from a old_s new_s (Some 0) = a" by (simp add: py_replace_from.simps [of a])
    then have "py_replace_from s old_s new_s (Some 1) = new_s @ a" using rep Suc.prems(2) a s True by simp
    then show ?thesis using a by (intro exI [of _ "[]"] exI [of _ a]) simp
  next
    case False
    then have "py_count r old_s \<noteq> 0" using cnt Suc.prems s by simp
    moreover have "n = length r" using Suc.hyps(2) s by simp
    ultimately obtain b a where "r = b @ old_s @ a" "py_replace_from r old_s new_s (Some 1) = b @ new_s @ a"
      using Suc.hyps(1) Suc.prems(2) by blast
    then show ?thesis using False Suc.prems(2) rep s by (intro exI [of _ "c # b"] exI [of _ a]) simp
  qed
qed

lemma ensure_fresh_InrD: "ensure_fresh ws fs p = Inr () \<Longrightarrow> \<exists>m. map_of (ws_read_state ws) p = Some m \<and> st_mtime fs p = Some m"
  by (auto simp: ensure_fresh_def split: option.splits if_splits)

lemma read_text_InrD: "read_text fs p = Inr t \<Longrightarrow> \<exists>data. content fs p = Some data \<and> t = utf8_decode data"
  by (auto simp: read_text_def split: option.splits if_splits)

lemma tool_edit_InrD:
  assumes "tool_edit env args ctx = (Inr out, ctx')" "\<not> truthy (dict_get args ''replace_all'' (JBool False))"
  obtains p old_t new_t t o2 where "check_edit args ctx = Inr (p, old_t, new_t, t)" "py_count t old_t = 1"
    "ctx_write p (utf8_encode (py_replace t old_t new_t (Some 1))) o2 ctx = (Inr out, ctx')"
proof -
  obtain p old_t new_t t where c: "check_edit args ctx = Inr (p, old_t, new_t, t)"
    using assms(1) by (auto simp: tool_edit_def split: sum.splits)
  have n: "py_count t old_t \<noteq> 0" "\<not> py_count t old_t > 1" using assms c by (auto simp: tool_edit_def Let_def split: if_splits)
  obtain o2 where w: "ctx_write p (utf8_encode (py_replace t old_t new_t (Some 1))) o2 ctx = (Inr out, ctx')"
    using assms c n by (auto simp: tool_edit_def Let_def)
  show ?thesis using c _ w by (rule that) (use n in linarith)
qed

text \<open>
  C20: An Edit that succeeds without \<open>replace_all\<close> changes exactly one file, which the agent has read and which has not
  changed since. In the text of that file the old string occurred exactly once; its text now has the new string at that place
  and is otherwise the same, and when the file was UTF-8 its bytes before and after that place are the same too.
\<close>
theorem edit_replaces_one_place:
  assumes "tool_edit env args ctx = (Inr out, ctx')" "\<not> truthy (dict_get args ''replace_all'' (JBool False))"
  shows "\<exists>p old_s new_s data data' b a m. ws_resolve (tc_ws ctx) (tc_fs ctx) (dict_get args ''path'' (JStr [])) = Inr p \<and>
    str_arg args ''old_string'' = Some old_s \<and> str_arg args ''new_string'' = Some new_s \<and>
    map_of (ws_read_state (tc_ws ctx)) p = Some m \<and> st_mtime (tc_fs ctx) p = Some m \<and>
    content (tc_fs ctx) p = Some data \<and> content (tc_fs ctx') p = Some data' \<and>
    utf8_decode data = b @ points old_s @ a \<and> py_count (utf8_decode data) (points old_s) = 1 \<and>
    utf8_decode data' = b @ points new_s @ a \<and>
    data' = utf8_encode b @ utf8_encode (points new_s) @ utf8_encode a \<and>
    (valid_utf8 data \<longrightarrow> data = utf8_encode b @ utf8_encode (points old_s) @ utf8_encode a) \<and>
    (\<forall>q. q \<noteq> p \<longrightarrow> content (tc_fs ctx') q = content (tc_fs ctx) q)"
proof -
  obtain p old_t new_t t o2 where c: "check_edit args ctx = Inr (p, old_t, new_t, t)" and n: "py_count t old_t = 1"
    and w: "ctx_write p (utf8_encode (py_replace t old_t new_t (Some 1))) o2 ctx = (Inr out, ctx')"
    using tool_edit_InrD [OF assms] by blast
  note k = check_edit_InrD [OF c]
  obtain old_s new_s where s: "str_arg args ''old_string'' = Some old_s" "str_arg args ''new_string'' = Some new_s"
    "old_t = points old_s" "new_t = points new_s" "old_s \<noteq> []" using k(3) by blast
  obtain b a where ba: "t = b @ old_t @ a" "py_replace_from t old_t new_t (Some 1) = b @ new_t @ a"
    using py_count_split [of t old_t new_t] n s by auto
  then have r: "py_replace t old_t new_t (Some 1) = b @ new_t @ a" using s by (simp add: py_replace_def)
  obtain m where m: "map_of (ws_read_state (tc_ws ctx)) p = Some m" "st_mtime (tc_fs ctx) p = Some m"
    using ensure_fresh_InrD [OF k(4)] by blast
  obtain data where d: "content (tc_fs ctx) p = Some data" "t = utf8_decode data" using read_text_InrD [OF k(5)] by blast
  have "list_all scalar (b @ new_t @ a)" using scalar_utf8_decode [of data] ba(1) d(2) s scalar_points by simp
  then have again: "utf8_decode (utf8_encode (b @ new_t @ a)) = b @ new_t @ a" by (rule utf8_decode_encode)
  have dec: "utf8_decode data = b @ points old_s @ a" using ba(1) d(2) s(3) by simp
  have bytes: "data = utf8_encode b @ utf8_encode (points old_s) @ utf8_encode a" if "valid_utf8 data"
    using that dec by (simp add: valid_utf8_def)
  have "content (tc_fs ctx') p = Some (utf8_encode (b @ new_t @ a))" using ctx_write_done(1) [OF w] r by simp
  then show ?thesis
    using k(1) s m d(1) dec n [unfolded d(2) s(3)] again bytes ctx_write_done(2) [OF w]
    by (intro exI [of _ p] exI [of _ old_s] exI [of _ new_s] exI [of _ data] exI [of _ "utf8_encode (b @ new_t @ a)"]
      exI [of _ b] exI [of _ a] exI [of _ m]) (simp add: s)
qed

definition edit_args :: jobj where
  "edit_args = [(''path'', JStr ''a''), (''old_string'', JStr ''n''), (''new_string'', JStr ''wn'')]"

text \<open>The demo context with other bytes in its file, which the agent has read.\<close>

definition read_ctx :: "string \<Rightarrow> tool_ctx" where
  "read_ctx data = demo_ctx\<lparr>tc_ws := mark_read demo_files [''w'', ''a''] (tc_ws demo_ctx),
     tc_fs := demo_files\<lparr>fs_files := (fs_files demo_files)([''w'', ''a''] \<mapsto> (data, the (st_mtime demo_files [''w'', ''a''])))\<rparr>\<rparr>"

lemma demo_edit:
  assumes "length data \<le> MAX_READ_BYTES" "\<not> List.member (take 8192 data) (CHR 0x00)" "py_count (utf8_decode data) (points ''n'') = 1"
  obtains out ctx' where "tool_edit demo_env edit_args (read_ctx data) = (Inr out, ctx')"
    "content (tc_fs ctx') [''w'', ''a''] = Some (utf8_encode (py_replace (utf8_decode data) (points ''n'') (points ''wn'') (Some 1)))"
proof -
  have "ws_resolve (tc_ws (read_ctx data)) (tc_fs (read_ctx data)) (dict_get edit_args ''path'' (JStr [])) = Inr [''w'', ''a'']"
    "str_arg edit_args ''old_string'' = Some ''n''" "str_arg edit_args ''new_string'' = Some ''wn''"
    "ensure_fresh (tc_ws (read_ctx data)) (tc_fs (read_ctx data)) [''w'', ''a''] = Inr ()" "\<not> is_protected [''w'', ''a'']"
    by code_simp+
  moreover have "read_text (tc_fs (read_ctx data)) [''w'', ''a''] = Inr (utf8_decode data)"
    using assms(1,2) by (simp add: read_text_def read_ctx_def demo_ctx_def path_exists_def is_dir_def content_def demo_files_def)
  ultimately have c: "check_edit edit_args (read_ctx data) = Inr ([''w'', ''a''], points ''n'', points ''wn'', utf8_decode data)"
    by (simp add: check_edit_def Let_def try_then_def)
  have n: "\<not> truthy (dict_get edit_args ''replace_all'' (JBool False))" by code_simp
  let ?new = "utf8_encode (py_replace (utf8_decode data) (points ''n'') (points ''wn'') (Some 1))"
  obtain ws' fs' where w: "write_atomic [''w'', ''a''] ?new (tc_ws (read_ctx data)) (tc_fs (read_ctx data)) = (None, ws', fs')"
    by (auto simp: write_atomic_def mkdir_parents_def read_ctx_def demo_ctx_def demo_files_def is_dir_def put_file_def Let_def)
  obtain out ctx' where e: "tool_edit demo_env edit_args (read_ctx data) = (Inr out, ctx')"
    and x: "ctx_write [''w'', ''a''] ?new out (read_ctx data) = (Inr out, ctx')"
    using c n w assms(3) by (simp add: tool_edit_def ctx_write_def Let_def)
  show ?thesis using that [OF e] ctx_write_done(1) [OF x] by blast
qed

lemma demo_text:
  "length ''one'' \<le> MAX_READ_BYTES" "\<not> List.member (take 8192 ''one'') (CHR 0x00)"
  "py_count (utf8_decode ''one'') (points ''n'') = 1"
  by (simp add: MAX_READ_BYTES_def) (simp, code_simp)

lemma demo_broken:
  defines "data \<equiv> CHR 0xFF # ''one''"
  shows "length data \<le> MAX_READ_BYTES" "\<not> List.member (take 8192 data) (CHR 0x00)" "py_count (utf8_decode data) (points ''n'') = 1"
    "utf8_encode (py_replace (utf8_decode data) (points ''n'') (points ''wn'') (Some 1)) = [CHR 0xEF, CHR 0xBF, CHR 0xBD] @ ''owne''"
proof -
  have d: "utf8_decode data = [0xFFFD, 111, 110, 101]" by (simp add: data_def utf8_decode_def utf8_lead_def REPLACEMENT_def)
  show "length data \<le> MAX_READ_BYTES" "\<not> List.member (take 8192 data) (CHR 0x00)" by (simp_all add: data_def MAX_READ_BYTES_def)
  show "py_count (utf8_decode data) (points ''n'') = 1" by (simp add: d points_def py_count.simps)
  show "utf8_encode (py_replace (utf8_decode data) (points ''n'') (points ''wn'') (Some 1)) = [CHR 0xEF, CHR 0xBF, CHR 0xBD] @ ''owne''"
    by (simp add: d points_def py_replace_def py_replace_from.simps utf8_encode_def utf8_char_def char_of_def bit_0)
qed

theorem edit_replaces_one_place_witness:
  "valid_utf8 ''one'' \<and> (\<exists>out ctx'. tool_edit demo_env edit_args (read_ctx ''one'') = (Inr out, ctx') \<and> content (tc_fs ctx') [''w'', ''a''] = Some ''owne'' \<and>
     (\<exists>p data b a. content (tc_fs (read_ctx ''one'')) p = Some data \<and> utf8_decode data = b @ points ''n'' @ a \<and>
        (\<forall>q. q \<noteq> p \<longrightarrow> content (tc_fs ctx') q = content (tc_fs (read_ctx ''one'')) q)))"
proof -
  obtain out ctx' where e: "tool_edit demo_env edit_args (read_ctx ''one'') = (Inr out, ctx')"
    and "content (tc_fs ctx') [''w'', ''a''] = Some (utf8_encode (py_replace (utf8_decode ''one'') (points ''n'') (points ''wn'') (Some 1)))"
    using demo_edit [of "''one''"] demo_text(1-3) by blast
  moreover have "utf8_encode (py_replace (utf8_decode ''one'') (points ''n'') (points ''wn'') (Some 1)) = ''owne''"
    "\<not> truthy (dict_get edit_args ''replace_all'' (JBool False))" "str_arg edit_args ''old_string'' = Some ''n''" by code_simp+
  moreover from edit_replaces_one_place [OF e this(2)] this(3)
  have "\<exists>p data b a. content (tc_fs (read_ctx ''one'')) p = Some data \<and> utf8_decode data = b @ points ''n'' @ a \<and>
    (\<forall>q. q \<noteq> p \<longrightarrow> content (tc_fs ctx') q = content (tc_fs (read_ctx ''one'')) q)" by auto
  moreover have "valid_utf8 ''one''" by code_simp
  ultimately show ?thesis by auto
qed

text \<open>
  In a file that is not UTF-8 the same Edit changes other bytes as well: decoding put U+FFFD for the byte 0xFF, and its three
  bytes are written back in its place.
\<close>

lemma edit_rewrites_invalid_bytes:
  "\<exists>out ctx'. tool_edit demo_env edit_args (read_ctx (CHR 0xFF # ''one'')) = (Inr out, ctx') \<and>
     content (tc_fs (read_ctx (CHR 0xFF # ''one''))) [''w'', ''a''] = Some (CHR 0xFF # ''one'') \<and>
     content (tc_fs ctx') [''w'', ''a''] = Some ([CHR 0xEF, CHR 0xBF, CHR 0xBD] @ ''owne'')"
proof -
  obtain out ctx' where "tool_edit demo_env edit_args (read_ctx (CHR 0xFF # ''one'')) = (Inr out, ctx')"
    "content (tc_fs ctx') [''w'', ''a''] = Some ([CHR 0xEF, CHR 0xBF, CHR 0xBD] @ ''owne'')"
    using demo_edit [OF demo_broken(1-3)] unfolding demo_broken(4) by blast
  moreover have "content (tc_fs (read_ctx (CHR 0xFF # ''one''))) [''w'', ''a''] = Some (CHR 0xFF # ''one'')"
    by (simp add: read_ctx_def content_def)
  ultimately show ?thesis by blast
qed

end
