(* ===== verification/AgentProtocol.thy ===== *)
theory AgentProtocol
  imports AgentSafety
begin

text \<open>
  The conversation that the loop keeps. A model server accepts a list of messages only if the replies to the calls of an
  assistant's message follow it at once, one per call and in order. Every request of a turn carries such a list, whatever
  the model answered before and whenever the user interrupts; and every turn that stops leaves one.
\<close>

subsection \<open>Answered conversations\<close>

text \<open>The ids of the calls that wait for their reply; \<open>None\<close> when a message stands where it must not.\<close>

fun await :: "string list \<Rightarrow> message \<Rightarrow> string list option" where
  "await [] (AssistantMsg t calls) = Some (map tcl_id calls)"
| "await (i # ids) (ToolMsg j s) = (if i = j then Some ids else None)"
| "await [] (UserMsg s) = Some []"
| "await [] (SystemMsg s) = Some []"
| "await _ _ = None"

fun waiting :: "string list \<Rightarrow> message list \<Rightarrow> string list option" where
  "waiting ids [] = Some ids"
| "waiting ids (m # ms) = (case await ids m of None \<Rightarrow> None | Some ids' \<Rightarrow> waiting ids' ms)"

definition answered :: "message list \<Rightarrow> bool" where
  "answered ms \<longleftrightarrow> waiting [] ms = Some []"

lemma waiting_append: "waiting ids (xs @ ys) = (case waiting ids xs of None \<Rightarrow> None | Some ids' \<Rightarrow> waiting ids' ys)"
  by (induction ids xs rule: waiting.induct) (simp_all split: option.splits)

lemma waiting_replies: "waiting (map tcl_id cs) (map interrupted_reply cs) = Some []"
  by (induction cs) (simp_all add: interrupted_reply_def)

lemma await_user: "is_user m \<Longrightarrow> await ids m = (if ids = [] then Some [] else None)"
  by (cases m; cases ids) simp_all

lemma last_user_drop:
  assumes "last_user ms \<noteq> 0"
  shows "\<exists>m rest. drop (last_user ms) ms = m # rest \<and> is_user m"
proof -
  let ?us = "filter (\<lambda>(i, m). is_user m) (enumerate 0 ms)"
  have ne: "?us \<noteq> []" and l: "last_user ms = fst (last ?us)" using assms by (auto simp: last_user_def split: list.splits)
  obtain i m where im: "last ?us = (i, m)" by fastforce
  have "(i, m) \<in> set ?us" using last_in_set [OF ne] im by simp
  then have "i < length ms" "ms ! i = m" "is_user m" by (auto simp: in_set_enumerate_eq)
  then show ?thesis using l im by (metis Cons_nth_drop_Suc fst_conv)
qed

lemma answered_tail:
  assumes "answered ms" "last_user ms \<noteq> 0"
  shows "answered (drop (last_user ms) ms)"
proof -
  obtain m rest where d: "drop (last_user ms) ms = m # rest" "is_user m" using last_user_drop [OF assms(2)] by blast
  have "ms = take (last_user ms) ms @ m # rest" by (metis append_take_drop_id d(1))
  then have "waiting [] (take (last_user ms) ms @ m # rest) = Some []" using assms(1) by (simp add: answered_def)
  then obtain ids where i: "waiting ids (m # rest) = Some []" by (auto simp: waiting_append split: option.splits)
  then have "ids = []" using await_user [OF d(2), of ids] by (cases "ids = []") auto
  with i d(1) show ?thesis by (simp add: answered_def)
qed

lemma compact_answered:
  assumes "compact E ag w = (r, ag', w')" "answered (ag_messages ag)"
  shows "answered (ag_messages ag')"
proof (cases "ag' = ag")
  case False
  then obtain s where n: "last_user (ag_messages ag) \<noteq> 0"
    and m: "ag_messages ag' = [UserMsg s, AssistantMsg (Some ''Understood. I have the context and will continue from here.'') []] @
      drop (last_user (ag_messages ag)) (ag_messages ag)"
    using assms(1) by (auto simp: compact_def Let_def split: prod.splits option.splits if_splits)
  show ?thesis using answered_tail [OF assms(2) n] m by (simp add: answered_def)
qed (use assms in simp)

subsection \<open>Messages through a step\<close>

lemma messages_simps [simp]:
  "ag_messages (audit_record e ag) = ag_messages ag" "ag_messages (add_message m ag) = ag_messages ag @ [m]"
  "ag_messages (save_session E ag) = ag_messages ag"
  by (simp_all add: audit_record_def add_message_def save_session_def)

lemma done_turn_messages [simp]: "ag_messages (tn_agent (done_turn r s)) = ag_messages (tn_agent s)"
  by (simp add: done_turn_def)

lemma take_chunk_messages: "take_chunk c sd s = (sd', s') \<Longrightarrow> ag_messages (tn_agent s') = ag_messages (tn_agent s)"
  by (auto simp: take_chunk_def Let_def split: chunk.splits prod.splits if_splits)

lemma audit_chunk_messages [simp]: "ag_messages (tn_agent (audit_chunk c s)) = ag_messages (tn_agent s)"
  by (simp add: audit_chunk_def split: chunk.splits)

lemma consume_messages: "consume E cs sd s = (b, sd', s') \<Longrightarrow> ag_messages (tn_agent s') = ag_messages (tn_agent s)"
proof (induction E cs sd s rule: consume.induct)
  case (2 E c w cs sd s)
  obtain sd2 s2 where t: "take_chunk c sd ((audit_chunk c s)\<lparr>tn_world := w\<rparr>) = (sd2, s2)" by fastforce
  show ?case
  proof (cases "ae_interrupted E w")
    case True
    then show ?thesis using "2.prems" by (auto simp: Let_def)
  next
    case False
    then show ?thesis using "2.IH" [OF refl False t [symmetric]] "2.prems" t take_chunk_messages [OF t] by simp
  qed
qed simp

lemma request_messages: "request E s = (r, s') \<Longrightarrow> ag_messages (tn_agent s') = ag_messages (tn_agent s)"
  by (auto simp: request_def dest: consume_messages split: prod.splits bool.splits)

lemma close_stream_messages: "close_stream E sd s = (v, calls, s') \<Longrightarrow> ag_messages (tn_agent s') = ag_messages (tn_agent s)"
  by (auto simp: close_stream_def split: prod.splits if_splits)

lemma maybe_compact_answered:
  assumes "answered (ag_messages (tn_agent s))"
  shows "answered (ag_messages (tn_agent (maybe_compact E s)))"
proof -
  obtain r ag' w' where k: "compact E (tn_agent s) (tn_world s) = (r, ag', w')" by (metis prod_cases3)
  show ?thesis using assms compact_answered [OF k assms] k by (simp add: maybe_compact_def split: sum.splits)
qed

lemma execute_messages: "execute E c ag w = (r, ag', w') \<Longrightarrow> ag_messages ag' = ag_messages ag"
  by (auto simp: execute_def ask_and_run_def run_tool_def finish_call_def fail_call_def approve_def Let_def
      split: option.splits sum.splits tool_exn.splits prod.splits if_splits action.splits answer.splits)

subsection \<open>Turns\<close>

lemma call_step_messages:
  assumes "call_step E c recent s = (None, s')"
  shows "\<exists>out. ag_messages (tn_agent s') = ag_messages (tn_agent s) @ [ToolMsg (tcl_id c) out]"
proof (cases "repeated recent")
  case True
  then show ?thesis using assms by (auto simp: call_step_def Let_def)
next
  case False
  obtain res ag' w' where e: "execute E c (tn_agent s) (tn_world s) = (res, ag', w')" by (metis prod_cases3)
  then obtain te where r: "res = Inr te" using assms False by (cases res) (simp_all add: call_step_def Let_def)
  then have "ag_messages (tn_agent s') = ag_messages ag' @ [ToolMsg (tcl_id c) (te_output te)]"
    using assms False e by (auto simp: call_step_def Let_def)
  then show ?thesis using execute_messages [OF e] by simp
qed

lemma run_calls_answered:
  "waiting [] (ag_messages (tn_agent s)) = Some (map tcl_id cs) \<Longrightarrow> run_calls E cs recent s = (r, s') \<Longrightarrow>
   (\<forall>e. r \<noteq> CallsCrashed e) \<Longrightarrow> answered (ag_messages (tn_agent s'))"
proof (induction cs arbitrary: recent s)
  case Nil
  then show ?case by (simp add: answered_def)
next
  case (Cons c cs)
  show ?case
  proof (cases "ae_interrupted E (tn_world s)")
    case True
    then show ?thesis using Cons.prems waiting_replies [of "c # cs"] by (auto simp: answered_def waiting_append)
  next
    case False
    obtain o1 s1 where c1: "call_step E c (remember_call E c recent) s = (o1, s1)" by fastforce
    have o1: "o1 = None" using Cons.prems(2,3) False c1 by (cases o1) (auto simp: Let_def)
    obtain out where "ag_messages (tn_agent s1) = ag_messages (tn_agent s) @ [ToolMsg (tcl_id c) out]"
      using call_step_messages c1 o1 by blast
    then have "waiting [] (ag_messages (tn_agent s1)) = Some (map tcl_id cs)" using Cons.prems(1) by (simp add: waiting_append)
    moreover have "run_calls E cs (remember_call E c recent) s1 = (r, s')" using Cons.prems(2) False c1 o1 by (simp add: Let_def)
    ultimately show ?thesis by (rule Cons.IH) (rule Cons.prems(3))
  qed
qed

lemma answered_add: "answered ms \<Longrightarrow> await [] m = Some [] \<Longrightarrow> answered (ms @ [m])"
  by (simp add: answered_def waiting_append)

lemma steps_answered:
  "answered (ag_messages (tn_agent s)) \<Longrightarrow> steps E n recent retried s = (Stopped reason, s') \<Longrightarrow> answered (ag_messages (tn_agent s'))"
proof (induction n arbitrary: recent retried s)
  case 0
  then show ?case by auto
next
  case (Suc n)
  obtain r1 s1 where q: "request E (maybe_compact E s) = (r1, s1)" by fastforce
  have a1: "answered (ag_messages (tn_agent s1))"
    using request_messages [OF q] maybe_compact_answered [OF Suc.prems(1)] by simp
  show ?case
  proof (cases "ae_interrupted E (tn_world s)")
    case True
    then show ?thesis using Suc.prems by auto
  next
    case ni: False
    show ?thesis
    proof (cases r1)
      case (Inl err)
      obtain r2 ag2 w2 where k: "compact E (tn_agent s1) (tn_world s1) = (r2, ag2, w2)" by (metis prod_cases3)
      note a2 = compact_answered [OF k a1]
      let ?s2 = "emit (Notice ''The model rejected the prompt as too long; earlier messages were summarized.'' ''warn'')
        (s1\<lparr>tn_agent := ag2, tn_world := w2\<rparr>)"
      have "answered (ag_messages (tn_agent s'))" if "steps E n recent True ?s2 = (Stopped reason, s')"
        by (rule Suc.IH [OF _ that]) (simp add: a2)
      then show ?thesis using Suc.prems(2) ni q Inl k a1 a2 by (auto simp: fail_turn_def split: sum.splits if_splits)
    next
      case (Inr sd)
      obtain v calls s2 where cl: "close_stream E sd s1 = (v, calls, s2)" by (metis prod_cases3)
      have a2: "answered (ag_messages (tn_agent s2))" using close_stream_messages [OF cl] a1 by simp
      define s3 where "s3 = on_agent (add_message (AssistantMsg (if v = [] then None else Some v) calls)) s2"
      have w3: "waiting [] (ag_messages (tn_agent s3)) = Some (map tcl_id calls)"
        using a2 by (simp add: s3_def answered_def waiting_append)
      obtain r4 s4 where rc: "run_calls E calls recent s3 = (r4, s4)" by fastforce
      have a4: "(\<forall>e. r4 \<noteq> CallsCrashed e) \<Longrightarrow> answered (ag_messages (tn_agent s4))" by (rule run_calls_answered [OF w3 rc])
      show ?thesis
      proof (cases "ae_interrupted E (tn_world s2)")
        case True
        then show ?thesis using Suc.prems(2) ni q Inr cl a2 by (auto simp: answered_add split: if_splits)
      next
        case nj: False
        note e = Suc.prems(2) ni q Inr cl nj
        show ?thesis
        proof (cases "calls = []")
          case True
          then show ?thesis using e w3 by (auto simp: Let_def s3_def answered_def waiting_append)
        next
          case False
          then show ?thesis using e rc a4 Suc.IH [of s4 _ False] by (auto simp: Let_def s3_def [symmetric] split: calls_result.splits)
        qed
      qed
    qed
  qed
qed

lemma run_turn_start:
  assumes "\<not> ag_running ag"
  obtains s1 prompt where "ag_messages (tn_agent s1) = ag_messages ag @ [UserMsg prompt]"
    "\<And>E'. ae_clear_interrupt E' = ae_clear_interrupt E \<Longrightarrow> run_turn E' t ag w = (case steps E' (ae_max_steps E') [] False s1 of
       (r, s2) \<Rightarrow> (r, on_agent (\<lambda>ag. save_session E' (ag\<lparr>ag_running := False\<rparr>)) s2))"
proof -
  obtain prompt attached ctx where x: "expand_mentions t ((ag_ctx ag)\<lparr>tc_ws := begin_turn (tc_ws (ag_ctx ag))\<rparr>) = (prompt, attached, ctx)"
    by (metis prod_cases3)
  let ?s1 = "\<lparr>tn_agent = add_message (UserMsg prompt)
      (audit_record (AuditTurnStart (length t) (mode_value (pp_mode (ag_policy ag)))) (ag\<lparr>ag_running := True, ag_ctx := ctx\<rparr>)),
    tn_world = ae_clear_interrupt E w,
    tn_events = (if attached = [] then [] else [Notice (''Attached: '' @ join_with '', '' attached) ''info''])\<rparr>"
  show thesis
    by (rule that [of ?s1 prompt]) (use assms x in \<open>simp_all add: run_turn_def Let_def\<close>)
qed

text \<open>
  C4: A turn that stops, for whatever reason (the model is done, an interrupt at any moment, an error of the server, the
  limit of steps), leaves a conversation in which every call of the model is answered by exactly one reply, in order and
  right after it.
\<close>
theorem stopped_turn_is_answered:
  assumes "answered (ag_messages ag)" "run_turn E t ag w = (Stopped reason, s)"
  shows "answered (ag_messages (tn_agent s))"
proof (cases "ag_running ag")
  case True
  then show ?thesis using assms by (auto simp: run_turn_def)
next
  case False
  obtain s1 prompt where m: "ag_messages (tn_agent s1) = ag_messages ag @ [UserMsg prompt]"
    and r: "run_turn E t ag w = (case steps E (ae_max_steps E) [] False s1 of
       (r, s2) \<Rightarrow> (r, on_agent (\<lambda>ag. save_session E (ag\<lparr>ag_running := False\<rparr>)) s2))"
    using run_turn_start [OF False, of E t w thesis] by blast
  obtain s2 where s2: "steps E (ae_max_steps E) [] False s1 = (Stopped reason, s2)"
    and s: "ag_messages (tn_agent s) = ag_messages (tn_agent s2)" using assms(2) r by (auto split: prod.splits)
  have "answered (ag_messages (tn_agent s1))" using assms(1) m by (simp add: answered_add)
  from steps_answered [OF this s2] s show ?thesis by simp
qed


subsection \<open>What a server sees\<close>

lemma with_stream_fields:
  "ae_tools (E\<lparr>ae_stream := st\<rparr>) = ae_tools E" "ae_env (E\<lparr>ae_stream := st\<rparr>) = ae_env E"
  "ae_system (E\<lparr>ae_stream := st\<rparr>) = ae_system E" "ae_ask (E\<lparr>ae_stream := st\<rparr>) = ae_ask E"
  "ae_hooks (E\<lparr>ae_stream := st\<rparr>) = ae_hooks E" "ae_hook_matches (E\<lparr>ae_stream := st\<rparr>) = ae_hook_matches E"
  "ae_run_hook (E\<lparr>ae_stream := st\<rparr>) = ae_run_hook E" "ae_interrupted (E\<lparr>ae_stream := st\<rparr>) = ae_interrupted E"
  "ae_clear_interrupt (E\<lparr>ae_stream := st\<rparr>) = ae_clear_interrupt E" "ae_dumps (E\<lparr>ae_stream := st\<rparr>) = ae_dumps E"
  "ae_loads (E\<lparr>ae_stream := st\<rparr>) = ae_loads E" "ae_message_chars (E\<lparr>ae_stream := st\<rparr>) = ae_message_chars E"
  "ae_seconds (E\<lparr>ae_stream := st\<rparr>) = ae_seconds E" "ae_retry_delays (E\<lparr>ae_stream := st\<rparr>) = ae_retry_delays E"
  "ae_context_window (E\<lparr>ae_stream := st\<rparr>) = ae_context_window E" "ae_max_steps (E\<lparr>ae_stream := st\<rparr>) = ae_max_steps E"
  "ae_store (E\<lparr>ae_stream := st\<rparr>) = ae_store E"
  by simp_all

lemma with_stream_simps [simp]:
  "execute (E\<lparr>ae_stream := st\<rparr>) = execute E" "consume (E\<lparr>ae_stream := st\<rparr>) = consume E"
  "call_step (E\<lparr>ae_stream := st\<rparr>) = call_step E" "run_calls (E\<lparr>ae_stream := st\<rparr>) = run_calls E"
  "close_stream (E\<lparr>ae_stream := st\<rparr>) = close_stream E" "save_session (E\<lparr>ae_stream := st\<rparr>) = save_session E"
  "render_transcript (E\<lparr>ae_stream := st\<rparr>) = render_transcript E" "estimate_tokens (E\<lparr>ae_stream := st\<rparr>) = estimate_tokens E"
  "wire_messages (E\<lparr>ae_stream := st\<rparr>) = wire_messages E"
proof -
  let ?E = "E\<lparr>ae_stream := st\<rparr>"
  have f: "fire ?E = fire E"
  proof (intro ext)
    show "fire ?E hs p ws w = fire E hs p ws w" for hs p ws w
      by (induction hs arbitrary: ws w) (simp_all add: Let_def split: prod.splits)
  qed
  have fe: "fire_event ?E = fire_event E" unfolding fire_event_def [abs_def] f matching_hooks_def with_stream_fields by (rule refl)
  have po: "post_tool ?E = post_tool E" "pre_tool ?E = pre_tool E"
    unfolding post_tool_def [abs_def] pre_tool_def [abs_def] fe by (rule refl)+
  have rt: "run_tool ?E = run_tool E" unfolding run_tool_def [abs_def] po with_stream_fields by (rule refl)
  have ap: "approve ?E = approve E" unfolding approve_def [abs_def] with_stream_fields by (rule refl)
  have ar: "ask_and_run ?E = ask_and_run E" unfolding ask_and_run_def [abs_def] rt ap with_stream_fields by (rule refl)
  show ex: "execute ?E = execute E" unfolding execute_def [abs_def] rt ar po with_stream_fields by (rule refl)
  show "consume ?E = consume E"
  proof (intro ext)
    show "consume ?E cs sd s = consume E cs sd s" for cs sd s
      by (induction cs arbitrary: sd s) (auto simp: Let_def split: prod.splits)
  qed
  show cst: "call_step ?E = call_step E" unfolding call_step_def [abs_def] ex by (rule refl)
  have rm: "remember_call ?E = remember_call E" unfolding remember_call_def [abs_def] call_signature_def with_stream_fields by (rule refl)
  show "run_calls ?E = run_calls E"
  proof (intro ext)
    show "run_calls ?E cs r s = run_calls E cs r s" for cs r s
      by (induction cs arbitrary: r s) (auto simp: Let_def cst rm split: prod.splits option.splits)
  qed
  show "close_stream ?E = close_stream E"
    unfolding close_stream_def [abs_def] parse_text_tool_calls_def text_call_def [abs_def] with_stream_fields by (rule refl)
  show "save_session ?E = save_session E" by (simp add: fun_eq_iff save_session_def)
  have "call_line ?E = call_line E" by (rule ext) simp
  then have "transcript_lines ?E m = transcript_lines E m" for m by (cases m) simp_all
  then show "render_transcript ?E = render_transcript E" by (simp add: fun_eq_iff render_transcript_def cong: map_cong)
  show "estimate_tokens ?E = estimate_tokens E" by (simp add: fun_eq_iff estimate_tokens_def)
  show "wire_messages ?E = wire_messages E" by (simp add: fun_eq_iff wire_messages_def)
qed

text \<open>Two servers that answer every answered conversation alike.\<close>

definition same_answers :: "'w agent_env \<Rightarrow> (message list \<Rightarrow> 'w \<Rightarrow> (chunk \<times> 'w) list \<times> llm_error option \<times> 'w) \<Rightarrow> bool" where
  "same_answers E st \<longleftrightarrow> (\<forall>ms w. answered ms \<longrightarrow> st ms w = ae_stream E ms w)"

lemma chat_same:
  assumes "same_answers E st" "answered ms"
  shows "chat (E\<lparr>ae_stream := st\<rparr>) ms delays n w = chat E ms delays n w"
  using assms by (induction delays arbitrary: n w) (simp_all add: same_answers_def split: prod.splits option.splits)

lemma compact_same:
  assumes "same_answers E st"
  shows "compact (E\<lparr>ae_stream := st\<rparr>) ag w = compact E ag w"
proof -
  have "st [SystemMsg a, UserMsg b] w = ae_stream E [SystemMsg a, UserMsg b] w" for a b
    using assms by (simp add: same_answers_def answered_def)
  then show ?thesis by (simp add: compact_def Let_def)
qed

lemma maybe_compact_same:
  "same_answers E st \<Longrightarrow> maybe_compact (E\<lparr>ae_stream := st\<rparr>) s = maybe_compact E s"
  by (simp add: maybe_compact_def compact_same)

lemma request_same:
  assumes "same_answers E st" "answered (ag_messages (tn_agent s))"
  shows "request (E\<lparr>ae_stream := st\<rparr>) s = request E s"
proof -
  have "answered (wire_messages E (tn_agent s))" using assms(2) by (simp add: wire_messages_def answered_def)
  from chat_same [OF assms(1) this] show ?thesis by (simp add: request_def)
qed

lemma steps_same:
  assumes "same_answers E st"
  shows "answered (ag_messages (tn_agent s)) \<Longrightarrow>
    steps (E\<lparr>ae_stream := st\<rparr>) n recent retried s = steps E n recent retried s"
proof (induction n arbitrary: recent retried s)
  case 0
  then show ?case by simp
next
  case (Suc n)
  let ?E = "E\<lparr>ae_stream := st\<rparr>"
  have am: "answered (ag_messages (tn_agent (maybe_compact E s)))" by (rule maybe_compact_answered [OF Suc.prems])
  obtain r1 s1 where q: "request E (maybe_compact E s) = (r1, s1)" by fastforce
  then have q': "request ?E (maybe_compact ?E s) = (r1, s1)"
    using request_same [OF assms am] maybe_compact_same [OF assms] by simp
  have a1: "answered (ag_messages (tn_agent s1))" using request_messages [OF q] am by simp
  show ?case
  proof (cases r1)
    case (Inl err)
    obtain r2 ag2 w2 where k: "compact E (tn_agent s1) (tn_world s1) = (r2, ag2, w2)" by (metis prod_cases3)
    then have k': "compact ?E (tn_agent s1) (tn_world s1) = (r2, ag2, w2)" by (simp add: compact_same [OF assms])
    have ih: "steps ?E n recent True (emit e (s1\<lparr>tn_agent := ag2, tn_world := w2\<rparr>)) =
        steps E n recent True (emit e (s1\<lparr>tn_agent := ag2, tn_world := w2\<rparr>))" for e
      by (rule Suc.IH) (simp add: compact_answered [OF k a1])
    show ?thesis using Inl q q' k k' ih by (simp split: sum.splits)
  next
    case (Inr sd)
    obtain v calls s2 where cl: "close_stream E sd s1 = (v, calls, s2)" by (metis prod_cases3)
    have a2: "answered (ag_messages (tn_agent s2))" using close_stream_messages [OF cl] a1 by simp
    define s3 where "s3 = on_agent (add_message (AssistantMsg (if v = [] then None else Some v) calls)) s2"
    have w3: "waiting [] (ag_messages (tn_agent s3)) = Some (map tcl_id calls)"
      using a2 by (simp add: s3_def answered_def waiting_append)
    obtain r4 s4 where rc: "run_calls E calls recent s3 = (r4, s4)" by fastforce
    have ih: "(\<forall>e. r4 \<noteq> CallsCrashed e) \<Longrightarrow> steps ?E n rec' False s4 = steps E n rec' False s4" for rec'
      by (rule Suc.IH) (rule run_calls_answered [OF w3 rc])
    show ?thesis
      by (cases r4) (use Inr q q' cl rc ih in \<open>simp_all add: Let_def s3_def [symmetric]\<close>)
  qed
qed

text \<open>
  C5: A model server is asked only about answered conversations: retries, compactions and the steps after them included, a
  turn goes the same with any server that answers those alike, whatever it would say to another list of messages.
\<close>
theorem requests_are_answered:
  assumes "answered (ag_messages ag)" "\<forall>ms w. answered ms \<longrightarrow> st ms w = ae_stream E ms w"
  shows "run_turn (E\<lparr>ae_stream := st\<rparr>) t ag w = run_turn E t ag w"
proof (cases "ag_running ag")
  case True
  then show ?thesis by (simp add: run_turn_def)
next
  case False
  have sa: "same_answers E st" using assms(2) by (simp add: same_answers_def)
  obtain s1 prompt where m: "ag_messages (tn_agent s1) = ag_messages ag @ [UserMsg prompt]"
    and r: "\<And>E'. ae_clear_interrupt E' = ae_clear_interrupt E \<Longrightarrow> run_turn E' t ag w =
      (case steps E' (ae_max_steps E') [] False s1 of
       (r, s2) \<Rightarrow> (r, on_agent (\<lambda>ag. save_session E' (ag\<lparr>ag_running := False\<rparr>)) s2))"
    by (rule run_turn_start [OF False, of E t w]) blast
  have "answered (ag_messages (tn_agent s1))" using assms(1) m by (simp add: answered_add)
  from steps_same [OF sa this] r [of E] r [of "E\<lparr>ae_stream := st\<rparr>"] show ?thesis by simp
qed

subsection \<open>Demonstration turns\<close>

lemma start_demo_turn:
  "\<exists>s1. ag_messages (tn_agent s1) = [UserMsg ''go''] \<and> tn_world s1 = 0 \<and>
     run_turn (demo_agent_env c ans) ''go'' (demo_agent m) 0 = (case steps (demo_agent_env c ans) 3 [] False s1 of
       (r, s2) \<Rightarrow> (r, on_agent (\<lambda>ag. save_session (demo_agent_env c ans) (ag\<lparr>ag_running := False\<rparr>)) s2))"
proof -
  have "re_finditer MENTION ''go'' = []" by code_simp
  moreover define s1 :: "nat turn" where "s1 = \<lparr>tn_agent = add_message (UserMsg ''go'')
      (audit_record (AuditTurnStart (length ''go'') (mode_value m)) ((demo_agent m)\<lparr>ag_running := True, ag_ctx := demo_ctx\<lparr>tc_ws := begin_turn (tc_ws demo_ctx)\<rparr>\<rparr>)),
    tn_world = 0, tn_events = []\<rparr>"
  ultimately have "run_turn (demo_agent_env c ans) ''go'' (demo_agent m) 0 = (case steps (demo_agent_env c ans) 3 [] False s1 of
       (r, s2) \<Rightarrow> (r, on_agent (\<lambda>ag. save_session (demo_agent_env c ans) (ag\<lparr>ag_running := False\<rparr>)) s2))"
    by (simp add: run_turn_def Let_def expand_mentions_def demo_agent_env_def demo_agent_def del: steps.simps)
  then show ?thesis by (intro exI [of _ s1]) (simp add: s1_def demo_agent_def)
qed

lemma demo_call_step:
  assumes "tn_world s = 0" "length (ag_messages (tn_agent s)) \<le> 4"
    "call_step (demo_agent_env c ans) c (remember_call (demo_agent_env c ans) c [])
      (on_agent (add_message (AssistantMsg None [c])) (s\<lparr>tn_world := 1\<rparr>)) = (r, s')"
  shows "steps (demo_agent_env c ans) (Suc n) [] False s = (case r of Some e \<Rightarrow> (Crashed e, s')
    | None \<Rightarrow> steps (demo_agent_env c ans) n (remember_call (demo_agent_env c ans) c []) False s')"
proof -
  let ?E = "demo_agent_env c ans"
  let ?sd = "\<lparr>sd_visible = [], sd_calls = [c], sd_filter = tag_filter_new\<rparr>"
  have "maybe_compact ?E s = s" using assms(2) by (simp add: maybe_compact_def)
  moreover have "request ?E s = (Inr ?sd, s\<lparr>tn_world := 1\<rparr>)"
    using assms(1) by (simp add: request_def demo_agent_env_def audit_chunk_def take_chunk_def Let_def)
  moreover have "close_stream ?E ?sd s' = ([], [c], s')" for s' by (simp add: close_stream_def tag_flush_def tag_filter_new_def)
  moreover have "\<not> ae_interrupted ?E w" for w by (simp add: demo_agent_env_def)
  ultimately show ?thesis using assms(3) by (simp add: Let_def split: option.splits)
qed

lemma demo_text_step:
  assumes "tn_world s = Suc k" "length (ag_messages (tn_agent s)) \<le> 4"
  shows "\<exists>s'. steps (demo_agent_env c ans) (Suc n) recent False s = (Stopped ''end'', s') \<and>
    ag_messages (tn_agent s') = ag_messages (tn_agent s) @ [AssistantMsg (Some ''ok'') []]"
proof -
  let ?E = "demo_agent_env c ans"
  have "tag_feed ''ok'' tag_filter_new = (''ok'', tag_filter_new)" by code_simp
  moreover have "maybe_compact ?E s = s" using assms(2) by (simp add: maybe_compact_def)
  moreover define s2 where "s2 = emit (TextDelta ''ok'') (s\<lparr>tn_world := Suc (Suc k)\<rparr>)"
  ultimately have "request ?E (maybe_compact ?E s) = (Inr \<lparr>sd_visible = ''ok'', sd_calls = [], sd_filter = tag_filter_new\<rparr>, s2)"
    using assms(1) by (simp add: request_def demo_agent_env_def audit_chunk_def take_chunk_def Let_def)
  moreover have "close_stream ?E \<lparr>sd_visible = ''ok'', sd_calls = [], sd_filter = tag_filter_new\<rparr> s2 = (''ok'', [], s2)"
    by (simp add: close_stream_def tag_flush_def tag_filter_new_def)
  moreover have "\<not> ae_interrupted ?E w" for w by (simp add: demo_agent_env_def)
  ultimately show ?thesis by (simp add: Let_def s2_def)
qed

text \<open>A turn in which the model first calls a tool that does not exist and then says a word.\<close>

definition stray_call :: tool_call where "stray_call = calling ''Nope'' (JObj [])"

theorem stopped_turn_is_answered_witness:
  "\<exists>s out. run_turn (demo_agent_env stray_call AllowOnce) ''go'' (demo_agent ModeDefault) 0 = (Stopped ''end'', s) \<and>
     ag_messages (tn_agent s) = [UserMsg ''go'', AssistantMsg None [stray_call], ToolMsg ''c1'' out, AssistantMsg (Some ''ok'') []] \<and>
     answered (ag_messages (tn_agent s))"
proof -
  let ?E = "demo_agent_env stray_call AllowOnce"
  obtain s1 where s1: "ag_messages (tn_agent s1) = [UserMsg ''go'']" "tn_world s1 = 0"
    and r: "run_turn ?E ''go'' (demo_agent ModeDefault) 0 = (case steps ?E 3 [] False s1 of
       (r, s2) \<Rightarrow> (r, on_agent (\<lambda>ag. save_session ?E (ag\<lparr>ag_running := False\<rparr>)) s2))"
    using start_demo_turn by blast
  let ?s = "on_agent (add_message (AssistantMsg None [stray_call])) (s1\<lparr>tn_world := 1\<rparr>)"
  obtain o4 s4 where c: "call_step ?E stray_call (remember_call ?E stray_call []) ?s = (o4, s4)" by fastforce
  have un: "map_of default_tools ''Nope'' = None" by (simp add: default_tools_def)
  obtain out where 4: "o4 = None" "tn_world s4 = 1" "ag_messages (tn_agent s4) = [UserMsg ''go'', AssistantMsg None [stray_call], ToolMsg ''c1'' out]"
  proof -
    have "\<not> repeated (remember_call ?E stray_call [])" by (simp add: remember_call_def repeated_def Let_def)
    moreover have "ae_tools ?E = default_tools" by (simp add: demo_agent_env_def)
    ultimately show thesis using c s1 un that
      by (auto simp: call_step_def execute_def stray_call_def calling_def fail_call_def finish_call_def Let_def)
  qed
  obtain s5 where "steps ?E 3 [] False s1 = (Stopped ''end'', s5)"
    "ag_messages (tn_agent s5) = [UserMsg ''go'', AssistantMsg None [stray_call], ToolMsg ''c1'' out, AssistantMsg (Some ''ok'') []]"
    using demo_call_step [OF s1(2) _ c, of 2] demo_text_step [of s4 0 stray_call AllowOnce 1 "remember_call ?E stray_call []"] s1 4
    by (auto simp: numeral_3_eq_3 numeral_2_eq_2 simp del: steps.simps)
  with r obtain s where run: "run_turn ?E ''go'' (demo_agent ModeDefault) 0 = (Stopped ''end'', s)"
    and m: "ag_messages (tn_agent s) = [UserMsg ''go'', AssistantMsg None [stray_call], ToolMsg ''c1'' out, AssistantMsg (Some ''ok'') []]"
    by (simp del: steps.simps)
  have "answered (ag_messages (demo_agent ModeDefault))" by (simp add: demo_agent_def answered_def)
  from stopped_turn_is_answered [OF this run] run m show ?thesis by blast
qed

theorem requests_are_answered_witness:
  "run_turn (demo_agent_env stray_call AllowOnce) ''go'' (demo_agent ModeDefault) 0 =
   run_turn ((demo_agent_env stray_call AllowOnce)\<lparr>ae_stream := \<lambda>ms n. if waiting [] ms = Some []
      then ae_stream (demo_agent_env stray_call AllowOnce) ms n else ([], Some \<lparr>le_message = ''HTTP 400'', le_retryable = False\<rparr>, n)\<rparr>)
     ''go'' (demo_agent ModeDefault) 0"
  by (rule requests_are_answered [symmetric]) (simp_all add: demo_agent_def answered_def)

subsection \<open>A call that ends the turn\<close>

definition bad_read :: tool_call where
  "bad_read = calling ''Read'' (JObj [(''path'', JStr ''a''), (''offset'', JStr ''--5'')])"

definition read_tool :: tool where "read_tool = the (map_of default_tools ''Read'')"

lemma read_tool: "map_of default_tools ''Read'' = Some read_tool"
  by (simp add: read_tool_def default_tools_def)

lemma bad_read_raises: "validate_args read_tool (tcl_args bad_read) = Inl (OtherErr ''ValueError'' [''--5''])"
  by code_simp

lemma bad_read_execute:
  "execute (demo_agent_env bad_read ans) bad_read ag w = (Inl (OtherErr ''ValueError'' [''--5'']), ag, w)"
proof -
  have "tcl_name bad_read = ''Read''" by (simp add: bad_read_def calling_def)
  moreover have "ae_tools (demo_agent_env bad_read ans) = default_tools" by (simp add: demo_agent_env_def)
  ultimately show ?thesis using read_tool bad_read_raises by (simp add: execute_def)
qed

text \<open>
  An integer argument that the loose check takes for a number but \<open>int\<close> does not read, such as \<open>--5\<close>, raises through the
  loop: the turn ends by an exception, and the conversation keeps a call that nothing answers, which every later request repeats.
\<close>
theorem malformed_integer_breaks_turn:
  "\<exists>s. run_turn (demo_agent_env bad_read ans) ''go'' (demo_agent m) 0 = (Crashed (OtherErr ''ValueError'' [''--5'']), s) \<and>
     ag_messages (tn_agent s) = [UserMsg ''go'', AssistantMsg None [bad_read]] \<and> \<not> answered (ag_messages (tn_agent s))"
proof -
  let ?E = "demo_agent_env bad_read ans"
  obtain s1 where s1: "ag_messages (tn_agent s1) = [UserMsg ''go'']" "tn_world s1 = 0"
    and r: "run_turn ?E ''go'' (demo_agent m) 0 = (case steps ?E 3 [] False s1 of
       (r, s2) \<Rightarrow> (r, on_agent (\<lambda>ag. save_session ?E (ag\<lparr>ag_running := False\<rparr>)) s2))"
    using start_demo_turn by blast
  let ?s = "on_agent (add_message (AssistantMsg None [bad_read])) (s1\<lparr>tn_world := 1\<rparr>)"
  have "\<not> repeated (remember_call ?E bad_read [])" by (simp add: remember_call_def repeated_def Let_def)
  then have c: "call_step ?E bad_read (remember_call ?E bad_read []) ?s = (Some (OtherErr ''ValueError'' [''--5'']), emit (ToolStart bad_read) ?s)"
    by (simp add: call_step_def bad_read_execute Let_def)
  have "steps ?E 3 [] False s1 = (Crashed (OtherErr ''ValueError'' [''--5'']), emit (ToolStart bad_read) ?s)"
    using demo_call_step [OF s1(2) _ c, of 2] s1(1) by (simp add: numeral_3_eq_3 del: steps.simps)
  with r s1(1) show ?thesis by (simp add: answered_def del: steps.simps)
qed

end
