(* ===== verification/TagFilter.thy ===== *)
theory TagFilter
  imports AgentLoop
begin

text \<open>
  The tag filter of the visible stream does not depend on how the model's answer is cut into chunks: what it shows and what
  it hides are the text before the first tag and the text from it on.
\<close>

subsection \<open>Finding a text\<close>

lemma py_find_None: "py_find s p = None \<Longrightarrow> i \<le> length s \<Longrightarrow> \<not> prefix p (drop i s)"
proof (induction s arbitrary: i)
  case (Cons c s)
  then show ?case by (cases i) (auto split: if_splits)
qed (auto split: if_splits)

lemma py_find_Some:
  "py_find s p = Some n \<Longrightarrow> n \<le> length s \<and> prefix p (drop n s) \<and> (\<forall>i < n. \<not> prefix p (drop i s))"
proof (induction s arbitrary: n)
  case (Cons c s)
  show ?case
  proof (cases "prefix p (c # s)")
    case True
    then show ?thesis using Cons.prems by simp
  next
    case False
    then obtain m where m: "py_find s p = Some m" "n = Suc m" using Cons.prems by auto
    then have "\<not> prefix p (drop i (c # s))" if "i < n" for i
      using Cons.IH [OF m(1)] False that by (cases i) simp_all
    then show ?thesis using Cons.IH [OF m(1)] m(2) by simp
  qed
qed (auto split: if_splits)

text \<open>Positions at which the text does not occur may be skipped.\<close>

lemma py_find_append:
  "(\<And>i. i < length u \<Longrightarrow> \<not> prefix p (drop i (u @ s))) \<Longrightarrow> py_find (u @ s) p = map_option ((+) (length u)) (py_find s p)"
proof (induction u)
  case Nil
  then show ?case by (simp add: option.map_ident)
next
  case (Cons c u)
  have "\<not> prefix p (c # u @ s)" using Cons.prems [of 0] by simp
  moreover have "py_find (u @ s) p = map_option ((+) (length u)) (py_find s p)"
    by (rule Cons.IH) (use Cons.prems in force)
  ultimately show ?case by (simp add: option.map_comp comp_def)
qed

subsection \<open>The filter\<close>

lemma held_back_le: "held_back n buf \<le> n"
  by (induction n) auto

lemma held_back_maximal: "held_back n buf < m \<Longrightarrow> m \<le> n \<Longrightarrow> \<not> prefix (drop (length buf - m) buf) TAG"
  by (induction n) (auto simp: le_Suc_eq split: if_splits)

fun feed_all :: "string list \<Rightarrow> tag_filter \<Rightarrow> string \<times> tag_filter" where
  "feed_all [] f = ([], f)"
| "feed_all (c # cs) f = (case tag_feed c f of (out, f1) \<Rightarrow> (case feed_all cs f1 of (later, f2) \<Rightarrow> (out @ later, f2)))"

text \<open>
  What has been shown can be the beginning of no tag, whatever follows; with the text held back it is all there was, unless
  a tag was found: then the shown text ends before it and the rest is hidden.
\<close>

definition closed_text :: "string \<Rightarrow> string \<Rightarrow> bool" where
  "closed_text out rest \<longleftrightarrow> (\<forall>i < length out. \<forall>z. \<not> prefix TAG (drop i (out @ rest @ z)))"

definition filter_state :: "string \<Rightarrow> string \<Rightarrow> tag_filter \<Rightarrow> bool" where
  "filter_state all_text out f \<longleftrightarrow>
     (if tf_hidden f = [] then all_text = out @ tf_buf f \<and> closed_text out (tf_buf f) \<and> py_find (tf_buf f) TAG = None
      else tf_buf f = [] \<and> all_text = out @ tf_hidden f \<and> closed_text out (tf_hidden f) \<and> prefix TAG (tf_hidden f))"

lemma closed_textD: "closed_text out rest \<Longrightarrow> i < length out \<Longrightarrow> \<not> prefix TAG (drop i out @ rest @ z)"
  unfolding closed_text_def by (metis drop_append diff_is_0_eq drop0 less_imp_le)

lemma closed_text_append: "closed_text out rest \<Longrightarrow> closed_text out (rest @ s)"
  by (simp add: closed_text_def)

lemma closed_text_extend:
  assumes "closed_text out (u @ v)" and "\<And>i z. i < length u \<Longrightarrow> \<not> prefix TAG (drop i u @ v @ z)"
  shows "closed_text (out @ u) v"
  unfolding closed_text_def
proof (intro allI impI)
  fix i z
  assume i: "i < length (out @ u)"
  show "\<not> prefix TAG (drop i ((out @ u) @ v @ z))"
  proof (cases "i < length out")
    case True
    then show ?thesis using assms(1) by (simp add: closed_text_def)
  next
    case False
    then show ?thesis using assms(2) [of "i - length out" z] i by simp
  qed
qed

lemma drop_take_drop: "i < length (take n b) \<Longrightarrow> drop i (take n b) @ drop n b @ z = drop i b @ z"
proof -
  assume "i < length (take n b)"
  then have "drop i (take n b @ drop n b) = drop i (take n b) @ drop n b" by (simp only: drop_append) simp
  then show ?thesis by (simp only: append_take_drop_id append_assoc [symmetric])
qed

lemma prefix_of_longer: "prefix p (u @ z) \<Longrightarrow> length p \<le> length u \<Longrightarrow> prefix p u"
  by (metis prefix_length_prefix prefixI)

lemma prefix_of_shorter: "prefix p (u @ z) \<Longrightarrow> length u \<le> length p \<Longrightarrow> prefix u p"
  by (metis prefix_length_prefix prefixI)

lemma tag_feed_state:
  assumes inv: "filter_state all_text out f" and "tag_feed s f = (new, f')"
  shows "filter_state (all_text @ s) (out @ new) f'"
proof (cases "tf_hidden f = []")
  case False
  then show ?thesis using assms by (auto simp: filter_state_def tag_feed_def closed_text_append)
next
  case True
  define buf where "buf = tf_buf f @ s"
  have t: "all_text @ s = out @ buf" and c: "closed_text out buf"
    using inv True by (simp_all add: filter_state_def closed_text_append buf_def)
  show ?thesis
  proof (cases "py_find buf TAG")
    case (Some n)
    then have f': "new = take n buf" "f' = \<lparr>tf_buf = [], tf_hidden = drop n buf\<rparr>"
      using assms(2) True by (simp_all add: tag_feed_def buf_def)
    note n = py_find_Some [OF Some]
    have "\<not> prefix TAG (drop i (take n buf) @ drop n buf @ z)" if "i < length (take n buf)" for i z
    proof
      assume "prefix TAG (drop i (take n buf) @ drop n buf @ z)"
      then have p: "prefix TAG (drop i buf @ z)" by (simp only: drop_take_drop [OF that])
      have "i < n" using that by simp
      have "length TAG \<le> length (drop n buf)" using n by (blast intro: prefix_length_le)
      then have "length TAG \<le> length (drop i buf)" using \<open>i < n\<close> by simp
      from prefix_of_longer [OF p this] show False using n \<open>i < n\<close> by blast
    qed
    then have "closed_text (out @ take n buf) (drop n buf)" using c by (intro closed_text_extend) simp_all
    moreover have "drop n buf \<noteq> []" using n by (auto simp: TAG_def)
    ultimately show ?thesis using f' n t by (simp add: filter_state_def)
  next
    case None
    let ?k = "held_back (min (length TAG - 1) (length buf)) buf"
    let ?n = "length buf - ?k"
    have f': "new = take ?n buf" "tf_buf f' = drop ?n buf" "tf_hidden f' = []"
      using assms(2) True None by (auto simp: tag_feed_def Let_def buf_def)
    have "?k \<le> min (length TAG - 1) (length buf)" by (rule held_back_le)
    have "\<not> prefix TAG (drop i (take ?n buf) @ drop ?n buf @ z)" if "i < length (take ?n buf)" for i z
    proof
      assume "prefix TAG (drop i (take ?n buf) @ drop ?n buf @ z)"
      then have p: "prefix TAG (drop i buf @ z)" by (simp only: drop_take_drop [OF that])
      have i: "i < ?n" using that by simp
      show False
      proof (cases "length TAG \<le> length (drop i buf)")
        case True
        have "i \<le> length buf" using i by simp
        from py_find_None [OF None this] prefix_of_longer [OF p True] show False ..
      next
        case False
        let ?m = "length buf - i"
        have "prefix (drop i buf) TAG" by (rule prefix_of_shorter [OF p]) (use False in linarith)
        moreover have "length buf - ?m = i" using i by simp
        moreover have "?k < ?m" using i by linarith
        moreover have "?m \<le> min (length TAG - 1) (length buf)" using False by simp
        ultimately show False using held_back_maximal [of _ buf ?m] by metis
      qed
    qed
    then have "closed_text (out @ take ?n buf) (drop ?n buf)" using c by (intro closed_text_extend) simp_all
    moreover have "py_find (drop ?n buf) TAG = None"
    proof (cases "py_find (drop ?n buf) TAG")
      case (Some j)
      from py_find_Some [OF this] have "prefix TAG (drop (j + ?n) buf)" "j + ?n \<le> length buf" by auto
      then show ?thesis using py_find_None [OF None] by blast
    qed
    ultimately show ?thesis using f' t by (simp add: filter_state_def)
  qed
qed

lemma feed_all_state:
  "filter_state all_text out f \<Longrightarrow> feed_all cs f = (new, f') \<Longrightarrow> filter_state (all_text @ concat cs) (out @ new) f'"
proof (induction cs arbitrary: all_text out f new)
  case (Cons c cs)
  obtain o1 f1 where c: "tag_feed c f = (o1, f1)" by fastforce
  obtain o2 where cs: "feed_all cs f1 = (o2, f')" "new = o1 @ o2" using Cons.prems(2) c by (auto split: prod.splits)
  from Cons.IH [OF tag_feed_state [OF Cons.prems(1) c] cs(1)] cs(2) show ?case by simp
qed simp

text \<open>
  C23: However the answer of a model is cut into chunks, the user sees the text before the first \<open><tool_call>\<close> and nothing of
  it or after it, and the whole text when there is none; what is kept for the parser of tool calls is the text from the tag on.
\<close>
theorem tag_filter_chunks:
  "(case feed_all cs tag_filter_new of (out, f) \<Rightarrow> (out @ fst (tag_flush f), tf_hidden f)) =
     (case py_find (concat cs) TAG of None \<Rightarrow> (concat cs, []) | Some n \<Rightarrow> (take n (concat cs), drop n (concat cs)))"
proof -
  obtain out f where f: "feed_all cs tag_filter_new = (out, f)" by fastforce
  have "filter_state [] [] tag_filter_new" by (simp add: filter_state_def tag_filter_new_def closed_text_def TAG_def)
  from feed_all_state [OF this f] have s: "filter_state (concat cs) out f" by simp
  have skip: "\<not> prefix TAG (drop i (out @ rest))" if "i < length out" "closed_text out rest" for i rest
    using that unfolding closed_text_def by (metis append_Nil2)
  show ?thesis
  proof (cases "tf_hidden f = []")
    case True
    then have "concat cs = out @ tf_buf f" "closed_text out (tf_buf f)" "py_find (tf_buf f) TAG = None"
      using s by (simp_all add: filter_state_def)
    with py_find_append [of out TAG "tf_buf f"] skip have "py_find (concat cs) TAG = None" by simp
    then show ?thesis using f True \<open>concat cs = out @ tf_buf f\<close> by (simp add: tag_flush_def)
  next
    case False
    then have h: "concat cs = out @ tf_hidden f" "closed_text out (tf_hidden f)" "prefix TAG (tf_hidden f)" "tf_buf f = []"
      using s by (simp_all add: filter_state_def)
    then have "py_find (tf_hidden f) TAG = Some 0" by (cases "tf_hidden f") simp_all
    with py_find_append [of out TAG "tf_hidden f"] skip h have "py_find (concat cs) TAG = Some (length out)" by simp
    then show ?thesis using f h by (simp add: tag_flush_def)
  qed
qed

end
