(* ===== verification/Zisa.thy ===== *)
theory Zisa
  imports Prelude "HOL-Library.Word"
begin

unbundle bit_operations_syntax

text \<open>
  \<open>src/zgpu/isa/instructions.py\<close>: the instruction set of the zGPU prototype and its 32-bit codec. Python's integers are
  unbounded, so words and fields are \<^typ>\<open>int\<close> with the masks and shifts the code writes.
\<close>

subsection \<open>Opcodes and instructions\<close>

datatype opcode =
    NOP | VADD | VSUB | VMUL | VAND | VOR | VXOR | VFADD | VFSUB | VFMUL | VFFMA
  | VLOAD_G | VSTORE_G | VLOAD_S | VSTORE_S | BRA | BRA_DIV | JOIN | BAR_SYNC | MMA_SYNC
  | GET_TID | GET_BID | HALT

fun opcode_value :: "opcode \<Rightarrow> int" where
  "opcode_value NOP = 0x00"
| "opcode_value VADD = 0x01"
| "opcode_value VSUB = 0x02"
| "opcode_value VMUL = 0x03"
| "opcode_value VAND = 0x04"
| "opcode_value VOR = 0x05"
| "opcode_value VXOR = 0x06"
| "opcode_value VFADD = 0x10"
| "opcode_value VFSUB = 0x11"
| "opcode_value VFMUL = 0x12"
| "opcode_value VFFMA = 0x13"
| "opcode_value VLOAD_G = 0x20"
| "opcode_value VSTORE_G = 0x21"
| "opcode_value VLOAD_S = 0x22"
| "opcode_value VSTORE_S = 0x23"
| "opcode_value BRA = 0x30"
| "opcode_value BRA_DIV = 0x31"
| "opcode_value JOIN = 0x32"
| "opcode_value BAR_SYNC = 0x33"
| "opcode_value MMA_SYNC = 0x40"
| "opcode_value GET_TID = 0x50"
| "opcode_value GET_BID = 0x51"
| "opcode_value HALT = 0x7F"

definition all_opcodes :: "opcode list" where
  "all_opcodes = [NOP, VADD, VSUB, VMUL, VAND, VOR, VXOR, VFADD, VFSUB, VFMUL, VFFMA, VLOAD_G, VSTORE_G, VLOAD_S,
     VSTORE_S, BRA, BRA_DIV, JOIN, BAR_SYNC, MMA_SYNC, GET_TID, GET_BID, HALT]"

definition opcode_of :: "int \<Rightarrow> opcode option" where
  "opcode_of n = find (\<lambda>op. opcode_value op = n) all_opcodes"

record instruction =
  in_op :: opcode
  in_rd :: int
  in_rs1 :: int
  in_rs2 :: int
  in_rs3 :: int
  in_imm :: int

datatype isa_error = FieldRange string | WordRange | UnknownOpcode int

subsection \<open>The codec\<close>

definition fits :: "int \<Rightarrow> int \<Rightarrow> int \<Rightarrow> bool" where
  "fits lo hi x \<longleftrightarrow> lo \<le> x \<and> x \<le> hi"

text \<open>[31:24] imm or rs3, [23:19] rs2, [18:14] rs1, [13:7] rd, [6:0] opcode.\<close>

definition encode :: "instruction \<Rightarrow> isa_error + int" where
  "encode i =
     (if \<not> fits 0 0x7F (in_rd i) then Inl (FieldRange ''rd'')
      else if \<not> fits 0 0x1F (in_rs1 i) then Inl (FieldRange ''rs1'')
      else if \<not> fits 0 0x1F (in_rs2 i) then Inl (FieldRange ''rs2'')
      else if \<not> fits 0 0x1F (in_rs3 i) then Inl (FieldRange ''rs3'')
      else if \<not> fits (-128) 127 (in_imm i) then Inl (FieldRange ''imm'')
      else
       (let raw = opcode_value (in_op i) AND 0x7F;
            raw = raw OR push_bit 7 (in_rd i AND 0x7F);
            raw = raw OR push_bit 14 (in_rs1 i AND 0x1F);
            raw = raw OR push_bit 19 (in_rs2 i AND 0x1F);
            raw = (if in_op i = MMA_SYNC then raw OR push_bit 24 (in_rs3 i AND 0x1F)
                   else raw OR push_bit 24 (in_imm i AND 0xFF))
        in Inr (raw AND 0xFFFFFFFF)))"

definition decode :: "int \<Rightarrow> isa_error + instruction" where
  "decode w =
     (if \<not> fits 0 0xFFFFFFFF w then Inl WordRange
      else (case opcode_of (w AND 0x7F) of
          None \<Rightarrow> Inl (UnknownOpcode (w AND 0x7F))
        | Some op \<Rightarrow>
           (let imm = drop_bit 24 w AND 0xFF;
                imm = (if imm AND 0x80 \<noteq> 0 then imm - 0x100 else imm)
            in Inr \<lparr>in_op = op, in_rd = drop_bit 7 w AND 0x7F, in_rs1 = drop_bit 14 w AND 0x1F,
                 in_rs2 = drop_bit 19 w AND 0x1F, in_rs3 = drop_bit 24 w AND 0x1F, in_imm = imm\<rparr>)))"

subsection \<open>Fields of a word\<close>

lemma and_masks [simp]:
  "x AND 0x1F = take_bit 5 x" "x AND 0x7F = take_bit 7 x" "x AND 0xFF = take_bit 8 x"
  "x AND 0xFFFFFFFF = take_bit 32 x" for x :: int
  by (simp_all add: take_bit_eq_mask mask_eq_exp_minus_1)

lemma opcode_of_value [simp]: "opcode_of (opcode_value op) = Some op"
  by (cases op) (simp_all add: opcode_of_def all_opcodes_def)

lemma opcode_of_SomeD: "opcode_of n = Some op \<Longrightarrow> opcode_value op = n"
  by (auto simp: opcode_of_def find_Some_iff)

lemma opcode_value_range: "take_bit 7 (opcode_value op) = opcode_value op"
  by (cases op) (simp_all add: take_bit_int_eq_self_iff)

definition pack :: "int \<Rightarrow> int \<Rightarrow> int \<Rightarrow> int \<Rightarrow> int \<Rightarrow> int" where
  "pack a b c d e = take_bit 7 a OR push_bit 7 (take_bit 7 b) OR push_bit 14 (take_bit 5 c) OR
     push_bit 19 (take_bit 5 d) OR push_bit 24 (take_bit 8 e)"

lemma bit_pack: "bit (pack a b c d e) n \<longleftrightarrow>
  (if n < 7 then bit a n else if n < 14 then bit b (n - 7) else if n < 19 then bit c (n - 14)
   else if n < 24 then bit d (n - 19) else n < 32 \<and> bit e (n - 24))"
  by (simp add: pack_def bit_or_iff bit_push_bit_iff bit_take_bit_iff) linarith

lemma pack_fields:
  "take_bit 7 (pack a b c d e) = take_bit 7 a"
  "take_bit 7 (drop_bit 7 (pack a b c d e)) = take_bit 7 b"
  "take_bit 5 (drop_bit 14 (pack a b c d e)) = take_bit 5 c"
  "take_bit 5 (drop_bit 19 (pack a b c d e)) = take_bit 5 d"
  "take_bit 8 (drop_bit 24 (pack a b c d e)) = take_bit 8 e"
  "take_bit 5 (drop_bit 24 (pack a b c d e)) = take_bit 5 e"
  "take_bit 32 (pack a b c d e) = pack a b c d e"
  by (rule bit_eqI; auto simp: bit_take_bit_iff bit_drop_bit_eq bit_pack)+

lemma pack_unpack:
  assumes w: "take_bit 32 w = w"
  shows "pack w (drop_bit 7 w) (drop_bit 14 w) (drop_bit 19 w) (drop_bit 24 w) = w"
proof (rule bit_eqI)
  fix n
  have lt: "n < 32" if "bit w n" using that w by (metis bit_take_bit_iff)
  consider "n < 7" | "7 \<le> n \<and> n < 14" | "14 \<le> n \<and> n < 19" | "19 \<le> n \<and> n < 24" | "24 \<le> n" by linarith
  then show "bit (pack w (drop_bit 7 w) (drop_bit 14 w) (drop_bit 19 w) (drop_bit 24 w)) n \<longleftrightarrow> bit w n"
    by cases (use lt in \<open>auto simp: pack_def bit_simps\<close>)
qed

lemma pack_unpack_mma:
  shows "pack w (drop_bit 7 w) (drop_bit 14 w) (drop_bit 19 w) (take_bit 5 (drop_bit 24 w)) = take_bit 29 w"
proof (rule bit_eqI)
  fix n :: nat
  consider "n < 7" | "7 \<le> n \<and> n < 14" | "14 \<le> n \<and> n < 19" | "19 \<le> n \<and> n < 24" | "24 \<le> n" by linarith
  then show "bit (pack w (drop_bit 7 w) (drop_bit 14 w) (drop_bit 19 w) (take_bit 5 (drop_bit 24 w))) n \<longleftrightarrow> bit (take_bit 29 w) n"
    by cases (auto simp: pack_def bit_simps)
qed

lemma encode_of_fits:
  assumes "fits 0 0x7F (in_rd i)" "fits 0 0x1F (in_rs1 i)" "fits 0 0x1F (in_rs2 i)" "fits 0 0x1F (in_rs3 i)"
    "fits (-128) 127 (in_imm i)"
  shows "encode i = Inr (pack (opcode_value (in_op i)) (in_rd i) (in_rs1 i) (in_rs2 i)
               (if in_op i = MMA_SYNC then take_bit 5 (in_rs3 i) else in_imm i))"
proof -
  have t: "take_bit 8 (take_bit 5 x) = take_bit 5 x" for x :: int by simp
  have "encode i = Inr (take_bit 32 (pack (opcode_value (in_op i)) (in_rd i) (in_rs1 i) (in_rs2 i)
               (if in_op i = MMA_SYNC then take_bit 5 (in_rs3 i) else in_imm i)))"
    using assms by (simp add: encode_def pack_def Let_def t or.assoc split: if_splits)
  then show ?thesis by (simp add: pack_fields)
qed

lemma encode_word:
  assumes "encode i = Inr w"
  shows "w = pack (opcode_value (in_op i)) (in_rd i) (in_rs1 i) (in_rs2 i)
               (if in_op i = MMA_SYNC then take_bit 5 (in_rs3 i) else in_imm i)"
    and "fits 0 0x7F (in_rd i)" "fits 0 0x1F (in_rs1 i)" "fits 0 0x1F (in_rs2 i)" "fits 0 0x1F (in_rs3 i)"
    and "fits (-128) 127 (in_imm i)"
proof -
  show *: "fits 0 0x7F (in_rd i)" "fits 0 0x1F (in_rs1 i)" "fits 0 0x1F (in_rs2 i)" "fits 0 0x1F (in_rs3 i)"
    "fits (-128) 127 (in_imm i)"
    using assms by (simp_all add: encode_def split: if_splits)
  show "w = pack (opcode_value (in_op i)) (in_rd i) (in_rs1 i) (in_rs2 i)
               (if in_op i = MMA_SYNC then take_bit 5 (in_rs3 i) else in_imm i)"
    using assms encode_of_fits [OF *] by simp
qed

lemma fits_take_bit_field: "fits 0 0x7F (take_bit 7 x)" "fits 0 0x1F (take_bit 5 x)"
  using take_bit_int_less_exp [of 7 x] take_bit_int_less_exp [of 5 x] by (simp_all add: fits_def)

lemma take_bit_32_fits: "fits 0 0xFFFFFFFF w \<longleftrightarrow> take_bit 32 w = w"
  by (auto simp: fits_def take_bit_int_eq_self_iff)

text \<open>The sign extension of the immediate byte.\<close>

definition sign8 :: "int \<Rightarrow> int" where
  "sign8 b = (if b AND 0x80 \<noteq> 0 then b - 0x100 else b)"

lemma and_128: "b AND 0x80 = 0 \<longleftrightarrow> \<not> bit b 7" for b :: int
  using and_exp_eq_0_iff_not_bit [of b 7] by simp

lemma bit_7: "128 \<le> b \<Longrightarrow> b < 256 \<Longrightarrow> bit b 7" "0 \<le> b \<Longrightarrow> b < 128 \<Longrightarrow> \<not> bit b 7" for b :: int
proof -
  assume "128 \<le> b" "b < 256"
  then have "b div 128 = 1" by presburger
  then show "bit b 7" by (simp add: bit_iff_odd)
next
  assume "0 \<le> b" "b < 128"
  then have "b div 128 = 0" by presburger
  then show "\<not> bit b 7" by (simp add: bit_iff_odd)
qed

lemma take_bit_8: "0 \<le> x \<Longrightarrow> x < 256 \<Longrightarrow> take_bit 8 x = x" "-256 \<le> x \<Longrightarrow> x < 0 \<Longrightarrow> take_bit 8 x = x + 256" for x :: int
proof -
  assume "0 \<le> x" "x < 256"
  then show "take_bit 8 x = x" by (simp add: take_bit_int_eq_self_iff)
next
  assume "-256 \<le> x" "x < 0"
  then have "take_bit 8 (x + 256) = x + 256" by (simp add: take_bit_int_eq_self_iff)
  moreover have "take_bit 8 (x + 256) = take_bit 8 x" by (simp add: take_bit_eq_mod)
  ultimately show "take_bit 8 x = x + 256" by simp
qed

lemma sign8_of_fits: "fits (-128) 127 x \<Longrightarrow> sign8 (take_bit 8 x) = x"
  by (cases "x < 0") (simp_all add: fits_def take_bit_8 sign8_def and_128 bit_7)

lemma take_bit_8_sign8: "0 \<le> b \<Longrightarrow> b \<le> 255 \<Longrightarrow> take_bit 8 (sign8 b) = b \<and> fits (-128) 127 (sign8 b)"
  by (cases "b < 128") (simp_all add: fits_def take_bit_8 sign8_def and_128 bit_7)

lemma decode_word:
  "decode w = Inr j \<longleftrightarrow> take_bit 32 w = w \<and> opcode_of (take_bit 7 w) = Some (in_op j) \<and>
     j = \<lparr>in_op = in_op j, in_rd = take_bit 7 (drop_bit 7 w), in_rs1 = take_bit 5 (drop_bit 14 w),
          in_rs2 = take_bit 5 (drop_bit 19 w), in_rs3 = take_bit 5 (drop_bit 24 w),
          in_imm = sign8 (take_bit 8 (drop_bit 24 w))\<rparr>"
  by (auto simp: decode_def take_bit_32_fits Let_def sign8_def split: option.splits)

text \<open>What a word carries of an instruction: \<open>rs3\<close> and \<open>imm\<close> share the top byte, so a word keeps only the one its opcode
  selects, and decoding reads both fields from that byte.\<close>

definition carried :: "instruction \<Rightarrow> instruction" where
  "carried i = (if in_op i = MMA_SYNC then i\<lparr>in_imm := in_rs3 i\<rparr>
                else i\<lparr>in_rs3 := take_bit 5 (in_imm i)\<rparr>)"

lemma decode_encoded:
  assumes "encode i = Inr w"
  shows "decode w = Inr (carried i)"
proof -
  note W = encode_word [OF assms]
  have r: "take_bit 7 (in_rd i) = in_rd i" "take_bit 5 (in_rs1 i) = in_rs1 i" "take_bit 5 (in_rs2 i) = in_rs2 i"
    "take_bit 5 (in_rs3 i) = in_rs3 i" "take_bit 8 (in_rs3 i) = in_rs3 i" "\<not> bit (in_rs3 i) 7"
    using W(2-5) by (simp_all add: fits_def take_bit_int_eq_self_iff bit_7)
  show ?thesis
  proof (cases "in_op i = MMA_SYNC")
    case True
    then show ?thesis using W(1)
      by (simp add: decode_word pack_fields r opcode_value_range carried_def sign8_def and_128 True [symmetric])
  next
    case False
    then show ?thesis using W(1)
      by (simp add: decode_word pack_fields r opcode_value_range carried_def sign8_of_fits [OF W(6)])
  qed
qed

text \<open>C37: A word that \<open>encode\<close> produces decodes to the instruction it came from, with the field its opcode does not select
  read back from the shared top byte: an immediate comes back with its sign, a matrix operation's third source register
  intact, but the third source register of every other operation is lost.\<close>

theorem decode_encode:
  assumes "encode i = Inr w"
  shows "decode w = Inr (carried i)"
  by (rule decode_encoded [OF assms])

theorem decode_encode_witness:
  "decode 0xFE190181 = Inr (carried \<lparr>in_op = VADD, in_rd = 3, in_rs1 = 4, in_rs2 = 3, in_rs3 = 9, in_imm = -2\<rparr>)"
  by (rule decode_encode) (simp add: encode_def fits_def push_bit_eq_mult take_bit_eq_mod)

lemma encode_decoded:
  assumes "decode w = Inr i"
  shows "encode i = Inr (if in_op i = MMA_SYNC then take_bit 29 w else w)"
proof -
  have w: "take_bit 32 w = w" and op: "opcode_value (in_op i) = take_bit 7 w"
    and i: "i = \<lparr>in_op = in_op i, in_rd = take_bit 7 (drop_bit 7 w), in_rs1 = take_bit 5 (drop_bit 14 w),
          in_rs2 = take_bit 5 (drop_bit 19 w), in_rs3 = take_bit 5 (drop_bit 24 w),
          in_imm = sign8 (take_bit 8 (drop_bit 24 w))\<rparr>"
    using assms by (simp_all add: decode_word opcode_of_SomeD)
  have f: "in_rd i = take_bit 7 (drop_bit 7 w)" "in_rs1 i = take_bit 5 (drop_bit 14 w)"
    "in_rs2 i = take_bit 5 (drop_bit 19 w)" "in_rs3 i = take_bit 5 (drop_bit 24 w)"
    "in_imm i = sign8 (take_bit 8 (drop_bit 24 w))"
    by (subst i, simp)+
  have b: "take_bit 8 (in_imm i) = take_bit 8 (drop_bit 24 w) \<and> fits (-128) 127 (in_imm i)"
    unfolding f using take_bit_int_less_exp [of 8 "drop_bit 24 w"] by (intro take_bit_8_sign8) simp_all
  have "encode i = Inr (pack (opcode_value (in_op i)) (in_rd i) (in_rs1 i) (in_rs2 i)
          (if in_op i = MMA_SYNC then take_bit 5 (in_rs3 i) else in_imm i))"
    using b by (intro encode_of_fits) (simp_all add: f fits_take_bit_field)
  also have "pack (opcode_value (in_op i)) (in_rd i) (in_rs1 i) (in_rs2 i)
          (if in_op i = MMA_SYNC then take_bit 5 (in_rs3 i) else in_imm i) =
      (if in_op i = MMA_SYNC then take_bit 29 w else w)"
  proof -
    have p: "pack (opcode_value (in_op i)) (in_rd i) (in_rs1 i) (in_rs2 i) e =
        pack w (drop_bit 7 w) (drop_bit 14 w) (drop_bit 19 w) e" for e
      by (simp add: pack_def op f)
    have "pack w (drop_bit 7 w) (drop_bit 14 w) (drop_bit 19 w) (in_imm i) = w"
      using pack_unpack [OF w] b by (simp add: pack_def)
    then show ?thesis using pack_unpack_mma [of w] by (simp add: p f(4))
  qed
  finally show ?thesis .
qed

text \<open>Every word that decodes re-encodes to itself, so loading and storing a program changes nothing; only a matrix operation
  drops the three top bits, which no field of it reads.\<close>

theorem encode_decode:
  assumes "decode w = Inr i"
  shows "encode i = Inr (if in_op i = MMA_SYNC then take_bit 29 w else w)"
  by (rule encode_decoded [OF assms])

theorem encode_decode_witness:
  "encode \<lparr>in_op = VADD, in_rd = 3, in_rs1 = 4, in_rs2 = 3, in_rs3 = 30, in_imm = -2\<rparr> = Inr 0xFE190181"
  using encode_decode [where w = "0xFE190181" and i = "\<lparr>in_op = VADD, in_rd = 3, in_rs1 = 4, in_rs2 = 3, in_rs3 = 30, in_imm = -2\<rparr>"]
  by (simp add: decode_def fits_def opcode_of_def all_opcodes_def drop_bit_eq_div take_bit_eq_mod and_128 bit_7)

end
