(* ===== verification/Warp.thy ===== *)
theory Warp
  imports Zisa
begin

unbundle bit_operations_syntax

text \<open>
  \<open>src/zgpu/simulator/warp.py\<close>: a warp of 32 lanes with its register file, active mask and divergence stack, and which
  lanes the mask can still reach.
\<close>

definition WARP_SIZE :: nat where
  "WARP_SIZE = 32"

record divergence_entry =
  de_target_pc :: int
  de_active_mask :: int

record warp =
  w_warp_id :: int
  w_block_id :: int
  w_pc :: int
  w_active_mask :: int
  w_divergence_stack :: "divergence_entry list"
  w_rf :: "int list list"
  w_halted :: bool
  w_stalled :: bool
  w_cycles_executed :: int

text \<open>\<open>Warp(warp_id, block_id)\<close> with the default of 128 registers; the top of the stack is the last entry.\<close>

definition warp_new :: "nat \<Rightarrow> int \<Rightarrow> int \<Rightarrow> warp" where
  "warp_new num_regs warp_id block_id =
     \<lparr>w_warp_id = warp_id, w_block_id = block_id, w_pc = 0, w_active_mask = 0xFFFFFFFF, w_divergence_stack = [],
      w_rf = map (\<lambda>lane. (replicate num_regs 0)[0 := int lane + warp_id * int WARP_SIZE, 1 := block_id]) [0..<WARP_SIZE],
      w_halted = False, w_stalled = False, w_cycles_executed = 0\<rparr>"

definition lane_in :: "int \<Rightarrow> nat \<Rightarrow> bool" where
  "lane_in m lane \<longleftrightarrow> m AND push_bit lane 1 \<noteq> 0"

definition is_active :: "warp \<Rightarrow> nat \<Rightarrow> bool" where
  "is_active w lane = lane_in (w_active_mask w) lane"

definition split_divergence :: "int \<Rightarrow> int \<Rightarrow> int \<Rightarrow> warp \<Rightarrow> warp" where
  "split_divergence fallthrough_pc branch_pc taken_mask w =
     (let taken_active = w_active_mask w AND taken_mask;
          fallthrough_active = w_active_mask w AND NOT taken_mask
      in if taken_active \<noteq> 0 \<and> fallthrough_active \<noteq> 0
         then w\<lparr>w_divergence_stack := w_divergence_stack w @
                  [\<lparr>de_target_pc = fallthrough_pc, de_active_mask = fallthrough_active\<rparr>],
                w_active_mask := taken_active, w_pc := branch_pc\<rparr>
         else if taken_active \<noteq> 0 then w\<lparr>w_pc := branch_pc\<rparr>
         else w\<lparr>w_pc := fallthrough_pc\<rparr>)"

definition pop_divergence :: "warp \<Rightarrow> bool \<times> warp" where
  "pop_divergence w =
     (if w_divergence_stack w = [] then (False, w)
      else (let entry = last (w_divergence_stack w)
            in (True, w\<lparr>w_divergence_stack := butlast (w_divergence_stack w), w_pc := de_target_pc entry,
                        w_active_mask := de_active_mask entry\<rparr>)))"

subsection \<open>Lanes and masks\<close>

lemma lane_in_bit: "lane_in m lane \<longleftrightarrow> bit m lane"
  by (simp add: lane_in_def bit_iff_and_push_bit_not_eq_0)

definition lanes_of :: "int \<Rightarrow> nat set" where
  "lanes_of m = {lane. bit m lane}"

text \<open>The lanes a warp can still run: those of its mask and of the paths it has stacked.\<close>

definition live_lanes :: "warp \<Rightarrow> nat set" where
  "live_lanes w = lanes_of (w_active_mask w) \<union> (\<Union>e \<in> set (w_divergence_stack w). lanes_of (de_active_mask e))"

text \<open>Pairwise disjointness of the mask and the stacked masks, and no lane beyond the warp.\<close>

fun disjoint_masks :: "int list \<Rightarrow> bool" where
  "disjoint_masks [] = True"
| "disjoint_masks (m # ms) = ((\<forall>m' \<in> set ms. m AND m' = 0) \<and> disjoint_masks ms)"

definition warp_masks :: "warp \<Rightarrow> int list" where
  "warp_masks w = w_active_mask w # rev (map de_active_mask (w_divergence_stack w))"

definition warp_wf :: "warp \<Rightarrow> bool" where
  "warp_wf w \<longleftrightarrow> length (w_rf w) = WARP_SIZE \<and> (\<forall>regs \<in> set (w_rf w). length regs = 128) \<and>
     disjoint_masks (warp_masks w) \<and> (\<forall>m \<in> set (warp_masks w). m \<noteq> 0 \<and> take_bit 32 m = m)"

lemma lanes_of_simps [simp]: "lanes_of (a AND b) = lanes_of a \<inter> lanes_of b" "lanes_of (NOT a) = - lanes_of a"
  "lanes_of (a OR b) = lanes_of a \<union> lanes_of b" "lanes_of 0 = {}"
  by (auto simp: lanes_of_def bit_simps)

lemma lanes_of_eq_iff: "lanes_of a = lanes_of b \<longleftrightarrow> a = b"
  by (auto simp: lanes_of_def set_eq_iff intro: bit_eqI)

lemma lanes_of_empty [simp]: "lanes_of a = {} \<longleftrightarrow> a = 0"
  using lanes_of_eq_iff [of a 0] by simp

lemma and_zero_lanes: "a AND b = 0 \<longleftrightarrow> lanes_of a \<inter> lanes_of b = {}"
  using lanes_of_empty [of "a AND b"] by simp

lemma take_bit_32_lanes: "take_bit 32 a = a \<longleftrightarrow> lanes_of a \<subseteq> {..<32}"
proof -
  have "lanes_of (take_bit 32 a) = lanes_of a \<inter> {..<32}" by (auto simp: lanes_of_def bit_simps)
  then show ?thesis using lanes_of_eq_iff [of "take_bit 32 a" a] by auto
qed

lemma live_lanes_masks: "live_lanes w = (\<Union>m \<in> set (warp_masks w). lanes_of m)"
  by (auto simp: live_lanes_def warp_masks_def)

lemma split_live_lanes [simp]: "live_lanes (split_divergence f b t w) = live_lanes w"
  by (auto simp: split_divergence_def Let_def live_lanes_def)

text \<open>Joining pops the stacked path; the lanes that ran until then are dropped.\<close>

lemma pop_live_lanes:
  assumes "warp_wf w" and "w_divergence_stack w \<noteq> []"
  shows "live_lanes (snd (pop_divergence w)) = live_lanes w - lanes_of (w_active_mask w)"
proof -
  obtain es e where s: "w_divergence_stack w = es @ [e]" using assms(2) by (metis rev_exhaust)
  have "disjoint_masks (w_active_mask w # rev (map de_active_mask (w_divergence_stack w)))"
    using assms(1) by (simp add: warp_wf_def warp_masks_def)
  then have "\<forall>m \<in> set (map de_active_mask (w_divergence_stack w)). w_active_mask w AND m = 0" by simp
  then have "\<forall>x \<in> set (w_divergence_stack w). lanes_of (w_active_mask w) \<inter> lanes_of (de_active_mask x) = {}"
    by (simp add: and_zero_lanes)
  then show ?thesis by (auto simp: pop_divergence_def Let_def live_lanes_def s)
qed

lemma warp_wf_split: "warp_wf w \<Longrightarrow> warp_wf (split_divergence f b t w)"
proof -
  assume w: "warp_wf w"
  show ?thesis
  proof (cases "w_active_mask w AND t \<noteq> 0 \<and> w_active_mask w AND NOT t \<noteq> 0")
    case True
    then show ?thesis using w
      by (auto simp: split_divergence_def Let_def warp_wf_def warp_masks_def and_zero_lanes take_bit_32_lanes)
  next
    case False
    then show ?thesis using w by (auto simp: split_divergence_def Let_def warp_wf_def warp_masks_def)
  qed
qed

lemma warp_wf_pop: "warp_wf w \<Longrightarrow> warp_wf (snd (pop_divergence w))"
proof (cases "w_divergence_stack w" rule: rev_cases)
  case (snoc es e)
  assume "warp_wf w"
  then show ?thesis using snoc by (auto simp: pop_divergence_def Let_def warp_wf_def warp_masks_def)
qed (simp add: pop_divergence_def)

lemma warp_wf_new: "warp_wf (warp_new 128 i b)"
  by (auto simp: warp_wf_def warp_new_def warp_masks_def take_bit_eq_mod WARP_SIZE_def)

end
