(* ===== verification/GpuMemory.thy ===== *)
theory GpuMemory
  imports Warp
begin

unbundle bit_operations_syntax

text \<open>
  \<open>src/zgpu/simulator/memory.py\<close>: byte-addressed global memory with coalesced warp accesses, and the banked shared memory.
  A \<open>bytearray\<close> is a function from addresses to bytes of which the addresses below the size count. Binary32 conversion and
  the double arithmetic between conversions are a parameter, the record \<open>fpu\<close>: \<open>fp_to_bits\<close> is \<open>None\<close> where \<open>struct.pack\<close>
  raises \<open>OverflowError\<close>.
\<close>

record 'f fpu =
  fp_of_bits :: "int \<Rightarrow> 'f"
  fp_to_bits :: "'f \<Rightarrow> int option"
  fp_zero :: 'f
  fp_add :: "'f \<Rightarrow> 'f \<Rightarrow> 'f"
  fp_sub :: "'f \<Rightarrow> 'f \<Rightarrow> 'f"
  fp_mul :: "'f \<Rightarrow> 'f \<Rightarrow> 'f"

subsection \<open>Global memory\<close>

record global_memory =
  gm_size :: int
  gm_data :: "int \<Rightarrow> int"
  gm_read_transactions :: nat
  gm_write_transactions :: nat

definition gm_new :: "int \<Rightarrow> global_memory" where
  "gm_new size_bytes = \<lparr>gm_size = size_bytes, gm_data = (\<lambda>a. 0), gm_read_transactions = 0, gm_write_transactions = 0\<rparr>"

definition in_memory :: "global_memory \<Rightarrow> int \<Rightarrow> bool" where
  "in_memory gm addr \<longleftrightarrow> addr \<ge> 0 \<and> addr + 4 \<le> gm_size gm"

text \<open>\<open>struct.pack_into("<i", ...)\<close> and \<open>struct.unpack_from("<i", ...)\<close>: four bytes, the lowest first.\<close>

definition put_word :: "int \<Rightarrow> int \<Rightarrow> (int \<Rightarrow> int) \<Rightarrow> int \<Rightarrow> int" where
  "put_word addr v d = d(addr := v mod 256, addr + 1 := v div 256 mod 256, addr + 2 := v div 65536 mod 256,
     addr + 3 := v div 16777216 mod 256)"

definition get_word :: "int \<Rightarrow> (int \<Rightarrow> int) \<Rightarrow> int" where
  "get_word addr d = d addr + 256 * d (addr + 1) + 65536 * d (addr + 2) + 16777216 * d (addr + 3)"

text \<open>The signed reading of the low 32 bits.\<close>

definition signed32 :: "int \<Rightarrow> int" where
  "signed32 v = (let value = v AND 0xFFFFFFFF in if value \<ge> 0x80000000 then value - 0x100000000 else value)"

definition write_i32 :: "int \<Rightarrow> int \<Rightarrow> global_memory \<Rightarrow> global_memory" where
  "write_i32 addr val gm =
     (if in_memory gm addr
      then gm\<lparr>gm_data := put_word addr (signed32 val) (gm_data gm), gm_write_transactions := gm_write_transactions gm + 1\<rparr>
      else gm)"

definition read_i32 :: "int \<Rightarrow> global_memory \<Rightarrow> int \<times> global_memory" where
  "read_i32 addr gm =
     (if in_memory gm addr
      then (signed32 (get_word addr (gm_data gm)), gm\<lparr>gm_read_transactions := gm_read_transactions gm + 1\<rparr>)
      else (0, gm))"

definition write_f32 :: "'f fpu \<Rightarrow> int \<Rightarrow> 'f \<Rightarrow> global_memory \<Rightarrow> global_memory option" where
  "write_f32 fpu addr val gm =
     (if in_memory gm addr
      then (case fp_to_bits fpu val of
              None \<Rightarrow> None
            | Some b \<Rightarrow> Some (gm\<lparr>gm_data := put_word addr b (gm_data gm), gm_write_transactions := gm_write_transactions gm + 1\<rparr>))
      else Some gm)"

definition read_f32 :: "'f fpu \<Rightarrow> int \<Rightarrow> global_memory \<Rightarrow> 'f \<times> global_memory" where
  "read_f32 fpu addr gm =
     (if in_memory gm addr
      then (fp_of_bits fpu (get_word addr (gm_data gm)), gm\<lparr>gm_read_transactions := gm_read_transactions gm + 1\<rparr>)
      else (fp_zero fpu, gm))"

subsection \<open>Coalesced accesses\<close>

text \<open>The 128-byte lines a word access touches: \<open>range(addr >> 7, ((addr + 3) >> 7) + 1)\<close>.\<close>

definition touched_lines :: "int \<Rightarrow> int list" where
  "touched_lines addr = [drop_bit 7 addr .. drop_bit 7 (addr + 3)]"

text \<open>The size of the set of lines.\<close>

definition line_count :: "int list \<Rightarrow> nat" where
  "line_count lines = length (remdups lines)"

definition serves :: "global_memory \<Rightarrow> int \<Rightarrow> nat \<Rightarrow> int \<Rightarrow> bool" where
  "serves gm act lane addr \<longleftrightarrow> lane_in act lane \<and> in_memory gm addr"

definition coalesced_lines :: "global_memory \<Rightarrow> int list \<Rightarrow> int \<Rightarrow> int list" where
  "coalesced_lines gm addresses act =
     concat (map (\<lambda>(lane, addr). if serves gm act lane addr then touched_lines addr else []) (enumerate 0 addresses))"

definition coalesced_load_32 :: "int list \<Rightarrow> int \<Rightarrow> global_memory \<Rightarrow> (int list \<times> nat) \<times> global_memory" where
  "coalesced_load_32 addresses act gm =
     (let lines = coalesced_lines gm addresses act;
          vals = map (\<lambda>(lane, addr). if serves gm act lane addr then signed32 (get_word addr (gm_data gm)) else 0)
                   (enumerate 0 addresses)
      in ((vals, line_count lines), gm\<lparr>gm_read_transactions := gm_read_transactions gm + line_count lines\<rparr>))"

fun store_lanes :: "global_memory \<Rightarrow> int \<Rightarrow> (nat \<times> int \<times> int) list \<Rightarrow> (int \<Rightarrow> int) \<Rightarrow> int \<Rightarrow> int" where
  "store_lanes gm act [] d = d"
| "store_lanes gm act ((lane, addr, v) # rest) d =
     store_lanes gm act rest (if serves gm act lane addr then put_word addr (signed32 v) d else d)"

text \<open>\<open>None\<close> is the \<open>ValueError\<close> for a store that is not 32 lanes wide.\<close>

definition coalesced_store_32 :: "int list \<Rightarrow> int list \<Rightarrow> int \<Rightarrow> global_memory \<Rightarrow> (nat \<times> global_memory) option" where
  "coalesced_store_32 addresses vals act gm =
     (if length addresses \<noteq> 32 \<or> length vals \<noteq> 32 then None
      else (let lines = coalesced_lines gm addresses act
            in Some (line_count lines,
                 gm\<lparr>gm_data := store_lanes gm act (enumerate 0 (zip addresses vals)) (gm_data gm),
                    gm_write_transactions := gm_write_transactions gm + line_count lines\<rparr>)))"

subsection \<open>Shared memory\<close>

definition NUM_BANKS :: int where
  "NUM_BANKS = 32"

record shared_memory =
  sh_size :: int
  sh_data :: "int list"
  sh_total_accesses :: nat
  sh_bank_conflicts :: nat

definition sh_new :: "int \<Rightarrow> shared_memory" where
  "sh_new size_bytes = \<lparr>sh_size = size_bytes, sh_data = replicate (nat (size_bytes div 4)) 0, sh_total_accesses = 0, sh_bank_conflicts = 0\<rparr>"

text \<open>The requests per bank, in order of the first request.\<close>

definition bank_usage :: "int list \<Rightarrow> int \<Rightarrow> (int \<times> (nat \<times> int) list) list" where
  "bank_usage word_indices act =
     foldl (\<lambda>usage (lane, idx). if lane_in act lane
        then dict_set usage (idx mod NUM_BANKS) (dict_get usage (idx mod NUM_BANKS) [] @ [(lane, idx)]) else usage)
       [] (enumerate 0 word_indices)"

definition conflicts_of :: "(int \<times> (nat \<times> int) list) list \<Rightarrow> nat" where
  "conflicts_of usage = sum_list (map (\<lambda>(bank, requests).
     (let n = length (remdups (map snd requests)) in if n > 1 then n - 1 else 0)) usage)"

text \<open>
  The data loop; \<open>None\<close> is the \<open>IndexError\<close> of a lane without a result slot or a value to write, with the data written
  before it.
\<close>

fun access_lanes ::
  "int \<Rightarrow> int list option \<Rightarrow> (nat \<times> int) list \<Rightarrow> int list \<Rightarrow> int list \<Rightarrow> int list option \<times> int list" where
  "access_lanes act wvals [] data results = (Some results, data)"
| "access_lanes act wvals ((lane, idx) # rest) data results =
     (if lane_in act lane \<and> 0 \<le> idx \<and> idx < int (length data)
      then (case wvals of
              Some vs \<Rightarrow>
                if lane < length vs then
                  (if lane < length results
                   then access_lanes act wvals rest (data[nat idx := vs ! lane]) (results[lane := vs ! lane])
                   else (None, data[nat idx := vs ! lane]))
                else (None, data)
            | None \<Rightarrow> if lane < length results then access_lanes act wvals rest data (results[lane := data ! nat idx])
                      else (None, data))
      else access_lanes act wvals rest data results)"

definition access_warp ::
  "int list \<Rightarrow> int \<Rightarrow> bool \<Rightarrow> int list option \<Rightarrow> shared_memory \<Rightarrow> int list option \<times> shared_memory" where
  "access_warp word_indices act is_write write_vals sh =
     (let sh1 = sh\<lparr>sh_bank_conflicts := sh_bank_conflicts sh + conflicts_of (bank_usage word_indices act)\<rparr>
      in (case access_lanes act (if is_write then write_vals else None) (enumerate 0 word_indices) (sh_data sh1)
                 (replicate 32 0) of
            (None, d) \<Rightarrow> (None, sh1\<lparr>sh_data := d\<rparr>)
          | (Some results, d) \<Rightarrow>
              (Some results, sh1\<lparr>sh_data := d, sh_total_accesses := sh_total_accesses sh1 + 1\<rparr>)))"

subsection \<open>Words in memory\<close>

lemma signed32_eq: "signed32 v = (if v mod 4294967296 \<ge> 2147483648 then v mod 4294967296 - 4294967296 else v mod 4294967296)"
  by (simp add: signed32_def Let_def take_bit_eq_mod)

lemma signed32_mod [simp]: "signed32 (v mod 4294967296) = signed32 v"
  by (simp add: signed32_eq)

lemma signed32_mod_eq [simp]: "signed32 v mod 4294967296 = v mod 4294967296"
  by (simp add: signed32_eq)

lemma signed32_signed32 [simp]: "signed32 (signed32 v) = signed32 v"
  by (metis signed32_mod signed32_mod_eq)

lemma signed32_bounds: "-2147483648 \<le> signed32 v" "signed32 v < 2147483648"
proof -
  have "0 \<le> v mod 4294967296" "v mod 4294967296 < 4294967296" by simp_all
  then show "-2147483648 \<le> signed32 v" "signed32 v < 2147483648"
    unfolding signed32_eq by (cases "v mod 4294967296 \<ge> 2147483648"; simp only: if_True if_False; linarith)+
qed

lemma bytes_of_word: "v mod 256 + 256 * (v div 256 mod 256) + 65536 * (v div 65536 mod 256) +
    16777216 * (v div 16777216 mod 256) = v mod 4294967296" for v :: int
proof -
  have n: "(4294967296::int) = 256 * 16777216" "(16777216::int) = 256 * 65536" "(65536::int) = 256 * 256" by simp_all
  have a: "v mod 4294967296 = 256 * (v div 256 mod 16777216) + v mod 256" unfolding n(1) by (rule zmod_zmult2_eq) simp
  have "v div 256 mod 16777216 = 256 * (v div 256 div 256 mod 65536) + v div 256 mod 256"
    unfolding n(2) by (rule zmod_zmult2_eq) simp
  moreover have c: "v div 256 div 256 = v div 65536" unfolding n(3) by (rule zdiv_zmult2_eq [symmetric]) simp
  ultimately have b: "v div 256 mod 16777216 = 256 * (v div 65536 mod 65536) + v div 256 mod 256" by (simp only:)
  have "v div 65536 mod 65536 = 256 * (v div 65536 div 256 mod 256) + v div 65536 mod 256"
    by (subst (2) n(3)) (rule zmod_zmult2_eq, simp)
  moreover have "v div 65536 div 256 = v div 16777216"
    using zdiv_zmult2_eq [of 256 v 65536] n(2) by (simp only: mult.commute)
  ultimately have d: "v div 65536 mod 65536 = 256 * (v div 16777216 mod 256) + v div 65536 mod 256" by (simp only:)
  show ?thesis using a b d by linarith
qed

lemma get_put_word [simp]: "get_word addr (put_word addr v d) = v mod 4294967296"
proof -
  have "put_word addr v d addr = v mod 256" "put_word addr v d (addr + 1) = v div 256 mod 256"
    "put_word addr v d (addr + 2) = v div 65536 mod 256" "put_word addr v d (addr + 3) = v div 16777216 mod 256"
    by (simp_all add: put_word_def)
  then show ?thesis unfolding get_word_def by (simp only: bytes_of_word)
qed

lemma get_put_word_other: "addr' + 4 \<le> addr \<or> addr + 4 \<le> addr' \<Longrightarrow> get_word addr' (put_word addr v d) = get_word addr' d"
  by (auto simp: get_word_def put_word_def)

lemma read_write_i32: "in_memory gm addr \<Longrightarrow> fst (read_i32 addr (write_i32 addr v gm)) = signed32 v"
  by (simp add: read_i32_def write_i32_def in_memory_def)

lemma enumerate_map_nth: "enumerate 0 xs = map (\<lambda>n. (n, xs ! n)) [0..<length xs]"
  by (intro nth_equalityI) (simp_all add: nth_enumerate_eq)

lemma load_values: "fst (fst (coalesced_load_32 addresses act gm)) =
    map (\<lambda>lane. if lane_in act lane then fst (read_i32 (addresses ! lane) gm) else 0) [0..<length addresses]"
  by (simp add: coalesced_load_32_def Let_def enumerate_map_nth read_i32_def serves_def)

text \<open>A coalesced store writes what one \<open>write_i32\<close> after the other would.\<close>

definition store_each :: "int \<Rightarrow> (nat \<times> int \<times> int) list \<Rightarrow> global_memory \<Rightarrow> global_memory" where
  "store_each act reqs gm = foldl (\<lambda>g (lane, addr, v). if lane_in act lane then write_i32 addr v g else g) gm reqs"

lemma write_i32_size [simp]: "gm_size (write_i32 a v gm) = gm_size gm"
  by (simp add: write_i32_def)

lemma store_each_size [simp]: "gm_size (store_each act reqs gm) = gm_size gm"
  by (induction reqs arbitrary: gm) (auto simp: store_each_def)

lemma store_lanes_each: "gm_size g = gm_size gm \<Longrightarrow>
    store_lanes gm act reqs (gm_data g) = gm_data (store_each act reqs g)"
proof (induction reqs arbitrary: g)
  case (Cons r reqs)
  obtain lane addr v where r: "r = (lane, addr, v)" by (cases r)
  let ?g = "if lane_in act lane then write_i32 addr v g else g"
  have "gm_data ?g = (if serves gm act lane addr then put_word addr (signed32 v) (gm_data g) else gm_data g)"
    using Cons.prems by (simp add: serves_def write_i32_def in_memory_def)
  moreover have "store_each act (r # reqs) g = store_each act reqs ?g" by (simp add: store_each_def r)
  ultimately show ?case using Cons.IH [of ?g] Cons.prems by (simp add: r)
qed (simp add: store_each_def)

lemma coalesced_store_data:
  assumes "coalesced_store_32 addresses vals act gm = Some (n, gm')"
  shows "gm_data gm' = gm_data (store_each act (enumerate 0 (zip addresses vals)) gm)"
  using assms store_lanes_each [of gm gm] by (auto simp: coalesced_store_32_def Let_def split: if_splits)

lemma touched_lines_length: "length (touched_lines addr) \<le> 2"
  by (simp add: touched_lines_def drop_bit_eq_div)

lemma coalesced_lines_length:
  "length (coalesced_lines gm addresses act) \<le> 2 * card {lane. lane < length addresses \<and> lane_in act lane}"
proof -
  let ?f = "\<lambda>lane. if serves gm act lane (addresses ! lane) then touched_lines (addresses ! lane) else []"
  have "length (coalesced_lines gm addresses act) = sum_list (map (\<lambda>lane. length (?f lane)) [0..<length addresses])"
    by (simp add: coalesced_lines_def enumerate_map_nth length_concat o_def)
  also have "\<dots> \<le> sum_list (map (\<lambda>lane. if lane_in act lane then 2 else 0) [0..<length addresses])"
    by (intro sum_list_mono) (auto simp: serves_def touched_lines_length)
  also have "\<dots> = 2 * length (filter (lane_in act) [0..<length addresses])"
    by (induction "[0..<length addresses]") (auto simp: sum_list_map_filter' [symmetric] sum_list_triv)
  also have "length (filter (lane_in act) [0..<length addresses]) = card {lane. lane < length addresses \<and> lane_in act lane}"
    by (subst distinct_card [symmetric]) (auto intro!: arg_cong [where f = card])
  finally show ?thesis .
qed

text \<open>What a lane finds after a store whose active words do not overlap.\<close>

lemma store_each_get:
  assumes "\<forall>(lane, addr, v) \<in> set reqs. lane_in act lane \<longrightarrow> addr + 4 \<le> a \<or> a + 4 \<le> addr"
  shows "get_word a (gm_data (store_each act reqs gm)) = get_word a (gm_data gm)"
  using assms
proof (induction reqs arbitrary: gm)
  case (Cons r reqs)
  obtain lane addr v where r: "r = (lane, addr, v)" by (cases r)
  let ?g = "if lane_in act lane then write_i32 addr v gm else gm"
  have "get_word a (gm_data ?g) = get_word a (gm_data gm)"
    using Cons.prems by (auto simp: r write_i32_def get_put_word_other)
  with Cons show ?case by (simp add: store_each_def r)
qed (simp add: store_each_def)

subsection \<open>Bank conflicts in closed form\<close>

definition active_requests :: "int list \<Rightarrow> int \<Rightarrow> (nat \<times> int) list" where
  "active_requests word_indices act = filter (\<lambda>(lane, idx). lane_in act lane) (enumerate 0 word_indices)"

definition of_bank :: "int \<Rightarrow> (nat \<times> int) list \<Rightarrow> (nat \<times> int) list" where
  "of_bank b reqs = filter (\<lambda>(lane, idx). idx mod NUM_BANKS = b) reqs"

definition add_request :: "(int \<times> (nat \<times> int) list) list \<Rightarrow> nat \<times> int \<Rightarrow> (int \<times> (nat \<times> int) list) list" where
  "add_request usage = (\<lambda>(lane, idx). dict_set usage (idx mod NUM_BANKS) (dict_get usage (idx mod NUM_BANKS) [] @ [(lane, idx)]))"

lemma add_request_pair: "add_request usage (lane, idx) =
    dict_set usage (idx mod NUM_BANKS) (dict_get usage (idx mod NUM_BANKS) [] @ [(lane, idx)])"
  by (simp add: add_request_def)

lemma bank_usage_fold: "bank_usage word_indices act = foldl add_request [] (active_requests word_indices act)"
proof -
  have "foldl (\<lambda>usage (lane, idx). if lane_in act lane
        then dict_set usage (idx mod NUM_BANKS) (dict_get usage (idx mod NUM_BANKS) [] @ [(lane, idx)]) else usage) u xs =
      foldl add_request u (filter (\<lambda>(lane, idx). lane_in act lane) xs)" for u xs
    by (induction xs arbitrary: u) (auto simp: add_request_def)
  then show ?thesis by (simp add: bank_usage_def active_requests_def)
qed

lemma usage_lookup: "map_of (foldl add_request [] reqs) b = (if of_bank b reqs = [] then None else Some (of_bank b reqs))"
proof (induction reqs arbitrary: b rule: rev_induct)
  case (snoc r reqs)
  obtain lane idx where r: "r = (lane, idx)" by (cases r)
  have "dict_get (foldl add_request [] reqs) (idx mod NUM_BANKS) [] = of_bank (idx mod NUM_BANKS) reqs"
    using snoc.IH by (simp add: dict_get_def)
  then have "foldl add_request [] (reqs @ [r]) =
      dict_set (foldl add_request [] reqs) (idx mod NUM_BANKS) (of_bank (idx mod NUM_BANKS) reqs @ [r])"
    using add_request_pair [of "foldl add_request [] reqs" lane idx] by (simp add: r)
  then show ?case using snoc.IH [of b] by (simp add: r of_bank_def)
qed (simp add: of_bank_def)

lemma usage_distinct: "distinct (map fst (foldl add_request [] reqs))"
  by (induction reqs rule: rev_induct) (auto simp: add_request_def distinct_keys_dict_set split: prod.splits)

lemma usage_keys: "set (map fst (foldl add_request [] reqs)) = (\<lambda>r. snd r mod NUM_BANKS) ` set reqs"
proof -
  have "b \<in> set (map fst (foldl add_request [] reqs)) \<longleftrightarrow> of_bank b reqs \<noteq> []" for b
    using usage_lookup [of reqs b] map_of_eq_None_iff [of "foldl add_request [] reqs" b] by (auto split: if_splits)
  moreover have "of_bank b reqs \<noteq> [] \<longleftrightarrow> b \<in> (\<lambda>r. snd r mod NUM_BANKS) ` set reqs" for b
    by (force simp: of_bank_def filter_empty_conv)
  ultimately show ?thesis by blast
qed

lemma sum_list_keys:
  assumes "distinct (map fst kvs)"
  shows "sum_list (map (\<lambda>(k, v). f k v) kvs) = (\<Sum>k \<in> set (map fst kvs). f k (the (map_of kvs k)))"
  using assms
proof (induction kvs)
  case (Cons kv kvs)
  obtain k v where kv: "kv = (k, v)" by (cases kv)
  have "(\<Sum>k' \<in> set (map fst kvs). f k' (the (map_of (kv # kvs) k'))) = (\<Sum>k' \<in> set (map fst kvs). f k' (the (map_of kvs k')))"
    using Cons.prems by (intro sum.cong) (auto simp: kv)
  then show ?case using Cons by (simp add: kv)
qed simp

lemma conflicts_closed_form:
  "conflicts_of (foldl add_request [] reqs) + card ((\<lambda>i. i mod NUM_BANKS) ` snd ` set reqs) = card (snd ` set reqs)"
proof -
  let ?W = "snd ` set reqs" and ?B = "(\<lambda>i. i mod NUM_BANKS) ` snd ` set reqs"
  let ?n = "\<lambda>b. card {i \<in> ?W. i mod NUM_BANKS = b}"
  have keys: "set (map fst (foldl add_request [] reqs)) = ?B" unfolding usage_keys image_image ..
  have n: "length (remdups (map snd (of_bank b reqs))) = ?n b" for b
    by (subst length_remdups_card_conv) (auto simp: of_bank_def intro!: arg_cong [where f = card])
  have pos: "?n b \<ge> 1" if "b \<in> ?B" for b
    using that by (auto simp: Suc_le_eq card_gt_0_iff)
  have "conflicts_of (foldl add_request [] reqs) = (\<Sum>b \<in> ?B. ?n b - 1)"
    unfolding conflicts_of_def sum_list_keys [OF usage_distinct] keys
  proof (rule sum.cong)
    fix b assume b: "b \<in> ?B"
    then have "of_bank b reqs \<noteq> []" by (auto simp: of_bank_def filter_empty_conv)
    then show "(let n = length (remdups (map snd (the (map_of (foldl add_request [] reqs) b)))) in if n > 1 then n - 1 else 0) = ?n b - 1"
      by (simp add: usage_lookup n Let_def)
  qed simp
  then have "conflicts_of (foldl add_request [] reqs) + card ?B = (\<Sum>b \<in> ?B. ?n b - 1 + 1)"
    by (simp only: sum.distrib) simp
  also have "\<dots> = (\<Sum>b \<in> ?B. ?n b)" by (intro sum.cong refl le_add_diff_inverse2 pos)
  also have "\<dots> = card (\<Union>b \<in> ?B. {i \<in> ?W. i mod NUM_BANKS = b})"
    by (intro card_UN_disjoint [symmetric]) auto
  also have "(\<Union>b \<in> ?B. {i \<in> ?W. i mod NUM_BANKS = b}) = ?W" by auto
  finally show ?thesis .
qed

text \<open>The words a warp access asks for.\<close>

definition requested_words :: "int list \<Rightarrow> int \<Rightarrow> int set" where
  "requested_words word_indices act = {word_indices ! lane | lane. lane < length word_indices \<and> lane_in act lane}"

lemma requested_words_eq: "requested_words word_indices act = snd ` set (active_requests word_indices act)"
  by (auto simp: requested_words_def active_requests_def enumerate_map_nth image_iff)

lemma bank_conflicts_count:
  "conflicts_of (bank_usage word_indices act) + card ((\<lambda>i. i mod NUM_BANKS) ` requested_words word_indices act) =
     card (requested_words word_indices act)"
  unfolding bank_usage_fold requested_words_eq by (rule conflicts_closed_form)

subsection \<open>The two properties of the memory\<close>

text \<open>
  C35: A coalesced warp access is the lanes' accesses one after the other: the loaded values are what each active lane's
  \<open>read_i32\<close> gives and 0 elsewhere, a store leaves the data that the active lanes' \<open>write_i32\<close> in lane order leave, and
  either counts at most two cache lines for an active lane.
\<close>
theorem coalesced_is_lanewise:
  assumes "coalesced_store_32 addresses vals act gm = Some (n, gm')"
  shows "fst (fst (coalesced_load_32 addresses act gm)) =
      map (\<lambda>lane. if lane_in act lane then fst (read_i32 (addresses ! lane) gm) else 0) [0..<32] \<and>
    gm_data gm' = gm_data (store_each act (enumerate 0 (zip addresses vals)) gm) \<and>
    n = snd (fst (coalesced_load_32 addresses act gm)) \<and> n \<le> 2 * card {lane. lane < 32 \<and> lane_in act lane}"
proof -
  have len: "length addresses = 32" using assms by (simp add: coalesced_store_32_def split: if_splits)
  have n: "n = line_count (coalesced_lines gm addresses act)"
    using assms by (auto simp: coalesced_store_32_def Let_def split: if_splits)
  have "line_count (coalesced_lines gm addresses act) \<le> length (coalesced_lines gm addresses act)"
    by (simp add: line_count_def length_remdups_leq)
  then show ?thesis
    using load_values [of addresses act gm] coalesced_store_data [OF assms] coalesced_lines_length [of gm addresses act] n len
    by (simp add: coalesced_load_32_def Let_def)
qed

theorem coalesced_is_lanewise_witness:
  "\<exists>n gm'. coalesced_store_32 (replicate 32 4) (replicate 32 (-7)) 5 (gm_new 1024) = Some (n, gm') \<and> n \<le> 4 \<and>
     fst (fst (coalesced_load_32 (replicate 32 4) 5 gm')) ! 2 = fst (read_i32 4 gm')"
proof -
  obtain n gm' where s: "coalesced_store_32 (replicate 32 4) (replicate 32 (-7)) 5 (gm_new 1024) = Some (n, gm')"
    by (simp add: coalesced_store_32_def Let_def)
  obtain n2 gm2 where s2: "coalesced_store_32 (replicate 32 4) (replicate 32 0) 5 gm' = Some (n2, gm2)"
    by (simp add: coalesced_store_32_def Let_def)
  have "{lane. lane < 32 \<and> lane_in 5 lane} \<subseteq> {0, 2}"
  proof -
    have "\<not> lane_in 5 lane" if "lane \<noteq> 0" "lane \<noteq> 2" for lane
      using that by (cases lane; simp add: lane_in_bit bit_Suc; cases "lane - 1"; simp add: bit_Suc; cases "lane - 2"; simp add: bit_Suc)
    then show ?thesis by blast
  qed
  from card_mono [OF _ this] have "card {lane. lane < 32 \<and> lane_in 5 lane} \<le> 2" by simp
  moreover have "lane_in 5 2" by (simp add: lane_in_bit bit_iff_odd)
  moreover note coalesced_is_lanewise [OF s]
  moreover have "fst (fst (coalesced_load_32 (replicate 32 4) 5 gm')) ! 2 =
      (if lane_in 5 2 then fst (read_i32 (replicate 32 4 ! 2) gm') else 0)"
    using coalesced_is_lanewise [OF s2] by (simp add: numeral_2_eq_2)
  ultimately have "n \<le> 4" "fst (fst (coalesced_load_32 (replicate 32 4) 5 gm')) ! 2 = fst (read_i32 4 gm')"
    by (linarith, simp)
  with s show ?thesis by blast
qed

text \<open>
  Shared memory counts bank conflicts exactly: a warp access adds the number of different words it asks for less the
  number of banks they fall into, whatever the lanes ask and whether it reads or writes.
\<close>
theorem access_counts_conflicts:
  "sh_bank_conflicts (snd (access_warp word_indices act is_write write_vals sh)) +
     card ((\<lambda>i. i mod NUM_BANKS) ` requested_words word_indices act) =
   sh_bank_conflicts sh + card (requested_words word_indices act)"
  using bank_conflicts_count [of word_indices act]
  by (simp add: access_warp_def Let_def split: prod.split option.split)

end
