(* ===== verification/Sm.thy ===== *)
theory Sm
  imports GpuMemory
begin

unbundle bit_operations_syntax

text \<open>
  \<open>src/zgpu/simulator/sm.py\<close>: one streaming multiprocessor: the choice of the warp, fetch and decode, and the effect of
  each instruction on the warp, the global memory all multiprocessors share, and the shared memory. An exception out of an
  instruction is the first component of the result, next to the state it leaves.
\<close>

datatype sm_error = SmDecodeError isa_error | SmIndexError | SmOverflowError | SmStoreWidthError

record sm =
  sm_sm_id :: int
  sm_shared_mem :: shared_memory
  sm_warps :: "warp list"
  sm_max_warps :: int
  sm_active_warp_idx :: nat
  sm_cycle_count :: nat
  sm_instructions_retired :: nat

definition sm_new :: "int \<Rightarrow> int \<Rightarrow> sm" where
  "sm_new sm_id max_warps = \<lparr>sm_sm_id = sm_id, sm_shared_mem = sh_new (64 * 1024), sm_warps = [], sm_max_warps = max_warps,
     sm_active_warp_idx = 0, sm_cycle_count = 0, sm_instructions_retired = 0\<rparr>"

definition launch_warps :: "nat \<Rightarrow> int \<Rightarrow> sm \<Rightarrow> sm" where
  "launch_warps num_warps block_id m = m\<lparr>sm_warps := map (\<lambda>w_id. warp_new 128 (int w_id) block_id) [0..<num_warps]\<rparr>"

definition is_finished :: "sm \<Rightarrow> bool" where
  "is_finished m = list_all w_halted (sm_warps m)"

subsection \<open>Registers and lanes\<close>

definition bits_to_f32 :: "'f fpu \<Rightarrow> int \<Rightarrow> 'f" where
  "bits_to_f32 fpu b = fp_of_bits fpu (b AND 0xFFFFFFFF)"

definition f32_to_bits :: "'f fpu \<Rightarrow> 'f \<Rightarrow> sm_error + int" where
  "f32_to_bits fpu f = (case fp_to_bits fpu f of None \<Rightarrow> Inl SmOverflowError | Some b \<Rightarrow> Inr b)"

definition reg :: "int list list \<Rightarrow> nat \<Rightarrow> int \<Rightarrow> int" where
  "reg rf lane r = rf ! lane ! nat r"

text \<open>
  The loop over the lanes: the active ones compute a value from the register file as it stands and write it to their \<open>rd\<close>.
\<close>

fun lane_loop ::
  "warp \<Rightarrow> int \<Rightarrow> (nat \<Rightarrow> int list list \<Rightarrow> sm_error + int) \<Rightarrow> nat list \<Rightarrow> int list list \<Rightarrow> sm_error option \<times> int list list" where
  "lane_loop w rd f [] rf = (None, rf)"
| "lane_loop w rd f (lane # lanes) rf =
     (if is_active w lane then
        (case f lane rf of
           Inl e \<Rightarrow> (Some e, rf)
         | Inr v \<Rightarrow> lane_loop w rd f lanes (rf[lane := (rf ! lane)[nat rd := v]]))
      else lane_loop w rd f lanes rf)"

definition write_lanes :: "int \<Rightarrow> (nat \<Rightarrow> int list list \<Rightarrow> sm_error + int) \<Rightarrow> nat \<Rightarrow> warp \<Rightarrow> sm_error option \<times> warp" where
  "write_lanes rd f n w = (case lane_loop w rd f [0..<n] (w_rf w) of (e, rf) \<Rightarrow> (e, w\<lparr>w_rf := rf\<rparr>))"

text \<open>The values the arithmetic instructions compute in a lane.\<close>

definition int_value :: "(int \<Rightarrow> int \<Rightarrow> int) \<Rightarrow> instruction \<Rightarrow> nat \<Rightarrow> int list list \<Rightarrow> sm_error + int" where
  "int_value f inst lane rf = Inr (f (reg rf lane (in_rs1 inst)) (reg rf lane (in_rs2 inst)) AND 0xFFFFFFFF)"

definition float_value :: "'f fpu \<Rightarrow> ('f \<Rightarrow> 'f \<Rightarrow> 'f) \<Rightarrow> instruction \<Rightarrow> nat \<Rightarrow> int list list \<Rightarrow> sm_error + int" where
  "float_value fpu f inst lane rf =
     f32_to_bits fpu (f (bits_to_f32 fpu (reg rf lane (in_rs1 inst))) (bits_to_f32 fpu (reg rf lane (in_rs2 inst))))"

definition ffma_value :: "'f fpu \<Rightarrow> instruction \<Rightarrow> nat \<Rightarrow> int list list \<Rightarrow> sm_error + int" where
  "ffma_value fpu inst lane rf =
     f32_to_bits fpu (fp_add fpu
       (fp_mul fpu (bits_to_f32 fpu (reg rf lane (in_rs1 inst))) (bits_to_f32 fpu (reg rf lane (in_rs2 inst))))
       (bits_to_f32 fpu (reg rf lane (in_rs3 inst))))"

text \<open>Lane \<open>r * 4 + c\<close> of the matrix tile accumulates row \<open>r\<close> times column \<open>c\<close>.\<close>

definition mma_value :: "'f fpu \<Rightarrow> instruction \<Rightarrow> nat \<Rightarrow> int list list \<Rightarrow> sm_error + int" where
  "mma_value fpu inst lane rf =
     (let r = lane div 4; c = lane mod 4 in
      f32_to_bits fpu (foldl (\<lambda>acc k. fp_add fpu acc
         (fp_mul fpu (bits_to_f32 fpu (reg rf (r * 4 + k) (in_rs1 inst))) (bits_to_f32 fpu (reg rf (k * 4 + c) (in_rs2 inst)))))
        (bits_to_f32 fpu (reg rf lane (in_rs3 inst))) [0..<4]))"

definition addresses :: "instruction \<Rightarrow> warp \<Rightarrow> int list" where
  "addresses inst w = map (\<lambda>lane. reg (w_rf w) lane (in_rs1 inst) + in_imm inst) [0..<WARP_SIZE]"

definition taken_lanes :: "instruction \<Rightarrow> warp \<Rightarrow> int" where
  "taken_lanes inst w = foldl (\<lambda>taken lane.
     if is_active w lane \<and> reg (w_rf w) lane (in_rs1 inst) \<noteq> 0 then taken OR push_bit lane 1 else taken) 0 [0..<WARP_SIZE]"

subsection \<open>Instructions\<close>

type_synonym exec_result = "sm_error option \<times> warp \<times> global_memory \<times> shared_memory"

definition on_lanes ::
  "int \<Rightarrow> (nat \<Rightarrow> int list list \<Rightarrow> sm_error + int) \<Rightarrow> nat \<Rightarrow> warp \<Rightarrow> global_memory \<Rightarrow> shared_memory \<Rightarrow> exec_result" where
  "on_lanes rd f n w gm sh = (case write_lanes rd f n w of (e, w') \<Rightarrow> (e, w', gm, sh))"

text \<open>An opcode without a branch in the chain of comparisons has no effect.\<close>

fun execute_op :: "'f fpu \<Rightarrow> opcode \<Rightarrow> instruction \<Rightarrow> warp \<Rightarrow> global_memory \<Rightarrow> shared_memory \<Rightarrow> exec_result" where
  "execute_op fpu NOP inst w gm sh = (None, w, gm, sh)"
| "execute_op fpu HALT inst w gm sh = (None, w\<lparr>w_halted := True\<rparr>, gm, sh)"
| "execute_op fpu GET_TID inst w gm sh =
     on_lanes (in_rd inst) (\<lambda>lane rf. Inr (int lane + w_warp_id w * int WARP_SIZE)) WARP_SIZE w gm sh"
| "execute_op fpu GET_BID inst w gm sh = on_lanes (in_rd inst) (\<lambda>lane rf. Inr (w_block_id w)) WARP_SIZE w gm sh"
| "execute_op fpu VADD inst w gm sh = on_lanes (in_rd inst) (int_value (+) inst) WARP_SIZE w gm sh"
| "execute_op fpu VSUB inst w gm sh = on_lanes (in_rd inst) (int_value (-) inst) WARP_SIZE w gm sh"
| "execute_op fpu VMUL inst w gm sh = on_lanes (in_rd inst) (int_value (*) inst) WARP_SIZE w gm sh"
| "execute_op fpu VFADD inst w gm sh = on_lanes (in_rd inst) (float_value fpu (fp_add fpu) inst) WARP_SIZE w gm sh"
| "execute_op fpu VFSUB inst w gm sh = on_lanes (in_rd inst) (float_value fpu (fp_sub fpu) inst) WARP_SIZE w gm sh"
| "execute_op fpu VFMUL inst w gm sh = on_lanes (in_rd inst) (float_value fpu (fp_mul fpu) inst) WARP_SIZE w gm sh"
| "execute_op fpu VFFMA inst w gm sh = on_lanes (in_rd inst) (ffma_value fpu inst) WARP_SIZE w gm sh"
| "execute_op fpu VLOAD_G inst w gm sh =
     (case coalesced_load_32 (addresses inst w) (w_active_mask w) gm of
        ((vals, lines), gm') \<Rightarrow> on_lanes (in_rd inst) (\<lambda>lane rf. Inr (vals ! lane)) WARP_SIZE w gm' sh)"
| "execute_op fpu VSTORE_G inst w gm sh =
     (case coalesced_store_32 (addresses inst w) (map (\<lambda>lane. reg (w_rf w) lane (in_rs2 inst)) [0..<WARP_SIZE])
             (w_active_mask w) gm of
        None \<Rightarrow> (Some SmStoreWidthError, w, gm, sh)
      | Some (lines, gm') \<Rightarrow> (None, w, gm', sh))"
| "execute_op fpu VLOAD_S inst w gm sh =
     (case access_warp (map (drop_bit 2) (addresses inst w)) (w_active_mask w) False None sh of
        (None, sh') \<Rightarrow> (Some SmIndexError, w, gm, sh')
      | (Some vals, sh') \<Rightarrow> on_lanes (in_rd inst) (\<lambda>lane rf. Inr (vals ! lane)) WARP_SIZE w gm sh')"
| "execute_op fpu VSTORE_S inst w gm sh =
     (case access_warp (map (drop_bit 2) (addresses inst w)) (w_active_mask w) True
             (Some (map (\<lambda>lane. reg (w_rf w) lane (in_rs2 inst)) [0..<WARP_SIZE])) sh of
        (None, sh') \<Rightarrow> (Some SmIndexError, w, gm, sh')
      | (Some vals, sh') \<Rightarrow> (None, w, gm, sh'))"
| "execute_op fpu BRA inst w gm sh = (None, w\<lparr>w_pc := w_pc w - 1 + in_imm inst\<rparr>, gm, sh)"
| "execute_op fpu BRA_DIV inst w gm sh =
     (None, split_divergence (w_pc w) (w_pc w - 1 + in_imm inst) (taken_lanes inst w) w, gm, sh)"
| "execute_op fpu JOIN inst w gm sh = (None, snd (pop_divergence w), gm, sh)"
| "execute_op fpu MMA_SYNC inst w gm sh = on_lanes (in_rd inst) (mma_value fpu inst) 16 w gm sh"
| "execute_op fpu op inst w gm sh = (None, w, gm, sh)"

definition execute_instruction :: "'f fpu \<Rightarrow> warp \<Rightarrow> instruction \<Rightarrow> global_memory \<Rightarrow> shared_memory \<Rightarrow> exec_result" where
  "execute_instruction fpu w inst gm sh = execute_op fpu (in_op inst) inst w gm sh"

subsection \<open>One cycle\<close>

definition ready :: "warp \<Rightarrow> bool" where
  "ready w \<longleftrightarrow> \<not> w_halted w \<and> \<not> w_stalled w"

definition select_warp :: "sm \<Rightarrow> nat option" where
  "select_warp m = find (\<lambda>idx. ready (sm_warps m ! idx))
     (map (\<lambda>i. (sm_active_warp_idx m + i) mod length (sm_warps m)) [0..<length (sm_warps m)])"

definition step_cycle ::
  "'f fpu \<Rightarrow> int list \<Rightarrow> sm \<Rightarrow> global_memory \<Rightarrow> (sm_error + bool) \<times> sm \<times> global_memory" where
  "step_cycle fpu program m gm =
     (if is_finished m \<or> sm_warps m = [] then (Inr False, m, gm)
      else (let m1 = m\<lparr>sm_cycle_count := sm_cycle_count m + 1\<rparr> in
        (case select_warp m of
           None \<Rightarrow> (Inr True, m1, gm)
         | Some idx \<Rightarrow>
            (let w = sm_warps m ! idx;
                 m2 = m1\<lparr>sm_active_warp_idx := (idx + 1) mod length (sm_warps m)\<rparr> in
             if w_pc w \<ge> int (length program) then (Inr True, m2\<lparr>sm_warps := (sm_warps m)[idx := w\<lparr>w_halted := True\<rparr>]\<rparr>, gm)
             else (case py_nth program (w_pc w) of
                 None \<Rightarrow> (Inl SmIndexError, m2, gm)
               | Some inst_word \<Rightarrow>
                  (case decode inst_word of
                     Inl e \<Rightarrow> (Inl (SmDecodeError e), m2, gm)
                   | Inr inst \<Rightarrow>
                      (case execute_instruction fpu (w\<lparr>w_pc := w_pc w + 1\<rparr>) inst gm (sm_shared_mem m) of
                         (Some e, w', gm', sh') \<Rightarrow> (Inl e, m2\<lparr>sm_warps := (sm_warps m)[idx := w'], sm_shared_mem := sh'\<rparr>, gm')
                       | (None, w', gm', sh') \<Rightarrow>
                           (Inr True,
                            m2\<lparr>sm_warps := (sm_warps m)[idx := w'\<lparr>w_cycles_executed := w_cycles_executed w' + 1\<rparr>],
                               sm_shared_mem := sh', sm_instructions_retired := sm_instructions_retired m + 1\<rparr>, gm'))))))))"

end
