(* ===== verification/SmSafety.thy ===== *)
theory SmSafety
  imports Sm
begin

unbundle bit_operations_syntax

text \<open>
  What holds of every cycle of a streaming multiprocessor, stated over the step relation of a single warp: the shape of
  the register file and the 32-bit range of its values, which errors there are, that a lane dropped at a join never comes
  back, and that the round-robin choice starves no warp.
\<close>

subsection \<open>The step of one warp\<close>

inductive warp_step :: "'f fpu \<Rightarrow> int list \<Rightarrow> warp \<Rightarrow> warp \<Rightarrow> bool" for fpu program where
  halts: "ready w \<Longrightarrow> w_pc w \<ge> int (length program) \<Longrightarrow> warp_step fpu program w (w\<lparr>w_halted := True\<rparr>)"
| executes: "ready w \<Longrightarrow> py_nth program (w_pc w) = Some word \<Longrightarrow> decode word = Inr inst \<Longrightarrow>
    execute_instruction fpu (w\<lparr>w_pc := w_pc w + 1\<rparr>) inst gm sh = (None, w', gm', sh') \<Longrightarrow>
    warp_step fpu program w (w'\<lparr>w_cycles_executed := w_cycles_executed w' + 1\<rparr>)"
| faults: "ready w \<Longrightarrow> py_nth program (w_pc w) = Some word \<Longrightarrow> decode word = Inr inst \<Longrightarrow>
    execute_instruction fpu (w\<lparr>w_pc := w_pc w + 1\<rparr>) inst gm sh = (Some e, w', gm', sh') \<Longrightarrow>
    warp_step fpu program w w'"

lemma select_warp_SomeD:
  assumes "select_warp m = Some idx"
  shows "idx < length (sm_warps m)" "ready (sm_warps m ! idx)"
proof -
  have "idx \<in> set (map (\<lambda>i. (sm_active_warp_idx m + i) mod length (sm_warps m)) [0..<length (sm_warps m)])"
    and r: "ready (sm_warps m ! idx)"
    using assms by (auto simp: select_warp_def find_Some_iff)
  then show "idx < length (sm_warps m)" by (auto intro: mod_less_divisor) 
  show "ready (sm_warps m ! idx)" by (rule r)
qed

text \<open>A cycle changes at most the selected warp, by one step.\<close>

lemma step_cycle_cases:
  assumes "step_cycle fpu program m gm = (r, m', gm')"
  obtains (idle) "r = Inr False" "m' = m" "gm' = gm" "is_finished m \<or> sm_warps m = []"
  | (stalled) "r = Inr True" "sm_warps m' = sm_warps m" "sm_shared_mem m' = sm_shared_mem m" "gm' = gm" "select_warp m = None"
      "sm_active_warp_idx m' = sm_active_warp_idx m"
  | (fetch_error) idx e where "r = Inl e" "sm_warps m' = sm_warps m" "sm_shared_mem m' = sm_shared_mem m" "gm' = gm"
      "select_warp m = Some idx" "e = SmIndexError \<and> py_nth program (w_pc (sm_warps m ! idx)) = None \<and>
         w_pc (sm_warps m ! idx) < int (length program) \<or> (\<exists>de. e = SmDecodeError de)"
  | (halt) idx where "r = Inr True" "select_warp m = Some idx" "w_pc (sm_warps m ! idx) \<ge> int (length program)"
      "sm_warps m' = (sm_warps m)[idx := (sm_warps m ! idx)\<lparr>w_halted := True\<rparr>]" "sm_shared_mem m' = sm_shared_mem m" "gm' = gm"
      "sm_active_warp_idx m' = (idx + 1) mod length (sm_warps m)"
  | (exec) idx word inst w' sh' where "select_warp m = Some idx" "py_nth program (w_pc (sm_warps m ! idx)) = Some word"
      "decode word = Inr inst" "r = Inr True"
      "execute_instruction fpu ((sm_warps m ! idx)\<lparr>w_pc := w_pc (sm_warps m ! idx) + 1\<rparr>) inst gm (sm_shared_mem m) = (None, w', gm', sh')"
      "sm_warps m' = (sm_warps m)[idx := w'\<lparr>w_cycles_executed := w_cycles_executed w' + 1\<rparr>]" "sm_shared_mem m' = sh'"
      "sm_active_warp_idx m' = (idx + 1) mod length (sm_warps m)"
  | (fault) idx word inst e w' sh' where "select_warp m = Some idx" "py_nth program (w_pc (sm_warps m ! idx)) = Some word"
      "decode word = Inr inst" "r = Inl e"
      "execute_instruction fpu ((sm_warps m ! idx)\<lparr>w_pc := w_pc (sm_warps m ! idx) + 1\<rparr>) inst gm (sm_shared_mem m) = (Some e, w', gm', sh')"
      "sm_warps m' = (sm_warps m)[idx := w']" "sm_shared_mem m' = sh'"
proof (cases "is_finished m \<or> sm_warps m = []")
  case True
  with assms show thesis by (intro idle) (auto simp: step_cycle_def)
next
  case f: False
  show thesis
  proof (cases "select_warp m")
    case None
    with assms f show thesis by (intro stalled) (auto simp: step_cycle_def Let_def)
  next
    case (Some idx)
    let ?w = "sm_warps m ! idx"
    show thesis
    proof (cases "w_pc ?w \<ge> int (length program)")
      case True
      with assms f Some show thesis by (intro halt [of idx]) (auto simp: step_cycle_def Let_def)
    next
      case pc: False
      show thesis
      proof (cases "py_nth program (w_pc ?w)")
        case None
        with assms f Some pc show thesis by (intro fetch_error [of SmIndexError idx]) (auto simp: step_cycle_def Let_def)
      next
        case word: (Some word)
        show thesis
        proof (cases "decode word")
          case (Inl e)
          with assms f Some pc word show thesis
            by (intro fetch_error [of "SmDecodeError e" idx]) (auto simp: step_cycle_def Let_def)
        next
          case (Inr inst)
          obtain eo w' gm1 sh' where x: "execute_instruction fpu (?w\<lparr>w_pc := w_pc ?w + 1\<rparr>) inst gm (sm_shared_mem m) = (eo, w', gm1, sh')"
            by (metis prod_cases4)
          show thesis
          proof (cases eo)
            case None
            with assms f Some pc word Inr x show thesis
              by (intro exec [of idx word inst w' sh']) (auto simp: step_cycle_def Let_def)
          next
            case (Some e)
            with assms f \<open>select_warp m = Some idx\<close> pc word Inr x show thesis
              by (intro fault [of idx word inst e w' sh']) (auto simp: step_cycle_def Let_def)
          qed
        qed
      qed
    qed
  qed
qed

lemma step_cycle_warp_step:
  assumes "step_cycle fpu program m gm = (r, m', gm')"
  shows "length (sm_warps m') = length (sm_warps m) \<and>
    (\<forall>i < length (sm_warps m). sm_warps m' ! i = sm_warps m ! i \<or>
       select_warp m = Some i \<and> warp_step fpu program (sm_warps m ! i) (sm_warps m' ! i))"
  using assms
proof (cases rule: step_cycle_cases)
  case (halt idx)
  then show ?thesis using select_warp_SomeD [OF halt(2)]
    by (auto simp: nth_list_update intro: warp_step.halts)
next
  case (exec idx word inst w' sh')
  then show ?thesis using select_warp_SomeD [OF exec(1)]
    by (auto simp: nth_list_update intro: warp_step.executes)
next
  case (fault idx word inst e w' sh')
  then show ?thesis using select_warp_SomeD [OF fault(1)]
    by (auto simp: nth_list_update intro: warp_step.faults)
qed auto

text \<open>Several cycles; an exception ends them.\<close>

fun run_cycles :: "'f fpu \<Rightarrow> int list \<Rightarrow> nat \<Rightarrow> sm \<Rightarrow> global_memory \<Rightarrow> (sm_error + bool) \<times> sm \<times> global_memory" where
  "run_cycles fpu program 0 m gm = (Inr True, m, gm)"
| "run_cycles fpu program (Suc n) m gm =
     (case step_cycle fpu program m gm of
        (Inl e, m', gm') \<Rightarrow> (Inl e, m', gm')
      | (Inr _, m', gm') \<Rightarrow> run_cycles fpu program n m' gm')"

lemma run_cycles_warp_steps:
  "run_cycles fpu program n m gm = (r, m', gm') \<Longrightarrow> length (sm_warps m') = length (sm_warps m) \<and>
     (\<forall>i < length (sm_warps m). (warp_step fpu program)\<^sup>*\<^sup>* (sm_warps m ! i) (sm_warps m' ! i))"
proof (induction n arbitrary: m gm)
  case (Suc n)
  obtain r1 m1 gm1 where s: "step_cycle fpu program m gm = (r1, m1, gm1)" by (metis prod_cases3)
  note st = step_cycle_warp_step [OF s]
  show ?case
  proof (cases r1)
    case (Inl e)
    with Suc.prems s st show ?thesis by auto
  next
    case (Inr b)
    then have "run_cycles fpu program n m1 gm1 = (r, m', gm')" using Suc.prems s by simp
    note ih = Suc.IH [OF this]
    have "(warp_step fpu program)\<^sup>*\<^sup>* (sm_warps m ! i) (sm_warps m' ! i)" if "i < length (sm_warps m)" for i
    proof -
      have "(warp_step fpu program)\<^sup>*\<^sup>* (sm_warps m1 ! i) (sm_warps m' ! i)" using ih st that by auto
      moreover have "sm_warps m1 ! i = sm_warps m ! i \<or> warp_step fpu program (sm_warps m ! i) (sm_warps m1 ! i)"
        using st that by blast
      ultimately show ?thesis by (metis converse_rtranclp_into_rtranclp)
    qed
    then show ?thesis using ih st by auto
  qed
qed simp

subsection \<open>32-bit values\<close>

text \<open>A register holds a 32-bit quantity, read as unsigned after arithmetic and as signed after a load.\<close>

definition value_ok :: "int \<Rightarrow> bool" where
  "value_ok v \<longleftrightarrow> - 2147483648 \<le> v \<and> v < 4294967296"

definition rf_ok :: "int list list \<Rightarrow> bool" where
  "rf_ok rf \<longleftrightarrow> length rf = WARP_SIZE \<and> (\<forall>regs \<in> set rf. length regs = 128 \<and> list_all value_ok regs)"

definition warp_ok :: "warp \<Rightarrow> bool" where
  "warp_ok w \<longleftrightarrow> warp_wf w \<and> rf_ok (w_rf w) \<and> 0 \<le> w_warp_id w \<and> w_warp_id w < 2 ^ 20 \<and> value_ok (w_block_id w)"

definition shared_ok :: "shared_memory \<Rightarrow> bool" where
  "shared_ok sh \<longleftrightarrow> list_all value_ok (sh_data sh)"

definition fpu_ok :: "'f fpu \<Rightarrow> bool" where
  "fpu_ok fpu \<longleftrightarrow> (\<forall>f b. fp_to_bits fpu f = Some b \<longrightarrow> 0 \<le> b \<and> b < 2 ^ 32)"

lemma value_ok_mask [simp]: "value_ok (take_bit 32 v)"
proof -
  have "0 \<le> take_bit 32 v" and "take_bit 32 v < 4294967296" using take_bit_int_less_exp [of 32 v] by simp_all
  then show ?thesis unfolding value_ok_def by linarith
qed

lemma value_ok_signed32 [simp]: "value_ok (signed32 v)"
  using signed32_bounds [of v] by (simp add: value_ok_def)

lemma value_ok_0 [simp]: "value_ok 0"
  by (simp add: value_ok_def)

lemma value_ok_lane: "0 \<le> i \<Longrightarrow> i < 2 ^ 20 \<Longrightarrow> lane < 32 \<Longrightarrow> value_ok (int lane + i * int WARP_SIZE)"
  by (simp add: value_ok_def WARP_SIZE_def)

lemma value_ok_reg: "rf_ok rf \<Longrightarrow> lane < WARP_SIZE \<Longrightarrow> 0 \<le> r \<Longrightarrow> r < 128 \<Longrightarrow> value_ok (reg rf lane r)"
  by (auto simp: rf_ok_def reg_def list_all_length dest: nth_mem)

lemma rf_ok_update: "rf_ok rf \<Longrightarrow> lane < WARP_SIZE \<Longrightarrow> value_ok v \<Longrightarrow> rf_ok (rf[lane := (rf ! lane)[nat rd := v]])"
  by (auto simp: rf_ok_def list_all_iff dest!: set_update_subset_insert [THEN subsetD] nth_mem)

lemma lane_loop_rf_ok:
  assumes "lane_loop w rd f lanes rf = (e, rf')" and "rf_ok rf" and "\<forall>lane \<in> set lanes. lane < WARP_SIZE"
    and "\<And>lane rf v. lane < WARP_SIZE \<Longrightarrow> f lane rf = Inr v \<Longrightarrow> value_ok v"
  shows "rf_ok rf'"
  using assms(1-3)
proof (induction lanes arbitrary: rf)
  case (Cons lane lanes)
  show ?case
  proof (cases "is_active w lane")
    case True
    show ?thesis
    proof (cases "f lane rf")
      case (Inl e)
      with Cons.prems True show ?thesis by simp
    next
      case (Inr v)
      with Cons.prems True show ?thesis
        using Cons.IH [OF _ rf_ok_update [of rf lane v rd]] assms(4) [of lane rf v] by simp
    qed
  next
    case False
    with Cons show ?thesis by simp
  qed
qed simp

lemma warp_ok_rf: "warp_ok w \<Longrightarrow> rf_ok rf \<Longrightarrow> warp_ok (w\<lparr>w_rf := rf\<rparr>)"
  by (auto simp: warp_ok_def warp_wf_def warp_masks_def rf_ok_def)

lemma on_lanes_ok:
  assumes "on_lanes rd f n w gm sh = (e, w', gm', sh')" and "warp_ok w" and "n \<le> WARP_SIZE"
    and "\<And>lane rf v. lane < WARP_SIZE \<Longrightarrow> f lane rf = Inr v \<Longrightarrow> value_ok v"
  shows "warp_ok w' \<and> gm' = gm \<and> sh' = sh \<and> live_lanes w' = live_lanes w"
proof -
  obtain rf' where l: "lane_loop w rd f [0..<n] (w_rf w) = (e, rf')" and w': "w' = w\<lparr>w_rf := rf'\<rparr>" and "gm' = gm" "sh' = sh"
    using assms(1) by (auto simp: on_lanes_def write_lanes_def split: prod.splits)
  moreover have "rf_ok rf'" using lane_loop_rf_ok [OF l] assms by (auto simp: warp_ok_def)
  ultimately show ?thesis using warp_ok_rf [OF assms(2)] by (simp add: live_lanes_def)
qed

lemma float_value_ok: "fpu_ok fpu \<Longrightarrow> f32_to_bits fpu x = Inr v \<Longrightarrow> value_ok v"
  by (auto simp: fpu_ok_def f32_to_bits_def value_ok_def split: option.splits) force

lemma access_lanes_ok:
  assumes "access_lanes act wvals reqs data results = (r, data')"
    and "list_all value_ok data" and "list_all value_ok results" and "\<forall>(lane, idx) \<in> set reqs. lane < length results"
    and "\<forall>vs. wvals = Some vs \<longrightarrow> list_all value_ok vs \<and> (\<forall>(lane, idx) \<in> set reqs. lane < length vs)"
  shows "list_all value_ok data' \<and> (\<exists>rs. r = Some rs \<and> list_all value_ok rs \<and> length rs = length results)"
  using assms
proof (induction reqs arbitrary: data results)
  case (Cons q reqs)
  obtain lane idx where q: "q = (lane, idx)" by (cases q)
  have upd: "list_all value_ok (xs[i := v])" if "list_all value_ok xs" "value_ok v" for xs i v
    using that by (auto simp: list_all_iff dest!: set_update_subset_insert [THEN subsetD])
  show ?case
  proof (cases "lane_in act lane \<and> 0 \<le> idx \<and> idx < int (length data)")
    case False
    with Cons show ?thesis by (auto simp: q)
  next
    case True
    show ?thesis
    proof (cases wvals)
      case None
      have "value_ok (data ! nat idx)" using Cons.prems(2) True by (auto simp: list_all_length)
      with Cons.prems(3) have "list_all value_ok (results[lane := data ! nat idx])" by (rule upd)
      with Cons.prems None True show ?thesis
        using Cons.IH [of data "results[lane := data ! nat idx]"] by (auto simp: q split: if_splits)
    next
      case (Some vs)
      have "value_ok (vs ! lane)" "lane < length vs" "lane < length results"
        using Cons.prems(4,5) Some by (auto simp: q list_all_length)
      with Cons.prems(2,3) have "list_all value_ok (results[lane := vs ! lane])" "list_all value_ok (data[nat idx := vs ! lane])"
        by (auto intro!: upd)
      with Cons.prems Some True \<open>lane < length vs\<close> show ?thesis
        using Cons.IH [of "data[nat idx := vs ! lane]" "results[lane := vs ! lane]"] by (auto simp: q split: if_splits)
    qed
  qed
qed auto

lemma access_warp_ok:
  assumes "access_warp idxs act b wvals sh = (r, sh')" and "shared_ok sh" and "length idxs = 32"
    and "\<forall>vs. wvals = Some vs \<longrightarrow> list_all value_ok vs \<and> length vs = 32"
  shows "shared_ok sh' \<and> (\<exists>rs. r = Some rs \<and> list_all value_ok rs \<and> length rs = 32)"
proof -
  let ?sh1 = "sh\<lparr>sh_bank_conflicts := sh_bank_conflicts sh + conflicts_of (bank_usage idxs act)\<rparr>"
  obtain rr d where a: "access_lanes act (if b then wvals else None) (enumerate 0 idxs) (sh_data ?sh1) (replicate 32 0) = (rr, d)"
    by (metis surj_pair)
  have "list_all value_ok d \<and> (\<exists>rs. rr = Some rs \<and> list_all value_ok rs \<and> length rs = length (replicate 32 (0::int)))"
    by (rule access_lanes_ok [OF a]) (use assms in \<open>auto simp: shared_ok_def list_all_iff in_set_enumerate_eq\<close>)
  then show ?thesis using assms(1) a by (auto simp: access_warp_def Let_def shared_ok_def)
qed

subsection \<open>Every instruction keeps the invariant\<close>

lemma load_values_ok: "fst (coalesced_load_32 as act gm) = (vals, lines) \<Longrightarrow> length as = WARP_SIZE \<Longrightarrow>
    lane < WARP_SIZE \<Longrightarrow> value_ok (vals ! lane)"
proof -
  assume c: "fst (coalesced_load_32 as act gm) = (vals, lines)" and "length as = WARP_SIZE" "lane < WARP_SIZE"
  then have "vals ! lane = (if lane_in act lane then fst (read_i32 (as ! lane) gm) else 0)"
    using load_values [of as act gm] by simp
  then show "value_ok (vals ! lane)" by (simp add: read_i32_def)
qed

lemma warp_ok_pc [simp]: "warp_ok (w\<lparr>w_pc := p\<rparr>) = warp_ok w" "warp_ok (w\<lparr>w_halted := h\<rparr>) = warp_ok w"
  "warp_ok (w\<lparr>w_cycles_executed := c\<rparr>) = warp_ok w"
  by (simp_all add: warp_ok_def warp_wf_def warp_masks_def)

lemma live_lanes_pc [simp]: "live_lanes (w\<lparr>w_pc := p\<rparr>) = live_lanes w" "live_lanes (w\<lparr>w_halted := h\<rparr>) = live_lanes w"
  "live_lanes (w\<lparr>w_cycles_executed := c\<rparr>) = live_lanes w"
  by (simp_all add: live_lanes_def)

lemma split_rf [simp]: "w_rf (split_divergence f b t w) = w_rf w" "w_warp_id (split_divergence f b t w) = w_warp_id w"
  "w_block_id (split_divergence f b t w) = w_block_id w"
  by (simp_all add: split_divergence_def Let_def)

lemma pop_rf [simp]: "w_rf (snd (pop_divergence w)) = w_rf w" "w_warp_id (snd (pop_divergence w)) = w_warp_id w"
  "w_block_id (snd (pop_divergence w)) = w_block_id w"
  by (simp_all add: pop_divergence_def Let_def)

lemma warp_ok_split: "warp_ok w \<Longrightarrow> warp_ok (split_divergence f b t w)"
  by (simp add: warp_ok_def warp_wf_split)

lemma warp_ok_pop: "warp_ok w \<Longrightarrow> warp_ok (snd (pop_divergence w))"
  by (simp add: warp_ok_def warp_wf_pop)

lemma pop_live_subset: "warp_ok w \<Longrightarrow> live_lanes (snd (pop_divergence w)) \<subseteq> live_lanes w"
  using pop_live_lanes [of w] by (cases "w_divergence_stack w = []") (auto simp: warp_ok_def pop_divergence_def)

definition fields_ok :: "instruction \<Rightarrow> bool" where
  "fields_ok inst \<longleftrightarrow> fits 0 0x7F (in_rd inst) \<and> fits 0 0x1F (in_rs1 inst) \<and> fits 0 0x1F (in_rs2 inst) \<and> fits 0 0x1F (in_rs3 inst)"

lemma decode_fields_ok: "decode word = Inr inst \<Longrightarrow> fields_ok inst"
proof -
  assume "decode word = Inr inst"
  from encode_word(2-5) [OF encode_decoded [OF this]] show "fields_ok inst" by (simp add: fields_ok_def)
qed

text \<open>What an instruction leaves: a good warp, a good shared memory, no lane more than before, no width or index error.\<close>

definition exec_ok :: "warp \<Rightarrow> exec_result \<Rightarrow> bool" where
  "exec_ok w res = (case res of (e, w', gm', sh') \<Rightarrow>
     warp_ok w' \<and> shared_ok sh' \<and> live_lanes w' \<subseteq> live_lanes w \<and> (e = None \<or> e = Some SmOverflowError))"

lemma lane_loop_error:
  assumes "lane_loop w rd f lanes rf = (e, rf')" and "\<And>lane rf e. f lane rf = Inl e \<Longrightarrow> e = SmOverflowError"
  shows "e = None \<or> e = Some SmOverflowError"
  using assms(1)
  by (induction lanes arbitrary: rf) (auto split: if_splits sum.splits dest: assms(2))

lemma exec_ok_on_lanes:
  assumes "warp_ok w" and "shared_ok sh" and "n \<le> WARP_SIZE"
    and "\<And>lane rf v. lane < WARP_SIZE \<Longrightarrow> f lane rf = Inr v \<Longrightarrow> value_ok v"
    and "\<And>lane rf e. f lane rf = Inl e \<Longrightarrow> e = SmOverflowError"
  shows "exec_ok w (on_lanes rd f n w gm sh)"
proof -
  obtain e w' gm' sh' where o: "on_lanes rd f n w gm sh = (e, w', gm', sh')" by (metis prod_cases4)
  then have "e = None \<or> e = Some SmOverflowError"
    using lane_loop_error [of w rd f "[0..<n]" "w_rf w"] assms(5)
    by (auto simp: on_lanes_def write_lanes_def split: prod.splits)
  with on_lanes_ok [OF o assms(1,3,4)] assms(2) show ?thesis by (auto simp: exec_ok_def o)
qed

lemma f32_to_bits_error: "f32_to_bits fpu x = Inl e \<Longrightarrow> e = SmOverflowError"
  by (auto simp: f32_to_bits_def split: option.splits)

lemma addresses_length [simp]: "length (addresses inst w) = WARP_SIZE"
  by (simp add: addresses_def)

lemma execute_ok:
  assumes "fpu_ok fpu" and w: "warp_ok w" and sh: "shared_ok sh" and "fields_ok inst"
  shows "exec_ok w (execute_op fpu op inst w gm sh)"
proof -
  have vals: "list_all value_ok (map (\<lambda>lane. reg (w_rf w) lane (in_rs2 inst)) [0..<WARP_SIZE])"
    using assms by (auto simp: list_all_iff fields_ok_def fits_def warp_ok_def intro!: value_ok_reg)
  note lanes = exec_ok_on_lanes [OF w]
  have float: "f32_to_bits fpu x = Inr v \<Longrightarrow> value_ok v" for x v using assms(1) by (rule float_value_ok)
  show ?thesis
  proof (cases op)
    case GET_TID
    have "value_ok (int lane + w_warp_id w * int WARP_SIZE)" if "lane < WARP_SIZE" for lane
      using w that value_ok_lane [of "w_warp_id w" lane] by (simp add: warp_ok_def WARP_SIZE_def)
    then show ?thesis using GET_TID by (auto intro!: lanes sh)
  next
    case GET_BID
    then show ?thesis using w by (auto intro!: lanes sh simp: warp_ok_def)
  next
    case VLOAD_G
    obtain vals lines gm1 where l: "coalesced_load_32 (addresses inst w) (w_active_mask w) gm = ((vals, lines), gm1)"
      by (metis prod.collapse)
    then have "lane < WARP_SIZE \<Longrightarrow> value_ok (vals ! lane)" for lane
      by (intro load_values_ok [of "addresses inst w" "w_active_mask w" gm vals lines]) simp_all
    then show ?thesis using VLOAD_G l by (auto intro!: lanes sh)
  next
    case VSTORE_G
    obtain n gm1 where "coalesced_store_32 (addresses inst w) (map (\<lambda>lane. reg (w_rf w) lane (in_rs2 inst)) [0..<WARP_SIZE])
        (w_active_mask w) gm = Some (n, gm1)"
      by (simp add: coalesced_store_32_def Let_def WARP_SIZE_def)
    then show ?thesis using VSTORE_G w sh by (simp add: exec_ok_def)
  next
    case VLOAD_S
    obtain r sh1 where a: "access_warp (map (drop_bit 2) (addresses inst w)) (w_active_mask w) False None sh = (r, sh1)"
      by (metis surj_pair)
    from access_warp_ok [OF a sh] obtain rs where rs: "shared_ok sh1" "r = Some rs" "list_all value_ok rs" "length rs = 32"
      by (auto simp: WARP_SIZE_def)
    then have "lane < WARP_SIZE \<Longrightarrow> value_ok (rs ! lane)" for lane by (simp add: list_all_length WARP_SIZE_def)
    then show ?thesis using VLOAD_S a rs by (auto intro!: lanes)
  next
    case VSTORE_S
    obtain r sh1 where a: "access_warp (map (drop_bit 2) (addresses inst w)) (w_active_mask w) True
        (Some (map (\<lambda>lane. reg (w_rf w) lane (in_rs2 inst)) [0..<WARP_SIZE])) sh = (r, sh1)"
      by (metis surj_pair)
    from access_warp_ok [OF a sh] vals obtain rs where "shared_ok sh1" "r = Some rs"
      by (auto simp: WARP_SIZE_def)
    then show ?thesis using VSTORE_S a w by (simp add: exec_ok_def)
  next
    case BRA_DIV
    then show ?thesis using w sh by (simp add: exec_ok_def warp_ok_split)
  next
    case JOIN
    then show ?thesis using w sh pop_live_subset [OF w] by (simp add: exec_ok_def warp_ok_pop)
  next
    case MMA_SYNC
    then show ?thesis
      by (auto intro!: lanes sh dest: float f32_to_bits_error simp: mma_value_def Let_def WARP_SIZE_def)
  qed (auto intro!: lanes sh w dest: float f32_to_bits_error
         simp: int_value_def float_value_def ffma_value_def exec_ok_def [of w "(None, _)"])
qed

text \<open>Every step of a warp keeps it well-formed and never gives it a lane it had lost.\<close>

definition sm_ok :: "sm \<Rightarrow> bool" where
  "sm_ok m \<longleftrightarrow> list_all warp_ok (sm_warps m) \<and> shared_ok (sm_shared_mem m)"

lemma step_cycle_ok:
  assumes "fpu_ok fpu" and ok: "sm_ok m" and s: "step_cycle fpu program m gm = (r, m', gm')"
  shows "sm_ok m'"
    and "i < length (sm_warps m) \<Longrightarrow> live_lanes (sm_warps m' ! i) \<subseteq> live_lanes (sm_warps m ! i)"
    and "r = Inl e \<Longrightarrow> e = SmOverflowError \<or> (\<exists>de. e = SmDecodeError de) \<or>
           e = SmIndexError \<and> (\<exists>w \<in> set (sm_warps m'). w_pc w < - int (length program))"
proof -
  have upd: "list_all warp_ok ((sm_warps m)[idx := w])" if "warp_ok w" for idx w
    using ok that by (auto simp: sm_ok_def list_all_iff dest!: set_update_subset_insert [THEN subsetD])
  have wok: "warp_ok (sm_warps m ! idx)" if "select_warp m = Some idx" for idx
    using ok select_warp_SomeD [OF that] by (auto simp: sm_ok_def list_all_length)
  have ex: "exec_ok ((sm_warps m ! idx)\<lparr>w_pc := p\<rparr>)
      (execute_instruction fpu ((sm_warps m ! idx)\<lparr>w_pc := p\<rparr>) inst gm (sm_shared_mem m))"
    if "select_warp m = Some idx" "decode word = Inr inst" for idx p inst word
    unfolding execute_instruction_def
    using assms(1) wok [OF that(1)] ok decode_fields_ok [OF that(2)] by (intro execute_ok) (simp_all add: sm_ok_def)
  have "sm_ok m' \<and> (i < length (sm_warps m) \<longrightarrow> live_lanes (sm_warps m' ! i) \<subseteq> live_lanes (sm_warps m ! i)) \<and>
      (r = Inl e \<longrightarrow> e = SmOverflowError \<or> (\<exists>de. e = SmDecodeError de) \<or>
           e = SmIndexError \<and> (\<exists>w \<in> set (sm_warps m'). w_pc w < - int (length program)))"
    using s
  proof (cases rule: step_cycle_cases)
    case (fetch_error idx e')
    then show ?thesis using ok select_warp_SomeD [OF fetch_error(5)]
      by (auto simp: sm_ok_def py_nth_def split: if_splits intro!: bexI [of _ "sm_warps m ! idx"])
  next
    case (halt idx)
    then show ?thesis using ok upd [of "(sm_warps m ! idx)\<lparr>w_halted := True\<rparr>" idx] wok [OF halt(2)]
      by (cases "i = idx") (auto simp: sm_ok_def)
  next
    case (exec idx word inst w' sh')
    then have "warp_ok w' \<and> shared_ok sh' \<and> live_lanes w' \<subseteq> live_lanes (sm_warps m ! idx)"
      using ex [OF exec(1,3), of "w_pc (sm_warps m ! idx) + 1"] by (simp add: exec_ok_def)
    then show ?thesis using exec upd [of "w'\<lparr>w_cycles_executed := w_cycles_executed w' + 1\<rparr>" idx]
      by (cases "i = idx") (auto simp: sm_ok_def)
  next
    case (fault idx word inst e' w' sh')
    then have "warp_ok w' \<and> shared_ok sh' \<and> live_lanes w' \<subseteq> live_lanes (sm_warps m ! idx) \<and> e' = SmOverflowError"
      using ex [OF fault(1,3), of "w_pc (sm_warps m ! idx) + 1"] by (simp add: exec_ok_def)
    then show ?thesis using fault upd [of w' idx] by (cases "i = idx") (auto simp: sm_ok_def)
  qed (use ok in \<open>auto simp: sm_ok_def\<close>)
  then show "sm_ok m'"
    and "i < length (sm_warps m) \<Longrightarrow> live_lanes (sm_warps m' ! i) \<subseteq> live_lanes (sm_warps m ! i)"
    and "r = Inl e \<Longrightarrow> e = SmOverflowError \<or> (\<exists>de. e = SmDecodeError de) \<or>
           e = SmIndexError \<and> (\<exists>w \<in> set (sm_warps m'). w_pc w < - int (length program))"
    by blast+
qed

subsection \<open>Runs\<close>

lemma run_cycles_ok:
  assumes "fpu_ok fpu"
  shows "sm_ok m \<Longrightarrow> run_cycles fpu program n m gm = (r, m', gm') \<Longrightarrow> sm_ok m' \<and>
    (\<forall>i < length (sm_warps m). live_lanes (sm_warps m' ! i) \<subseteq> live_lanes (sm_warps m ! i)) \<and>
    (\<forall>e. r = Inl e \<longrightarrow> e = SmOverflowError \<or> (\<exists>de. e = SmDecodeError de) \<or>
       e = SmIndexError \<and> (\<exists>w \<in> set (sm_warps m'). w_pc w < - int (length program)))"
proof (induction n arbitrary: m gm)
  case (Suc n)
  obtain r1 m1 gm1 where s: "step_cycle fpu program m gm = (r1, m1, gm1)" by (metis prod_cases3)
  note ok = step_cycle_ok [OF assms Suc.prems(1) s]
  have len: "length (sm_warps m1) = length (sm_warps m)" using step_cycle_warp_step [OF s] by simp
  show ?case
  proof (cases r1)
    case (Inl e)
    then have eq: "r = Inl e" "m' = m1" using Suc.prems(2) s by simp_all
    then show ?thesis using ok(1,2) ok(3) [OF Inl] by simp
  next
    case (Inr b)
    then have "run_cycles fpu program n m1 gm1 = (r, m', gm')" using Suc.prems(2) s by simp
    note ih = Suc.IH [OF ok(1) this]
    have "live_lanes (sm_warps m' ! i) \<subseteq> live_lanes (sm_warps m ! i)" if "i < length (sm_warps m)" for i
    proof -
      have "live_lanes (sm_warps m' ! i) \<subseteq> live_lanes (sm_warps m1 ! i)" using ih len that by simp
      also have "\<dots> \<subseteq> live_lanes (sm_warps m ! i)" using ok(2) that by simp
      finally show ?thesis .
    qed
    then show ?thesis using ih by simp
  qed
qed auto

subsection \<open>The memories keep their bounds\<close>

text \<open>Global memory after a run: of the same size, with bytes where there were bytes, and unchanged outside its addresses.\<close>

definition bytes_ok :: "global_memory \<Rightarrow> bool" where
  "bytes_ok gm \<longleftrightarrow> (\<forall>a. 0 \<le> gm_data gm a \<and> gm_data gm a < 256)"

definition in_bounds :: "global_memory \<Rightarrow> global_memory \<Rightarrow> bool" where
  "in_bounds gm gm' \<longleftrightarrow> gm_size gm' = gm_size gm \<and> (\<forall>a. a < 0 \<or> gm_size gm \<le> a \<longrightarrow> gm_data gm' a = gm_data gm a) \<and>
     (bytes_ok gm \<longrightarrow> bytes_ok gm')"

lemma in_bounds_refl [simp]: "in_bounds gm gm"
  by (simp add: in_bounds_def)

lemma in_bounds_trans: "in_bounds gm gm1 \<Longrightarrow> in_bounds gm1 gm2 \<Longrightarrow> in_bounds gm gm2"
  by (simp add: in_bounds_def)

lemma put_word_bounds:
  assumes "in_memory gm addr"
  shows "a < 0 \<or> gm_size gm \<le> a \<Longrightarrow> put_word addr v d a = d a" "\<forall>a. 0 \<le> d a \<and> d a < 256 \<Longrightarrow> 0 \<le> put_word addr v d a \<and> put_word addr v d a < 256"
  using assms by (auto simp: in_memory_def put_word_def)

lemma store_lanes_bounds:
  "(a < 0 \<or> gm_size gm \<le> a \<longrightarrow> store_lanes gm act reqs d a = d a) \<and>
   ((\<forall>a. 0 \<le> d a \<and> d a < 256) \<longrightarrow> 0 \<le> store_lanes gm act reqs d a \<and> store_lanes gm act reqs d a < 256)"
proof (induction reqs arbitrary: d)
  case (Cons q reqs)
  obtain lane addr v where q: "q = (lane, addr, v)" by (metis prod_cases3)
  let ?d = "if serves gm act lane addr then put_word addr (signed32 v) d else d"
  have "a < 0 \<or> gm_size gm \<le> a \<Longrightarrow> ?d a = d a" "(\<forall>a. 0 \<le> d a \<and> d a < 256) \<Longrightarrow> (\<forall>a. 0 \<le> ?d a \<and> ?d a < 256)"
    using put_word_bounds [of gm addr] by (auto simp: serves_def)
  then show ?case using Cons.IH [of ?d] by (simp add: q)
qed simp

lemma coalesced_store_bounds: "coalesced_store_32 as vs act gm = Some (n, gm') \<Longrightarrow> in_bounds gm gm'"
  using store_lanes_bounds [of _ gm act "enumerate 0 (zip as vs)" "gm_data gm"]
  by (auto simp: coalesced_store_32_def Let_def in_bounds_def bytes_ok_def split: if_splits)

lemma access_warp_length: "access_warp idxs act b wvals sh = (r, sh') \<Longrightarrow> length (sh_data sh') = length (sh_data sh)"
proof -
  have "length (snd (access_lanes act wvals reqs data results)) = length data" for wvals reqs data results
    by (induction reqs arbitrary: data results) (auto split: option.splits)
  then show "access_warp idxs act b wvals sh = (r, sh') \<Longrightarrow> length (sh_data sh') = length (sh_data sh)"
    by (auto simp: access_warp_def Let_def split: prod.splits option.splits) (metis snd_conv)+
qed

definition memories_kept :: "global_memory \<Rightarrow> shared_memory \<Rightarrow> exec_result \<Rightarrow> bool" where
  "memories_kept gm sh res = (case res of (e, w', gm', sh') \<Rightarrow> in_bounds gm gm' \<and> length (sh_data sh') = length (sh_data sh))"

lemma memories_kept_on_lanes: "in_bounds gm gm' \<Longrightarrow> length (sh_data sh') = length (sh_data sh) \<Longrightarrow>
    memories_kept gm sh (on_lanes rd f n w gm' sh')"
  by (simp add: memories_kept_def on_lanes_def split: prod.splits)

lemma execute_memories: "memories_kept gm sh (execute_op fpu op inst w gm sh)"
proof (cases op)
  case VLOAD_G
  obtain vals lines gm1 where l: "coalesced_load_32 (addresses inst w) (w_active_mask w) gm = ((vals, lines), gm1)" by (metis prod.collapse)
  then have "in_bounds gm gm1" by (auto simp: coalesced_load_32_def Let_def in_bounds_def bytes_ok_def)
  then show ?thesis using VLOAD_G l by (simp add: memories_kept_on_lanes)
next
  case VSTORE_G
  then show ?thesis using coalesced_store_bounds by (auto simp: memories_kept_def split: option.splits)
next
  case VLOAD_S
  then show ?thesis using access_warp_length
    by (auto intro!: memories_kept_on_lanes split: option.splits prod.splits simp: memories_kept_def [of _ _ "(_, _)"])
next
  case VSTORE_S
  then show ?thesis using access_warp_length by (auto simp: memories_kept_def split: option.splits prod.splits)
qed (simp_all add: memories_kept_on_lanes memories_kept_def [of _ _ "(_, _)"])

lemma step_cycle_memories:
  assumes "step_cycle fpu program m gm = (r, m', gm')"
  shows "in_bounds gm gm' \<and> length (sh_data (sm_shared_mem m')) = length (sh_data (sm_shared_mem m))"
  using assms
proof (cases rule: step_cycle_cases)
  case (exec idx word inst w' sh')
  then show ?thesis using execute_memories [of gm "sm_shared_mem m" fpu "in_op inst" inst
      "(sm_warps m ! idx)\<lparr>w_pc := w_pc (sm_warps m ! idx) + 1\<rparr>"] by (simp add: memories_kept_def execute_instruction_def)
next
  case (fault idx word inst e w' sh')
  then show ?thesis using execute_memories [of gm "sm_shared_mem m" fpu "in_op inst" inst
      "(sm_warps m ! idx)\<lparr>w_pc := w_pc (sm_warps m ! idx) + 1\<rparr>"] by (simp add: memories_kept_def execute_instruction_def)
qed simp_all

lemma run_cycles_memories:
  "run_cycles fpu program n m gm = (r, m', gm') \<Longrightarrow>
    in_bounds gm gm' \<and> length (sh_data (sm_shared_mem m')) = length (sh_data (sm_shared_mem m))"
proof (induction n arbitrary: m gm)
  case (Suc n)
  obtain r1 m1 gm1 where s: "step_cycle fpu program m gm = (r1, m1, gm1)" by (metis prod_cases3)
  note k = step_cycle_memories [OF s]
  show ?case
  proof (cases r1)
    case (Inl e)
    then show ?thesis using Suc.prems s k by simp
  next
    case (Inr b)
    then have "run_cycles fpu program n m1 gm1 = (r, m', gm')" using Suc.prems s by simp
    from Suc.IH [OF this] k show ?thesis using in_bounds_trans by simp blast
  qed
qed simp

text \<open>
  C34: A kernel on a multiprocessor stays within the machine: in any number of cycles of any program, every warp keeps 32
  lanes of 128 registers, every register and shared word holds a 32-bit value, the masks on the divergence stack stay
  disjoint, shared memory keeps its length and global memory its size, nothing is written outside the addresses of global memory,
  whatever addresses the program computes, and bytes stay bytes; and the only exceptions are an unknown opcode, a program counter
  before the start of the program and a float that does not fit single precision.
\<close>
theorem sm_runs_stay_well_formed:
  assumes "fpu_ok fpu" and "sm_ok m" and "run_cycles fpu program n m gm = (r, m', gm')"
  shows "sm_ok m' \<and> length (sh_data (sm_shared_mem m')) = length (sh_data (sm_shared_mem m)) \<and>
    gm_size gm' = gm_size gm \<and> (\<forall>a. a < 0 \<or> gm_size gm \<le> a \<longrightarrow> gm_data gm' a = gm_data gm a) \<and> (bytes_ok gm \<longrightarrow> bytes_ok gm') \<and>
    (\<forall>e. r = Inl e \<longrightarrow> e = SmOverflowError \<or> (\<exists>de. e = SmDecodeError de) \<or>
       e = SmIndexError \<and> (\<exists>w \<in> set (sm_warps m'). w_pc w < - int (length program)))"
  using run_cycles_ok [OF assms] run_cycles_memories [OF assms(3)] unfolding in_bounds_def by blast

text \<open>A concrete arithmetic for the witnesses: the bits themselves, wrapping.\<close>

definition int_fpu :: "int fpu" where
  "int_fpu = \<lparr>fp_of_bits = (\<lambda>b. b), fp_to_bits = (\<lambda>f. Some (f mod 2 ^ 32)), fp_zero = 0,
     fp_add = (+), fp_sub = (-), fp_mul = (*)\<rparr>"

lemma int_fpu_ok: "fpu_ok int_fpu"
  by (auto simp: fpu_ok_def int_fpu_def)

lemma sm_ok_launched: "n \<le> 2 ^ 20 \<Longrightarrow> value_ok b \<Longrightarrow> shared_ok (sm_shared_mem m) \<Longrightarrow> sm_ok (launch_warps n b m)"
proof -
  assume n: "n \<le> 2 ^ 20" "value_ok b" "shared_ok (sm_shared_mem m)"
  have "warp_ok (warp_new 128 (int i) b)" if "i < n" for i
  proof -
    have "rf_ok (w_rf (warp_new 128 (int i) b))"
      using n(2) value_ok_lane [of "int i"] that n(1)
      by (auto simp: rf_ok_def warp_new_def list_all_iff WARP_SIZE_def dest!: set_update_subset_insert [THEN subsetD])
    then show ?thesis using that n(1,2) warp_wf_new [of "int i" b] by (simp add: warp_ok_def warp_new_def)
  qed
  then show ?thesis using n(3) by (auto simp: sm_ok_def launch_warps_def list_all_iff)
qed

lemma shared_ok_new [simp]: "shared_ok (sh_new n)"
  by (auto simp: shared_ok_def sh_new_def list_all_iff)

theorem sm_runs_stay_well_formed_witness:
  "sm_ok (fst (snd (run_cycles int_fpu [0x70000001, 0xFE000030] 50 (launch_warps 8 5 (sm_new 0 8)) (gm_new 1024))))"
proof -
  obtain r m' gm' where r: "run_cycles int_fpu [0x70000001, 0xFE000030] 50 (launch_warps 8 5 (sm_new 0 8)) (gm_new 1024) = (r, m', gm')"
    by (metis prod_cases3)
  have "sm_ok (launch_warps 8 5 (sm_new 0 8))"
    by (rule sm_ok_launched) (simp_all add: value_ok_def sm_new_def)
  from sm_runs_stay_well_formed [OF int_fpu_ok this r] show ?thesis by (simp add: r)
qed

lemma run_cycles_prefix:
  "run_cycles fpu program n m gm = (Inr b, m', gm') \<Longrightarrow> k \<le> n \<Longrightarrow>
     \<exists>b2 m2 gm2. run_cycles fpu program k m gm = (Inr b2, m2, gm2)"
proof (induction k arbitrary: n m gm)
  case (Suc k)
  then obtain n1 where n: "n = Suc n1" by (cases n) auto
  obtain r1 m1 gm1 where s: "step_cycle fpu program m gm = (r1, m1, gm1)" by (metis prod_cases3)
  obtain b1 where r1: "r1 = Inr b1" using Suc.prems(1) s by (cases r1) (auto simp: n)
  have "run_cycles fpu program n1 m1 gm1 = (Inr b, m', gm')" using Suc.prems(1) s r1 by (simp add: n)
  from Suc.IH [OF this] Suc.prems(2) n s r1 show ?case by simp
qed auto

subsection \<open>Divergence\<close>

text \<open>
  C32: A join does not reconverge: the lanes that were running when a warp executes \<open>JOIN\<close> with a path on its stack are never
  active again, in any number of cycles of any program, although the stacked lanes go on.
\<close>
theorem joined_lanes_never_return:
  assumes "fpu_ok fpu" and "sm_ok m" and i: "i < length (sm_warps m)" and stack: "w_divergence_stack (sm_warps m ! i) \<noteq> []"
    and join: "in_op inst = JOIN" "execute_instruction fpu (sm_warps m ! i) inst gm sh = (None, w1, gm1, sh1)"
    and run: "run_cycles fpu program n (m\<lparr>sm_warps := (sm_warps m)[i := w1]\<rparr>) gm1 = (r, m', gm')"
    and lane: "is_active (sm_warps m ! i) lane"
  shows "\<not> is_active (sm_warps m' ! i) lane"
proof -
  let ?w = "sm_warps m ! i"
  have w: "warp_ok ?w" using assms(2) i by (simp add: sm_ok_def list_all_length)
  have w1: "w1 = snd (pop_divergence ?w)" using join by (simp add: execute_instruction_def)
  have "warp_ok w1" using w w1 warp_ok_pop by simp
  then have "sm_ok (m\<lparr>sm_warps := (sm_warps m)[i := w1]\<rparr>)"
    using assms(2) by (auto simp: sm_ok_def list_all_iff dest!: set_update_subset_insert [THEN subsetD])
  from run_cycles_ok [OF assms(1) this run] i
  have "live_lanes (sm_warps m' ! i) \<subseteq> live_lanes ((sm_warps m)[i := w1] ! i)"
    by (metis length_list_update sm.select_convs(3) sm.surjective sm.update_convs(3))
  then have "live_lanes (sm_warps m' ! i) \<subseteq> live_lanes w1" using i by simp
  moreover have "live_lanes w1 = live_lanes ?w - lanes_of (w_active_mask ?w)"
    using pop_live_lanes [OF _ stack] w w1 by (simp add: warp_ok_def)
  ultimately show ?thesis using lane
    by (auto simp: is_active_def lane_in_bit live_lanes_def lanes_of_def)
qed

text \<open>The opcodes the simulator has no branch for: decoded, retired, without effect.\<close>

lemma unhandled_opcodes:
  "in_op inst \<in> {VAND, VOR, VXOR, BAR_SYNC} \<Longrightarrow> execute_instruction fpu w inst gm sh = (None, w, gm, sh)"
  by (auto simp: execute_instruction_def)

subsection \<open>Scheduling\<close>

text \<open>How far the round robin is from a warp.\<close>

definition turn_distance :: "nat \<Rightarrow> nat \<Rightarrow> nat \<Rightarrow> nat" where
  "turn_distance n a j = nat ((int j - int a) mod int n)"

lemma turn_distance_less: "0 < n \<Longrightarrow> turn_distance n a j < n"
  by (simp add: turn_distance_def nat_less_iff)

lemma turn_distance_hits: "j < n \<Longrightarrow> (a + turn_distance n a j) mod n = j"
proof -
  assume j: "j < n"
  then have "int ((a + turn_distance n a j) mod n) = (int a + (int j - int a) mod int n) mod int n"
    by (simp add: turn_distance_def zmod_int)
  also have "\<dots> = int j" using j by (simp add: mod_add_right_eq)
  finally show ?thesis by simp
qed

lemma turn_distance_next:
  assumes "j < n" and "i < turn_distance n a j"
  shows "turn_distance n (((a + i) mod n + 1) mod n) j = turn_distance n a j - i - 1"
proof -
  let ?d = "(int j - int a) mod int n"
  have d: "0 \<le> ?d" "?d < int n" "int i < ?d" using assms by (simp_all add: turn_distance_def)
  have "((a + i) mod n + 1) mod n = (a + i + 1) mod n" by (simp add: mod_Suc_eq)
  then have "(int j - int (((a + i) mod n + 1) mod n)) mod int n = (int j - int (a + i + 1)) mod int n"
    by (simp add: zmod_int mod_diff_right_eq)
  also have "int j - int (a + i + 1) = (int j - int a) - (int i + 1)" by simp
  also have "((int j - int a) - (int i + 1)) mod int n = (?d - (int i + 1)) mod int n" by (simp add: mod_diff_left_eq)
  also have "\<dots> = ?d - (int i + 1)" using d by (simp add: mod_pos_pos_trivial)
  finally show ?thesis using d by (simp add: turn_distance_def nat_diff_distrib)
qed

text \<open>A ready warp is selected unless a warp nearer in the round is.\<close>

lemma select_warp_nearest:
  assumes j: "j < length (sm_warps m)" "ready (sm_warps m ! j)"
  obtains i where "select_warp m = Some ((sm_active_warp_idx m + i) mod length (sm_warps m))"
    "i \<le> turn_distance (length (sm_warps m)) (sm_active_warp_idx m) j"
proof -
  let ?n = "length (sm_warps m)" and ?a = "sm_active_warp_idx m"
  let ?d = "turn_distance ?n ?a j"
  have "0 < ?n" using j(1) by linarith
  then have d: "?d < ?n" "(?a + ?d) mod ?n = j"
    using turn_distance_less [of ?n ?a j] turn_distance_hits [OF j(1), of ?a] by blast+
  let ?xs = "map (\<lambda>i. (?a + i) mod ?n) [0..<?n]"
  have "\<exists>x \<in> {0..<?n}. ready (sm_warps m ! ((?a + x) mod ?n))" using d j(2) by (intro bexI [of _ ?d]) simp_all
  then have "select_warp m \<noteq> None" by (auto simp: select_warp_def find_None_iff)
  then obtain idx where "find (\<lambda>idx. ready (sm_warps m ! idx)) ?xs = Some idx" by (auto simp: select_warp_def)
  then obtain i where i: "i < ?n" "idx = (?a + i) mod ?n" "\<forall>k < i. \<not> ready (sm_warps m ! ((?a + k) mod ?n))"
    by (auto simp: find_Some_iff)
  have "i \<le> ?d" using i(3) d(2) j(2) by (metis not_le)
  with i \<open>find _ _ = Some idx\<close> show thesis by (intro that [of i]) (simp_all add: select_warp_def)
qed

lemma step_keeps_others:
  assumes "step_cycle fpu program m gm = (Inr b, m', gm')" and "select_warp m = Some idx" and "j \<noteq> idx"
    and "j < length (sm_warps m)"
  shows "sm_warps m' ! j = sm_warps m ! j" "length (sm_warps m') = length (sm_warps m)"
    and "\<not> is_finished m \<Longrightarrow> sm_active_warp_idx m' = (idx + 1) mod length (sm_warps m)"
proof -
  have "sm_warps m' ! j = sm_warps m ! j \<and> length (sm_warps m') = length (sm_warps m) \<and>
      (\<not> is_finished m \<longrightarrow> sm_active_warp_idx m' = (idx + 1) mod length (sm_warps m))"
    using assms(1) by (cases rule: step_cycle_cases) (use assms(2-4) in auto)
  then show "sm_warps m' ! j = sm_warps m ! j" "length (sm_warps m') = length (sm_warps m)"
    and "\<not> is_finished m \<Longrightarrow> sm_active_warp_idx m' = (idx + 1) mod length (sm_warps m)" by blast+
qed

lemma ready_not_finished: "j < length (sm_warps m) \<Longrightarrow> ready (sm_warps m ! j) \<Longrightarrow> \<not> is_finished m"
  by (auto simp: is_finished_def ready_def list_all_length)

lemma turn_comes:
  "j < length (sm_warps m) \<Longrightarrow> ready (sm_warps m ! j) \<Longrightarrow>
     turn_distance (length (sm_warps m)) (sm_active_warp_idx m) j = d \<Longrightarrow>
     run_cycles fpu program d m gm = (Inr b, m', gm') \<Longrightarrow>
     \<exists>k \<le> d. \<exists>b2 m2 gm2. run_cycles fpu program k m gm = (Inr b2, m2, gm2) \<and> select_warp m2 = Some j \<and>
       sm_warps m2 ! j = sm_warps m ! j"
proof (induction d arbitrary: m gm b m' gm' rule: less_induct)
  case (less d)
  let ?n = "length (sm_warps m)" and ?a = "sm_active_warp_idx m"
  obtain i where i: "select_warp m = Some ((?a + i) mod ?n)" "i \<le> d"
    using select_warp_nearest [OF less.prems(1,2)] less.prems(3) by metis
  show ?case
  proof (cases "(?a + i) mod ?n = j")
    case True
    have "run_cycles fpu program 0 m gm = (Inr True, m, gm) \<and> select_warp m = Some j \<and> sm_warps m ! j = sm_warps m ! j"
      using i True by simp
    then show ?thesis by blast
  next
    case False
    then have "i \<noteq> d" using turn_distance_hits [OF less.prems(1), of ?a] less.prems(3) by auto
    then have "i < d" using i(2) by simp
    then obtain d1 where d1: "d = Suc d1" by (cases d) auto
    obtain r1 m1 gm1 where s: "step_cycle fpu program m gm = (r1, m1, gm1)" by (metis prod_cases3)
    obtain b1 where r1: "r1 = Inr b1" using less.prems(4) s by (cases r1) (auto simp: d1)
    have run1: "run_cycles fpu program d1 m1 gm1 = (Inr b, m', gm')" using less.prems(4) s r1 by (simp add: d1)
    note k = step_keeps_others [OF s [unfolded r1] i(1) False [symmetric] less.prems(1)]
    have idx: "sm_active_warp_idx m1 = ((?a + i) mod ?n + 1) mod ?n"
      using k(3) ready_not_finished [OF less.prems(1,2)] by simp
    have dist: "turn_distance (length (sm_warps m1)) (sm_active_warp_idx m1) j = d - i - 1"
      using turn_distance_next [of j ?n i ?a] less.prems(1,3) \<open>i < d\<close> by (simp add: idx k(2))
    obtain b2 m2 gm2 where "run_cycles fpu program (d - i - 1) m1 gm1 = (Inr b2, m2, gm2)"
      using run_cycles_prefix [OF run1, of "d - i - 1"] d1 by auto
    from less.IH [OF _ _ _ dist this] k(1,2) less.prems(1,2) \<open>i < d\<close>
    obtain l b3 m3 gm3 where "l \<le> d - i - 1" "run_cycles fpu program l m1 gm1 = (Inr b3, m3, gm3)"
      "select_warp m3 = Some j" "sm_warps m3 ! j = sm_warps m ! j"
      by auto
    moreover have "run_cycles fpu program (Suc l) m gm = run_cycles fpu program l m1 gm1" using s r1 by simp
    ultimately show ?thesis using \<open>i < d\<close> by (intro exI [of _ "Suc l"]) auto
  qed
qed

text \<open>
  No warp starves: as long as no instruction raises, a warp that is neither halted nor stalled is the one selected after
  fewer cycles than the multiprocessor has warps, whatever the other warps execute.
\<close>
theorem ready_warp_is_scheduled:
  assumes "j < length (sm_warps m)" and "ready (sm_warps m ! j)"
    and "run_cycles fpu program (length (sm_warps m)) m gm = (Inr b, m', gm')"
  shows "\<exists>k < length (sm_warps m). \<exists>b2 m2 gm2. run_cycles fpu program k m gm = (Inr b2, m2, gm2) \<and>
    select_warp m2 = Some j \<and> sm_warps m2 ! j = sm_warps m ! j"
proof -
  let ?d = "turn_distance (length (sm_warps m)) (sm_active_warp_idx m) j"
  have d: "?d < length (sm_warps m)" using assms(1) by (intro turn_distance_less) linarith
  obtain b2 m2 gm2 where "run_cycles fpu program ?d m gm = (Inr b2, m2, gm2)"
    using run_cycles_prefix [OF assms(3), of ?d] d by auto
  from turn_comes [OF assms(1,2) refl this] d show ?thesis by (meson le_less_trans)
qed

definition plain0 :: "opcode \<Rightarrow> instruction" where
  "plain0 op = \<lparr>in_op = op, in_rd = 0, in_rs1 = 0, in_rs2 = 0, in_rs3 = 0, in_imm = 0\<rparr>"

definition two_warps :: sm where
  "two_warps = \<lparr>sm_sm_id = 0, sm_shared_mem = \<lparr>sh_size = 0, sh_data = [], sh_total_accesses = 0, sh_bank_conflicts = 0\<rparr>,
     sm_warps = [warp_new 128 0 0, warp_new 128 1 0], sm_max_warps = 8, sm_active_warp_idx = 0, sm_cycle_count = 0,
     sm_instructions_retired = 0\<rparr>"

theorem ready_warp_is_scheduled_witness:
  "\<exists>k < 2. \<exists>b2 m2 gm2. run_cycles int_fpu [0] k two_warps (gm_new 64) = (Inr b2, m2, gm2) \<and> select_warp m2 = Some 1 \<and>
     sm_warps m2 ! 1 = warp_new 128 1 0"
proof -
  have d: "decode 0 = Inr (plain0 NOP)"
    by (simp add: decode_def fits_def opcode_of_def all_opcodes_def plain0_def)
  have "\<exists>b m' gm'. run_cycles int_fpu [0] 2 two_warps (gm_new 64) = (Inr b, m', gm')"
    by (auto simp: numeral_2_eq_2 two_warps_def step_cycle_def is_finished_def select_warp_def ready_def py_nth_def d
        execute_instruction_def plain0_def warp_new_def Let_def)
  then obtain b m' gm' where "run_cycles int_fpu [0] (length (sm_warps two_warps)) two_warps (gm_new 64) = (Inr b, m', gm')"
    by (auto simp: two_warps_def numeral_2_eq_2)
  from ready_warp_is_scheduled [OF _ _ this, of 1] show ?thesis
    by (simp add: two_warps_def ready_def warp_new_def numeral_2_eq_2)
qed

theorem joined_lanes_never_return_witness:
  "\<not> is_active (sm_warps (fst (snd (run_cycles int_fpu [0] 30 (two_warps\<lparr>sm_warps := [snd (pop_divergence
       ((warp_new 128 0 0)\<lparr>w_active_mask := 3, w_divergence_stack := [\<lparr>de_target_pc = 1, de_active_mask = 12\<rparr>]\<rparr>)),
         warp_new 128 1 0]\<rparr>) (gm_new 64)))) ! 0) 1"
proof -
  let ?w = "(warp_new 128 0 0)\<lparr>w_active_mask := 3, w_divergence_stack := [\<lparr>de_target_pc = 1, de_active_mask = 12\<rparr>]\<rparr>"
  let ?m = "two_warps\<lparr>sm_warps := [?w, warp_new 128 1 0]\<rparr>"
  have rf: "rf_ok (w_rf (warp_new 128 (int i) 0))" if "i < 2" for i
    using sm_ok_launched [of 2 0 two_warps] that
    by (auto simp: sm_ok_def launch_warps_def warp_ok_def list_all_iff shared_ok_def two_warps_def)
  have "sm_ok ?m"
    using rf [of 0] rf [of 1] warp_wf_new [of 1 0]
    by (simp add: sm_ok_def two_warps_def shared_ok_def warp_ok_def warp_wf_def warp_masks_def warp_new_def rf_ok_def
        take_bit_eq_mod list_all_iff)
  moreover have "execute_instruction int_fpu ?w (plain0 JOIN) (gm_new 64) (sm_shared_mem two_warps) =
      (None, snd (pop_divergence ?w), gm_new 64, sm_shared_mem two_warps)"
    by (simp add: execute_instruction_def plain0_def)
  moreover obtain r m' gm' where
    "run_cycles int_fpu [0] 30 (?m\<lparr>sm_warps := (sm_warps ?m)[0 := snd (pop_divergence ?w)]\<rparr>) (gm_new 64) = (r, m', gm')"
    by (metis prod_cases3)
  moreover have "is_active ?w 1" by (simp add: is_active_def lane_in_bit bit_iff_odd)
  ultimately show ?thesis
    using joined_lanes_never_return [OF int_fpu_ok, of ?m 0 "plain0 JOIN" "gm_new 64" "sm_shared_mem two_warps"
        "snd (pop_divergence ?w)" "gm_new 64" "sm_shared_mem two_warps" "[0]" 30 r m' gm' 1]
    by (simp add: plain0_def)
qed

end
