(* ===== verification/Assembler.thy ===== *)
theory Assembler
  imports Zisa
begin

text \<open>
  \<open>src/zgpu/isa/assembler.py\<close>: the two-pass assembler from zISA text to instruction words. Every failure is a
  \<open>ValueError\<close> in the code; the constructors of \<open>asm_error\<close> say which. Upper-casing is that of ASCII, since no other
  character below 256 has an upper case that occurs in a mnemonic or a register number.
\<close>

definition OPCODE_MAP :: "(string \<times> opcode) list" where
  "OPCODE_MAP = [(''NOP'', NOP), (''VADD'', VADD), (''VSUB'', VSUB), (''VMUL'', VMUL), (''VAND'', VAND), (''VOR'', VOR),
     (''VXOR'', VXOR), (''VFADD'', VFADD), (''VFSUB'', VFSUB), (''VFMUL'', VFMUL), (''VFFMA'', VFFMA),
     (''VLOAD.G'', VLOAD_G), (''VSTORE.G'', VSTORE_G), (''VLOAD.S'', VLOAD_S), (''VSTORE.S'', VSTORE_S), (''BRA'', BRA),
     (''BRA.DIV'', BRA_DIV), (''JOIN'', JOIN), (''BAR.SYNC'', BAR_SYNC), (''MMA.SYNC'', MMA_SYNC), (''GET.TID'', GET_TID),
     (''GET.BID'', GET_BID), (''HALT'', HALT)]"

datatype asm_error =
    UnknownInstruction string
  | OperandCount string nat
  | InvalidRegister string
  | InvalidInt string
  | EncodeError isa_error

definition asm_int :: "string \<Rightarrow> asm_error + int" where
  "asm_int s = (case py_int_str s of None \<Rightarrow> Inl (InvalidInt s) | Some n \<Rightarrow> Inr n)"

definition parse_reg :: "string \<Rightarrow> asm_error + int" where
  "parse_reg token =
     (let t = py_upper (py_strip token)
      in if py_startswith t ''R'' then asm_int (tl t) else Inl (InvalidRegister t))"

subsection \<open>Pass 1: labels and comments\<close>

definition strip_comment :: "string \<Rightarrow> string" where
  "strip_comment line = py_strip (takeWhile (\<lambda>c. c \<noteq> CHR ''#'') line)"

fun first_pass :: "string list \<Rightarrow> nat \<Rightarrow> (string \<times> nat) list \<Rightarrow> (string \<times> nat) list \<times> (nat \<times> string) list" where
  "first_pass [] pc labels = (labels, [])"
| "first_pass (raw # lines) pc labels =
     (let line = strip_comment raw in
      if line = [] then first_pass lines pc labels
      else if py_endswith line '':'' then first_pass lines pc (dict_set labels (py_strip (butlast line)) pc)
      else (case first_pass lines (pc + 1) labels of (ls, clean) \<Rightarrow> (ls, (pc, line) # clean)))"

subsection \<open>Pass 2: instructions\<close>

definition line_tokens :: "string \<Rightarrow> string list" where
  "line_tokens line = map (\<lambda>t. py_rstrip_char CHR '','' (py_strip t)) (py_words line)"

definition three_operand :: "opcode list" where
  "three_operand = [VADD, VSUB, VMUL, VAND, VOR, VXOR, VFADD, VFSUB, VFMUL]"

definition valid_operand_counts :: "opcode \<Rightarrow> nat list" where
  "valid_operand_counts op =
     (if op \<in> set [NOP, JOIN, BAR_SYNC, HALT] then [0]
      else if op \<in> set [GET_TID, GET_BID] then [1]
      else if op \<in> set three_operand then [3]
      else if op = VFFMA \<or> op = MMA_SYNC then [4]
      else if op \<in> set [VLOAD_G, VLOAD_S, VSTORE_G, VSTORE_S] then [2, 3]
      else [1, 2])"

definition plain :: "opcode \<Rightarrow> instruction" where
  "plain op = \<lparr>in_op = op, in_rd = 0, in_rs1 = 0, in_rs2 = 0, in_rs3 = 0, in_imm = 0\<rparr>"

text \<open>The optional third operand of a memory operation, and the target of a branch.\<close>

definition optional_int :: "string list \<Rightarrow> asm_error + int" where
  "optional_int tokens = (if length tokens > 3 then asm_int (tokens ! 3) else Inr 0)"

definition branch_offset :: "(string \<times> nat) list \<Rightarrow> nat \<Rightarrow> string \<Rightarrow> asm_error + int" where
  "branch_offset labels pc target =
     (case map_of labels target of Some l \<Rightarrow> Inr (int l - int pc) | None \<Rightarrow> asm_int target)"

definition operands :: "(string \<times> nat) list \<Rightarrow> nat \<Rightarrow> opcode \<Rightarrow> string list \<Rightarrow> asm_error + instruction" where
  "operands labels pc op tokens =
     (if op \<in> set [NOP, JOIN, BAR_SYNC, HALT] then Inr (plain op)
      else if op \<in> set [GET_TID, GET_BID] then
        try_then (parse_reg (tokens ! 1)) (\<lambda>rd. Inr ((plain op)\<lparr>in_rd := rd\<rparr>))
      else if op \<in> set three_operand then
        try_then (parse_reg (tokens ! 1)) (\<lambda>rd. try_then (parse_reg (tokens ! 2)) (\<lambda>rs1.
        try_then (parse_reg (tokens ! 3)) (\<lambda>rs2. Inr ((plain op)\<lparr>in_rd := rd, in_rs1 := rs1, in_rs2 := rs2\<rparr>))))
      else if op = VFFMA \<or> op = MMA_SYNC then
        try_then (parse_reg (tokens ! 1)) (\<lambda>rd. try_then (parse_reg (tokens ! 2)) (\<lambda>rs1.
        try_then (parse_reg (tokens ! 3)) (\<lambda>rs2. try_then (parse_reg (tokens ! 4)) (\<lambda>rs3.
          Inr ((plain op)\<lparr>in_rd := rd, in_rs1 := rs1, in_rs2 := rs2, in_rs3 := rs3\<rparr>)))))
      else if op \<in> set [VLOAD_G, VLOAD_S] then
        try_then (parse_reg (tokens ! 1)) (\<lambda>rd. try_then (parse_reg (tokens ! 2)) (\<lambda>rs1.
        try_then (optional_int tokens) (\<lambda>imm. Inr ((plain op)\<lparr>in_rd := rd, in_rs1 := rs1, in_imm := imm\<rparr>))))
      else if op \<in> set [VSTORE_G, VSTORE_S] then
        try_then (parse_reg (tokens ! 1)) (\<lambda>rs1. try_then (parse_reg (tokens ! 2)) (\<lambda>rs2.
        try_then (optional_int tokens) (\<lambda>imm. Inr ((plain op)\<lparr>in_rs1 := rs1, in_rs2 := rs2, in_imm := imm\<rparr>))))
      else
        try_then (branch_offset labels pc (tokens ! 1)) (\<lambda>imm.
        try_then (if length tokens > 2 then parse_reg (tokens ! 2) else Inr 0) (\<lambda>rs1.
          Inr ((plain op)\<lparr>in_rs1 := rs1, in_imm := imm\<rparr>))))"

definition assemble_line :: "(string \<times> nat) list \<Rightarrow> nat \<Rightarrow> string \<Rightarrow> asm_error + instruction" where
  "assemble_line labels pc line =
     (let tokens = line_tokens line; mnemonic = py_upper (hd tokens)
      in (case map_of OPCODE_MAP mnemonic of
            None \<Rightarrow> Inl (UnknownInstruction mnemonic)
          | Some op \<Rightarrow>
              if length tokens - 1 \<in> set (valid_operand_counts op) then operands labels pc op tokens
              else Inl (OperandCount mnemonic (length tokens - 1))))"

definition encode_line :: "(string \<times> nat) list \<Rightarrow> nat \<times> string \<Rightarrow> asm_error + int" where
  "encode_line labels = (\<lambda>(pc, line).
     try_then (assemble_line labels pc line) (\<lambda>i. map_sum EncodeError (\<lambda>w. w) (encode i)))"

fun second_pass :: "(string \<times> nat) list \<Rightarrow> (nat \<times> string) list \<Rightarrow> asm_error + int list" where
  "second_pass labels [] = Inr []"
| "second_pass labels (l # ls) =
     try_then (encode_line labels l) (\<lambda>w. try_then (second_pass labels ls) (\<lambda>ws. Inr (w # ws)))"

definition assemble :: "string \<Rightarrow> asm_error + int list" where
  "assemble source = (case first_pass (py_splitlines (py_strip source)) 0 [] of
     (labels, clean) \<Rightarrow> second_pass labels clean)"

subsection \<open>What the assembler guarantees\<close>

lemma first_pass_positions: "first_pass lines pc labels = (ls, clean) \<Longrightarrow> map fst clean = [pc..<pc + length clean]"
proof (induction lines pc labels arbitrary: ls clean rule: first_pass.induct)
  case (2 raw lines pc labels)
  then show ?case
    by (auto simp: Let_def upt_rec [of pc] split: if_splits prod.splits)
qed simp

lemma second_pass_nth:
  "second_pass labels ls = Inr ws \<Longrightarrow>
     length ws = length ls \<and> (\<forall>n < length ls. encode_line labels (ls ! n) = Inr (ws ! n))"
proof (induction ls arbitrary: ws)
  case (Cons l ls)
  then show ?case
    by (auto simp: try_then_eq_Inr nth_Cons split: nat.split)
qed simp

lemma encode_line_decodes:
  "encode_line labels (pc, line) = Inr w \<Longrightarrow>
     \<exists>i. assemble_line labels pc line = Inr i \<and> encode i = Inr w \<and> decode w = Inr (carried i)"
  by (cases "assemble_line labels pc line"; simp add: encode_line_def; cases "encode (projr (assemble_line labels pc line))")
     (auto intro: decode_encoded)

lemma assemble_nth:
  assumes "assemble source = Inr ws" and "first_pass (py_splitlines (py_strip source)) 0 [] = (labels, clean)"
  shows "length ws = length clean"
    and "n < length ws \<Longrightarrow> \<exists>i. assemble_line labels n (snd (clean ! n)) = Inr i \<and> encode i = Inr (ws ! n) \<and>
           decode (ws ! n) = Inr (carried i)"
proof -
  have s: "second_pass labels clean = Inr ws" using assms by (simp add: assemble_def)
  from second_pass_nth [OF s] show l: "length ws = length clean" by simp
  assume n: "n < length ws"
  have "fst (clean ! n) = n"
    using first_pass_positions [OF assms(2)] n l by (metis add_0 nth_map nth_upt)
  moreover have "encode_line labels (clean ! n) = Inr (ws ! n)" using second_pass_nth [OF s] n l by simp
  ultimately have "encode_line labels (n, snd (clean ! n)) = Inr (ws ! n)" by (metis prod.collapse)
  from encode_line_decodes [OF this]
  show "\<exists>i. assemble_line labels n (snd (clean ! n)) = Inr i \<and> encode i = Inr (ws ! n) \<and>
           decode (ws ! n) = Inr (carried i)" .
qed

text \<open>A branch line whose target is a label carries the distance to that label.\<close>

lemma branch_line_offset:
  assumes "assemble_line labels pc line = Inr i" and "in_op i = BRA \<or> in_op i = BRA_DIV"
    and "map_of labels (line_tokens line ! 1) = Some l"
  shows "in_imm i = int l - int pc"
proof -
  obtain op where "operands labels pc op (line_tokens line) = Inr i"
    using assms(1) by (auto simp: assemble_line_def Let_def split: option.splits if_splits)
  then show ?thesis using assms(2,3)
    by (auto simp: operands_def branch_offset_def plain_def three_operand_def try_then_eq_Inr split: if_splits)
qed

text \<open>An assembled word of a three-source operation other than \<open>MMA.SYNC\<close> has lost its third source.\<close>

lemma vffma_third_source_lost:
  assumes "assemble_line labels pc line = Inr i" and "in_op i = VFFMA" and "encode i = Inr w"
  shows "decode w = Inr (i\<lparr>in_rs3 := 0\<rparr>)"
proof -
  obtain op where "operands labels pc op (line_tokens line) = Inr i"
    using assms(1) by (auto simp: assemble_line_def Let_def split: option.splits if_splits)
  then have "in_imm i = 0" using assms(2)
    by (auto simp: operands_def plain_def three_operand_def try_then_eq_Inr split: if_splits)
  then show ?thesis using decode_encoded [OF assms(3)] assms(2) by (simp add: carried_def)
qed

end
