(* ===== verification/Gpu.thy ===== *)
theory Gpu
  imports SmSafety Assembler
begin

text \<open>
  \<open>src/zgpu/simulator/gpu.py\<close>, \<open>src/zgpu/runtime/runtime.py\<close> and \<open>src/zgpu/rtl/cosims.py\<close>: the device with its
  multiprocessors over one global memory, the launch of a grid, the host allocator and the comparison with a register
  trace. A launch with a cycle budget and one without are the same loop; the loop is a partial function, whose \<open>None\<close> is not
  returning.
\<close>

datatype gpu_error = GpuValueError string | SimulationLimitError int | GpuMemoryError | GpuSm sm_error

record gpu =
  g_num_sms :: int
  g_global_mem :: global_memory
  g_sms :: "sm list"
  g_total_cycles :: int

definition gpu_new :: "int \<Rightarrow> int \<Rightarrow> gpu_error + gpu" where
  "gpu_new num_sms global_mem_mb =
     (if num_sms < 1 then Inl (GpuValueError ''num_sms must be a positive integer'')
      else if global_mem_mb < 1 then Inl (GpuValueError ''global_mem_mb must be a positive integer'')
      else Inr \<lparr>g_num_sms = num_sms, g_global_mem = gm_new (global_mem_mb * 1024 * 1024),
             g_sms = map (\<lambda>i. sm_new (int i) 8) [0..<nat num_sms], g_total_cycles = 0\<rparr>)"

subsection \<open>Launching a grid\<close>

datatype reg_init = Scalar int | PerLane "int list"

fun register_values :: "reg_init \<Rightarrow> int list" where
  "register_values (Scalar v) = replicate 32 v"
| "register_values (PerLane vs) = vs"

text \<open>The checks on one entry of \<open>initial_registers\<close>, in their order.\<close>

definition check_register :: "int \<times> reg_init \<Rightarrow> gpu_error option" where
  "check_register = (\<lambda>(register, values).
     if \<not> (0 \<le> register \<and> register < 128) then Some (GpuValueError ''initial register index must be between 0 and 127'')
     else if length (register_values values) \<noteq> 32
       then Some (GpuValueError ''per-lane register input must contain exactly 32 values'')
     else if list_ex (\<lambda>v. \<not> (0 \<le> v \<and> v \<le> 0xFFFFFFFF)) (register_values values)
       then Some (GpuValueError ''register values must be unsigned 32-bit integers'')
     else None)"

fun check_registers :: "(int \<times> reg_init) list \<Rightarrow> gpu_error option" where
  "check_registers [] = None"
| "check_registers (r # rs) = (case check_register r of Some e \<Rightarrow> Some e | None \<Rightarrow> check_registers rs)"

definition check_launch :: "int \<Rightarrow> int \<Rightarrow> int option \<Rightarrow> (int \<times> reg_init) list \<Rightarrow> gpu \<Rightarrow> gpu_error option" where
  "check_launch grid_dim block_dim_warps max_cycles inits g =
     (if (case max_cycles of Some n \<Rightarrow> n < 1 | None \<Rightarrow> False)
        then Some (GpuValueError ''max_cycles must be a positive integer'')
      else if grid_dim < 1 then Some (GpuValueError ''grid_dim must be a positive integer'')
      else if block_dim_warps < 1 then Some (GpuValueError ''block_dim_warps must be a positive integer'')
      else if list_ex (\<lambda>m. block_dim_warps > sm_max_warps m) (g_sms g)
        then Some (GpuValueError ''block_dim_warps cannot exceed the SM warp capacity'')
      else check_registers inits)"

definition set_register :: "warp \<Rightarrow> int \<times> reg_init \<Rightarrow> warp" where
  "set_register w = (\<lambda>(register, values). w\<lparr>w_rf := map2 (\<lambda>row v. row[nat register := v]) (w_rf w) (register_values values)\<rparr>)"

definition set_registers :: "(int \<times> reg_init) list \<Rightarrow> warp \<Rightarrow> warp" where
  "set_registers inits w = foldl set_register w inits"

text \<open>The dispatch of waiting blocks to the multiprocessors that have finished theirs.\<close>

fun dispatch :: "nat \<Rightarrow> (int \<times> reg_init) list \<Rightarrow> sm list \<Rightarrow> int list \<Rightarrow> sm list \<times> int list" where
  "dispatch bd inits [] queue = ([], queue)"
| "dispatch bd inits (m # ms) queue =
     (if is_finished m \<and> queue \<noteq> [] then
        (let m' = launch_warps bd (hd queue) m; m' = m'\<lparr>sm_warps := map (set_registers inits) (sm_warps m')\<rparr>
         in (case dispatch bd inits ms (tl queue) of (ms', q) \<Rightarrow> (m' # ms', q)))
      else (case dispatch bd inits ms queue of (ms', q) \<Rightarrow> (m # ms', q)))"

text \<open>One cycle of every unfinished multiprocessor; the last component is \<open>any_active\<close>.\<close>

fun step_all ::
  "'f fpu \<Rightarrow> int list \<Rightarrow> sm list \<Rightarrow> global_memory \<Rightarrow> sm_error option \<times> sm list \<times> global_memory \<times> bool" where
  "step_all fpu program [] gm = (None, [], gm, False)"
| "step_all fpu program (m # ms) gm =
     (if is_finished m then
        (case step_all fpu program ms gm of (e, ms', gm', act) \<Rightarrow> (e, m # ms', gm', act))
      else (case step_cycle fpu program m gm of
          (Inl e, m', gm') \<Rightarrow> (Some e, m' # ms, gm', True)
        | (Inr _, m', gm') \<Rightarrow>
            (case step_all fpu program ms gm' of (e, ms', gm'', act) \<Rightarrow> (e, m' # ms', gm'', True))))"

partial_function (option) launch_loop ::
  "'f fpu \<Rightarrow> int list \<Rightarrow> int option \<Rightarrow> nat \<Rightarrow> (int \<times> reg_init) list \<Rightarrow> int \<Rightarrow> int list \<Rightarrow> gpu
     \<Rightarrow> (gpu_error option \<times> gpu) option" where
  "launch_loop fpu program max_cycles bd inits start queue g =
     (if queue \<noteq> [] \<or> list_ex (\<lambda>m. \<not> is_finished m) (g_sms g) then
        (if (case max_cycles of Some n \<Rightarrow> g_total_cycles g - start \<ge> n | None \<Rightarrow> False)
         then Some (Some (SimulationLimitError (the max_cycles)), g)
         else (case dispatch bd inits (g_sms g) queue of (sms, q) \<Rightarrow>
           (case step_all fpu program sms (g_global_mem g) of (e, sms', gm', act) \<Rightarrow>
             (case e of
                Some x \<Rightarrow> Some (Some (GpuSm x), g\<lparr>g_sms := sms', g_global_mem := gm'\<rparr>)
              | None \<Rightarrow> launch_loop fpu program max_cycles bd inits start q
                  (g\<lparr>g_sms := sms', g_global_mem := gm', g_total_cycles := g_total_cycles g + (if act then 1 else 0)\<rparr>)))))
      else Some (None, g))"

definition launch_kernel ::
  "'f fpu \<Rightarrow> int list \<Rightarrow> int \<Rightarrow> int \<Rightarrow> int option \<Rightarrow> (int \<times> reg_init) list \<Rightarrow> gpu \<Rightarrow> (gpu_error option \<times> gpu) option" where
  "launch_kernel fpu program grid_dim block_dim_warps max_cycles inits g =
     (case check_launch grid_dim block_dim_warps max_cycles inits g of
        Some e \<Rightarrow> Some (Some e, g)
      | None \<Rightarrow> launch_loop fpu program max_cycles (nat block_dim_warps) inits (g_total_cycles g) [0..grid_dim - 1] g)"

record performance_counters =
  pc_total_cycles :: int
  pc_total_instructions :: nat
  pc_ipc :: real
  pc_dram_reads :: nat
  pc_dram_writes :: nat
  pc_shared_mem_bank_conflicts :: nat

definition get_performance_counters :: "gpu \<Rightarrow> performance_counters" where
  "get_performance_counters g =
     (let total_instructions = sum_list (map sm_instructions_retired (g_sms g)) in
      \<lparr>pc_total_cycles = g_total_cycles g, pc_total_instructions = total_instructions,
       pc_ipc = of_int (py_round (100 * (of_nat total_instructions / of_int (max 1 (g_total_cycles g))))) / 100,
       pc_dram_reads = gm_read_transactions (g_global_mem g), pc_dram_writes = gm_write_transactions (g_global_mem g),
       pc_shared_mem_bank_conflicts = sum_list (map (\<lambda>m. sh_bank_conflicts (sm_shared_mem m)) (g_sms g))\<rparr>)"

subsection \<open>The host runtime\<close>

record device_pointer =
  dp_addr :: int
  dp_size :: int

record z_runtime =
  zr_device :: gpu
  zr_heap_head :: int

definition z_runtime_new :: "int \<Rightarrow> gpu_error + z_runtime" where
  "z_runtime_new num_sms = (case gpu_new num_sms 64 of Inl e \<Rightarrow> Inl e | Inr g \<Rightarrow> Inr \<lparr>zr_device = g, zr_heap_head = 0x1000\<rparr>)"

text \<open>\<open>(heap_head + 127) & ~127\<close>; the head moves before the check, also when the check fails.\<close>

definition malloc :: "int \<Rightarrow> z_runtime \<Rightarrow> (gpu_error + device_pointer) \<times> z_runtime" where
  "malloc size_bytes rt =
     (let aligned = and (zr_heap_head rt + 127) (not 127);
          rt' = rt\<lparr>zr_heap_head := aligned + size_bytes\<rparr>
      in if zr_heap_head rt' > gm_size (g_global_mem (zr_device rt)) then (Inl GpuMemoryError, rt')
         else (Inr \<lparr>dp_addr = aligned, dp_size = size_bytes\<rparr>, rt'))"

text \<open>Writing a list of floats at consecutive words; \<open>None\<close> when one does not fit single precision.\<close>

fun write_floats :: "'f fpu \<Rightarrow> int \<Rightarrow> 'f list \<Rightarrow> global_memory \<Rightarrow> global_memory option" where
  "write_floats fpu addr [] gm = Some gm"
| "write_floats fpu addr (v # vs) gm =
     (case write_f32 fpu addr v gm of None \<Rightarrow> None | Some gm' \<Rightarrow> write_floats fpu (addr + 4) vs gm')"

fun read_floats :: "'f fpu \<Rightarrow> int \<Rightarrow> nat \<Rightarrow> global_memory \<Rightarrow> 'f list \<times> global_memory" where
  "read_floats fpu addr 0 gm = ([], gm)"
| "read_floats fpu addr (Suc n) gm =
     (case read_f32 fpu addr gm of (v, gm1) \<Rightarrow> (case read_floats fpu (addr + 4) n gm1 of (vs, gm2) \<Rightarrow> (v # vs, gm2)))"

definition memcpy_h2d :: "'f fpu \<Rightarrow> device_pointer \<Rightarrow> 'f list \<Rightarrow> z_runtime \<Rightarrow> z_runtime option" where
  "memcpy_h2d fpu dst src_data rt = map_option
     (\<lambda>gm. rt\<lparr>zr_device := (zr_device rt)\<lparr>g_global_mem := gm\<rparr>\<rparr>)
     (write_floats fpu (dp_addr dst) src_data (g_global_mem (zr_device rt)))"

definition memcpy_d2h :: "'f fpu \<Rightarrow> device_pointer \<Rightarrow> nat \<Rightarrow> z_runtime \<Rightarrow> 'f list \<times> z_runtime" where
  "memcpy_d2h fpu src num_floats rt =
     (case read_floats fpu (dp_addr src) num_floats (g_global_mem (zr_device rt)) of
        (vs, gm) \<Rightarrow> (vs, rt\<lparr>zr_device := (zr_device rt)\<lparr>g_global_mem := gm\<rparr>\<rparr>))"

datatype runtime_error = RtAssembly asm_error | RtGpu gpu_error

definition rt_launch :: "'f fpu \<Rightarrow> string \<Rightarrow> int \<Rightarrow> int \<Rightarrow> z_runtime \<Rightarrow> (runtime_error option \<times> z_runtime) option" where
  "rt_launch fpu kernel_source grid_dim block_dim_warps rt =
     (case assemble kernel_source of
        Inl e \<Rightarrow> Some (Some (RtAssembly e), rt)
      | Inr bytecode \<Rightarrow> map_option (\<lambda>(e, g). (map_option RtGpu e, rt\<lparr>zr_device := g\<rparr>))
          (launch_kernel fpu bytecode grid_dim block_dim_warps None [] (zr_device rt)))"

subsection \<open>Comparison with a register trace\<close>

record cosim_report =
  cs_match :: bool
  cs_steps_simulated :: int
  cs_instructions_submitted :: nat
  cs_python_registers :: "int list"
  cs_rtl_expected :: "int list"
  cs_divergence_stack_depth :: nat
  cs_performance_counters :: performance_counters

definition verify_warp_execution ::
  "'f fpu \<Rightarrow> int list \<Rightarrow> int list \<Rightarrow> (int \<times> reg_init) list \<Rightarrow> int \<Rightarrow> int \<Rightarrow> (gpu_error + cosim_report) option" where
  "verify_warp_execution fpu instructions expected inits max_cycles lane =
     (if instructions = [] then Some (Inl (GpuValueError ''instructions must be a non-empty list of encoded zISA words''))
      else if \<not> (1 \<le> length expected \<and> length expected \<le> 128)
        then Some (Inl (GpuValueError ''expected_register_state must contain 1 to 128 register values''))
      else if list_ex (\<lambda>v. \<not> (0 \<le> v \<and> v \<le> 0xFFFFFFFF)) expected
        then Some (Inl (GpuValueError ''expected register values must be unsigned 32-bit integers''))
      else if \<not> (0 \<le> lane \<and> lane < 32) then Some (Inl (GpuValueError ''lane must be between 0 and 31''))
      else (case gpu_new 1 1 of
          Inl e \<Rightarrow> Some (Inl e)
        | Inr g \<Rightarrow> map_option (\<lambda>(e, g').
            (case e of
               Some x \<Rightarrow> Inl x
             | None \<Rightarrow>
                (let w = hd (sm_warps (hd (g_sms g'))); regs = take (length expected) (w_rf w ! nat lane) in
                 Inr \<lparr>cs_match = (regs = expected), cs_steps_simulated = g_total_cycles g',
                   cs_instructions_submitted = length instructions, cs_python_registers = regs, cs_rtl_expected = expected,
                   cs_divergence_stack_depth = length (w_divergence_stack w),
                   cs_performance_counters = get_performance_counters g'\<rparr>)))
            (launch_kernel fpu instructions 1 1 (Some max_cycles) inits g)))"

subsection \<open>Labels\<close>

text \<open>
  A branch to a label lands on the label: when the assembled program runs and the selected warp stands at a \<open>BRA\<close>
  line whose target is a label, its next instruction is the one after the label's line, and nothing else of the device changes.
\<close>
theorem branch_reaches_label:
  assumes "assemble source = Inr ws" and "first_pass (py_splitlines (py_strip source)) 0 [] = (labels, clean)"
    and "n < length ws" and "assemble_line labels n (snd (clean ! n)) = Inr i" and "in_op i = BRA"
    and "map_of labels (line_tokens (snd (clean ! n)) ! 1) = Some l"
    and "select_warp m = Some idx" and "w_pc (sm_warps m ! idx) = int n"
  shows "\<exists>m'. step_cycle fpu ws m gm = (Inr True, m', gm) \<and> w_pc (sm_warps m' ! idx) = int l \<and>
    sm_shared_mem m' = sm_shared_mem m \<and> w_rf (sm_warps m' ! idx) = w_rf (sm_warps m ! idx)"
proof -
  have d: "decode (ws ! n) = Inr (carried i)" using assemble_nth(2) [OF assms(1-3)] assms(4) by simp
  have imm: "in_imm i = int l - int n" by (rule branch_line_offset [OF assms(4) _ assms(6)]) (simp add: assms(5))
  note idx = select_warp_SomeD [OF assms(7)]
  then have "\<not> is_finished m" "sm_warps m \<noteq> []" using ready_not_finished [of idx m] by auto
  then show ?thesis using d imm assms(3,5,7,8) idx
    by (auto simp: step_cycle_def Let_def py_nth_nat execute_instruction_def carried_def)
qed

definition loop_source :: string where
  "loop_source = ''top:'' @ [CHR 0x0A] @ ''NOP'' @ [CHR 0x0A] @ ''BRA top''"

theorem branch_reaches_label_witness:
  "\<exists>m'. step_cycle int_fpu [0, 0xFF000030] (two_warps\<lparr>sm_warps := [(warp_new 128 0 0)\<lparr>w_pc := 1\<rparr>]\<rparr>) (gm_new 64) =
     (Inr True, m', gm_new 64) \<and> w_pc (sm_warps m' ! 0) = 0"
proof -
  have a: "assemble loop_source = Inr [0, 0xFF000030]" by code_simp
  have f: "first_pass (py_splitlines (py_strip loop_source)) 0 [] = ([(''top'', 0)], [(0, ''NOP''), (1, ''BRA top'')])" by code_simp
  have l: "assemble_line [(''top'', 0)] 1 (snd ([(0, ''NOP''), (1, ''BRA top'')] ! 1)) =
      Inr \<lparr>in_op = BRA, in_rd = 0, in_rs1 = 0, in_rs2 = 0, in_rs3 = 0, in_imm = -1\<rparr>" by code_simp
  have t: "map_of [(''top'', 0::nat)] (line_tokens (snd ([(0::nat, ''NOP''), (1, ''BRA top'')] ! 1)) ! 1) = Some 0" by code_simp
  let ?m = "two_warps\<lparr>sm_warps := [(warp_new 128 0 0)\<lparr>w_pc := 1\<rparr>]\<rparr>"
  have s: "select_warp ?m = Some 0" by (simp add: select_warp_def two_warps_def ready_def warp_new_def)
  from branch_reaches_label [OF a f _ l _ t s, of int_fpu "gm_new 64"] show ?thesis by auto
qed

end
