(* ===== verification/GpuTermination.thy ===== *)
theory GpuTermination
  imports Gpu
begin

text \<open>
  When a launch returns. With a cycle budget it always does, within the budget; without one it does for programs without
  branches, in a number of cycles that the grid and the program length bound. A kernel that runs past the budget leaves its
  warps behind, and the next launch resumes them. At the end the allocator of the host runtime.
\<close>

subsection \<open>Every round is a cycle\<close>

lemma set_registers_fields [simp]: "w_halted (set_registers inits w) = w_halted w"
  "w_pc (set_registers inits w) = w_pc w" "w_stalled (set_registers inits w) = w_stalled w"
  by (induction inits arbitrary: w) (simp_all add: set_registers_def set_register_def split: prod.splits)

lemma warp_new_fields [simp]: "w_halted (warp_new n i b) = False" "w_pc (warp_new n i b) = 0"
  "w_stalled (warp_new n i b) = False"
  by (simp_all add: warp_new_def)

lemma launched_unfinished:
  "0 < bd \<Longrightarrow> \<not> is_finished ((launch_warps bd b m)\<lparr>sm_warps := map (set_registers inits) (sm_warps (launch_warps bd b m))\<rparr>)"
  by (auto simp: is_finished_def launch_warps_def list_all_iff)

lemma dispatch_length: "dispatch bd inits ms queue = (ms', q) \<Longrightarrow> length ms' = length ms"
  by (induction bd inits ms queue arbitrary: ms' q rule: dispatch.induct) (auto simp: Let_def split: if_splits prod.splits)

lemma dispatch_busy:
  assumes "0 < bd"
  shows "dispatch bd inits ms queue = (ms', q) \<Longrightarrow> queue \<noteq> [] \<and> ms \<noteq> [] \<or> list_ex (\<lambda>m. \<not> is_finished m) ms \<Longrightarrow>
    list_ex (\<lambda>m. \<not> is_finished m) ms'"
proof (induction ms arbitrary: queue ms' q)
  case (Cons m ms)
  show ?case
  proof (cases "is_finished m \<and> queue \<noteq> []")
    case True
    then show ?thesis using Cons.prems launched_unfinished [OF assms, where b = "hd queue" and m = m and inits = inits]
      by (auto simp: Let_def split: prod.splits)
  next
    case False
    obtain ms1 q1 where d: "dispatch bd inits ms queue = (ms1, q1)" by (metis surj_pair)
    show ?thesis
    proof (cases "is_finished m")
      case True
      with False Cons.prems have "list_ex (\<lambda>m. \<not> is_finished m) ms" by simp
      with Cons.IH [OF d] show ?thesis using Cons.prems(1) False True d by auto
    next
      case unf: False
      then show ?thesis using Cons.prems(1) d by auto
    qed
  qed
qed simp

lemma step_all_length: "step_all fpu program ms gm = (e, ms', gm', act) \<Longrightarrow> length ms' = length ms"
  by (induction ms arbitrary: gm e ms' gm' act) (auto split: if_splits prod.splits sum.splits)

lemma step_all_active: "step_all fpu program ms gm = (e, ms', gm', act) \<Longrightarrow> list_ex (\<lambda>m. \<not> is_finished m) ms \<Longrightarrow> act"
  by (induction ms arbitrary: gm e ms' gm' act) (auto split: if_splits prod.splits sum.splits)

text \<open>One round of the loop: it stops, or the cycle counter goes up by one.\<close>

lemma launch_loop_round:
  assumes "g_sms g \<noteq> []" and "0 < bd"
  obtains (stop) e where "launch_loop fpu program max_cycles bd inits start queue g = Some (e, g)"
      "max_cycles = None \<longrightarrow> e = None"
  | (fault) e sms gm where "launch_loop fpu program max_cycles bd inits start queue g =
        Some (Some (GpuSm e), g\<lparr>g_sms := sms, g_global_mem := gm\<rparr>)"
  | (cycle) sms q sms' gm' where "dispatch bd inits (g_sms g) queue = (sms, q)"
      "step_all fpu program sms (g_global_mem g) = (None, sms', gm', True)"
      "launch_loop fpu program max_cycles bd inits start queue g =
         launch_loop fpu program max_cycles bd inits start q
           (g\<lparr>g_sms := sms', g_global_mem := gm', g_total_cycles := g_total_cycles g + 1\<rparr>)"
      "\<forall>n. max_cycles = Some n \<longrightarrow> g_total_cycles g - start < n" "sms' \<noteq> []" "list_ex (\<lambda>m. \<not> is_finished m) sms"
proof (cases "(queue \<noteq> [] \<or> list_ex (\<lambda>m. \<not> is_finished m) (g_sms g)) \<and>
    \<not> (case max_cycles of Some n \<Rightarrow> g_total_cycles g - start \<ge> n | None \<Rightarrow> False)")
  case False
  then show thesis
    by (intro stop [of "if queue \<noteq> [] \<or> list_ex (\<lambda>m. \<not> is_finished m) (g_sms g)
          then Some (SimulationLimitError (the max_cycles)) else None"])
       (subst launch_loop.simps, auto split: option.splits)
next
  case go: True
  obtain sms q where d: "dispatch bd inits (g_sms g) queue = (sms, q)" by (metis surj_pair)
  obtain e sms' gm' act where s: "step_all fpu program sms (g_global_mem g) = (e, sms', gm', act)" by (metis prod_cases4)
  have busy: "list_ex (\<lambda>m. \<not> is_finished m) sms" using dispatch_busy [OF assms(2) d] go assms(1) by auto
  have act: "act" using step_all_active [OF s busy] .
  show thesis
  proof (cases e)
    case None
    have "sms' \<noteq> []" using step_all_length [OF s] dispatch_length [OF d] assms(1) by auto
    moreover have "launch_loop fpu program max_cycles bd inits start queue g =
         launch_loop fpu program max_cycles bd inits start q
           (g\<lparr>g_sms := sms', g_global_mem := gm', g_total_cycles := g_total_cycles g + 1\<rparr>)"
      using go d s act None by (subst launch_loop.simps) (auto split: option.splits)
    moreover have "\<forall>n. max_cycles = Some n \<longrightarrow> g_total_cycles g - start < n" using go by auto
    ultimately show thesis using d s act None busy by (intro cycle [of sms q sms' gm']) simp_all
  next
    case (Some x)
    then show thesis using go d s
      by (intro fault [where e = x and sms = sms' and gm = gm']) (subst launch_loop.simps, auto split: option.splits)
  qed
qed

lemma check_launch_not_limit: "check_launch grid bd mc inits g = Some e \<Longrightarrow> \<forall>n. e \<noteq> SimulationLimitError n"
proof -
  have "check_registers inits = Some e \<Longrightarrow> \<forall>n. e \<noteq> SimulationLimitError n"
    by (induction inits) (auto simp: check_register_def split: option.splits if_splits prod.splits)
  then show "check_launch grid bd mc inits g = Some e \<Longrightarrow> \<forall>n. e \<noteq> SimulationLimitError n"
    by (auto simp: check_launch_def split: if_splits)
qed

subsection \<open>With a budget\<close>

lemma launch_loop_budget:
  assumes "0 < bd"
  shows "g_sms g \<noteq> [] \<Longrightarrow> k = nat (n - (g_total_cycles g - start)) \<Longrightarrow>
    \<exists>e g'. launch_loop fpu program (Some n) bd inits start queue g = Some (e, g') \<and>
      g_total_cycles g \<le> g_total_cycles g' \<and> g_total_cycles g' \<le> max (g_total_cycles g) (start + n)"
proof (induction k arbitrary: queue g)
  case 0
  show ?case
    by (rule launch_loop_round [OF 0(1) assms, of fpu program "Some n" inits start queue]) (use 0(2) in auto)
next
  case (Suc k)
  show ?case
  proof (rule launch_loop_round [OF Suc.prems(1) assms, of fpu program "Some n" inits start queue])
    fix sms q sms' gm'
    assume c: "launch_loop fpu program (Some n) bd inits start queue g =
        launch_loop fpu program (Some n) bd inits start q
          (g\<lparr>g_sms := sms', g_global_mem := gm', g_total_cycles := g_total_cycles g + 1\<rparr>)" "sms' \<noteq> []"
      and lt: "\<forall>m. Some n = Some m \<longrightarrow> g_total_cycles g - start < m"
    let ?g = "g\<lparr>g_sms := sms', g_global_mem := gm', g_total_cycles := g_total_cycles g + 1\<rparr>"
    have "g_sms ?g \<noteq> []" "k = nat (n - (g_total_cycles ?g - start))" using c(2) Suc.prems(2) lt by auto
    from Suc.IH [OF this, of q] lt show ?thesis unfolding c(1) by fastforce
  qed auto
qed

text \<open>
  C33: A launch with a cycle budget returns: whatever the program does, the kernel ends, raises or is stopped, and the cycle
  counter has moved by at most the budget.
\<close>
theorem budgeted_launch_returns:
  assumes "g_sms g \<noteq> []" and "0 < n"
  shows "\<exists>e g'. launch_kernel fpu program grid_dim block_dim_warps (Some n) inits g = Some (e, g') \<and>
    g_total_cycles g \<le> g_total_cycles g' \<and> g_total_cycles g' \<le> g_total_cycles g + n"
proof (cases "check_launch grid_dim block_dim_warps (Some n) inits g")
  case None
  then have "0 < nat block_dim_warps" by (auto simp: check_launch_def split: if_splits)
  from launch_loop_budget [OF this assms(1) refl, where n = n and start = "g_total_cycles g" and fpu = fpu and
      program = program and inits = inits and queue = "[0..grid_dim - 1]"] None assms(2)
  show ?thesis by (simp add: launch_kernel_def)
qed (use assms in \<open>simp add: launch_kernel_def\<close>)

theorem budgeted_launch_returns_witness:
  "\<exists>g e g'. gpu_new 4 64 = Inr g \<and> launch_kernel int_fpu [0x30] 7 2 (Some 100) [(1, Scalar 4)] g = Some (e, g') \<and>
     g_total_cycles g' \<le> 100"
proof -
  obtain g where g: "gpu_new 4 64 = Inr g" "g_sms g \<noteq> []" "g_total_cycles g = 0" by (auto simp: gpu_new_def)
  with budgeted_launch_returns [OF g(2), of 100 int_fpu "[0x30]" 7 2 "[(1, Scalar 4)]"] show ?thesis by auto
qed

subsection \<open>Without a budget: straight-line programs\<close>

definition straight_line :: "int list \<Rightarrow> bool" where
  "straight_line program \<longleftrightarrow>
     (\<forall>word \<in> set program. case decode word of Inl _ \<Rightarrow> True | Inr i \<Rightarrow> in_op i \<notin> {BRA, BRA_DIV, JOIN})"

text \<open>The cycles a warp can still take, plus one to halt at the end of the program.\<close>

definition warp_work :: "int list \<Rightarrow> warp \<Rightarrow> nat" where
  "warp_work program w = (if w_halted w then 0 else nat (int (length program) - w_pc w) + 1)"

definition sm_work :: "int list \<Rightarrow> sm \<Rightarrow> nat" where
  "sm_work program m = sum_list (map (warp_work program) (sm_warps m))"

definition forward :: "sm \<Rightarrow> bool" where
  "forward m \<longleftrightarrow> list_all (\<lambda>w. \<not> w_stalled w \<and> 0 \<le> w_pc w) (sm_warps m)"

lemma on_lanes_fields:
  "on_lanes rd f n w gm sh = (e, w', gm', sh') \<Longrightarrow> w_pc w' = w_pc w \<and> w_stalled w' = w_stalled w \<and> w_halted w' = w_halted w"
  by (auto simp: on_lanes_def write_lanes_def split: prod.splits)

lemma execute_forward:
  assumes "execute_instruction fpu w inst gm sh = (e, w', gm', sh')" and "in_op inst \<notin> {BRA, BRA_DIV, JOIN}"
  shows "w_pc w' = w_pc w \<and> w_stalled w' = w_stalled w"
  using assms
  by (cases "in_op inst") (auto simp: execute_instruction_def dest!: on_lanes_fields split: option.splits prod.splits)

lemma sum_list_list_update:
  fixes f :: "'a \<Rightarrow> nat"
  shows "i < length xs \<Longrightarrow> sum_list (map f (xs[i := y])) + f (xs ! i) = sum_list (map f xs) + f y"
proof (induction xs arbitrary: i)
  case (Cons x xs)
  then show ?case by (cases i) auto
qed simp

lemma unfinished_selects:
  assumes "forward m" and "\<not> is_finished m"
  shows "select_warp m \<noteq> None"
proof -
  obtain j where "j < length (sm_warps m)" "\<not> w_halted (sm_warps m ! j)"
    using assms(2) by (auto simp: is_finished_def list_all_length)
  then have "ready (sm_warps m ! j)" using assms(1) by (auto simp: forward_def ready_def list_all_length)
  from select_warp_nearest [OF \<open>j < length (sm_warps m)\<close> this] show ?thesis by auto
qed

lemma step_cycle_work:
  assumes "straight_line program" and fw: "forward m" and un: "\<not> is_finished m"
    and s: "step_cycle fpu program m gm = (Inr b, m', gm')"
  shows "forward m' \<and> sm_work program m' < sm_work program m"
proof -
  have upd: "forward m' \<and> sm_work program m' < sm_work program m"
    if "select_warp m = Some idx" "sm_warps m' = (sm_warps m)[idx := w']" "\<not> w_stalled w'" "0 \<le> w_pc w'"
      "warp_work program w' < warp_work program (sm_warps m ! idx)" for idx w'
    using that fw sum_list_list_update [OF select_warp_SomeD(1) [OF that(1)], of "warp_work program" w']
    by (auto simp: forward_def sm_work_def list_all_iff dest!: set_update_subset_insert [THEN subsetD])
  have sel: "\<not> w_halted (sm_warps m ! idx) \<and> \<not> w_stalled (sm_warps m ! idx) \<and> 0 \<le> w_pc (sm_warps m ! idx)"
    if "select_warp m = Some idx" for idx
    using select_warp_SomeD [OF that] fw by (simp add: ready_def forward_def list_all_length)
  show ?thesis
    using s
  proof (cases rule: step_cycle_cases)
    case idle
    then show ?thesis using un by (auto simp: is_finished_def)
  next
    case stalled
    then show ?thesis using unfinished_selects [OF fw un] by simp
  next
    case (halt idx)
    then show ?thesis using sel [OF halt(2)] by (intro upd [OF halt(2,4)]) (auto simp: warp_work_def)
  next
    case (exec idx word inst w' sh')
    have "word \<in> set program" using exec(2) by (auto simp: py_nth_def split: if_splits)
    with assms(1) exec(3) have "in_op inst \<notin> {BRA, BRA_DIV, JOIN}" by (auto simp: straight_line_def split: sum.splits)
    from execute_forward [OF exec(5) this] sel [OF exec(1)]
    have w': "w_pc w' = w_pc (sm_warps m ! idx) + 1" "\<not> w_stalled w'" "0 \<le> w_pc (sm_warps m ! idx)" by simp_all
    have "w_pc (sm_warps m ! idx) < int (length program)" using exec(2) w'(3) by (auto simp: py_nth_def split: if_splits)
    then show ?thesis using w' sel [OF exec(1)] by (intro upd [OF exec(1,6)]) (auto simp: warp_work_def)
  qed auto
qed

lemma finished_work: "is_finished m \<Longrightarrow> sm_work program m = 0"
  by (auto simp: sm_work_def is_finished_def list_all_iff warp_work_def)

definition pending_work :: "int list \<Rightarrow> nat \<Rightarrow> sm list \<Rightarrow> int list \<Rightarrow> nat" where
  "pending_work program bd ms queue = sum_list (map (sm_work program) ms) + length queue * (bd * (length program + 1))"

lemma launched_work:
  "sm_work program ((launch_warps bd b m)\<lparr>sm_warps := map (set_registers inits) (sm_warps (launch_warps bd b m))\<rparr>) =
     bd * (length program + 1)"
  "forward ((launch_warps bd b m)\<lparr>sm_warps := map (set_registers inits) (sm_warps (launch_warps bd b m))\<rparr>)"
  by (simp_all add: sm_work_def launch_warps_def warp_work_def sum_list_triv o_def forward_def list_all_iff)

lemma dispatch_work:
  "dispatch bd inits ms queue = (ms', q) \<Longrightarrow> list_all forward ms \<Longrightarrow>
     list_all forward ms' \<and> pending_work program bd ms' q = pending_work program bd ms queue"
proof (induction ms arbitrary: queue ms' q)
  case (Cons m ms)
  show ?case
  proof (cases "is_finished m \<and> queue \<noteq> []")
    case True
    then obtain b bs where q: "queue = b # bs" by (cases queue) auto
    obtain ms1 q1 where d: "dispatch bd inits ms bs = (ms1, q1)" by (metis surj_pair)
    show ?thesis using Cons.prems True d Cons.IH [OF d] finished_work [of m program]
        launched_work(1) [where program = program and bd = bd and b = b and m = m and inits = inits]
        launched_work(2) [where bd = bd and b = b and m = m and inits = inits]
      by (auto simp: Let_def pending_work_def q)
  next
    case False
    obtain ms1 q1 where d: "dispatch bd inits ms queue = (ms1, q1)" by (metis surj_pair)
    then show ?thesis using Cons.prems False Cons.IH [OF d] by (auto simp: pending_work_def)
  qed
qed (simp add: pending_work_def)

lemma step_all_work:
  assumes "straight_line program"
  shows "step_all fpu program ms gm = (None, ms', gm', act) \<Longrightarrow> list_all forward ms \<Longrightarrow>
    list_all forward ms' \<and> sum_list (map (sm_work program) ms') \<le> sum_list (map (sm_work program) ms) \<and>
    (list_ex (\<lambda>m. \<not> is_finished m) ms \<longrightarrow> sum_list (map (sm_work program) ms') < sum_list (map (sm_work program) ms))"
proof (induction ms arbitrary: gm ms' gm' act)
  case (Cons m ms)
  show ?case
  proof (cases "is_finished m")
    case True
    with Cons show ?thesis by (auto split: prod.splits)
  next
    case False
    obtain r m1 gm1 where s: "step_cycle fpu program m gm = (r, m1, gm1)" by (metis prod_cases3)
    obtain b where r: "r = Inr b" using Cons.prems(1) False s by (cases r) auto
    obtain e ms1 gm2 a where t: "step_all fpu program ms gm1 = (e, ms1, gm2, a)" by (metis prod_cases4)
    have e: "e = None" "ms' = m1 # ms1" using Cons.prems(1) False s r t by auto
    have "forward m1 \<and> sm_work program m1 < sm_work program m"
      using step_cycle_work [OF assms _ False s [unfolded r]] Cons.prems(2) by simp
    with Cons.IH [OF t [unfolded e(1)]] Cons.prems(2) e(2) show ?thesis by auto
  qed
qed simp

lemma launch_loop_straight:
  assumes "straight_line program" and "0 < bd"
  shows "g_sms g \<noteq> [] \<Longrightarrow> list_all forward (g_sms g) \<Longrightarrow> k = pending_work program bd (g_sms g) queue \<Longrightarrow>
    \<exists>e g'. launch_loop fpu program None bd inits start queue g = Some (e, g') \<and>
      (\<forall>n. e \<noteq> Some (SimulationLimitError n)) \<and> g_total_cycles g' \<le> g_total_cycles g + int k"
proof (induction k arbitrary: queue g rule: less_induct)
  case (less k)
  show ?case
  proof (rule launch_loop_round [OF less.prems(1) assms(2), where fpu = fpu and program = program and
        max_cycles = None and inits = inits and start = start and queue = queue])
    fix sms q sms' gm'
    assume d: "dispatch bd inits (g_sms g) queue = (sms, q)" and s: "step_all fpu program sms (g_global_mem g) = (None, sms', gm', True)"
      and c: "launch_loop fpu program None bd inits start queue g =
        launch_loop fpu program None bd inits start q
          (g\<lparr>g_sms := sms', g_global_mem := gm', g_total_cycles := g_total_cycles g + 1\<rparr>)"
      and ne: "sms' \<noteq> []" and busy: "list_ex (\<lambda>m. \<not> is_finished m) sms"
    let ?g = "g\<lparr>g_sms := sms', g_global_mem := gm', g_total_cycles := g_total_cycles g + 1\<rparr>"
    note dw = dispatch_work [OF d less.prems(2), of program]
    note sw = step_all_work [OF assms(1) s conjunct1 [OF dw]]
    have lt: "pending_work program bd (g_sms ?g) q < k"
      using dw sw busy less.prems(3) by (simp add: pending_work_def)
    from less.IH [OF lt _ _ refl] ne sw
    have "\<exists>e g'. launch_loop fpu program None bd inits start q ?g = Some (e, g') \<and>
      (\<forall>n. e \<noteq> Some (SimulationLimitError n)) \<and> g_total_cycles g' \<le> g_total_cycles ?g + int (pending_work program bd (g_sms ?g) q)"
      by simp
    then show ?thesis unfolding c using lt by fastforce
  qed auto
qed

text \<open>
  A launch of a program without branches returns without any budget: on a device whose multiprocessors are idle, every
  block runs to its end or an instruction raises, in at most (length + 1) cycles for every warp of the grid.
\<close>
theorem straight_line_launch_returns:
  assumes "straight_line program" and "g_sms g \<noteq> []" and "list_all (\<lambda>m. is_finished m \<and> forward m) (g_sms g)"
  shows "\<exists>e g'. launch_kernel fpu program grid_dim block_dim_warps None inits g = Some (e, g') \<and>
    (\<forall>n. e \<noteq> Some (SimulationLimitError n)) \<and>
    g_total_cycles g' \<le> g_total_cycles g + int (nat grid_dim * (nat block_dim_warps * (length program + 1)))"
proof (cases "check_launch grid_dim block_dim_warps None inits g")
  case None
  then have "0 < nat block_dim_warps" "0 < grid_dim" by (auto simp: check_launch_def split: if_splits)
  moreover have "pending_work program (nat block_dim_warps) (g_sms g) [0..grid_dim - 1] =
      nat grid_dim * (nat block_dim_warps * (length program + 1))"
    using assms(3) finished_work by (simp add: pending_work_def list_all_iff)
  ultimately show ?thesis
    using launch_loop_straight [OF assms(1) _ assms(2) _ refl, where bd = "nat block_dim_warps" and
        queue = "[0..grid_dim - 1]" and fpu = fpu and inits = inits and start = "g_total_cycles g"] None assms(3)
    by (simp add: launch_kernel_def list_all_iff)
next
  case (Some e)
  then have "\<forall>n. e \<noteq> SimulationLimitError n" by (rule check_launch_not_limit)
  then show ?thesis using Some by (simp add: launch_kernel_def)
qed

theorem straight_line_launch_returns_witness:
  "\<exists>g e g'. gpu_new 2 64 = Inr g \<and> launch_kernel int_fpu [0, 0x7F] 5 2 None [(1, Scalar 4)] g = Some (e, g') \<and>
     g_total_cycles g' \<le> 30"
proof -
  obtain g where g: "gpu_new 2 64 = Inr g" "g_sms g \<noteq> []" "g_total_cycles g = 0"
      "list_all (\<lambda>m. is_finished m \<and> forward m) (g_sms g)"
    by (auto simp: gpu_new_def list_all_iff is_finished_def forward_def sm_new_def)
  have "straight_line [0, 0x7F]"
    by (simp add: straight_line_def decode_def fits_def opcode_of_def all_opcodes_def take_bit_eq_mod)
  with straight_line_launch_returns [OF _ g(2,4), of "[0, 0x7F]" int_fpu 5 2 "[(1, Scalar 4)]"] g(1,3) show ?thesis by fastforce
qed

subsection \<open>What a stopped launch leaves\<close>

text \<open>A multiprocessor with unfinished warps gets no new block: a launch that hit its limit leaves warps that the next
  launch runs on, with the next program.\<close>

lemma dispatch_keeps_unfinished:
  "dispatch bd inits ms queue = (ms', q) \<Longrightarrow> i < length ms \<Longrightarrow> \<not> is_finished (ms ! i) \<Longrightarrow> ms' ! i = ms ! i"
proof (induction ms arbitrary: queue ms' q i)
  case (Cons m ms)
  show ?case
  proof (cases i)
    case 0
    with Cons.prems show ?thesis by (auto split: prod.splits)
  next
    case (Suc k)
    with Cons.prems Cons.IH [of _ _ _ k] show ?thesis by (auto simp: Let_def split: prod.splits if_splits)
  qed
qed simp

subsection \<open>The allocator\<close>

lemma align_128: "and (x + 127) (- 128) = 128 * ((x + 127) div 128)" for x :: int
proof -
  have m: "(127::int) = mask 7" by (simp add: mask_eq_exp_minus_1)
  have "and y (not 127) = push_bit 7 (drop_bit 7 y)" for y :: int
    unfolding m by (rule bit_eqI) (auto simp: bit_simps)
  moreover have "not (127::int) = - 128" by simp
  ultimately show ?thesis by (simp add: push_bit_eq_mult drop_bit_eq_div)
qed

text \<open>The head of the heap only moves up, so the blocks handed out for non-negative sizes are aligned, lie inside the device
  memory and never overlap.\<close>

definition malloc_all :: "int list \<Rightarrow> z_runtime \<Rightarrow> (gpu_error + device_pointer) list \<times> z_runtime" where
  "malloc_all sizes rt = foldl (\<lambda>(ps, r) n. case malloc n r of (p, r') \<Rightarrow> (ps @ [p], r')) ([], rt) sizes"

lemma malloc_ok:
  assumes "malloc n rt = (Inr p, rt')" and "0 \<le> n"
  shows "zr_heap_head rt \<le> dp_addr p" "dp_addr p + dp_size p = zr_heap_head rt'" "dp_addr p mod 128 = 0"
    "zr_heap_head rt' \<le> gm_size (g_global_mem (zr_device rt))" "dp_size p = n"
proof -
  have a: "dp_addr p = 128 * ((zr_heap_head rt + 127) div 128)" "dp_size p = n" "zr_heap_head rt' = dp_addr p + n"
    "zr_heap_head rt' \<le> gm_size (g_global_mem (zr_device rt))"
    using assms(1) by (auto simp: malloc_def Let_def align_128 split: if_splits)
  have "zr_heap_head rt \<le> 128 * ((zr_heap_head rt + 127) div 128)" by presburger
  with a show "zr_heap_head rt \<le> dp_addr p" "dp_addr p + dp_size p = zr_heap_head rt'" "dp_addr p mod 128 = 0"
    "zr_heap_head rt' \<le> gm_size (g_global_mem (zr_device rt))" "dp_size p = n"
    by simp_all
qed

lemma malloc_head: "malloc n rt = (r, rt') \<Longrightarrow> 0 \<le> n \<Longrightarrow> zr_heap_head rt \<le> zr_heap_head rt' \<and> zr_device rt' = zr_device rt"
proof -
  assume "malloc n rt = (r, rt')" "0 \<le> n"
  moreover have "zr_heap_head rt \<le> 128 * ((zr_heap_head rt + 127) div 128)" by presburger
  ultimately show ?thesis by (auto simp: malloc_def Let_def align_128 split: if_splits)
qed

text \<open>A request that does not fit still moves the head past the end: nothing is allocated ever after.\<close>

lemma failed_malloc_exhausts:
  assumes "malloc n rt = (Inl e, rt')" and "0 \<le> k"
  shows "fst (malloc k rt') = Inl GpuMemoryError"
proof -
  have "gm_size (g_global_mem (zr_device rt')) < zr_heap_head rt'" using assms(1)
    by (auto simp: malloc_def Let_def split: if_splits)
  moreover have "zr_heap_head rt' \<le> 128 * ((zr_heap_head rt' + 127) div 128)" by presburger
  ultimately show ?thesis using assms(2) by (auto simp: malloc_def Let_def align_128)
qed

lemma malloc_all_snoc: "malloc_all (sizes @ [n]) rt =
    (case malloc_all sizes rt of (ps, r) \<Rightarrow> (case malloc n r of (p, r') \<Rightarrow> (ps @ [p], r')))"
  by (simp add: malloc_all_def split: prod.splits)

lemma malloc_all_head:
  "malloc_all sizes rt = (ps, rt') \<Longrightarrow> \<forall>n \<in> set sizes. 0 \<le> n \<Longrightarrow> zr_heap_head rt \<le> zr_heap_head rt' \<and>
     zr_device rt' = zr_device rt \<and>
     (\<forall>p. Inr p \<in> set ps \<longrightarrow> zr_heap_head rt \<le> dp_addr p \<and> dp_addr p + dp_size p \<le> zr_heap_head rt' \<and> dp_addr p mod 128 = 0 \<and>
        dp_addr p + dp_size p \<le> gm_size (g_global_mem (zr_device rt)) \<and> 0 \<le> dp_size p)"
proof (induction sizes arbitrary: ps rt' rule: rev_induct)
  case (snoc n sizes)
  obtain qs r where q: "malloc_all sizes rt = (qs, r)" by (metis surj_pair)
  obtain p where p: "malloc n r = (p, rt')" "ps = qs @ [p]"
    using snoc.prems(1) q by (auto simp: malloc_all_snoc split: prod.splits)
  have n: "0 \<le> n" and ih: "zr_heap_head rt \<le> zr_heap_head r" "zr_device r = zr_device rt"
    "\<forall>p. Inr p \<in> set qs \<longrightarrow> zr_heap_head rt \<le> dp_addr p \<and> dp_addr p + dp_size p \<le> zr_heap_head r \<and> dp_addr p mod 128 = 0 \<and>
        dp_addr p + dp_size p \<le> gm_size (g_global_mem (zr_device rt)) \<and> 0 \<le> dp_size p"
    using snoc.IH [OF q] snoc.prems(2) by auto
  have h: "zr_heap_head r \<le> zr_heap_head rt'" "zr_device rt' = zr_device r" using malloc_head [OF p(1) n] by auto
  have new: "zr_heap_head r \<le> dp_addr x" "dp_addr x + dp_size x = zr_heap_head rt'" "dp_addr x mod 128 = 0"
    "zr_heap_head rt' \<le> gm_size (g_global_mem (zr_device r))" "dp_size x = n" if "p = Inr x" for x
    using malloc_ok [OF p(1) [unfolded that] n] by simp_all
  have "zr_heap_head rt \<le> dp_addr x \<and> dp_addr x + dp_size x \<le> zr_heap_head rt' \<and> dp_addr x mod 128 = 0 \<and>
        dp_addr x + dp_size x \<le> gm_size (g_global_mem (zr_device rt)) \<and> 0 \<le> dp_size x"
    if "Inr x \<in> set ps" for x
  proof (cases "Inr x \<in> set qs")
    case True
    with ih(3) h(1) show ?thesis by force
  next
    case False
    with that p(2) have "p = Inr x" by simp
    with new [of x] ih(1,2) n show ?thesis by auto
  qed
  then show ?case using ih(1,2) h by simp
qed (simp add: malloc_all_def)

text \<open>
  Allocations do not overlap: whatever non-negative sizes are requested and whichever requests fail, the blocks handed
  out start at multiples of the cache line, lie above the reserved region and inside the device memory, and each lies
  wholly before the ones handed out after it.
\<close>
theorem allocations_disjoint:
  assumes "malloc_all sizes rt = (ps, rt')" and "\<forall>n \<in> set sizes. 0 \<le> n"
  shows "\<forall>i j p q. i < j \<and> j < length ps \<and> ps ! i = Inr p \<and> ps ! j = Inr q \<longrightarrow>
    dp_addr p mod 128 = 0 \<and> zr_heap_head rt \<le> dp_addr p \<and> dp_addr p + dp_size p \<le> dp_addr q \<and>
    dp_addr q + dp_size q \<le> gm_size (g_global_mem (zr_device rt))"
  using assms
proof (induction sizes arbitrary: ps rt' rule: rev_induct)
  case Nil
  then show ?case by (simp add: malloc_all_def)
next
  case (snoc n sizes)
  obtain qs r where q: "malloc_all sizes rt = (qs, r)" by (metis surj_pair)
  obtain p where p: "malloc n r = (p, rt')" "ps = qs @ [p]"
    using snoc.prems(1) q by (auto simp: malloc_all_snoc split: prod.splits)
  have ns: "\<forall>n \<in> set sizes. 0 \<le> n" "0 \<le> n" using snoc.prems(2) by auto
  note old = malloc_all_head [OF q ns(1)]
  show ?case
  proof (intro allI impI, elim conjE)
    fix i j a b
    assume ij: "i < j" "j < length ps" "ps ! i = Inr a" "ps ! j = Inr b"
    show "dp_addr a mod 128 = 0 \<and> zr_heap_head rt \<le> dp_addr a \<and> dp_addr a + dp_size a \<le> dp_addr b \<and>
      dp_addr b + dp_size b \<le> gm_size (g_global_mem (zr_device rt))"
    proof (cases "j < length qs")
      case True
      then have "qs ! i = Inr a" "qs ! j = Inr b" using ij p(2) by (simp_all add: nth_append)
      with snoc.IH [OF q ns(1)] ij(1) True show ?thesis by blast
    next
      case False
      then have "p = Inr b" and i: "i < length qs" "qs ! i = Inr a" using ij p(2) by (auto simp: nth_append less_Suc_eq)
      moreover have "Inr a \<in> set qs" using i by (metis nth_mem)
      ultimately show ?thesis using old malloc_ok [OF _ ns(2), of r b rt'] p(1) by force
    qed
  qed
qed

theorem allocations_disjoint_witness:
  "\<exists>rt p q. z_runtime_new 4 = Inr rt \<and> fst (malloc_all [100, 5] rt) = [Inr p, Inr q] \<and> dp_addr p + dp_size p \<le> dp_addr q"
proof -
  obtain rt where rt: "z_runtime_new 4 = Inr rt" "zr_heap_head rt = 4096" "gm_size (g_global_mem (zr_device rt)) = 67108864"
    by (auto simp: z_runtime_new_def gpu_new_def gm_new_def)
  then obtain p q rt' where m: "malloc_all [100, 5] rt = ([Inr p, Inr q], rt')"
    by (auto simp: malloc_all_def malloc_def Let_def align_128)
  have "\<forall>n \<in> set [100, 5]. 0 \<le> (n::int)" by simp
  from allocations_disjoint [OF m this] have "dp_addr p + dp_size p \<le> dp_addr q"
    by (elim allE [of _ 0] allE [of _ 1] allE [of _ p] allE [of _ q]) simp
  with rt m show ?thesis by auto
qed

end
