(* ===== verification/ZisaStudio.thy ===== *)
theory ZisaStudio
  imports GpuTermination
begin

unbundle bit_operations_syntax

text \<open>
  \<open>AstJitCompiler.compile_expression\<close> of \<open>src/zgpu/compiler/ast_compiler.py\<close> and
  \<open>src/zgpu/integrations/zisa_studio.py\<close>: the compiler from elementwise expressions to zISA text, and the bounded
  assembling and simulation on one warp. The Python parser is the parameter \<open>parse\<close> (\<open>None\<close> is a \<open>SyntaxError\<close>), the
  arithmetic the parameter \<open>fpu\<close>; \<open>in_range\<close> and \<open>finite\<close> are the checks on floats.
\<close>

subsection \<open>The expression compiler\<close>

datatype py_operator = PyAdd | PySub | PyMult | PyOtherOp

datatype pyexpr = PyBinOp pyexpr py_operator pyexpr | PyName string | PyOther

definition newline :: char where
  "newline = CHR 0x0A"

definition lines_text :: "string list \<Rightarrow> string" where
  "lines_text ls = (case ls of [] \<Rightarrow> [] | l # rest \<Rightarrow> l @ concat (map (\<lambda>x. newline # x) rest))"

definition kernel_text :: "string \<Rightarrow> string \<Rightarrow> string \<Rightarrow> string" where
  "kernel_text instr left_register right_register = lines_text
     [''# zGPU elementwise expression'',
      ''GET.TID R0'',
      ''VMUL R5, R0, R1'',
      ''VADD R6, R3, R5'',
      ''VADD R7, R4, R5'',
      ''VADD R8, R2, R5'',
      ''VLOAD.G R9, R6, 0'',
      ''VLOAD.G R10, R7, 0'',
      instr @ '' R11, '' @ left_register @ '', '' @ right_register,
      ''VSTORE.G R8, R11, 0'',
      ''HALT'']"

definition supported :: "py_operator \<Rightarrow> string option" where
  "supported op = (case op of PyAdd \<Rightarrow> Some ''VFADD'' | PySub \<Rightarrow> Some ''VFSUB'' | PyMult \<Rightarrow> Some ''VFMUL'' | PyOtherOp \<Rightarrow> None)"

definition operand_register :: "string \<Rightarrow> string" where
  "operand_register name = (if name = ''a'' then ''R9'' else ''R10'')"

definition compile_expression :: "(string \<Rightarrow> pyexpr option) \<Rightarrow> string \<Rightarrow> string + string" where
  "compile_expression parse expression =
     (if length expression > 256 then Inl ''expression must be a string of at most 256 characters''
      else if list_ex (\<lambda>c. c = CHR 0x0D \<or> c = CHR 0x0A \<or> c = CHR ''#'') expression
        then Inl ''expression must be a single line without comments''
      else (case parse expression of
          None \<Rightarrow> Inl ''expression must use the form a + b, a - b, or a * b''
        | Some (PyBinOp (PyName l) op (PyName r)) \<Rightarrow>
            (case supported op of
               Some instr \<Rightarrow>
                 if (l = ''a'' \<or> l = ''b'') \<and> (r = ''a'' \<or> r = ''b'')
                 then Inr (kernel_text instr (operand_register l) (operand_register r))
                 else Inl ''expression must use only a and b with +, -, or *''
             | None \<Rightarrow> Inl ''expression must use only a and b with +, -, or *'')
        | Some _ \<Rightarrow> Inl ''expression must use only a and b with +, -, or *''))"

subsection \<open>Bounded assembling\<close>

datatype studio_error = AssemblyError string int | SimulationError string int | StudioUncaught gpu_error

definition MAX_SOURCE_CHARS :: nat where "MAX_SOURCE_CHARS = 65536"
definition MAX_INSTRUCTIONS :: nat where "MAX_INSTRUCTIONS = 4096"

definition list_opcodes :: "(string \<times> int) list" where
  "list_opcodes = map (\<lambda>(name, op). (name, opcode_value op)) OPCODE_MAP"

text \<open>\<open>f"0x{word:08X}"\<close>, \<open>word.to_bytes(4, "little").hex()\<close> and \<open>int(text, 16)\<close> of the former.\<close>

definition hex_upper :: "nat \<Rightarrow> char" where
  "hex_upper d = (if d < 10 then char_of (48 + d) else char_of (55 + d))"

definition hex_lower :: "nat \<Rightarrow> char" where
  "hex_lower d = (if d < 10 then char_of (48 + d) else char_of (87 + d))"

definition word_hex :: "int \<Rightarrow> string" where
  "word_hex w = ''0x'' @ map (\<lambda>k. hex_upper (nat (w div 16 ^ k mod 16))) [7, 6, 5, 4, 3, 2, 1, 0]"

definition word_le_hex :: "int \<Rightarrow> string" where
  "word_le_hex w = map (\<lambda>k. hex_lower (nat (w div 16 ^ k mod 16))) [1, 0, 3, 2, 5, 4, 7, 6]"

definition hex_value :: "char \<Rightarrow> nat option" where
  "hex_value c = (let n = (of_char c :: nat) in
     if 48 \<le> n \<and> n \<le> 57 then Some (n - 48)
     else if 65 \<le> n \<and> n \<le> 70 then Some (n - 55)
     else if 97 \<le> n \<and> n \<le> 102 then Some (n - 87) else None)"

fun hex_number :: "string \<Rightarrow> int \<Rightarrow> int option" where
  "hex_number [] acc = Some acc"
| "hex_number (c # cs) acc = (case hex_value c of None \<Rightarrow> None | Some d \<Rightarrow> hex_number cs (16 * acc + int d))"

definition int_of_hex :: "string \<Rightarrow> int option" where
  "int_of_hex s = (if py_startswith s ''0x'' \<and> length s > 2 then hex_number (drop 2 s) 0 else None)"

record assembled =
  as_instruction_count :: nat
  as_byte_count :: nat
  as_word_hex :: "string list"
  as_bytecode_le_hex :: "string list"

definition assemble_source :: "string \<Rightarrow> studio_error + assembled" where
  "assemble_source source =
     (if length source > MAX_SOURCE_CHARS then Inl (AssemblyError ''source must be at most 65536 characters'' 413)
      else if py_strip source = [] then Inl (AssemblyError ''source must contain at least one instruction'' 400)
      else (case assemble source of
          Inl e \<Rightarrow> Inl (AssemblyError ''assembly failed'' 400)
        | Inr words \<Rightarrow>
            if words = [] then Inl (AssemblyError ''source must contain at least one instruction'' 400)
            else if length words > MAX_INSTRUCTIONS then Inl (AssemblyError ''program must contain at most 4096 instructions'' 413)
            else if list_ex (\<lambda>w. \<not> (0 \<le> w \<and> w \<le> 0xFFFFFFFF)) words
              then Inl (AssemblyError ''assembler returned a word outside the 32-bit instruction range'' 400)
            else Inr \<lparr>as_instruction_count = length words, as_byte_count = length words * 4,
                   as_word_hex = map word_hex words, as_bytecode_le_hex = map word_le_hex words\<rparr>))"

subsection \<open>Simulation of one expression\<close>

record 'f elementwise_report =
  er_instruction_count :: nat
  er_result :: "'f list"
  er_performance_counters :: performance_counters

text \<open>The translation of what a launch raises: an \<open>IndexError\<close> is not caught here.\<close>

definition elementwise_error :: "gpu_error \<Rightarrow> studio_error" where
  "elementwise_error e = (case e of
     SimulationLimitError n \<Rightarrow> SimulationError ''kernel exceeded its cycle execution limit'' 408
   | GpuSm SmOverflowError \<Rightarrow> SimulationError ''expression produced an out-of-range FP32 result'' 422
   | GpuSm SmIndexError \<Rightarrow> StudioUncaught e
   | _ \<Rightarrow> SimulationError ''simulator rejected the generated kernel'' 400)"

definition overflow_422 :: studio_error where
  "overflow_422 = SimulationError ''expression produced an out-of-range FP32 result'' 422"

definition simulate_elementwise_expression ::
  "'f fpu \<Rightarrow> ('f \<Rightarrow> bool) \<Rightarrow> ('f \<Rightarrow> bool) \<Rightarrow> (string \<Rightarrow> pyexpr option) \<Rightarrow> string \<Rightarrow> 'f list \<Rightarrow> 'f list \<Rightarrow> int
     \<Rightarrow> (studio_error + 'f elementwise_report) option" where
  "simulate_elementwise_expression fpu in_range finite_f parse expression a_values b_values max_cycles =
     (if length a_values \<noteq> 32 \<or> length b_values \<noteq> 32
        then Some (Inl (SimulationError ''a and b must each contain exactly 32 numeric values'' 400))
      else if list_ex (\<lambda>v. \<not> in_range v) (a_values @ b_values)
        then Some (Inl (SimulationError ''a and b values must be finite FP32-range numbers'' 400))
      else if \<not> (1 \<le> max_cycles \<and> max_cycles \<le> 20000)
        then Some (Inl (SimulationError ''max_cycles must be between 1 and 20000'' 400))
      else (case compile_expression parse expression of
          Inl msg \<Rightarrow> Some (Inl (AssemblyError msg 400))
        | Inr source \<Rightarrow>
        (case assemble source of
          Inl e \<Rightarrow> Some (Inl (AssemblyError ''assembly failed'' 400))
        | Inr words \<Rightarrow>
        (case gpu_new 1 1 of
          Inl e \<Rightarrow> Some (Inl (StudioUncaught e))
        | Inr g \<Rightarrow>
        (case write_floats fpu 0 a_values (g_global_mem g) of
          None \<Rightarrow> Some (Inl overflow_422)
        | Some gm1 \<Rightarrow>
        (case write_floats fpu 128 b_values gm1 of
          None \<Rightarrow> Some (Inl overflow_422)
        | Some gm2 \<Rightarrow>
           map_option (\<lambda>(e, g').
             (case e of
                Some x \<Rightarrow> Inl (elementwise_error x)
              | None \<Rightarrow>
                 (case read_floats fpu 256 32 (g_global_mem g') of (result, gm3) \<Rightarrow>
                    if list_ex (\<lambda>v. \<not> finite_f v) result
                    then Inl (SimulationError ''expression produced a non-finite FP32 result'' 422)
                    else Inr \<lparr>er_instruction_count = length words, er_result = result,
                           er_performance_counters = get_performance_counters (g'\<lparr>g_global_mem := gm3\<rparr>)\<rparr>)))
             (launch_kernel fpu words 1 1 (Some max_cycles) [(1, Scalar 4), (2, Scalar 256), (3, Scalar 0), (4, Scalar 128)]
               (g\<lparr>g_global_mem := gm2\<rparr>))))))))"

subsection \<open>Simulation of a source\<close>

text \<open>\<open>re.fullmatch(r"R?([0-9]{1,3})", key, IGNORECASE)\<close>.\<close>

definition input_register :: "string \<Rightarrow> int option" where
  "input_register key =
     (let ds = (case key of c # cs \<Rightarrow> if c = CHR ''R'' \<or> c = CHR ''r'' then cs else key | [] \<Rightarrow> [])
      in if 1 \<le> length ds \<and> length ds \<le> 3 \<and> list_all is_digit ds then Some (int (nat_of_digits ds)) else None)"

fun parse_inputs :: "(string \<times> reg_init) list \<Rightarrow> (int \<times> reg_init) list \<Rightarrow> studio_error + (int \<times> reg_init) list" where
  "parse_inputs [] regs = Inr regs"
| "parse_inputs ((key, values) # rest) regs =
     (case input_register key of
        None \<Rightarrow> Inl (SimulationError ''input register keys must use R0-R127 or 0-127'' 400)
      | Some r \<Rightarrow>
         if r > 127 \<or> map_of regs r \<noteq> None
           then Inl (SimulationError ''input register keys must be unique values from R0 to R127'' 400)
         else if length (register_values values) \<noteq> 32
           then Inl (SimulationError ''per-lane inputs must contain exactly 32 values'' 400)
         else if list_ex (\<lambda>v. \<not> (0 \<le> v \<and> v \<le> 0xFFFFFFFF)) (register_values values)
           then Inl (SimulationError ''input values must be unsigned 32-bit integers'' 400)
         else parse_inputs rest (dict_set regs r values))"

record source_report =
  sr_instruction_count :: nat
  sr_performance_counters :: performance_counters
  sr_registers :: "(string \<times> int list) list"

definition source_error :: "gpu_error \<Rightarrow> studio_error" where
  "source_error e = (case e of
     SimulationLimitError n \<Rightarrow> SimulationError ''kernel exceeded its cycle execution limit'' 408
   | GpuValueError m \<Rightarrow> SimulationError ''simulator rejected the assembled program'' 400
   | GpuSm (SmDecodeError d) \<Rightarrow> SimulationError ''simulator rejected the assembled program'' 400
   | GpuSm SmStoreWidthError \<Rightarrow> SimulationError ''simulator rejected the assembled program'' 400
   | _ \<Rightarrow> SimulationError ''simulator could not execute this program'' 422)"

definition simulate_source ::
  "'f fpu \<Rightarrow> string \<Rightarrow> (string \<times> reg_init) list \<Rightarrow> int list \<Rightarrow> int \<Rightarrow> (studio_error + source_report) option" where
  "simulate_source fpu source inputs output_registers max_cycles =
     (if \<not> (1 \<le> max_cycles \<and> max_cycles \<le> 20000)
        then Some (Inl (SimulationError ''max_cycles must be between 1 and 20000'' 400))
      else (case assemble_source source of
          Inl e \<Rightarrow> Some (Inl e)
        | Inr asm \<Rightarrow>
           if length inputs > 16 then Some (Inl (SimulationError ''inputs must be an object with at most 16 registers'' 400))
           else (case parse_inputs inputs [] of
               Inl e \<Rightarrow> Some (Inl e)
             | Inr inits \<Rightarrow>
                if \<not> (1 \<le> length output_registers \<and> length output_registers \<le> 8) \<or>
                   list_ex (\<lambda>r. \<not> (0 \<le> r \<and> r \<le> 127)) output_registers \<or> \<not> distinct output_registers
                then Some (Inl (SimulationError ''output_registers must contain 1 to 8 unique register numbers from 0 to 127'' 400))
                else (case gpu_new 1 1 of
                    Inl e \<Rightarrow> Some (Inl (StudioUncaught e))
                  | Inr g \<Rightarrow> map_option (\<lambda>(e, g').
                      (case e of
                         Some x \<Rightarrow> Inl (source_error x)
                       | None \<Rightarrow>
                          (let w = hd (sm_warps (hd (g_sms g'))) in
                           Inr \<lparr>sr_instruction_count = as_instruction_count asm,
                                sr_performance_counters = get_performance_counters g',
                                sr_registers = map (\<lambda>r. (''R'' @ string_of_int r, map (\<lambda>row. row ! nat r) (w_rf w))) output_registers\<rparr>)))
                      (launch_kernel fpu (map (\<lambda>s. the (int_of_hex s)) (as_word_hex asm)) 1 1 (Some max_cycles) inits g)))))"

subsection \<open>Hexadecimal words\<close>

lemma hex_value_upper: "d < 16 \<Longrightarrow> hex_value (hex_upper d) = Some d"
proof -
  assume "d < 16"
  then consider "d < 10" | "10 \<le> d \<and> d < 16" by linarith
  then show ?thesis by cases (simp_all add: hex_value_def hex_upper_def Let_def)
qed

lemma hex_number_digits:
  "hex_number (map (\<lambda>k. hex_upper (nat (w div 16 ^ k mod 16))) (rev [0..<n])) acc = Some (16 ^ n * acc + w mod 16 ^ n)"
proof (induction n arbitrary: acc)
  case (Suc n)
  have d: "nat (w div 16 ^ n mod 16) < 16" by (simp add: nat_less_iff)
  have "w mod (16 ^ n * 16) = 16 ^ n * (w div 16 ^ n mod 16) + w mod 16 ^ n" by (rule zmod_zmult2_eq) simp
  then show ?case using Suc.IH by (simp add: hex_value_upper [OF d] algebra_simps)
qed simp

lemma int_of_word_hex: "0 \<le> w \<Longrightarrow> w < 2 ^ 32 \<Longrightarrow> int_of_hex (word_hex w) = Some w"
proof -
  assume w: "0 \<le> w" "w < 2 ^ 32"
  have "[7, 6, 5, 4, 3, 2, 1, 0] = rev [0..<8]" by (simp add: upt_rec)
  then have "word_hex w = ''0x'' @ map (\<lambda>k. hex_upper (nat (w div 16 ^ k mod 16))) (rev [0..<8])" by (simp only: word_hex_def)
  then have "int_of_hex (word_hex w) = hex_number (map (\<lambda>k. hex_upper (nat (w div 16 ^ k mod 16))) (rev [0..<8])) 0"
    by (simp add: int_of_hex_def py_startswith_def)
  also have "\<dots> = Some w" unfolding hex_number_digits using w by simp
  finally show ?thesis .
qed

end
