(* ===== verification/KernelExec.thy ===== *)
theory KernelExec
  imports GpuTermination
begin

unbundle bit_operations_syntax

text \<open>
  Running a straight-line kernel on one warp: the register file as a function of lane and register, what each kind of
  instruction makes of it, and one round of a launch as one instruction.
\<close>

subsection \<open>The register file of a full warp\<close>

definition full_mask :: int where
  "full_mask = 0xFFFFFFFF"

text \<open>The first warp of its block with all lanes active, whose registers are \<open>R lane r\<close>.\<close>

definition regs_are :: "(nat \<Rightarrow> nat \<Rightarrow> int) \<Rightarrow> warp \<Rightarrow> bool" where
  "regs_are R w \<longleftrightarrow> w_active_mask w = full_mask \<and> w_warp_id w = 0 \<and> length (w_rf w) = WARP_SIZE \<and>
     (\<forall>lane < WARP_SIZE. length (w_rf w ! lane) = 128 \<and> (\<forall>r < 128. w_rf w ! lane ! r = R lane r))"

lemma full_active: "lane < WARP_SIZE \<Longrightarrow> lane_in full_mask lane"
proof -
  have m: "full_mask = mask 32" by (simp add: full_mask_def mask_eq_exp_minus_1)
  show "lane < WARP_SIZE \<Longrightarrow> lane_in full_mask lane" unfolding lane_in_bit m bit_mask_iff by (simp add: WARP_SIZE_def)
qed

lemma lane_loop_each:
  assumes act: "\<And>lane. lane < WARP_SIZE \<Longrightarrow> is_active w lane"
    and f: "\<And>lane rf'. lane < WARP_SIZE \<Longrightarrow> rf' ! lane = rf0 ! lane \<Longrightarrow> f lane rf' = Inr (v lane)"
  shows "n \<le> WARP_SIZE \<Longrightarrow> length rf0 = WARP_SIZE \<Longrightarrow>
    \<exists>rf'. lane_loop w rd f [0..<n] rf0 = (None, rf') \<and> length rf' = length rf0 \<and>
      (\<forall>lane < WARP_SIZE. rf' ! lane = (if lane < n then (rf0 ! lane)[nat rd := v lane] else rf0 ! lane))"
proof (induction n)
  case (Suc n)
  then obtain rf' where rf': "lane_loop w rd f [0..<n] rf0 = (None, rf')" "length rf' = length rf0"
    "\<forall>lane < WARP_SIZE. rf' ! lane = (if lane < n then (rf0 ! lane)[nat rd := v lane] else rf0 ! lane)" by auto
  have app: "lane_loop w rd f (xs @ [n]) rf = (case lane_loop w rd f xs rf of
      (None, rf1) \<Rightarrow> lane_loop w rd f [n] rf1 | (Some e, rf1) \<Rightarrow> (Some e, rf1))" for xs rf
    by (induction xs arbitrary: rf) (auto split: sum.splits option.splits prod.splits)
  have "f n rf' = Inr (v n)" using f [of n rf'] rf'(3) Suc.prems by simp
  then have "lane_loop w rd f [0..<Suc n] rf0 = (None, rf'[n := (rf' ! n)[nat rd := v n]])"
    using app [of "[0..<n]" rf0] rf'(1) act [of n] Suc.prems by simp
  moreover have "\<forall>lane < WARP_SIZE. rf'[n := (rf' ! n)[nat rd := v n]] ! lane =
      (if lane < Suc n then (rf0 ! lane)[nat rd := v lane] else rf0 ! lane)"
    using rf'(2,3) Suc.prems by (auto simp: nth_list_update less_Suc_eq)
  ultimately show ?case using rf'(2) by auto
qed simp

text \<open>A lane-wise instruction on a full warp sets register \<open>rd\<close> of every lane.\<close>

definition set_reg :: "int \<Rightarrow> (nat \<Rightarrow> int) \<Rightarrow> (nat \<Rightarrow> nat \<Rightarrow> int) \<Rightarrow> nat \<Rightarrow> nat \<Rightarrow> int" where
  "set_reg rd v R = (\<lambda>lane r. if r = nat rd then v lane else R lane r)"

lemma on_lanes_full:
  assumes R: "regs_are R w"
    and f: "\<And>lane rf. lane < WARP_SIZE \<Longrightarrow> (\<forall>r < 128. rf ! lane ! r = R lane r) \<Longrightarrow> f lane rf = Inr (v lane)"
  shows "\<exists>w'. on_lanes rd f WARP_SIZE w gm sh = (None, w', gm, sh) \<and> regs_are (set_reg rd v R) w' \<and> w_pc w' = w_pc w \<and>
    w_halted w' = w_halted w \<and> w_stalled w' = w_stalled w"
proof -
  have "is_active w lane" if "lane < WARP_SIZE" for lane
    using R that by (simp add: regs_are_def is_active_def full_active)
  moreover have "f lane rf' = Inr (v lane)" if "lane < WARP_SIZE" "rf' ! lane = w_rf w ! lane" for lane rf'
    using f [of lane rf'] R that by (simp add: regs_are_def)
  moreover have "length (w_rf w) = WARP_SIZE" using R by (simp add: regs_are_def)
  ultimately obtain rf' where rf': "lane_loop w rd f [0..<WARP_SIZE] (w_rf w) = (None, rf')" "length rf' = length (w_rf w)"
    "\<forall>lane < WARP_SIZE. rf' ! lane = (w_rf w ! lane)[nat rd := v lane]"
    using lane_loop_each [of w "w_rf w" f v WARP_SIZE rd] by auto
  then have "on_lanes rd f WARP_SIZE w gm sh = (None, w\<lparr>w_rf := rf'\<rparr>, gm, sh)" by (simp add: on_lanes_def write_lanes_def)
  moreover have "regs_are (set_reg rd v R) (w\<lparr>w_rf := rf'\<rparr>)"
    using R rf'(2,3) by (auto simp: regs_are_def set_reg_def nth_list_update)
  ultimately show ?thesis by auto
qed

subsection \<open>One round is one instruction\<close>

text \<open>A device with one multiprocessor running one warp at instruction \<open>k\<close>, before the cycle budget is used up.\<close>

definition kernel_at :: "nat \<Rightarrow> (nat \<Rightarrow> nat \<Rightarrow> int) \<Rightarrow> (int \<Rightarrow> int) \<Rightarrow> int \<Rightarrow> sm \<Rightarrow> global_memory \<Rightarrow> bool" where
  "kernel_at k R d size_bytes m gm \<longleftrightarrow> (\<exists>w. sm_warps m = [w] \<and> \<not> w_halted w \<and> \<not> w_stalled w \<and> w_pc w = int k \<and> regs_are R w) \<and>
     gm_data gm = d \<and> gm_size gm = size_bytes"

text \<open>What an instruction does to registers and memory, whatever the rest of the state.\<close>

definition effect :: "'f fpu \<Rightarrow> instruction \<Rightarrow> (nat \<Rightarrow> nat \<Rightarrow> int) \<Rightarrow> (int \<Rightarrow> int) \<Rightarrow> int \<Rightarrow> (nat \<Rightarrow> nat \<Rightarrow> int) \<Rightarrow> (int \<Rightarrow> int) \<Rightarrow> bool" where
  "effect fpu inst R d size_bytes R' d' \<longleftrightarrow> (\<forall>w gm sh. regs_are R w \<and> gm_data gm = d \<and> gm_size gm = size_bytes \<longrightarrow>
     (\<exists>w' gm'. execute_instruction fpu w inst gm sh = (None, w', gm', sh) \<and> regs_are R' w' \<and> w_pc w' = w_pc w \<and>
        w_halted w' = w_halted w \<and> w_stalled w' = w_stalled w \<and> gm_data gm' = d' \<and> gm_size gm' = size_bytes))"

lemma regs_are_pc [simp]: "regs_are R (w\<lparr>w_pc := p\<rparr>) = regs_are R w"
  "regs_are R (w\<lparr>w_cycles_executed := c\<rparr>) = regs_are R w" "regs_are R (w\<lparr>w_halted := h\<rparr>) = regs_are R w"
  by (simp_all add: regs_are_def)

lemma kernel_step:
  assumes at: "kernel_at k R d sz m gm" and k: "k < length program" "decode (program ! k) = Inr inst"
    and eff: "effect fpu inst R d sz R' d'"
  shows "\<exists>m' gm'. step_cycle fpu program m gm = (Inr True, m', gm') \<and> kernel_at (Suc k) R' d' sz m' gm'"
proof -
  obtain w where w: "sm_warps m = [w]" "\<not> w_halted w" "\<not> w_stalled w" "w_pc w = int k" "regs_are R w"
    and gm: "gm_data gm = d" "gm_size gm = sz" using at by (auto simp: kernel_at_def)
  let ?w = "w\<lparr>w_pc := w_pc w + 1\<rparr>"
  have "regs_are R ?w \<and> gm_data gm = d \<and> gm_size gm = sz" using w(5) gm by simp
  with eff [unfolded effect_def, THEN spec, THEN spec, THEN spec, of ?w gm "sm_shared_mem m"]
  obtain w' gm' where "execute_instruction fpu ?w inst gm (sm_shared_mem m) = (None, w', gm', sm_shared_mem m)"
    "regs_are R' w'" "w_pc w' = w_pc ?w" "w_halted w' = w_halted ?w" "w_stalled w' = w_stalled ?w" "gm_data gm' = d'" "gm_size gm' = sz"
    by blast
  then have x: "execute_instruction fpu ?w inst gm (sm_shared_mem m) = (None, w', gm', sm_shared_mem m)"
    "regs_are R' w'" "w_pc w' = int k + 1" "\<not> w_halted w'" "\<not> w_stalled w'" "gm_data gm' = d'" "gm_size gm' = sz"
    using w(2-4) by simp_all
  have "select_warp m = Some 0" using w by (simp add: select_warp_def ready_def)
  then show ?thesis using w x k
    by (auto simp: step_cycle_def is_finished_def py_nth_nat kernel_at_def Let_def)
qed

lemma kernel_halts:
  assumes at: "kernel_at k R d sz m gm" and k: "k < length program" "decode (program ! k) = Inr inst" "in_op inst = HALT"
  shows "\<exists>m'. step_cycle fpu program m gm = (Inr True, m', gm) \<and> is_finished m'"
proof -
  obtain w where w: "sm_warps m = [w]" "\<not> w_halted w" "\<not> w_stalled w" "w_pc w = int k" using at by (auto simp: kernel_at_def)
  have "select_warp m = Some 0" using w by (simp add: select_warp_def ready_def)
  then show ?thesis using w k
    by (auto simp: step_cycle_def is_finished_def py_nth_nat execute_instruction_def Let_def)
qed

text \<open>A round of the launch loop, for a single multiprocessor with or without a block to take.\<close>

lemma launch_round:
  assumes "dispatch bd inits (g_sms g) queue = ([m], q)" and "\<not> is_finished m" and "queue \<noteq> [] \<or> list_ex (\<lambda>m. \<not> is_finished m) (g_sms g)"
    and "g_total_cycles g - start < n" and "step_cycle fpu program m (g_global_mem g) = (Inr b, m', gm')"
  shows "launch_loop fpu program (Some n) bd inits start queue g =
    launch_loop fpu program (Some n) bd inits start q
      (g\<lparr>g_sms := [m'], g_global_mem := gm', g_total_cycles := g_total_cycles g + 1\<rparr>)"
  using assms by (subst launch_loop.simps) auto

lemma kernel_at_unfinished: "kernel_at k R d sz m gm \<Longrightarrow> \<not> is_finished m"
  by (auto simp: kernel_at_def is_finished_def)

text \<open>A running kernel on the device, \<open>k\<close> instructions in.\<close>

definition running :: "nat \<Rightarrow> (nat \<Rightarrow> nat \<Rightarrow> int) \<Rightarrow> (int \<Rightarrow> int) \<Rightarrow> int \<Rightarrow> int \<Rightarrow> gpu \<Rightarrow> bool" where
  "running k R d sz cycles g \<longleftrightarrow> (\<exists>m. g_sms g = [m] \<and> kernel_at k R d sz m (g_global_mem g)) \<and> g_total_cycles g = cycles"

lemma running_step:
  assumes "running k R d sz c g" and "k < length program" "decode (program ! k) = Inr inst" and "effect fpu inst R d sz R' d'"
    and "c - start < n"
  shows "\<exists>g'. running (Suc k) R' d' sz (c + 1) g' \<and>
    launch_loop fpu program (Some n) bd inits start [] g = launch_loop fpu program (Some n) bd inits start [] g'"
proof -
  obtain m where m: "g_sms g = [m]" "kernel_at k R d sz m (g_global_mem g)" "g_total_cycles g = c"
    using assms(1) by (auto simp: running_def)
  obtain m' gm' where s: "step_cycle fpu program m (g_global_mem g) = (Inr True, m', gm')" "kernel_at (Suc k) R' d' sz m' gm'"
    using kernel_step [OF m(2) assms(2-4)] by blast
  note unf = kernel_at_unfinished [OF m(2)]
  have "launch_loop fpu program (Some n) bd inits start [] g = launch_loop fpu program (Some n) bd inits start []
      (g\<lparr>g_sms := [m'], g_global_mem := gm', g_total_cycles := g_total_cycles g + 1\<rparr>)"
    by (rule launch_round [OF _ unf _ _ s(1)]) (use m unf assms(5) in auto)
  then show ?thesis using s(2) m(3) by (intro exI conjI) (auto simp: running_def)
qed

lemma running_halt:
  assumes "running k R d sz c g" and "k < length program" "decode (program ! k) = Inr inst" "in_op inst = HALT" and "c - start < n"
  shows "\<exists>g'. launch_loop fpu program (Some n) bd inits start [] g = Some (None, g') \<and> g_global_mem g' = g_global_mem g \<and>
    gm_data (g_global_mem g') = d \<and> gm_size (g_global_mem g') = sz \<and> g_total_cycles g' = c + 1"
proof -
  obtain m where m: "g_sms g = [m]" "kernel_at k R d sz m (g_global_mem g)" "g_total_cycles g = c"
    using assms(1) by (auto simp: running_def)
  obtain m' where s: "step_cycle fpu program m (g_global_mem g) = (Inr True, m', g_global_mem g)" "is_finished m'"
    using kernel_halts [OF m(2) assms(2-4)] by blast
  note unf = kernel_at_unfinished [OF m(2)]
  let ?g = "g\<lparr>g_sms := [m'], g_global_mem := g_global_mem g, g_total_cycles := g_total_cycles g + 1\<rparr>"
  have "launch_loop fpu program (Some n) bd inits start [] g = launch_loop fpu program (Some n) bd inits start [] ?g"
    by (rule launch_round [OF _ unf _ _ s(1)]) (use m unf assms(5) in auto)
  also have "\<dots> = Some (None, ?g)" using s(2) by (subst launch_loop.simps) simp
  finally show ?thesis using m by (auto simp: kernel_at_def)
qed

subsection \<open>The effects of the instructions of a kernel\<close>

lemma effect_lanes:
  assumes x: "\<And>w gm sh. regs_are R w \<Longrightarrow> execute_op fpu (in_op inst) inst w gm sh = on_lanes (in_rd inst) (f w) WARP_SIZE w gm sh"
    and f: "\<And>w lane rf. regs_are R w \<Longrightarrow> lane < WARP_SIZE \<Longrightarrow> (\<forall>r < 128. rf ! lane ! r = R lane r) \<Longrightarrow> f w lane rf = Inr (v lane)"
  shows "effect fpu inst R d sz (set_reg (in_rd inst) v R) d"
  unfolding effect_def execute_instruction_def
proof (intro allI impI)
  fix w :: warp and gm :: global_memory and sh :: shared_memory
  assume a: "regs_are R w \<and> gm_data gm = d \<and> gm_size gm = sz"
  then have R: "regs_are R w" by blast
  show "\<exists>w' gm'. execute_op fpu (in_op inst) inst w gm sh = (None, w', gm', sh) \<and> regs_are (set_reg (in_rd inst) v R) w' \<and>
      w_pc w' = w_pc w \<and> w_halted w' = w_halted w \<and> w_stalled w' = w_stalled w \<and> gm_data gm' = d \<and> gm_size gm' = sz"
    using on_lanes_full [OF R f [OF R], where rd = "in_rd inst" and gm = gm and sh = sh] x [OF R, where gm = gm and sh = sh] a
    by fastforce
qed

lemma reg_is: "(\<forall>r < 128. rf ! lane ! r = R lane r) \<Longrightarrow> 0 \<le> r \<Longrightarrow> r < 128 \<Longrightarrow> reg rf lane r = R lane (nat r)"
  by (simp add: reg_def)

lemma reg_is_fields: "(\<forall>r < 128. rf ! lane ! r = R lane r) \<Longrightarrow> fields_ok inst \<Longrightarrow> reg rf lane (in_rs1 inst) = R lane (nat (in_rs1 inst))"
  "(\<forall>r < 128. rf ! lane ! r = R lane r) \<Longrightarrow> fields_ok inst \<Longrightarrow> reg rf lane (in_rs2 inst) = R lane (nat (in_rs2 inst))"
  by (auto simp: fields_ok_def fits_def intro!: reg_is)

lemma effect_int:
  assumes "in_op inst = VADD \<and> f = (+) \<or> in_op inst = VSUB \<and> f = (-) \<or> in_op inst = VMUL \<and> f = (*)" and "fields_ok inst"
  shows "effect fpu inst R d sz
    (set_reg (in_rd inst) (\<lambda>lane. f (R lane (nat (in_rs1 inst))) (R lane (nat (in_rs2 inst))) mod 4294967296) R) d"
proof (rule effect_lanes [where f = "\<lambda>w. int_value f inst"])
  show "execute_op fpu (in_op inst) inst w gm sh = on_lanes (in_rd inst) (int_value f inst) WARP_SIZE w gm sh" for w gm sh
    using assms(1) by auto
next
  fix w lane rf
  assume "\<forall>r < 128. rf ! lane ! r = R lane r"
  note regs = reg_is_fields [where rf = rf and lane = lane and R = R and inst = inst, OF this assms(2)]
  show "int_value f inst lane rf = Inr (f (R lane (nat (in_rs1 inst))) (R lane (nat (in_rs2 inst))) mod 4294967296)"
    by (simp add: int_value_def regs take_bit_eq_mod)
qed

lemma effect_tid: "in_op inst = GET_TID \<Longrightarrow> effect fpu inst R d sz (set_reg (in_rd inst) int R) d"
  by (rule effect_lanes [where f = "\<lambda>w lane rf. Inr (int lane + w_warp_id w * int WARP_SIZE)"]) (auto simp: regs_are_def)

lemma effect_float:
  assumes "in_op inst = VFADD \<and> f = fp_add fpu \<or> in_op inst = VFSUB \<and> f = fp_sub fpu \<or> in_op inst = VFMUL \<and> f = fp_mul fpu"
    and "fields_ok inst"
    and v: "\<And>lane. lane < WARP_SIZE \<Longrightarrow>
      fp_to_bits fpu (f (fp_of_bits fpu (R lane (nat (in_rs1 inst)) mod 4294967296)) (fp_of_bits fpu (R lane (nat (in_rs2 inst)) mod 4294967296)))
        = Some (v lane)"
  shows "effect fpu inst R d sz (set_reg (in_rd inst) v R) d"
proof (rule effect_lanes [where f = "\<lambda>w. float_value fpu f inst"])
  show "execute_op fpu (in_op inst) inst w gm sh = on_lanes (in_rd inst) (float_value fpu f inst) WARP_SIZE w gm sh" for w gm sh
    using assms(1) by auto
next
  fix w lane rf
  assume lane: "lane < WARP_SIZE" and "\<forall>r < 128. rf ! lane ! r = R lane r"
  note regs = reg_is_fields [where rf = rf and lane = lane and R = R and inst = inst, OF this(2) assms(2)]
  show "float_value fpu f inst lane rf = Inr (v lane)"
    using v [OF lane] by (simp add: float_value_def regs f32_to_bits_def bits_to_f32_def take_bit_eq_mod)
qed

lemma addresses_are:
  "regs_are R w \<Longrightarrow> fields_ok inst \<Longrightarrow> addresses inst w = map (\<lambda>lane. R lane (nat (in_rs1 inst)) + in_imm inst) [0..<WARP_SIZE]"
  by (auto simp: addresses_def regs_are_def fields_ok_def fits_def intro!: reg_is)

lemma effect_load:
  assumes "in_op inst = VLOAD_G" and "fields_ok inst"
    and mem: "\<And>lane. lane < WARP_SIZE \<Longrightarrow> 0 \<le> R lane (nat (in_rs1 inst)) + in_imm inst \<and> R lane (nat (in_rs1 inst)) + in_imm inst + 4 \<le> sz"
  shows "effect fpu inst R d sz
    (set_reg (in_rd inst) (\<lambda>lane. signed32 (get_word (R lane (nat (in_rs1 inst)) + in_imm inst) d)) R) d"
  unfolding effect_def execute_instruction_def
proof (intro allI impI)
  fix w :: warp and gm :: global_memory and sh :: shared_memory
  assume a: "regs_are R w \<and> gm_data gm = d \<and> gm_size gm = sz"
  then have R: "regs_are R w" by blast
  let ?addr = "\<lambda>lane. R lane (nat (in_rs1 inst)) + in_imm inst"
  obtain vals lines gm1 where l: "coalesced_load_32 (addresses inst w) (w_active_mask w) gm = ((vals, lines), gm1)"
    by (metis prod.collapse)
  have gm1: "gm_data gm1 = d" "gm_size gm1 = sz" using l a by (auto simp: coalesced_load_32_def Let_def)
  have "vals ! lane = signed32 (get_word (?addr lane) d)" if "lane < WARP_SIZE" for lane
    using load_values [of "addresses inst w" "w_active_mask w" gm] l that a mem [OF that] full_active [OF that]
    by (simp add: addresses_are [OF R assms(2)] read_i32_def in_memory_def regs_are_def)
  from on_lanes_full [OF R, where f = "\<lambda>lane rf. Inr (vals ! lane)" and v = "\<lambda>lane. signed32 (get_word (?addr lane) d)"
      and rd = "in_rd inst" and gm = gm1 and sh = sh] this
  show "\<exists>w' gm'. execute_op fpu (in_op inst) inst w gm sh = (None, w', gm', sh) \<and>
      regs_are (set_reg (in_rd inst) (\<lambda>lane. signed32 (get_word (?addr lane) d)) R) w' \<and>
      w_pc w' = w_pc w \<and> w_halted w' = w_halted w \<and> w_stalled w' = w_stalled w \<and> gm_data gm' = d \<and> gm_size gm' = sz"
    using assms(1) l gm1 by fastforce
qed

lemma store_lanes_size: "gm_size gm = sz \<Longrightarrow> store_lanes gm act reqs d = store_lanes (gm_new sz) act reqs d"
  by (induction reqs arbitrary: d) (auto simp: serves_def in_memory_def gm_new_def)

definition kernel_store :: "int \<Rightarrow> (nat \<Rightarrow> int) \<Rightarrow> (nat \<Rightarrow> int) \<Rightarrow> (int \<Rightarrow> int) \<Rightarrow> int \<Rightarrow> int" where
  "kernel_store sz addr v d =
     store_lanes (gm_new sz) full_mask (map (\<lambda>lane. (lane, addr lane, v lane)) [0..<WARP_SIZE]) d"

lemma effect_store:
  assumes "in_op inst = VSTORE_G" and "fields_ok inst"
  shows "effect fpu inst R d sz R
    (kernel_store sz (\<lambda>lane. R lane (nat (in_rs1 inst)) + in_imm inst) (\<lambda>lane. R lane (nat (in_rs2 inst))) d)"
  unfolding effect_def execute_instruction_def
proof (intro allI impI)
  fix w :: warp and gm :: global_memory and sh :: shared_memory
  assume a: "regs_are R w \<and> gm_data gm = d \<and> gm_size gm = sz"
  then have R: "regs_are R w" by blast
  have vals: "map (\<lambda>lane. reg (w_rf w) lane (in_rs2 inst)) [0..<WARP_SIZE] = map (\<lambda>lane. R lane (nat (in_rs2 inst))) [0..<WARP_SIZE]"
    using R assms(2) by (auto simp: regs_are_def fields_ok_def fits_def intro!: reg_is)
  have z: "enumerate 0 (zip (map f [0..<n]) (map g [0..<n])) = map (\<lambda>lane. (lane, f lane, g lane)) [0..<n]" for f g :: "nat \<Rightarrow> int" and n
    by (intro nth_equalityI) (simp_all add: nth_enumerate_eq)
  have act: "w_active_mask w = full_mask" using R by (simp add: regs_are_def)
  let ?d = "kernel_store sz (\<lambda>lane. R lane (nat (in_rs1 inst)) + in_imm inst) (\<lambda>lane. R lane (nat (in_rs2 inst))) d"
  obtain n gm1 where c: "coalesced_store_32 (addresses inst w) (map (\<lambda>lane. reg (w_rf w) lane (in_rs2 inst)) [0..<WARP_SIZE])
      (w_active_mask w) gm = Some (n, gm1)"
    by (simp add: coalesced_store_32_def Let_def WARP_SIZE_def)
  then have "gm_size gm1 = gm_size gm" by (auto simp: coalesced_store_32_def Let_def split: if_splits)
  moreover have "gm_data gm1 = ?d"
  proof -
    have "gm_data gm1 = store_lanes gm full_mask (map (\<lambda>lane. (lane, R lane (nat (in_rs1 inst)) + in_imm inst, R lane (nat (in_rs2 inst))))
        [0..<WARP_SIZE]) (gm_data gm)"
      using c unfolding coalesced_store_32_def vals addresses_are [OF R assms(2)] act z by (auto simp: Let_def split: if_splits)
    then show ?thesis using a store_lanes_size [of gm sz] by (simp add: kernel_store_def)
  qed
  ultimately show "\<exists>w' gm'. execute_op fpu (in_op inst) inst w gm sh = (None, w', gm', sh) \<and> regs_are R w' \<and> w_pc w' = w_pc w \<and>
      w_halted w' = w_halted w \<and> w_stalled w' = w_stalled w \<and> gm_data gm' = ?d \<and> gm_size gm' = sz"
    using assms(1) a c by (intro exI [of _ w] exI [of _ gm1]) simp
qed

lemma store_lanes_append: "store_lanes gm act (xs @ ys) d = store_lanes gm act ys (store_lanes gm act xs d)"
  by (induction gm act xs d rule: store_lanes.induct) auto

lemma store_lanes_other:
  "\<forall>(l, addr, v) \<in> set reqs. addr + 4 \<le> a \<or> a + 4 \<le> addr \<Longrightarrow> get_word a (store_lanes gm act reqs d) = get_word a d"
  by (induction gm act reqs d rule: store_lanes.induct) (auto simp: get_put_word_other)

text \<open>Each lane finds the value it stored, if the addresses are apart.\<close>

lemma kernel_store_get:
  assumes lane: "lane < WARP_SIZE" and mem: "0 \<le> addr lane" "addr lane + 4 \<le> sz"
    and apart: "\<And>k. k < WARP_SIZE \<Longrightarrow> k \<noteq> lane \<Longrightarrow> addr k + 4 \<le> addr lane \<or> addr lane + 4 \<le> addr k"
  shows "get_word (addr lane) (kernel_store sz addr v d) = v lane mod 4294967296"
proof -
  let ?req = "\<lambda>l. (l, addr l, v l)"
  have split: "map ?req [0..<WARP_SIZE] = map ?req [0..<lane] @ ?req lane # map ?req [Suc lane..<WARP_SIZE]"
    using lane upt_add_eq_append [of 0 lane "WARP_SIZE - lane"] by (simp add: upt_conv_Cons)
  have s: "serves (gm_new sz) full_mask lane (addr lane)"
    using mem full_active [OF lane] by (simp add: serves_def in_memory_def gm_new_def)
  have "\<forall>(l, a, v) \<in> set (map ?req [Suc lane..<WARP_SIZE]). a + 4 \<le> addr lane \<or> addr lane + 4 \<le> a"
    using apart by auto
  from store_lanes_other [OF this] s show ?thesis
    by (simp add: kernel_store_def split store_lanes_append)
qed

subsection \<open>Host vectors in memory\<close>

lemma write_floats_get:
  "write_floats fpu addr vs gm = Some gm' \<Longrightarrow> 0 \<le> addr \<Longrightarrow> addr + 4 * int (length vs) \<le> gm_size gm \<Longrightarrow>
     gm_size gm' = gm_size gm \<and>
     (\<forall>i < length vs. \<exists>b. fp_to_bits fpu (vs ! i) = Some b \<and> get_word (addr + 4 * int i) (gm_data gm') = b mod 4294967296) \<and>
     (\<forall>a. a + 4 \<le> addr \<or> addr + 4 * int (length vs) \<le> a \<longrightarrow> get_word a (gm_data gm') = get_word a (gm_data gm))"
proof (induction fpu addr vs gm rule: write_floats.induct)
  case (2 fpu addr v vs gm)
  have mem: "in_memory gm addr" using "2.prems"(2,3) by (simp add: in_memory_def)
  obtain b where b: "fp_to_bits fpu v = Some b" using "2.prems"(1) mem by (auto simp: write_f32_def split: option.splits)
  let ?gm = "gm\<lparr>gm_data := put_word addr b (gm_data gm), gm_write_transactions := gm_write_transactions gm + 1\<rparr>"
  have w: "write_f32 fpu addr v gm = Some ?gm" using mem b by (simp add: write_f32_def)
  have ih: "gm_size gm' = gm_size gm"
    "\<forall>i < length vs. \<exists>b. fp_to_bits fpu (vs ! i) = Some b \<and> get_word (addr + 4 + 4 * int i) (gm_data gm') = b mod 4294967296"
    "\<forall>a. a + 4 \<le> addr + 4 \<or> addr + 4 + 4 * int (length vs) \<le> a \<longrightarrow>
        get_word a (gm_data gm') = get_word a (put_word addr b (gm_data gm))"
    using "2.IH" [OF w] "2.prems" w by simp_all
  have "\<exists>b. fp_to_bits fpu ((v # vs) ! i) = Some b \<and> get_word (addr + 4 * int i) (gm_data gm') = b mod 4294967296"
    if "i < length (v # vs)" for i
  proof (cases i)
    case 0
    with b ih(3) show ?thesis by simp
  next
    case (Suc j)
    with ih(2) that show ?thesis by (simp add: algebra_simps)
  qed
  moreover have "get_word a (gm_data gm') = get_word a (gm_data gm)"
    if "a + 4 \<le> addr \<or> addr + 4 * int (length (v # vs)) \<le> a" for a
    using that ih(3) by (auto simp: get_put_word_other)
  ultimately show ?case using ih(1) by blast
qed simp

lemma read_floats_get:
  "0 \<le> addr \<Longrightarrow> addr + 4 * int n \<le> gm_size gm \<Longrightarrow> read_floats fpu addr n gm = (vs, gm') \<Longrightarrow>
     vs = map (\<lambda>i. fp_of_bits fpu (get_word (addr + 4 * int i) (gm_data gm))) [0..<n]"
proof (induction n arbitrary: addr gm vs gm')
  case (Suc n)
  let ?gm = "gm\<lparr>gm_read_transactions := gm_read_transactions gm + 1\<rparr>"
  have r: "read_f32 fpu addr gm = (fp_of_bits fpu (get_word addr (gm_data gm)), ?gm)"
    using Suc.prems(1,2) by (simp add: read_f32_def in_memory_def)
  obtain ws gm2 where w: "read_floats fpu (addr + 4) n ?gm = (ws, gm2)" by (metis surj_pair)
  have "ws = map (\<lambda>i. fp_of_bits fpu (get_word (addr + 4 + 4 * int i) (gm_data gm))) [0..<n]"
    using Suc.IH [OF _ _ w] Suc.prems(1,2) by simp
  moreover have "vs = fp_of_bits fpu (get_word addr (gm_data gm)) # ws" using Suc.prems(3) r w by simp
  ultimately show ?case by (simp add: upt_conv_Cons map_Suc_upt [symmetric] o_def algebra_simps del: upt_Suc)
qed simp

end
