(* ===== verification/ZisaStudioCorrect.thy ===== *)
theory ZisaStudioCorrect
  imports ZisaStudio KernelExec
begin

unbundle bit_operations_syntax

text \<open>
  The elementwise pipeline end to end: the text the compiler emits assembles to the intended ten instructions, and running
  them on the simulator puts the operation of the two input vectors, lane by lane, into the output vector.
\<close>

subsection \<open>The text of a kernel and its lines\<close>

lemma split_lines_from_line:
  "\<forall>c \<in> set l. \<not> is_line_break c \<Longrightarrow> split_lines_from acc (l @ newline # rest) = (rev acc @ l) # split_lines_from [] rest"
proof (induction l arbitrary: acc)
  case Nil
  have nl: "is_line_break newline" "of_char newline \<noteq> (13::nat)" by (simp_all add: is_line_break_def newline_def Let_def)
  then show ?case by (cases rest) simp_all
next
  case (Cons c l)
  have c: "\<not> is_line_break c" using Cons.prems by simp
  then have "of_char c \<noteq> (13::nat)" by (auto simp: is_line_break_def Let_def)
  moreover obtain d s where "l @ newline # rest = d # s" by (cases "l @ newline # rest") auto
  ultimately have "split_lines_from acc (c # l @ newline # rest) = split_lines_from (c # acc) (l @ newline # rest)"
    using c by simp
  with Cons show ?case by simp
qed

lemma split_lines_from_last:
  "\<forall>c \<in> set l. \<not> is_line_break c \<Longrightarrow> acc \<noteq> [] \<or> l \<noteq> [] \<Longrightarrow> split_lines_from acc l = [rev acc @ l]"
proof (induction l arbitrary: acc)
  case (Cons c l)
  have c: "\<not> is_line_break c" using Cons.prems by simp
  then have "of_char c \<noteq> (13::nat)" by (auto simp: is_line_break_def Let_def)
  with c Cons show ?case by (cases l) auto
qed simp

lemma splitlines_lines_text:
  "ls \<noteq> [] \<Longrightarrow> last ls \<noteq> [] \<Longrightarrow> \<forall>l \<in> set ls. \<forall>c \<in> set l. \<not> is_line_break c \<Longrightarrow> py_splitlines (lines_text ls) = ls"
proof (induction ls)
  case (Cons l ls)
  show ?case
  proof (cases ls)
    case Nil
    with Cons.prems split_lines_from_last [of l "[]"] show ?thesis by (simp add: py_splitlines_def lines_text_def)
  next
    case (Cons k ks)
    then have "lines_text (l # ls) = l @ newline # lines_text ls" by (simp add: lines_text_def)
    with Cons.IH Cons.prems Cons split_lines_from_line [of l "[]" "lines_text ls"] show ?thesis
      by (simp add: py_splitlines_def)
  qed
qed simp

subsection \<open>The program of a kernel\<close>

definition operand_reg :: "string \<Rightarrow> int" where
  "operand_reg name = (if name = ''a'' then 9 else 10)"

definition operator_opcode :: "py_operator \<Rightarrow> opcode" where
  "operator_opcode op = (case op of PyAdd \<Rightarrow> VFADD | PySub \<Rightarrow> VFSUB | _ \<Rightarrow> VFMUL)"

definition operation_line :: "string \<Rightarrow> string \<Rightarrow> string \<Rightarrow> string" where
  "operation_line instr l r = instr @ '' R11, '' @ operand_register l @ '', '' @ operand_register r"

definition operation :: "py_operator \<Rightarrow> string \<Rightarrow> string \<Rightarrow> instruction" where
  "operation op l r = (plain (operator_opcode op))\<lparr>in_rd := 11, in_rs1 := operand_reg l, in_rs2 := operand_reg r\<rparr>"

definition inst3 :: "opcode \<Rightarrow> int \<Rightarrow> int \<Rightarrow> int \<Rightarrow> instruction" where
  "inst3 op rd rs1 rs2 = (plain op)\<lparr>in_rd := rd, in_rs1 := rs1, in_rs2 := rs2\<rparr>"

definition kernel_program :: "py_operator \<Rightarrow> string \<Rightarrow> string \<Rightarrow> instruction list" where
  "kernel_program op l r =
     [inst3 GET_TID 0 0 0, inst3 VMUL 5 0 1, inst3 VADD 6 3 5, inst3 VADD 7 4 5, inst3 VADD 8 2 5,
      inst3 VLOAD_G 9 6 0, inst3 VLOAD_G 10 7 0, operation op l r, inst3 VSTORE_G 0 8 11, inst3 HALT 0 0 0]"

definition fixed_lines :: "string list" where
  "fixed_lines = [''GET.TID R0'', ''VMUL R5, R0, R1'', ''VADD R6, R3, R5'', ''VADD R7, R4, R5'', ''VADD R8, R2, R5'',
      ''VLOAD.G R9, R6, 0'', ''VLOAD.G R10, R7, 0'', ''VSTORE.G R8, R11, 0'', ''HALT'']"

definition plain_line :: "string \<Rightarrow> bool" where
  "plain_line l \<longleftrightarrow> l \<noteq> [] \<and> strip_comment l = l \<and> \<not> py_endswith l '':'' \<and> list_all (\<lambda>c. \<not> is_line_break c) l"

definition yields :: "string \<Rightarrow> instruction \<Rightarrow> bool" where
  "yields l i \<longleftrightarrow> (case encode_line [] (0, l) of Inl _ \<Rightarrow> False | Inr w \<Rightarrow> 0 \<le> w \<and> decode w = Inr i)"

lemmas line_shape = plain_line_def strip_comment_def py_strip_def py_isspace_def is_line_break_def py_endswith_def
  suffix_def Let_def

lemma plain_fixed_lines: "list_all plain_line fixed_lines"
  by (simp add: fixed_lines_def line_shape)

lemma plain_operation_lines:
  "\<forall>i \<in> {''VFADD'', ''VFSUB'', ''VFMUL''}. \<forall>l \<in> {''a'', ''b''}. \<forall>r \<in> {''a'', ''b''}. plain_line (operation_line i l r)"
  by (simp add: operation_line_def operand_register_def line_shape)

definition fixed_insts :: "instruction list" where
  "fixed_insts = [inst3 GET_TID 0 0 0, inst3 VMUL 5 0 1, inst3 VADD 6 3 5, inst3 VADD 7 4 5, inst3 VADD 8 2 5,
      inst3 VLOAD_G 9 6 0, inst3 VLOAD_G 10 7 0, inst3 VSTORE_G 0 8 11, inst3 HALT 0 0 0]"

lemma fixed_lines_yield: "list_all2 yields fixed_lines fixed_insts"
  by code_simp

lemma operation_lines_yield:
  "\<forall>op \<in> {PyAdd, PySub, PyMult}. \<forall>l \<in> {''a'', ''b''}. \<forall>r \<in> {''a'', ''b''}.
     case supported op of None \<Rightarrow> False | Some i \<Rightarrow> yields (operation_line i l r) (operation op l r)"
  by code_simp

text \<open>Without labels the position of a line does not matter, unless it is a branch; none of these is.\<close>

lemma first_pass_plain: "list_all plain_line ls \<Longrightarrow> first_pass ls pc [] = ([], enumerate pc ls)"
  by (induction ls arbitrary: pc) (auto simp: plain_line_def Let_def)

lemma branch_offset_no_label: "branch_offset [] pc t = branch_offset [] 0 t"
  by (simp add: branch_offset_def)

lemma encode_line_position: "encode_line [] (pc, l) = encode_line [] (0, l)"
  using branch_offset_no_label [of pc]
  by (simp add: encode_line_def assemble_line_def operands_def Let_def split: option.split)

lemma second_pass_yields:
  "list_all2 yields ls is \<Longrightarrow> \<exists>ws. second_pass [] (enumerate pc ls) = Inr ws \<and> map decode ws = map Inr is \<and> (\<forall>w \<in> set ws. 0 \<le> w)"
proof (induction ls "is" arbitrary: pc rule: list_all2_induct)
  case (Cons l ls i iis)
  obtain w where w: "encode_line [] (0, l) = Inr w" "0 \<le> w" "decode w = Inr i"
    using Cons.hyps(1) by (auto simp: yields_def split: sum.splits)
  obtain ws where "second_pass [] (enumerate (Suc pc) ls) = Inr ws" "map decode ws = map Inr iis" "\<forall>w \<in> set ws. 0 \<le> w"
    using Cons.IH [of "Suc pc"] by blast
  with w show ?case by (intro exI [of _ "w # ws"]) (simp add: encode_line_position [of pc])
qed simp

definition header_line :: string where
  "header_line = ''# zGPU elementwise expression''"

definition kernel_lines :: "string \<Rightarrow> string list" where
  "kernel_lines x = take 7 fixed_lines @ x # drop 7 fixed_lines"

lemma kernel_text_lines:
  "kernel_text instr (operand_register l) (operand_register r) = lines_text (header_line # kernel_lines (operation_line instr l r))"
  by (simp add: kernel_text_def kernel_lines_def fixed_lines_def operation_line_def header_line_def)

lemma kernel_lines_plain: "plain_line x \<Longrightarrow> list_all plain_line (kernel_lines x)"
  using plain_fixed_lines by (auto simp: kernel_lines_def list_all_iff dest: in_set_takeD in_set_dropD)

lemma header_no_break: "\<forall>c \<in> set header_line. \<not> is_line_break c"
  by (simp add: header_line_def is_line_break_def)

lemma header_comment: "strip_comment header_line = []"
  by (simp add: header_line_def strip_comment_def py_strip_def)

lemma assemble_lines:
  assumes x: "plain_line x" and y: "yields x i"
  shows "\<exists>ws. assemble (lines_text (header_line # kernel_lines x)) = Inr ws \<and>
    map decode ws = map Inr (take 7 fixed_insts @ i # drop 7 fixed_insts) \<and> (\<forall>w \<in> set ws. 0 \<le> w)"
proof -
  note plain = kernel_lines_plain [OF x]
  have "list_all2 yields (kernel_lines x) (take 7 fixed_insts @ i # drop 7 fixed_insts)"
    unfolding kernel_lines_def
    by (intro list_all2_appendI list_all2_Cons [THEN iffD2] conjI y list_all2_takeI list_all2_dropI fixed_lines_yield)
  from second_pass_yields [OF this] obtain ws where ws: "second_pass [] (enumerate 0 (kernel_lines x)) = Inr ws"
    "map decode ws = map Inr (take 7 fixed_insts @ i # drop 7 fixed_insts)" "\<forall>w \<in> set ws. 0 \<le> w" by blast
  have breaks: "\<forall>l \<in> set (header_line # kernel_lines x). \<forall>c \<in> set l. \<not> is_line_break c"
    using plain header_no_break by (auto simp: list_all_iff plain_line_def)
  have ends: "hd (lines_text (header_line # kernel_lines x)) = CHR ''#''" "last (kernel_lines x) = ''HALT''"
    by (simp_all add: lines_text_def header_line_def kernel_lines_def fixed_lines_def)
  have nonempty: "kernel_lines x \<noteq> []" by (simp add: kernel_lines_def)
  have "last (lines_text (header_line # kernel_lines x)) = CHR ''T''"
    by (simp add: lines_text_def kernel_lines_def fixed_lines_def)
  with ends(1) have "py_strip (lines_text (header_line # kernel_lines x)) = lines_text (header_line # kernel_lines x)"
    by (intro py_strip_id disjI2) (simp add: py_isspace_def)
  moreover have "py_splitlines (lines_text (header_line # kernel_lines x)) = header_line # kernel_lines x"
    by (rule splitlines_lines_text [OF _ _ breaks]) (use ends(2) in \<open>simp_all add: nonempty\<close>)
  moreover have "first_pass (header_line # kernel_lines x) 0 [] = ([], enumerate 0 (kernel_lines x))"
    using first_pass_plain [OF plain, of 0] by (simp add: header_comment)
  ultimately have "assemble (lines_text (header_line # kernel_lines x)) = Inr ws" using ws(1) by (simp add: assemble_def)
  with ws(2,3) show ?thesis by blast
qed

lemma assemble_kernel:
  assumes "supported op = Some instr" and l: "l \<in> {''a'', ''b''}" and r: "r \<in> {''a'', ''b''}"
  shows "\<exists>ws. assemble (kernel_text instr (operand_register l) (operand_register r)) = Inr ws \<and>
    map decode ws = map Inr (kernel_program op l r) \<and> (\<forall>w \<in> set ws. 0 \<le> w)"
proof -
  have instr: "instr \<in> {''VFADD'', ''VFSUB'', ''VFMUL''}" and op: "op \<in> {PyAdd, PySub, PyMult}"
    using assms(1) by (auto simp: supported_def split: py_operator.splits)
  have line: "plain_line (operation_line instr l r)"
    by (rule plain_operation_lines [THEN bspec, OF instr, THEN bspec, OF l, THEN bspec, OF r])
  have "yields (operation_line instr l r) (operation op l r)"
    using operation_lines_yield [THEN bspec, OF op, THEN bspec, OF l, THEN bspec, OF r] assms(1) by simp
  from assemble_lines [OF line this] show ?thesis
    unfolding kernel_text_lines by (simp add: kernel_program_def fixed_insts_def)
qed

subsection \<open>Running a kernel\<close>

text \<open>The registers a launch starts with: the lane, the stride, and the three base addresses.\<close>

definition kernel_inits :: "(int \<times> reg_init) list" where
  "kernel_inits = [(1, Scalar 4), (2, Scalar 256), (3, Scalar 0), (4, Scalar 128)]"

definition start_regs :: "nat \<Rightarrow> nat \<Rightarrow> int" where
  "start_regs lane r = (if r = 0 then int lane else if r = 1 then 4 else if r = 2 then 256 else if r = 4 then 128 else 0)"

lemma start_warp: "regs_are start_regs (set_registers kernel_inits (warp_new 128 0 0))"
  by (auto simp: regs_are_def set_registers_def kernel_inits_def set_register_def warp_new_def full_mask_def WARP_SIZE_def
      start_regs_def nth_list_update)

definition idle_device :: "(int \<Rightarrow> int) \<Rightarrow> int \<Rightarrow> gpu \<Rightarrow> bool" where
  "idle_device d sz g \<longleftrightarrow> (\<exists>m. g_sms g = [m] \<and> is_finished m \<and> sm_max_warps m = 8) \<and> gm_data (g_global_mem g) = d \<and>
     gm_size (g_global_mem g) = sz \<and> g_total_cycles g = 0"

lemma first_round:
  assumes "idle_device d sz g" and "0 < length program" "decode (program ! 0) = Inr inst" and "effect fpu inst start_regs d sz R d'"
    and "0 < n"
  shows "\<exists>g'. running 1 R d' sz 1 g' \<and>
    launch_loop fpu program (Some n) 1 kernel_inits 0 [0] g = launch_loop fpu program (Some n) 1 kernel_inits 0 [] g'"
proof -
  obtain m where m: "g_sms g = [m]" "is_finished m" "gm_data (g_global_mem g) = d" "gm_size (g_global_mem g) = sz" "g_total_cycles g = 0"
    using assms(1) by (auto simp: idle_device_def)
  let ?m = "(launch_warps 1 0 m)\<lparr>sm_warps := map (set_registers kernel_inits) (sm_warps (launch_warps 1 0 m))\<rparr>"
  have at: "kernel_at 0 start_regs d sz ?m (g_global_mem g)"
    using m start_warp by (simp add: kernel_at_def launch_warps_def)
  obtain m' gm' where s: "step_cycle fpu program ?m (g_global_mem g) = (Inr True, m', gm')" "kernel_at (Suc 0) R d' sz m' gm'"
    using kernel_step [OF at assms(2-4)] by blast
  have "dispatch 1 kernel_inits (g_sms g) [0] = ([?m], [])" using m(1,2) by (simp add: Let_def)
  from launch_round [OF this kernel_at_unfinished [OF at] _ _ s(1), of 0 n] m(5) assms(5)
  have "launch_loop fpu program (Some n) 1 kernel_inits 0 [0] g = launch_loop fpu program (Some n) 1 kernel_inits 0 []
      (g\<lparr>g_sms := [m'], g_global_mem := gm', g_total_cycles := g_total_cycles g + 1\<rparr>)" by simp
  then show ?thesis using s(2) m(5) by (intro exI conjI) (auto simp: running_def)
qed

definition float_op :: "'f fpu \<Rightarrow> py_operator \<Rightarrow> 'f \<Rightarrow> 'f \<Rightarrow> 'f" where
  "float_op fpu op = (case op of PyAdd \<Rightarrow> fp_add fpu | PySub \<Rightarrow> fp_sub fpu | _ \<Rightarrow> fp_mul fpu)"

definition operand :: "string \<Rightarrow> (nat \<Rightarrow> int) \<Rightarrow> (nat \<Rightarrow> int) \<Rightarrow> nat \<Rightarrow> int" where
  "operand name abits bbits = (if name = ''a'' then abits else bbits)"

lemma inst3_fields [simp]: "in_op (inst3 op rd a b) = op" "in_rd (inst3 op rd a b) = rd" "in_rs1 (inst3 op rd a b) = a"
  "in_rs2 (inst3 op rd a b) = b" "in_imm (inst3 op rd a b) = 0" "in_rs3 (inst3 op rd a b) = 0"
  by (simp_all add: inst3_def plain_def)

lemma fields_ok_inst3: "0 \<le> rd \<Longrightarrow> rd \<le> 127 \<Longrightarrow> 0 \<le> a \<Longrightarrow> a \<le> 31 \<Longrightarrow> 0 \<le> b \<Longrightarrow> b \<le> 31 \<Longrightarrow> fields_ok (inst3 op rd a b)"
  by (simp add: fields_ok_def fits_def)

lemma operation_inst3: "operation op l r = inst3 (operator_opcode op) 11 (operand_reg l) (operand_reg r)"
  by (simp add: operation_def inst3_def)

lemma kernel_run:
  fixes d :: "int \<Rightarrow> int" and abits bbits out :: "nat \<Rightarrow> int"
  assumes g: "idle_device d sz g" "384 \<le> sz" and prog: "map decode program = map Inr (kernel_program op l r)"
    and op: "op \<in> {PyAdd, PySub, PyMult}" and n: "10 \<le> n"
    and d: "\<And>lane. lane < 32 \<Longrightarrow> get_word (4 * int lane) d mod 4294967296 = abits lane"
      "\<And>lane. lane < 32 \<Longrightarrow> get_word (128 + 4 * int lane) d mod 4294967296 = bbits lane"
    and out: "\<And>lane. lane < 32 \<Longrightarrow> fp_to_bits fpu (float_op fpu op (fp_of_bits fpu (operand l abits bbits lane))
        (fp_of_bits fpu (operand r abits bbits lane))) = Some (out lane)"
  shows "\<exists>g'. launch_loop fpu program (Some n) 1 kernel_inits 0 [0] g = Some (None, g') \<and> g_total_cycles g' = 10 \<and>
    gm_size (g_global_mem g') = sz \<and>
    (\<forall>lane < 32. get_word (256 + 4 * int lane) (gm_data (g_global_mem g')) = out lane mod 4294967296)"
proof -
  have len: "length program = 10" using arg_cong [OF prog, of length] by (simp add: kernel_program_def)
  have at: "decode (program ! k) = Inr (kernel_program op l r ! k)" if "k < 10" for k
  proof -
    have "length (kernel_program op l r) = 10" by (simp add: kernel_program_def)
    then show ?thesis using arg_cong [OF prog, of "\<lambda>xs. xs ! k"] that len by simp
  qed
  have i: "decode (program ! 0) = Inr (inst3 GET_TID 0 0 0)" "decode (program ! 1) = Inr (inst3 VMUL 5 0 1)"
    "decode (program ! 2) = Inr (inst3 VADD 6 3 5)" "decode (program ! 3) = Inr (inst3 VADD 7 4 5)"
    "decode (program ! 4) = Inr (inst3 VADD 8 2 5)" "decode (program ! 5) = Inr (inst3 VLOAD_G 9 6 0)"
    "decode (program ! 6) = Inr (inst3 VLOAD_G 10 7 0)"
    "decode (program ! 7) = Inr (inst3 (operator_opcode op) 11 (operand_reg l) (operand_reg r))"
    "decode (program ! 8) = Inr (inst3 VSTORE_G 0 8 11)" "decode (program ! 9) = Inr (inst3 HALT 0 0 0)"
    by (simp_all add: at kernel_program_def operation_inst3)
  define R1 where "R1 = set_reg 0 int start_regs"
  define R2 where "R2 = set_reg 5 (\<lambda>lane. R1 lane 0 * R1 lane 1 mod 4294967296) R1"
  define R3 where "R3 = set_reg 6 (\<lambda>lane. (R2 lane 3 + R2 lane 5) mod 4294967296) R2"
  define R4 where "R4 = set_reg 7 (\<lambda>lane. (R3 lane 4 + R3 lane 5) mod 4294967296) R3"
  define R5 where "R5 = set_reg 8 (\<lambda>lane. (R4 lane 2 + R4 lane 5) mod 4294967296) R4"
  define R6 where "R6 = set_reg 9 (\<lambda>lane. signed32 (get_word (R5 lane 6) d)) R5"
  define R7 where "R7 = set_reg 10 (\<lambda>lane. signed32 (get_word (R6 lane 7) d)) R6"
  define R8 where "R8 = set_reg 11 out R7"
  have r5: "R5 lane 6 = 4 * int lane" "R5 lane 7 = 128 + 4 * int lane" "R5 lane 8 = 256 + 4 * int lane" if "lane < 32" for lane
    using that by (simp_all add: R5_def R4_def R3_def R2_def R1_def set_reg_def start_regs_def)
  have r6: "R6 lane 7 = 128 + 4 * int lane" "R7 lane 9 mod 4294967296 = abits lane" "R7 lane 10 mod 4294967296 = bbits lane"
      "R8 lane 8 = 256 + 4 * int lane" "R8 lane 11 = out lane" if "lane < 32" for lane
    using r5 [OF that] d [OF that] by (simp_all add: R8_def R7_def R6_def set_reg_def)
  have e0: "effect fpu (inst3 GET_TID 0 0 0) start_regs d sz R1 d"
    using effect_tid [of "inst3 GET_TID 0 0 0"] by (simp add: R1_def)
  have e1: "effect fpu (inst3 VMUL 5 0 1) R1 d sz R2 d"
    using effect_int [where inst = "inst3 VMUL 5 0 1" and f = "(*)" and R = R1] by (simp add: R2_def fields_ok_inst3)
  have e2: "effect fpu (inst3 VADD 6 3 5) R2 d sz R3 d"
    using effect_int [where inst = "inst3 VADD 6 3 5" and f = "(+)" and R = R2] by (simp add: R3_def fields_ok_inst3)
  have e3: "effect fpu (inst3 VADD 7 4 5) R3 d sz R4 d"
    using effect_int [where inst = "inst3 VADD 7 4 5" and f = "(+)" and R = R3] by (simp add: R4_def fields_ok_inst3)
  have e4: "effect fpu (inst3 VADD 8 2 5) R4 d sz R5 d"
    using effect_int [where inst = "inst3 VADD 8 2 5" and f = "(+)" and R = R4] by (simp add: R5_def fields_ok_inst3)
  have e5: "effect fpu (inst3 VLOAD_G 9 6 0) R5 d sz R6 d"
    using effect_load [where inst = "inst3 VLOAD_G 9 6 0" and R = R5 and sz = sz and d = d] r5 g(2)
    by (simp add: R6_def fields_ok_inst3 WARP_SIZE_def)
  have e6: "effect fpu (inst3 VLOAD_G 10 7 0) R6 d sz R7 d"
    using effect_load [where inst = "inst3 VLOAD_G 10 7 0" and R = R6 and sz = sz and d = d] r6 g(2)
    by (simp add: R7_def fields_ok_inst3 WARP_SIZE_def)
  have pick: "R7 lane (nat (operand_reg s)) mod 4294967296 = operand s abits bbits lane" if "lane < 32" for lane s
    using r6 [OF that] by (simp add: operand_reg_def operand_def)
  have opf: "operator_opcode op = VFADD \<and> float_op fpu op = fp_add fpu \<or> operator_opcode op = VFSUB \<and> float_op fpu op = fp_sub fpu \<or>
      operator_opcode op = VFMUL \<and> float_op fpu op = fp_mul fpu"
    using op by (auto simp: operator_opcode_def float_op_def)
  have "fields_ok (inst3 (operator_opcode op) 11 (operand_reg l) (operand_reg r))"
    by (rule fields_ok_inst3) (simp_all add: operand_reg_def)
  then have e7: "effect fpu (inst3 (operator_opcode op) 11 (operand_reg l) (operand_reg r)) R7 d sz R8 d"
    using effect_float [where inst = "inst3 (operator_opcode op) 11 (operand_reg l) (operand_reg r)" and f = "float_op fpu op"
        and fpu = fpu and R = R7 and v = out] opf out pick
    by (simp add: R8_def WARP_SIZE_def)
  define d' where "d' = kernel_store sz (\<lambda>lane. R8 lane 8) (\<lambda>lane. R8 lane 11) d"
  have e8: "effect fpu (inst3 VSTORE_G 0 8 11) R8 d sz R8 d'"
    using effect_store [where inst = "inst3 VSTORE_G 0 8 11" and R = R8 and sz = sz and d = d]
    by (simp add: d'_def fields_ok_inst3)
  let ?L = "\<lambda>g. launch_loop fpu program (Some n) 1 kernel_inits 0 [] g"
  obtain g1 where s1: "running 1 R1 d sz 1 g1" "launch_loop fpu program (Some n) 1 kernel_inits 0 [0] g = ?L g1"
    using first_round [OF g(1) _ i(1) e0, of n] len n by auto
  obtain g2 where s2: "running 2 R2 d sz 2 g2" "?L g1 = ?L g2"
    using running_step [OF s1(1) _ i(2) e1, of 0 n 1 kernel_inits] len n by (auto simp: numeral_2_eq_2)
  obtain g3 where s3: "running 3 R3 d sz 3 g3" "?L g2 = ?L g3"
    using running_step [OF s2(1) _ i(3) e2, of 0 n 1 kernel_inits] len n by (auto simp: numeral_3_eq_3)
  obtain g4 where s4: "running 4 R4 d sz 4 g4" "?L g3 = ?L g4"
    using running_step [OF s3(1) _ i(4) e3, of 0 n 1 kernel_inits] len n by auto
  obtain g5 where s5: "running 5 R5 d sz 5 g5" "?L g4 = ?L g5"
    using running_step [OF s4(1) _ i(5) e4, of 0 n 1 kernel_inits] len n by auto
  obtain g6 where s6: "running 6 R6 d sz 6 g6" "?L g5 = ?L g6"
    using running_step [OF s5(1) _ i(6) e5, of 0 n 1 kernel_inits] len n by auto
  obtain g7 where s7: "running 7 R7 d sz 7 g7" "?L g6 = ?L g7"
    using running_step [OF s6(1) _ i(7) e6, of 0 n 1 kernel_inits] len n by auto
  obtain g8 where s8: "running 8 R8 d sz 8 g8" "?L g7 = ?L g8"
    using running_step [OF s7(1) _ i(8) e7, of 0 n 1 kernel_inits] len n by auto
  obtain g9 where s9: "running 9 R8 d' sz 9 g9" "?L g8 = ?L g9"
    using running_step [OF s8(1) _ i(9) e8, of 0 n 1 kernel_inits] len n by auto
  obtain g' where s10: "?L g9 = Some (None, g')" "gm_data (g_global_mem g') = d'" "gm_size (g_global_mem g') = sz" "g_total_cycles g' = 10"
    using running_halt [OF s9(1) _ i(10), of 0 n fpu 1 kernel_inits] len n by auto
  have apart: "R8 k 8 + 4 \<le> R8 lane 8 \<or> R8 lane 8 + 4 \<le> R8 k 8" if "k < 32" "lane < 32" "k \<noteq> lane" for k lane
    using r6(4) [OF that(1)] r6(4) [OF that(2)] that(3) by (cases "k < lane") simp_all
  have "get_word (256 + 4 * int lane) d' = out lane mod 4294967296" if "lane < 32" for lane
    using kernel_store_get [where lane = lane and addr = "\<lambda>lane. R8 lane 8" and v = "\<lambda>lane. R8 lane 11" and sz = sz and d = d]
      r6(4,5) [OF that] apart [OF _ that] that g(2) by (simp add: d'_def WARP_SIZE_def)
  then show ?thesis using s1(2) s2(2) s3(2) s4(2) s5(2) s6(2) s7(2) s8(2) s9(2) s10 by simp
qed

subsection \<open>The whole pipeline\<close>

lemma compile_expression_ok:
  assumes "length expression \<le> 256" "list_all (\<lambda>c. c \<noteq> CHR 0x0D \<and> c \<noteq> CHR 0x0A \<and> c \<noteq> CHR ''#'') expression"
    and parse: "parse expression = Some (PyBinOp (PyName l) op (PyName r))"
    and lr: "l \<in> {''a'', ''b''}" "r \<in> {''a'', ''b''}" and instr: "supported op = Some instr"
  shows "compile_expression parse expression = Inr (kernel_text instr (operand_register l) (operand_register r))"
proof -
  have "list_ex (\<lambda>c. c = CHR 0x0D \<or> c = CHR 0x0A \<or> c = CHR ''#'') expression = False"
    using assms(2) by (auto simp: list_ex_iff list_all_iff)
  moreover have "(256 < length expression) = False" using assms(1) by simp
  moreover have "((l = ''a'' \<or> l = ''b'') \<and> (r = ''a'' \<or> r = ''b'')) = True" using lr by blast
  ultimately show ?thesis unfolding compile_expression_def by (simp only: parse instr if_False if_True option.case pyexpr.case)
qed

text \<open>
  C7: The elementwise pipeline computes what the expression says: for an expression that parses to \<open>x + y\<close>, \<open>x - y\<close> or
  \<open>x * y\<close> over the two vectors, compiling, assembling, loading the vectors and running the ten instructions on the
  simulator returns, in ten cycles, the vector of the single-precision results, lane by lane.
\<close>
theorem elementwise_pipeline_computes:
  assumes "length a = 32" "length b = 32" and "list_all in_range (a @ b)" and n: "10 \<le> n" "n \<le> 20000"
    and expr: "length expression \<le> 256" "list_all (\<lambda>c. c \<noteq> CHR 0x0D \<and> c \<noteq> CHR 0x0A \<and> c \<noteq> CHR ''#'') expression"
    and parse: "parse expression = Some (PyBinOp (PyName l) op (PyName r))"
    and lr: "l \<in> {''a'', ''b''}" "r \<in> {''a'', ''b''}" and op: "op \<in> {PyAdd, PySub, PyMult}"
    and bits: "\<forall>lane < 32. fp_to_bits fpu (a ! lane) = Some (abits lane) \<and> fp_to_bits fpu (b ! lane) = Some (bbits lane)"
    and out: "\<forall>lane < 32. fp_to_bits fpu (float_op fpu op (fp_of_bits fpu (operand l abits bbits lane))
        (fp_of_bits fpu (operand r abits bbits lane))) = Some (out lane) \<and> finite_f (fp_of_bits fpu (out lane))"
    and fpu: "fpu_ok fpu"
  shows "\<exists>rep. simulate_elementwise_expression fpu in_range finite_f parse expression a b n = Some (Inr rep) \<and>
    er_result rep = map (\<lambda>lane. fp_of_bits fpu (out lane)) [0..<32] \<and> er_instruction_count rep = 10 \<and>
    pc_total_cycles (er_performance_counters rep) = 10"
proof -
  obtain instr where instr: "supported op = Some instr" using op by (auto simp: supported_def)
  note src = compile_expression_ok [where parse = parse, OF expr parse lr instr]
  obtain ws where ws: "assemble (kernel_text instr (operand_register l) (operand_register r)) = Inr ws"
    "map decode ws = map Inr (kernel_program op l r)" using assemble_kernel [OF instr lr] by blast
  obtain g where g: "gpu_new 1 1 = Inr g" "idle_device (\<lambda>a. 0) 1048576 g" "gm_size (g_global_mem g) = 1048576"
    by (auto simp: gpu_new_def idle_device_def sm_new_def is_finished_def gm_new_def)
  have wr: "\<exists>gm'. write_floats fpu addr vs gm = Some gm'" if "\<forall>v \<in> set vs. fp_to_bits fpu v \<noteq> None" for addr vs gm
    using that by (induction fpu addr vs gm rule: write_floats.induct) (auto simp: write_f32_def split: option.splits)
  have "\<forall>v \<in> set a. fp_to_bits fpu v \<noteq> None" "\<forall>v \<in> set b. fp_to_bits fpu v \<noteq> None"
    using bits assms(1,2) by (auto simp: in_set_conv_nth)
  then obtain gm1 gm2 where w1: "write_floats fpu 0 a (g_global_mem g) = Some gm1" and w2: "write_floats fpu 128 b gm1 = Some gm2"
    using wr by blast
  have s0: "0 + 4 * int (length a) \<le> gm_size (g_global_mem g)" using assms(1) g(3) by simp
  note f1 = write_floats_get [OF w1 order_refl s0, unfolded assms(1)]
  have s1: "128 + 4 * int (length b) \<le> gm_size gm1" using assms(2) f1 g(3) by simp
  have "(0::int) \<le> 128" by simp
  note f2 = write_floats_get [OF w2 this s1, unfolded assms(2)]
  have small: "x mod 4294967296 = x" if "fp_to_bits fpu v = Some x" for v x
  proof -
    have "0 \<le> x \<and> x < 2 ^ 32" using fpu that unfolding fpu_ok_def by blast
    then show ?thesis by (simp add: mod_pos_pos_trivial)
  qed
  have sm: "abits lane mod 4294967296 = abits lane" "bbits lane mod 4294967296 = bbits lane"
    "out lane mod 4294967296 = out lane" if "lane < 32" for lane
  proof -
    have "fp_to_bits fpu (a ! lane) = Some (abits lane)" "fp_to_bits fpu (b ! lane) = Some (bbits lane)" using bits that by simp_all
    from small [OF this(1)] small [OF this(2)]
    show "abits lane mod 4294967296 = abits lane" "bbits lane mod 4294967296 = bbits lane" .
    show "out lane mod 4294967296 = out lane" using out that by (blast intro: small)
  qed
  have m1: "gm_size gm1 = 1048576" "get_word (4 * int lane) (gm_data gm1) = abits lane" if "lane < 32" for lane
    using conjunct1 [OF f1] conjunct1 [OF conjunct2 [OF f1]] g(3) that bits sm(1) [OF that] by auto
  have m2: "gm_size gm2 = 1048576" "get_word (128 + 4 * int lane) (gm_data gm2) = bbits lane"
    "get_word (4 * int lane) (gm_data gm2) = get_word (4 * int lane) (gm_data gm1)" if "lane < 32" for lane
    using conjunct1 [OF f2] conjunct1 [OF conjunct2 [OF f2]] conjunct2 [OF conjunct2 [OF f2]] m1(1) that bits sm(2) [OF that] by auto
  have sz: "gm_size gm2 = 1048576" using m2(1) [of 0] by simp
  have da: "get_word (4 * int lane) (gm_data gm2) mod 4294967296 = abits lane" if "lane < 32" for lane
    using m2(3) [OF that] m1(2) [OF that] sm(1) [OF that] by simp
  have db: "get_word (128 + 4 * int lane) (gm_data gm2) mod 4294967296 = bbits lane" if "lane < 32" for lane
    using m2(2) [OF that] sm(2) [OF that] by simp
  have idle: "idle_device (gm_data gm2) 1048576 (g\<lparr>g_global_mem := gm2\<rparr>)" using g(2) sz by (simp add: idle_device_def)
  have "\<exists>g'. launch_loop fpu ws (Some n) 1 kernel_inits 0 [0] (g\<lparr>g_global_mem := gm2\<rparr>) = Some (None, g') \<and> g_total_cycles g' = 10 \<and>
    gm_size (g_global_mem g') = 1048576 \<and>
    (\<forall>lane < 32. get_word (256 + 4 * int lane) (gm_data (g_global_mem g')) = out lane mod 4294967296)"
    by (rule kernel_run [OF idle _ ws(2) op n(1) da db]) (use out in simp_all)
  then obtain g' where run: "launch_loop fpu ws (Some n) 1 kernel_inits 0 [0] (g\<lparr>g_global_mem := gm2\<rparr>) = Some (None, g')"
    "g_total_cycles g' = 10" "gm_size (g_global_mem g') = 1048576"
    "\<forall>lane < 32. get_word (256 + 4 * int lane) (gm_data (g_global_mem g')) = out lane" using sm(3) by auto
  have "check_launch 1 1 (Some n) kernel_inits (g\<lparr>g_global_mem := gm2\<rparr>) = None"
    using n g(2) by (auto simp: check_launch_def kernel_inits_def check_register_def idle_device_def list_ex_iff)
  moreover have "g_total_cycles g = 0" using g(2) by (simp add: idle_device_def)
  ultimately have launch: "launch_kernel fpu ws 1 1 (Some n) kernel_inits (g\<lparr>g_global_mem := gm2\<rparr>) = Some (None, g')"
    using run(1) by (simp add: launch_kernel_def)
  obtain vs gm3 where rd: "read_floats fpu 256 32 (g_global_mem g') = (vs, gm3)" by (metis surj_pair)
  have "vs = map (\<lambda>i. fp_of_bits fpu (get_word (256 + 4 * int i) (gm_data (g_global_mem g')))) [0..<32]"
    by (rule read_floats_get [OF _ _ rd]) (simp_all add: run(3))
  then have vs: "vs = map (\<lambda>lane. fp_of_bits fpu (out lane)) [0..<32]" using run(4) by simp
  have fin: "list_ex (\<lambda>v. \<not> finite_f v) vs = False" using out by (auto simp: vs list_ex_iff)
  have len: "length ws = 10" using arg_cong [OF ws(2), of length] by (simp add: kernel_program_def)
  have rng: "list_ex (\<lambda>v. \<not> in_range v) (a @ b) = False" using assms(3) by (simp add: list_ex_iff list_all_iff)
  have lim: "(1 \<le> n \<and> n \<le> 20000) = True" using n by simp
  have lens: "(length a \<noteq> 32 \<or> length b \<noteq> 32) = False" using assms(1,2) by simp
  let ?rep = "\<lparr>er_instruction_count = length ws, er_result = vs,
      er_performance_counters = get_performance_counters (g'\<lparr>g_global_mem := gm3\<rparr>)\<rparr>"
  have "simulate_elementwise_expression fpu in_range finite_f parse expression a b n = Some (Inr ?rep)"
    unfolding simulate_elementwise_expression_def kernel_inits_def [symmetric]
    by (simp only: lens rng lim src ws(1) g(1) w1 w2 launch rd fin if_False not_True_eq_False sum.case option.case
        option.map prod.case)
  then show ?thesis using vs len run(2) by (simp add: get_performance_counters_def Let_def)
qed

theorem elementwise_pipeline_computes_witness:
  "\<exists>rep. simulate_elementwise_expression int_fpu (\<lambda>v. True) (\<lambda>v. True)
      (\<lambda>s. if s = ''a * b'' then Some (PyBinOp (PyName ''a'') PyMult (PyName ''b'')) else None) ''a * b''
      (replicate 32 3) (map int [0..<32]) 100 = Some (Inr rep) \<and> er_result rep = map (\<lambda>lane. 3 * int lane) [0..<32]"
proof -
  have "\<exists>rep. simulate_elementwise_expression int_fpu (\<lambda>v. True) (\<lambda>v. True)
      (\<lambda>s. if s = ''a * b'' then Some (PyBinOp (PyName ''a'') PyMult (PyName ''b'')) else None) ''a * b''
      (replicate 32 3) (map int [0..<32]) 100 = Some (Inr rep) \<and>
      er_result rep = map (\<lambda>lane. fp_of_bits int_fpu (3 * int lane)) [0..<32] \<and> er_instruction_count rep = 10 \<and>
      pc_total_cycles (er_performance_counters rep) = 10"
    by (rule elementwise_pipeline_computes [where l = "''a''" and r = "''b''" and op = PyMult and abits = "\<lambda>lane. 3" and bbits = int])
       (simp_all add: int_fpu_ok, simp_all add: int_fpu_def float_op_def operand_def list_all_iff)
  moreover have "fp_of_bits int_fpu x = x" for x by (simp add: int_fpu_def)
  ultimately show ?thesis by (simp only:) blast
qed

end
