(* ===== verification/Spec2Isabelle.thy ===== *)
theory Spec2Isabelle
  imports Resilience Tenancy PolicyEngine Product Admission UpgradeLoop StoreLedger UpgradeFence PipelineJson ControlPlane Maintenance EngineeringWorker WorkerProcess Deployment AgentProtocol TagFilter ZisaStudioCorrect
begin

text \<open>
  A verification library for zcoder, a coding agent with a multi-tenant control plane (\<open>src/zcoder\<close>), and for zGPU, the
  SIMT accelerator prototype it ships with (\<open>src/zgpu\<close>). Every path below is relative to \<open>src/\<close> inside the repository's \<open>src/\<close>.

  \<^bold>\<open>Parts and how they interact.\<close> Requests enter zcoder with a tenant context. \<open>Tenancy\<close>
  (\<open>zcoder/domain/models/tenant.py\<close>) holds roles, permissions and API keys; \<open>PolicyEngine\<close>
  (\<open>domain/services/policy_engine.py\<close>) decides an action from the context, its permissions and the recorded rules, allowing where no rule denies;
  \<open>Product\<close> (\<open>domain/models/product.py\<close>) is plans, entitlements and billing with the Stripe adapter;
  \<open>Admission\<close> (\<open>domain/services/admission.py\<close>, \<open>services/admission_gates.py\<close>) is the fail-closed gate in
  front of work that costs, on top of the entitlements. Work itself is kept in an engineering store: \<open>EngineeringStore\<close>
  (\<open>domain/models/engineering.py\<close>, \<open>infrastructure/stores/sqlite_engineering.py\<close> and \<open>postgres_engineering.py\<close>)
  with leased claims. \<open>UpgradeLoop\<close> (\<open>services/upgrade_loop.py\<close>) is the autonomous loop that discovers,
  attempts, validates and rolls back work items; it survives restarts through a ledger, \<open>UpgradeLedger\<close>
  (\<open>services/upgrade_state.py\<close>, a JSON file) or \<open>StoreLedger\<close> (\<open>services/upgrade_store_ledger.py\<close>, rows of an
  engineering store that workers claim from at the same time). \<open>Pipeline\<close> (\<open>services/continuous_engineering.py\<close>) joins the
  loop with a ledger, a lease and the engineering runtime; \<open>PipelineJson\<close> is the pipeline on the JSON ledger; \<open>UpgradeFence\<close>
  (\<open>services/upgrade_postgres_lease.py\<close>, \<open>upgrade_postgres_fence.py\<close>, \<open>upgrade_postgres_runtime.py\<close>) are the lease and the
  fence of runners that share a PostgreSQL store, and \<open>RunLease\<close> (\<open>services/upgrade_lease.py\<close>) the lease file of those on one
  machine. \<open>Maintenance\<close> (\<open>services/maintenance_*.py\<close>) turns signals into campaigns that the pipeline runs, puts their
  summaries in the outbox and repeats this under a lease. \<open>EngineeringWorker\<close> (\<open>services/engineering_worker.py\<close>) drains an
  engineering store. \<open>ControlPlane\<close> (\<open>domain/services/control_plane.py\<close>,
  \<open>outbox_policy.py\<close>) is the shared job table with fencing tokens, the outbox and the webhook inbox; \<open>Deployment\<close>
  (\<open>domain/services/deployment.py\<close>) keeps its records in the same database; \<open>WorkerProcess\<close> (\<open>worker/process.py\<close>) is the
  process that claims jobs from one of the three stores of jobs, runs each in a thread and gives back what is left when it is told to
  stop; \<open>JobQueue\<close> says what it relies on in a store; \<open>PgControlPlane\<close>
  (\<open>infrastructure/stores/postgres.py\<close>, \<open>postgres_outbox.py\<close>, \<open>postgres_outbox_store.py\<close>) is the control plane on PostgreSQL and
  \<open>TenantStore\<close> (\<open>infrastructure/stores/enterprise_postgres.py\<close>) the store that all tenants share under row level security, with
  its theorems in \<open>TenantIsolation\<close> and its jobs as a store for workers in \<open>TenantQueue\<close>; \<open>LegacyJobs\<close>
  (\<open>domain/models/legacy_job.py\<close>) is its predecessor, whose health \<open>Deployment\<close> reads. \<open>Resilience\<close>
  (\<open>core/exceptions.py\<close>, \<open>core/resilience.py\<close>) is the retry and circuit breaker code that callers of remote services use.

  The coding agent (\<open>agent/codeagent\<close>) edits a checkout for one user. \<open>Workspace\<close> (\<open>workspace.py\<close>) is the sandbox: path
  resolution, freshness of reads, atomic writes with checkpoints, undo, on an explicit file system of bytes. \<open>CodeTools\<close>
  (\<open>tools.py\<close>) are the tools the model calls, with the decoding and encoding of texts in \<open>Utf8\<close>, \<open>Permissions\<close> (\<open>permissions.py\<close>) the policy that decides each call, with its
  regular expressions over the engine of \<open>PyRegex\<close>, and \<open>AgentLoop\<close> (\<open>loop.py\<close>, \<open>events.py\<close>, \<open>hooks.py\<close> and the mentions of
  \<open>memory.py\<close>) the turn: stream, filter, calls, hooks, compaction, interrupts. \<open>TagFilter\<close>, \<open>AgentSafety\<close> and
  \<open>AgentProtocol\<close> are the theorems about it.

  zGPU is a pipeline. \<open>Zisa\<close> (\<open>zgpu/isa/instructions.py\<close>) is the 32-bit instruction codec, \<open>Assembler\<close>
  (\<open>isa/assembler.py\<close>) the two-pass assembler on top of it; \<open>Warp\<close>, \<open>GpuMemory\<close> and \<open>Sm\<close> (\<open>simulator/warp.py\<close>,
  \<open>memory.py\<close>, \<open>sm.py\<close>) are the multiprocessor that executes the words; \<open>Gpu\<close> (\<open>simulator/gpu.py\<close>,
  \<open>runtime/runtime.py\<close>, \<open>rtl/cosims.py\<close>) is the device with its launch loop, the host runtime and the co-simulation check;
  \<open>ZisaStudio\<close> (\<open>compiler/ast_compiler.py\<close>, \<open>integrations/zisa_studio.py\<close>) compiles expressions to assembly text
  and runs bounded programs for the dashboard.

  \<^bold>\<open>State and operations.\<close> A class with fields is a record with a prefix per class (\<open>w_pc\<close>, \<open>sm_warps\<close>), its
  constructor is \<open>..._new\<close>, a method is a function that takes the record and returns it updated; Python names are kept, with a
  short prefix where two classes share a method name (\<open>sq_claim_task\<close>, \<open>pg_claim_task\<close>). Enumerations are datatypes with a
  function to the string or number the code stores. A table is the list of its rows in insertion order, and an operation on
  it is one transaction, because the code wraps each in one. A raised exception is the \<open>Inl\<close> of a sum or \<open>None\<close>, next to the
  state that the statements before it left behind. Injected callbacks are functions over an arbitrary world \<open>'w\<close> that they read
  and change. Clock readings, random identifiers, SHA-256, HMAC, \<open>json.dumps\<close>, the Python parser, binary32 packing and double
  arithmetic are parameters. The prelude states the conventions for Python values in full.

  \<^bold>\<open>Interfaces.\<close> \<open>engineering_store\<close> (get, save, claim, list and what they promise each other) is interpreted by
  both stores; \<open>upgrade_ledger\<close> (finished work is never handed out again) by the JSON ledger and by the store ledger over
  either store, whose proof runs inside \<open>engineering_store\<close>; its extension \<open>durable_ledger\<close> (entries keep their ids,
  loading hands out unfinished entries, a checkpoint stores the states of the items it is given) by the JSON ledger, inside
  which the runs of the pipeline are reasoned about; \<open>run_lease\<close> (an attempt that wins makes the handle the owner, a
  release gives up only what the handle holds) by the lease file and by the advisory lock of the server; \<open>worker_store\<close>, which
  extends \<open>engineering_store\<close> by attempts and checkpoints that leave tasks alone, by both stores; \<open>fenced_jobs\<close> of \<open>JobQueue\<close>
  (growing tokens, mutations only for the current one, and what others may do to a job) by the SQLite control plane, by the one on
  PostgreSQL and by the jobs of an organisation in the tenant store, and the worker process is reasoned about inside it; \<open>admission_gate\<close> (a rejection reserves nothing, an answer is
  always given) by the plan gate and the durable gate; \<open>turn_relation\<close> (a relation that each executed call respects is
  respected by a whole turn) by the confinement of effects and by plan mode.

  \<^bold>\<open>What is shown.\<close> For the loop and its ledgers: completed work was validated, is recorded and is never repeated after a
  restart, interrupted work resumes, a regression stops the loop; a pipeline never executes what an earlier run completed, and
  a runner whose fence token is stale cannot save. For the stores and the control plane: a lease excludes other
  claims, stale fencing tokens mutate nothing, the outbox respects its budget and poison messages end dead, a webhook is
  accepted once. The run lease has one holder and taking it
  ends within its wait and the length of five calls of the system; campaigns run under it, do not repeat finished work and have their summaries delivered; a worker drains the
  queue; a worker process that stops gives back every job it still holds, on any of
  the stores, unless it had claimed the same job twice; and it may reopen one that just finished. Tenants are isolated: no operation of
  others changes their rows or what they read, a job is enqueued once per idempotency key, an existing quota is not overspent, a saved key
  authenticates; but the table of organisations itself is not guarded. For tenancy, policies, plans and admission: the conditions under which an action, a signature or a
  reservation is accepted, their monotonicity, and that the durable gate takes from its backend what it admits, no more and no less. For resilience: retries are bounded and report the first decisive
  outcome; an open breaker rejects until its timeout. For the agent: which calls run and what a turn can touch in each mode, undo
  as the inverse of a turn, exactness of edits on the text of a file and on its bytes where it is UTF-8, the reach of remembered rules, that the filter does not depend on the cut of the
  stream, and that every request and every stopped turn leaves a conversation whose calls are answered. For zGPU: decoding inverts encoding; labels resolve; a cycle keeps
  registers in 32 bits, masks disjoint and writes inside memory; lanes dropped at a join stay dropped; no ready warp starves; coalesced accesses
  equal single accesses; launches with a budget return, and straight-line programs return without one; allocations do not
  overlap; and the composition of compiler, assembler, host copies and simulator computes the source expression lane by lane.

  \<^bold>\<open>Bounds and fuel.\<close> The upgrade loop recurses on its iteration budget, retries on the remaining attempts, reconciliation on
  \<open>partial_function (option)\<close> with its end proved for every finite listing. The launch loop is \<open>partial_function (option)\<close>, where
  \<open>None\<close> is not returning: \<open>budgeted_launch_returns\<close> and \<open>straight_line_launch_returns\<close> prove that it returns. \<open>run_cycles\<close> runs a given
  number of cycles and is only used to quantify over it.

  So are the drain of the engineering worker and the wait for the lease file; \<open>sqlite_worker_drains_queue\<close> and
  \<open>file_lease_acquire_returns\<close> prove that they return. The agent's turn recurses on its limit of steps, as the code's \<open>for\<close> does; a stream is a finite list of chunks.

  \<^bold>\<open>Not modelled.\<close> For the agent: searching tools and the shell process (parameters that read files, and read and change
  them), redaction of the audit trail, prompt texts, and the web, terminal and MCP front ends. The command lines, dashboards, desktop and HTTP front ends, the MCP and tool registries, prompts and model
  catalogues only move data or describe it. The agents SDK, capabilities and integrations call remote models. Connection pools, catalogue queries,
  OIDC and OpenTelemetry are third-party calls. The numerical parts of
  zGPU's language model code rest on NumPy. Concurrency inside one process (threads, asyncio) is modelled for \<open>WorkerProcess\<close> only, whose heartbeats are not; elsewhere operations
  interleave at transactions. Signal files of maintenance campaigns are not read. Rounding of floating-point sums, strings beyond code point 255 (except in files), locks
  that a claim passes over (\<open>SKIP LOCKED\<close>), handlers that change the task they are given and failing disks are outside the model.
\<close>

end
